(* ===== verification/Prelude.thy ===== *)
theory Prelude
  imports Main "HOL-Library.AList" "HOL-Library.Multiset"
begin

text \<open>
  Shared vocabulary of the development.

  \<^item> \<open>json\<close>: the values that travel in \<open>dict[str, Any]\<close> and in JSONB columns, with the
    operations the code applies to them (\<open>.get\<close>, truth value, the \<open>|\<close> / \<open>||\<close> merge).
  \<^item> SQL tables as lists of rows: \<open>SELECT\<close>, \<open>EXISTS\<close>, \<open>UPDATE ... WHERE\<close>.
  \<^item> Interfaces stated as locales: \<open>keyed_update\<close> (what every \<open>UPDATE\<close> of a keyed table
    guarantees), \<open>transition_system\<close> and \<open>lifecycle\<close> (what a step relation and the status
    of its objects guarantee over whole runs).
  \<^item> The \<open>named_theorems\<close> collections the component theories fill.
\<close>

named_theorems row_simps "projections and effects of the UPDATE statements"
named_theorems txn_defs "definitions of the transactions of the operation store"
named_theorems inv_intros "per-step preservation facts"

section \<open>JSON values\<close>

datatype json =
    JNull
  | JBool bool
  | JInt int
  | JFloat int int \<comment> \<open>mantissa and decimal exponent of a number written as a float\<close>
  | JStr string
  | JList "json list"
  | JObj "(string \<times> json) list"

type_synonym jobj = "(string \<times> json) list"

text \<open>\<open>d.get(k)\<close> on a Python dict: None for a missing key.\<close>

definition dget :: "jobj \<Rightarrow> string \<Rightarrow> json" where
  "dget d k = (case map_of d k of None \<Rightarrow> JNull | Some v \<Rightarrow> v)"

definition jget :: "json \<Rightarrow> string \<Rightarrow> json" where
  "jget j k = (case j of JObj d \<Rightarrow> dget d k | _ \<Rightarrow> JNull)"

text \<open>Python's truth value of a decoded JSON value.\<close>

fun truthy :: "json \<Rightarrow> bool" where
  "truthy JNull = False"
| "truthy (JBool b) = b"
| "truthy (JInt n) = (n \<noteq> 0)"
| "truthy (JFloat m e) = (m \<noteq> 0)"
| "truthy (JStr s) = (s \<noteq> [])"
| "truthy (JList xs) = (xs \<noteq> [])"
| "truthy (JObj d) = (d \<noteq> [])"

text \<open>\<open>a | b\<close> on dicts, and \<open>a || b\<close> on JSONB objects: the right operand wins.\<close>

definition dmerge :: "jobj \<Rightarrow> jobj \<Rightarrow> jobj" where
  "dmerge a b = foldl (\<lambda>m (k, v). AList.update k v m) a b"

lemma dget_Nil [simp]: "dget [] k = JNull"
  by (simp add: dget_def)

lemma dget_Cons [simp]: "dget ((k', v) # d) k = (if k = k' then v else dget d k)"
  by (auto simp: dget_def)

lemma dmerge_Nil [simp]: "dmerge a [] = a"
  by (simp add: dmerge_def)

lemma dmerge_Cons [simp]: "dmerge a ((k, v) # b) = dmerge (AList.update k v a) b"
  by (simp add: dmerge_def)

lemma map_of_dmerge: "distinct (map fst b) \<Longrightarrow> map_of (dmerge a b) = map_of a ++ map_of b"
proof (induction b arbitrary: a)
  case Nil
  then show ?case by simp
next
  case (Cons p b)
  obtain k v where p: "p = (k, v)" by (cases p)
  with Cons have "map_of (dmerge (AList.update k v a) b) = (map_of a)(k \<mapsto> v) ++ map_of b"
    by (simp add: update_conv')
  moreover have "k \<notin> dom (map_of b)"
    using Cons.prems p by (simp add: dom_map_of_conv_image_fst)
  ultimately show ?case
    using p by (auto simp: map_add_upd_left fun_eq_iff map_add_def split: option.splits)
qed

section \<open>Optional values\<close>

definition jopt_str :: "string option \<Rightarrow> json" where
  "jopt_str x = (case x of None \<Rightarrow> JNull | Some s \<Rightarrow> JStr s)"

definition jopt_int :: "int option \<Rightarrow> json" where
  "jopt_int x = (case x of None \<Rightarrow> JNull | Some n \<Rightarrow> JInt n)"

text \<open>The decimal rendering \<open>str(n)\<close> of an integer.\<close>

fun digits_of_nat :: "nat \<Rightarrow> string" where
  "digits_of_nat n =
     (if n < 10 then [char_of (48 + n)] else digits_of_nat (n div 10) @ [char_of (48 + n mod 10)])"

declare digits_of_nat.simps [simp del]

definition show_int :: "int \<Rightarrow> string" where
  "show_int i = (if i < 0 then ''-'' @ digits_of_nat (nat (- i)) else digits_of_nat (nat i))"

definition show_opt_int :: "int option \<Rightarrow> string" where
  "show_opt_int x = (case x of None \<Rightarrow> ''None'' | Some n \<Rightarrow> show_int n)"

definition show_opt_str :: "string option \<Rightarrow> string" where
  "show_opt_str x = (case x of None \<Rightarrow> ''None'' | Some s \<Rightarrow> s)"

section \<open>Fallible code\<close>

text \<open>A raise is \<open>Inl\<close>; what follows it does not run.\<close>

definition ebind :: "'e + 'a \<Rightarrow> ('a \<Rightarrow> 'e + 'b) \<Rightarrow> 'e + 'b" where
  "ebind m f = (case m of Inl e \<Rightarrow> Inl e | Inr x \<Rightarrow> f x)"

lemma ebind_simps [simp]: "ebind (Inl e) f = Inl e" "ebind (Inr x) f = f x"
  by (simp_all add: ebind_def)

lemma ebind_InrE: "ebind m f = Inr y \<Longrightarrow> (\<And>x. m = Inr x \<Longrightarrow> f x = Inr y \<Longrightarrow> P) \<Longrightarrow> P"
  by (cases m) auto

lemma ebind_cong [fundef_cong]:
  "m = m' \<Longrightarrow> (\<And>x. m' = Inr x \<Longrightarrow> f x = g x) \<Longrightarrow> ebind m f = ebind m' g"
  by (auto simp: ebind_def split: sum.splits)

definition ensure :: "'e \<Rightarrow> bool \<Rightarrow> 'e + unit" where
  "ensure e b = (if b then Inr () else Inl e)"

lemma ensure_simps [simp]: "ensure e True = Inr ()" "ensure e False = Inl e"
  "ensure e b = Inr u \<longleftrightarrow> b"
  by (simp_all add: ensure_def)

fun emap :: "('a \<Rightarrow> 'e + 'b) \<Rightarrow> 'a list \<Rightarrow> 'e + 'b list" where
  "emap f [] = Inr []"
| "emap f (x # xs) = ebind (f x) (\<lambda>y. ebind (emap f xs) (\<lambda>ys. Inr (y # ys)))"

lemma emap_roundtrip: "(\<And>x. x \<in> set xs \<Longrightarrow> f (g x) = Inr x) \<Longrightarrow> emap f (map g xs) = Inr xs"
  by (induction xs) auto

lemma emap_Inr_iff: "emap f xs = Inr ys \<longleftrightarrow> list_all2 (\<lambda>x y. f x = Inr y) xs ys"
proof (induction xs arbitrary: ys)
  case Nil
  then show ?case by auto
next
  case (Cons x xs)
  show ?case
  proof (cases "f x")
    case (Inl e)
    then show ?thesis by (auto simp: list_all2_Cons1)
  next
    case (Inr y)
    then show ?thesis
    proof (cases "emap f xs")
      case (Inl e)
      with Inr Cons.IH show ?thesis by (auto simp: list_all2_Cons1)
    next
      case (Inr zs)
      with \<open>f x = Inr y\<close> Cons.IH show ?thesis by (auto simp: list_all2_Cons1)
    qed
  qed
qed

section \<open>Strings and sorting\<close>

text \<open>
  A Python string is a list of characters; the characters of the model are the code points
  0 to 255. \<open>str.strip\<close> removes what \<open>str.isspace\<close> accepts among them.
\<close>

definition py_space :: "char \<Rightarrow> bool" where
  "py_space c = (let n = (of_char c :: nat)
                 in (9 \<le> n \<and> n \<le> 13) \<or> (28 \<le> n \<and> n \<le> 32) \<or> n = 133 \<or> n = 160)"

definition py_strip :: "string \<Rightarrow> string" where
  "py_strip s = rev (dropWhile py_space (rev (dropWhile py_space s)))"

fun str_le :: "string \<Rightarrow> string \<Rightarrow> bool" where
  "str_le [] ys = True"
| "str_le (x # xs) [] = False"
| "str_le (x # xs) (y # ys) =
     (of_char x < (of_char y :: nat) \<or> (x = y \<and> str_le xs ys))"

text \<open>\<open>sorted\<close> and \<open>ORDER BY\<close>: a stable insertion sort by a comparison.\<close>

fun insert_by :: "('a \<Rightarrow> 'a \<Rightarrow> bool) \<Rightarrow> 'a \<Rightarrow> 'a list \<Rightarrow> 'a list" where
  "insert_by le x [] = [x]"
| "insert_by le x (y # ys) = (if le x y then x # y # ys else y # insert_by le x ys)"

definition sort_by :: "('a \<Rightarrow> 'a \<Rightarrow> bool) \<Rightarrow> 'a list \<Rightarrow> 'a list" where
  "sort_by le xs = foldr (insert_by le) xs []"

lemma set_insert_by [simp]: "set (insert_by le x ys) = insert x (set ys)"
  by (induction ys) auto

lemma sort_by_Nil [simp]: "sort_by le [] = []"
  by (simp add: sort_by_def)

lemma sort_by_Cons [simp]: "sort_by le (x # xs) = insert_by le x (sort_by le xs)"
  by (simp add: sort_by_def)

lemma set_sort_by [simp]: "set (sort_by le xs) = set xs"
  by (induction xs) auto

lemma mset_insert_by [simp]: "mset (insert_by le x ys) = add_mset x (mset ys)"
  by (induction ys) auto

lemma mset_sort_by [simp]: "mset (sort_by le xs) = mset xs"
  by (induction xs) auto

lemma length_sort_by [simp]: "length (sort_by le xs) = length xs"
  by (metis mset_sort_by size_mset)

lemma sorted_insert_by:
  assumes "\<And>a b. le a b \<or> le b a" and "\<And>a b c. le a b \<Longrightarrow> le b c \<Longrightarrow> le a c"
  shows "sorted_wrt le ys \<Longrightarrow> sorted_wrt le (insert_by le x ys)"
proof (induction ys)
  case Nil
  then show ?case by simp
next
  case (Cons y ys)
  have "le y x" if "\<not> le x y" using that assms(1) [of x y] by blast
  with Cons show ?case by (cases "le x y") (auto intro: assms(2))
qed

lemma sorted_sort_by:
  assumes "\<And>a b. le a b \<or> le b a" and "\<And>a b c. le a b \<Longrightarrow> le b c \<Longrightarrow> le a c"
  shows "sorted_wrt le (sort_by le xs)"
  by (induction xs) (simp_all add: sorted_insert_by assms)

section \<open>Tables as lists of rows\<close>

definition row_at :: "('r \<Rightarrow> 'k) \<Rightarrow> 'r list \<Rightarrow> 'k \<Rightarrow> 'r option" where
  "row_at key t k = List.find (\<lambda>r. key r = k) t"

definition upd_where :: "('r \<Rightarrow> bool) \<Rightarrow> ('r \<Rightarrow> 'r) \<Rightarrow> 'r list \<Rightarrow> 'r list" where
  "upd_where P f t = map (\<lambda>r. if P r then f r else r) t"

definition count_where :: "('r \<Rightarrow> bool) \<Rightarrow> 'r list \<Rightarrow> nat" where
  "count_where P t = length (filter P t)"

lemma row_at_Nil [simp]: "row_at key [] k = None"
  by (simp add: row_at_def)

lemma row_at_Cons [simp]: "row_at key (r # t) k = (if key r = k then Some r else row_at key t k)"
  by (simp add: row_at_def)

lemma row_at_append:
  "row_at key (t @ u) k = (case row_at key t k of None \<Rightarrow> row_at key u k | Some r \<Rightarrow> Some r)"
  by (induction t) auto

lemma row_at_SomeD: "row_at key t k = Some r \<Longrightarrow> r \<in> set t \<and> key r = k"
  by (induction t) (auto split: if_splits)

lemma row_at_None_iff: "row_at key t k = None \<longleftrightarrow> (\<forall>r \<in> set t. key r \<noteq> k)"
  by (induction t) auto

lemma row_at_unique:
  "distinct (map key t) \<Longrightarrow> r \<in> set t \<Longrightarrow> row_at key t (key r) = Some r"
  by (induction t) auto

lemma upd_where_Nil [simp]: "upd_where P f [] = []"
  by (simp add: upd_where_def)

lemma upd_where_Cons [simp]:
  "upd_where P f (r # t) = (if P r then f r else r) # upd_where P f t"
  by (simp add: upd_where_def)

lemma set_upd_where: "set (upd_where P f t) = {if P r then f r else r | r. r \<in> set t}"
  by (auto simp: upd_where_def)

lemma ball_upd_where: "(\<forall>r \<in> set (upd_where P f t). Q r) \<longleftrightarrow>
    (\<forall>r \<in> set t. if P r then Q (f r) else Q r)"
  by (auto simp: upd_where_def)

lemma upd_where_idle: "(\<And>r. r \<in> set t \<Longrightarrow> \<not> P r) \<Longrightarrow> upd_where P f t = t"
  by (induction t) auto

lemma distinct_append_row:
  "distinct (map key t) \<Longrightarrow> row_at key t (key r) = None \<Longrightarrow> distinct (map key (t @ [r]))"
  by (auto simp: row_at_None_iff)

text \<open>
  What an \<open>UPDATE ... SET f WHERE P\<close> promises about a keyed table when the columns it sets
  leave the key alone.
\<close>

locale keyed_update =
  fixes key :: "'r \<Rightarrow> 'k"
    and guard :: "'r \<Rightarrow> bool"
    and assign :: "'r \<Rightarrow> 'r"
  assumes key_kept: "guard r \<Longrightarrow> key (assign r) = key r"
begin

lemma keys_kept: "map key (upd_where guard assign t) = map key t"
  by (induction t) (auto simp: key_kept)

lemma distinct_kept: "distinct (map key t) \<Longrightarrow> distinct (map key (upd_where guard assign t))"
  by (simp add: keys_kept)

lemma row_at_upd:
  "row_at key (upd_where guard assign t) k =
     map_option (\<lambda>r. if guard r then assign r else r) (row_at key t k)"
  by (induction t) (auto simp: key_kept)

lemma absent_kept: "row_at key t k = None \<Longrightarrow> row_at key (upd_where guard assign t) k = None"
  by (simp add: row_at_upd)

end

section \<open>Transition systems\<close>

text \<open>
  The interface every stateful component meets: a step relation and a predicate that each
  step keeps. Clients get the predicate for whole runs.
\<close>

locale transition_system =
  fixes step :: "'s \<Rightarrow> 's \<Rightarrow> bool"
    and inv :: "'s \<Rightarrow> bool"
  assumes inv_step: "step s t \<Longrightarrow> inv s \<Longrightarrow> inv t"
begin

lemma inv_run: "rtranclp step s t \<Longrightarrow> inv s \<Longrightarrow> inv t"
  by (induction rule: rtranclp_induct) (auto intro: inv_step)

lemma stable_run:
  assumes stable: "\<And>a b. step a b \<Longrightarrow> inv a \<Longrightarrow> P a \<Longrightarrow> P b"
    and run: "rtranclp step s t" and "inv s" and "P s"
  shows "P t"
  using run
proof (induction rule: rtranclp_induct)
  case base
  show ?case by fact
next
  case (step b c)
  have "inv b" using step.hyps(1) \<open>inv s\<close> by (rule inv_run)
  with step show ?case by (blast intro: stable)
qed

end

text \<open>
  A transition system whose objects carry a status that only moves along the edges of a
  graph. Over a run the status follows a path of the graph, so a status without successors
  is final.
\<close>

locale lifecycle = transition_system step inv
  for step :: "'s \<Rightarrow> 's \<Rightarrow> bool" and inv :: "'s \<Rightarrow> bool" +
  fixes status :: "'s \<Rightarrow> 'k \<Rightarrow> 'st option"
    and edge :: "'st \<Rightarrow> 'st \<Rightarrow> bool"
  assumes status_step:
    "step s t \<Longrightarrow> inv s \<Longrightarrow> status s k = Some a \<Longrightarrow>
       \<exists>b. status t k = Some b \<and> (b = a \<or> edge a b)"
begin

lemma status_run:
  assumes run: "rtranclp step s t" and inv: "inv s" and st: "status s k = Some a"
  shows "\<exists>b. status t k = Some b \<and> rtranclp edge a b"
  using run
proof (induction rule: rtranclp_induct)
  case base
  show ?case using st by blast
next
  case (step u v)
  from step.hyps(1) inv have "inv u" by (rule inv_run)
  with step obtain b where "status u k = Some b" "rtranclp edge a b" by blast
  with status_step [OF step.hyps(2) \<open>inv u\<close>] show ?case
    by (metis rtranclp.rtrancl_into_rtrancl)
qed

lemma final_status:
  assumes "rtranclp step s t" and "inv s" and "status s k = Some a"
    and final: "\<And>b. \<not> edge a b"
  shows "status t k = Some a"
proof -
  obtain b where b: "status t k = Some b" "rtranclp edge a b"
    using status_run [OF assms(1-3)] by blast
  from b(2) have "b = a" by (cases rule: converse_rtranclpE) (auto simp: final)
  with b show ?thesis by simp
qed

end

end
