(* ===== verification/Maintenance_Hold.thy ===== *)
theory Maintenance_Hold
  imports Prelude
begin

text \<open>
  The platform-wide maintenance hold: the entity of
  \<open>src/backend/app/domain/entities/maintenance.py\<close> and its repository,
  \<open>src/backend/app/adapters/persistence/repositories/maintenance.py\<close>. The table
  \<open>maintenance_control\<close> has one row at most, so it is an option; each change is one
  conditional UPDATE that returns the new row, or nothing when its condition fails.
\<close>

datatype maintenance_phase = NormalPhase | MaintenancePhase

record maintenance_state =
  admission_closed :: bool
  m_phase :: maintenance_phase
  epoch :: int
  revision :: int
  message :: "string option"
  expected_return_at :: "int option"
  changed_by :: "string option"
  changed_at :: "int option"

definition serving :: "maintenance_state \<Rightarrow> bool" where
  "serving s \<longleftrightarrow> \<not> admission_closed s"

definition session_valid :: "maintenance_state \<Rightarrow> int \<Rightarrow> bool \<Rightarrow> bool" where
  "session_valid s session_epoch platform_admin \<longleftrightarrow> platform_admin \<or> session_epoch \<ge> epoch s"

definition NORMAL :: maintenance_state where
  "NORMAL = \<lparr>admission_closed = False, m_phase = NormalPhase, epoch = 0, revision = 0,
             message = None, expected_return_at = None, changed_by = None, changed_at = None\<rparr>"

text \<open>\<open>read\<close>: an unmigrated schema raises RuntimeError.\<close>

definition hold_read :: "maintenance_state option \<Rightarrow> string + maintenance_state" where
  "hold_read row =
     (case row of
        None \<Rightarrow> Inl ''maintenance_control has no row; run the migrations''
      | Some s \<Rightarrow> Inr s)"

text \<open>\<open>_change\<close>: (the returned row, the table after).\<close>

definition hold_change ::
  "(maintenance_state \<Rightarrow> bool) \<Rightarrow> (maintenance_state \<Rightarrow> maintenance_state) \<Rightarrow> int
     \<Rightarrow> maintenance_state option \<Rightarrow> maintenance_state option \<times> maintenance_state option" where
  "hold_change condition values now row =
     (case row of
        None \<Rightarrow> (None, None)
      | Some s \<Rightarrow>
          if condition s
          then (let t = (values s)\<lparr>revision := revision s + 1, changed_at := Some now\<rparr>
                in (Some t, Some t))
          else (None, Some s))"

definition hold_close ::
  "string \<Rightarrow> string option \<Rightarrow> int option \<Rightarrow> int \<Rightarrow> maintenance_state option
     \<Rightarrow> maintenance_state option \<times> maintenance_state option" where
  "hold_close by msg expected now =
     hold_change (\<lambda>s. \<not> admission_closed s)
       (\<lambda>s. s\<lparr>admission_closed := True, m_phase := MaintenancePhase, epoch := epoch s + 1,
              message := msg, expected_return_at := expected, changed_by := Some by\<rparr>) now"

definition hold_reopen ::
  "string \<Rightarrow> int \<Rightarrow> maintenance_state option
     \<Rightarrow> maintenance_state option \<times> maintenance_state option" where
  "hold_reopen by now =
     hold_change (\<lambda>s. admission_closed s)
       (\<lambda>s. s\<lparr>admission_closed := False, m_phase := NormalPhase, changed_by := Some by\<rparr>) now"

definition hold_set_message ::
  "string \<Rightarrow> string option \<Rightarrow> int option \<Rightarrow> int \<Rightarrow> int \<Rightarrow> maintenance_state option
     \<Rightarrow> maintenance_state option \<times> maintenance_state option" where
  "hold_set_message by msg expected expected_revision now =
     hold_change (\<lambda>s. revision s = expected_revision)
       (\<lambda>s. s\<lparr>message := msg, expected_return_at := expected, changed_by := Some by\<rparr>) now"

lemmas hold_defs = hold_change_def hold_close_def hold_reopen_def hold_set_message_def

section \<open>The changes as steps\<close>

inductive hold_step :: "maintenance_state option \<Rightarrow> maintenance_state option \<Rightarrow> bool" where
  hs_close: "hold_step row (snd (hold_close by msg expected now row))"
| hs_reopen: "hold_step row (snd (hold_reopen by now row))"
| hs_message: "hold_step row (snd (hold_set_message by msg expected expected_revision now row))"

text \<open>The phase always says what \<open>admission_closed\<close> says, and an unmigrated table stays so.\<close>

definition hold_inv :: "maintenance_state option \<Rightarrow> bool" where
  "hold_inv row = (case row of None \<Rightarrow> True
     | Some s \<Rightarrow> (m_phase s = MaintenancePhase) = admission_closed s)"

lemma hold_step_inv: "hold_step s t \<Longrightarrow> hold_inv s \<Longrightarrow> hold_inv t"
  by (induction rule: hold_step.induct)
     (auto simp: hold_inv_def hold_defs Let_def split: option.splits)

interpretation hold: transition_system hold_step hold_inv
  by unfold_locales (rule hold_step_inv)

definition hold_epoch_of :: "maintenance_state option \<Rightarrow> int option" where
  "hold_epoch_of row = map_option epoch row"

lemma hold_step_epoch:
  "hold_step s t \<Longrightarrow> s = Some a \<Longrightarrow> \<exists>b. t = Some b \<and> epoch a \<le> epoch b
     \<and> (epoch a = epoch b \<or> admission_closed b)"
  by (induction rule: hold_step.induct)
     (auto simp: hold_defs Let_def split: option.splits)

lemma hold_run_epoch:
  assumes run: "rtranclp hold_step (Some a) t"
  shows "\<exists>b. t = Some b \<and> epoch a \<le> epoch b"
  using run
proof (induction rule: rtranclp_induct)
  case base
  show ?case by simp
next
  case (step y z)
  then obtain b where b: "y = Some b" "epoch a \<le> epoch b" by blast
  from hold_step_epoch [OF step.hyps(2) b(1)] b(2) show ?case by fastforce
qed

end
