(* ===== verification/Operation_Store.thy ===== *)
theory Operation_Store
  imports Maintenance_Hold
begin

text \<open>
  The node agent's durable operations (\<open>src/backend/app/node_agent/store.py\<close>).

  The database is the record \<open>db\<close>: tables are lists of rows, as in \<^theory_text>\<open>Prelude\<close>. Every
  method of \<open>OperationStore\<close> is one transaction under the advisory locks named there, so it is
  one function \<open>db \<Rightarrow> (store_error + 'a) \<times> db\<close>; an exception rolls the transaction back. Each
  \<open>UPDATE\<close> statement is a pair of definitions, its WHERE clause (\<open>..._where\<close>) and its SET
  list (\<open>..._set\<close>). The clock (\<open>now()\<close>) is an argument.
\<close>

section \<open>Rows\<close>

datatype op_state = Accepted | Running | OutcomeUnknown | Completed | Failed | CancelledUnsent

record operation =
  node_id :: string
  op_id :: string
  kind :: string
  op_state :: op_state
  origin_generation :: int
  origin_boot_id :: string
  owner_generation :: int
  request_id :: "string option"
  payload_hash :: "string option"
  store_output :: bool
  reason :: "string option"
  terminal :: "json option"
  replay_unavailable :: bool
  provenance :: jobj
  observed :: "json option"
  submitted_at :: int
  running_at :: "int option"
  resolved_at :: "int option"
  resolved_by :: "string option"

record ownership =
  own_node :: string
  own_generation :: int
  own_boot_id :: string

record agent_row =
  ag_node :: string
  ag_generation :: int
  ag_boot_id :: "string option"
  ag_kernel_boot_id :: "string option"
  ag_backend_pid :: "int option"
  ag_started_at :: "int option"

record node_row =
  nd_id :: string
  nd_lock_domain :: "string option"

record audit_row =
  au_node :: string
  au_op :: "string option"
  au_event :: string
  au_detail :: json

record pin_row =
  pin_node :: string
  pin_runtime :: string
  pin_ref :: string
  pin_digest :: "string option"

record db =
  nodes :: "node_row list"
  agents :: "agent_row list"
  operations :: "operation list"
  results :: "((string \<times> string) \<times> json) list"
  audits :: "audit_row list"
  control :: "maintenance_state option"
  models :: "pin_row list"
  election_locks :: "(string \<times> int) list" \<comment> \<open>session advisory locks: node and backend pid\<close>
  audit_up :: bool \<comment> \<open>whether an audit insert outside a transaction succeeds\<close>

datatype store_error =
    NotOwner string
  | SummaryBusy
  | AdmissionClosed "int option"
  | BadState string
  | NotAnObject string

type_synonym 'a txn = "db \<Rightarrow> (store_error + 'a) \<times> db"

definition LIFECYCLE_KINDS :: "string list" where
  "LIFECYCLE_KINDS = [''load'', ''unload'', ''pull'', ''repin'']"

definition RESTORE_KINDS :: "string list" where
  "RESTORE_KINDS = [''load'', ''probe'']"

abbreviation op_key :: "operation \<Rightarrow> string \<times> string" where
  "op_key r \<equiv> (node_id r, op_id r)"

abbreviation op_at :: "db \<Rightarrow> string \<times> string \<Rightarrow> operation option" where
  "op_at d k \<equiv> row_at op_key (operations d) k"

abbreviation agent_at :: "db \<Rightarrow> string \<Rightarrow> agent_row option" where
  "agent_at d n \<equiv> row_at ag_node (agents d) n"

section \<open>Transactions that prove ownership\<close>

definition audit_insert :: "string \<Rightarrow> string option \<Rightarrow> string \<Rightarrow> json \<Rightarrow> db \<Rightarrow> db" where
  "audit_insert n oid event detail d =
     d\<lparr>audits := audits d @ [\<lparr>au_node = n, au_op = oid, au_event = event, au_detail = detail\<rparr>]\<rparr>"

text \<open>\<open>_prove_ownership\<close>: None when the proof succeeds, otherwise the message of \<open>NotOwner\<close>.\<close>

definition prove_ownership :: "ownership \<Rightarrow> db \<Rightarrow> string option" where
  "prove_ownership w d =
     (let row = agent_at d (own_node w);
          refusal = ''node '' @ own_node w @ '' is owned by generation ''
            @ show_opt_int (map_option ag_generation row) @ '', not ''
            @ show_int (own_generation w)
      in case row of
           None \<Rightarrow> Some refusal
         | Some a \<Rightarrow>
             if ag_generation a \<noteq> own_generation w \<or> ag_boot_id a \<noteq> Some (own_boot_id w)
             then Some refusal else None)"

definition owns :: "ownership \<Rightarrow> db \<Rightarrow> bool" where
  "owns w d \<longleftrightarrow> prove_ownership w d = None"

text \<open>
  \<open>_owned\<close>: the body runs inside a transaction whose first act is the proof. A refusal is
  audited as \<open>stale_<action>\<close>, best effort, and raised; any exception of the body rolls back.
\<close>

definition owned :: "ownership \<Rightarrow> string \<Rightarrow> string option \<Rightarrow> 'a txn \<Rightarrow> 'a txn" where
  "owned w action oid body d =
     (case prove_ownership w d of
        Some msg \<Rightarrow>
          (Inl (NotOwner msg),
           if audit_up d
           then audit_insert (own_node w) oid (''stale_'' @ action)
                  (JObj [(''generation'', JInt (own_generation w)),
                         (''boot_id'', JStr (own_boot_id w)), (''error'', JStr msg)]) d
           else d)
      | None \<Rightarrow>
          (case body d of
             (Inl e, _) \<Rightarrow> (Inl e, d)
           | (Inr x, d') \<Rightarrow> (Inr x, d')))"

section \<open>Reads\<close>

definition observe :: "string \<Rightarrow> string \<Rightarrow> db \<Rightarrow> operation option" where
  "observe n oid d = op_at d (n, oid)"

definition stored_result :: "string \<Rightarrow> string \<Rightarrow> db \<Rightarrow> store_error + jobj option" where
  "stored_result n oid d =
     (case map_of (results d) (n, oid) of
        None \<Rightarrow> Inr None
      | Some (JObj x) \<Rightarrow> Inr (Some x)
      | Some _ \<Rightarrow> Inl (NotAnObject oid))"

definition maintenance_hold :: "db \<Rightarrow> bool \<times> int option" where
  "maintenance_hold d =
     (case control d of
        None \<Rightarrow> (True, None)
      | Some h \<Rightarrow> (admission_closed h, Some (epoch h)))"

definition any_unknown :: "string \<Rightarrow> db \<Rightarrow> bool" where
  "any_unknown n d \<longleftrightarrow>
     list_ex (\<lambda>r. node_id r = n \<and> op_state r = OutcomeUnknown) (operations d)"

text \<open>\<open>ORDER BY op_id\<close>; the collation compares code points.\<close>

definition unknown_ops :: "string \<Rightarrow> db \<Rightarrow> string list" where
  "unknown_ops n d =
     sort_by str_le (map op_id
       (filter (\<lambda>r. node_id r = n \<and> op_state r = OutcomeUnknown) (operations d)))"

text \<open>\<open>detail->>'k' = s\<close>: the text of a string member.\<close>

definition jtext :: "json \<Rightarrow> string \<Rightarrow> string option" where
  "jtext j k = (case jget j k of JStr s \<Rightarrow> Some s | JInt i \<Rightarrow> Some (show_int i) | _ \<Rightarrow> None)"

definition audited :: "string \<Rightarrow> string \<Rightarrow> string \<Rightarrow> db \<Rightarrow> jobj option" where
  "audited n event reset_id d =
     (case List.find (\<lambda>a. au_node a = n \<and> au_event a = event
                        \<and> jtext (au_detail a) ''reset_id'' = Some reset_id)
             (rev (audits d)) of
        None \<Rightarrow> None
      | Some a \<Rightarrow> (case au_detail a of JObj x \<Rightarrow> Some x | _ \<Rightarrow> None))"

section \<open>Writes\<close>

subsection \<open>insert\_accepted\<close>

definition new_accepted ::
  "ownership \<Rightarrow> string \<Rightarrow> string \<Rightarrow> string option \<Rightarrow> string option \<Rightarrow> bool \<Rightarrow> int \<Rightarrow> operation" where
  "new_accepted w oid k req ph store now =
     \<lparr>node_id = own_node w, op_id = oid, kind = k, op_state = Accepted,
      origin_generation = own_generation w, origin_boot_id = own_boot_id w,
      owner_generation = own_generation w, request_id = req, payload_hash = ph,
      store_output = store, reason = None, terminal = None, replay_unavailable = False,
      provenance = [], observed = None, submitted_at = now, running_at = None,
      resolved_at = None, resolved_by = None\<rparr>"

definition outstanding :: "op_state \<Rightarrow> bool" where
  "outstanding s \<longleftrightarrow> s = Accepted \<or> s = Running \<or> s = OutcomeUnknown"

definition other_summary :: "string \<Rightarrow> string \<Rightarrow> operation \<Rightarrow> bool" where
  "other_summary n oid r \<longleftrightarrow>
     node_id r = n \<and> kind r = ''summary'' \<and> outstanding (op_state r) \<and> op_id r \<noteq> oid"

definition insert_accepted ::
  "ownership \<Rightarrow> string \<Rightarrow> string \<Rightarrow> string option \<Rightarrow> string option \<Rightarrow> bool \<Rightarrow> int
     \<Rightarrow> operation option txn" where
  "insert_accepted w oid k req ph store now =
     owned w ''insert'' (Some oid) (\<lambda>d.
       if k = ''summary'' \<and> list_ex (other_summary (own_node w) oid) (operations d)
       then (Inl SummaryBusy, d)
       else (case op_at d (own_node w, oid) of
               Some _ \<Rightarrow> (Inr None, d)
             | None \<Rightarrow>
                 (let r = new_accepted w oid k req ph store now
                  in (Inr (Some r), d\<lparr>operations := operations d @ [r]\<rparr>))))"

subsection \<open>promote\<close>

text \<open>The maintenance hold as \<open>promote\<close> reads it: None admits, otherwise the epoch refused at.\<close>

definition hold_refuses :: "int option \<Rightarrow> maintenance_state option \<Rightarrow> int option option" where
  "hold_refuses at h =
     (case at of
        Some e \<Rightarrow>
          (case h of
             None \<Rightarrow> Some None
           | Some row \<Rightarrow>
               if \<not> admission_closed row \<or> epoch row \<noteq> e then Some (Some (epoch row))
               else None)
      | None \<Rightarrow>
          (case h of
             None \<Rightarrow> Some None
           | Some row \<Rightarrow> if admission_closed row then Some (Some (epoch row)) else None))"

definition promote_where :: "ownership \<Rightarrow> string \<Rightarrow> operation \<Rightarrow> bool" where
  "promote_where w oid r \<longleftrightarrow>
     node_id r = own_node w \<and> op_id r = oid \<and> op_state r = Accepted
     \<and> owner_generation r = own_generation w"

definition promote_set :: "jobj \<Rightarrow> int \<Rightarrow> operation \<Rightarrow> operation" where
  "promote_set prov now r =
     r\<lparr>op_state := Running, running_at := Some now, provenance := dmerge (provenance r) prov\<rparr>"

definition promote :: "ownership \<Rightarrow> string \<Rightarrow> jobj \<Rightarrow> int option \<Rightarrow> int \<Rightarrow> bool txn" where
  "promote w oid prov at now =
     owned w ''promotion'' (Some oid) (\<lambda>d.
       case hold_refuses at (control d) of
         Some e \<Rightarrow> (Inl (AdmissionClosed e), d)
       | None \<Rightarrow>
           if any_unknown (own_node w) d then (Inr False, d)
           else (Inr (list_ex (promote_where w oid) (operations d)),
                 d\<lparr>operations :=
                     upd_where (promote_where w oid) (promote_set prov now) (operations d)\<rparr>))"

subsection \<open>cancel\_accepted\<close>

definition tombstone :: "ownership \<Rightarrow> string \<Rightarrow> string \<Rightarrow> string \<Rightarrow> int \<Rightarrow> operation" where
  "tombstone w oid rsn k now =
     (new_accepted w oid k None None False now)
       \<lparr>op_state := CancelledUnsent, reason := Some rsn, resolved_at := Some now,
        resolved_by := Some ''cancel''\<rparr>"

definition cancel_set :: "string \<Rightarrow> int \<Rightarrow> operation \<Rightarrow> operation" where
  "cancel_set rsn now r =
     r\<lparr>op_state := CancelledUnsent, reason := Some rsn, resolved_at := Some now,
       resolved_by := Some ''cancel''\<rparr>"

definition cancel_accepted :: "ownership \<Rightarrow> string \<Rightarrow> string \<Rightarrow> string \<Rightarrow> int \<Rightarrow> operation option txn"
  where
  "cancel_accepted w oid rsn k now =
     owned w ''cancel'' (Some oid) (\<lambda>d.
       let d' = (case op_at d (own_node w, oid) of
                   None \<Rightarrow> d\<lparr>operations := operations d @ [tombstone w oid rsn k now]\<rparr>
                 | Some _ \<Rightarrow>
                     d\<lparr>operations :=
                         upd_where (promote_where w oid) (cancel_set rsn now) (operations d)\<rparr>)
       in (Inr (op_at d' (own_node w, oid)), d'))"

subsection \<open>Writes on a running operation\<close>

definition running_where :: "ownership \<Rightarrow> string \<Rightarrow> operation \<Rightarrow> bool" where
  "running_where w oid r \<longleftrightarrow>
     node_id r = own_node w \<and> op_id r = oid \<and> op_state r = Running
     \<and> owner_generation r = own_generation w"

definition unknown_set :: "string \<Rightarrow> json \<Rightarrow> operation \<Rightarrow> operation" where
  "unknown_set rsn obs r = r\<lparr>op_state := OutcomeUnknown, reason := Some rsn, observed := Some obs\<rparr>"

definition mark_unknown :: "ownership \<Rightarrow> string \<Rightarrow> string \<Rightarrow> json \<Rightarrow> bool txn" where
  "mark_unknown w oid rsn obs =
     owned w ''unknown'' (Some oid) (\<lambda>d.
       (Inr (list_ex (running_where w oid) (operations d)),
        d\<lparr>operations := upd_where (running_where w oid) (unknown_set rsn obs) (operations d)\<rparr>))"

definition checkpoint_set :: "json \<Rightarrow> operation \<Rightarrow> operation" where
  "checkpoint_set obs r = r\<lparr>observed := Some obs\<rparr>"

definition checkpoint :: "ownership \<Rightarrow> string \<Rightarrow> json \<Rightarrow> unit txn" where
  "checkpoint w oid obs =
     owned w ''checkpoint'' (Some oid) (\<lambda>d.
       (Inr (),
        d\<lparr>operations := upd_where (running_where w oid) (checkpoint_set obs) (operations d)\<rparr>))"

definition finish_set ::
  "op_state \<Rightarrow> json \<Rightarrow> string option \<Rightarrow> bool \<Rightarrow> int \<Rightarrow> operation \<Rightarrow> operation" where
  "finish_set st term rsn replay now r =
     r\<lparr>op_state := st, terminal := Some term, reason := rsn, replay_unavailable := replay,
       resolved_at := Some now, resolved_by := Some ''runtime''\<rparr>"

definition finish ::
  "ownership \<Rightarrow> string \<Rightarrow> op_state \<Rightarrow> json \<Rightarrow> json option \<Rightarrow> string option \<Rightarrow> bool \<Rightarrow> int \<Rightarrow> bool txn"
  where
  "finish w oid st term result rsn replay now d =
     (if st \<noteq> Completed \<and> st \<noteq> Failed then (Inl (BadState ''not a terminal state''), d)
      else owned w ''completion'' (Some oid) (\<lambda>d.
        let hit = list_ex (running_where w oid) (operations d);
            d' = d\<lparr>operations :=
                     upd_where (running_where w oid) (finish_set st term rsn replay now)
                       (operations d)\<rparr>
        in (Inr hit,
            case result of
              Some res \<Rightarrow>
                if hit then d'\<lparr>results := results d' @ [((own_node w, oid), res)]\<rparr> else d'
            | None \<Rightarrow> d')) d)"

definition unsent_set :: "string \<Rightarrow> int \<Rightarrow> operation \<Rightarrow> operation" where
  "unsent_set rsn now r =
     r\<lparr>op_state := CancelledUnsent, reason := Some rsn, resolved_at := Some now,
       resolved_by := Some ''promotion''\<rparr>"

definition unsent_after_promotion :: "ownership \<Rightarrow> string \<Rightarrow> string \<Rightarrow> int \<Rightarrow> bool txn" where
  "unsent_after_promotion w oid rsn now =
     owned w ''unsent'' (Some oid) (\<lambda>d.
       (Inr (list_ex (running_where w oid) (operations d)),
        d\<lparr>operations := upd_where (running_where w oid) (unsent_set rsn now) (operations d)\<rparr>))"

subsection \<open>Resolving an unknown operation\<close>

definition resolve_where :: "ownership \<Rightarrow> string \<Rightarrow> operation \<Rightarrow> bool" where
  "resolve_where w oid r \<longleftrightarrow>
     node_id r = own_node w \<and> op_id r = oid \<and> op_state r = OutcomeUnknown
     \<and> owner_generation r = own_generation w"

definition resolve_set :: "json \<Rightarrow> int \<Rightarrow> operation \<Rightarrow> operation" where
  "resolve_set evidence now r =
     r\<lparr>op_state := Failed, reason := Some ''resolved_by_reset'',
       terminal := Some (JObj [(''resolution'', JStr ''operator_reset'')]),
       resolved_at := Some now, resolved_by := Some ''operator'',
       provenance := dmerge (provenance r) [(''resolution'', evidence)]\<rparr>"

definition resolve_unknown :: "ownership \<Rightarrow> string \<Rightarrow> json \<Rightarrow> int \<Rightarrow> bool txn" where
  "resolve_unknown w oid evidence now =
     owned w ''resolution'' (Some oid) (\<lambda>d.
       let hit = list_ex (resolve_where w oid) (operations d);
           d' = d\<lparr>operations :=
                    upd_where (resolve_where w oid) (resolve_set evidence now) (operations d)\<rparr>
       in (Inr hit,
           if hit
           then audit_insert (own_node w) (Some oid) ''resolved_by_reset'' evidence d'
           else d'))"

subsection \<open>The weights pin and the unfenced audit\<close>

definition pin_where :: "string \<Rightarrow> string \<Rightarrow> string \<Rightarrow> pin_row \<Rightarrow> bool" where
  "pin_where n rt ref p \<longleftrightarrow> pin_node p = n \<and> pin_runtime p = rt \<and> pin_ref p = ref"

definition repin :: "ownership \<Rightarrow> string \<Rightarrow> string \<Rightarrow> string \<Rightarrow> string \<Rightarrow> nat txn" where
  "repin w oid rt ref digest =
     owned w ''repin'' (Some oid) (\<lambda>d.
       (Inr (count_where (pin_where (own_node w) rt ref) (models d)),
        d\<lparr>models := upd_where (pin_where (own_node w) rt ref)
                      (\<lambda>p. p\<lparr>pin_digest := Some digest\<rparr>) (models d)\<rparr>))"

lemmas row_update_defs [row_simps] =
  promote_where_def promote_set_def cancel_set_def running_where_def unknown_set_def
  checkpoint_set_def finish_set_def unsent_set_def resolve_where_def resolve_set_def

lemmas store_txn_defs [txn_defs] =
  insert_accepted_def promote_def cancel_accepted_def mark_unknown_def checkpoint_def
  finish_def unsent_after_promotion_def resolve_unknown_def repin_def

end
