(* ===== verification/Delivery.thy ===== *)
theory Delivery
  imports Operation_Store
begin

text \<open>
  What an attempt reports and how its caller hears of it: the outcome types and the class
  \<open>Attempt\<close> of \<open>src/backend/app/node_agent/dispatch.py\<close>. The event queue is a list of events
  and end markers (\<open>None\<close> of the code), bounded by \<open>EVENT_BUFFER\<close>; \<open>settled\<close> is the future of
  the outcome.
\<close>

section \<open>Outcomes\<close>

datatype outcome =
    RtCompleted jobj "jobj option" bool
  | RuntimeRefused jobj string
  | NotSent string
  | Uncertain string jobj
  | Withheld string

definition uncertain :: "outcome \<Rightarrow> bool" where
  "uncertain out = (case out of Uncertain _ _ \<Rightarrow> True | _ \<Rightarrow> False)"

section \<open>The event queue of an attempt\<close>

definition EVENT_BUFFER :: nat where
  "EVENT_BUFFER = 256"

record attempt =
  a_op :: string
  a_events :: "json option list"
  a_open :: bool
  a_lost :: bool
  a_settled :: "outcome option"

definition new_attempt :: "string \<Rightarrow> attempt" where
  "new_attempt oid = \<lparr>a_op = oid, a_events = [], a_open = True, a_lost = False, a_settled = None\<rparr>"

definition attempt_emit :: "json \<Rightarrow> attempt \<Rightarrow> attempt" where
  "attempt_emit event a =
     (if \<not> a_open a then a\<lparr>a_lost := True\<rparr>
      else if length (a_events a) < EVENT_BUFFER
      then a\<lparr>a_events := a_events a @ [Some event]\<rparr>
      else a\<lparr>a_open := False, a_lost := True\<rparr>)"

definition attempt_close :: "attempt \<Rightarrow> attempt" where
  "attempt_close a =
     (let a1 = a\<lparr>a_open := False\<rparr>;
          a2 = (if length (a_events a1) \<ge> EVENT_BUFFER
                then a1\<lparr>a_events := [], a_lost := True\<rparr> else a1)
      in a2\<lparr>a_events := a_events a2 @ [None]\<rparr>)"

definition attempt_abandon :: "attempt \<Rightarrow> attempt" where
  "attempt_abandon a = a\<lparr>a_open := False\<rparr>"

text \<open>One turn of the reader of \<open>events\<close>: what it takes, and the queue after.\<close>

datatype read_turn = Waits | Ends | Reads json

definition attempt_read :: "attempt \<Rightarrow> read_turn \<times> attempt" where
  "attempt_read a =
     (case a_events a of
        [] \<Rightarrow> (Waits, a)
      | None # q \<Rightarrow> (Ends, a\<lparr>a_events := q\<rparr>)
      | Some e # q \<Rightarrow> (Reads e, a\<lparr>a_events := q\<rparr>))"

definition attempt_settle :: "outcome \<Rightarrow> attempt \<Rightarrow> attempt" where
  "attempt_settle out a =
     (if a_settled a = None then a\<lparr>a_settled := Some out\<rparr> else a)"

section \<open>Interleavings of the relay, the reader and the end of the run\<close>

text \<open>
  \<open>emitted\<close> and \<open>delivered\<close> record what the relay emitted and what the reader read;
  \<open>ended\<close> says the run closed the stream, which it does once, after its last emit, and
  \<open>seen_end\<close> that the reader found the end marker.
\<close>

record stream =
  s_attempt :: attempt
  emitted :: "json list"
  delivered :: "json list"
  ended :: bool
  seen_end :: bool

definition new_stream :: "string \<Rightarrow> stream" where
  "new_stream oid = \<lparr>s_attempt = new_attempt oid, emitted = [], delivered = [],
                     ended = False, seen_end = False\<rparr>"

inductive stream_step :: "stream \<Rightarrow> stream \<Rightarrow> bool" where
  st_emit: "\<not> ended s \<Longrightarrow>
     stream_step s (s\<lparr>s_attempt := attempt_emit e (s_attempt s), emitted := emitted s @ [e]\<rparr>)"
| st_close: "\<not> ended s \<Longrightarrow>
     stream_step s (s\<lparr>s_attempt := attempt_settle out (attempt_close (s_attempt s)), ended := True\<rparr>)"
| st_abandon: "stream_step s (s\<lparr>s_attempt := attempt_abandon (s_attempt s)\<rparr>)"
| st_read: "\<not> seen_end s \<Longrightarrow> attempt_read (s_attempt s) = (Reads e, a) \<Longrightarrow>
     stream_step s (s\<lparr>s_attempt := a, delivered := delivered s @ [e]\<rparr>)"
| st_end: "\<not> seen_end s \<Longrightarrow> attempt_read (s_attempt s) = (Ends, a) \<Longrightarrow>
     stream_step s (s\<lparr>s_attempt := a, seen_end := True\<rparr>)"

inductive_cases stream_stepE: "stream_step s t"

text \<open>
  The queue holds the undelivered events in order, then the end marker if the run closed the
  stream and the reader has not read it; nothing is missing unless delivery is marked lost.
\<close>

definition stream_holds :: "json list \<Rightarrow> stream \<Rightarrow> bool" where
  "stream_holds pending s \<longleftrightarrow>
     (let a = s_attempt s in
      a_events a = map Some pending @ (if ended s \<and> \<not> seen_end s then [None] else [])
        \<and> length (a_events a) \<le> EVENT_BUFFER
        \<and> (\<not> a_lost a \<longrightarrow> emitted s = delivered s @ pending)
        \<and> (ended s \<longrightarrow> \<not> a_open a) \<and> (seen_end s \<longrightarrow> ended s \<and> pending = [])
        \<and> (a_settled a \<noteq> None \<longleftrightarrow> ended s))"

definition stream_inv :: "stream \<Rightarrow> bool" where
  "stream_inv s \<longleftrightarrow> (\<exists>pending. stream_holds pending s)"

lemma stream_inv_new: "stream_inv (new_stream oid)"
  by (simp add: stream_inv_def stream_holds_def new_stream_def new_attempt_def)

lemma stream_invI: "stream_holds p s \<Longrightarrow> stream_inv s"
  by (auto simp: stream_inv_def)

lemma emit_holds:
  assumes "stream_holds p s" and "\<not> ended s"
  shows "\<exists>q. stream_holds q (s\<lparr>s_attempt := attempt_emit e (s_attempt s), emitted := emitted s @ [e]\<rparr>)"
proof (cases "a_open (s_attempt s) \<and> length (a_events (s_attempt s)) < EVENT_BUFFER")
  case True
  with assms show ?thesis
    by (intro exI [of _ "p @ [e]"]) (auto simp: stream_holds_def Let_def attempt_emit_def)
next
  case False
  with assms show ?thesis
    by (intro exI [of _ p]) (auto simp: stream_holds_def Let_def attempt_emit_def)
qed

lemma close_holds:
  assumes "stream_holds p s" and "\<not> ended s"
  shows "\<exists>q. stream_holds q (s\<lparr>s_attempt := attempt_settle out (attempt_close (s_attempt s)), ended := True\<rparr>)"
proof (cases "length (a_events (s_attempt s)) \<ge> EVENT_BUFFER")
  case True
  with assms show ?thesis
    by (intro exI [of _ "[]"])
       (auto simp: stream_holds_def Let_def attempt_close_def attempt_settle_def EVENT_BUFFER_def)
next
  case False
  with assms show ?thesis
    by (intro exI [of _ p])
       (auto simp: stream_holds_def Let_def attempt_close_def attempt_settle_def)
qed

lemma read_holds:
  assumes h: "stream_holds p s" and "\<not> seen_end s" and r: "attempt_read (s_attempt s) = (Reads e, a)"
  shows "\<exists>q. stream_holds q (s\<lparr>s_attempt := a, delivered := delivered s @ [e]\<rparr>)"
proof -
  from assms obtain q where "p = e # q"
    "a = (s_attempt s)\<lparr>a_events := map Some q @ (if ended s then [None] else [])\<rparr>"
    by (cases p) (auto simp: stream_holds_def Let_def attempt_read_def split: if_splits)
  with assms show ?thesis by (intro exI [of _ q]) (auto simp: stream_holds_def Let_def)
qed

lemma end_holds:
  assumes h: "stream_holds p s" and "\<not> seen_end s" and r: "attempt_read (s_attempt s) = (Ends, a)"
  shows "stream_holds [] (s\<lparr>s_attempt := a, seen_end := True\<rparr>)"
  using assms
  by (cases p) (auto simp: stream_holds_def Let_def attempt_read_def split: if_splits)

lemma stream_step_inv: "stream_step s t \<Longrightarrow> stream_inv s \<Longrightarrow> stream_inv t"
proof (induction rule: stream_step.induct)
  case (st_emit s e)
  then show ?case unfolding stream_inv_def using emit_holds by blast
next
  case (st_close s out)
  then show ?case unfolding stream_inv_def using close_holds by blast
next
  case (st_abandon s)
  then show ?case by (auto simp: stream_inv_def stream_holds_def Let_def attempt_abandon_def)
next
  case (st_read s e a)
  then show ?case unfolding stream_inv_def using read_holds by blast
next
  case (st_end s a)
  then show ?case unfolding stream_inv_def using end_holds by blast
qed

interpretation delivery: transition_system stream_step stream_inv
  by unfold_locales (rule stream_step_inv)

text \<open>
  C18: However emits, reads, the caller's departure and the end of the run interleave: a caller
  that reads the end marker of an attempt not marked as lost received every event the relay
  emitted, in order; once the run has closed the stream a reader never waits for ever on an
  empty queue, the queue never exceeds its buffer, and the outcome is set exactly when the
  stream has ended.
\<close>

theorem delivery_complete:
  assumes run: "stream_step\<^sup>*\<^sup>* (new_stream oid) s"
  shows "(seen_end s \<and> \<not> a_lost (s_attempt s) \<longrightarrow> delivered s = emitted s)
    \<and> (ended s \<and> \<not> seen_end s \<longrightarrow> fst (attempt_read (s_attempt s)) \<noteq> Waits)
    \<and> length (a_events (s_attempt s)) \<le> EVENT_BUFFER
    \<and> (a_settled (s_attempt s) \<noteq> None \<longleftrightarrow> ended s)"
proof -
  from run have "stream_inv s" by (rule delivery.inv_run) (rule stream_inv_new)
  then obtain p where p: "stream_holds p s" by (auto simp: stream_inv_def)
  have "ended s \<and> \<not> seen_end s \<longrightarrow> fst (attempt_read (s_attempt s)) \<noteq> Waits"
    using p by (cases p) (auto simp: stream_holds_def Let_def attempt_read_def)
  with p show ?thesis by (auto simp: stream_holds_def Let_def)
qed

definition demo_stream :: stream where
  "demo_stream = \<lparr>s_attempt = \<lparr>a_op = ''op'', a_events = [], a_open = False, a_lost = False,
                               a_settled = Some (NotSent ''x'')\<rparr>,
     emitted = [JInt 1], delivered = [JInt 1], ended = True, seen_end = True\<rparr>"

lemma demo_stream_run: "stream_step\<^sup>*\<^sup>* (new_stream ''op'') demo_stream"
proof -
  define s0 where "s0 = new_stream ''op''"
  define s1 where "s1 = s0\<lparr>s_attempt := attempt_emit (JInt 1) (s_attempt s0), emitted := emitted s0 @ [JInt 1]\<rparr>"
  define s2 where "s2 = s1\<lparr>s_attempt := snd (attempt_read (s_attempt s1)), delivered := delivered s1 @ [JInt 1]\<rparr>"
  define s3 where "s3 = s2\<lparr>s_attempt := attempt_settle (NotSent ''x'') (attempt_close (s_attempt s2)), ended := True\<rparr>"
  define s4 where "s4 = s3\<lparr>s_attempt := snd (attempt_read (s_attempt s3)), seen_end := True\<rparr>"
  note d = s0_def s1_def s2_def s3_def s4_def new_stream_def new_attempt_def attempt_emit_def
    attempt_read_def EVENT_BUFFER_def attempt_close_def attempt_settle_def demo_stream_def
  have "stream_step s0 s1" unfolding s1_def by (rule st_emit) (simp add: d)
  moreover have "stream_step s1 s2" unfolding s2_def by (rule st_read) (simp_all add: d)
  moreover have "stream_step s2 s3" unfolding s3_def by (rule st_close) (simp add: d)
  moreover have "stream_step s3 s4" unfolding s4_def by (rule st_end) (simp_all add: d)
  ultimately have "stream_step\<^sup>*\<^sup>* s0 s4" by (meson converse_rtranclp_into_rtranclp rtranclp.rtrancl_refl)
  moreover have "s4 = demo_stream" by (simp add: d)
  ultimately show ?thesis by (simp add: s0_def)
qed

lemma delivery_complete_witness:
  "delivered demo_stream = emitted demo_stream \<and> \<not> a_lost (s_attempt demo_stream)"
  using delivery_complete [OF demo_stream_run] by (simp add: demo_stream_def)

end
