(* ===== verification/Dispatch.thy ===== *)
theory Dispatch
  imports Delivery
begin

text \<open>
  The class \<open>Dispatcher\<close> of \<open>src/backend/app/node_agent/dispatch.py\<close>: its fields as the record
  \<open>gate\<close>, and its methods cut at their awaits. A block under the barrier is one definition: the
  barrier keeps every other barrier block out, and what runs beside it (the synchronous ends of
  other tasks) touches fields the block has already read or never reads. The store the blocks
  call is \<^theory_text>\<open>Operation_Store\<close>; a call may also fail with a database error, before or after
  its commit, as its \<open>fate\<close> says.
\<close>

section \<open>Calls of the store\<close>

datatype fault = StoreFault store_error | DatabaseFault

datatype fate = Works | FailsBefore | FailsAfter

definition call_store :: "fate \<Rightarrow> 'a txn \<Rightarrow> db \<Rightarrow> (fault + 'a) \<times> db" where
  "call_store f t d =
     (case f of
        Works \<Rightarrow> (case t d of (Inl e, d') \<Rightarrow> (Inl (StoreFault e), d') | (Inr x, d') \<Rightarrow> (Inr x, d'))
      | FailsBefore \<Rightarrow> (Inl DatabaseFault, d)
      | FailsAfter \<Rightarrow> (Inl DatabaseFault, snd (t d)))"

definition read_store :: "fate \<Rightarrow> 'a \<Rightarrow> fault + 'a" where
  "read_store f x = (if f = Works then Inr x else Inl DatabaseFault)"

definition not_owner :: "fault \<Rightarrow> bool" where
  "not_owner e = (case e of StoreFault (NotOwner _) \<Rightarrow> True | _ \<Rightarrow> False)"

section \<open>The gate\<close>

datatype gate_state = SERVING | DRAINING | BLOCKED | MAINTENANCE | LOST

fun gate_value :: "gate_state \<Rightarrow> string" where
  "gate_value SERVING = ''serving''"
| "gate_value DRAINING = ''draining''"
| "gate_value BLOCKED = ''blocked''"
| "gate_value MAINTENANCE = ''maintenance''"
| "gate_value LOST = ''lost''"

fun retry_after :: "gate_state \<Rightarrow> int option" where
  "retry_after SERVING = Some 1"
| "retry_after DRAINING = Some 30"
| "retry_after BLOCKED = Some 60"
| "retry_after MAINTENANCE = Some 60"
| "retry_after LOST = None"

datatype answer =
    Attempted
  | Existing operation
  | Refused string "int option" "operation option"
  | Raised fault
  | CallCancelled
  | NotLifecycle string

record gate =
  g_state :: gate_state
  g_slots :: nat
  g_max_queued :: nat
  g_queued :: nat
  g_summary :: "string option"
  g_admitted :: "string list"
  g_idle :: bool
  g_changed :: bool
  g_exclusive :: "string option"
  g_held :: bool
  g_frozen :: bool
  g_frozen_epoch :: "int option"
  g_restoring :: "string \<rightharpoonup> int"
  g_sending :: "string list"
  g_quiet :: bool
  g_interrupted :: "string set"
  g_uncommitted :: "string set"

definition new_gate :: "nat \<Rightarrow> nat \<Rightarrow> gate option" where
  "new_gate max_inflight max_queued =
     (if max_inflight < 1 \<or> max_queued < 1 then None
      else Some \<lparr>g_state = SERVING, g_slots = max_inflight, g_max_queued = max_queued,
        g_queued = 0, g_summary = None, g_admitted = [], g_idle = True, g_changed = False,
        g_exclusive = None, g_held = False, g_frozen = False, g_frozen_epoch = None,
        g_restoring = Map.empty, g_sending = [], g_quiet = True, g_interrupted = {},
        g_uncommitted = {}\<rparr>)"

definition close_locked :: "gate_state \<Rightarrow> gate \<Rightarrow> gate" where
  "close_locked st g =
     (if g_state g = LOST then g
      else if g_frozen g \<and> st \<noteq> LOST then g
      else if st = DRAINING \<and> g_state g = BLOCKED then g
      else g\<lparr>g_state := st, g_changed := True\<rparr>)"

definition block :: "gate \<Rightarrow> gate" where
  "block = close_locked BLOCKED"

definition lose_role :: "gate \<Rightarrow> gate" where
  "lose_role = close_locked LOST"

definition drain :: "gate \<Rightarrow> gate" where
  "drain g = close_locked DRAINING (g\<lparr>g_held := True\<rparr>)"

text \<open>\<open>_reopen_locked\<close>; \<open>unk\<close> answers \<open>any_unknown\<close>, which is read only when it is needed.\<close>

definition reopen_locked :: "fault + bool \<Rightarrow> gate \<Rightarrow> (fault + gate_state) \<times> gate" where
  "reopen_locked unk g =
     (if g_state g = LOST \<or> g_exclusive g \<noteq> None then (Inr (g_state g), g)
      else if g_frozen g then (Inr MAINTENANCE, g\<lparr>g_state := MAINTENANCE\<rparr>)
      else
        (let blocked = (if g_uncommitted g \<noteq> {} then Inr True else unk)
         in case blocked of
              Inl e \<Rightarrow> (Inl e, g)
            | Inr b \<Rightarrow>
                (let st = (if b then BLOCKED else SERVING)
                 in (Inr st, g\<lparr>g_state := st, g_changed := True\<rparr>))))"

definition reopen :: "fault + bool \<Rightarrow> gate \<Rightarrow> (fault + gate_state) \<times> gate" where
  "reopen unk g = reopen_locked unk (g\<lparr>g_held := False\<rparr>)"

section \<open>Maintenance\<close>

definition freeze_locked :: "int option \<Rightarrow> gate \<Rightarrow> gate" where
  "freeze_locked ep g =
     (if g_state g = LOST then g
      else g\<lparr>g_frozen := True, g_frozen_epoch := ep, g_state := MAINTENANCE, g_changed := True\<rparr>)"

definition freeze :: "int option \<Rightarrow> gate \<Rightarrow> gate" where
  "freeze = freeze_locked"

definition thaw :: "fault + bool \<Rightarrow> gate \<Rightarrow> (fault + gate_state) \<times> gate" where
  "thaw unk g =
     (if \<not> g_frozen g then (Inr (g_state g), g)
      else
        (let g1 = g\<lparr>g_frozen := False, g_frozen_epoch := None, g_interrupted := {}\<rparr>
         in if g_state g1 = LOST then (Inr LOST, g1)
            else if g_exclusive g1 \<noteq> None \<or> g_held g1
            then (Inr DRAINING, g1\<lparr>g_state := DRAINING, g_changed := True\<rparr>)
            else reopen_locked unk g1))"

text \<open>
  The barrier block of \<open>interrupt\<close>: None is its RuntimeError; otherwise the senders it cancels,
  which are marked as interrupted. The report is built after the wait, from the gate then.
\<close>

definition interrupt :: "gate \<Rightarrow> (string list \<times> gate) option" where
  "interrupt g =
     (if \<not> g_frozen g then None
      else Some (sort_by str_le (g_sending g),
                 g\<lparr>g_interrupted := g_interrupted g \<union> set (g_sending g)\<rparr>))"

definition interrupt_report :: "string list \<Rightarrow> gate \<Rightarrow> jobj" where
  "interrupt_report interrupted g =
     [(''epoch'', jopt_int (g_frozen_epoch g)),
      (''interrupted'', JList (map JStr interrupted)),
      (''still_sending'', JList (map JStr (sort_by str_le (g_sending g)))),
      (''settling'', JList (map JStr (sort_by str_le
          (filter (\<lambda>x. x \<notin> set (g_sending g)) (g_admitted g))))),
      (''quiescent'', JBool (g_sending g = []))]"

definition quiescent :: "gate \<Rightarrow> bool" where
  "quiescent g \<longleftrightarrow> g_sending g = []"

definition holds :: "string \<Rightarrow> gate \<Rightarrow> bool" where
  "holds oid g \<longleftrightarrow> oid \<in> set (g_admitted g)"

definition summary_admission_refusal :: "gate \<Rightarrow> answer option" where
  "summary_admission_refusal g =
     (if g_state g \<noteq> SERVING
      then Some (Refused (''node_'' @ gate_value (g_state g)) (retry_after (g_state g)) None)
      else if g_summary g \<noteq> None then Some (Refused ''summary_busy'' (Some 2) None)
      else None)"

section \<open>Submitting\<close>

text \<open>The barrier block of \<open>submit\<close>, and its \<open>finally\<close>.\<close>

definition admit_queue :: "string \<Rightarrow> string \<Rightarrow> gate \<Rightarrow> answer option \<times> gate" where
  "admit_queue oid k g =
     (if g_state g \<noteq> SERVING
      then (Some (Refused (''node_'' @ gate_value (g_state g)) (retry_after (g_state g)) None), g)
      else if g_queued g \<ge> g_max_queued g then (Some (Refused ''overloaded'' (Some 2) None), g)
      else if k = ''summary'' \<and> g_summary g \<noteq> None
      then (Some (Refused ''summary_busy'' (Some 2) None), g)
      else (None, g\<lparr>g_summary := (if k = ''summary'' then Some oid else g_summary g),
                    g_queued := g_queued g + 1\<rparr>))"

definition leave_queue :: "string \<Rightarrow> gate \<Rightarrow> gate" where
  "leave_queue oid g =
     g\<lparr>g_queued := g_queued g - 1,
       g_summary := (if g_summary g = Some oid \<and> oid \<notin> set (g_admitted g) then None
                     else g_summary g)\<rparr>"

text \<open>
  \<open>_wait_for_slot\<close>: the head of its loop gives up (with the reason) or arms the wait; while it
  waits it may take a free slot, or be woken by the gate or the clock and return to the head.
\<close>

definition wait_head :: "bool \<Rightarrow> gate \<Rightarrow> string option \<times> gate" where
  "wait_head expired g =
     (if expired then (Some ''deadline_before_send'', g)
      else if g_state g \<noteq> SERVING then (Some (gate_value (g_state g) @ ''_before_send''), g)
      else (None, g\<lparr>g_changed := False\<rparr>))"

definition take_slot :: "gate \<Rightarrow> gate option" where
  "take_slot g = (if g_slots g > 0 then Some (g\<lparr>g_slots := g_slots g - 1\<rparr>) else None)"

definition release_slot :: "gate \<Rightarrow> gate" where
  "release_slot g = g\<lparr>g_slots := g_slots g + 1\<rparr>"

datatype promotion = Created | NotCreated string | PromotionRaised fault

definition admit_task :: "string \<Rightarrow> gate \<Rightarrow> gate" where
  "admit_task oid g = g\<lparr>g_idle := False, g_admitted := g_admitted g @ [oid]\<rparr>"

text \<open>The barrier block of \<open>_promote\<close>.\<close>

definition promote_locked ::
  "ownership \<Rightarrow> fate \<Rightarrow> int \<Rightarrow> bool \<Rightarrow> string \<Rightarrow> jobj \<Rightarrow> gate \<Rightarrow> db \<Rightarrow> promotion \<times> gate \<times> db" where
  "promote_locked w f now host_held oid prov g d =
     (if g_state g \<noteq> SERVING
      then (NotCreated (gate_value (g_state g) @ ''_before_send''), g, d)
      else if \<not> host_held then (NotCreated ''lost_before_send'', g\<lparr>g_state := LOST\<rparr>, d)
      else
        (case call_store f (promote w oid prov None now) d of
           (Inr True, d') \<Rightarrow> (Created, admit_task oid g, d')
         | (Inr False, d') \<Rightarrow>
             (NotCreated (if g_frozen g then ''maintenance_before_send'' else ''not_promoted''), g, d')
         | (Inl (StoreFault (NotOwner _)), d') \<Rightarrow>
             (NotCreated ''lost_before_send'', g\<lparr>g_state := LOST\<rparr>, d')
         | (Inl (StoreFault (AdmissionClosed ep)), d') \<Rightarrow>
             (NotCreated ''maintenance_before_send'', freeze_locked ep g, d')
         | (Inl e, d') \<Rightarrow> (PromotionRaised e, g, d')))"

text \<open>\<open>_unsent\<close> and \<open>_unsent_after_failed_promotion\<close>.\<close>

definition unsent ::
  "ownership \<Rightarrow> fate \<Rightarrow> int \<Rightarrow> string \<Rightarrow> string \<Rightarrow> string \<Rightarrow> gate \<Rightarrow> db \<Rightarrow> answer \<times> gate \<times> db" where
  "unsent w f now oid k rsn g d =
     (case call_store f (cancel_accepted w oid rsn k now) d of
        (Inr operation, d') \<Rightarrow> (Refused rsn (retry_after (g_state g)) operation, g, d')
      | (Inl e, d') \<Rightarrow>
          if not_owner e
          then (let g' = lose_role g in (Refused rsn (retry_after (g_state g')) None, g', d'))
          else (Raised e, g, d'))"

definition unsent_after_failed_promotion ::
  "ownership \<Rightarrow> fate \<Rightarrow> fate \<Rightarrow> int \<Rightarrow> string \<Rightarrow> string \<Rightarrow> gate \<Rightarrow> db \<Rightarrow> gate \<times> db" where
  "unsent_after_failed_promotion w fr f now oid k g d =
     (let failed = (\<lambda>d'. (close_locked BLOCKED
                            (g\<lparr>g_uncommitted := insert oid (g_uncommitted g)\<rparr>), d'))
      in case read_store fr (observe (own_node w) oid d) of
           Inl e \<Rightarrow> failed d
         | Inr current \<Rightarrow>
             if current = None \<or> map_option op_state current = Some Accepted
             then (case call_store f (cancel_accepted w oid ''promotion_failed'' k now) d of
                     (Inl e, d') \<Rightarrow> failed d' | (Inr _, d') \<Rightarrow> (g, d'))
             else if map_option op_state current = Some Running
             then (case call_store f (unsent_after_promotion w oid ''promotion_failed'' now) d of
                     (Inl e, d') \<Rightarrow> failed d' | (Inr _, d') \<Rightarrow> (g, d'))
             else (g, d))"

section \<open>Lifecycle operations\<close>

definition restorable_locked :: "int option \<Rightarrow> string option \<Rightarrow> gate \<Rightarrow> bool" where
  "restorable_locked ep oid g \<longleftrightarrow>
     g_state g = MAINTENANCE \<and> g_frozen g \<and> g_frozen_epoch g = ep \<and> g_exclusive g = oid
     \<and> g_sending g = []"

definition lifecycle_kind :: "int option \<Rightarrow> string \<Rightarrow> bool" where
  "lifecycle_kind ep k \<longleftrightarrow> k \<in> set (if ep = None then LIFECYCLE_KINDS else RESTORE_KINDS)"

text \<open>The first barrier block of \<open>exclusive\<close>.\<close>

definition take_exclusive :: "string \<Rightarrow> int option \<Rightarrow> gate \<Rightarrow> answer option \<times> gate" where
  "take_exclusive oid ep g =
     (case ep of
        Some e \<Rightarrow>
          if \<not> restorable_locked ep None g then (Some (Refused ''not_frozen_at_epoch'' None None), g)
          else (None, g\<lparr>g_exclusive := Some oid, g_restoring := (g_restoring g)(oid \<mapsto> e)\<rparr>)
      | None \<Rightarrow>
          if g_state g \<noteq> SERVING
          then (Some (Refused (''node_'' @ gate_value (g_state g)) (retry_after (g_state g)) None), g)
          else (None, close_locked DRAINING (g\<lparr>g_exclusive := Some oid\<rparr>)))"

text \<open>Its second barrier block, once the node is idle and a slot is held.\<close>

definition exclusive_locked ::
  "ownership \<Rightarrow> fate \<Rightarrow> int \<Rightarrow> bool \<Rightarrow> string \<Rightarrow> jobj \<Rightarrow> int option \<Rightarrow> gate \<Rightarrow> db
     \<Rightarrow> promotion \<times> gate \<times> db" where
  "exclusive_locked w f now host_held oid prov ep g d =
     (if ep \<noteq> None \<and> \<not> restorable_locked ep (Some oid) g
      then (NotCreated ''not_frozen_at_epoch'', g, d)
      else if ep = None \<and> g_state g \<noteq> DRAINING
      then (NotCreated (gate_value (g_state g) @ ''_before_send''), g, d)
      else if \<not> host_held then (NotCreated ''lost_before_send'', g\<lparr>g_state := LOST\<rparr>, d)
      else
        (case call_store f (promote w oid prov ep now) d of
           (Inr True, d') \<Rightarrow> (Created, admit_task oid g, d')
         | (Inr False, d') \<Rightarrow>
             (NotCreated (if g_frozen g \<and> ep = None then ''maintenance_before_send''
                          else ''node_blocked''), g, d')
         | (Inl (StoreFault (NotOwner _)), d') \<Rightarrow>
             (NotCreated ''lost_before_send'', g\<lparr>g_state := LOST\<rparr>, d')
         | (Inl (StoreFault (AdmissionClosed closed)), d') \<Rightarrow>
             if ep \<noteq> None then (NotCreated ''hold_not_closed_at_epoch'', g, d')
             else (NotCreated ''maintenance_before_send'', freeze_locked closed g, d')
         | (Inl e, d') \<Rightarrow> (PromotionRaised e, g, d')))"

text \<open>\<open>_end_exclusive\<close>, the \<open>finally\<close> of \<open>exclusive\<close> for a task not handed off, and \<open>recheck_drain\<close>.\<close>

definition end_exclusive :: "fault + bool \<Rightarrow> string \<Rightarrow> gate \<Rightarrow> gate" where
  "end_exclusive unk oid g =
     (if g_exclusive g \<noteq> Some oid then g
      else
        (let g1 = g\<lparr>g_exclusive := None\<rparr>
         in if g_state g1 = DRAINING \<and> \<not> g_held g1 then snd (reopen_locked unk g1) else g1))"

definition leave_exclusive :: "fault + bool \<Rightarrow> string \<Rightarrow> gate \<Rightarrow> gate" where
  "leave_exclusive unk oid g = end_exclusive unk oid (g\<lparr>g_restoring := (g_restoring g)(oid := None)\<rparr>)"

definition recheck_drain :: "fault + bool \<Rightarrow> gate \<Rightarrow> (fault + gate_state) \<times> gate" where
  "recheck_drain unk g =
     (if g_state g \<noteq> DRAINING \<or> g_exclusive g \<noteq> None \<or> g_held g then (Inr (g_state g), g)
      else reopen_locked unk g)"

section \<open>One admitted task\<close>

text \<open>The final send barrier of \<open>_run\<close>: whether the task is withheld, and the sender's start.\<close>

definition withhold :: "string \<Rightarrow> gate \<Rightarrow> bool" where
  "withhold oid g =
     (case g_restoring g oid of
        Some e \<Rightarrow> \<not> (g_frozen g \<and> g_frozen_epoch g = Some e)
      | None \<Rightarrow> g_frozen g)"

definition start_sender :: "string \<Rightarrow> gate \<Rightarrow> gate" where
  "start_sender oid g = g\<lparr>g_sending := g_sending g @ [oid], g_quiet := False\<rparr>"

definition stop_sender :: "string \<Rightarrow> gate \<Rightarrow> gate" where
  "stop_sender oid g =
     (let rest = filter (\<lambda>x. x \<noteq> oid) (g_sending g)
      in g\<lparr>g_sending := rest, g_quiet := (if rest = [] then True else g_quiet g)\<rparr>)"

text \<open>How the relay's task ended, and the outcome \<open>_run\<close> makes of it.\<close>

datatype relay_end = Reported outcome | SenderCancelled bool | RelayRaised string

definition relay_outcome :: "string \<Rightarrow> relay_end \<Rightarrow> gate \<Rightarrow> outcome" where
  "relay_outcome oid r g =
     (case r of
        Reported out \<Rightarrow> out
      | SenderCancelled task_cancelled \<Rightarrow>
          if oid \<in> g_interrupted g \<and> \<not> task_cancelled
          then Uncertain ''maintenance_interrupted'' []
          else Uncertain ''relay_cancelled'' []
      | RelayRaised name \<Rightarrow> Uncertain (''relay_error:'' @ name) [])"

text \<open>\<open>_settle\<close>: the block before the commit, one attempt to commit, and what follows it.\<close>

definition settle_begin :: "string \<Rightarrow> outcome \<Rightarrow> gate \<Rightarrow> gate" where
  "settle_begin oid out g =
     (if uncertain out
      then close_locked BLOCKED (g\<lparr>g_uncommitted := insert oid (g_uncommitted g)\<rparr>)
      else g)"

definition commit_outcome :: "ownership \<Rightarrow> int \<Rightarrow> string \<Rightarrow> outcome \<Rightarrow> bool txn" where
  "commit_outcome w now oid out =
     (case out of
        RtCompleted term result replay \<Rightarrow>
          finish w oid Completed (JObj term) (map_option JObj result) None replay now
      | RuntimeRefused term rsn \<Rightarrow> finish w oid Failed (JObj term) None (Some rsn) False now
      | NotSent rsn \<Rightarrow> finish w oid Failed (JObj []) None (Some (''not_sent:'' @ rsn)) False now
      | Withheld rsn \<Rightarrow> unsent_after_promotion w oid rsn now
      | Uncertain rsn obs \<Rightarrow> mark_unknown w oid rsn (JObj obs))"

datatype settling = Settled | StillSettling

definition settle_try ::
  "ownership \<Rightarrow> fate \<Rightarrow> int \<Rightarrow> string \<Rightarrow> outcome \<Rightarrow> gate \<Rightarrow> db \<Rightarrow> settling \<times> gate \<times> db" where
  "settle_try w f now oid out g d =
     (case call_store f (commit_outcome w now oid out) d of
        (Inr _, d') \<Rightarrow>
          (Settled, if uncertain out then g\<lparr>g_uncommitted := g_uncommitted g - {oid}\<rparr> else g, d')
      | (Inl e, d') \<Rightarrow>
          if not_owner e then (Settled, lose_role g, d') else (StillSettling, g, d'))"

text \<open>The delays between attempts: doubled each time, capped at \<open>SETTLE_RETRY_CAP_S\<close> (in ms).\<close>

definition SETTLE_RETRY_CAP_MS :: nat where
  "SETTLE_RETRY_CAP_MS = 5000"

definition next_delay :: "nat \<Rightarrow> nat" where
  "next_delay delay = min (delay * 2) SETTLE_RETRY_CAP_MS"

text \<open>The \<open>finally\<close> of \<open>_run\<close>.\<close>

definition run_lifecycle :: "string \<Rightarrow> string \<Rightarrow> gate \<Rightarrow> bool" where
  "run_lifecycle k oid g \<longleftrightarrow> k \<in> set LIFECYCLE_KINDS \<or> g_restoring g oid \<noteq> None"

definition run_end :: "fault + bool \<Rightarrow> bool \<Rightarrow> string \<Rightarrow> gate \<Rightarrow> gate" where
  "run_end unk lc oid g =
     (let rest = filter (\<lambda>x. x \<noteq> oid) (g_admitted g);
          g1 = g\<lparr>g_slots := g_slots g + 1, g_admitted := rest,
                 g_summary := (if g_summary g = Some oid then None else g_summary g),
                 g_idle := (if rest = [] then True else g_idle g)\<rparr>
      in if lc then leave_exclusive unk oid g1 else g1)"

text \<open>A checkpoint of the sink: only NotOwner changes the gate.\<close>

definition sink_checkpoint :: "ownership \<Rightarrow> fate \<Rightarrow> string \<Rightarrow> json \<Rightarrow> gate \<Rightarrow> db \<Rightarrow> gate \<times> db" where
  "sink_checkpoint w f oid obs g d =
     (case call_store f (checkpoint w oid obs) d of
        (Inl e, d') \<Rightarrow> (if not_owner e then lose_role g else g, d')
      | (Inr _, d') \<Rightarrow> (g, d'))"

end
