(* ===== verification/Election.thy ===== *)
theory Election
  imports Operation_Store
begin

text \<open>
  Becoming the node's agent: \<open>src/backend/app/node_agent/election.py\<close> (\<open>claim\<close>,
  \<open>still_elected\<close>), and the operator's release of a node from a previous kernel,
  \<open>src/backend/app/node_agent/release_kernel.py\<close>. Each is one transaction over \<open>db\<close>; the
  session advisory lock is the list \<open>election_locks\<close>, with one entry per acquisition.
\<close>

section \<open>The session advisory lock\<close>

definition try_election_lock :: "string \<Rightarrow> int \<Rightarrow> db \<Rightarrow> bool \<times> db" where
  "try_election_lock n pid d =
     (if list_ex (\<lambda>(m, p). m = n \<and> p \<noteq> pid) (election_locks d) then (False, d)
      else (True, d\<lparr>election_locks := (n, pid) # election_locks d\<rparr>))"

definition election_unlock :: "string \<Rightarrow> int \<Rightarrow> db \<Rightarrow> db" where
  "election_unlock n pid d = d\<lparr>election_locks := remove1 (n, pid) (election_locks d)\<rparr>"

section \<open>claim\<close>

record elected =
  el_ownership :: ownership
  el_backend_pid :: int
  converted_unknown :: nat
  converted_unsent :: nat

datatype election_refusal =
    HostLockReplaced
  | AnotherAgentHolds
  | NodeNotRegistered
  | OtherLockDomain "string option"
  | KernelChanged nat

definition fresh_agent :: "string \<Rightarrow> agent_row" where
  "fresh_agent n = \<lparr>ag_node = n, ag_generation = 0, ag_boot_id = None, ag_kernel_boot_id = None,
                    ag_backend_pid = None, ag_started_at = None\<rparr>"

text \<open>\<open>INSERT INTO node_agents ... ON CONFLICT DO NOTHING\<close>\<close>

definition ensure_agent :: "string \<Rightarrow> db \<Rightarrow> db" where
  "ensure_agent n d =
     (case agent_at d n of
        None \<Rightarrow> d\<lparr>agents := agents d @ [fresh_agent n]\<rparr>
      | Some _ \<Rightarrow> d)"

definition open_where :: "string \<Rightarrow> operation \<Rightarrow> bool" where
  "open_where n r \<longleftrightarrow> node_id r = n \<and> (op_state r = Running \<or> op_state r = OutcomeUnknown)"

definition state_where :: "string \<Rightarrow> op_state \<Rightarrow> operation \<Rightarrow> bool" where
  "state_where n st r \<longleftrightarrow> node_id r = n \<and> op_state r = st"

definition orphan_unknown :: "int \<Rightarrow> jobj \<Rightarrow> operation \<Rightarrow> operation" where
  "orphan_unknown g takeover r =
     r\<lparr>op_state := OutcomeUnknown, owner_generation := g,
       reason := Some ''orphaned_by_takeover'',
       provenance := dmerge (provenance r) takeover\<rparr>"

definition orphan_unsent :: "int \<Rightarrow> jobj \<Rightarrow> int \<Rightarrow> operation \<Rightarrow> operation" where
  "orphan_unsent g takeover now r =
     r\<lparr>op_state := CancelledUnsent, owner_generation := g,
       reason := Some ''orphaned_by_takeover'', resolved_at := Some now,
       resolved_by := Some ''takeover'', provenance := dmerge (provenance r) takeover\<rparr>"

definition move_owner :: "int \<Rightarrow> operation \<Rightarrow> operation" where
  "move_owner g r = r\<lparr>owner_generation := g\<rparr>"

definition takeover_ops ::
  "string \<Rightarrow> int \<Rightarrow> jobj \<Rightarrow> int \<Rightarrow> operation list \<Rightarrow> operation list" where
  "takeover_ops n g takeover now ops =
     upd_where (state_where n OutcomeUnknown) (move_owner g)
       (upd_where (state_where n Accepted) (orphan_unsent g takeover now)
         (upd_where (state_where n Running) (orphan_unknown g takeover) ops))"

definition agent_set :: "int \<Rightarrow> string \<Rightarrow> string option \<Rightarrow> int \<Rightarrow> int \<Rightarrow> agent_row \<Rightarrow> agent_row" where
  "agent_set g boot kboot pid now a =
     a\<lparr>ag_generation := g, ag_boot_id := Some boot, ag_kernel_boot_id := kboot,
       ag_backend_pid := Some pid, ag_started_at := Some now\<rparr>"

definition takeover_note :: "int \<Rightarrow> agent_row \<Rightarrow> jobj" where
  "takeover_note g prev =
     [(''takeover_by_generation'', JInt g), (''previous_generation'', JInt (ag_generation prev)),
      (''previous_boot_id'', jopt_str (ag_boot_id prev))]"

text \<open>The transaction after the lock: the new database, or the refusal that rolls it back.\<close>

definition takeover_txn ::
  "string \<Rightarrow> string \<Rightarrow> string option \<Rightarrow> string \<Rightarrow> int \<Rightarrow> int \<Rightarrow> db \<Rightarrow> election_refusal + (elected \<times> db)"
  where
  "takeover_txn n domain kboot boot pid now d0 =
     (case row_at nd_id (nodes d0) n of
        None \<Rightarrow> Inl NodeNotRegistered
      | Some nd \<Rightarrow>
          (let d = ensure_agent n d0;
               prev = (case agent_at d n of Some a \<Rightarrow> a | None \<Rightarrow> fresh_agent n)
           in if nd_lock_domain nd \<noteq> None \<and> nd_lock_domain nd \<noteq> Some domain
              then Inl (OtherLockDomain (nd_lock_domain nd))
              else if ag_kernel_boot_id prev \<noteq> None \<and> kboot \<noteq> ag_kernel_boot_id prev
                      \<and> count_where (open_where n) (operations d) > 0
              then Inl (KernelChanged (count_where (open_where n) (operations d)))
              else
                (let g = ag_generation prev + 1;
                     note = takeover_note g prev;
                     unknown = count_where (state_where n Running) (operations d);
                     unsent = count_where (state_where n Accepted) (operations d);
                     d' = d\<lparr>nodes := upd_where (\<lambda>r. nd_id r = n \<and> nd_lock_domain r = None)
                                        (\<lambda>r. r\<lparr>nd_lock_domain := Some domain\<rparr>) (nodes d),
                            agents := upd_where (\<lambda>a. ag_node a = n)
                                        (agent_set g boot kboot pid now) (agents d),
                            operations := takeover_ops n g note now (operations d)\<rparr>
                 in Inr (\<lparr>el_ownership = \<lparr>own_node = n, own_generation = g, own_boot_id = boot\<rparr>,
                          el_backend_pid = pid, converted_unknown = unknown,
                          converted_unsent = unsent\<rparr>,
                         audit_insert n None ''takeover''
                           (JObj [(''generation'', JInt g), (''boot_id'', JStr boot),
                             (''kernel_boot_id'', jopt_str kboot), (''domain_id'', JStr domain),
                             (''previous_generation'', JInt (ag_generation prev)),
                             (''previous_boot_id'', jopt_str (ag_boot_id prev)),
                             (''previous_kernel_boot_id'', jopt_str (ag_kernel_boot_id prev)),
                             (''converted_unknown'', JInt (int unknown)),
                             (''converted_unsent'', JInt (int unsent))]) d'))))"

definition claim ::
  "string \<Rightarrow> bool \<Rightarrow> string \<Rightarrow> string option \<Rightarrow> string \<Rightarrow> int \<Rightarrow> int \<Rightarrow> db
     \<Rightarrow> (election_refusal + elected) \<times> db" where
  "claim n still_held domain kboot boot pid now d =
     (if \<not> still_held then (Inl HostLockReplaced, d)
      else (case try_election_lock n pid d of
              (False, _) \<Rightarrow> (Inl AnotherAgentHolds, d)
            | (True, locked) \<Rightarrow>
                (case takeover_txn n domain kboot boot pid now locked of
                   Inl e \<Rightarrow> (Inl e, election_unlock n pid locked)
                 | Inr (el, d') \<Rightarrow> (Inr el, d'))))"

text \<open>\<open>still_elected\<close>: the PID read back on the election session, None when the read fails.\<close>

definition still_elected :: "int option \<Rightarrow> int \<Rightarrow> bool" where
  "still_elected current pid \<longleftrightarrow> current = Some pid"

section \<open>Releasing a previous kernel\<close>

datatype release_refusal =
    StatementMissing
  | KernelMissing
  | SameKernel
  | ReleaseHostLock
  | AgentHoldsNode
  | NeverHadAgent
  | BoundElsewhere "string option"
  | LastOwnerKernel "string option"
  | NothingOpen
  | OtherNode
  | KernelUnreadable
  | WrongKernel string

definition op_order :: "operation \<Rightarrow> operation \<Rightarrow> bool" where
  "op_order a b \<longleftrightarrow> submitted_at a < submitted_at b
     \<or> (submitted_at a = submitted_at b \<and> str_le (op_id a) (op_id b))"

definition state_name :: "op_state \<Rightarrow> string" where
  "state_name st = (case st of Accepted \<Rightarrow> ''accepted'' | Running \<Rightarrow> ''running''
     | OutcomeUnknown \<Rightarrow> ''outcome_unknown'' | Completed \<Rightarrow> ''completed'' | Failed \<Rightarrow> ''failed''
     | CancelledUnsent \<Rightarrow> ''cancelled_unsent'')"

definition open_row_json :: "operation \<Rightarrow> json" where
  "open_row_json r =
     JObj [(''op_id'', JStr (op_id r)), (''kind'', JStr (kind r)),
           (''state'', JStr (state_name (op_state r))),
           (''origin_generation'', JInt (origin_generation r))]"

text \<open>The transaction, with the advisory lock held: every refusal rolls it back.\<close>

definition release_txn ::
  "string \<Rightarrow> string \<Rightarrow> string \<Rightarrow> string \<Rightarrow> string \<Rightarrow> string \<Rightarrow> db \<Rightarrow> release_refusal + (jobj \<times> db)"
  where
  "release_txn n domain previous current operator rsn d =
     (case agent_at d n of
        None \<Rightarrow> Inl NeverHadAgent
      | Some a \<Rightarrow>
          (let bound = Option.bind (row_at nd_id (nodes d) n) nd_lock_domain;
               rows = sort_by op_order (filter (open_where n) (operations d))
           in if bound \<noteq> Some domain then Inl (BoundElsewhere bound)
              else if ag_kernel_boot_id a \<noteq> Some previous
              then Inl (LastOwnerKernel (ag_kernel_boot_id a))
              else if rows = [] then Inl NothingOpen
              else
                (let detail =
                       [(''operator'', JStr operator), (''reason'', JStr rsn),
                        (''previous_kernel_boot_id'', JStr previous),
                        (''current_kernel_boot_id'', JStr current),
                        (''domain_id'', JStr domain), (''generation'', JInt (ag_generation a)),
                        (''boot_id'', jopt_str (ag_boot_id a)),
                        (''operations'', JList (map open_row_json rows))]
                 in Inr (detail,
                      audit_insert n None ''kernel_released'' (JObj detail)
                        (d\<lparr>agents := upd_where (\<lambda>r. ag_node r = n)
                                       (\<lambda>r. r\<lparr>ag_kernel_boot_id := Some current\<rparr>) (agents d)\<rparr>)))))"

definition release_previous_kernel ::
  "string \<Rightarrow> bool \<Rightarrow> string \<Rightarrow> int \<Rightarrow> string \<Rightarrow> string \<Rightarrow> string \<Rightarrow> string \<Rightarrow> db
     \<Rightarrow> (release_refusal + jobj) \<times> db" where
  "release_previous_kernel n still_held domain pid previous current operator rsn d =
     (if py_strip operator = [] \<or> py_strip rsn = [] then (Inl StatementMissing, d)
      else if previous = [] \<or> current = [] then (Inl KernelMissing, d)
      else if previous = current then (Inl SameKernel, d)
      else if \<not> still_held then (Inl ReleaseHostLock, d)
      else (case try_election_lock n pid d of
              (False, _) \<Rightarrow> (Inl AgentHoldsNode, d)
            | (True, locked) \<Rightarrow>
                (case release_txn n domain previous current operator rsn locked of
                   Inl e \<Rightarrow> (Inl e, election_unlock n pid locked)
                 | Inr (detail, d') \<Rightarrow>
                     (Inr (detail @ [(''next'', JStr (''start the agent, then resolve each ''
                         @ ''operation with app.node_agent.resolve''))]),
                      election_unlock n pid d'))))"

text \<open>\<open>check_invocation\<close>: None when the invocation may go on.\<close>

definition check_invocation ::
  "string \<Rightarrow> string \<Rightarrow> string \<Rightarrow> string option \<Rightarrow> release_refusal option" where
  "check_invocation arg_node arg_current configured running_kernel =
     (if arg_node \<noteq> configured then Some OtherNode
      else (case running_kernel of
              None \<Rightarrow> Some KernelUnreadable
            | Some k \<Rightarrow> if arg_current \<noteq> k then Some (WrongKernel k) else None))"

lemmas election_defs [txn_defs] =
  claim_def try_election_lock_def election_unlock_def takeover_txn_def
  release_previous_kernel_def release_txn_def

lemmas takeover_set_defs [row_simps] =
  state_where_def open_where_def orphan_unknown_def orphan_unsent_def move_owner_def

end
