(* ===== verification/Agent_Protocol.thy ===== *)
theory Agent_Protocol
  imports Election
begin

text \<open>
  Any number of agents, live or superseded, operators and administrators over one database:
  the transactions of \<^theory_text>\<open>Operation_Store\<close> and \<^theory_text>\<open>Election\<close> and the changes of the
  maintenance hold, interleaved in any order. A writer may present any ownership token, so what
  holds here does not depend on what a stale process believes.
\<close>

section \<open>Writes as data\<close>

datatype store_write =
    WInsert string string "string option" "string option" bool
  | WPromote string jobj "int option"
  | WCancel string string string
  | WUnknown string string json
  | WCheckpoint string json
  | WFinish string op_state json "json option" "string option" bool
  | WUnsent string string
  | WResolve string json
  | WRepin string string string string

definition drop_value :: "(store_error + 'a) \<times> db \<Rightarrow> store_error option \<times> db" where
  "drop_value p = (case fst p of Inl e \<Rightarrow> Some e | Inr _ \<Rightarrow> None, snd p)"

fun run_write :: "ownership \<Rightarrow> store_write \<Rightarrow> int \<Rightarrow> db \<Rightarrow> store_error option \<times> db" where
  "run_write w (WInsert oid k req ph st) now d = drop_value (insert_accepted w oid k req ph st now d)"
| "run_write w (WPromote oid prov at) now d = drop_value (promote w oid prov at now d)"
| "run_write w (WCancel oid rsn k) now d = drop_value (cancel_accepted w oid rsn k now d)"
| "run_write w (WUnknown oid rsn obs) now d = drop_value (mark_unknown w oid rsn obs d)"
| "run_write w (WCheckpoint oid obs) now d = drop_value (checkpoint w oid obs d)"
| "run_write w (WFinish oid st term res rsn rep) now d = drop_value (finish w oid st term res rsn rep now d)"
| "run_write w (WUnsent oid rsn) now d = drop_value (unsent_after_promotion w oid rsn now d)"
| "run_write w (WResolve oid ev) now d = drop_value (resolve_unknown w oid ev now d)"
| "run_write w (WRepin oid rt ref dig) now d = drop_value (repin w oid rt ref dig d)"

definition set_control :: "maintenance_state option \<Rightarrow> db \<Rightarrow> db" where
  "set_control c d = d\<lparr>control := c\<rparr>"

inductive agent_step :: "db \<Rightarrow> db \<Rightarrow> bool" where
  ag_write: "agent_step d (snd (run_write w wr now d))"
| ag_claim: "agent_step d (snd (claim n held domain kboot boot pid now d))"
| ag_release: "agent_step d (snd (release_previous_kernel n held domain pid prev cur oper rsn d))"
| ag_session_end: "agent_step d (election_unlock n pid d)"
| ag_hold: "hold_step (control d) c \<Longrightarrow> agent_step d (set_control c d)"
| ag_audit: "agent_step d (audit_insert n oid ev detail d)"

text \<open>Everything but the audit trail: what a refused write must leave alone.\<close>

definition core :: "db \<Rightarrow> db" where
  "core d = d\<lparr>audits := []\<rparr>"

section \<open>The lifecycle of an operation\<close>

fun op_edge :: "op_state \<Rightarrow> op_state \<Rightarrow> bool" where
  "op_edge Accepted Running = True"
| "op_edge Accepted CancelledUnsent = True"
| "op_edge Running OutcomeUnknown = True"
| "op_edge Running Completed = True"
| "op_edge Running Failed = True"
| "op_edge Running CancelledUnsent = True"
| "op_edge OutcomeUnknown Failed = True"
| "op_edge _ _ = False"

definition terminal_state :: "op_state \<Rightarrow> bool" where
  "terminal_state s \<longleftrightarrow> \<not> outstanding s"

lemma outstanding_simps [simp]:
  "outstanding Accepted" "outstanding Running" "outstanding OutcomeUnknown"
  "\<not> outstanding Completed" "\<not> outstanding Failed" "\<not> outstanding CancelledUnsent"
  by (simp_all add: outstanding_def)

lemma op_edge_outstanding: "op_edge a b \<Longrightarrow> outstanding a"
  by (cases a; cases b) auto

text \<open>
  What every SET list of the store promises beyond \<^theory_text>\<open>keyed_update\<close>: it only touches live rows
  of its own node, leaves provenance of the sender, kind and owner alone, and moves the state
  along an edge.
\<close>

locale fenced_write = keyed_update op_key guard assign
  for guard :: "operation \<Rightarrow> bool" and assign :: "operation \<Rightarrow> operation" +
  fixes w :: ownership and oid :: string
  assumes only: "guard r \<Longrightarrow> op_id r = oid"
    and live: "guard r \<Longrightarrow> outstanding (op_state r)"
    and mine: "guard r \<Longrightarrow> node_id r = own_node w \<and> owner_generation r = own_generation w"
    and kind_kept: "kind (assign r) = kind r"
    and owner_kept: "owner_generation (assign r) = owner_generation r"
    and origin_kept: "origin_generation (assign r) = origin_generation r"
    and edge: "guard r \<Longrightarrow> op_state (assign r) = op_state r \<or> op_edge (op_state r) (op_state (assign r))"
begin

lemma terminal_row_kept:
  "row_at op_key t k = Some r \<Longrightarrow> terminal_state (op_state r) \<Longrightarrow>
     row_at op_key (upd_where guard assign t) k = Some r"
  using live by (auto simp: row_at_upd terminal_state_def)

lemma state_moves:
  "row_at op_key t k = Some r \<Longrightarrow>
     \<exists>r'. row_at op_key (upd_where guard assign t) k = Some r'
        \<and> (op_state r' = op_state r \<or> op_edge (op_state r) (op_state r'))"
  using edge by (auto simp: row_at_upd)

lemma live_row_was_live:
  "r' \<in> set (upd_where guard assign t) \<Longrightarrow> outstanding (op_state r') \<Longrightarrow>
     \<exists>r \<in> set t. op_key r' = op_key r \<and> kind r' = kind r \<and> outstanding (op_state r)
        \<and> owner_generation r' = owner_generation r \<and> origin_generation r' = origin_generation r"
proof -
  assume "r' \<in> set (upd_where guard assign t)" and out: "outstanding (op_state r')"
  then obtain r where r: "r \<in> set t" "r' = (if guard r then assign r else r)"
    by (auto simp: set_upd_where)
  show ?thesis
  proof (cases "guard r")
    case True
    with r live [OF True] key_kept [OF True] show ?thesis
      by (intro bexI [of _ r]) (simp_all add: kind_kept owner_kept origin_kept)
  next
    case False
    with r out show ?thesis by (intro bexI [of _ r]) simp_all
  qed
qed

lemma row_history:
  "r' \<in> set (upd_where guard assign t) \<Longrightarrow>
     \<exists>r \<in> set t. op_key r' = op_key r \<and> kind r' = kind r
        \<and> owner_generation r' = owner_generation r \<and> origin_generation r' = origin_generation r"
proof -
  assume "r' \<in> set (upd_where guard assign t)"
  then obtain r where r: "r \<in> set t" "r' = (if guard r then assign r else r)"
    by (auto simp: set_upd_where)
  then show ?thesis
    using key_kept [of r] by (intro bexI [of _ r]) (auto simp: kind_kept owner_kept origin_kept)
qed

end

interpretation promote_write: fenced_write "promote_where w oid" "promote_set prov now" w oid
  for w oid prov now by unfold_locales (auto simp: row_simps)

interpretation cancel_write: fenced_write "promote_where w oid" "cancel_set rsn now" w oid
  for w oid rsn now by unfold_locales (auto simp: row_simps)

interpretation unknown_write: fenced_write "running_where w oid" "unknown_set rsn obs" w oid
  for w oid rsn obs by unfold_locales (auto simp: row_simps)

interpretation checkpoint_write: fenced_write "running_where w oid" "checkpoint_set obs" w oid
  for w oid obs by unfold_locales (auto simp: row_simps)

interpretation completed_write: fenced_write "running_where w oid" "finish_set Completed trm rsn rep now" w oid
  for w oid trm rsn rep now by unfold_locales (auto simp: row_simps)

interpretation failed_write: fenced_write "running_where w oid" "finish_set Failed trm rsn rep now" w oid
  for w oid trm rsn rep now by unfold_locales (auto simp: row_simps)

interpretation unsent_write: fenced_write "running_where w oid" "unsent_set rsn now" w oid
  for w oid rsn now by unfold_locales (auto simp: row_simps)

interpretation resolve_write: fenced_write "resolve_where w oid" "resolve_set ev now" w oid
  for w oid ev now by unfold_locales (auto simp: row_simps)

section \<open>The database invariant\<close>

definition owned_rows :: "db \<Rightarrow> bool" where
  "owned_rows d \<longleftrightarrow> (\<forall>r \<in> set (operations d). \<exists>a. agent_at d (node_id r) = Some a
     \<and> origin_generation r \<le> owner_generation r \<and> owner_generation r \<le> ag_generation a
     \<and> (outstanding (op_state r) \<longrightarrow> owner_generation r = ag_generation a))"

definition live_summary :: "operation \<Rightarrow> bool" where
  "live_summary r \<longleftrightarrow> kind r = ''summary'' \<and> outstanding (op_state r)"

definition one_summary :: "db \<Rightarrow> bool" where
  "one_summary d \<longleftrightarrow> (\<forall>r \<in> set (operations d). \<forall>s \<in> set (operations d).
     live_summary r \<and> live_summary s \<and> node_id r = node_id s \<longrightarrow> op_id r = op_id s)"

definition results_settled :: "db \<Rightarrow> bool" where
  "results_settled d \<longleftrightarrow> distinct (map fst (results d)) \<and> (\<forall>k \<in> set (map fst (results d)).
     \<exists>r. op_at d k = Some r \<and> (op_state r = Completed \<or> op_state r = Failed))"

definition store_inv :: "db \<Rightarrow> bool" where
  "store_inv d \<longleftrightarrow> distinct (map op_key (operations d)) \<and> distinct (map ag_node (agents d))
     \<and> owned_rows d \<and> one_summary d \<and> results_settled d"

definition empty_db :: "node_row list \<Rightarrow> maintenance_state option \<Rightarrow> db" where
  "empty_db ns c = \<lparr>nodes = ns, agents = [], operations = [], results = [], audits = [],
                    control = c, models = [], election_locks = [], audit_up = True\<rparr>"

lemma store_inv_empty: "store_inv (empty_db ns c)"
  by (simp add: empty_db_def store_inv_def owned_rows_def one_summary_def results_settled_def)

text \<open>The invariant reads three tables only.\<close>

lemma store_inv_cong:
  "operations d' = operations d \<Longrightarrow> agents d' = agents d \<Longrightarrow> results d' = results d \<Longrightarrow>
     store_inv d' = store_inv d"
  by (simp add: store_inv_def owned_rows_def one_summary_def results_settled_def)

lemma owns_iff:
  "owns w d \<longleftrightarrow> (\<exists>a. agent_at d (own_node w) = Some a \<and> ag_generation a = own_generation w
      \<and> ag_boot_id a = Some (own_boot_id w))"
  by (auto simp: owns_def prove_ownership_def Let_def split: option.splits)

lemma owned_refused:
  "\<not> owns w d \<Longrightarrow> \<exists>msg. fst (owned w act oid body d) = Inl (NotOwner msg)
     \<and> core (snd (owned w act oid body d)) = core d
     \<and> operations (snd (owned w act oid body d)) = operations d
     \<and> agents (snd (owned w act oid body d)) = agents d
     \<and> results (snd (owned w act oid body d)) = results d
     \<and> control (snd (owned w act oid body d)) = control d"
  by (auto simp: owned_def owns_def core_def audit_insert_def split: option.splits)

lemma owned_refused_simps:
  assumes "\<not> owns w d"
  shows "fst (owned w act oid body d) = Inl (NotOwner (the (prove_ownership w d)))"
    and "core (snd (owned w act oid body d)) = core d"
    and "operations (snd (owned w act oid body d)) = operations d"
  using assms by (auto simp: owned_def owns_def core_def audit_insert_def)

lemma owned_ok:
  "owns w d \<Longrightarrow> owned w act oid body d =
     (case body d of (Inl e, _) \<Rightarrow> (Inl e, d) | (Inr x, d') \<Rightarrow> (Inr x, d'))"
  by (simp add: owned_def owns_def)

text \<open>To show something of a write: the refused and rolled back case, and the body's effect.\<close>

lemma owned_effectI:
  assumes "\<And>d'. core d' = core d \<Longrightarrow> P d'"
    and "\<And>x. owns w d \<Longrightarrow> fst (body d) = Inr x \<Longrightarrow> P (snd (body d))"
  shows "P (snd (owned w act oid body d))"
proof (cases "owns w d")
  case True
  then show ?thesis using assms
    by (cases "body d"; cases "fst (body d)") (auto simp: owned_ok)
next
  case False
  from owned_refused [OF this, of act oid body] show ?thesis using assms(1) by blast
qed

lemma core_sel [simp]:
  "operations (core d) = operations d" "agents (core d) = agents d" "results (core d) = results d"
  "control (core d) = control d" "nodes (core d) = nodes d"
  "election_locks (core d) = election_locks d" "models (core d) = models d"
  by (simp_all add: core_def)

lemma core_eqD:
  assumes "core d' = core d"
  shows "operations d' = operations d" "agents d' = agents d" "results d' = results d"
    "control d' = control d" "nodes d' = nodes d" "election_locks d' = election_locks d"
  using arg_cong [OF assms, of operations] arg_cong [OF assms, of agents]
    arg_cong [OF assms, of results] arg_cong [OF assms, of control]
    arg_cong [OF assms, of nodes] arg_cong [OF assms, of election_locks]
  by simp_all

lemma store_inv_core: "core d' = core d \<Longrightarrow> store_inv d' = store_inv d"
  by (rule store_inv_cong) (erule core_eqD)+

end
