(* ===== verification/Agent_Invariants.thy ===== *)
theory Agent_Invariants
  imports Agent_Protocol
begin

text \<open>
  What every step of \<^theory_text>\<open>Agent_Protocol\<close> does to the operations, in one classification
  (\<open>write_effect\<close>), and the database invariant as a consequence. The interpretations at the
  end give the invariant and the lifecycle for whole runs.
\<close>

section \<open>Three kinds of effect\<close>

definition same_tables :: "db \<Rightarrow> db \<Rightarrow> bool" where
  "same_tables d d' \<longleftrightarrow> operations d' = operations d \<and> agents d' = agents d
     \<and> results d' = results d \<and> control d' = control d"

text \<open>
  A write plays one of three roles: only a promotion makes a row \<open>Running\<close>, and only a
  resolution touches an unknown row.
\<close>

datatype write_role = PromoteRole | ResolveRole | OtherRole

fun role_of :: "store_write \<Rightarrow> write_role" where
  "role_of (WPromote _ _ _) = PromoteRole"
| "role_of (WResolve _ _) = ResolveRole"
| "role_of _ = OtherRole"

definition role_ok :: "write_role \<Rightarrow> (operation \<Rightarrow> bool) \<Rightarrow> (operation \<Rightarrow> operation) \<Rightarrow> bool" where
  "role_ok role guard assign \<longleftrightarrow>
     (role \<noteq> PromoteRole \<longrightarrow> (\<forall>r. guard r \<and> op_state (assign r) = Running \<longrightarrow> op_state r = Running))
     \<and> (role \<noteq> ResolveRole \<longrightarrow> (\<forall>r. guard r \<longrightarrow> op_state r \<noteq> OutcomeUnknown))"

inductive write_effect :: "write_role \<Rightarrow> ownership \<Rightarrow> db \<Rightarrow> db \<Rightarrow> bool" where
  we_quiet: "same_tables d d' \<Longrightarrow> write_effect role w d d'"
| we_insert:
    "owns w d \<Longrightarrow> op_at d (op_key r) = None \<Longrightarrow> operations d' = operations d @ [r] \<Longrightarrow>
     agents d' = agents d \<Longrightarrow> results d' = results d \<Longrightarrow> control d' = control d \<Longrightarrow>
     node_id r = own_node w \<Longrightarrow> owner_generation r = own_generation w \<Longrightarrow>
     origin_generation r = own_generation w \<Longrightarrow>
     op_state r = Accepted
       \<and> (kind r = ''summary'' \<longrightarrow> \<not> list_ex (other_summary (own_node w) (op_id r)) (operations d))
     \<or> op_state r = CancelledUnsent \<Longrightarrow>
     write_effect role w d d'"
| we_update:
    "owns w d \<Longrightarrow> fenced_write guard assign w oid \<Longrightarrow> role_ok role guard assign \<Longrightarrow>
     operations d' = upd_where guard assign (operations d) \<Longrightarrow>
     agents d' = agents d \<Longrightarrow> control d' = control d \<Longrightarrow>
     results d' = results d
     \<or> (\<exists>k res r. results d' = results d @ [(k, res)] \<and> op_at d k = Some r
          \<and> op_state r = Running \<and> guard r \<and> (op_state (assign r) = Completed \<or> op_state (assign r) = Failed)) \<Longrightarrow>
     write_effect role w d d'"

lemma same_tables_core: "core d' = core d \<Longrightarrow> same_tables d d'"
  by (auto simp: same_tables_def dest: core_eqD)

lemma same_tables_refl [simp]: "same_tables d d"
  by (simp add: same_tables_def)

lemma owned_write_effect:
  "(\<And>x. owns w d \<Longrightarrow> fst (body d) = Inr x \<Longrightarrow> write_effect role w d (snd (body d))) \<Longrightarrow>
     write_effect role w d (snd (owned w act oid body d))"
  by (rule owned_effectI) (auto intro: we_quiet same_tables_core)

lemma list_ex_row:
  assumes "distinct (map op_key t)" and "list_ex P t" and "\<And>r. P r \<Longrightarrow> op_key r = k"
  shows "\<exists>r. row_at op_key t k = Some r \<and> P r"
proof -
  obtain r where "r \<in> set t" "P r" using assms(2) by (auto simp: list_ex_iff)
  with assms(1,3) row_at_unique [of op_key t r] show ?thesis by auto
qed

lemma snd_drop_value [simp]: "snd (drop_value p) = snd p"
  by (simp add: drop_value_def)

lemma role_ok_intros:
  "role_ok PromoteRole (promote_where w oid) (promote_set prov now)"
  "role_ok OtherRole (promote_where w oid) (cancel_set rsn now)"
  "role_ok OtherRole (running_where w oid) assign"
  "role_ok ResolveRole (resolve_where w oid) (resolve_set ev now)"
  by (auto simp: role_ok_def row_simps)

lemma insert_effect: "write_effect OtherRole w d (snd (insert_accepted w oid k req ph st now d))"
  unfolding insert_accepted_def
proof (rule owned_write_effect, goal_cases)
  case 1
  show ?case
  proof (cases "k = ''summary'' \<and> list_ex (other_summary (own_node w) oid) (operations d)")
    case True
    then show ?thesis by (auto intro: we_quiet)
  next
    case fresh: False
    show ?thesis
    proof (cases "op_at d (own_node w, oid)")
      case None
      with fresh 1(1) show ?thesis
        by (auto simp: new_accepted_def Let_def intro!: we_insert)
    next
      case (Some r)
      with fresh show ?thesis by (auto intro: we_quiet)
    qed
  qed
qed

lemma promote_effect: "write_effect PromoteRole w d (snd (promote w oid prov at now d))"
  unfolding promote_def
proof (rule owned_write_effect, goal_cases)
  case 1
  show ?case
  proof (cases "hold_refuses at (control d) = None \<and> \<not> any_unknown (own_node w) d")
    case True
    then show ?thesis
      using we_update [OF 1(1) promote_write.fenced_write_axioms [of w oid prov now] role_ok_intros(1)]
      by simp
  next
    case False
    then show ?thesis by (auto split: option.splits intro: we_quiet)
  qed
qed

lemma cancel_effect: "write_effect OtherRole w d (snd (cancel_accepted w oid rsn k now d))"
  unfolding cancel_accepted_def
proof (rule owned_write_effect, goal_cases)
  case 1
  show ?case
  proof (cases "op_at d (own_node w, oid)")
    case None
    with 1(1) show ?thesis
      by (auto simp: tombstone_def new_accepted_def Let_def intro!: we_insert)
  next
    case (Some r)
    with 1(1) show ?thesis
      by (auto simp: Let_def
          intro!: we_update [where guard = "promote_where w oid", OF _ cancel_write.fenced_write_axioms, OF _ role_ok_intros(2)])
  qed
qed

lemma mark_unknown_effect: "write_effect OtherRole w d (snd (mark_unknown w oid rsn obs d))"
  unfolding mark_unknown_def
  by (rule owned_write_effect)
     (auto intro!: we_update [where guard = "running_where w oid", OF _ unknown_write.fenced_write_axioms, OF _ role_ok_intros(3)])

lemma checkpoint_effect: "write_effect OtherRole w d (snd (checkpoint w oid obs d))"
  unfolding checkpoint_def
  by (rule owned_write_effect)
     (auto intro!: we_update [where guard = "running_where w oid", OF _ checkpoint_write.fenced_write_axioms, OF _ role_ok_intros(3)])

lemma unsent_effect: "write_effect OtherRole w d (snd (unsent_after_promotion w oid rsn now d))"
  unfolding unsent_after_promotion_def
  by (rule owned_write_effect)
     (auto intro!: we_update [where guard = "running_where w oid", OF _ unsent_write.fenced_write_axioms, OF _ role_ok_intros(3)])

lemma resolve_effect: "write_effect ResolveRole w d (snd (resolve_unknown w oid ev now d))"
  unfolding resolve_unknown_def
  by (rule owned_write_effect)
     (auto simp: Let_def audit_insert_def
        intro!: we_update [where guard = "resolve_where w oid", OF _ resolve_write.fenced_write_axioms, OF _ role_ok_intros(4)])

lemma repin_effect: "write_effect OtherRole w d (snd (repin w oid rt ref dig d))"
  unfolding repin_def
  by (rule owned_write_effect) (auto simp: same_tables_def intro!: we_quiet)

lemma finish_fenced:
  "st = Completed \<or> st = Failed \<Longrightarrow>
     fenced_write (running_where w oid) (finish_set st trm rsn rep now) w oid"
  using completed_write.fenced_write_axioms failed_write.fenced_write_axioms by blast

lemma finish_effect:
  assumes "distinct (map op_key (operations d))"
  shows "write_effect OtherRole w d (snd (finish w oid st trm res rsn rep now d))"
proof (cases "st \<noteq> Completed \<and> st \<noteq> Failed")
  case True
  then show ?thesis by (auto simp: finish_def intro: we_quiet)
next
  case False
  then have st: "st = Completed \<or> st = Failed" by blast
  have hit: "\<exists>r. op_at d (own_node w, oid) = Some r \<and> running_where w oid r"
    if "list_ex (running_where w oid) (operations d)"
    using assms that by (rule list_ex_row) (auto simp: row_simps)
  have res: "op_state (finish_set st trm rsn rep now r) = st" for r
    by (simp add: finish_set_def)
  have run: "running_where w oid r \<Longrightarrow> op_state r = Running" for r
    by (simp add: running_where_def)
  show ?thesis
    unfolding finish_def if_not_P [OF False]
    by (rule owned_write_effect, rule we_update [OF _ finish_fenced [OF st] role_ok_intros(3)])
       (use hit res run st in \<open>auto simp: Let_def split: option.splits\<close>)
qed

lemma run_write_effect:
  assumes "distinct (map op_key (operations d))"
  shows "write_effect (role_of wr) w d (snd (run_write w wr now d))"
  by (cases wr) (simp_all add: insert_effect promote_effect cancel_effect mark_unknown_effect
      checkpoint_effect unsent_effect resolve_effect repin_effect finish_effect assms)

section \<open>The invariant under writes\<close>

lemma owns_agent: "owns w d \<Longrightarrow> \<exists>a. agent_at d (own_node w) = Some a \<and> ag_generation a = own_generation w"
  by (auto simp: owns_iff)

lemma update_owned_rows:
  assumes "fenced_write guard assign w oid" and inv: "owned_rows d"
    and ops: "operations d' = upd_where guard assign (operations d)" and ag: "agents d' = agents d"
  shows "owned_rows d'"
proof -
  show ?thesis
    unfolding owned_rows_def
  proof
    fix r' assume r': "r' \<in> set (operations d')"
    from fenced_write.row_history [OF assms(1)] r' obtain r
      where r: "r \<in> set (operations d)" "op_key r' = op_key r"
        "owner_generation r' = owner_generation r" "origin_generation r' = origin_generation r"
      unfolding ops by blast
    with inv obtain a where a: "agent_at d (node_id r) = Some a"
      "origin_generation r \<le> owner_generation r" "owner_generation r \<le> ag_generation a"
      by (auto simp: owned_rows_def)
    have "outstanding (op_state r') \<Longrightarrow> owner_generation r' = ag_generation a"
    proof -
      assume "outstanding (op_state r')"
      with fenced_write.live_row_was_live [OF assms(1)] r' obtain s
        where s: "s \<in> set (operations d)" "op_key r' = op_key s" "outstanding (op_state s)"
          "owner_generation r' = owner_generation s"
        unfolding ops by blast
      with inv a(1) r(2) show ?thesis by (fastforce simp: owned_rows_def)
    qed
    with a r show "\<exists>a. agent_at d' (node_id r') = Some a
        \<and> origin_generation r' \<le> owner_generation r' \<and> owner_generation r' \<le> ag_generation a
        \<and> (outstanding (op_state r') \<longrightarrow> owner_generation r' = ag_generation a)"
      by (auto simp: ag)
  qed
qed

lemma one_summary_back:
  assumes inv: "one_summary d"
    and was: "\<And>x. x \<in> set (operations d') \<Longrightarrow> live_summary x \<Longrightarrow>
      \<exists>r \<in> set (operations d). live_summary r \<and> node_id r = node_id x \<and> op_id r = op_id x"
  shows "one_summary d'"
  unfolding one_summary_def
proof (intro ballI impI)
  fix r' s'
  assume rs: "r' \<in> set (operations d')" "s' \<in> set (operations d')"
    and live: "live_summary r' \<and> live_summary s' \<and> node_id r' = node_id s'"
  obtain r where r: "r \<in> set (operations d)" "live_summary r" "node_id r = node_id r'" "op_id r = op_id r'"
    using was rs(1) live by blast
  obtain s where s: "s \<in> set (operations d)" "live_summary s" "node_id s = node_id s'" "op_id s = op_id s'"
    using was rs(2) live by blast
  from inv r s live show "op_id r' = op_id s'"
    unfolding one_summary_def by metis
qed

lemma update_one_summary:
  assumes "fenced_write guard assign w oid" and inv: "one_summary d"
    and ops: "operations d' = upd_where guard assign (operations d)"
  shows "one_summary d'"
  using inv
proof (rule one_summary_back)
  fix x assume "x \<in> set (operations d')" "live_summary x"
  then show "\<exists>r \<in> set (operations d). live_summary r \<and> node_id r = node_id x \<and> op_id r = op_id x"
    using fenced_write.live_row_was_live [OF assms(1), of x "operations d"]
    by (force simp: live_summary_def ops)
qed

lemma update_results_settled:
  assumes fw: "fenced_write guard assign w oid" and inv: "results_settled d"
    and ops: "operations d' = upd_where guard assign (operations d)"
    and res: "results d' = results d
     \<or> (\<exists>k res r. results d' = results d @ [(k, res)] \<and> op_at d k = Some r
          \<and> op_state r = Running \<and> guard r
          \<and> (op_state (assign r) = Completed \<or> op_state (assign r) = Failed))"
  shows "results_settled d'"
proof -
  have kept: "\<exists>r. op_at d' k = Some r \<and> (op_state r = Completed \<or> op_state r = Failed)"
    if "k \<in> set (map fst (results d))" for k
  proof -
    from inv that obtain r where r: "op_at d k = Some r" "op_state r = Completed \<or> op_state r = Failed"
      unfolding results_settled_def by blast
    then have "terminal_state (op_state r)" by (auto simp: terminal_state_def)
    with fenced_write.terminal_row_kept [OF fw r(1)] r(2) show ?thesis by (auto simp: ops)
  qed
  from res show ?thesis
  proof
    assume "results d' = results d"
    with inv kept show ?thesis by (simp add: results_settled_def)
  next
    assume "\<exists>k res r. results d' = results d @ [(k, res)] \<and> op_at d k = Some r
          \<and> op_state r = Running \<and> guard r
          \<and> (op_state (assign r) = Completed \<or> op_state (assign r) = Failed)"
    then obtain k x r where k: "results d' = results d @ [(k, x)]" "op_at d k = Some r"
      "op_state r = Running" "guard r" "op_state (assign r) = Completed \<or> op_state (assign r) = Failed"
      by blast
    have "k \<notin> set (map fst (results d))"
    proof
      assume "k \<in> set (map fst (results d))"
      with inv k(2,3) show False by (auto simp: results_settled_def)
    qed
    moreover have "op_at d' k = Some (assign r)"
      using keyed_update.row_at_upd [OF fenced_write.axioms(1) [OF fw], of "operations d" k] k(2,4)
      by (simp add: ops)
    ultimately show ?thesis
      using inv kept k(1,5) by (auto simp: results_settled_def)
  qed
qed

lemma append_inv:
  assumes "owns w d" and new: "op_at d (op_key r) = None" and inv: "store_inv d"
    and ops: "operations d' = operations d @ [r]" and ag: "agents d' = agents d"
    and res: "results d' = results d"
    and own: "node_id r = own_node w" "owner_generation r = own_generation w"
      "origin_generation r = own_generation w"
    and st: "op_state r = Accepted
       \<and> (kind r = ''summary'' \<longrightarrow> \<not> list_ex (other_summary (own_node w) (op_id r)) (operations d))
     \<or> op_state r = CancelledUnsent"
  shows "store_inv d'"
proof -
  from \<open>owns w d\<close> obtain a where a: "agent_at d (own_node w) = Some a" "ag_generation a = own_generation w"
    by (auto simp: owns_iff)
  have "distinct (map op_key (operations d'))"
    using distinct_append_row [of op_key "operations d" r] inv new by (simp add: ops store_inv_def)
  moreover have "owned_rows d'"
    using inv a own by (auto simp: owned_rows_def store_inv_def ops ag)
  moreover have "one_summary d'"
  proof -
    have new_old: "op_id s = op_id r"
      if "s \<in> set (operations d)" "live_summary s" "live_summary r" "node_id s = node_id r" for s
      using st that own(1)
      by (auto simp: live_summary_def list_ex_iff other_summary_def)
    have old: "op_id x = op_id y"
      if "x \<in> set (operations d)" "y \<in> set (operations d)" "live_summary x" "live_summary y"
        "node_id x = node_id y" for x y
      using inv that unfolding store_inv_def one_summary_def by blast
    show ?thesis
      unfolding one_summary_def
    proof (intro ballI impI)
      fix x y
      assume "x \<in> set (operations d')" "y \<in> set (operations d')"
        and l: "live_summary x \<and> live_summary y \<and> node_id x = node_id y"
      then have "x = r \<or> x \<in> set (operations d)" "y = r \<or> y \<in> set (operations d)"
        by (auto simp: ops)
      with l show "op_id x = op_id y"
        using new_old [of x] new_old [of y] old [of x y] by (elim disjE) auto
    qed
  qed
  moreover have "results_settled d'"
    using inv by (fastforce simp: results_settled_def store_inv_def ops res row_at_append)
  ultimately show ?thesis using inv by (simp add: store_inv_def ag)
qed

lemma write_effect_inv: "write_effect role w d d' \<Longrightarrow> store_inv d \<Longrightarrow> store_inv d'"
proof (induction rule: write_effect.induct)
  case (we_quiet d d' role w)
  then show ?case using store_inv_cong [of d' d] by (simp add: same_tables_def)
next
  case (we_insert w d r d' role)
  then show ?case by (intro append_inv [of w d r d'])
next
  case (we_update w d guard assign oid role d')
  from we_update.prems have inv: "distinct (map op_key (operations d))" "owned_rows d"
    "one_summary d" "results_settled d" "distinct (map ag_node (agents d))"
    by (simp_all add: store_inv_def)
  have "distinct (map op_key (operations d'))"
    using keyed_update.distinct_kept [OF fenced_write.axioms(1) [OF we_update.hyps(2)] inv(1)]
    by (simp add: we_update.hyps(4))
  with inv(5) update_owned_rows [OF we_update.hyps(2) inv(2) we_update.hyps(4,5)]
    update_one_summary [OF we_update.hyps(2) inv(3) we_update.hyps(4)]
    update_results_settled [OF we_update.hyps(2) inv(4) we_update.hyps(4,7)]
  show ?case by (simp add: store_inv_def we_update.hyps(5))
qed

section \<open>The invariant under a takeover\<close>

definition takeover_row :: "string \<Rightarrow> int \<Rightarrow> jobj \<Rightarrow> int \<Rightarrow> operation \<Rightarrow> operation" where
  "takeover_row n g note now r =
     (if node_id r \<noteq> n then r
      else (case op_state r of
              Running \<Rightarrow> orphan_unknown g note r
            | Accepted \<Rightarrow> orphan_unsent g note now r
            | OutcomeUnknown \<Rightarrow> move_owner g r
            | _ \<Rightarrow> r))"

lemma takeover_ops_row: "takeover_ops n g note now ops = map (takeover_row n g note now) ops"
  unfolding takeover_ops_def
  by (induction ops) (auto simp: takeover_row_def row_simps split: op_state.split)

lemma takeover_row_simps [simp]:
  "node_id (takeover_row n g note now r) = node_id r"
  "op_id (takeover_row n g note now r) = op_id r"
  "kind (takeover_row n g note now r) = kind r"
  "origin_generation (takeover_row n g note now r) = origin_generation r"
  by (simp_all add: takeover_row_def row_simps split: op_state.split)

lemma takeover_row_cases:
  "node_id r \<noteq> n \<Longrightarrow> takeover_row n g note now r = r"
  "terminal_state (op_state r) \<Longrightarrow> takeover_row n g note now r = r"
  "node_id r = n \<Longrightarrow> op_state r = Running \<Longrightarrow>
     op_state (takeover_row n g note now r) = OutcomeUnknown"
  "node_id r = n \<Longrightarrow> op_state r = Accepted \<Longrightarrow>
     op_state (takeover_row n g note now r) = CancelledUnsent"
  "node_id r = n \<Longrightarrow> op_state r = OutcomeUnknown \<Longrightarrow>
     op_state (takeover_row n g note now r) = OutcomeUnknown"
  "node_id r = n \<Longrightarrow> outstanding (op_state r) \<Longrightarrow> owner_generation (takeover_row n g note now r) = g"
  by (auto simp: takeover_row_def row_simps terminal_state_def outstanding_def split: op_state.split)

lemma takeover_row_live: "outstanding (op_state (takeover_row n g note now r)) \<Longrightarrow> outstanding (op_state r)"
  by (auto simp: takeover_row_def row_simps outstanding_def split: op_state.splits if_splits)

lemma takeover_row_edge:
  "op_state (takeover_row n g note now r) = op_state r
   \<or> op_edge (op_state r) (op_state (takeover_row n g note now r))"
  by (cases "op_state r") (auto simp: takeover_row_def row_simps)

lemma row_at_map_takeover:
  "row_at op_key (map (takeover_row n g note now) t) k =
     map_option (takeover_row n g note now) (row_at op_key t k)"
  by (induction t) auto

lemma count_handover:
  "count_where (state_where n OutcomeUnknown) (map (takeover_row n g note now) t) =
     count_where (state_where n OutcomeUnknown) t + count_where (state_where n Running) t"
  by (induction t) (auto simp: count_where_def takeover_row_def row_simps split: op_state.split)

lemma ensure_agent_at:
  "agent_at (ensure_agent n d) m =
     (if m = n then Some (case agent_at d n of Some a \<Rightarrow> a | None \<Rightarrow> fresh_agent n) else agent_at d m)"
  by (auto simp: ensure_agent_def row_at_append fresh_agent_def split: option.splits)

lemma ensure_agent_distinct:
  "distinct (map ag_node (agents d)) \<Longrightarrow> distinct (map ag_node (agents (ensure_agent n d)))"
  by (auto simp: ensure_agent_def fresh_agent_def row_at_None_iff split: option.splits)

lemma ensure_agent_frame [simp]:
  "operations (ensure_agent n d) = operations d" "results (ensure_agent n d) = results d"
  "control (ensure_agent n d) = control d" "nodes (ensure_agent n d) = nodes d"
  "election_locks (ensure_agent n d) = election_locks d"
  by (simp_all add: ensure_agent_def split: option.split)

interpretation agent_write: keyed_update ag_node "\<lambda>a. ag_node a = n" "agent_set g boot kboot pid now"
  for n g boot kboot pid now by unfold_locales (simp add: agent_set_def)

interpretation kernel_write: keyed_update ag_node "\<lambda>a. ag_node a = n"
    "\<lambda>a. a\<lparr>ag_kernel_boot_id := Some k\<rparr>"
  for n k by unfold_locales simp

definition previous_agent :: "string \<Rightarrow> db \<Rightarrow> agent_row" where
  "previous_agent n d = (case agent_at d n of Some a \<Rightarrow> a | None \<Rightarrow> fresh_agent n)"

lemma previous_agent_locks [simp]:
  "previous_agent n (d\<lparr>election_locks := l\<rparr>) = previous_agent n d"
  by (simp add: previous_agent_def)

lemma ensure_agent_locks [simp]:
  "agents (ensure_agent n (d\<lparr>election_locks := l\<rparr>)) = agents (ensure_agent n d)"
  by (simp add: ensure_agent_def split: option.split)

lemma claim_InrD:
  "fst (claim n held domain kboot boot pid now d) = Inr el \<Longrightarrow>
     \<exists>d1. takeover_txn n domain kboot boot pid now
        (d\<lparr>election_locks := (n, pid) # election_locks d\<rparr>) = Inr (el, d1)
        \<and> snd (claim n held domain kboot boot pid now d) = d1"
  by (auto simp: claim_def try_election_lock_def split: if_splits sum.splits prod.splits)

lemma ensured_previous:
  "(case agent_at (ensure_agent n d) n of Some a \<Rightarrow> a | None \<Rightarrow> fresh_agent n) = previous_agent n d"
  by (simp add: ensure_agent_at previous_agent_def split: option.split)

lemma takeover_txn_InrD:
  assumes "takeover_txn n domain kboot boot pid now d = Inr (el, d')"
  defines "g \<equiv> ag_generation (previous_agent n d) + 1"
  shows "el_ownership el = \<lparr>own_node = n, own_generation = g, own_boot_id = boot\<rparr>"
    and "operations d' = map (takeover_row n g (takeover_note g (previous_agent n d)) now) (operations d)"
    and "agents d' = upd_where (\<lambda>a. ag_node a = n) (agent_set g boot kboot pid now)
           (agents (ensure_agent n d))"
    and "results d' = results d" and "control d' = control d"
    and "election_locks d' = election_locks d"
    and "converted_unknown el = count_where (state_where n Running) (operations d)"
    and "converted_unsent el = count_where (state_where n Accepted) (operations d)"
  using assms(1) unfolding takeover_txn_def ensured_previous Let_def
  by (auto simp: g_def takeover_ops_row audit_insert_def split: option.splits if_splits)

text \<open>Everything a successful claim does to the tables the invariant reads.\<close>

lemma claim_success:
  assumes "fst (claim n held domain kboot boot pid now d) = Inr el"
  defines "d' \<equiv> snd (claim n held domain kboot boot pid now d)"
  defines "g \<equiv> ag_generation (previous_agent n d) + 1"
  shows "el_ownership el = \<lparr>own_node = n, own_generation = g, own_boot_id = boot\<rparr>"
    and "operations d' = map (takeover_row n g (takeover_note g (previous_agent n d)) now) (operations d)"
    and "agents d' = upd_where (\<lambda>a. ag_node a = n) (agent_set g boot kboot pid now)
           (agents (ensure_agent n d))"
    and "results d' = results d" and "control d' = control d"
    and "election_locks d' = (n, pid) # election_locks d"
    and "converted_unknown el = count_where (state_where n Running) (operations d)"
    and "converted_unsent el = count_where (state_where n Accepted) (operations d)"
proof -
  obtain d1 where t: "takeover_txn n domain kboot boot pid now
      (d\<lparr>election_locks := (n, pid) # election_locks d\<rparr>) = Inr (el, d1)" and d1: "d' = d1"
    using claim_InrD [OF assms(1)] by (auto simp: d'_def)
  note eff = takeover_txn_InrD [OF t, folded d1]
  show "el_ownership el = \<lparr>own_node = n, own_generation = g, own_boot_id = boot\<rparr>"
    "operations d' = map (takeover_row n g (takeover_note g (previous_agent n d)) now) (operations d)"
    "agents d' = upd_where (\<lambda>a. ag_node a = n) (agent_set g boot kboot pid now)
           (agents (ensure_agent n d))"
    "results d' = results d" "control d' = control d"
    "election_locks d' = (n, pid) # election_locks d"
    "converted_unknown el = count_where (state_where n Running) (operations d)"
    "converted_unsent el = count_where (state_where n Accepted) (operations d)"
    using eff by (simp_all add: g_def)
qed

lemma claim_refused:
  "fst (claim n held domain kboot boot pid now d) = Inl e \<Longrightarrow>
     snd (claim n held domain kboot boot pid now d) = d"
  by (auto simp: claim_def try_election_lock_def takeover_txn_def Let_def election_unlock_def
      split: if_splits option.splits sum.splits prod.splits)

lemma claim_agent_at:
  assumes "fst (claim n held domain kboot boot pid now d) = Inr el"
  shows "agent_at (snd (claim n held domain kboot boot pid now d)) m =
     (if m = n
      then Some (agent_set (ag_generation (previous_agent n d) + 1) boot kboot pid now (previous_agent n d))
      else agent_at d m)"
proof -
  have "ag_node (previous_agent n d) = n"
    by (auto simp: previous_agent_def fresh_agent_def dest: row_at_SomeD split: option.splits)
  moreover have "agent_at d m = Some a \<Longrightarrow> ag_node a = m" for a
    by (auto dest: row_at_SomeD)
  ultimately show ?thesis
    unfolding claim_success(3) [OF assms] agent_write.row_at_upd ensure_agent_at
    by (cases "agent_at d m") (auto simp: previous_agent_def)
qed

lemma claim_inv:
  assumes "store_inv d"
  shows "store_inv (snd (claim n held domain kboot boot pid now d))"
proof (cases "fst (claim n held domain kboot boot pid now d)")
  case (Inl e)
  with assms claim_refused show ?thesis by metis
next
  case (Inr el)
  let ?d' = "snd (claim n held domain kboot boot pid now d)"
  let ?g = "ag_generation (previous_agent n d) + 1"
  let ?tr = "takeover_row n ?g (takeover_note ?g (previous_agent n d)) now"
  note eff = claim_success [OF Inr] claim_agent_at [OF Inr]
  have dist: "distinct (map op_key (operations ?d'))" "distinct (map ag_node (agents ?d'))"
    using assms ensure_agent_distinct
    by (auto simp: eff(2,3) store_inv_def agent_write.keys_kept comp_def)
  have "owned_rows ?d'"
    unfolding owned_rows_def
  proof
    fix r' assume "r' \<in> set (operations ?d')"
    then obtain r where r: "r \<in> set (operations d)" "r' = ?tr r" by (auto simp: eff(2))
    with assms obtain a where a: "agent_at d (node_id r) = Some a"
      "origin_generation r \<le> owner_generation r" "owner_generation r \<le> ag_generation a"
      "outstanding (op_state r) \<Longrightarrow> owner_generation r = ag_generation a"
      unfolding store_inv_def owned_rows_def by blast
    show "\<exists>a. agent_at ?d' (node_id r') = Some a \<and> origin_generation r' \<le> owner_generation r'
        \<and> owner_generation r' \<le> ag_generation a
        \<and> (outstanding (op_state r') \<longrightarrow> owner_generation r' = ag_generation a)"
    proof (cases "node_id r = n")
      case True
      with a(1) have prev: "previous_agent n d = a" by (simp add: previous_agent_def)
      show ?thesis
      proof (cases "outstanding (op_state r)")
        case True
        with takeover_row_cases(6) [OF \<open>node_id r = n\<close> True, of ?g] a prev show ?thesis
          by (auto simp: eff(9) r(2) \<open>node_id r = n\<close> agent_set_def)
      next
        case False
        with a prev show ?thesis
          by (auto simp: eff(9) r(2) \<open>node_id r = n\<close> agent_set_def terminal_state_def
              takeover_row_cases(2))
      qed
    next
      case False
      with a show ?thesis by (auto simp: eff(9) r(2) takeover_row_cases(1))
    qed
  qed
  moreover have "one_summary ?d'"
  proof (rule one_summary_back [where d = d])
    show "one_summary d" using assms by (simp add: store_inv_def)
    fix x assume "x \<in> set (operations ?d')" "live_summary x"
    then obtain r where "r \<in> set (operations d)" "x = ?tr r" by (auto simp: eff(2))
    with \<open>live_summary x\<close> takeover_row_live show
      "\<exists>r \<in> set (operations d). live_summary r \<and> node_id r = node_id x \<and> op_id r = op_id x"
      by (intro bexI [of _ r]) (auto simp: live_summary_def)
  qed
  moreover have "results_settled ?d'"
    using assms by (fastforce simp: store_inv_def results_settled_def eff(2,4) row_at_map_takeover
        takeover_row_cases(2) terminal_state_def)
  ultimately show ?thesis using dist by (simp add: store_inv_def)
qed

lemma release_effect:
  "operations (snd (release_previous_kernel n held domain pid p c oper rsn d)) = operations d"
  "results (snd (release_previous_kernel n held domain pid p c oper rsn d)) = results d"
  "control (snd (release_previous_kernel n held domain pid p c oper rsn d)) = control d"
  "\<exists>k. agents (snd (release_previous_kernel n held domain pid p c oper rsn d)) = agents d
     \<or> agents (snd (release_previous_kernel n held domain pid p c oper rsn d))
        = upd_where (\<lambda>a. ag_node a = n) (\<lambda>a. a\<lparr>ag_kernel_boot_id := Some k\<rparr>) (agents d)"
  by (auto simp: release_previous_kernel_def try_election_lock_def release_txn_def Let_def
      audit_insert_def election_unlock_def split: if_splits option.splits sum.splits prod.splits)

lemma kernel_agent_at:
  "agents d' = upd_where (\<lambda>a. ag_node a = n) (\<lambda>a. a\<lparr>ag_kernel_boot_id := Some k\<rparr>) (agents d) \<Longrightarrow>
     agent_at d' m = map_option (\<lambda>a. if ag_node a = n then a\<lparr>ag_kernel_boot_id := Some k\<rparr> else a)
       (agent_at d m)"
  by (simp add: kernel_write.row_at_upd)

lemma release_inv:
  assumes "store_inv d"
  shows "store_inv (snd (release_previous_kernel n held domain pid p c oper rsn d))"
proof -
  let ?d' = "snd (release_previous_kernel n held domain pid p c oper rsn d)"
  obtain k where "agents ?d' = agents d
      \<or> agents ?d' = upd_where (\<lambda>a. ag_node a = n) (\<lambda>a. a\<lparr>ag_kernel_boot_id := Some k\<rparr>) (agents d)"
    using release_effect(4) by blast
  then show ?thesis
  proof
    assume "agents ?d' = agents d"
    with assms show ?thesis using store_inv_cong [of ?d' d] release_effect(1-3) by simp
  next
    assume ag: "agents ?d' = upd_where (\<lambda>a. ag_node a = n) (\<lambda>a. a\<lparr>ag_kernel_boot_id := Some k\<rparr>) (agents d)"
    have "owned_rows ?d'"
      using assms unfolding store_inv_def owned_rows_def release_effect(1) kernel_agent_at [OF ag]
      by fastforce
    moreover have "one_summary ?d' = one_summary d" "results_settled ?d' = results_settled d"
      by (simp_all only: one_summary_def results_settled_def release_effect(1,2))
    moreover have "map ag_node (agents ?d') = map ag_node (agents d)"
      unfolding ag by (rule kernel_write.keys_kept)
    ultimately show ?thesis
      using assms by (simp add: store_inv_def release_effect(1))
  qed
qed

section \<open>The protocol as a transition system\<close>

lemma agent_step_inv: "agent_step d d' \<Longrightarrow> store_inv d \<Longrightarrow> store_inv d'"
proof (induction rule: agent_step.induct)
  case (ag_write d w wr now)
  then have "distinct (map op_key (operations d))" by (simp add: store_inv_def)
  from write_effect_inv [OF run_write_effect [OF this]] ag_write show ?case by blast
next
  case (ag_claim d n held domain kboot boot pid now)
  then show ?case by (rule claim_inv)
next
  case (ag_release d n held domain pid prev cur oper rsn)
  then show ?case by (rule release_inv)
next
  case (ag_session_end d n pid)
  then show ?case using store_inv_cong [of "election_unlock n pid d" d]
    by (simp add: election_unlock_def)
next
  case (ag_hold d c)
  then show ?case using store_inv_cong [of "set_control c d" d] by (simp add: set_control_def)
next
  case (ag_audit d n oid ev detail)
  then show ?case using store_inv_cong [of "audit_insert n oid ev detail d" d]
    by (simp add: audit_insert_def)
qed

interpretation protocol: transition_system agent_step store_inv
  by unfold_locales (rule agent_step_inv)

end
