(* ===== verification/Agent_Runs.thy ===== *)
theory Agent_Runs
  imports Agent_Invariants
begin

text \<open>
  Single rows across steps and runs of the protocol: the lifecycle interface of
  \<^theory_text>\<open>Prelude\<close> interpreted on the store, the growth of generations, and who can make a row
  \<open>Running\<close> or take it out of \<open>OutcomeUnknown\<close>.
\<close>

section \<open>One row across one write\<close>

lemma write_row:
  assumes "write_effect role w d d'" and "op_at d k = Some r"
  shows "\<exists>r'. op_at d' k = Some r'
    \<and> (op_state r' = op_state r \<or> op_edge (op_state r) (op_state r'))
    \<and> (terminal_state (op_state r) \<longrightarrow> r' = r)
    \<and> (role \<noteq> PromoteRole \<longrightarrow> op_state r' = Running \<longrightarrow> op_state r = Running)
    \<and> (role \<noteq> ResolveRole \<longrightarrow> op_state r = OutcomeUnknown \<longrightarrow> r' = r)"
  using assms
proof (induction rule: write_effect.induct)
  case (we_quiet d d' role w)
  then show ?case by (auto simp: same_tables_def)
next
  case (we_insert w d r0 d' role)
  then show ?case by (auto simp: row_at_append)
next
  case (we_update w d guard assign oid role d')
  let ?r' = "if guard r then assign r else r"
  have "op_at d' k = Some ?r'"
    using keyed_update.row_at_upd [OF fenced_write.axioms(1) [OF we_update.hyps(2)]]
      we_update.hyps(4) we_update.prems by simp
  moreover have "guard r \<Longrightarrow> outstanding (op_state r)"
    using fenced_write.live [OF we_update.hyps(2)] .
  moreover have "guard r \<Longrightarrow> op_state (assign r) = op_state r \<or> op_edge (op_state r) (op_state (assign r))"
    using fenced_write.edge [OF we_update.hyps(2)] .
  moreover have "role \<noteq> PromoteRole \<Longrightarrow> guard r \<Longrightarrow> op_state (assign r) = Running \<Longrightarrow> op_state r = Running"
    "role \<noteq> ResolveRole \<Longrightarrow> guard r \<Longrightarrow> op_state r \<noteq> OutcomeUnknown"
    using we_update.hyps(3) by (auto simp: role_ok_def)
  ultimately show ?case
    by (intro exI [of _ ?r']) (auto simp: terminal_state_def)
qed

lemma write_new_row:
  assumes "write_effect role w d d'" and "op_at d k = None" and "op_at d' k = Some r'"
  shows "op_state r' = Accepted \<or> op_state r' = CancelledUnsent"
  using assms
proof (induction rule: write_effect.induct)
  case (we_quiet d d' role w)
  then show ?case by (simp add: same_tables_def)
next
  case (we_insert w d r0 d' role)
  then show ?case by (auto simp: row_at_append split: if_splits)
next
  case (we_update w d guard assign oid role d')
  then show ?case
    using keyed_update.row_at_upd [OF fenced_write.axioms(1) [OF we_update.hyps(2)]] by simp
qed

lemma write_frame: "write_effect role w d d' \<Longrightarrow> agents d' = agents d \<and> control d' = control d"
  by (induction rule: write_effect.induct) (auto simp: same_tables_def)

section \<open>One row across one step\<close>

lemma claim_row:
  "op_at d k = Some r \<Longrightarrow> \<exists>r'. op_at (snd (claim n held domain kboot boot pid now d)) k = Some r'
    \<and> (op_state r' = op_state r \<or> op_edge (op_state r) (op_state r'))
    \<and> (terminal_state (op_state r) \<longrightarrow> r' = r)
    \<and> (op_state r' = Running \<longrightarrow> op_state r = Running)
    \<and> (op_state r = OutcomeUnknown \<longrightarrow> op_state r' = OutcomeUnknown)"
proof (cases "fst (claim n held domain kboot boot pid now d)")
  case (Inl e)
  assume "op_at d k = Some r"
  with claim_refused [OF Inl] show ?thesis by auto
next
  case (Inr el)
  assume r: "op_at d k = Some r"
  let ?g = "ag_generation (previous_agent n d) + 1"
  let ?tr = "takeover_row n ?g (takeover_note ?g (previous_agent n d)) now"
  have "op_at (snd (claim n held domain kboot boot pid now d)) k = Some (?tr r)"
    using r by (simp add: claim_success(2) [OF Inr] row_at_map_takeover)
  moreover have "op_state (?tr r) = Running \<Longrightarrow> op_state r = Running"
    by (auto simp: takeover_row_def row_simps split: op_state.splits if_splits)
  moreover have "op_state r = OutcomeUnknown \<Longrightarrow> op_state (?tr r) = OutcomeUnknown"
    by (auto simp: takeover_row_def row_simps)
  ultimately show ?thesis
    using takeover_row_edge takeover_row_cases(2) by blast
qed

definition is_promotion :: "string \<times> string \<Rightarrow> db \<Rightarrow> db \<Rightarrow> bool" where
  "is_promotion k d d' \<longleftrightarrow> (\<exists>w prov at now. own_node w = fst k
     \<and> fst (promote w (snd k) prov at now d) = Inr True
     \<and> d' = snd (promote w (snd k) prov at now d))"

definition is_resolution :: "string \<times> string \<Rightarrow> db \<Rightarrow> db \<Rightarrow> bool" where
  "is_resolution k d d' \<longleftrightarrow> (\<exists>w evidence now. own_node w = fst k
     \<and> fst (resolve_unknown w (snd k) evidence now d) = Inr True
     \<and> d' = snd (resolve_unknown w (snd k) evidence now d))"

text \<open>What a promotion and a resolution do, seen from the row.\<close>

lemma promote_moves:
  assumes "op_at (snd (promote w oid prov at now d)) k = Some r'"
    and "op_state r' = Running" and "op_at d k = Some r" and "op_state r \<noteq> Running"
  shows "is_promotion k d (snd (promote w oid prov at now d))"
proof -
  have own: "owns w d"
  proof (rule ccontr)
    assume "\<not> owns w d"
    with assms show False by (auto simp: promote_def owned_refused_simps)
  qed
  have adm: "hold_refuses at (control d) = None" "\<not> any_unknown (own_node w) d"
    using assms own by (auto simp: promote_def owned_ok split: option.splits if_splits)
  have "promote_where w oid r"
    using assms own adm by (auto simp: promote_def owned_ok promote_write.row_at_upd split: if_splits)
  moreover from this have "k = (own_node w, oid)" and "list_ex (promote_where w oid) (operations d)"
    using row_at_SomeD [OF assms(3)] by (auto simp: promote_where_def list_ex_iff)
  ultimately show ?thesis
    unfolding is_promotion_def
    by (intro exI [of _ w] exI [of _ prov] exI [of _ at] exI [of _ now])
       (simp add: promote_def owned_ok [OF own] adm)
qed

lemma resolve_moves:
  assumes "op_at (snd (resolve_unknown w oid ev now d)) k = Some r'"
    and "op_state r' \<noteq> OutcomeUnknown" and "op_at d k = Some r" and "op_state r = OutcomeUnknown"
  shows "is_resolution k d (snd (resolve_unknown w oid ev now d))"
proof -
  have own: "owns w d"
  proof (rule ccontr)
    assume "\<not> owns w d"
    with assms show False by (auto simp: resolve_unknown_def owned_refused_simps)
  qed
  have "resolve_where w oid r"
  proof (rule ccontr)
    assume "\<not> resolve_where w oid r"
    with assms own show False
      by (auto simp: resolve_unknown_def owned_ok Let_def audit_insert_def
          resolve_write.row_at_upd split: if_splits)
  qed
  moreover from this have "k = (own_node w, oid)" and "list_ex (resolve_where w oid) (operations d)"
    using row_at_SomeD [OF assms(3)] by (auto simp: resolve_where_def list_ex_iff)
  ultimately show ?thesis
    unfolding is_resolution_def
    by (intro exI [of _ w] exI [of _ ev] exI [of _ now])
       (simp add: resolve_unknown_def owned_ok [OF own] Let_def)
qed

lemma step_row:
  assumes "agent_step d d'" and "store_inv d" and "op_at d k = Some r"
  shows "\<exists>r'. op_at d' k = Some r'
    \<and> (op_state r' = op_state r \<or> op_edge (op_state r) (op_state r'))
    \<and> (terminal_state (op_state r) \<longrightarrow> r' = r)
    \<and> (op_state r' = Running \<longrightarrow> op_state r = Running \<or> is_promotion k d d')
    \<and> (op_state r = OutcomeUnknown \<longrightarrow> op_state r' = OutcomeUnknown \<or> is_resolution k d d')"
  using assms
proof (induction rule: agent_step.induct)
  case (ag_write d w wr now)
  then have "distinct (map op_key (operations d))" by (simp add: store_inv_def)
  note we = run_write_effect [OF this, of wr w now]
  from write_row [OF we ag_write.prems(2)] obtain r'
    where r': "op_at (snd (run_write w wr now d)) k = Some r'"
      "op_state r' = op_state r \<or> op_edge (op_state r) (op_state r')"
      "terminal_state (op_state r) \<longrightarrow> r' = r"
      "role_of wr \<noteq> PromoteRole \<longrightarrow> op_state r' = Running \<longrightarrow> op_state r = Running"
      "role_of wr \<noteq> ResolveRole \<longrightarrow> op_state r = OutcomeUnknown \<longrightarrow> r' = r"
    by blast
  have "op_state r' = Running \<longrightarrow> op_state r = Running \<or> is_promotion k d (snd (run_write w wr now d))"
  proof (cases wr)
    case (WPromote oid prov at)
    with r'(1) promote_moves [OF _ _ ag_write.prems(2), of w oid prov at now r'] show ?thesis
      by auto
  qed (use r'(4) in auto)
  moreover have "op_state r = OutcomeUnknown \<longrightarrow>
      op_state r' = OutcomeUnknown \<or> is_resolution k d (snd (run_write w wr now d))"
  proof (cases wr)
    case (WResolve oid ev)
    with r'(1) resolve_moves [OF _ _ ag_write.prems(2), of w oid ev now r'] show ?thesis
      by auto
  qed (use r'(5) in auto)
  ultimately show ?case using r'(1-3) by blast
next
  case (ag_claim d n held domain kboot boot pid now)
  then show ?case using claim_row by blast
next
  case (ag_release d n held domain pid prev cur oper rsn)
  then show ?case by (auto simp: release_effect(1))
next
  case (ag_session_end d n pid)
  then show ?case by (auto simp: election_unlock_def)
next
  case (ag_hold d c)
  then show ?case by (auto simp: set_control_def)
next
  case (ag_audit d n oid ev detail)
  then show ?case by (auto simp: audit_insert_def)
qed

lemma step_new_row:
  assumes "agent_step d d'" and "store_inv d" and "op_at d k = None" and "op_at d' k = Some r'"
  shows "op_state r' = Accepted \<or> op_state r' = CancelledUnsent"
  using assms
proof (induction rule: agent_step.induct)
  case (ag_write d w wr now)
  then have "distinct (map op_key (operations d))" by (simp add: store_inv_def)
  from write_new_row [OF run_write_effect [OF this]] ag_write.prems show ?case by blast
next
  case (ag_claim d n held domain kboot boot pid now)
  then show ?case
  proof (cases "fst (claim n held domain kboot boot pid now d)")
    case (Inl e)
    with ag_claim.prems claim_refused [OF Inl] show ?thesis by simp
  next
    case (Inr el)
    with ag_claim.prems show ?thesis by (simp add: claim_success(2) row_at_map_takeover)
  qed
qed (simp_all add: release_effect(1) election_unlock_def set_control_def audit_insert_def)

section \<open>Generations only grow\<close>

lemma step_generation:
  assumes "agent_step d d'" and "agent_at d n = Some a" and "store_inv d"
  shows "\<exists>b. agent_at d' n = Some b \<and> ag_generation a \<le> ag_generation b"
  using assms
proof (induction rule: agent_step.induct)
  case (ag_write d w wr now)
  then have "distinct (map op_key (operations d))" by (simp add: store_inv_def)
  from write_frame [OF run_write_effect [OF this]] ag_write.prems(1) show ?case by auto
next
  case (ag_claim d m held domain kboot boot pid now)
  then show ?case
  proof (cases "fst (claim m held domain kboot boot pid now d)")
    case (Inl e)
    with ag_claim.prems claim_refused [OF Inl] show ?thesis by simp
  next
    case (Inr el)
    from ag_claim.prems(1) show ?thesis
      unfolding claim_agent_at [OF Inr] by (auto simp: previous_agent_def agent_set_def)
  qed
next
  case (ag_release d m held domain pid prev cur oper rsn)
  let ?d' = "snd (release_previous_kernel m held domain pid prev cur oper rsn d)"
  obtain k where "agents ?d' = agents d
      \<or> agents ?d' = upd_where (\<lambda>a. ag_node a = m) (\<lambda>a. a\<lparr>ag_kernel_boot_id := Some k\<rparr>) (agents d)"
    using release_effect(4) by blast
  with ag_release.prems(1) show ?case by (auto simp: kernel_write.row_at_upd)
qed (auto simp: election_unlock_def set_control_def audit_insert_def)

definition generation_at_least :: "string \<Rightarrow> int \<Rightarrow> db \<Rightarrow> bool" where
  "generation_at_least n g d \<longleftrightarrow> (\<exists>a. agent_at d n = Some a \<and> g \<le> ag_generation a)"

lemma generation_run:
  assumes "rtranclp agent_step d d'" and "store_inv d" and "generation_at_least n g d"
  shows "generation_at_least n g d'"
  using _ assms
proof (rule protocol.stable_run)
  fix a b
  assume "agent_step a b" "store_inv a" "generation_at_least n g a"
  then show "generation_at_least n g b"
    unfolding generation_at_least_def by (meson step_generation order_trans)
qed

lemma superseded_not_owner: "generation_at_least (own_node w) g d \<Longrightarrow> own_generation w < g \<Longrightarrow> \<not> owns w d"
  by (auto simp: generation_at_least_def owns_iff)

section \<open>The lifecycle interface on the store\<close>

definition op_status :: "db \<Rightarrow> string \<times> string \<Rightarrow> op_state option" where
  "op_status d k = map_option op_state (op_at d k)"

interpretation ops: lifecycle agent_step store_inv op_status op_edge
proof
  fix s t k a
  assume "agent_step s t" "store_inv s" "op_status s k = Some a"
  then show "\<exists>b. op_status t k = Some b \<and> (b = a \<or> op_edge a b)"
    unfolding op_status_def using step_row by fastforce
qed

definition row_fixed :: "string \<times> string \<Rightarrow> operation \<Rightarrow> db \<Rightarrow> bool" where
  "row_fixed k r d \<longleftrightarrow> op_at d k = Some r"

lemma terminal_row_run:
  assumes "rtranclp agent_step d d'" and "store_inv d" and "op_at d k = Some r"
    and fin: "terminal_state (op_state r)"
  shows "op_at d' k = Some r"
proof -
  have "row_fixed k r d'"
    using _ assms(1,2)
  proof (rule protocol.stable_run)
    show "row_fixed k r d" using assms(3) by (simp add: row_fixed_def)
    fix a b
    assume "agent_step a b" "store_inv a" "row_fixed k r a"
    with step_row [of a b k r] fin show "row_fixed k r b" by (auto simp: row_fixed_def)
  qed
  then show ?thesis by (simp add: row_fixed_def)
qed

text \<open>Once past \<open>Accepted\<close>, never \<open>Accepted\<close> again.\<close>

lemma no_return_to_accepted: "rtranclp op_edge a b \<Longrightarrow> a \<noteq> Accepted \<Longrightarrow> b \<noteq> Accepted"
proof (induction rule: rtranclp_induct)
  case base
  then show ?case by simp
next
  case (step y z)
  then show ?case by (cases y; cases z) auto
qed

lemma left_accepted_run:
  assumes "rtranclp agent_step d d'" and "store_inv d"
    and "op_status d k = Some st" and "st \<noteq> Accepted"
  shows "op_status d' k \<noteq> Some Accepted"
  using ops.status_run [OF assms(1-3)] no_return_to_accepted [OF _ assms(4)] by fastforce

lemma promote_True:
  assumes "fst (promote w oid prov at now d) = Inr True" and "store_inv d"
  shows "owns w d" and "hold_refuses at (control d) = None"
    and "\<not> any_unknown (own_node w) d"
    and "\<exists>r. op_at d (own_node w, oid) = Some r \<and> op_state r = Accepted
          \<and> owner_generation r = own_generation w
          \<and> op_at (snd (promote w oid prov at now d)) (own_node w, oid) = Some (promote_set prov now r)"
proof -
  show own: "owns w d"
  proof (rule ccontr)
    assume "\<not> owns w d"
    with assms(1) show False by (auto simp: promote_def owned_refused_simps)
  qed
  show adm: "hold_refuses at (control d) = None" "\<not> any_unknown (own_node w) d"
    using assms(1) own by (auto simp: promote_def owned_ok split: option.splits if_splits)
  have "list_ex (promote_where w oid) (operations d)"
    using assms(1) by (auto simp: promote_def owned_ok [OF own] adm)
  then obtain r where r: "op_at d (own_node w, oid) = Some r" "promote_where w oid r"
    using list_ex_row [of "operations d" "promote_where w oid" "(own_node w, oid)"] assms(2)
    by (auto simp: store_inv_def promote_where_def)
  then show "\<exists>r. op_at d (own_node w, oid) = Some r \<and> op_state r = Accepted
          \<and> owner_generation r = own_generation w
          \<and> op_at (snd (promote w oid prov at now d)) (own_node w, oid) = Some (promote_set prov now r)"
    by (auto simp: promote_def owned_ok [OF own] adm promote_write.row_at_upd promote_where_def)
qed

lemma resolve_True:
  assumes "fst (resolve_unknown w oid ev now d) = Inr True" and "store_inv d"
  shows "\<exists>r. op_at (snd (resolve_unknown w oid ev now d)) (own_node w, oid) = Some r \<and> op_state r = Failed
    \<and> (\<exists>evidence. \<lparr>au_node = own_node w, au_op = Some oid, au_event = ''resolved_by_reset'',
           au_detail = evidence\<rparr> \<in> set (audits (snd (resolve_unknown w oid ev now d))))"
proof -
  have own: "owns w d"
  proof (rule ccontr)
    assume "\<not> owns w d"
    with assms(1) show False by (auto simp: resolve_unknown_def owned_refused_simps)
  qed
  have hit: "list_ex (resolve_where w oid) (operations d)"
    using assms(1) by (auto simp: resolve_unknown_def owned_ok [OF own] Let_def)
  then obtain r where r: "op_at d (own_node w, oid) = Some r" "resolve_where w oid r"
    using list_ex_row [of "operations d" "resolve_where w oid" "(own_node w, oid)"] assms(2)
    by (auto simp: store_inv_def resolve_where_def)
  then show ?thesis
    by (auto simp: resolve_unknown_def owned_ok [OF own] Let_def hit audit_insert_def
        resolve_write.row_at_upd resolve_set_def)
qed

lemma distinct_filter_one:
  assumes "distinct (map key t)" and "\<And>r s. r \<in> set t \<Longrightarrow> s \<in> set t \<Longrightarrow> P r \<Longrightarrow> P s \<Longrightarrow> key r = key s"
  shows "count_where P t \<le> 1"
  using assms
proof (induction t)
  case Nil
  then show ?case by (simp add: count_where_def)
next
  case (Cons x t)
  show ?case
  proof (cases "P x")
    case True
    have "filter P t = []"
    proof (rule ccontr)
      assume "filter P t \<noteq> []"
      then obtain y where "y \<in> set t" "P y" by (auto simp: filter_empty_conv)
      with Cons.prems(2) [of x y] True have "key x = key y" by simp
      with Cons.prems(1) \<open>y \<in> set t\<close> show False by auto
    qed
    then show ?thesis using True by (simp add: count_where_def)
  next
    case False
    with Cons show ?thesis by (simp add: count_where_def)
  qed
qed

lemma one_summary_count:
  "store_inv d \<Longrightarrow> count_where (\<lambda>r. node_id r = n \<and> kind r = ''summary'' \<and> outstanding (op_state r))
     (operations d) \<le> 1"
proof (rule distinct_filter_one [of op_key])
  assume inv: "store_inv d"
  then show "distinct (map op_key (operations d))" by (simp add: store_inv_def)
  fix r s
  assume rs: "r \<in> set (operations d)" "s \<in> set (operations d)"
    "node_id r = n \<and> kind r = ''summary'' \<and> outstanding (op_state r)"
    "node_id s = n \<and> kind s = ''summary'' \<and> outstanding (op_state s)"
  from inv have one: "one_summary d" by (simp add: store_inv_def)
  have "op_id r = op_id s"
    by (rule one [unfolded one_summary_def, rule_format, OF rs(1,2)]) (use rs(3,4) in \<open>simp add: live_summary_def\<close>)
  then show "op_key r = op_key s" by (simp only: rs(3,4))
qed

end
