(* ===== verification/Dispatch_Protocol.thy ===== *)
theory Dispatch_Protocol
  imports Dispatch Agent_Runs
begin

text \<open>
  A whole agent process: the gate of \<^theory_text>\<open>Dispatch\<close>, any number of concurrent calls of
  \<open>submit\<close> and \<open>exclusive\<close>, the tasks they admit, and the database they share with every other
  process. A step is one segment between two awaits of one call or task, a gate operation, or a
  database step of somebody else. \<open>d_sent\<close> records, in order, the operations whose relay was
  started: from there on bytes may reach the runtime.
\<close>

section \<open>Calls and tasks\<close>

text \<open>
  Where a call stands. \<open>PUnsent r c\<close> is about to cancel the row for the reason \<open>r\<close>, \<open>c\<close> if the
  caller was cancelled; \<open>PFailed a\<close> is about to settle a promotion that raised.
\<close>

datatype phase =
    PObserve | PAdmit | PInsert | PLost | PWait | PIdle | PArmed | PSlot
  | PFailed answer | PLook | PUnsent string bool | PDone answer

record caller =
  c_op :: string
  c_kind :: string
  c_life :: bool
  c_epoch :: "int option"
  c_request :: "string option"
  c_hash :: "string option"
  c_store :: bool
  c_prov :: jobj
  c_phase :: phase

datatype run_phase = RReady | RSending | RSettle outcome | RCommit outcome bool | RAfter outcome bool

record run =
  r_kind :: string
  r_life :: bool
  r_phase :: run_phase

record disp =
  d_gate :: gate
  d_db :: db
  d_calls :: "caller list"
  d_runs :: "string \<rightharpoonup> run"
  d_sent :: "string list"

definition goto :: "nat \<Rightarrow> phase \<Rightarrow> disp \<Rightarrow> disp" where
  "goto i p s = s\<lparr>d_calls := (d_calls s)[i := (d_calls s ! i)\<lparr>c_phase := p\<rparr>]\<rparr>"

definition at_phase :: "disp \<Rightarrow> nat \<Rightarrow> caller \<Rightarrow> phase \<Rightarrow> bool" where
  "at_phase s i c p \<longleftrightarrow> i < length (d_calls s) \<and> d_calls s ! i = c \<and> c_phase c = p"

text \<open>The \<open>finally\<close> of a call that did not hand its exclusive hold to a task.\<close>

definition leave_call :: "fault + bool \<Rightarrow> caller \<Rightarrow> gate \<Rightarrow> gate" where
  "leave_call unk c g = (if c_life c then leave_exclusive unk (c_op c) g else leave_queue (c_op c) g)"

definition finish_call :: "nat \<Rightarrow> fault + bool \<Rightarrow> caller \<Rightarrow> answer \<Rightarrow> gate \<Rightarrow> db \<Rightarrow> disp \<Rightarrow> disp" where
  "finish_call i unk c ans g d s = goto i (PDone ans) (s\<lparr>d_gate := leave_call unk c g, d_db := d\<rparr>)"

section \<open>Segments of a call\<close>

definition call_begin :: "caller \<Rightarrow> disp \<Rightarrow> disp" where
  "call_begin c s =
     s\<lparr>d_calls := d_calls s @
         [c\<lparr>c_phase := (if c_life c \<and> \<not> lifecycle_kind (c_epoch c) (c_kind c)
                        then PDone (NotLifecycle (c_kind c)) else PObserve)\<rparr>]\<rparr>"

definition call_observe :: "ownership \<Rightarrow> fate \<Rightarrow> nat \<Rightarrow> caller \<Rightarrow> disp \<Rightarrow> disp" where
  "call_observe w fr i c s =
     goto i (case read_store fr (observe (own_node w) (c_op c) (d_db s)) of
               Inl e \<Rightarrow> PDone (Raised e)
             | Inr (Some r) \<Rightarrow> PDone (Existing r)
             | Inr None \<Rightarrow> PAdmit) s"

definition call_admit :: "nat \<Rightarrow> caller \<Rightarrow> disp \<Rightarrow> disp" where
  "call_admit i c s =
     (let (refusal, g) = (if c_life c then take_exclusive (c_op c) (c_epoch c) (d_gate s)
                          else admit_queue (c_op c) (c_kind c) (d_gate s))
      in goto i (case refusal of Some a \<Rightarrow> PDone a | None \<Rightarrow> PInsert) (s\<lparr>d_gate := g\<rparr>))"

definition call_insert_txn :: "ownership \<Rightarrow> int \<Rightarrow> caller \<Rightarrow> operation option txn" where
  "call_insert_txn w now c =
     (if c_life c then insert_accepted w (c_op c) (c_kind c) None None False now
      else insert_accepted w (c_op c) (c_kind c) (c_request c) (c_hash c) (c_store c) now)"

definition call_insert :: "ownership \<Rightarrow> fate \<Rightarrow> int \<Rightarrow> fault + bool \<Rightarrow> nat \<Rightarrow> caller \<Rightarrow> disp \<Rightarrow> disp" where
  "call_insert w f now unk i c s =
     (case call_store f (call_insert_txn w now c) (d_db s) of
        (Inr (Some r), d) \<Rightarrow> goto i (if c_life c then PIdle else PWait) (s\<lparr>d_db := d\<rparr>)
      | (Inr None, d) \<Rightarrow> goto i PLost (s\<lparr>d_db := d\<rparr>)
      | (Inl e, d) \<Rightarrow>
          if not_owner e
          then finish_call i unk c (Refused ''node_lost'' None None) (lose_role (d_gate s)) d s
          else if e = StoreFault SummaryBusy \<and> \<not> c_life c
          then finish_call i unk c (Refused ''summary_busy'' (Some 2) None) (d_gate s) d s
          else finish_call i unk c (Raised e) (d_gate s) d s)"

text \<open>The caller is cancelled while the insert is on its way: it may or may not have committed.\<close>

definition call_insert_cancelled ::
  "ownership \<Rightarrow> fate \<Rightarrow> int \<Rightarrow> fault + bool \<Rightarrow> nat \<Rightarrow> caller \<Rightarrow> disp \<Rightarrow> disp" where
  "call_insert_cancelled w f now unk i c s =
     (let d = (if f = FailsBefore then d_db s else snd (call_insert_txn w now c (d_db s)))
      in if c_life c then finish_call i unk c CallCancelled (d_gate s) d s
         else goto i (PUnsent ''cancelled_before_send'' True) (s\<lparr>d_db := d\<rparr>))"

definition call_lost :: "ownership \<Rightarrow> fate \<Rightarrow> fault + bool \<Rightarrow> nat \<Rightarrow> caller \<Rightarrow> disp \<Rightarrow> disp" where
  "call_lost w fr unk i c s =
     finish_call i unk c
       (case read_store fr (observe (own_node w) (c_op c) (d_db s)) of
          Inl e \<Rightarrow> Raised e
        | Inr (Some r) \<Rightarrow> Existing r
        | Inr None \<Rightarrow> Refused ''conflict'' (Some 1) None) (d_gate s) (d_db s) s"

definition call_wait :: "bool \<Rightarrow> nat \<Rightarrow> caller \<Rightarrow> disp \<Rightarrow> disp" where
  "call_wait expired i c s =
     (let (give_up, g) = wait_head expired (d_gate s)
      in goto i (case give_up of Some r \<Rightarrow> PUnsent r False | None \<Rightarrow> PArmed) (s\<lparr>d_gate := g\<rparr>))"

definition call_promote ::
  "ownership \<Rightarrow> fate \<Rightarrow> int \<Rightarrow> bool \<Rightarrow> bool \<Rightarrow> fault + bool \<Rightarrow> nat \<Rightarrow> caller \<Rightarrow> disp \<Rightarrow> disp" where
  "call_promote w f now host_held cancelled unk i c s =
     (let (p, g, d) =
        (if c_life c
         then exclusive_locked w f now host_held (c_op c) (c_prov c) (c_epoch c) (d_gate s) (d_db s)
         else promote_locked w f now host_held (c_op c) (c_prov c) (d_gate s) (d_db s))
      in case p of
           Created \<Rightarrow>
             goto i (PDone Attempted)
               (s\<lparr>d_gate := (if c_life c then g else leave_queue (c_op c) g), d_db := d,
                  d_runs := (d_runs s)(c_op c \<mapsto>
                     \<lparr>r_kind = c_kind c, r_life = c_life c, r_phase = RReady\<rparr>)\<rparr>)
         | NotCreated r \<Rightarrow>
             goto i (if r = ''not_promoted'' \<and> \<not> c_life c then PLook else PUnsent r False)
               (s\<lparr>d_gate := release_slot g, d_db := d\<rparr>)
         | PromotionRaised e \<Rightarrow>
             goto i (PFailed (if cancelled then CallCancelled else Raised e))
               (s\<lparr>d_gate := release_slot g, d_db := d\<rparr>))"

definition call_failed ::
  "ownership \<Rightarrow> fate \<Rightarrow> fate \<Rightarrow> int \<Rightarrow> fault + bool \<Rightarrow> nat \<Rightarrow> caller \<Rightarrow> answer \<Rightarrow> disp \<Rightarrow> disp" where
  "call_failed w fr f now unk i c ans s =
     (let (g, d) = unsent_after_failed_promotion w fr f now (c_op c) (c_kind c) (d_gate s) (d_db s)
      in finish_call i unk c ans g d s)"

definition call_look :: "ownership \<Rightarrow> fate \<Rightarrow> fault + bool \<Rightarrow> nat \<Rightarrow> caller \<Rightarrow> disp \<Rightarrow> disp" where
  "call_look w fr unk i c s =
     (case read_store fr (observe (own_node w) (c_op c) (d_db s)) of
        Inl e \<Rightarrow> finish_call i unk c (Raised e) (d_gate s) (d_db s) s
      | Inr current \<Rightarrow>
          if map_option op_state current = Some CancelledUnsent
          then finish_call i unk c (Refused ''cancelled'' None current) (d_gate s) (d_db s) s
          else goto i (PUnsent ''node_blocked'' False) s)"

definition call_unsent ::
  "ownership \<Rightarrow> fate \<Rightarrow> int \<Rightarrow> fault + bool \<Rightarrow> nat \<Rightarrow> caller \<Rightarrow> string \<Rightarrow> bool \<Rightarrow> disp \<Rightarrow> disp" where
  "call_unsent w f now unk i c rsn cancelled s =
     (let (ans, g, d) = unsent w f now (c_op c) (c_kind c) rsn (d_gate s) (d_db s)
      in finish_call i unk c (if cancelled then CallCancelled else ans) g d s)"

section \<open>Segments of a task\<close>

definition set_run :: "string \<Rightarrow> run_phase \<Rightarrow> run \<Rightarrow> disp \<Rightarrow> disp" where
  "set_run oid p r s = s\<lparr>d_runs := (d_runs s)(oid \<mapsto> r\<lparr>r_phase := p\<rparr>)\<rparr>"

definition run_start :: "string \<Rightarrow> run \<Rightarrow> disp \<Rightarrow> disp" where
  "run_start oid r s =
     (if withhold oid (d_gate s)
      then set_run oid (RSettle (Withheld ''maintenance_before_send'')) r s
      else set_run oid RSending r
             (s\<lparr>d_gate := start_sender oid (d_gate s), d_sent := d_sent s @ [oid]\<rparr>))"

definition run_relay_end :: "string \<Rightarrow> run \<Rightarrow> relay_end \<Rightarrow> disp \<Rightarrow> disp" where
  "run_relay_end oid r e s =
     set_run oid (RSettle (relay_outcome oid e (d_gate s))) r
       (s\<lparr>d_gate := stop_sender oid (d_gate s)\<rparr>)"

definition run_checkpoint :: "ownership \<Rightarrow> fate \<Rightarrow> string \<Rightarrow> json \<Rightarrow> disp \<Rightarrow> disp" where
  "run_checkpoint w f oid obs s =
     (let (g, d) = sink_checkpoint w f oid obs (d_gate s) (d_db s) in s\<lparr>d_gate := g, d_db := d\<rparr>)"

definition run_settle :: "string \<Rightarrow> run \<Rightarrow> outcome \<Rightarrow> disp \<Rightarrow> disp" where
  "run_settle oid r out s =
     set_run oid (RCommit out (run_lifecycle (r_kind r) oid (d_gate s))) r
       (s\<lparr>d_gate := settle_begin oid out (d_gate s)\<rparr>)"

definition run_commit ::
  "ownership \<Rightarrow> fate \<Rightarrow> int \<Rightarrow> string \<Rightarrow> run \<Rightarrow> outcome \<Rightarrow> bool \<Rightarrow> disp \<Rightarrow> disp" where
  "run_commit w f now oid r out lc s =
     (let (st, g, d) = settle_try w f now oid out (d_gate s) (d_db s)
      in set_run oid (if st = Settled then RAfter out lc else RCommit out lc) r
           (s\<lparr>d_gate := g, d_db := d\<rparr>))"

definition run_finish :: "fault + bool \<Rightarrow> string \<Rightarrow> bool \<Rightarrow> disp \<Rightarrow> disp" where
  "run_finish unk oid lc s =
     s\<lparr>d_gate := run_end unk lc oid (d_gate s), d_runs := (d_runs s)(oid := None)\<rparr>"

section \<open>Steps of everybody else\<close>

text \<open>
  Other owners write what they like; this process itself also cancels (\<open>/cancel\<close>), resolves,
  re-pins and audits outside the dispatcher.
\<close>

fun outside_write :: "store_write \<Rightarrow> bool" where
  "outside_write (WCancel _ _ _) = True"
| "outside_write (WResolve _ _) = True"
| "outside_write (WRepin _ _ _ _) = True"
| "outside_write _ = False"

inductive env_step :: "ownership \<Rightarrow> db \<Rightarrow> db \<Rightarrow> bool" for w :: ownership where
  ev_write: "w' \<noteq> w \<or> outside_write wr \<Longrightarrow> env_step w d (snd (run_write w' wr now d))"
| ev_claim: "env_step w d (snd (claim n held domain kboot boot pid now d))"
| ev_release: "env_step w d (snd (release_previous_kernel n held domain pid prev cur oper rsn d))"
| ev_session_end: "env_step w d (election_unlock n pid d)"
| ev_hold: "hold_step (control d) c \<Longrightarrow> env_step w d (set_control c d)"
| ev_audit: "env_step w d (audit_insert n oid ev detail d)"

lemma env_agent_step: "env_step w d d' \<Longrightarrow> agent_step d d'"
  by (induction rule: env_step.induct) (auto intro: agent_step.intros)

section \<open>The process\<close>

text \<open>
  Gate operations of the API and the watchdog. The relay never reports \<open>Withheld\<close>: only the
  send barrier makes that outcome.
\<close>

definition relay_says :: "relay_end \<Rightarrow> bool" where
  "relay_says e = (case e of Reported (Withheld _) \<Rightarrow> False | _ \<Rightarrow> True)"

text \<open>
  The callers' side (\<open>api.py\<close>): the three kinds it submits, and operation ids minted for one
  use, so that no id names both a submitted request and a lifecycle operation.
\<close>

definition SUBMIT_KINDS :: "string list" where
  "SUBMIT_KINDS = [''inference'', ''embedding_batch'', ''summary'']"

definition call_ok :: "caller \<Rightarrow> disp \<Rightarrow> bool" where
  "call_ok c s \<longleftrightarrow> (c_life c \<or> c_kind c \<in> set SUBMIT_KINDS)
     \<and> list_all (\<lambda>c'. c_op c' = c_op c \<longrightarrow> c_life c' = c_life c) (d_calls s)"

inductive gate_op :: "fault + bool \<Rightarrow> gate \<Rightarrow> gate \<Rightarrow> bool" for unk :: "fault + bool" where
  go_block: "gate_op unk g (block g)"
| go_lose: "gate_op unk g (lose_role g)"
| go_drain: "gate_op unk g (drain g)"
| go_reopen: "gate_op unk g (snd (reopen unk g))"
| go_freeze: "gate_op unk g (freeze ep g)"
| go_thaw: "gate_op unk g (snd (thaw unk g))"
| go_interrupt: "interrupt g = Some (ops, g') \<Longrightarrow> gate_op unk g g'"
| go_recheck: "gate_op unk g (snd (recheck_drain unk g))"

definition unk_of :: "ownership \<Rightarrow> fate \<Rightarrow> disp \<Rightarrow> fault + bool" where
  "unk_of w f s = read_store f (any_unknown (own_node w) (d_db s))"

inductive disp_step :: "ownership \<Rightarrow> disp \<Rightarrow> disp \<Rightarrow> bool" for w :: ownership where
  ds_gate: "gate_op (unk_of w f s) (d_gate s) g \<Longrightarrow> disp_step w s (s\<lparr>d_gate := g\<rparr>)"
| ds_env: "env_step w (d_db s) d \<Longrightarrow> disp_step w s (s\<lparr>d_db := d\<rparr>)"
| ds_begin: "call_ok c s \<Longrightarrow> disp_step w s (call_begin c s)"
| ds_observe: "at_phase s i c PObserve \<Longrightarrow> disp_step w s (call_observe w fr i c s)"
| ds_admit: "at_phase s i c PAdmit \<Longrightarrow> disp_step w s (call_admit i c s)"
| ds_insert: "at_phase s i c PInsert \<Longrightarrow> disp_step w s (call_insert w f now (unk_of w fr s) i c s)"
| ds_insert_cancelled: "at_phase s i c PInsert \<Longrightarrow>
     disp_step w s (call_insert_cancelled w f now (unk_of w fr s) i c s)"
| ds_lost: "at_phase s i c PLost \<Longrightarrow> disp_step w s (call_lost w fr (unk_of w fr' s) i c s)"
| ds_wait: "at_phase s i c PWait \<Longrightarrow> \<not> c_life c \<Longrightarrow> disp_step w s (call_wait expired i c s)"
| ds_idle: "at_phase s i c PIdle \<Longrightarrow> g_idle (d_gate s) \<Longrightarrow> disp_step w s (goto i PArmed s)"
| ds_take: "at_phase s i c PArmed \<Longrightarrow> take_slot (d_gate s) = Some g \<Longrightarrow>
     disp_step w s (goto i PSlot (s\<lparr>d_gate := g\<rparr>))"
| ds_wake: "at_phase s i c PArmed \<Longrightarrow> \<not> c_life c \<Longrightarrow> disp_step w s (goto i PWait s)"
| ds_wait_cancelled: "at_phase s i c p \<Longrightarrow> p \<in> {PWait, PIdle, PArmed} \<Longrightarrow>
     disp_step w s (goto i (PUnsent ''cancelled_before_send'' True) s)"
| ds_promote: "at_phase s i c PSlot \<Longrightarrow> (cancelled \<longrightarrow> f \<noteq> Works) \<Longrightarrow>
     disp_step w s (call_promote w f now host_held cancelled (unk_of w fr s) i c s)"
| ds_failed: "at_phase s i c (PFailed a) \<Longrightarrow>
     disp_step w s (call_failed w fr f now (unk_of w fr' s) i c a s)"
| ds_look: "at_phase s i c PLook \<Longrightarrow> disp_step w s (call_look w fr (unk_of w fr' s) i c s)"
| ds_unsent: "at_phase s i c (PUnsent r b) \<Longrightarrow>
     disp_step w s (call_unsent w f now (unk_of w fr s) i c r b s)"
| ds_start: "d_runs s oid = Some r \<Longrightarrow> r_phase r = RReady \<Longrightarrow> disp_step w s (run_start oid r s)"
| ds_checkpoint: "d_runs s oid = Some r \<Longrightarrow> r_phase r = RSending \<Longrightarrow>
     disp_step w s (run_checkpoint w f oid obs s)"
| ds_relay_end: "d_runs s oid = Some r \<Longrightarrow> r_phase r = RSending \<Longrightarrow> relay_says e \<Longrightarrow>
     disp_step w s (run_relay_end oid r e s)"
| ds_settle: "d_runs s oid = Some r \<Longrightarrow> r_phase r = RSettle out \<Longrightarrow>
     disp_step w s (run_settle oid r out s)"
| ds_commit: "d_runs s oid = Some r \<Longrightarrow> r_phase r = RCommit out lc \<Longrightarrow>
     disp_step w s (run_commit w f now oid r out lc s)"
| ds_finish: "d_runs s oid = Some r \<Longrightarrow> r_phase r = RAfter out lc \<Longrightarrow>
     disp_step w s (run_finish (unk_of w f s) oid lc s)"

definition disp_init :: "gate \<Rightarrow> db \<Rightarrow> disp" where
  "disp_init g d = \<lparr>d_gate = g, d_db = d, d_calls = [], d_runs = Map.empty, d_sent = []\<rparr>"

end
