(* ===== verification/Dispatch_Invariants.thy ===== *)
theory Dispatch_Invariants
  imports Dispatch_Protocol
begin

text \<open>
  What each block of \<^theory_text>\<open>Dispatch\<close> leaves alone, the modes of the gate, and the invariants of
  the whole process over every step.
\<close>

section \<open>Frames\<close>

named_theorems gate_frames "fields a gate function leaves alone"

definition task_part :: "gate \<Rightarrow> string list \<times> bool \<times> string list \<times> bool \<times> nat" where
  "task_part g = (g_admitted g, g_idle g, g_sending g, g_quiet g, g_slots g)"

lemma task_part_sel:
  "task_part h = task_part g \<longleftrightarrow> g_admitted h = g_admitted g \<and> g_idle h = g_idle g
     \<and> g_sending h = g_sending g \<and> g_quiet h = g_quiet g \<and> g_slots h = g_slots g"
  by (auto simp: task_part_def)

lemma close_task [gate_frames]: "task_part (close_locked st g) = task_part g"
  by (simp add: close_locked_def task_part_def)

lemma freeze_task [gate_frames]: "task_part (freeze_locked ep g) = task_part g"
  by (simp add: freeze_locked_def task_part_def)

lemma reopen_locked_task [gate_frames]: "task_part (snd (reopen_locked unk g)) = task_part g"
  by (auto simp: reopen_locked_def Let_def task_part_def split: sum.splits)

lemma end_exclusive_task [gate_frames]: "task_part (end_exclusive unk oid g) = task_part g"
  using reopen_locked_task [of unk "g\<lparr>g_exclusive := None\<rparr>"]
  by (auto simp: end_exclusive_def Let_def task_part_def)

lemma leave_exclusive_task [gate_frames]: "task_part (leave_exclusive unk oid g) = task_part g"
  using end_exclusive_task [of unk oid "g\<lparr>g_restoring := (g_restoring g)(oid := None)\<rparr>"]
  by (simp add: leave_exclusive_def task_part_def)

lemma leave_call_task [gate_frames]: "task_part (leave_call unk c g) = task_part g"
  using leave_exclusive_task by (auto simp: leave_call_def leave_queue_def task_part_def)

lemma gate_op_task: "gate_op unk g g' \<Longrightarrow> task_part g' = task_part g"
proof (induction rule: gate_op.induct)
  case (go_drain g)
  then show ?case using close_task [of DRAINING "g\<lparr>g_held := True\<rparr>"]
    by (simp add: drain_def task_part_def)
next
  case (go_reopen g)
  then show ?case using reopen_locked_task [of unk "g\<lparr>g_held := False\<rparr>"]
    by (simp add: reopen_def task_part_def)
next
  case (go_thaw g)
  then show ?case
    using reopen_locked_task [of unk "g\<lparr>g_frozen := False, g_frozen_epoch := None, g_interrupted := {}\<rparr>"]
    by (auto simp: thaw_def Let_def task_part_def)
next
  case (go_recheck g)
  then show ?case using reopen_locked_task by (simp add: recheck_drain_def)
next
  case (go_interrupt g ops g')
  then show ?case by (auto simp: interrupt_def task_part_def split: if_splits)
qed (simp_all add: block_def lose_role_def freeze_def gate_frames)

lemma take_exclusive_task [gate_frames]: "task_part (snd (take_exclusive oid ep g)) = task_part g"
  using close_task [of DRAINING "g\<lparr>g_exclusive := Some oid\<rparr>"]
  by (auto simp: take_exclusive_def task_part_def split: option.splits)

lemma admit_queue_task [gate_frames]: "task_part (snd (admit_queue oid k g)) = task_part g"
  by (simp add: admit_queue_def task_part_def)

lemma wait_head_task [gate_frames]: "task_part (snd (wait_head expired g)) = task_part g"
  by (simp add: wait_head_def task_part_def)

section \<open>Modes\<close>

definition gate_modes :: "gate \<Rightarrow> bool" where
  "gate_modes g \<longleftrightarrow> (g_frozen g \<and> g_state g \<noteq> LOST \<longrightarrow> g_state g = MAINTENANCE)
     \<and> (g_uncommitted g \<noteq> {} \<longrightarrow> g_state g \<noteq> SERVING)
     \<and> (g_exclusive g \<noteq> None \<longrightarrow> g_state g \<noteq> SERVING)"

lemma close_modes: "gate_modes g \<Longrightarrow> st \<noteq> SERVING \<Longrightarrow> gate_modes (close_locked st g)"
  by (auto simp: gate_modes_def close_locked_def)

lemma close_blocked_modes:
  "gate_modes g \<Longrightarrow> gate_modes (close_locked BLOCKED (g\<lparr>g_uncommitted := U\<rparr>))"
  by (auto simp: gate_modes_def close_locked_def)

lemma freeze_modes: "gate_modes g \<Longrightarrow> gate_modes (freeze_locked ep g)"
  by (auto simp: gate_modes_def freeze_locked_def)

lemma reopen_modes: "gate_modes g \<Longrightarrow> gate_modes (snd (reopen_locked unk g))"
  by (auto simp: gate_modes_def reopen_locked_def Let_def split: sum.splits if_splits)

lemma modes_cong:
  "g_state g = g_state h \<Longrightarrow> g_frozen g = g_frozen h \<Longrightarrow> g_uncommitted g = g_uncommitted h \<Longrightarrow>
   g_exclusive g = g_exclusive h \<Longrightarrow> gate_modes g = gate_modes h"
  by (simp add: gate_modes_def)

lemma end_exclusive_modes: "gate_modes g \<Longrightarrow> gate_modes (end_exclusive unk oid g)"
  using reopen_modes [of "g\<lparr>g_exclusive := None\<rparr>" unk]
  by (auto simp: end_exclusive_def Let_def gate_modes_def)

lemma leave_exclusive_modes: "gate_modes g \<Longrightarrow> gate_modes (leave_exclusive unk oid g)"
  unfolding leave_exclusive_def by (rule end_exclusive_modes) (simp add: gate_modes_def)

lemma leave_queue_modes: "gate_modes (leave_queue oid g) = gate_modes g"
  by (simp add: leave_queue_def gate_modes_def)

lemma leave_call_modes: "gate_modes g \<Longrightarrow> gate_modes (leave_call unk c g)"
  by (cases "c_life c") (simp_all add: leave_call_def leave_exclusive_modes leave_queue_modes)

lemma gate_op_modes: "gate_op unk g g' \<Longrightarrow> gate_modes g \<Longrightarrow> gate_modes g'"
proof (induction rule: gate_op.induct)
  case (go_drain g)
  then show ?case unfolding drain_def by (intro close_modes) (simp_all add: gate_modes_def)
next
  case (go_reopen g)
  then show ?case unfolding reopen_def by (intro reopen_modes) (simp add: gate_modes_def)
next
  case (go_thaw g)
  then show ?case
    using reopen_modes [of "g\<lparr>g_frozen := False, g_frozen_epoch := None, g_interrupted := {}\<rparr>" unk]
    by (auto simp: thaw_def Let_def gate_modes_def)
next
  case (go_recheck g)
  then show ?case by (simp add: recheck_drain_def reopen_modes)
next
  case (go_interrupt g ops g')
  then show ?case by (auto simp: interrupt_def gate_modes_def split: if_splits)
qed (auto simp: block_def lose_role_def freeze_def close_modes freeze_modes)

lemma take_exclusive_modes: "gate_modes g \<Longrightarrow> gate_modes (snd (take_exclusive oid ep g))"
  by (auto simp: take_exclusive_def gate_modes_def restorable_locked_def close_locked_def
      split: option.splits if_splits)

lemma admit_queue_modes: "gate_modes g \<Longrightarrow> gate_modes (snd (admit_queue oid k g))"
  by (auto simp: admit_queue_def gate_modes_def)

lemma lost_modes: "gate_modes g \<Longrightarrow> gate_modes (g\<lparr>g_state := LOST\<rparr>)"
  by (simp add: gate_modes_def)

section \<open>Effects of the blocks that call the store\<close>

lemma call_store_db: "snd (call_store f t d) = d \<or> snd (call_store f t d) = snd (t d)"
  by (auto simp: call_store_def split: fate.splits prod.splits sum.splits)

lemma call_store_InrD: "call_store f t d = (Inr x, d') \<Longrightarrow> t d = (Inr x, d')"
  by (auto simp: call_store_def split: fate.splits prod.splits sum.splits)

text \<open>A block that did not create a task leaves the gate, closes it for good or freezes it.\<close>

definition refusing :: "gate \<Rightarrow> gate \<Rightarrow> bool" where
  "refusing g g' \<longleftrightarrow> g' = g \<or> g' = g\<lparr>g_state := LOST\<rparr> \<or> (\<exists>ep. g' = freeze_locked ep g)"

lemma refusing_task: "refusing g g' \<Longrightarrow> task_part g' = task_part g"
  by (auto simp: refusing_def gate_frames) (simp add: task_part_def)

lemma refusing_modes: "refusing g g' \<Longrightarrow> gate_modes g \<Longrightarrow> gate_modes g'"
  by (auto simp: refusing_def freeze_modes lost_modes)

lemma promote_locked_cases:
  assumes "promote_locked w f now host oid prov g d = (p, g', d')"
  obtains "p = Created" "g' = admit_task oid g" "g_state g = SERVING"
      "fst (promote w oid prov None now d) = Inr True" "d' = snd (promote w oid prov None now d)"
  | "p \<noteq> Created" "refusing g g'" "d' = d \<or> d' = snd (promote w oid prov None now d)"
proof (cases "call_store f (promote w oid prov None now) d")
  case (Pair x e)
  have e: "e = d \<or> e = snd (promote w oid prov None now d)"
    using call_store_db [of f "promote w oid prov None now" d] by (simp add: Pair)
  note r = refusing_def
  show thesis
  proof (cases "x = Inr True \<and> g_state g = SERVING \<and> host")
    case True
    with Pair have "promote w oid prov None now d = (Inr True, e)"
      by (auto dest: call_store_InrD)
    with True Pair assms show thesis by (intro that(1)) (auto simp: promote_locked_def)
  next
    case False
    with Pair assms e show thesis
      by (intro that(2))
         (auto simp: promote_locked_def r split: if_splits sum.splits bool.splits fault.splits store_error.splits)
  qed
qed

lemma exclusive_locked_cases:
  assumes "exclusive_locked w f now host oid prov ep g d = (p, g', d')"
  obtains "p = Created" "g' = admit_task oid g"
      "if ep = None then g_state g = DRAINING else restorable_locked ep (Some oid) g"
      "fst (promote w oid prov ep now d) = Inr True" "d' = snd (promote w oid prov ep now d)"
  | "p \<noteq> Created" "refusing g g'" "d' = d \<or> d' = snd (promote w oid prov ep now d)"
proof (cases "call_store f (promote w oid prov ep now) d")
  case (Pair x e)
  have e: "e = d \<or> e = snd (promote w oid prov ep now d)"
    using call_store_db [of f "promote w oid prov ep now" d] by (simp add: Pair)
  note r = refusing_def
  show thesis
  proof (cases "x = Inr True \<and> (if ep = None then g_state g = DRAINING else restorable_locked ep (Some oid) g) \<and> host")
    case True
    with Pair have "promote w oid prov ep now d = (Inr True, e)"
      by (auto dest: call_store_InrD)
    with True Pair assms show thesis
      by (intro that(1)) (auto simp: exclusive_locked_def split: if_splits)
  next
    case False
    with Pair assms e show thesis
      by (intro that(2))
         (auto simp: exclusive_locked_def r split: if_splits sum.splits bool.splits fault.splits store_error.splits)
  qed
qed

lemma unsent_cases:
  "unsent w f now oid k rsn g d = (a, g', d') \<Longrightarrow>
     (g' = g \<or> g' = lose_role g) \<and> (d' = d \<or> d' = snd (cancel_accepted w oid rsn k now d))"
  using call_store_db [of f "cancel_accepted w oid rsn k now" d]
  by (auto simp: unsent_def Let_def split: prod.splits sum.splits if_splits)

lemma failed_promotion_gate:
  "fst (unsent_after_failed_promotion w fr f now oid k g d)
     \<in> {g, close_locked BLOCKED (g\<lparr>g_uncommitted := insert oid (g_uncommitted g)\<rparr>)}"
  by (simp add: unsent_after_failed_promotion_def Let_def split: prod.splits sum.splits)

lemma failed_promotion_db:
  "snd (unsent_after_failed_promotion w fr f now oid k g d) = d
   \<or> snd (unsent_after_failed_promotion w fr f now oid k g d)
       = snd (call_store f (cancel_accepted w oid ''promotion_failed'' k now) d)
   \<or> map_option op_state (op_at d (own_node w, oid)) = Some Running
     \<and> snd (unsent_after_failed_promotion w fr f now oid k g d)
       = snd (call_store f (unsent_after_promotion w oid ''promotion_failed'' now) d)"
proof (cases "read_store fr (observe (own_node w) oid d)")
  case (Inl e)
  then show ?thesis by (simp add: unsent_after_failed_promotion_def Let_def)
next
  case (Inr current)
  then have c: "current = op_at d (own_node w, oid)"
    by (auto simp: read_store_def observe_def split: if_splits)
  obtain x1 d1 x2 d2 where
    p: "call_store f (cancel_accepted w oid ''promotion_failed'' k now) d = (x1, d1)"
      "call_store f (unsent_after_promotion w oid ''promotion_failed'' now) d = (x2, d2)"
    by (metis prod.exhaust)
  show ?thesis
  proof (cases current)
    case None
    then show ?thesis
      unfolding unsent_after_failed_promotion_def Let_def Inr c [symmetric]
      by (cases x1) (simp_all add: p)
  next
    case (Some r)
    then show ?thesis
      unfolding unsent_after_failed_promotion_def Let_def Inr c [symmetric]
      by (cases "op_state r"; cases x1; cases x2) (simp_all add: p)
  qed
qed

lemma failed_promotion_cases:
  assumes "unsent_after_failed_promotion w fr f now oid k g d = (g', d')"
  shows "(g' = g \<or> g' = close_locked BLOCKED (g\<lparr>g_uncommitted := insert oid (g_uncommitted g)\<rparr>))
     \<and> (d' = d \<or> d' = snd (cancel_accepted w oid ''promotion_failed'' k now d)
        \<or> map_option op_state (op_at d (own_node w, oid)) = Some Running
          \<and> d' = snd (unsent_after_promotion w oid ''promotion_failed'' now d))"
  using failed_promotion_gate [of w fr f now oid k g d]
    failed_promotion_db [of w fr f now oid k g d]
    call_store_db [of f "cancel_accepted w oid ''promotion_failed'' k now" d]
    call_store_db [of f "unsent_after_promotion w oid ''promotion_failed'' now" d]
  unfolding assms fst_conv snd_conv by blast

lemma settle_try_cases:
  "settle_try w f now oid out g d = (st, g', d') \<Longrightarrow>
     (g' = g \<or> g' = lose_role g \<or> st = Settled \<and> g' = g\<lparr>g_uncommitted := g_uncommitted g - {oid}\<rparr>)
     \<and> (d' = d \<or> d' = snd (commit_outcome w now oid out d))"
  using call_store_db [of f "commit_outcome w now oid out" d]
  by (auto simp: settle_try_def split: prod.splits sum.splits if_splits)

lemma sink_checkpoint_cases:
  "sink_checkpoint w f oid obs g d = (g', d') \<Longrightarrow>
     (g' = g \<or> g' = lose_role g) \<and> (d' = d \<or> d' = snd (checkpoint w oid obs d))"
  using call_store_db [of f "checkpoint w oid obs" d]
  by (auto simp: sink_checkpoint_def split: prod.splits sum.splits if_splits)

lemma run_end_modes: "gate_modes g \<Longrightarrow> gate_modes (run_end unk lc oid g)"
proof -
  assume "gate_modes g"
  then have "gate_modes (g\<lparr>g_slots := a, g_admitted := b, g_summary := c, g_idle := e\<rparr>)" for a b c e
    by (simp add: gate_modes_def)
  then show ?thesis by (simp add: run_end_def Let_def leave_exclusive_modes)
qed

lemmas segment_defs = call_begin_def call_observe_def call_admit_def call_insert_def
  call_insert_cancelled_def call_lost_def call_wait_def call_promote_def call_failed_def
  call_look_def call_unsent_def finish_call_def goto_def
  run_start_def run_relay_end_def run_checkpoint_def run_settle_def run_commit_def
  run_finish_def set_run_def

lemma disp_modes: "disp_step w s t \<Longrightarrow> gate_modes (d_gate s) \<Longrightarrow> gate_modes (d_gate t)"
proof (induction rule: disp_step.induct)
  case (ds_gate f s g)
  then show ?case by (simp add: gate_op_modes)
next
  case (ds_promote s i c cancelled f now host fr)
  let ?u = "unk_of w fr s"
  have go: "gate_modes (d_gate (call_promote w f now host cancelled ?u i c s))"
    if "gate_modes g'" and eq: "(if c_life c
         then exclusive_locked w f now host (c_op c) (c_prov c) (c_epoch c) (d_gate s) (d_db s)
         else promote_locked w f now host (c_op c) (c_prov c) (d_gate s) (d_db s)) = (p, g', d')"
    for p g' d'
    using that(1) by (auto simp: call_promote_def eq goto_def release_slot_def leave_queue_modes
        split: promotion.splits) (auto simp: gate_modes_def)
  obtain p g' d' where eq: "(if c_life c
         then exclusive_locked w f now host (c_op c) (c_prov c) (c_epoch c) (d_gate s) (d_db s)
         else promote_locked w f now host (c_op c) (c_prov c) (d_gate s) (d_db s)) = (p, g', d')"
    by (metis prod.exhaust)
  have "gate_modes (admit_task (c_op c) (d_gate s))"
    using ds_promote.prems by (simp add: admit_task_def gate_modes_def)
  then have "gate_modes g'"
    using eq ds_promote.prems
    by (auto split: if_splits elim!: promote_locked_cases exclusive_locked_cases
        intro: refusing_modes)
  then show ?case using eq by (rule go)
next
  case (ds_failed s i c a fr f now fr')
  then show ?case
    by (auto simp: call_failed_def finish_call_def goto_def split: prod.splits
        dest!: failed_promotion_cases intro!: leave_call_modes close_blocked_modes)
next
  case (ds_unsent s i c r b f now fr)
  then show ?case
    by (auto simp: call_unsent_def finish_call_def goto_def lose_role_def split: prod.splits
        dest!: unsent_cases intro!: leave_call_modes close_modes)
next
  case (ds_checkpoint s oid r f obs)
  then show ?case
    by (auto simp: run_checkpoint_def lose_role_def split: prod.splits
        dest!: sink_checkpoint_cases intro!: close_modes)
next
  case (ds_commit s oid r out lc f now)
  then show ?case
    by (auto simp: run_commit_def set_run_def lose_role_def split: prod.splits
        dest!: settle_try_cases intro!: close_modes) (auto simp: gate_modes_def)
next
  case (ds_insert s i c f now fr)
  then show ?case
    by (auto simp: call_insert_def finish_call_def goto_def lose_role_def
        split: prod.splits sum.splits option.splits intro!: leave_call_modes close_modes)
next
  case (ds_admit s i c)
  then show ?case
    using take_exclusive_modes [of "d_gate s" "c_op c" "c_epoch c"]
      admit_queue_modes [of "d_gate s" "c_op c" "c_kind c"]
    by (auto simp: call_admit_def goto_def split: prod.splits)
next
  case (ds_settle s oid r out)
  then show ?case
    by (auto simp: run_settle_def set_run_def settle_begin_def intro!: close_blocked_modes)
next
  case (ds_relay_end s oid r e)
  then show ?case by (auto simp: run_relay_end_def set_run_def stop_sender_def Let_def gate_modes_def)
next
  case (ds_start s oid r)
  then show ?case by (auto simp: run_start_def set_run_def start_sender_def gate_modes_def)
next
  case (ds_take s i c g)
  then show ?case by (auto simp: take_slot_def goto_def gate_modes_def split: if_splits)
next
  case (ds_wait s i c expired)
  then show ?case by (auto simp: call_wait_def wait_head_def goto_def gate_modes_def split: if_splits)
next
  case (ds_finish s oid r out lc f)
  then show ?case by (simp add: run_finish_def run_end_modes)
next
  case (ds_look s i c fr fr')
  then show ?case
    by (auto simp: call_look_def finish_call_def goto_def split: sum.splits intro!: leave_call_modes)
qed (auto simp: segment_defs Let_def split: prod.splits intro!: leave_call_modes)

end
