(* ===== verification/Dispatch_History.thy ===== *)
theory Dispatch_History
  imports Dispatch_Invariants
begin

text \<open>
  What the process of \<^theory_text>\<open>Dispatch_Protocol\<close> sent, against what the database says of it: an
  operation whose relay was started is never recorded as unsent, and is started once.
\<close>

section \<open>Who owns the generation\<close>

text \<open>The node's generation is this process's or a later one, and its own is its alone.\<close>

definition ours :: "ownership \<Rightarrow> db \<Rightarrow> bool" where
  "ours w d \<longleftrightarrow> (\<exists>a. agent_at d (own_node w) = Some a \<and> own_generation w \<le> ag_generation a
     \<and> (ag_generation a = own_generation w \<longrightarrow> ag_boot_id a = Some (own_boot_id w)))"

lemma owns_ours: "owns w d \<Longrightarrow> ours w d"
  by (auto simp: owns_iff ours_def)

lemma ours_only: "ours w d \<Longrightarrow> owns v d \<Longrightarrow> own_node v = own_node w \<Longrightarrow>
    own_generation v = own_generation w \<Longrightarrow> v = (w :: ownership)"
  by (auto simp: ours_def owns_iff)

lemma ours_step:
  assumes "agent_step d d'" and "store_inv d" and "ours w d"
  shows "ours w d'"
  using assms
proof (induction rule: agent_step.induct)
  case (ag_write d v wr now)
  then have "distinct (map op_key (operations d))" by (simp add: store_inv_def)
  from write_frame [OF run_write_effect [OF this]] ag_write.prems show ?case by (simp add: ours_def)
next
  case (ag_claim d m held domain kboot boot pid now)
  show ?case
  proof (cases "fst (claim m held domain kboot boot pid now d)")
    case (Inl e)
    with ag_claim.prems claim_refused [OF Inl] show ?thesis by (simp add: ours_def)
  next
    case (Inr el)
    from ag_claim.prems(2) show ?thesis
      unfolding ours_def claim_agent_at [OF Inr] by (auto simp: previous_agent_def agent_set_def)
  qed
next
  case (ag_release d m held domain pid prev cur oper rsn)
  let ?d' = "snd (release_previous_kernel m held domain pid prev cur oper rsn d)"
  obtain k where "agents ?d' = agents d
      \<or> agents ?d' = upd_where (\<lambda>a. ag_node a = m) (\<lambda>a. a\<lparr>ag_kernel_boot_id := Some k\<rparr>) (agents d)"
    using release_effect(4) by blast
  with ag_release.prems(2) show ?case by (auto simp: ours_def kernel_write.row_at_upd)
qed (auto simp: election_unlock_def set_control_def audit_insert_def ours_def)

section \<open>The row of an operation that was sent\<close>

definition sent_row :: "ownership \<Rightarrow> operation \<Rightarrow> bool" where
  "sent_row w r \<longleftrightarrow> (op_state r = Running \<and> owner_generation r = own_generation w)
     \<or> op_state r = OutcomeUnknown \<or> op_state r = Completed \<or> op_state r = Failed"

definition sent_at :: "ownership \<Rightarrow> db \<Rightarrow> string \<Rightarrow> bool" where
  "sent_at w d oid \<longleftrightarrow> (\<exists>r. op_at d (own_node w, oid) = Some r \<and> sent_row w r)"

lemma write_row_owner:
  assumes "write_effect role v d d'" and "op_at d k = Some r"
  shows "\<exists>r'. op_at d' k = Some r' \<and> owner_generation r' = owner_generation r"
  using assms
proof (induction rule: write_effect.induct)
  case (we_update v d guard assign oid role d')
  then show ?case
    using keyed_update.row_at_upd [OF fenced_write.axioms(1) [OF we_update.hyps(2)]]
      fenced_write.owner_kept [OF we_update.hyps(2)] by auto
qed (auto simp: same_tables_def row_at_append)

lemma foreign_running_kept:
  assumes "write_effect role v d d'" and "ours w d" and "v \<noteq> w"
    and "op_at d (own_node w, oid) = Some r" and "owner_generation r = own_generation w"
  shows "op_at d' (own_node w, oid) = Some r"
  using assms
proof (induction rule: write_effect.induct)
  case (we_update v d guard assign o' role d')
  have "node_id r = own_node w" using row_at_SomeD [OF we_update.prems(3)] by simp
  then have "\<not> guard r"
    using fenced_write.mine [OF we_update.hyps(2), of r] ours_only [OF we_update.prems(1) we_update.hyps(1)]
      we_update.prems(2,4) by auto
  then show ?case
    using keyed_update.row_at_upd [OF fenced_write.axioms(1) [OF we_update.hyps(2)]]
      we_update.hyps(4) we_update.prems(3) by simp
qed (auto simp: same_tables_def row_at_append)

text \<open>Only \<open>unsent_after_promotion\<close> takes a running row to \<open>cancelled_unsent\<close>.\<close>

lemma owned_core_op: "core d' = core d \<Longrightarrow> op_at d' k = op_at d k"
  by (drule core_eqD(1)) simp

lemma only_unsent_cancels:
  assumes r: "op_at d k = Some r" "op_state r = Running"
    and wr: "\<And>o' rsn. wr = WUnsent o' rsn \<Longrightarrow> o' \<noteq> snd k"
    and r': "op_at (snd (run_write v wr now d)) k = Some r'"
  shows "op_state r' \<noteq> CancelledUnsent"
proof -
  let ?P = "\<lambda>d'. \<forall>r'. op_at d' k = Some r' \<longrightarrow> op_state r' \<noteq> CancelledUnsent"
  have same: "?P d'" if "core d' = core d" for d'
    using r owned_core_op [OF that] by auto
  have key: "op_key r = k" using row_at_SomeD [OF r(1)] by simp
  note base = owned_effectI [where P = ?P, OF same]
  have "?P (snd (run_write v wr now d))"
  proof (cases wr)
    case (WInsert oid k' req ph st)
    show ?thesis unfolding WInsert run_write.simps snd_drop_value insert_accepted_def
      by (rule base) (use r in \<open>auto simp: row_at_append Let_def split: option.splits if_splits\<close>)
  next
    case (WPromote oid prov at)
    show ?thesis unfolding WPromote run_write.simps snd_drop_value promote_def
      by (rule base) (use r in \<open>auto simp: promote_write.row_at_upd promote_where_def
          split: option.splits if_splits\<close>)
  next
    case (WCancel oid rsn k')
    show ?thesis unfolding WCancel run_write.simps snd_drop_value cancel_accepted_def
      by (rule base) (use r in \<open>auto simp: Let_def row_at_append cancel_write.row_at_upd
          promote_where_def split: option.splits if_splits\<close>)
  next
    case (WUnknown oid rsn obs)
    show ?thesis unfolding WUnknown run_write.simps snd_drop_value mark_unknown_def
      by (rule base) (use r in \<open>auto simp: unknown_write.row_at_upd unknown_set_def split: if_splits\<close>)
  next
    case (WCheckpoint oid obs)
    show ?thesis unfolding WCheckpoint run_write.simps snd_drop_value checkpoint_def
      by (rule base) (use r in \<open>auto simp: checkpoint_write.row_at_upd checkpoint_set_def split: if_splits\<close>)
  next
    case (WFinish oid st trm res rsn rep)
    show ?thesis
    proof (cases "st = Completed \<or> st = Failed")
      case True
      have fin: "st \<noteq> Completed \<and> st \<noteq> Failed \<longleftrightarrow> False" using True by blast
      show ?thesis unfolding WFinish run_write.simps snd_drop_value finish_def fin if_False
        by (rule base) (use r True in \<open>auto simp: Let_def completed_write.row_at_upd
            failed_write.row_at_upd finish_set_def split: option.splits if_splits\<close>)
    next
      case False
      then show ?thesis using r by (simp add: WFinish finish_def)
    qed
  next
    case (WUnsent oid rsn)
    with wr key have "\<not> running_where v oid r" by (auto simp: running_where_def)
    then show ?thesis unfolding WUnsent run_write.simps snd_drop_value unsent_after_promotion_def
      by (intro base) (use r in \<open>auto simp: unsent_write.row_at_upd split: if_splits\<close>)
  next
    case (WResolve oid ev)
    show ?thesis unfolding WResolve run_write.simps snd_drop_value resolve_unknown_def
      by (rule base) (use r in \<open>auto simp: Let_def audit_insert_def resolve_write.row_at_upd
          resolve_where_def split: if_splits\<close>)
  next
    case (WRepin oid rt ref dig)
    show ?thesis unfolding WRepin run_write.simps snd_drop_value repin_def
      by (rule base) (use r in auto)
  qed
  with r' show ?thesis by blast
qed

lemma sent_write:
  assumes inv: "store_inv d" and mine: "ours w d" and s: "sent_at w d oid"
    and wr: "v = w \<Longrightarrow> (\<And>o' rsn. wr = WUnsent o' rsn \<Longrightarrow> o' \<noteq> oid)"
  shows "sent_at w (snd (run_write v wr now d)) oid"
proof -
  let ?d' = "snd (run_write v wr now d)" and ?k = "(own_node w, oid)"
  from s obtain r where r: "op_at d ?k = Some r" "sent_row w r" by (auto simp: sent_at_def)
  from inv have we: "write_effect (role_of wr) v d ?d'"
    by (intro run_write_effect) (simp add: store_inv_def)
  from write_row [OF we r(1)] obtain r' where r': "op_at ?d' ?k = Some r'"
    "op_state r' = op_state r \<or> op_edge (op_state r) (op_state r')"
    "terminal_state (op_state r) \<longrightarrow> r' = r" by blast
  have own: "owner_generation r' = owner_generation r"
    using write_row_owner [OF we r(1)] r'(1) by auto
  have "op_state r = Running \<Longrightarrow> op_state r' \<noteq> CancelledUnsent"
  proof (cases "v = w")
    case True
    assume "op_state r = Running"
    then show ?thesis using only_unsent_cancels [OF r(1) _ _ r'(1)] wr [OF True] by simp
  next
    case False
    assume run: "op_state r = Running"
    with r(2) have "owner_generation r = own_generation w" by (simp add: sent_row_def)
    with foreign_running_kept [OF we mine False r(1)] r'(1) run show ?thesis by simp
  qed
  with r(2) r'(2,3) own have "sent_row w r'"
    by (cases "op_state r"; cases "op_state r'") (auto simp: sent_row_def terminal_state_def)
  with r'(1) show ?thesis by (auto simp: sent_at_def)
qed

lemma sent_claim:
  assumes "sent_at w d oid"
  shows "sent_at w (snd (claim n held domain kboot boot pid now d)) oid"
proof (cases "fst (claim n held domain kboot boot pid now d)")
  case (Inl e)
  with assms claim_refused [OF Inl] show ?thesis by (simp add: sent_at_def)
next
  case (Inr el)
  let ?g = "ag_generation (previous_agent n d) + 1"
  let ?tr = "takeover_row n ?g (takeover_note ?g (previous_agent n d)) now"
  from assms obtain r where r: "op_at d (own_node w, oid) = Some r" "sent_row w r"
    by (auto simp: sent_at_def)
  have "op_at (snd (claim n held domain kboot boot pid now d)) (own_node w, oid) = Some (?tr r)"
    using r(1) by (simp add: claim_success(2) [OF Inr] row_at_map_takeover)
  moreover have "sent_row w (?tr r)"
    using r(2) by (auto simp: sent_row_def takeover_row_def row_simps split: op_state.splits)
  ultimately show ?thesis by (auto simp: sent_at_def)
qed

lemma sent_env:
  assumes "env_step w d d'" and "store_inv d" and "ours w d" and "sent_at w d oid"
  shows "sent_at w d' oid"
  using assms
proof (induction rule: env_step.induct)
  case (ev_write v wr d now)
  show ?case
  proof (rule sent_write)
    fix o' rsn
    assume "v = w" "wr = WUnsent o' rsn"
    with ev_write.hyps show "o' \<noteq> oid" by simp
  qed (use ev_write.prems in auto)
next
  case (ev_claim d n held domain kboot boot pid now)
  then show ?case by (simp add: sent_claim)
qed (auto simp: sent_at_def release_effect(1) election_unlock_def set_control_def audit_insert_def)

section \<open>The history of the process\<close>

definition ins_phase :: "phase \<Rightarrow> bool" where
  "ins_phase p = (case p of PWait \<Rightarrow> True | PIdle \<Rightarrow> True | PArmed \<Rightarrow> True | PSlot \<Rightarrow> True
     | PFailed _ \<Rightarrow> True | PLook \<Rightarrow> True | _ \<Rightarrow> False)"

definition withheld :: "outcome \<Rightarrow> bool" where
  "withheld out = (case out of Withheld _ \<Rightarrow> True | _ \<Rightarrow> False)"

text \<open>A task that has not been sent, and will not be unless it is at the send barrier.\<close>

definition unsent_phase :: "run_phase \<Rightarrow> bool" where
  "unsent_phase p = (case p of RReady \<Rightarrow> True | RSettle out \<Rightarrow> withheld out
     | RCommit out _ \<Rightarrow> withheld out | _ \<Rightarrow> False)"

definition committed_to :: "(string \<rightharpoonup> run) \<Rightarrow> string list \<Rightarrow> string set" where
  "committed_to runs sent = {oid. oid \<in> set sent \<or> (\<exists>r. runs oid = Some r \<and> r_phase r = RReady)}"

definition past_accepted :: "ownership \<Rightarrow> db \<Rightarrow> string \<Rightarrow> bool" where
  "past_accepted w d oid \<longleftrightarrow>
     (\<exists>r. op_at d (own_node w, oid) = Some r \<and> op_state r \<noteq> Accepted)"

definition calls_ok :: "ownership \<Rightarrow> db \<Rightarrow> caller list \<Rightarrow> (string \<rightharpoonup> run) \<Rightarrow> string list \<Rightarrow> bool" where
  "calls_ok w d calls runs sent \<longleftrightarrow>
     (\<forall>i < length calls. ins_phase (c_phase (calls ! i)) \<longrightarrow>
        op_at d (own_node w, c_op (calls ! i)) \<noteq> None
        \<and> c_op (calls ! i) \<notin> set sent \<and> runs (c_op (calls ! i)) = None)
     \<and> (\<forall>i < length calls. \<forall>j < length calls. ins_phase (c_phase (calls ! i)) \<longrightarrow>
          ins_phase (c_phase (calls ! j)) \<longrightarrow> c_op (calls ! i) = c_op (calls ! j) \<longrightarrow> i = j)"

definition runs_ok :: "ownership \<Rightarrow> db \<Rightarrow> (string \<rightharpoonup> run) \<Rightarrow> string list \<Rightarrow> bool" where
  "runs_ok w d runs sent \<longleftrightarrow>
     (\<forall>oid r. runs oid = Some r \<longrightarrow> past_accepted w d oid
        \<and> (unsent_phase (r_phase r) \<longrightarrow> oid \<notin> set sent))
     \<and> (\<forall>oid \<in> committed_to runs sent. sent_at w d oid)
     \<and> distinct sent"

definition hist :: "ownership \<Rightarrow> disp \<Rightarrow> bool" where
  "hist w s \<longleftrightarrow> store_inv (d_db s) \<and> ours w (d_db s)
     \<and> calls_ok w (d_db s) (d_calls s) (d_runs s) (d_sent s)
     \<and> runs_ok w (d_db s) (d_runs s) (d_sent s)"

subsection \<open>Database steps\<close>

text \<open>A step of anybody, in which this process calls no committed operation unsent.\<close>

inductive safe_db :: "ownership \<Rightarrow> string set \<Rightarrow> db \<Rightarrow> db \<Rightarrow> bool" for w G where
  sd_stay: "safe_db w G d d"
| sd_env: "env_step w d d' \<Longrightarrow> safe_db w G d d'"
| sd_own: "(\<And>o' rsn. wr = WUnsent o' rsn \<Longrightarrow> o' \<notin> G) \<Longrightarrow>
     safe_db w G d (snd (run_write w wr now d))"

lemma safe_agent_step: "safe_db w G d d' \<Longrightarrow> d' = d \<or> agent_step d d'"
  by (induction rule: safe_db.induct) (auto intro: env_agent_step ag_write)

lemma safe_sent: "safe_db w G d d' \<Longrightarrow> store_inv d \<Longrightarrow> ours w d \<Longrightarrow> oid \<in> G \<Longrightarrow>
    sent_at w d oid \<Longrightarrow> sent_at w d' oid"
proof (induction rule: safe_db.induct)
  case (sd_env d d')
  then show ?case using sent_env by blast
next
  case (sd_own wr d now)
  then show ?case by (intro sent_write) auto
qed

lemma safe_row: "safe_db w G d d' \<Longrightarrow> store_inv d \<Longrightarrow> op_at d k = Some r \<Longrightarrow>
    \<exists>r'. op_at d' k = Some r' \<and> (op_state r' = Accepted \<longrightarrow> op_state r = Accepted)"
proof -
  assume a: "safe_db w G d d'" "store_inv d" "op_at d k = Some r"
  from safe_agent_step [OF a(1)] show ?thesis
  proof
    assume "agent_step d d'"
    from step_row [OF this a(2,3)] obtain r' where
      "op_at d' k = Some r'" "op_state r' = op_state r \<or> op_edge (op_state r) (op_state r')" by blast
    then show ?thesis by (intro exI [of _ r']) (cases "op_state r"; auto)
  qed (use a(3) in simp)
qed

lemma safe_calls: "safe_db w G d d' \<Longrightarrow> store_inv d \<Longrightarrow> calls_ok w d calls runs sent \<Longrightarrow>
    calls_ok w d' calls runs sent"
proof -
  assume a: "safe_db w G d d'" "store_inv d" "calls_ok w d calls runs sent"
  have "op_at d' k \<noteq> None" if "op_at d k \<noteq> None" for k
    using safe_row [OF a(1,2), of k] that by (cases "op_at d k") auto
  with a(3) show ?thesis unfolding calls_ok_def by blast
qed

lemma safe_runs: "safe_db w (committed_to runs sent) d d' \<Longrightarrow> store_inv d \<Longrightarrow> ours w d \<Longrightarrow>
    runs_ok w d runs sent \<Longrightarrow> runs_ok w d' runs sent"
  unfolding runs_ok_def past_accepted_def using safe_row safe_sent by meson

lemma safe_hist:
  assumes "hist w s" and "safe_db w (committed_to (d_runs s) (d_sent s)) (d_db s) d"
  shows "hist w (s\<lparr>d_db := d\<rparr>)"
proof -
  have inv: "store_inv d" and mine: "ours w d"
    using assms safe_agent_step [OF assms(2)] agent_step_inv ours_step by (auto simp: hist_def)
  then show ?thesis
    using assms safe_calls [OF assms(2)] safe_runs [OF assms(2)] by (simp add: hist_def)
qed

subsection \<open>Steps of calls and tasks\<close>

lemma calls_ok_move:
  assumes "calls_ok w d calls runs sent" and "i < length calls" and "c_op c = c_op (calls ! i)"
    and "ins_phase (c_phase c) \<Longrightarrow> ins_phase (c_phase (calls ! i))"
  shows "calls_ok w d (calls[i := c]) runs sent"
proof -
  let ?cs = "calls[i := c]"
  have same: "c_op (?cs ! j) = c_op (calls ! j) \<and> (ins_phase (c_phase (?cs ! j)) \<longrightarrow> ins_phase (c_phase (calls ! j)))"
    if "j < length calls" for j
  proof (cases "i = j")
    case True
    with assms(2-4) show ?thesis by simp
  qed simp
  from assms(1) show ?thesis
    unfolding calls_ok_def length_list_update using same by (metis (no_types, lifting))
qed

lemma calls_ok_enter:
  assumes "calls_ok w d calls runs sent" and "i < length calls" and "c_op c = oid"
    and "op_at d (own_node w, oid) \<noteq> None" and "oid \<notin> set sent" and "runs oid = None"
    and "\<And>j. j < length calls \<Longrightarrow> ins_phase (c_phase (calls ! j)) \<Longrightarrow> c_op (calls ! j) \<noteq> oid"
  shows "calls_ok w d (calls[i := c]) runs sent"
proof -
  let ?cs = "calls[i := c]"
  have k: "?cs ! j = (if i = j then c else calls ! j)" if "j < length calls" for j
    using assms(2) that by (simp add: nth_list_update)
  have "op_at d (own_node w, c_op (?cs ! j)) \<noteq> None \<and> c_op (?cs ! j) \<notin> set sent \<and> runs (c_op (?cs ! j)) = None"
    if "j < length calls" "ins_phase (c_phase (?cs ! j))" for j
    using assms that unfolding calls_ok_def k [OF that(1)] by (cases "i = j") simp_all
  moreover have "j = l" if "j < length calls" "l < length calls" "ins_phase (c_phase (?cs ! j))"
    "ins_phase (c_phase (?cs ! l))" "c_op (?cs ! j) = c_op (?cs ! l)" for j l
  proof -
    have other: "c_op (calls ! m) \<noteq> oid" if "m < length calls" "ins_phase (c_phase (?cs ! m))" "i \<noteq> m" for m
      using that assms(7) by (simp add: k)
    consider "i = j" "i = l" | "i = j" "i \<noteq> l" | "i \<noteq> j" "i = l" | "i \<noteq> j" "i \<noteq> l" by blast
    then show ?thesis
    proof cases
      case 2
      with that other [OF that(2,4)] assms(3) show ?thesis by (simp add: k)
    next
      case 3
      with that other [OF that(1,3)] assms(3) show ?thesis by (simp add: k)
    next
      case 4
      with that assms(1) show ?thesis by (simp add: k calls_ok_def)
    qed simp
  qed
  ultimately show ?thesis unfolding calls_ok_def length_list_update by blast
qed

lemma calls_ok_append:
  "calls_ok w d calls runs sent \<Longrightarrow> \<not> ins_phase (c_phase c) \<Longrightarrow>
     calls_ok w d (calls @ [c]) runs sent"
  unfolding calls_ok_def by (auto simp: nth_append less_Suc_eq)

lemma calls_ok_runs:
  "calls_ok w d calls runs sent \<Longrightarrow>
     (\<And>i. i < length calls \<Longrightarrow> ins_phase (c_phase (calls ! i)) \<Longrightarrow>
        c_op (calls ! i) \<notin> set sent' \<and> runs' (c_op (calls ! i)) = None) \<Longrightarrow>
     calls_ok w d calls runs' sent'"
  unfolding calls_ok_def by blast

lemma hist_move:
  assumes "hist w s" and "at_phase s i c p" and "ins_phase q \<Longrightarrow> ins_phase p"
  shows "hist w (goto i q s)"
  using assms calls_ok_move [of w "d_db s" "d_calls s" "d_runs s" "d_sent s" i "c\<lparr>c_phase := q\<rparr>"]
  by (auto simp: hist_def goto_def at_phase_def)

lemma hist_gate [simp]: "hist w (s\<lparr>d_gate := g\<rparr>) = hist w s"
  by (simp add: hist_def)

lemma hist_gate_db: "hist w (s\<lparr>d_gate := g, d_db := d\<rparr>) = hist w (s\<lparr>d_db := d\<rparr>)"
  by (simp add: hist_def)

lemma goto_swap: "goto i q (s\<lparr>d_db := d\<rparr>) = (goto i q s)\<lparr>d_db := d\<rparr>"
  "goto i q (s\<lparr>d_gate := g\<rparr>) = (goto i q s)\<lparr>d_gate := g\<rparr>"
  "goto i q (s\<lparr>d_gate := g, d_db := d\<rparr>) = (goto i q s)\<lparr>d_gate := g, d_db := d\<rparr>"
  by (simp_all add: goto_def)

lemma goto_sel [simp]: "d_db (goto i q s) = d_db s" "d_runs (goto i q s) = d_runs s"
  "d_sent (goto i q s) = d_sent s" "d_gate (goto i q s) = d_gate s"
  by (simp_all add: goto_def)

lemma hist_finish_call:
  assumes "hist w s" and "at_phase s i c p"
    and "safe_db w (committed_to (d_runs s) (d_sent s)) (d_db s) d"
  shows "hist w (finish_call i unk c ans g d s)"
proof -
  have "hist w (goto i (PDone ans) s)"
    using assms(1,2) by (rule hist_move) (simp add: ins_phase_def)
  from safe_hist [OF this, of d] assms(3) show ?thesis
    by (simp add: finish_call_def goto_swap hist_gate_db)
qed

lemma hist_set_run:
  assumes "hist w s" and "d_runs s oid = Some r"
    and "unsent_phase p \<Longrightarrow> unsent_phase (r_phase r)" and "p \<noteq> RReady"
  shows "hist w (set_run oid p r s)"
proof -
  let ?runs = "(d_runs s)(oid \<mapsto> r\<lparr>r_phase := p\<rparr>)"
  have "calls_ok w (d_db s) (d_calls s) ?runs (d_sent s)"
    by (rule calls_ok_runs [where runs = "d_runs s" and sent = "d_sent s"])
       (use assms in \<open>auto simp: hist_def calls_ok_def\<close>)
  moreover have "runs_ok w (d_db s) ?runs (d_sent s)"
    using assms by (auto simp: hist_def runs_ok_def committed_to_def)
  ultimately show ?thesis using assms(1) by (simp add: hist_def set_run_def)
qed

text \<open>Own writes as safe steps.\<close>

lemma safe_own_intros:
  "safe_db w G d (snd (insert_accepted w oid k req ph st now d))"
  "safe_db w G d (snd (promote w oid prov at now d))"
  "safe_db w G d (snd (cancel_accepted w oid rsn k now d))"
  "safe_db w G d (snd (checkpoint w oid obs d))"
  "oid \<notin> G \<Longrightarrow> safe_db w G d (snd (unsent_after_promotion w oid rsn now d))"
  using sd_own [of "WInsert oid k req ph st" G w d now] sd_own [of "WPromote oid prov at" G w d now]
    sd_own [of "WCancel oid rsn k" G w d now] sd_own [of "WCheckpoint oid obs" G w d now]
    sd_own [of "WUnsent oid rsn" G w d now]
  by simp_all

lemma safe_commit:
  assumes "withheld out \<Longrightarrow> oid \<notin> G"
  shows "safe_db w G d (snd (commit_outcome w now oid out d))"
proof (cases out)
  case (RtCompleted trm res rep)
  then show ?thesis
    using sd_own [of "WFinish oid Completed (JObj trm) (map_option JObj res) None rep" G w d now]
    by (simp add: commit_outcome_def)
next
  case (RuntimeRefused trm rsn)
  then show ?thesis
    using sd_own [of "WFinish oid Failed (JObj trm) None (Some rsn) False" G w d now]
    by (simp add: commit_outcome_def)
next
  case (NotSent rsn)
  then show ?thesis
    using sd_own [of "WFinish oid Failed (JObj []) None (Some (''not_sent:'' @ rsn)) False" G w d now]
    by (simp add: commit_outcome_def)
next
  case (Uncertain rsn obs)
  then show ?thesis
    using sd_own [of "WUnknown oid rsn (JObj obs)" G w d now] by (simp add: commit_outcome_def)
next
  case (Withheld rsn)
  then show ?thesis
    using assms by (simp add: commit_outcome_def withheld_def safe_own_intros)
qed

lemma safe_insert_txn: "safe_db w G d (snd (call_insert_txn w now c d))"
  by (simp add: call_insert_txn_def safe_own_intros)

lemma safe_call: "(safe_db w G d (snd (t d))) \<Longrightarrow> call_store f t d = (x, d') \<Longrightarrow> safe_db w G d d'"
  using call_store_db [of f t d] sd_stay by auto

subsection \<open>The history invariant over every step\<close>

lemma hist_db: "hist w s \<Longrightarrow> safe_db w (committed_to (d_runs s) (d_sent s)) (d_db s) d \<Longrightarrow>
    hist w (s\<lparr>d_gate := g, d_db := d\<rparr>)"
  by (simp add: hist_gate_db safe_hist)

lemma at_phase_db [simp]: "at_phase (s\<lparr>d_db := d\<rparr>) i c p = at_phase s i c p"
  "at_phase (s\<lparr>d_gate := g\<rparr>) i c p = at_phase s i c p"
  by (simp_all add: at_phase_def)

lemma hist_goto_db:
  assumes "hist w s" and "at_phase s i c p" and "ins_phase q \<Longrightarrow> ins_phase p"
    and "safe_db w (committed_to (d_runs s) (d_sent s)) (d_db s) d"
  shows "hist w (goto i q (s\<lparr>d_gate := g, d_db := d\<rparr>))"
  unfolding goto_swap hist_gate_db
  by (rule safe_hist [OF hist_move [OF assms(1,2)]]) (use assms in auto)

lemma hist_goto_db':
  "hist w s \<Longrightarrow> at_phase s i c p \<Longrightarrow> (ins_phase q \<Longrightarrow> ins_phase p) \<Longrightarrow>
   safe_db w (committed_to (d_runs s) (d_sent s)) (d_db s) d \<Longrightarrow> hist w (goto i q (s\<lparr>d_db := d\<rparr>))"
  using hist_goto_db [of w s i c p q d "d_gate s"] by simp

text \<open>Nothing of this process names an operation without a row.\<close>

lemma hist_absent:
  assumes "hist w s" and "op_at (d_db s) (own_node w, oid) = None"
  shows "oid \<notin> set (d_sent s)" and "d_runs s oid = None"
    and "j < length (d_calls s) \<Longrightarrow> ins_phase (c_phase (d_calls s ! j)) \<Longrightarrow> c_op (d_calls s ! j) \<noteq> oid"
proof -
  show "oid \<notin> set (d_sent s)"
    using assms by (auto simp: hist_def runs_ok_def committed_to_def sent_at_def)
  show "d_runs s oid = None"
  proof (rule ccontr)
    assume "d_runs s oid \<noteq> None"
    then obtain r where "d_runs s oid = Some r" by blast
    with assms(1) have "past_accepted w (d_db s) oid" unfolding hist_def runs_ok_def by blast
    with assms(2) show False by (simp add: past_accepted_def)
  qed
  show "c_op (d_calls s ! j) \<noteq> oid"
    if "j < length (d_calls s)" "ins_phase (c_phase (d_calls s ! j))"
    using assms that by (auto simp: hist_def calls_ok_def)
qed

lemma insert_True:
  assumes "insert_accepted w oid k req ph st now d = (Inr (Some r), d')"
  shows "op_at d (own_node w, oid) = None" and "op_at d' (own_node w, oid) \<noteq> None"
    and "owns w d"
proof -
  show own: "owns w d"
    using assms by (cases "owns w d") (auto simp: insert_accepted_def owned_def owns_def split: option.splits)
  from assms show "op_at d (own_node w, oid) = None" "op_at d' (own_node w, oid) \<noteq> None"
    by (auto simp: insert_accepted_def owned_ok [OF own] Let_def row_at_append new_accepted_def
        split: if_splits option.splits)
qed

lemma call_insert_True:
  "call_insert_txn w now c d = (Inr (Some r), d') \<Longrightarrow>
     op_at d (own_node w, c_op c) = None \<and> op_at d' (own_node w, c_op c) \<noteq> None"
  by (auto simp: call_insert_txn_def dest: insert_True(1,2) split: if_splits)

lemma hist_insert:
  assumes h: "hist w s" and p: "at_phase s i c PInsert"
  shows "hist w (call_insert w f now unk i c s)"
proof (cases "call_store f (call_insert_txn w now c) (d_db s)")
  case (Pair x d)
  have safe: "safe_db w (committed_to (d_runs s) (d_sent s)) (d_db s) d"
    using Pair safe_call safe_insert_txn by blast
  show ?thesis
  proof (cases "\<exists>r. x = Inr (Some r)")
    case True
    then obtain r where x: "x = Inr (Some r)" by blast
    from Pair have "call_insert_txn w now c (d_db s) = (Inr (Some r), d)"
      unfolding x by (rule call_store_InrD)
    from call_insert_True [OF this] have rows: "op_at (d_db s) (own_node w, c_op c) = None"
      "op_at d (own_node w, c_op c) \<noteq> None" by blast+
    have h': "hist w (s\<lparr>d_db := d\<rparr>)" using h safe by (rule safe_hist)
    let ?q = "if c_life c then PIdle else PWait"
    have "calls_ok w d ((d_calls s)[i := c\<lparr>c_phase := ?q\<rparr>]) (d_runs s) (d_sent s)"
      by (rule calls_ok_enter [where oid = "c_op c"])
         (use h' p rows hist_absent [OF h rows(1)] in \<open>auto simp: hist_def at_phase_def\<close>)
    with h' p show ?thesis
      by (simp add: call_insert_def Pair x hist_def goto_def at_phase_def)
  next
    case False
    then show ?thesis
      using hist_finish_call [OF h p safe] hist_goto_db' [OF h p _ safe, of PLost]
      by (auto simp: call_insert_def Pair ins_phase_def split: sum.splits option.splits)
  qed
qed

lemma created_hist:
  assumes h: "hist w s" and p: "at_phase s i c PSlot"
    and t: "fst (promote w (c_op c) prov ep now (d_db s)) = Inr True"
  shows "hist w (goto i (PDone Attempted) (s\<lparr>d_gate := g,
     d_db := snd (promote w (c_op c) prov ep now (d_db s)),
     d_runs := (d_runs s)(c_op c \<mapsto> \<lparr>r_kind = k, r_life = lf, r_phase = RReady\<rparr>)\<rparr>))"
proof -
  let ?d = "snd (promote w (c_op c) prov ep now (d_db s))"
  let ?runs = "(d_runs s)(c_op c \<mapsto> \<lparr>r_kind = k, r_life = lf, r_phase = RReady\<rparr>)"
  have safe: "safe_db w (committed_to (d_runs s) (d_sent s)) (d_db s) ?d"
    by (rule safe_own_intros)
  have i: "i < length (d_calls s)" "d_calls s ! i = c" "c_phase c = PSlot"
    using p by (auto simp: at_phase_def)
  have h': "hist w (goto i (PDone Attempted) (s\<lparr>d_db := ?d\<rparr>))"
    using h p _ safe by (rule hist_goto_db') (simp add: ins_phase_def)
  have new: "c_op c \<notin> set (d_sent s)" "d_runs s (c_op c) = None"
    "\<And>j. j < length (d_calls s) \<Longrightarrow> ins_phase (c_phase (d_calls s ! j)) \<Longrightarrow>
       c_op (d_calls s ! j) = c_op c \<Longrightarrow> j = i"
    using h i by (auto simp: hist_def calls_ok_def ins_phase_def)
  have "store_inv (d_db s)" using h by (simp add: hist_def)
  from promote_True(4) [OF t this] have row: "sent_at w ?d (c_op c)" "past_accepted w ?d (c_op c)"
    by (auto simp: sent_at_def sent_row_def promote_set_def past_accepted_def)
  let ?calls = "(d_calls s)[i := c\<lparr>c_phase := PDone Attempted\<rparr>]"
  have "calls_ok w ?d ?calls ?runs (d_sent s)"
  proof (rule calls_ok_runs [where runs = "d_runs s" and sent = "d_sent s"])
    show "calls_ok w ?d ?calls (d_runs s) (d_sent s)"
      using h' i by (simp add: hist_def goto_def)
    fix j
    assume j: "j < length ?calls" "ins_phase (c_phase (?calls ! j))"
    then have "j \<noteq> i" by (auto simp: ins_phase_def)
    with j h new(3) [of j] show "c_op (?calls ! j) \<notin> set (d_sent s) \<and> ?runs (c_op (?calls ! j)) = None"
      by (auto simp: hist_def calls_ok_def)
  qed
  moreover have "runs_ok w ?d ?runs (d_sent s)"
    using h' row new by (auto simp: hist_def runs_ok_def committed_to_def unsent_phase_def)
  ultimately show ?thesis using h' i by (simp add: hist_def goto_def)
qed

lemma hist_promote:
  assumes h: "hist w s" and p: "at_phase s i c PSlot"
  shows "hist w (call_promote w f now host cancelled unk i c s)"
proof -
  obtain pr g d where eq: "(if c_life c
         then exclusive_locked w f now host (c_op c) (c_prov c) (c_epoch c) (d_gate s) (d_db s)
         else promote_locked w f now host (c_op c) (c_prov c) (d_gate s) (d_db s)) = (pr, g, d)"
    by (metis prod.exhaust)
  define ep where "ep = (if c_life c then c_epoch c else None)"
  have "(pr = Created \<and> fst (promote w (c_op c) (c_prov c) ep now (d_db s)) = Inr True
          \<and> d = snd (promote w (c_op c) (c_prov c) ep now (d_db s)))
      \<or> pr \<noteq> Created \<and> (d = d_db s \<or> d = snd (promote w (c_op c) (c_prov c) ep now (d_db s)))"
    using eq by (auto simp: ep_def split: if_splits elim!: promote_locked_cases exclusive_locked_cases)
  then show ?thesis
  proof (elim disjE conjE)
    assume "pr = Created" and t: "fst (promote w (c_op c) (c_prov c) ep now (d_db s)) = Inr True"
      and "d = snd (promote w (c_op c) (c_prov c) ep now (d_db s))"
    then show ?thesis
      using created_hist [OF h p t] by (simp add: call_promote_def eq)
  next
    assume "pr \<noteq> Created" and "d = d_db s"
    then show ?thesis
      using hist_goto_db [OF h p _ sd_stay, where g = "release_slot g"]
      by (auto simp: call_promote_def eq ins_phase_def split: promotion.splits)
  next
    assume "pr \<noteq> Created" and "d = snd (promote w (c_op c) (c_prov c) ep now (d_db s))"
    then show ?thesis
      using hist_goto_db [OF h p _ safe_own_intros(2), where g = "release_slot g"]
      by (auto simp: call_promote_def eq ins_phase_def split: promotion.splits)
  qed
qed

lemma hist_start:
  assumes h: "hist w s" and r: "d_runs s oid = Some r" "r_phase r = RReady"
  shows "hist w (run_start oid r s)"
proof (cases "withhold oid (d_gate s)")
  case True
  then show ?thesis
    using hist_set_run [OF h r(1), of "RSettle (Withheld ''maintenance_before_send'')"] r(2)
    by (simp add: run_start_def unsent_phase_def withheld_def)
next
  case False
  let ?runs = "(d_runs s)(oid \<mapsto> r\<lparr>r_phase := RSending\<rparr>)" and ?sent = "d_sent s @ [oid]"
  have "calls_ok w (d_db s) (d_calls s) ?runs ?sent"
    by (rule calls_ok_runs [where runs = "d_runs s" and sent = "d_sent s"])
       (use h r in \<open>auto simp: hist_def calls_ok_def\<close>)
  moreover have "runs_ok w (d_db s) ?runs ?sent"
  proof -
    have "oid \<notin> set (d_sent s)" using h r by (auto simp: hist_def runs_ok_def unsent_phase_def)
    moreover have "sent_at w (d_db s) oid" using h r by (auto simp: hist_def runs_ok_def committed_to_def)
    ultimately show ?thesis
      using h r by (auto simp: hist_def runs_ok_def committed_to_def unsent_phase_def)
  qed
  ultimately show ?thesis
    using h False by (simp add: run_start_def set_run_def hist_def)
qed

lemma hist_finish_run: "hist w s \<Longrightarrow> hist w (run_finish unk oid lc s)"
  by (auto simp: run_finish_def hist_def calls_ok_def runs_ok_def committed_to_def)

lemma relay_outcome_says: "relay_says e \<Longrightarrow> \<not> withheld (relay_outcome oid e g)"
  by (cases e) (auto simp: relay_says_def relay_outcome_def withheld_def split: outcome.splits)

lemma hist_set_run_db:
  assumes "hist w s" and "d_runs s oid = Some r"
    and "unsent_phase p \<Longrightarrow> unsent_phase (r_phase r)" and "p \<noteq> RReady"
    and "safe_db w (committed_to (d_runs s) (d_sent s)) (d_db s) d"
  shows "hist w (set_run oid p r (s\<lparr>d_gate := g, d_db := d\<rparr>))"
proof -
  have "hist w (s\<lparr>d_gate := g, d_db := d\<rparr>)" using assms(1,5) by (rule hist_db)
  then show ?thesis by (rule hist_set_run) (use assms in auto)
qed

lemma hist_set_run_gate:
  "hist w s \<Longrightarrow> d_runs s oid = Some r \<Longrightarrow> (unsent_phase p \<Longrightarrow> unsent_phase (r_phase r)) \<Longrightarrow>
     p \<noteq> RReady \<Longrightarrow> hist w (set_run oid p r (s\<lparr>d_gate := g\<rparr>))"
  using hist_set_run_db [OF _ _ _ _ sd_stay, of w s oid r p g] by simp

lemma hist_step: "disp_step w s t \<Longrightarrow> hist w s \<Longrightarrow> hist w t"
proof (induction rule: disp_step.induct)
  case (ds_env s d)
  then show ?case by (intro safe_hist sd_env)
next
  case (ds_begin c s)
  then show ?case
    using calls_ok_append [of w "d_db s" "d_calls s" "d_runs s" "d_sent s"]
    by (auto simp: hist_def call_begin_def ins_phase_def)
next
  case (ds_observe s i c fr)
  show ?case unfolding call_observe_def
    by (rule hist_move [OF ds_observe.prems ds_observe.hyps])
       (auto simp: ins_phase_def split: sum.splits option.splits)
next
  case (ds_admit s i c)
  then show ?case
    by (auto simp: call_admit_def goto_swap ins_phase_def split: prod.splits option.splits
        intro: hist_move)
next
  case (ds_insert s i c f now fr)
  then show ?case by (simp add: hist_insert)
next
  case (ds_insert_cancelled s i c f now fr)
  let ?d = "if f = FailsBefore then d_db s else snd (call_insert_txn w now c (d_db s))"
  have safe: "safe_db w (committed_to (d_runs s) (d_sent s)) (d_db s) ?d"
    by (simp add: sd_stay safe_insert_txn)
  show ?case
  proof (cases "c_life c")
    case True
    with hist_finish_call [OF ds_insert_cancelled.prems ds_insert_cancelled.hyps safe] show ?thesis
      by (simp add: call_insert_cancelled_def Let_def)
  next
    case False
    have "hist w (goto i (PUnsent ''cancelled_before_send'' True) (s\<lparr>d_db := ?d\<rparr>))"
      by (rule hist_goto_db' [OF ds_insert_cancelled.prems ds_insert_cancelled.hyps _ safe])
         (simp add: ins_phase_def)
    with False show ?thesis by (simp add: call_insert_cancelled_def Let_def)
  qed
next
  case (ds_lost s i c fr fr')
  then show ?case unfolding call_lost_def by (intro hist_finish_call sd_stay)
next
  case (ds_wait s i c expired)
  then show ?case
    by (auto simp: call_wait_def goto_swap ins_phase_def split: prod.splits option.splits
        intro: hist_move)
next
  case (ds_idle s i c)
  then show ?case by (intro hist_move) (auto simp: ins_phase_def)
next
  case (ds_take s i c g)
  then show ?case unfolding goto_swap hist_gate by (intro hist_move) (auto simp: ins_phase_def)
next
  case (ds_wake s i c)
  then show ?case by (intro hist_move) (auto simp: ins_phase_def)
next
  case (ds_wait_cancelled s i c p)
  then show ?case by (intro hist_move) (auto simp: ins_phase_def)
next
  case (ds_promote s i c cancelled f now host fr)
  then show ?case by (simp add: hist_promote)
next
  case (ds_failed s i c a fr f now fr')
  obtain g d where e: "unsent_after_failed_promotion w fr f now (c_op c) (c_kind c) (d_gate s) (d_db s) = (g, d)"
    by (metis prod.exhaust)
  have i: "i < length (d_calls s)" "d_calls s ! i = c" "ins_phase (c_phase c)"
    using ds_failed.hyps by (auto simp: at_phase_def ins_phase_def)
  then have "c_op c \<notin> committed_to (d_runs s) (d_sent s)"
    using ds_failed.prems by (auto simp: hist_def calls_ok_def committed_to_def)
  with failed_promotion_cases [OF e]
  have "safe_db w (committed_to (d_runs s) (d_sent s)) (d_db s) d"
    by (auto intro: sd_stay safe_own_intros)
  with ds_failed show ?case by (auto simp: call_failed_def e intro: hist_finish_call)
next
  case (ds_look s i c fr fr')
  then show ?case
    by (auto simp: call_look_def ins_phase_def split: sum.splits
        intro: hist_finish_call hist_move sd_stay)
next
  case (ds_unsent s i c r b f now fr)
  obtain a g d where e: "unsent w f now (c_op c) (c_kind c) r (d_gate s) (d_db s) = (a, g, d)"
    by (metis prod.exhaust)
  with unsent_cases [OF e] have "safe_db w (committed_to (d_runs s) (d_sent s)) (d_db s) d"
    by (auto intro: sd_stay safe_own_intros)
  with ds_unsent show ?case by (auto simp: call_unsent_def e intro: hist_finish_call)
next
  case (ds_start s oid r)
  then show ?case by (simp add: hist_start)
next
  case (ds_checkpoint s oid r f obs)
  obtain g d where e: "sink_checkpoint w f oid obs (d_gate s) (d_db s) = (g, d)"
    by (metis prod.exhaust)
  with sink_checkpoint_cases [OF e] have "safe_db w (committed_to (d_runs s) (d_sent s)) (d_db s) d"
    by (auto intro: sd_stay safe_own_intros)
  with ds_checkpoint show ?case by (simp add: run_checkpoint_def e hist_db)
next
  case (ds_relay_end s oid r e)
  then show ?case unfolding run_relay_end_def
    by (intro hist_set_run_gate) (auto simp: unsent_phase_def relay_outcome_says)
next
  case (ds_settle s oid r out)
  then show ?case unfolding run_settle_def
    by (intro hist_set_run_gate) (auto simp: unsent_phase_def)
next
  case (ds_commit s oid r out lc f now)
  obtain st g d where e: "settle_try w f now oid out (d_gate s) (d_db s) = (st, g, d)"
    by (metis prod.exhaust)
  have "withheld out \<Longrightarrow> oid \<notin> committed_to (d_runs s) (d_sent s)"
    using ds_commit by (auto simp: hist_def runs_ok_def committed_to_def unsent_phase_def)
  with settle_try_cases [OF e] have "safe_db w (committed_to (d_runs s) (d_sent s)) (d_db s) d"
    by (auto intro: sd_stay safe_commit)
  with ds_commit show ?case
    by (auto simp: run_commit_def e unsent_phase_def intro!: hist_set_run_db)
next
  case (ds_finish s oid r out lc f)
  then show ?case by (simp add: hist_finish_run)
qed simp_all

interpretation history: transition_system "disp_step w" "hist w" for w
  by unfold_locales (rule hist_step)

end
