(* ===== verification/Dispatch_Tasks.thy ===== *)
theory Dispatch_Tasks
  imports Dispatch_History
begin

text \<open>
  The gate's bookkeeping against the tasks that exist: the admitted and sending sets and their
  events, the slots, and the exclusivity of lifecycle operations.
\<close>

section \<open>Admitted and sending\<close>

definition task_view :: "gate \<Rightarrow> string list \<times> bool \<times> string list \<times> bool" where
  "task_view g = (g_admitted g, g_idle g, g_sending g, g_quiet g)"

lemma task_part_view: "task_part h = task_part g \<longleftrightarrow> task_view h = task_view g \<and> g_slots h = g_slots g"
  by (auto simp: task_part_def task_view_def)

lemma slot_view [simp]: "task_view (release_slot g) = task_view g" "g_slots (release_slot g) = g_slots g + 1"
  "take_slot g = Some g' \<Longrightarrow> task_view g' = task_view g"
  "take_slot g = Some g' \<Longrightarrow> g_slots g = g_slots g' + 1"
  by (auto simp: task_view_def release_slot_def take_slot_def split: if_splits)

definition tasks_ok :: "disp \<Rightarrow> bool" where
  "tasks_ok s \<longleftrightarrow> (let g = d_gate s in
     distinct (g_admitted g) \<and> set (g_admitted g) = dom (d_runs s)
     \<and> distinct (g_sending g)
     \<and> set (g_sending g) = {oid. \<exists>r. d_runs s oid = Some r \<and> r_phase r = RSending}
     \<and> (g_idle g \<longleftrightarrow> g_admitted g = []) \<and> (g_quiet g \<longleftrightarrow> g_sending g = []))"

lemma tasks_cong: "task_view (d_gate t) = task_view (d_gate s) \<Longrightarrow> d_runs t = d_runs s \<Longrightarrow>
    tasks_ok s \<Longrightarrow> tasks_ok t"
  by (simp add: tasks_ok_def task_view_def Let_def)

text \<open>Every step of a call but a promotion leaves the tasks alone, slots included.\<close>

lemma finish_call_tasks: "task_part (d_gate (finish_call i unk c a g d s)) = task_part g
    \<and> d_runs (finish_call i unk c a g d s) = d_runs s"
  by (simp add: finish_call_def leave_call_task)

lemma lose_task [simp]: "task_part (lose_role g) = task_part g"
  by (simp add: lose_role_def close_task)

lemma blocked_task [simp]: "task_part (close_locked BLOCKED (g\<lparr>g_uncommitted := u\<rparr>)) = task_part g"
  by (simp add: close_task) (simp add: task_part_def)

lemma sink_task: "sink_checkpoint w f oid obs g d = (g', d') \<Longrightarrow> task_part g' = task_part g"
  by (auto dest!: sink_checkpoint_cases)

lemma settle_task: "settle_try w f now oid out g d = (st, g', d') \<Longrightarrow> task_part g' = task_part g"
  using lose_task [of g] by (auto dest!: settle_try_cases simp: task_part_def)

lemma promotion_tasks:
  assumes eq: "(if c_life c
         then exclusive_locked w f now host (c_op c) (c_prov c) (c_epoch c) (d_gate s) (d_db s)
         else promote_locked w f now host (c_op c) (c_prov c) (d_gate s) (d_db s)) = (pr, g, d)"
  shows "if pr = Created then g = admit_task (c_op c) (d_gate s) else refusing (d_gate s) g"
  using eq by (auto split: if_splits elim!: promote_locked_cases exclusive_locked_cases)

lemma leave_queue_task [simp]: "task_part (leave_queue oid g) = task_part g"
  by (simp add: leave_queue_def task_part_def)

lemma leave_queue_view [simp]: "task_view (leave_queue oid g) = task_view g"
  by (simp add: leave_queue_def task_view_def)

text \<open>Steps that leave admission and sending alone.\<close>

definition calm :: "disp \<Rightarrow> disp \<Rightarrow> bool" where
  "calm s t \<longleftrightarrow> task_view (d_gate t) = task_view (d_gate s) \<and> d_runs t = d_runs s"

lemma calm_tasks: "calm s t \<Longrightarrow> tasks_ok s \<Longrightarrow> tasks_ok t"
  by (simp add: calm_def tasks_cong)

definition still :: "disp \<Rightarrow> disp \<Rightarrow> bool" where
  "still s t \<longleftrightarrow> task_part (d_gate t) = task_part (d_gate s) \<and> d_runs t = d_runs s"

lemma still_calm: "still s t \<Longrightarrow> calm s t"
  by (simp add: still_def calm_def task_part_view)

lemma calm_goto [simp]: "calm s (goto i p t) = calm s t"
  by (simp add: calm_def)

lemma still_goto [simp]: "still s (goto i p t) = still s t"
  by (simp add: still_def)

lemma still_gateI: "task_part g = task_part (d_gate s) \<Longrightarrow> still s (s\<lparr>d_gate := g, d_db := d\<rparr>)"
  by (simp add: still_def)

lemma still_gateI': "task_part g = task_part (d_gate s) \<Longrightarrow> still s (s\<lparr>d_gate := g\<rparr>)"
  by (simp add: still_def)

lemma still_finish: "task_part g = task_part (d_gate s) \<Longrightarrow> still s (finish_call i unk c a g d s)"
  by (simp add: still_def finish_call_def leave_call_task)

lemma insert_still: "still s (call_insert w f now unk i c s)"
  by (auto simp: call_insert_def still_finish split: prod.splits sum.splits option.splits)
     (simp_all add: still_def)

lemma insert_cancelled_still: "still s (call_insert_cancelled w f now unk i c s)"
  by (simp add: call_insert_cancelled_def Let_def still_finish) (simp add: still_def)

lemma admit_still: "still s (call_admit i c s)"
  using take_exclusive_task [of "c_op c" "c_epoch c" "d_gate s"]
    admit_queue_task [of "c_op c" "c_kind c" "d_gate s"]
  by (auto simp: call_admit_def still_gateI' split: prod.splits)

lemma wait_still: "still s (call_wait expired i c s)"
  using wait_head_task [of expired "d_gate s"]
  by (auto simp: call_wait_def still_gateI' split: prod.splits)

lemma failed_still: "still s (call_failed w fr f now unk i c a s)"
proof -
  obtain g d where e: "unsent_after_failed_promotion w fr f now (c_op c) (c_kind c) (d_gate s) (d_db s) = (g, d)"
    by (metis prod.exhaust)
  from failed_promotion_cases [OF e] have "task_part g = task_part (d_gate s)" by auto
  then show ?thesis by (simp add: call_failed_def e still_finish)
qed

lemma look_still: "still s (call_look w fr unk i c s)"
  by (auto simp: call_look_def still_finish split: sum.splits) (simp_all add: still_def)

lemma unsent_still: "still s (call_unsent w f now unk i c r b s)"
proof -
  obtain a g d where e: "unsent w f now (c_op c) (c_kind c) r (d_gate s) (d_db s) = (a, g, d)"
    by (metis prod.exhaust)
  from unsent_cases [OF e] have "task_part g = task_part (d_gate s)" by auto
  then show ?thesis by (simp add: call_unsent_def e still_finish)
qed

lemma checkpoint_still: "still s (run_checkpoint w f oid obs s)"
  by (auto simp: run_checkpoint_def split: prod.splits dest!: sink_task intro!: still_gateI)

lemma promote_calm:
  assumes "\<And>g d. (if c_life c
         then exclusive_locked w f now host (c_op c) (c_prov c) (c_epoch c) (d_gate s) (d_db s)
         else promote_locked w f now host (c_op c) (c_prov c) (d_gate s) (d_db s)) \<noteq> (Created, g, d)"
  shows "calm s (call_promote w f now host cancelled unk i c s)"
proof -
  obtain pr g d where eq: "(if c_life c
         then exclusive_locked w f now host (c_op c) (c_prov c) (c_epoch c) (d_gate s) (d_db s)
         else promote_locked w f now host (c_op c) (c_prov c) (d_gate s) (d_db s)) = (pr, g, d)"
    by (metis prod.exhaust)
  with assms have "pr \<noteq> Created" by blast
  with promotion_tasks [OF eq] refusing_task have "task_view g = task_view (d_gate s)"
    by (auto simp: task_part_view)
  with \<open>pr \<noteq> Created\<close> show ?thesis
    by (auto simp: call_promote_def eq calm_def split: promotion.splits)
qed

lemma promote_created:
  assumes "(if c_life c
         then exclusive_locked w f now host (c_op c) (c_prov c) (c_epoch c) (d_gate s) (d_db s)
         else promote_locked w f now host (c_op c) (c_prov c) (d_gate s) (d_db s)) = (Created, g, d)"
  shows "call_promote w f now host cancelled unk i c s =
     goto i (PDone Attempted) (s\<lparr>d_gate := (if c_life c then g else leave_queue (c_op c) g), d_db := d,
        d_runs := (d_runs s)(c_op c \<mapsto> \<lparr>r_kind = c_kind c, r_life = c_life c, r_phase = RReady\<rparr>)\<rparr>)"
  by (simp add: call_promote_def assms)

lemma hist_entered: "hist w s \<Longrightarrow> at_phase s i c p \<Longrightarrow> ins_phase p \<Longrightarrow>
    c_op c \<notin> set (d_sent s) \<and> d_runs s (c_op c) = None"
  unfolding hist_def calls_ok_def at_phase_def by (elim conjE) (drule spec [of _ i], simp)

lemma tasks_step:
  assumes "disp_step w s t" and "hist w s" and "tasks_ok s"
  shows "tasks_ok t"
  using assms
proof (induction rule: disp_step.induct)
  case (ds_gate f s g)
  from still_calm [OF still_gateI' [OF gate_op_task [OF ds_gate.hyps]]] ds_gate.prems(2) show ?case
    by (rule calm_tasks)
next
  case (ds_promote s i c cancelled f now host fr)
  show ?case
  proof (cases "\<exists>g d. (if c_life c
         then exclusive_locked w f now host (c_op c) (c_prov c) (c_epoch c) (d_gate s) (d_db s)
         else promote_locked w f now host (c_op c) (c_prov c) (d_gate s) (d_db s)) = (Created, g, d)")
    case False
    then show ?thesis by (intro calm_tasks [OF promote_calm ds_promote.prems(2)]) blast
  next
    case True
    then obtain g d where eq: "(if c_life c
         then exclusive_locked w f now host (c_op c) (c_prov c) (c_epoch c) (d_gate s) (d_db s)
         else promote_locked w f now host (c_op c) (c_prov c) (d_gate s) (d_db s)) = (Created, g, d)"
      by blast
    have new: "d_runs s (c_op c) = None"
      using hist_entered [OF ds_promote.prems(1) ds_promote.hyps(1)] by (simp add: ins_phase_def)
    let ?g = "if c_life c then g else leave_queue (c_op c) g"
    have "task_view ?g = task_view (admit_task (c_op c) (d_gate s))"
      using promotion_tasks [OF eq]
      by (cases "c_life c") (simp_all add: task_part_view)
    then show ?thesis
      using new ds_promote.prems(2)
      unfolding promote_created [OF eq]
      by (auto simp: tasks_ok_def task_view_def admit_task_def Let_def)
  qed
next
  case (ds_start s oid r)
  then show ?case
    by (auto simp: tasks_ok_def Let_def run_start_def set_run_def start_sender_def)
next
  case (ds_relay_end s oid r e)
  then show ?case
    by (auto simp: tasks_ok_def Let_def run_relay_end_def set_run_def stop_sender_def)
next
  case (ds_settle s oid r out)
  then have "task_view (settle_begin oid out (d_gate s)) = task_view (d_gate s)"
    by (auto simp: settle_begin_def task_part_view [symmetric]) (metis blocked_task task_part_view)
  with ds_settle show ?case
    by (auto simp: tasks_ok_def Let_def run_settle_def set_run_def task_view_def)
next
  case (ds_commit s oid r out lc f now)
  obtain st g d where e: "settle_try w f now oid out (d_gate s) (d_db s) = (st, g, d)"
    by (metis prod.exhaust)
  from settle_task [OF e] have "task_view g = task_view (d_gate s)" by (simp add: task_part_view)
  with ds_commit show ?case
    by (auto simp: tasks_ok_def Let_def run_commit_def e set_run_def task_view_def)
next
  case (ds_finish s oid r out lc f)
  let ?rest = "filter (\<lambda>x. x \<noteq> oid) (g_admitted (d_gate s))"
  have "task_view (run_end (unk_of w f s) lc oid (d_gate s)) =
      (?rest, if ?rest = [] then True else g_idle (d_gate s), g_sending (d_gate s), g_quiet (d_gate s))"
    using leave_exclusive_task [of "unk_of w f s" oid]
    by (simp add: run_end_def Let_def task_part_view) (simp add: task_view_def)
  with ds_finish show ?case
    by (auto simp: tasks_ok_def Let_def run_finish_def task_view_def)
next
  case (ds_observe s i c fr)
  have "calm s (call_observe w fr i c s)" by (simp add: call_observe_def) (simp add: calm_def)
  with ds_observe show ?case using calm_tasks by blast
next
  case (ds_begin c s)
  have "calm s (call_begin c s)" by (simp add: calm_def call_begin_def)
  with ds_begin show ?case using calm_tasks by blast
next
  case (ds_lost s i c fr fr')
  have "calm s (call_lost w fr (unk_of w fr' s) i c s)" by (simp add: call_lost_def still_calm [OF still_finish])
  with ds_lost show ?case using calm_tasks by blast
next
  case (ds_take s i c g)
  have "calm s (goto i PSlot (s\<lparr>d_gate := g\<rparr>))"
    using ds_take.hyps(2) by simp (simp add: calm_def)
  with ds_take show ?case using calm_tasks by blast
next
  case (ds_env s d)
  have "calm s (s\<lparr>d_db := d\<rparr>)" by (simp add: calm_def)
  with ds_env show ?case using calm_tasks by blast
next
  case (ds_idle s i c)
  have "calm s (goto i PArmed s)" by simp (simp add: calm_def)
  with ds_idle show ?case using calm_tasks by blast
next
  case (ds_wake s i c)
  have "calm s (goto i PWait s)" by simp (simp add: calm_def)
  with ds_wake show ?case using calm_tasks by blast
next
  case (ds_wait_cancelled s i c p)
  have "calm s (goto i (PUnsent ''cancelled_before_send'' True) s)" by simp (simp add: calm_def)
  with ds_wait_cancelled show ?case using calm_tasks by blast
qed (rule calm_tasks, rule still_calm, rule insert_still insert_cancelled_still admit_still
      wait_still failed_still look_still unsent_still checkpoint_still, assumption)+

section \<open>Slots\<close>

lemma count_where_update:
  "i < length xs \<Longrightarrow> count_where P (xs[i := y]) + (if P (xs ! i) then 1 else 0)
     = count_where P xs + (if P y then 1 else 0)"
  unfolding count_where_def
proof (induction xs arbitrary: i)
  case Nil
  then show ?case by simp
next
  case (Cons x xs)
  then show ?case by (cases i) auto
qed

lemma count_where_snoc: "count_where P (xs @ [y]) = count_where P xs + (if P y then 1 else 0)"
  by (simp add: count_where_def)

abbreviation holding :: "disp \<Rightarrow> nat" where
  "holding s \<equiv> count_where (\<lambda>c. c_phase c = PSlot) (d_calls s)"

definition slots_ok :: "nat \<Rightarrow> disp \<Rightarrow> bool" where
  "slots_ok n s \<longleftrightarrow> g_slots (d_gate s) + holding s + length (g_admitted (d_gate s)) = n"

lemma holding_goto: "at_phase s i c p \<Longrightarrow>
    holding (goto i q s) + (if p = PSlot then 1 else 0) = holding s + (if q = PSlot then 1 else 0)"
  using count_where_update [of i "d_calls s" "\<lambda>c. c_phase c = PSlot" "(d_calls s ! i)\<lparr>c_phase := q\<rparr>"]
  by (auto simp: goto_def at_phase_def)

text \<open>The calls after each step: one call at another phase.\<close>

lemma calls_goto [simp]: "d_calls (goto i q (s\<lparr>d_gate := g\<rparr>)) = d_calls (goto i q s)"
  "d_calls (goto i q (s\<lparr>d_db := d\<rparr>)) = d_calls (goto i q s)"
  "d_calls (goto i q (s\<lparr>d_gate := g, d_db := d\<rparr>)) = d_calls (goto i q s)"
  "d_calls (goto i q (s\<lparr>d_gate := g, d_db := d, d_runs := r\<rparr>)) = d_calls (goto i q s)"
  by (simp_all add: goto_def)

lemma finish_call_calls [simp]: "d_calls (finish_call i unk c a g d s) = d_calls (goto i (PDone a) s)"
  by (simp add: finish_call_def)

lemma insert_calls: "\<exists>q. d_calls (call_insert w f now unk i c s) = d_calls (goto i q s)
    \<and> (q = PLost \<or> (\<exists>a. q = PDone a) \<or> q = (if c_life c then PIdle else PWait))"
  by (auto simp: call_insert_def split: prod.splits sum.splits option.splits)

lemma insert_cancelled_calls: "d_calls (call_insert_cancelled w f now unk i c s) =
    d_calls (goto i (if c_life c then PDone CallCancelled else PUnsent ''cancelled_before_send'' True) s)"
  by (simp add: call_insert_cancelled_def Let_def)

lemma admit_calls: "\<exists>q. d_calls (call_admit i c s) = d_calls (goto i q s) \<and> q \<noteq> PSlot"
  by (auto simp: call_admit_def split: prod.splits option.splits)

lemma wait_calls: "\<exists>q. d_calls (call_wait expired i c s) = d_calls (goto i q s) \<and> q \<noteq> PSlot"
  by (auto simp: call_wait_def split: prod.splits option.splits)

lemma observe_calls: "\<exists>q. d_calls (call_observe w fr i c s) = d_calls (goto i q s) \<and> q \<noteq> PSlot"
  by (auto simp: call_observe_def split: sum.splits option.splits)

lemma look_calls: "\<exists>q. d_calls (call_look w fr unk i c s) = d_calls (goto i q s) \<and> q \<noteq> PSlot"
  by (auto simp: call_look_def split: sum.splits)

lemma slots_still:
  assumes "still s t" and "at_phase s i c p" and "d_calls t = d_calls (goto i q s)"
    and "p \<noteq> PSlot" and "q \<noteq> PSlot" and "slots_ok n s"
  shows "slots_ok n t"
  using assms holding_goto [OF assms(2), of q] by (simp add: slots_ok_def still_def task_part_def)

lemma promote_refused:
  assumes eq: "(if c_life c
         then exclusive_locked w f now host (c_op c) (c_prov c) (c_epoch c) (d_gate s) (d_db s)
         else promote_locked w f now host (c_op c) (c_prov c) (d_gate s) (d_db s)) = (pr, g, d)"
    and "pr \<noteq> Created"
  shows "\<exists>q. call_promote w f now host cancelled unk i c s
       = goto i q (s\<lparr>d_gate := release_slot g, d_db := d\<rparr>)
     \<and> (q = PLook \<and> \<not> c_life c \<or> (\<exists>r. q = PUnsent r False) \<or> (\<exists>a. q = PFailed a)) \<and> q \<noteq> PSlot"
proof (cases pr)
  case (NotCreated r)
  then show ?thesis
    by (intro exI [of _ "if r = ''not_promoted'' \<and> \<not> c_life c then PLook else PUnsent r False"])
       (simp add: call_promote_def eq)
next
  case (PromotionRaised e)
  then show ?thesis
    by (intro exI [of _ "PFailed (if cancelled then CallCancelled else Raised e)"])
       (simp add: call_promote_def eq)
qed (use assms(2) in simp)

lemma length_filter_neq: "distinct xs \<Longrightarrow> x \<in> set xs \<Longrightarrow>
    length (filter (\<lambda>y. y \<noteq> x) xs) + 1 = length xs"
proof (induction xs)
  case (Cons a xs)
  show ?case
  proof (cases "a = x")
    case True
    with Cons.prems have "filter (\<lambda>y. y \<noteq> x) xs = xs" by (intro filter_True) auto
    with True show ?thesis by simp
  next
    case False
    with Cons show ?thesis by simp
  qed
qed simp

lemma slots_step:
  assumes "disp_step w s t" and "hist w s" and "tasks_ok s" and "slots_ok n s"
  shows "slots_ok n t"
  using assms
proof (induction rule: disp_step.induct)
  case (ds_gate f s g)
  from gate_op_task [OF ds_gate.hyps] ds_gate.prems(3) show ?case
    by (simp add: slots_ok_def task_part_def)
next
  case (ds_env s d)
  then show ?case by (simp add: slots_ok_def)
next
  case (ds_begin c s)
  then show ?case by (simp add: slots_ok_def call_begin_def count_where_snoc)
next
  case (ds_observe s i c fr)
  have "still s (call_observe w fr i c s)" by (simp add: call_observe_def) (simp add: still_def)
  with observe_calls [of w fr i c s] ds_observe show ?case using slots_still by blast
next
  case (ds_admit s i c)
  from admit_calls [of i c s] obtain q where q: "d_calls (call_admit i c s) = d_calls (goto i q s)" "q \<noteq> PSlot" by blast
  show ?case by (rule slots_still [OF admit_still ds_admit.hyps q(1) _ q(2) ds_admit.prems(3)]) simp
next
  case (ds_insert s i c f now fr)
  from insert_calls [of w f now "unk_of w fr s" i c s] obtain q where
    q: "d_calls (call_insert w f now (unk_of w fr s) i c s) = d_calls (goto i q s)" "q \<noteq> PSlot"
    by (auto split: if_splits)
  show ?case by (rule slots_still [OF insert_still ds_insert.hyps q(1) _ q(2) ds_insert.prems(3)]) simp
next
  case (ds_insert_cancelled s i c f now fr)
  show ?case
    by (rule slots_still [OF insert_cancelled_still ds_insert_cancelled.hyps insert_cancelled_calls
          _ _ ds_insert_cancelled.prems(3)]) simp_all
next
  case (ds_lost s i c fr fr')
  show ?case unfolding call_lost_def
    by (rule slots_still [OF still_finish ds_lost.hyps finish_call_calls _ _ ds_lost.prems(3)]) simp_all
next
  case (ds_wait s i c expired)
  from wait_calls [of expired i c s] obtain q where q: "d_calls (call_wait expired i c s) = d_calls (goto i q s)" "q \<noteq> PSlot" by blast
  show ?case by (rule slots_still [OF wait_still ds_wait.hyps(1) q(1) _ q(2) ds_wait.prems(3)]) simp
next
  case (ds_idle s i c)
  then show ?case using holding_goto [OF ds_idle.hyps(1), of PArmed] by (simp add: slots_ok_def)
next
  case (ds_take s i c g)
  have "g_admitted g = g_admitted (d_gate s)" using slot_view(3) [OF ds_take.hyps(2)] by (simp add: task_view_def)
  then show ?case
    using holding_goto [OF ds_take.hyps(1), of PSlot] slot_view(4) [OF ds_take.hyps(2)] ds_take.prems(3)
    by (simp add: slots_ok_def)
next
  case (ds_wake s i c)
  then show ?case using holding_goto [OF ds_wake.hyps(1), of PWait] by (simp add: slots_ok_def)
next
  case (ds_wait_cancelled s i c p)
  then show ?case using holding_goto [OF ds_wait_cancelled.hyps(1), of "PUnsent ''cancelled_before_send'' True"]
    by (auto simp: slots_ok_def)
next
  case (ds_promote s i c cancelled f now host fr)
  obtain pr g d where eq: "(if c_life c
         then exclusive_locked w f now host (c_op c) (c_prov c) (c_epoch c) (d_gate s) (d_db s)
         else promote_locked w f now host (c_op c) (c_prov c) (d_gate s) (d_db s)) = (pr, g, d)"
    by (metis prod.exhaust)
  note hold = holding_goto [OF ds_promote.hyps(1)]
  show ?case
  proof (cases "pr = Created")
    case True
    let ?g = "if c_life c then g else leave_queue (c_op c) g"
    have "g = admit_task (c_op c) (d_gate s)" using promotion_tasks [OF eq] True by simp
    then have "g_slots ?g = g_slots (d_gate s)" "g_admitted ?g = g_admitted (d_gate s) @ [c_op c]"
      by (simp_all add: admit_task_def leave_queue_def)
    then show ?thesis
      unfolding promote_created [OF eq [unfolded True]]
      using hold [of "PDone Attempted"] ds_promote.prems(3) by (simp add: slots_ok_def)
  next
    case False
    with promotion_tasks [OF eq] refusing_task have "task_part g = task_part (d_gate s)" by auto
    then have g: "g_slots g = g_slots (d_gate s)" "g_admitted g = g_admitted (d_gate s)"
      by (simp_all add: task_part_def)
    obtain q where q: "q \<noteq> PSlot"
      "call_promote w f now host cancelled (unk_of w fr s) i c s
         = goto i q (s\<lparr>d_gate := release_slot g, d_db := d\<rparr>)"
      using promote_refused [OF eq False] by blast
    show ?thesis
      using hold [of q] g q ds_promote.prems(3) by (simp add: slots_ok_def release_slot_def)
  qed
next
  case (ds_failed s i c a fr f now fr')
  have "d_calls (call_failed w fr f now (unk_of w fr' s) i c a s) = d_calls (goto i (PDone a) s)"
    by (simp add: call_failed_def split: prod.splits)
  from slots_still [OF failed_still ds_failed.hyps this _ _ ds_failed.prems(3)] show ?case by simp
next
  case (ds_look s i c fr fr')
  from look_calls [of w fr "unk_of w fr' s" i c s] obtain q where
    q: "d_calls (call_look w fr (unk_of w fr' s) i c s) = d_calls (goto i q s)" "q \<noteq> PSlot" by blast
  show ?case by (rule slots_still [OF look_still ds_look.hyps q(1) _ q(2) ds_look.prems(3)]) simp
next
  case (ds_unsent s i c r b f now fr)
  have "\<exists>a. d_calls (call_unsent w f now (unk_of w fr s) i c r b s) = d_calls (goto i (PDone a) s)"
    by (auto simp: call_unsent_def split: prod.splits)
  then obtain a where a: "d_calls (call_unsent w f now (unk_of w fr s) i c r b s) = d_calls (goto i (PDone a) s)" ..
  show ?case by (rule slots_still [OF unsent_still ds_unsent.hyps a _ _ ds_unsent.prems(3)]) simp_all
next
  case (ds_start s oid r)
  then show ?case by (simp add: slots_ok_def run_start_def set_run_def start_sender_def)
next
  case (ds_checkpoint s oid r f obs)
  from checkpoint_still [of s w f oid obs] ds_checkpoint.prems(3) show ?case
    by (auto simp: slots_ok_def still_def task_part_def run_checkpoint_def split: prod.splits)
next
  case (ds_relay_end s oid r e)
  then show ?case by (simp add: slots_ok_def run_relay_end_def set_run_def stop_sender_def Let_def)
next
  case (ds_settle s oid r out)
  have "task_part (settle_begin oid out (d_gate s)) = task_part (d_gate s)"
    by (simp add: settle_begin_def)
  with ds_settle.prems(3) show ?case
    by (simp add: slots_ok_def run_settle_def set_run_def task_part_def)
next
  case (ds_commit s oid r out lc f now)
  obtain st g d where e: "settle_try w f now oid out (d_gate s) (d_db s) = (st, g, d)"
    by (metis prod.exhaust)
  from settle_task [OF e] ds_commit.prems(3) show ?case
    by (simp add: slots_ok_def run_commit_def e set_run_def task_part_def)
next
  case (ds_finish s oid r out lc f)
  let ?adm = "g_admitted (d_gate s)" and ?g = "run_end (unk_of w f s) lc oid (d_gate s)"
  have g: "g_slots ?g = g_slots (d_gate s) + 1" "g_admitted ?g = filter (\<lambda>x. x \<noteq> oid) ?adm"
    using leave_exclusive_task [of "unk_of w f s" oid] by (auto simp: run_end_def Let_def task_part_def)
  have "distinct ?adm" "oid \<in> set ?adm"
    using ds_finish.prems(2) ds_finish.hyps(1) by (auto simp: tasks_ok_def Let_def)
  then have "length (filter (\<lambda>x. x \<noteq> oid) ?adm) + 1 = length ?adm"
    by (rule length_filter_neq)
  with g ds_finish.prems(3) show ?case by (simp add: slots_ok_def run_finish_def)
qed

end
