(* ===== verification/Dispatch_Exclusive.thy ===== *)
theory Dispatch_Exclusive
  imports Dispatch_Tasks
begin

text \<open>
  A lifecycle operation has the node to itself: who holds \<open>_exclusive\<close>, and what else can be
  admitted meanwhile.
\<close>

section \<open>The exclusive hold\<close>

definition ex_part :: "gate \<Rightarrow> string option \<times> (string \<rightharpoonup> int)" where
  "ex_part g = (g_exclusive g, g_restoring g)"

named_theorems ex_frames "gate functions that keep the exclusive hold"

lemma close_ex [ex_frames]: "ex_part (close_locked st g) = ex_part g"
  by (simp add: close_locked_def ex_part_def)

lemma freeze_ex [ex_frames]: "ex_part (freeze_locked ep g) = ex_part g"
  by (simp add: freeze_locked_def ex_part_def)

lemma reopen_locked_ex [ex_frames]: "ex_part (snd (reopen_locked unk g)) = ex_part g"
  by (auto simp: reopen_locked_def Let_def ex_part_def split: sum.splits)

lemma gate_op_ex: "gate_op unk g g' \<Longrightarrow> ex_part g' = ex_part g"
proof (induction rule: gate_op.induct)
  case (go_drain g)
  then show ?case using close_ex [of DRAINING "g\<lparr>g_held := True\<rparr>"] by (simp add: drain_def ex_part_def)
next
  case (go_reopen g)
  then show ?case using reopen_locked_ex [of unk "g\<lparr>g_held := False\<rparr>"] by (simp add: reopen_def ex_part_def)
next
  case (go_thaw g)
  then show ?case
    using reopen_locked_ex [of unk "g\<lparr>g_frozen := False, g_frozen_epoch := None, g_interrupted := {}\<rparr>"]
    by (auto simp: thaw_def Let_def ex_part_def)
next
  case (go_recheck g)
  then show ?case by (simp add: recheck_drain_def reopen_locked_ex)
next
  case (go_interrupt g ops g')
  then show ?case by (auto simp: interrupt_def ex_part_def split: if_splits)
qed (simp_all add: block_def lose_role_def freeze_def ex_frames)

lemma leave_queue_ex [ex_frames]: "ex_part (leave_queue oid g) = ex_part g"
  by (simp add: leave_queue_def ex_part_def)

lemma admit_queue_ex [ex_frames]: "ex_part (snd (admit_queue oid k g)) = ex_part g"
  by (simp add: admit_queue_def ex_part_def)

lemma wait_head_ex [ex_frames]: "ex_part (snd (wait_head x g)) = ex_part g"
  by (simp add: wait_head_def ex_part_def)

lemma refusing_ex: "refusing g g' \<Longrightarrow> ex_part g' = ex_part g"
  by (auto simp: refusing_def ex_frames) (simp add: ex_part_def)

lemma slot_ex [ex_frames]: "ex_part (release_slot g) = ex_part g"
  by (simp add: release_slot_def ex_part_def)

lemma take_slot_ex: "take_slot g = Some g' \<Longrightarrow> ex_part g' = ex_part g"
  unfolding take_slot_def by (cases "g_slots g > 0") (simp_all add: ex_part_def, force)

lemma uncommitted_ex: "ex_part (g\<lparr>g_uncommitted := u\<rparr>) = ex_part g"
  by (simp add: ex_part_def)

lemma end_exclusive_ex: "ex_part (end_exclusive unk oid g) =
    (if g_exclusive g = Some oid then None else g_exclusive g, g_restoring g)"
proof (cases "g_exclusive g = Some oid")
  case True
  have "ex_part (g\<lparr>g_exclusive := None\<rparr>) = (None, g_restoring g)" by (simp add: ex_part_def)
  with True show ?thesis
    using reopen_locked_ex [of unk "g\<lparr>g_exclusive := None\<rparr>"] by (simp add: end_exclusive_def Let_def)
next
  case False
  then show ?thesis by (simp add: end_exclusive_def ex_part_def)
qed

lemma leave_exclusive_ex: "ex_part (leave_exclusive unk oid g) =
    (if g_exclusive g = Some oid then None else g_exclusive g, (g_restoring g)(oid := None))"
  by (simp add: leave_exclusive_def end_exclusive_ex)

section \<open>The invariant\<close>

definition active :: "caller \<Rightarrow> bool" where
  "active c \<longleftrightarrow> c_life c \<and> (case c_phase c of PObserve \<Rightarrow> False | PAdmit \<Rightarrow> False
     | PDone _ \<Rightarrow> False | _ \<Rightarrow> True)"

definition known :: "disp \<Rightarrow> (string \<times> bool) set" where
  "known s = (\<lambda>c. (c_op c, c_life c)) ` set (d_calls s)"

definition ids_ok :: "disp \<Rightarrow> bool" where
  "ids_ok s \<longleftrightarrow> (\<forall>oid a b. (oid, a) \<in> known s \<longrightarrow> (oid, b) \<in> known s \<longrightarrow> a = b)
     \<and> (\<forall>c \<in> set (d_calls s). (c_life c \<or> c_kind c \<in> set SUBMIT_KINDS)
          \<and> (c_life c \<longrightarrow> (\<exists>a. c_phase c = PDone a) \<or> lifecycle_kind (c_epoch c) (c_kind c)))
     \<and> (\<forall>oid r. d_runs s oid = Some r \<longrightarrow> (oid, r_life r) \<in> known s
          \<and> (r_life r \<or> r_kind r \<in> set SUBMIT_KINDS))
     \<and> (\<forall>oid. g_restoring (d_gate s) oid \<noteq> None \<longrightarrow> (oid, True) \<in> known s)"

definition life_ok :: "disp \<Rightarrow> bool" where
  "life_ok s \<longleftrightarrow> (\<forall>i < length (d_calls s). active (d_calls s ! i) \<longrightarrow>
        g_exclusive (d_gate s) = Some (c_op (d_calls s ! i))
        \<and> (c_phase (d_calls s ! i) \<in> {PArmed, PSlot} \<longrightarrow> g_admitted (d_gate s) = [])
        \<and> (c_epoch (d_calls s ! i) \<noteq> None \<longrightarrow> g_restoring (d_gate s) (c_op (d_calls s ! i)) \<noteq> None))
     \<and> (\<forall>i < length (d_calls s). \<forall>j < length (d_calls s).
          active (d_calls s ! i) \<longrightarrow> active (d_calls s ! j) \<longrightarrow> i = j)
     \<and> (\<forall>oid r. d_runs s oid = Some r \<longrightarrow> r_life r \<longrightarrow>
          g_exclusive (d_gate s) = Some oid \<and> g_admitted (d_gate s) = [oid]
          \<and> (\<forall>i < length (d_calls s). \<not> active (d_calls s ! i))
          \<and> (r_kind r \<in> set LIFECYCLE_KINDS \<or> g_restoring (d_gate s) oid \<noteq> None))
     \<and> (\<forall>oid r out lc. d_runs s oid = Some r \<longrightarrow>
          r_phase r = RCommit out lc \<or> r_phase r = RAfter out lc \<longrightarrow> lc = r_life r)"

lemma submit_not_lifecycle: "k \<in> set SUBMIT_KINDS \<Longrightarrow> k \<notin> set LIFECYCLE_KINDS"
  by (auto simp: SUBMIT_KINDS_def LIFECYCLE_KINDS_def)

lemma submit_run_plain:
  assumes "ids_ok s" and "d_runs s oid = Some r" and "\<not> r_life r"
  shows "\<not> run_lifecycle (r_kind r) oid (d_gate s)"
proof -
  have "g_restoring (d_gate s) oid = None"
    using assms unfolding ids_ok_def by (metis)
  moreover have "r_kind r \<in> set SUBMIT_KINDS" using assms by (auto simp: ids_ok_def)
  ultimately show ?thesis by (simp add: run_lifecycle_def submit_not_lifecycle)
qed

lemma known_goto: "at_phase s i c p \<Longrightarrow> known (goto i q s) = known s"
proof -
  assume "at_phase s i c p"
  then have "i < length (d_calls s)" by (simp add: at_phase_def)
  then have "map (\<lambda>c. (c_op c, c_life c)) (d_calls (goto i q s)) = map (\<lambda>c. (c_op c, c_life c)) (d_calls s)"
    by (simp add: goto_def map_update list_update_same_conv)
  then show ?thesis unfolding known_def set_map [symmetric] by (rule arg_cong [where f = set])
qed

lemma ids_ok_cong: "d_calls t = d_calls s \<Longrightarrow> d_runs t = d_runs s \<Longrightarrow>
    ex_part (d_gate t) = ex_part (d_gate s) \<Longrightarrow> ids_ok s \<Longrightarrow> ids_ok t"
  by (simp add: ids_ok_def known_def ex_part_def)

lemma life_ok_cong: "d_calls t = d_calls s \<Longrightarrow> d_runs t = d_runs s \<Longrightarrow>
    ex_part (d_gate t) = ex_part (d_gate s) \<Longrightarrow> g_admitted (d_gate t) = g_admitted (d_gate s) \<Longrightarrow>
    life_ok s \<Longrightarrow> life_ok t"
  by (simp add: life_ok_def ex_part_def)

text \<open>A call moves from one phase to another.\<close>

lemma ids_ok_goto:
  assumes "ids_ok s" and "at_phase s i c p" and "\<And>a. p \<noteq> PDone a"
  shows "ids_ok (goto i q s)"
proof -
  have mem: "c' \<in> set (d_calls s) \<or> c' = c\<lparr>c_phase := q\<rparr>" if "c' \<in> set (d_calls (goto i q s))" for c'
    using that assms(2) set_update_subset_insert [of "d_calls s" i "c\<lparr>c_phase := q\<rparr>"]
    by (auto simp: goto_def at_phase_def)
  have "c \<in> set (d_calls s)" "c_phase c = p" using assms(2) by (auto simp: at_phase_def)
  with assms(1,3) have "(c_life c \<or> c_kind c \<in> set SUBMIT_KINDS) \<and> (c_life c \<longrightarrow> lifecycle_kind (c_epoch c) (c_kind c))"
    unfolding ids_ok_def by blast
  with mem assms(1) show ?thesis
    unfolding ids_ok_def known_goto [OF assms(2)] by (fastforce simp: goto_def)
qed

lemma life_ok_goto:
  assumes ok: "life_ok s" and at: "at_phase s i c p"
    and act: "active (c\<lparr>c_phase := q\<rparr>) \<Longrightarrow> active c"
    and arm: "c_life c \<Longrightarrow> q \<in> {PArmed, PSlot} \<Longrightarrow> p \<in> {PArmed, PSlot} \<or> g_admitted (d_gate s) = []"
  shows "life_ok (goto i q s)"
proof -
  let ?cs = "d_calls (goto i q s)"
  have i: "i < length (d_calls s)" "d_calls s ! i = c" "c_phase c = p" using at by (auto simp: at_phase_def)
  have nth: "?cs ! j = (if i = j then c\<lparr>c_phase := q\<rparr> else d_calls s ! j)" if "j < length (d_calls s)" for j
    using i that by (simp add: goto_def nth_list_update)
  have len: "length ?cs = length (d_calls s)" by (simp add: goto_def)
  have was: "active (d_calls s ! j)" "c_op (?cs ! j) = c_op (d_calls s ! j)"
    "c_epoch (?cs ! j) = c_epoch (d_calls s ! j)"
    "c_phase (?cs ! j) \<in> {PArmed, PSlot} \<Longrightarrow>
       c_phase (d_calls s ! j) \<in> {PArmed, PSlot} \<or> g_admitted (d_gate s) = []"
    if "j < length (d_calls s)" "active (?cs ! j)" for j
    using that act arm i by (auto simp: nth active_def split: if_splits)
  have "\<forall>j < length ?cs. active (?cs ! j) \<longrightarrow> g_exclusive (d_gate s) = Some (c_op (?cs ! j))
        \<and> (c_phase (?cs ! j) \<in> {PArmed, PSlot} \<longrightarrow> g_admitted (d_gate s) = [])
        \<and> (c_epoch (?cs ! j) \<noteq> None \<longrightarrow> g_restoring (d_gate s) (c_op (?cs ! j)) \<noteq> None)"
    using ok was unfolding life_ok_def len by metis
  moreover have "\<forall>j < length ?cs. \<forall>k < length ?cs. active (?cs ! j) \<longrightarrow> active (?cs ! k) \<longrightarrow> j = k"
    using ok was(1) unfolding life_ok_def len by blast
  moreover have "(\<forall>j < length (d_calls s). \<not> active (d_calls s ! j)) \<Longrightarrow> \<forall>j < length ?cs. \<not> active (?cs ! j)"
    using was(1) unfolding len by blast
  ultimately show ?thesis using ok unfolding life_ok_def by simp
qed

definition excl :: "disp \<Rightarrow> bool" where
  "excl s \<longleftrightarrow> ids_ok s \<and> life_ok s"

lemma excl_cong: "d_calls t = d_calls s \<Longrightarrow> d_runs t = d_runs s \<Longrightarrow>
    ex_part (d_gate t) = ex_part (d_gate s) \<Longrightarrow> g_admitted (d_gate t) = g_admitted (d_gate s) \<Longrightarrow>
    excl s \<Longrightarrow> excl t"
  using ids_ok_cong [of t s] life_ok_cong [of t s] by (simp add: excl_def)

lemma excl_move:
  assumes "excl s" and "at_phase s i c p" and "\<And>a. p \<noteq> PDone a"
    and "ex_part g = ex_part (d_gate s)" and "task_part g = task_part (d_gate s)"
    and "active (c\<lparr>c_phase := q\<rparr>) \<Longrightarrow> active c"
    and "c_life c \<Longrightarrow> q \<in> {PArmed, PSlot} \<Longrightarrow> p \<in> {PArmed, PSlot} \<or> g_admitted (d_gate s) = []"
  shows "excl (goto i q (s\<lparr>d_gate := g, d_db := d\<rparr>))"
proof -
  have ok: "excl (goto i q s)"
    using assms ids_ok_goto [of s i c p q] life_ok_goto [of s i c p q] by (simp add: excl_def)
  have adm: "g_admitted g = g_admitted (d_gate s)" using assms(5) by (simp add: task_part_def)
  show ?thesis
    by (rule excl_cong [where s = "goto i q s"]) (simp_all add: adm assms(4) ok)
qed

text \<open>The end of an exclusive call that holds the node gives the hold back.\<close>

lemma excl_finish_life:
  assumes ok: "excl s" and at: "at_phase s i c p" and act: "active c"
    and g: "ex_part g = ex_part (d_gate s)"
  shows "excl (finish_call i unk c a g d s)"
proof -
  let ?t = "finish_call i unk c a g d s"
  have i: "i < length (d_calls s)" "d_calls s ! i = c" "c_phase c = p" using at by (auto simp: at_phase_def)
  have p: "p \<noteq> PDone x" for x using act i by (auto simp: active_def)
  have hold: "g_exclusive (d_gate s) = Some (c_op c)" using ok act i by (auto simp: excl_def life_ok_def)
  then have ex: "g_exclusive (d_gate ?t) = None"
    "g_restoring (d_gate ?t) = (g_restoring (d_gate s))(c_op c := None)"
    using leave_exclusive_ex [of unk "c_op c" g] g act
    by (simp_all add: finish_call_def leave_call_def active_def ex_part_def)
  have only: "\<not> active (d_calls ?t ! j)" if "j < length (d_calls ?t)" for j
  proof (cases "j = i")
    case True
    with i show ?thesis by (simp add: goto_def active_def)
  next
    case False
    then have nth: "d_calls ?t ! j = d_calls s ! j" by (simp add: goto_def)
    have "j < length (d_calls s)" using that by (simp add: goto_def)
    with False nth ok act i show ?thesis unfolding excl_def life_ok_def by metis
  qed
  have runs: "d_runs ?t = d_runs s" by (simp add: finish_call_def)
  have none: "\<not> r_life r" if "d_runs s oid = Some r" for oid r
    using ok act i that unfolding excl_def life_ok_def by metis
  have "ids_ok (goto i (PDone a) s)" using ok at p by (auto simp: excl_def intro: ids_ok_goto)
  then have "ids_ok ?t"
    unfolding ids_ok_def ex runs by (simp add: known_def)
  moreover have "life_ok ?t"
  proof -
    have "lc = r_life r" if "d_runs s oid = Some r" "r_phase r = RCommit out lc \<or> r_phase r = RAfter out lc"
      for oid r out lc
      using ok that unfolding excl_def life_ok_def by blast
    with only none show ?thesis unfolding life_ok_def runs by blast
  qed
  ultimately show ?thesis by (simp add: excl_def)
qed

lemma excl_finish:
  assumes "excl s" and "at_phase s i c p" and "active c \<or> \<not> c_life c" and "\<And>a. p \<noteq> PDone a"
    and "ex_part g = ex_part (d_gate s)" and "task_part g = task_part (d_gate s)"
  shows "excl (finish_call i unk c a g d s)"
proof (cases "c_life c")
  case True
  with assms excl_finish_life show ?thesis by blast
next
  case False
  have "task_part (leave_queue (c_op c) g) = task_part (d_gate s)"
    "ex_part (leave_queue (c_op c) g) = ex_part (d_gate s)"
    using assms(5,6) by (simp_all add: leave_queue_ex)
  with assms False show ?thesis
    unfolding finish_call_def leave_call_def if_not_P [OF False]
    by (intro excl_move) (auto simp: active_def)
qed

text \<open>A free gate has no exclusive call or lifecycle task.\<close>

lemma free_gate:
  assumes "excl s" and "g_exclusive (d_gate s) = None"
  shows "j < length (d_calls s) \<Longrightarrow> \<not> active (d_calls s ! j)"
    and "d_runs s oid = Some r \<Longrightarrow> \<not> r_life r"
  using assms unfolding excl_def life_ok_def by auto

lemma active_at:
  assumes "excl s" and "at_phase s i c p" and "active c"
  shows "g_exclusive (d_gate s) = Some (c_op c)"
    and "p \<in> {PArmed, PSlot} \<Longrightarrow> g_admitted (d_gate s) = []"
    and "c_epoch c \<noteq> None \<Longrightarrow> g_restoring (d_gate s) (c_op c) \<noteq> None"
    and "j < length (d_calls s) \<Longrightarrow> active (d_calls s ! j) \<Longrightarrow> j = i"
    and "d_runs s oid = Some r \<Longrightarrow> \<not> r_life r"
  using assms unfolding excl_def life_ok_def at_phase_def by metis+

lemma excl_take:
  assumes ok: "excl s" and modes: "gate_modes (d_gate s)" and at: "at_phase s i c PAdmit" and life: "c_life c"
    and t: "take_exclusive (c_op c) (c_epoch c) (d_gate s) = (None, g)"
  shows "excl (goto i PInsert (s\<lparr>d_gate := g\<rparr>))"
proof -
  let ?t = "goto i PInsert (s\<lparr>d_gate := g\<rparr>)"
  have i: "i < length (d_calls s)" "d_calls s ! i = c" "c_phase c = PAdmit" using at by (auto simp: at_phase_def)
  have free: "g_exclusive (d_gate s) = None"
    using t modes by (auto simp: take_exclusive_def restorable_locked_def gate_modes_def split: option.splits if_splits)
  have ex: "g_exclusive g = Some (c_op c)"
    "g_restoring g = (case c_epoch c of None \<Rightarrow> g_restoring (d_gate s)
        | Some e \<Rightarrow> (g_restoring (d_gate s))(c_op c \<mapsto> e))"
    using t close_ex [of DRAINING "d_gate s\<lparr>g_exclusive := Some (c_op c)\<rparr>"]
    by (auto simp: take_exclusive_def ex_part_def split: option.splits if_splits)
  note none = free_gate [OF ok free]
  have nth: "d_calls ?t ! j = (if i = j then c\<lparr>c_phase := PInsert\<rparr> else d_calls s ! j)"
    "length (d_calls ?t) = length (d_calls s)" if "j < length (d_calls s)" for j
    using i that by (simp_all add: goto_def nth_list_update)
  have only: "j = i" if "j < length (d_calls ?t)" "active (d_calls ?t ! j)" for j
    using that none(1) nth by (auto simp: goto_def split: if_splits)
  have "ids_ok (goto i PInsert s)" using ok at by (auto simp: excl_def intro: ids_ok_goto)
  moreover have "(c_op c, True) \<in> known s" using i life by (force simp: known_def)
  moreover have "known ?t = known s" using known_goto [OF at, of PInsert] by (simp add: known_def)
  moreover have "(oid, True) \<in> known s" if "g_restoring g oid \<noteq> None" for oid
  proof (cases "oid = c_op c")
    case False
    with that have "g_restoring (d_gate s) oid \<noteq> None" by (auto simp: ex split: option.splits)
    then show ?thesis using ok unfolding excl_def ids_ok_def by blast
  qed (use \<open>(c_op c, True) \<in> known s\<close> in simp)
  ultimately have "ids_ok ?t"
    unfolding ids_ok_def by (simp add: known_goto [OF at])
  moreover have "life_ok ?t"
  proof -
    have me: "d_calls ?t ! i = c\<lparr>c_phase := PInsert\<rparr>" using nth(1) [OF i(1)] by simp
    have A: "\<forall>j < length (d_calls ?t). active (d_calls ?t ! j) \<longrightarrow>
        g_exclusive (d_gate ?t) = Some (c_op (d_calls ?t ! j))
        \<and> (c_phase (d_calls ?t ! j) \<in> {PArmed, PSlot} \<longrightarrow> g_admitted (d_gate ?t) = [])
        \<and> (c_epoch (d_calls ?t ! j) \<noteq> None \<longrightarrow> g_restoring (d_gate ?t) (c_op (d_calls ?t ! j)) \<noteq> None)"
    proof (intro allI impI)
      fix j assume "j < length (d_calls ?t)" "active (d_calls ?t ! j)"
      then have "j = i" by (rule only)
      then show "g_exclusive (d_gate ?t) = Some (c_op (d_calls ?t ! j))
        \<and> (c_phase (d_calls ?t ! j) \<in> {PArmed, PSlot} \<longrightarrow> g_admitted (d_gate ?t) = [])
        \<and> (c_epoch (d_calls ?t ! j) \<noteq> None \<longrightarrow> g_restoring (d_gate ?t) (c_op (d_calls ?t ! j)) \<noteq> None)"
        using me by (auto simp: ex)
    qed
    moreover have "lc = r_life r" if "d_runs s oid = Some r" "r_phase r = RCommit out lc \<or> r_phase r = RAfter out lc"
      for oid r out lc
      using ok that unfolding excl_def life_ok_def by blast
    ultimately show ?thesis using only none(2) unfolding life_ok_def by simp metis
  qed
  ultimately show ?thesis by (simp add: excl_def)
qed

lemma excl_runD:
  assumes "excl s" and "d_runs s oid = Some r"
  shows "(oid, r_life r) \<in> known s" and "r_life r \<or> r_kind r \<in> set SUBMIT_KINDS"
    and "r_life r \<Longrightarrow> g_exclusive (d_gate s) = Some oid"
    and "r_life r \<Longrightarrow> g_admitted (d_gate s) = [oid]"
    and "r_life r \<Longrightarrow> i < length (d_calls s) \<Longrightarrow> \<not> active (d_calls s ! i)"
    and "r_life r \<Longrightarrow> r_kind r \<in> set LIFECYCLE_KINDS \<or> g_restoring (d_gate s) oid \<noteq> None"
    and "r_phase r = RCommit out lc \<or> r_phase r = RAfter out lc \<Longrightarrow> lc = r_life r"
  using assms unfolding excl_def ids_ok_def life_ok_def by blast+

lemma excl_set_run:
  assumes ok: "excl s" and r: "d_runs s oid = Some r"
    and lc: "\<And>out lc. p = RCommit out lc \<or> p = RAfter out lc \<Longrightarrow> lc = r_life r"
    and g: "ex_part g = ex_part (d_gate s)" "task_view g = (g_admitted (d_gate s), x, y, z)"
  shows "excl (set_run oid p r (s\<lparr>d_gate := g, d_db := d, d_sent := st\<rparr>))"
proof -
  let ?t = "set_run oid p r (s\<lparr>d_gate := g, d_db := d, d_sent := st\<rparr>)"
  have eq: "d_calls ?t = d_calls s" "known ?t = known s" "g_exclusive (d_gate ?t) = g_exclusive (d_gate s)"
    "g_restoring (d_gate ?t) = g_restoring (d_gate s)" "g_admitted (d_gate ?t) = g_admitted (d_gate s)"
    using g by (simp_all add: set_run_def known_def ex_part_def task_view_def)
  have run: "\<exists>r0. d_runs s o' = Some r0 \<and> r_life r' = r_life r0 \<and> r_kind r' = r_kind r0
      \<and> (o' \<noteq> oid \<longrightarrow> r' = r0) \<and> (o' = oid \<longrightarrow> r_phase r' = p)"
    if "d_runs ?t o' = Some r'" for o' r'
    using that r by (auto simp: set_run_def split: if_splits)
  have "ids_ok ?t"
  proof -
    have "(o', r_life r') \<in> known s \<and> (r_life r' \<or> r_kind r' \<in> set SUBMIT_KINDS)"
      if a: "d_runs ?t o' = Some r'" for o' r'
    proof -
      obtain r0 where r0: "d_runs s o' = Some r0" "r_life r' = r_life r0" "r_kind r' = r_kind r0"
        using run [OF a] by blast
      from excl_runD(1,2) [OF ok r0(1)] show ?thesis by (simp add: r0)
    qed
    with ok show ?thesis unfolding excl_def ids_ok_def eq by blast
  qed
  moreover have "lc = r_life r'" if "d_runs ?t o' = Some r'" "r_phase r' = RCommit out lc \<or> r_phase r' = RAfter out lc"
    for o' r' out lc
  proof (cases "o' = oid")
    case True
    with run [OF that(1)] that(2) lc r show ?thesis by auto
  next
    case False
    with run [OF that(1)] that(2) ok show ?thesis unfolding excl_def life_ok_def by metis
  qed
  moreover have "g_exclusive (d_gate s) = Some o' \<and> g_admitted (d_gate s) = [o']
      \<and> (\<forall>i < length (d_calls s). \<not> active (d_calls s ! i))
      \<and> (r_kind r' \<in> set LIFECYCLE_KINDS \<or> g_restoring (d_gate s) o' \<noteq> None)"
    if a: "d_runs ?t o' = Some r'" "r_life r'" for o' r'
  proof -
    obtain r0 where r0: "d_runs s o' = Some r0" "r_life r' = r_life r0" "r_kind r' = r_kind r0"
      using run [OF a(1)] by blast
    with a(2) have "r_life r0" by simp
    with excl_runD(3,4,5,6) [OF ok r0(1)] show ?thesis by (simp add: r0)
  qed
  ultimately have "life_ok ?t" using ok unfolding excl_def life_ok_def eq by blast
  with \<open>ids_ok ?t\<close> show ?thesis by (simp add: excl_def)
qed

lemma excl_created:
  assumes ok: "excl s" and modes: "gate_modes (d_gate s)" and at: "at_phase s i c PSlot"
    and eq: "(if c_life c
         then exclusive_locked w f now host (c_op c) (c_prov c) (c_epoch c) (d_gate s) (d_db s)
         else promote_locked w f now host (c_op c) (c_prov c) (d_gate s) (d_db s)) = (Created, g, d)"
  shows "excl (call_promote w f now host cancelled unk i c s)"
proof -
  let ?t = "call_promote w f now host cancelled unk i c s"
  have i: "i < length (d_calls s)" "d_calls s ! i = c" "c_phase c = PSlot" using at by (auto simp: at_phase_def)
  have g: "g = admit_task (c_op c) (d_gate s)" using promotion_tasks [OF eq] by simp
  note t = promote_created [OF eq, of cancelled unk i]
  have known: "known ?t = known s"
    using known_goto [OF at, of "PDone Attempted"] by (simp add: t known_def)
  have gate: "g_exclusive (d_gate ?t) = g_exclusive (d_gate s)"
    "g_restoring (d_gate ?t) = g_restoring (d_gate s)"
    "g_admitted (d_gate ?t) = g_admitted (d_gate s) @ [c_op c]"
    by (simp_all add: t g admit_task_def leave_queue_def)
  have runs: "d_runs ?t = (d_runs s)(c_op c \<mapsto> \<lparr>r_kind = c_kind c, r_life = c_life c, r_phase = RReady\<rparr>)"
    by (simp add: t)
  have mem: "c \<in> set (d_calls s)" "(c_op c, c_life c) \<in> known s" using i by (auto simp: known_def)
  have kind: "c_life c \<or> c_kind c \<in> set SUBMIT_KINDS" "c_life c \<Longrightarrow> lifecycle_kind (c_epoch c) (c_kind c)"
    using ok mem(1) i(3) unfolding excl_def ids_ok_def by (metis phase.distinct)+
  have calls: "d_calls ?t = d_calls (goto i (PDone Attempted) s)" by (simp add: t)
  have inactive: "\<not> active (d_calls ?t ! j)" if "j < length (d_calls ?t)" for j
  proof (cases "j = i")
    case True
    with i show ?thesis by (simp add: calls goto_def active_def)
  next
    case False
    then have nth: "d_calls ?t ! j = d_calls s ! j" "j < length (d_calls s)"
      using that by (simp_all add: calls goto_def)
    show ?thesis
    proof (cases "c_life c")
      case True
      with i have "active c" by (simp add: active_def)
      from active_at(4) [OF ok at this nth(2)] nth False show ?thesis by auto
    next
      case no: False
      have "g_state (d_gate s) = SERVING"
        using eq no by (auto simp: promote_locked_def split: if_splits)
      with modes have "g_exclusive (d_gate s) = None" by (auto simp: gate_modes_def)
      from free_gate(1) [OF ok this] nth show ?thesis by simp
    qed
  qed
  have others: "\<not> r_life r" if "d_runs s oid = Some r" for oid r
  proof (cases "c_life c")
    case True
    with i have "active c" by (simp add: active_def)
    from active_at(5) [OF ok at this that] show ?thesis .
  next
    case False
    have "g_state (d_gate s) = SERVING"
      using eq False by (auto simp: promote_locked_def split: if_splits)
    with modes have "g_exclusive (d_gate s) = None" by (auto simp: gate_modes_def)
    from free_gate(2) [OF ok this that] show ?thesis .
  qed
  have "ids_ok (goto i (PDone Attempted) s)" using ok at by (auto simp: excl_def intro: ids_ok_goto)
  then have "ids_ok ?t"
    using mem kind(1) unfolding ids_ok_def known known_goto [OF at] calls gate runs by auto
  moreover have "life_ok ?t"
  proof -
    have mine: "g_exclusive (d_gate s) = Some (c_op c) \<and> g_admitted (d_gate s) = []
        \<and> (c_kind c \<in> set LIFECYCLE_KINDS \<or> g_restoring (d_gate s) (c_op c) \<noteq> None)" if "c_life c"
    proof -
      from that i have act: "active c" by (simp add: active_def)
      from active_at(1-3) [OF ok at act] kind(2) [OF that] show ?thesis
        by (auto simp: lifecycle_kind_def split: if_splits)
    qed
    have "lc = r_life r" if "d_runs ?t oid = Some r" "r_phase r = RCommit out lc \<or> r_phase r = RAfter out lc"
      for oid r out lc
    proof (cases "oid = c_op c")
      case True
      with that show ?thesis by (auto simp: runs)
    next
      case False
      with that ok show ?thesis unfolding excl_def life_ok_def runs by simp metis
    qed
    moreover have "g_exclusive (d_gate ?t) = Some oid \<and> g_admitted (d_gate ?t) = [oid]
        \<and> (r_kind r \<in> set LIFECYCLE_KINDS \<or> g_restoring (d_gate ?t) oid \<noteq> None)"
      if "d_runs ?t oid = Some r" "r_life r" for oid r
      using that others mine by (auto simp: runs gate split: if_splits)
    ultimately show ?thesis using inactive unfolding life_ok_def by blast
  qed
  ultimately show ?thesis by (simp add: excl_def)
qed

lemma excl_run_finish:
  assumes ok: "excl s" and tasks: "tasks_ok s" and r: "d_runs s oid = Some r" "r_phase r = RAfter out lc"
  shows "excl (run_finish unk oid lc s)"
proof -
  let ?t = "run_finish unk oid lc s"
  have lc: "lc = r_life r" using ok r unfolding excl_def life_ok_def by metis
  have calls: "d_calls ?t = d_calls s" "known ?t = known s" "d_runs ?t = (d_runs s)(oid := None)"
    by (simp_all add: run_finish_def known_def)
  let ?g1 = "(d_gate s)\<lparr>g_slots := g_slots (d_gate s) + 1, g_admitted := filter (\<lambda>x. x \<noteq> oid) (g_admitted (d_gate s)),
        g_summary := (if g_summary (d_gate s) = Some oid then None else g_summary (d_gate s)),
        g_idle := (if filter (\<lambda>x. x \<noteq> oid) (g_admitted (d_gate s)) = [] then True else g_idle (d_gate s))\<rparr>"
  have gate: "d_gate ?t = (if lc then leave_exclusive unk oid ?g1 else ?g1)"
    by (simp add: run_finish_def run_end_def Let_def)
  have adm: "g_admitted (d_gate ?t) = filter (\<lambda>x. x \<noteq> oid) (g_admitted (d_gate s))"
    using leave_exclusive_task [of unk oid ?g1] by (simp add: gate task_part_def)
  have ex: "ex_part (d_gate ?t) = (if lc then
      (if g_exclusive (d_gate s) = Some oid then None else g_exclusive (d_gate s), (g_restoring (d_gate s))(oid := None))
      else ex_part (d_gate s))"
    using leave_exclusive_ex [of unk oid ?g1] by (simp add: gate ex_part_def)
  have none: "\<not> r_life r'" if "d_runs ?t o' = Some r'" for o' r'
  proof
    assume l: "r_life r'"
    from that have o': "o' \<noteq> oid" "d_runs s o' = Some r'" by (auto simp: calls split: if_splits)
    from excl_runD(4) [OF ok o'(2) l] have "g_admitted (d_gate s) = [o']" .
    with tasks have "dom (d_runs s) = {o'}" by (auto simp: tasks_ok_def Let_def)
    moreover have "oid \<in> dom (d_runs s)" using r(1) by (rule domI)
    ultimately show False using o'(1) by simp
  qed
  have keep: "g_exclusive (d_gate ?t) = g_exclusive (d_gate s) \<and> g_restoring (d_gate ?t) = g_restoring (d_gate s)"
    if "\<not> lc" using ex that by (simp add: ex_part_def)
  have "ids_ok ?t"
  proof -
    have "g_restoring (d_gate s) o' \<noteq> None" if "g_restoring (d_gate ?t) o' \<noteq> None" for o'
      using that ex by (cases lc) (auto simp: ex_part_def split: if_splits)
    moreover have "d_runs s o' = Some r'" if "d_runs ?t o' = Some r'" for o' r'
      using that by (simp add: calls split: if_splits)
    ultimately show ?thesis using ok unfolding excl_def ids_ok_def calls(1,2) by blast
  qed
  moreover have "life_ok ?t"
  proof -
    have act: "\<not> active (d_calls s ! j)" if "j < length (d_calls s)" "lc" for j
      using ok r that lc unfolding excl_def life_ok_def by metis
    have "lc' = r_life r'" if "d_runs ?t o' = Some r'" "r_phase r' = RCommit out' lc' \<or> r_phase r' = RAfter out' lc'"
      for o' r' out' lc'
    proof -
      have "d_runs s o' = Some r'" using that(1) by (simp add: calls split: if_splits)
      from excl_runD(7) [OF ok this that(2)] show ?thesis .
    qed
    moreover have "g_exclusive (d_gate ?t) = Some (c_op (d_calls s ! j))
        \<and> (c_phase (d_calls s ! j) \<in> {PArmed, PSlot} \<longrightarrow> g_admitted (d_gate ?t) = [])
        \<and> (c_epoch (d_calls s ! j) \<noteq> None \<longrightarrow> g_restoring (d_gate ?t) (c_op (d_calls s ! j)) \<noteq> None)"
      if "j < length (d_calls s)" "active (d_calls s ! j)" for j
    proof -
      have "\<not> lc" using act that by blast
      with keep that ok show ?thesis unfolding excl_def life_ok_def adm by (metis filter.simps(1))
    qed
    moreover have "j = k" if "j < length (d_calls s)" "k < length (d_calls s)"
      "active (d_calls s ! j)" "active (d_calls s ! k)" for j k
      using ok that unfolding excl_def life_ok_def by blast
    ultimately show ?thesis using none unfolding life_ok_def calls(1) by blast
  qed
  ultimately show ?thesis by (simp add: excl_def)
qed

end
