(* ===== verification/Dispatch_Safety.thy ===== *)
theory Dispatch_Safety
  imports Dispatch_Exclusive
begin

text \<open>
  The exclusive hold and the uncommitted unknowns over every step, and the invariant of the
  whole process with its interpretation.
\<close>

section \<open>The exclusive hold over every step\<close>

lemma excl_move_db:
  assumes "excl s" and "at_phase s i c p" and "\<And>a. p \<noteq> PDone a"
    and "active (c\<lparr>c_phase := q\<rparr>) \<Longrightarrow> active c"
    and "c_life c \<Longrightarrow> q \<in> {PArmed, PSlot} \<Longrightarrow> p \<in> {PArmed, PSlot} \<or> g_admitted (d_gate s) = []"
  shows "excl (goto i q (s\<lparr>d_db := d\<rparr>))"
  using excl_move [OF assms(1-3) refl refl assms(4,5), where d = d] by simp

lemma excl_move_gate:
  assumes "excl s" and "at_phase s i c p" and "\<And>a. p \<noteq> PDone a"
    and "ex_part g = ex_part (d_gate s)" and "task_part g = task_part (d_gate s)"
    and "active (c\<lparr>c_phase := q\<rparr>) \<Longrightarrow> active c"
    and "c_life c \<Longrightarrow> q \<in> {PArmed, PSlot} \<Longrightarrow> p \<in> {PArmed, PSlot} \<or> g_admitted (d_gate s) = []"
  shows "excl (goto i q (s\<lparr>d_gate := g\<rparr>))"
  using excl_move [OF assms, where d = "d_db s"] by simp

lemma active_phase: "at_phase s i c p \<Longrightarrow> c_life c \<Longrightarrow> p \<notin> {PObserve, PAdmit} \<Longrightarrow> (\<And>a. p \<noteq> PDone a) \<Longrightarrow> active c"
  by (auto simp: at_phase_def active_def split: phase.splits)

lemma lose_ex [simp]: "ex_part (lose_role g) = ex_part g"
  by (simp add: lose_role_def close_ex)

lemma excl_insert:
  assumes ok: "excl s" and at: "at_phase s i c PInsert"
  shows "excl (call_insert w f now unk i c s)"
proof (cases "call_store f (call_insert_txn w now c) (d_db s)")
  case (Pair x d)
  have act: "active c \<or> \<not> c_life c" using active_phase [OF at] by auto
  have fin: "excl (finish_call i unk c a g d s)" if "g = d_gate s \<or> g = lose_role (d_gate s)" for a g
    using ok at act that by (intro excl_finish) auto
  have "active (c\<lparr>c_phase := q\<rparr>) \<Longrightarrow> active c" for q using act by (auto simp: active_def)
  then have mv: "excl (goto i q (s\<lparr>d_db := d\<rparr>))" if "q = PLost \<or> q = PIdle \<or> q = PWait" for q
    using that by (intro excl_move_db [OF ok at]) auto
  show ?thesis
    using fin mv by (auto simp: call_insert_def Pair split: sum.splits option.splits)
qed

lemma excl_insert_cancelled:
  assumes ok: "excl s" and at: "at_phase s i c PInsert"
  shows "excl (call_insert_cancelled w f now unk i c s)"
proof (cases "c_life c")
  case True
  with active_phase [OF at] have "active c" by auto
  then have "excl (finish_call i unk c CallCancelled (d_gate s) d s)" for d
    using ok at by (intro excl_finish) auto
  with True show ?thesis by (simp add: call_insert_cancelled_def Let_def)
next
  case False
  have "excl (goto i (PUnsent ''cancelled_before_send'' True) (s\<lparr>d_db := d\<rparr>))" for d
    using False by (intro excl_move_db [OF ok at]) (auto simp: active_def)
  with False show ?thesis by (simp add: call_insert_cancelled_def Let_def)
qed

lemma excl_admit:
  assumes ok: "excl s" and modes: "gate_modes (d_gate s)" and at: "at_phase s i c PAdmit"
  shows "excl (call_admit i c s)"
proof (cases "c_life c")
  case True
  obtain r g where t: "take_exclusive (c_op c) (c_epoch c) (d_gate s) = (r, g)" by (metis prod.exhaust)
  show ?thesis
  proof (cases r)
    case None
    with excl_take [OF ok modes at True] t True show ?thesis by (simp add: call_admit_def)
  next
    case (Some a)
    with t have "g = d_gate s" by (auto simp: take_exclusive_def split: option.splits if_splits)
    with Some t True show ?thesis
      using excl_move_gate [OF ok at, of "d_gate s" "PDone a"] by (simp add: call_admit_def active_def)
  qed
next
  case False
  obtain r g where t: "admit_queue (c_op c) (c_kind c) (d_gate s) = (r, g)" by (metis prod.exhaust)
  have "ex_part g = ex_part (d_gate s)" "task_part g = task_part (d_gate s)"
    using admit_queue_ex [of "c_op c" "c_kind c" "d_gate s"] admit_queue_task [of "c_op c" "c_kind c" "d_gate s"]
    by (simp_all add: t)
  with False t show ?thesis
    using excl_move_gate [OF ok at, of g "case r of Some a \<Rightarrow> PDone a | None \<Rightarrow> PInsert"]
    by (auto simp: call_admit_def active_def)
qed

lemma excl_promote:
  assumes ok: "excl s" and modes: "gate_modes (d_gate s)" and at: "at_phase s i c PSlot"
  shows "excl (call_promote w f now host cancelled unk i c s)"
proof -
  obtain pr g d where eq: "(if c_life c
         then exclusive_locked w f now host (c_op c) (c_prov c) (c_epoch c) (d_gate s) (d_db s)
         else promote_locked w f now host (c_op c) (c_prov c) (d_gate s) (d_db s)) = (pr, g, d)"
    by (metis prod.exhaust)
  show ?thesis
  proof (cases "pr = Created")
    case True
    from excl_created [OF ok modes at eq [unfolded True]] show ?thesis .
  next
    case False
    with promotion_tasks [OF eq] have r: "refusing (d_gate s) g" by simp
    from promote_refused [OF eq False, of cancelled unk i] obtain q where
      q: "call_promote w f now host cancelled unk i c s = goto i q (s\<lparr>d_gate := release_slot g, d_db := d\<rparr>)"
      "q = PLook \<and> \<not> c_life c \<or> (\<exists>r. q = PUnsent r False) \<or> (\<exists>a. q = PFailed a)" by blast
    have "excl (goto i q (s\<lparr>d_gate := g, d_db := d\<rparr>))"
      using q(2) active_phase [OF at] refusing_ex [OF r] refusing_task [OF r]
      by (intro excl_move [OF ok at]) (auto simp: active_def)
    then show ?thesis unfolding q(1)
      by (rule excl_cong [rotated 4]) (simp_all add: slot_ex, simp add: release_slot_def)
  qed
qed

lemma excl_step:
  assumes "disp_step w s t" and "gate_modes (d_gate s)" and "tasks_ok s" and "excl s"
  shows "excl t"
  using assms
proof (induction rule: disp_step.induct)
  case (ds_gate f s g)
  show ?case
    by (rule excl_cong [OF _ _ _ _ ds_gate.prems(3)])
       (use gate_op_ex [OF ds_gate.hyps] gate_op_task [OF ds_gate.hyps] in \<open>simp_all add: task_part_def\<close>)
next
  case (ds_env s d)
  show ?case by (rule excl_cong [OF _ _ _ _ ds_env.prems(3)]) simp_all
next
  case (ds_begin c s)
  let ?c = "c\<lparr>c_phase := (if c_life c \<and> \<not> lifecycle_kind (c_epoch c) (c_kind c)
                        then PDone (NotLifecycle (c_kind c)) else PObserve)\<rparr>"
  let ?t = "call_begin c s"
  have "\<not> active ?c" by (simp add: active_def)
  then have "life_ok ?t"
    using ds_begin.prems(3) unfolding excl_def life_ok_def call_begin_def
    by (auto simp: nth_append less_Suc_eq)
  moreover have "known ?t = insert (c_op c, c_life c) (known s)" by (simp add: known_def call_begin_def)
  then have "ids_ok ?t"
    using ds_begin.hyps ds_begin.prems(3) unfolding excl_def ids_ok_def
    by (auto simp: call_begin_def call_ok_def known_def list_all_iff)
  ultimately show ?case by (simp add: excl_def)
next
  case (ds_observe s i c fr)
  have "excl (goto i q s)" if "(\<exists>a. q = PDone a) \<or> q = PAdmit" for q
    using that excl_move_gate [OF ds_observe.prems(3) ds_observe.hyps, of "d_gate s" q]
    by (auto simp: active_def)
  then show ?case by (auto simp: call_observe_def split: sum.splits option.splits)
next
  case (ds_admit s i c)
  then show ?case by (simp add: excl_admit)
next
  case (ds_insert s i c f now fr)
  then show ?case by (simp add: excl_insert)
next
  case (ds_insert_cancelled s i c f now fr)
  then show ?case by (simp add: excl_insert_cancelled)
next
  case (ds_lost s i c fr fr')
  then show ?case unfolding call_lost_def
    by (intro excl_finish [OF ds_lost.prems(3) ds_lost.hyps]) (use active_phase [OF ds_lost.hyps] in auto)
next
  case (ds_wait s i c expired)
  obtain r g where w: "wait_head expired (d_gate s) = (r, g)" by (metis prod.exhaust)
  have "ex_part g = ex_part (d_gate s)" "task_part g = task_part (d_gate s)"
    using wait_head_ex [of expired "d_gate s"] wait_head_task [of expired "d_gate s"] by (simp_all add: w)
  then show ?case
    using excl_move_gate [OF ds_wait.prems(3) ds_wait.hyps(1), of g] ds_wait.hyps(2)
    by (auto simp: call_wait_def w active_def split: option.splits)
next
  case (ds_idle s i c)
  have "g_admitted (d_gate s) = []" using ds_idle by (simp add: tasks_ok_def Let_def)
  then show ?case
    using excl_move_gate [OF ds_idle.prems(3) ds_idle.hyps(1), of "d_gate s" PArmed]
      active_phase [OF ds_idle.hyps(1)] by (auto simp: active_def)
next
  case (ds_take s i c g)
  have "active (c\<lparr>c_phase := PSlot\<rparr>) \<Longrightarrow> active c"
    using active_phase [OF ds_take.hyps(1)] by (auto simp: active_def)
  then have "excl (goto i PSlot s)"
    using excl_move_gate [OF ds_take.prems(3) ds_take.hyps(1), of "d_gate s" PSlot] by simp
  moreover have "g_admitted g = g_admitted (d_gate s)"
    using slot_view(3) [OF ds_take.hyps(2)] by (simp add: task_view_def)
  ultimately show ?case
    using take_slot_ex [OF ds_take.hyps(2)] by (intro excl_cong [OF _ _ _ _ \<open>excl (goto i PSlot s)\<close>]) simp_all
next
  case (ds_wake s i c)
  then show ?case
    using excl_move_gate [OF ds_wake.prems(3) ds_wake.hyps(1), of "d_gate s" PWait] by (auto simp: active_def)
next
  case (ds_wait_cancelled s i c p)
  then show ?case
    using excl_move_gate [OF ds_wait_cancelled.prems(3) ds_wait_cancelled.hyps(1), of "d_gate s" "PUnsent ''cancelled_before_send'' True"]
      active_phase [OF ds_wait_cancelled.hyps(1)] by (auto simp: active_def)
next
  case (ds_promote s i c cancelled f now host fr)
  then show ?case by (simp add: excl_promote)
next
  case (ds_failed s i c a fr f now fr')
  obtain g d where e: "unsent_after_failed_promotion w fr f now (c_op c) (c_kind c) (d_gate s) (d_db s) = (g, d)"
    by (metis prod.exhaust)
  have "ex_part g = ex_part (d_gate s)" "task_part g = task_part (d_gate s)"
    using failed_promotion_cases [OF e] by (auto simp: close_ex uncommitted_ex)
  then show ?case unfolding call_failed_def e Let_def prod.case
    by (intro excl_finish [OF ds_failed.prems(3) ds_failed.hyps]) (use active_phase [OF ds_failed.hyps] in auto)
next
  case (ds_look s i c fr fr')
  have "excl (finish_call i unk c a (d_gate s) d s)" for unk a d
    by (rule excl_finish [OF ds_look.prems(3) ds_look.hyps]) (use active_phase [OF ds_look.hyps] in auto)
  moreover have "excl (goto i (PUnsent ''node_blocked'' False) s)"
    using excl_move_gate [OF ds_look.prems(3) ds_look.hyps, of "d_gate s" "PUnsent ''node_blocked'' False"]
      active_phase [OF ds_look.hyps] by (auto simp: active_def)
  ultimately show ?case by (auto simp: call_look_def split: sum.splits)
next
  case (ds_unsent s i c r b f now fr)
  obtain a g d where e: "unsent w f now (c_op c) (c_kind c) r (d_gate s) (d_db s) = (a, g, d)"
    by (metis prod.exhaust)
  have "ex_part g = ex_part (d_gate s)" "task_part g = task_part (d_gate s)"
    using unsent_cases [OF e] by auto
  then show ?case unfolding call_unsent_def e Let_def prod.case
    by (intro excl_finish [OF ds_unsent.prems(3) ds_unsent.hyps]) (use active_phase [OF ds_unsent.hyps] in auto)
next
  case (ds_start s oid r)
  have run: "excl (set_run oid p r (s\<lparr>d_gate := g, d_db := d_db s, d_sent := st\<rparr>))"
    if "p = RSending \<or> (\<exists>out. p = RSettle out)" "ex_part g = ex_part (d_gate s)"
      "g_admitted g = g_admitted (d_gate s)" for p g st
    by (rule excl_set_run [OF ds_start.prems(3) ds_start.hyps(1) _ that(2)]) (use that in \<open>auto simp: task_view_def\<close>)
  have sent: "ex_part (start_sender oid (d_gate s)) = ex_part (d_gate s)"
    "g_admitted (start_sender oid (d_gate s)) = g_admitted (d_gate s)"
    by (simp_all add: start_sender_def ex_part_def)
  show ?case
    using run [of "RSettle (Withheld ''maintenance_before_send'')" "d_gate s" "d_sent s"]
      run [OF _ sent, of RSending "d_sent s @ [oid]"]
    by (simp add: run_start_def)
next
  case (ds_checkpoint s oid r f obs)
  obtain g d where e: "sink_checkpoint w f oid obs (d_gate s) (d_db s) = (g, d)"
    by (metis prod.exhaust)
  from sink_checkpoint_cases [OF e] have "ex_part g = ex_part (d_gate s)" by auto
  then show ?case unfolding run_checkpoint_def e Let_def prod.case
    by (intro excl_cong [OF _ _ _ _ ds_checkpoint.prems(3)])
       (use sink_task [OF e] in \<open>auto simp: task_part_def\<close>)
next
  case (ds_relay_end s oid r e)
  have g: "ex_part (stop_sender oid (d_gate s)) = ex_part (d_gate s)"
    "g_admitted (stop_sender oid (d_gate s)) = g_admitted (d_gate s)"
    by (simp_all add: stop_sender_def Let_def ex_part_def)
  have "excl (set_run oid (RSettle (relay_outcome oid e (d_gate s))) r
      (s\<lparr>d_gate := stop_sender oid (d_gate s), d_db := d_db s, d_sent := d_sent s\<rparr>))"
    by (rule excl_set_run [OF ds_relay_end.prems(3) ds_relay_end.hyps(1) _ g(1)])
       (use g in \<open>auto simp: task_view_def\<close>)
  then show ?case by (simp add: run_relay_end_def)
next
  case (ds_settle s oid r out)
  let ?g = "settle_begin oid out (d_gate s)"
  have g: "ex_part ?g = ex_part (d_gate s)" "task_part ?g = task_part (d_gate s)"
    by (simp_all add: settle_begin_def close_ex uncommitted_ex)
  have lc: "run_lifecycle (r_kind r) oid (d_gate s) = r_life r"
  proof (cases "r_life r")
    case True
    with excl_runD(6) [OF ds_settle.prems(3) ds_settle.hyps(1)] show ?thesis by (simp add: run_lifecycle_def)
  next
    case False
    with submit_run_plain [of s oid r] ds_settle show ?thesis by (simp add: excl_def)
  qed
  have "excl (set_run oid (RCommit out (r_life r)) r (s\<lparr>d_gate := ?g, d_db := d_db s, d_sent := d_sent s\<rparr>))"
    by (rule excl_set_run [OF ds_settle.prems(3) ds_settle.hyps(1) _ g(1)])
       (use g(2) in \<open>auto simp: task_view_def task_part_def\<close>)
  then show ?case by (simp add: run_settle_def lc)
next
  case (ds_commit s oid r out lc f now)
  obtain st g d where e: "settle_try w f now oid out (d_gate s) (d_db s) = (st, g, d)"
    by (metis prod.exhaust)
  have g: "ex_part g = ex_part (d_gate s)"
    using settle_try_cases [OF e] by (auto simp: uncommitted_ex)
  have lc: "lc = r_life r" using excl_runD(7) [OF ds_commit.prems(3) ds_commit.hyps(1)] ds_commit.hyps(2) by blast
  have "excl (set_run oid (if st = Settled then RAfter out lc else RCommit out lc) r
      (s\<lparr>d_gate := g, d_db := d, d_sent := d_sent s\<rparr>))"
    by (rule excl_set_run [OF ds_commit.prems(3) ds_commit.hyps(1) _ g])
       (use settle_task [OF e] lc in \<open>auto simp: task_view_def task_part_def split: if_splits\<close>)
  then show ?case by (simp add: run_commit_def e)
next
  case (ds_finish s oid r out lc f)
  then show ?case using excl_run_finish [OF ds_finish.prems(3,2) ds_finish.hyps] by simp
qed

section \<open>Uncommitted unknowns and the lost role\<close>

text \<open>
  Two things every block keeps: the uncommitted unknowns never shrink but by the commit of the
  operation itself, and a lost role stays lost.
\<close>

definition keeps :: "gate \<Rightarrow> gate \<Rightarrow> bool" where
  "keeps g h \<longleftrightarrow> g_uncommitted g \<subseteq> g_uncommitted h \<and> (g_state g = LOST \<longrightarrow> g_state h = LOST)"

lemma keeps_refl [simp]: "keeps g g"
  by (simp add: keeps_def)

lemma keeps_trans: "keeps g h \<Longrightarrow> keeps h k \<Longrightarrow> keeps g k"
  by (auto simp: keeps_def)

lemma keeps_same: "g_uncommitted h = g_uncommitted g \<Longrightarrow> g_state h = g_state g \<Longrightarrow> keeps g h"
  by (simp add: keeps_def)

lemma close_keeps: "keeps g (close_locked st g)"
  by (simp add: keeps_def close_locked_def)

lemma blocked_keeps: "keeps g (close_locked BLOCKED (g\<lparr>g_uncommitted := insert oid (g_uncommitted g)\<rparr>))"
  by (auto simp: keeps_def close_locked_def)

lemma freeze_keeps: "keeps g (freeze_locked ep g)"
  by (simp add: keeps_def freeze_locked_def)

lemma reopen_keeps: "keeps g (snd (reopen_locked unk g))"
  by (auto simp: keeps_def reopen_locked_def Let_def split: sum.splits)

lemma end_exclusive_keeps: "keeps g (end_exclusive unk oid g)"
  using reopen_keeps [of "g\<lparr>g_exclusive := None\<rparr>" unk]
  by (simp add: end_exclusive_def Let_def keeps_def)

lemma leave_exclusive_keeps: "keeps g (leave_exclusive unk oid g)"
  using end_exclusive_keeps [of "g\<lparr>g_restoring := (g_restoring g)(oid := None)\<rparr>" unk oid]
  by (simp add: leave_exclusive_def keeps_def)

lemma leave_call_keeps: "keeps g (leave_call unk c g)"
  by (simp add: leave_call_def leave_exclusive_keeps) (simp add: leave_queue_def keeps_def)

lemma lose_keeps: "keeps g (lose_role g)"
  by (simp add: lose_role_def close_keeps)

lemma gate_op_keeps: "gate_op unk g g' \<Longrightarrow> keeps g g'"
proof (induction rule: gate_op.induct)
  case (go_drain g)
  then show ?case using close_keeps [of "g\<lparr>g_held := True\<rparr>" DRAINING] by (simp add: drain_def keeps_def)
next
  case (go_reopen g)
  then show ?case using reopen_keeps [of "g\<lparr>g_held := False\<rparr>" unk] by (simp add: reopen_def keeps_def)
next
  case (go_thaw g)
  then show ?case
    using reopen_keeps [of "g\<lparr>g_frozen := False, g_frozen_epoch := None, g_interrupted := {}\<rparr>" unk]
    by (auto simp: thaw_def Let_def keeps_def)
next
  case (go_recheck g)
  then show ?case by (simp add: recheck_drain_def reopen_keeps)
next
  case (go_interrupt g ops g')
  then show ?case by (auto simp: interrupt_def keeps_def split: if_splits)
qed (simp_all add: block_def lose_role_def freeze_def close_keeps freeze_keeps)

lemma refusing_keeps: "refusing g g' \<Longrightarrow> keeps g g'"
  by (auto simp: refusing_def freeze_keeps) (simp add: keeps_def)

lemma finish_call_keeps: "keeps (d_gate s) g \<Longrightarrow> keeps (d_gate s) (d_gate (finish_call i unk c a g d s))"
  using keeps_trans [OF _ leave_call_keeps] by (simp add: finish_call_def)

lemma run_end_keeps: "keeps g (run_end unk lc oid g)"
proof -
  have "keeps g (g\<lparr>g_slots := a, g_admitted := b, g_summary := c, g_idle := e\<rparr>)" for a b c e
    by (simp add: keeps_def)
  then show ?thesis using keeps_trans [OF _ leave_exclusive_keeps] by (simp add: run_end_def Let_def)
qed

text \<open>Every step keeps both, the commit of an uncertain outcome apart.\<close>

lemma step_keeps:
  assumes "disp_step w s t"
  shows "keeps (d_gate s) (d_gate t)
    \<or> (\<exists>oid r out lc f now. d_runs s oid = Some r \<and> r_phase r = RCommit out lc
        \<and> (\<exists>r'. d_runs t oid = Some r' \<and> r_phase r' = RAfter out lc)
        \<and> g_state (d_gate t) = g_state (d_gate s)
        \<and> g_uncommitted (d_gate t) = g_uncommitted (d_gate s) - {oid}
        \<and> (\<forall>o'. o' \<noteq> oid \<longrightarrow> d_runs t o' = d_runs s o'))"
  using assms
proof (induction rule: disp_step.induct)
  case (ds_gate f s g)
  then show ?case using gate_op_keeps by auto
next
  case (ds_admit s i c)
  have "keeps (d_gate s) (snd (take_exclusive (c_op c) (c_epoch c) (d_gate s)))"
    by (auto simp: take_exclusive_def keeps_def restorable_locked_def close_locked_def split: option.splits)
  moreover have "keeps (d_gate s) (snd (admit_queue (c_op c) (c_kind c) (d_gate s)))"
    by (simp add: admit_queue_def keeps_def)
  ultimately show ?case by (auto simp: call_admit_def split: prod.splits)
next
  case (ds_insert s i c f now fr)
  then show ?case
    by (auto simp: call_insert_def split: prod.splits sum.splits option.splits intro: finish_call_keeps lose_keeps)
next
  case (ds_insert_cancelled s i c f now fr)
  then show ?case by (auto simp: call_insert_cancelled_def Let_def intro: finish_call_keeps)
next
  case (ds_lost s i c fr fr')
  then show ?case by (auto simp: call_lost_def intro: finish_call_keeps)
next
  case (ds_wait s i c expired)
  have "keeps (d_gate s) (snd (wait_head expired (d_gate s)))" by (simp add: wait_head_def keeps_def)
  then show ?case by (auto simp: call_wait_def split: prod.splits)
next
  case (ds_take s i c g)
  have "keeps (d_gate s) g" using ds_take.hyps(2) unfolding take_slot_def
    by (cases "g_slots (d_gate s) > 0") (simp_all add: keeps_def, force)
  then show ?case by simp
next
  case (ds_promote s i c cancelled f now host fr)
  obtain pr g d where eq: "(if c_life c
         then exclusive_locked w f now host (c_op c) (c_prov c) (c_epoch c) (d_gate s) (d_db s)
         else promote_locked w f now host (c_op c) (c_prov c) (d_gate s) (d_db s)) = (pr, g, d)"
    by (metis prod.exhaust)
  show ?case
  proof (cases "pr = Created")
    case True
    then have g: "g = admit_task (c_op c) (d_gate s)" using promotion_tasks [OF eq] by simp
    have "keeps (d_gate s) (if c_life c then g else leave_queue (c_op c) g)"
      by (simp add: g keeps_def admit_task_def leave_queue_def)
    then show ?thesis using promote_created [OF eq [unfolded True]] by simp
  next
    case False
    with promotion_tasks [OF eq] have "keeps (d_gate s) g" by (simp add: refusing_keeps)
    then have "keeps (d_gate s) (release_slot g)" by (simp add: release_slot_def keeps_def)
    then show ?thesis using promote_refused [OF eq False, of cancelled "unk_of w fr s" i] by auto
  qed
next
  case (ds_failed s i c a fr f now fr')
  then show ?case
    by (auto simp: call_failed_def split: prod.splits dest!: failed_promotion_cases
        intro!: finish_call_keeps blocked_keeps)
next
  case (ds_look s i c fr fr')
  then show ?case by (auto simp: call_look_def split: sum.splits intro: finish_call_keeps)
next
  case (ds_unsent s i c r b f now fr)
  then show ?case
    by (auto simp: call_unsent_def split: prod.splits dest!: unsent_cases intro!: finish_call_keeps lose_keeps)
next
  case (ds_start s oid r)
  then show ?case by (auto simp: run_start_def set_run_def start_sender_def keeps_def)
next
  case (ds_checkpoint s oid r f obs)
  then show ?case
    by (auto simp: run_checkpoint_def split: prod.splits dest!: sink_checkpoint_cases intro: lose_keeps)
next
  case (ds_relay_end s oid r e)
  then show ?case by (auto simp: run_relay_end_def set_run_def stop_sender_def Let_def keeps_def)
next
  case (ds_settle s oid r out)
  then show ?case by (auto simp: run_settle_def set_run_def settle_begin_def intro: blocked_keeps)
next
  case (ds_commit s oid r out lc f now)
  obtain st g d where e: "settle_try w f now oid out (d_gate s) (d_db s) = (st, g, d)"
    by (metis prod.exhaust)
  from settle_try_cases [OF e] consider "g = d_gate s" | "g = lose_role (d_gate s)"
    | "st = Settled" "g = (d_gate s)\<lparr>g_uncommitted := g_uncommitted (d_gate s) - {oid}\<rparr>" by blast
  then show ?case
  proof cases
    case 1
    then show ?thesis by (simp add: run_commit_def e set_run_def)
  next
    case 2
    then show ?thesis by (simp add: run_commit_def e set_run_def lose_keeps)
  next
    case 3
    then show ?thesis
      by (intro disjI2 exI [of _ oid] exI [of _ r] exI [of _ out] exI [of _ lc])
         (simp add: run_commit_def e set_run_def ds_commit.hyps)
  qed
next
  case (ds_finish s oid r out lc f)
  then show ?case by (simp add: run_finish_def run_end_keeps)
qed (simp_all add: call_begin_def call_observe_def)

definition pending_ok :: "disp \<Rightarrow> bool" where
  "pending_ok s \<longleftrightarrow> (\<forall>oid r out lc. d_runs s oid = Some r \<longrightarrow> r_phase r = RCommit out lc \<longrightarrow>
     uncertain out \<longrightarrow> oid \<in> g_uncommitted (d_gate s))"

text \<open>Where a committing task comes from.\<close>

lemma commit_origin:
  assumes "disp_step w s t" and "d_runs t oid = Some r" and "r_phase r = RCommit out lc"
  shows "d_runs s oid = Some r
    \<or> (\<exists>r0. d_runs s oid = Some r0 \<and> r_phase r0 = RSettle out \<and> t = run_settle oid r0 out s)"
  using assms
proof (induction rule: disp_step.induct)
  case (ds_insert s i c f now fr)
  with insert_still [of s w f now "unk_of w fr s" i c] show ?case by (simp add: still_def)
next
  case (ds_insert_cancelled s i c f now fr)
  with insert_cancelled_still [of s w f now "unk_of w fr s" i c] show ?case by (simp add: still_def)
next
  case (ds_admit s i c)
  with admit_still [of s i c] show ?case by (simp add: still_def)
next
  case (ds_wait s i c expired)
  with wait_still [of s expired i c] show ?case by (simp add: still_def)
next
  case (ds_failed s i c a fr f now fr')
  with failed_still [of s w fr f now "unk_of w fr' s" i c a] show ?case by (simp add: still_def)
next
  case (ds_look s i c fr fr')
  with look_still [of s w fr "unk_of w fr' s" i c] show ?case by (simp add: still_def)
next
  case (ds_unsent s i c r' b f now fr)
  with unsent_still [of s w f now "unk_of w fr s" i c r' b] show ?case by (simp add: still_def)
next
  case (ds_checkpoint s o' r' f obs)
  with checkpoint_still [of s w f o' obs] show ?case by (simp add: still_def)
next
  case (ds_promote s i c cancelled f now host fr)
  then show ?case by (auto simp: call_promote_def split: prod.splits promotion.splits if_splits)
next
  case (ds_commit s o' r' out' lc' f now)
  then show ?case by (auto simp: run_commit_def set_run_def split: prod.splits if_splits)
next
  case (ds_settle s o' r' out')
  then show ?case by (auto simp: run_settle_def set_run_def split: if_splits)
next
  case (ds_start s o' r')
  then show ?case by (auto simp: run_start_def set_run_def split: if_splits)
next
  case (ds_relay_end s o' r' e)
  then show ?case by (auto simp: run_relay_end_def set_run_def split: if_splits)
next
  case (ds_finish s o' r' out' lc' f)
  then show ?case by (auto simp: run_finish_def split: if_splits)
qed (simp_all add: call_begin_def call_observe_def call_lost_def finish_call_def)

text \<open>Where a task with an outcome to settle goes.\<close>

lemma settle_exit:
  assumes "disp_step w s t" and "hist w s" and "d_runs s oid = Some r" and "r_phase r = RSettle out"
  shows "d_runs t oid = Some r \<or> t = run_settle oid r out s"
  using assms
proof (induction rule: disp_step.induct)
  case (ds_insert s i c f now fr)
  with insert_still [of s w f now "unk_of w fr s" i c] show ?case by (simp add: still_def)
next
  case (ds_insert_cancelled s i c f now fr)
  with insert_cancelled_still [of s w f now "unk_of w fr s" i c] show ?case by (simp add: still_def)
next
  case (ds_admit s i c)
  with admit_still [of s i c] show ?case by (simp add: still_def)
next
  case (ds_wait s i c expired)
  with wait_still [of s expired i c] show ?case by (simp add: still_def)
next
  case (ds_failed s i c a fr f now fr')
  with failed_still [of s w fr f now "unk_of w fr' s" i c a] show ?case by (simp add: still_def)
next
  case (ds_look s i c fr fr')
  with look_still [of s w fr "unk_of w fr' s" i c] show ?case by (simp add: still_def)
next
  case (ds_unsent s i c r' b f now fr)
  with unsent_still [of s w f now "unk_of w fr s" i c r' b] show ?case by (simp add: still_def)
next
  case (ds_checkpoint s o' r' f obs)
  with checkpoint_still [of s w f o' obs] show ?case by (simp add: still_def)
next
  case (ds_promote s i c cancelled f now host fr)
  have "d_runs s (c_op c) = None"
    using hist_entered [OF ds_promote.prems(1) ds_promote.hyps(1)] by (simp add: ins_phase_def)
  with ds_promote.prems(2) show ?case
    by (auto simp: call_promote_def split: prod.splits promotion.splits if_splits)
next
  case (ds_settle s o' r' out')
  then show ?case by (cases "o' = oid") (auto simp: run_settle_def set_run_def)
next
  case (ds_commit s o' r' out' lc' f now)
  then show ?case by (auto simp: run_commit_def set_run_def split: prod.splits)
next
  case (ds_start s o' r')
  then show ?case by (auto simp: run_start_def set_run_def)
next
  case (ds_relay_end s o' r' e)
  then show ?case by (auto simp: run_relay_end_def set_run_def)
next
  case (ds_finish s o' r' out' lc' f)
  then show ?case by (auto simp: run_finish_def)
qed (simp_all add: call_begin_def call_observe_def call_lost_def finish_call_def)

lemma pending_step:
  assumes st: "disp_step w s t" and ok: "pending_ok s"
  shows "pending_ok t"
  unfolding pending_ok_def
proof (intro allI impI)
  fix oid r out lc
  assume r: "d_runs t oid = Some r" "r_phase r = RCommit out lc" "uncertain out"
  from commit_origin [OF st r(1,2)] show "oid \<in> g_uncommitted (d_gate t)"
  proof
    assume old: "d_runs s oid = Some r"
    with ok r have mem: "oid \<in> g_uncommitted (d_gate s)" unfolding pending_ok_def by blast
    from step_keeps [OF st] show ?thesis
    proof
      assume "keeps (d_gate s) (d_gate t)"
      with mem show ?thesis by (auto simp: keeps_def)
    next
      assume "\<exists>oid r out lc f now. d_runs s oid = Some r \<and> r_phase r = RCommit out lc
        \<and> (\<exists>r'. d_runs t oid = Some r' \<and> r_phase r' = RAfter out lc)
        \<and> g_state (d_gate t) = g_state (d_gate s)
        \<and> g_uncommitted (d_gate t) = g_uncommitted (d_gate s) - {oid}
        \<and> (\<forall>o'. o' \<noteq> oid \<longrightarrow> d_runs t o' = d_runs s o')"
      then obtain o2 r2 out2 lc2 where o2: "d_runs t o2 = Some r2" "r_phase r2 = RAfter out2 lc2"
        "g_uncommitted (d_gate t) = g_uncommitted (d_gate s) - {o2}" by blast
      have "o2 \<noteq> oid"
      proof
        assume "o2 = oid"
        with o2(1) r(1) have "r2 = r" by simp
        with o2(2) r(2) show False by simp
      qed
      with mem o2(3) show ?thesis by simp
    qed
  next
    assume "\<exists>r0. d_runs s oid = Some r0 \<and> r_phase r0 = RSettle out \<and> t = run_settle oid r0 out s"
    with r(3) show ?thesis
      by (auto simp: run_settle_def set_run_def settle_begin_def close_locked_def)
  qed
qed

section \<open>The invariant of the process\<close>

definition disp_inv :: "ownership \<Rightarrow> nat \<Rightarrow> disp \<Rightarrow> bool" where
  "disp_inv w n s \<longleftrightarrow> hist w s \<and> gate_modes (d_gate s) \<and> tasks_ok s \<and> slots_ok n s \<and> excl s
     \<and> pending_ok s"

interpretation process: transition_system "disp_step w" "disp_inv w n" for w n
proof
  fix s t
  assume st: "disp_step w s t" and "disp_inv w n s"
  then have i: "hist w s" "gate_modes (d_gate s)" "tasks_ok s" "slots_ok n s" "excl s" "pending_ok s"
    by (simp_all add: disp_inv_def)
  show "disp_inv w n t"
    unfolding disp_inv_def
    using hist_step [OF st i(1)] disp_modes [OF st i(2)] tasks_step [OF st i(1,3)]
      slots_step [OF st i(1,3,4)] excl_step [OF st i(2,3,5)] pending_step [OF st i(6)]
    by (intro conjI)
qed

lemma disp_inv_init:
  assumes "new_gate n q = Some g" and "store_inv d" and "owns w d"
  shows "disp_inv w n (disp_init g d)"
  using assms owns_ours [OF assms(3)]
  by (auto simp: disp_inv_def disp_init_def new_gate_def hist_def calls_ok_def runs_ok_def
      committed_to_def gate_modes_def tasks_ok_def slots_ok_def count_where_def excl_def ids_ok_def
      life_ok_def known_def pending_ok_def split: if_splits)

end
