(* ===== verification/Agent_Spec.thy ===== *)
theory Agent_Spec
  imports Agent_Runs
begin

text \<open>
  What the node protocol promises, without tables, tokens or SQL: each operation has a status,
  each node a generation, and a step changes one status along the lifecycle or hands one node
  over. \<open>spec_simulates\<close> shows that every step of \<^theory_text>\<open>Agent_Protocol\<close> is such a step.
\<close>

record spec_state =
  sp_status :: "string \<times> string \<Rightarrow> op_state option"
  sp_generation :: "string \<Rightarrow> int option"

definition spec_handover :: "string \<Rightarrow> (string \<times> string \<Rightarrow> op_state option) \<Rightarrow> string \<times> string \<Rightarrow> op_state option" where
  "spec_handover n st k =
     (if fst k \<noteq> n then st k
      else (case st k of
              Some Running \<Rightarrow> Some OutcomeUnknown
            | Some Accepted \<Rightarrow> Some CancelledUnsent
            | other \<Rightarrow> other))"

inductive spec_step :: "spec_state \<Rightarrow> spec_state \<Rightarrow> bool" where
  sp_stutter: "spec_step s s"
| sp_submit: "sp_status s k = None \<Longrightarrow> st = Accepted \<or> st = CancelledUnsent \<Longrightarrow>
     spec_step s (s\<lparr>sp_status := (sp_status s)(k \<mapsto> st)\<rparr>)"
| sp_authorise: "sp_status s k = Some Accepted \<Longrightarrow>
     (\<forall>oid. sp_status s (fst k, oid) \<noteq> Some OutcomeUnknown) \<Longrightarrow>
     spec_step s (s\<lparr>sp_status := (sp_status s)(k \<mapsto> Running)\<rparr>)"
| sp_move: "sp_status s k = Some a \<Longrightarrow> op_edge a b \<Longrightarrow> b \<noteq> Running \<Longrightarrow>
     spec_step s (s\<lparr>sp_status := (sp_status s)(k \<mapsto> b)\<rparr>)"
| sp_handover: "sp_generation s n = Some g \<or> sp_generation s n = None \<and> g = 0 \<Longrightarrow>
     spec_step s \<lparr>sp_status = spec_handover n (sp_status s),
                  sp_generation = (sp_generation s)(n \<mapsto> g + 1)\<rparr>"

definition abs_db :: "db \<Rightarrow> spec_state" where
  "abs_db d = \<lparr>sp_status = op_status d,
               sp_generation = (\<lambda>n. map_option ag_generation (agent_at d n))\<rparr>"

lemma abs_db_stutter:
  "operations d' = operations d \<Longrightarrow> agents d' = agents d \<Longrightarrow> abs_db d' = abs_db d"
  by (simp add: abs_db_def op_status_def fun_eq_iff)

lemma abs_db_upd:
  assumes "fenced_write guard assign w oid" and "operations d' = upd_where guard assign (operations d)"
    and "agents d' = agents d"
  shows "abs_db d' = abs_db d \<or> (\<exists>r. op_at d (own_node w, oid) = Some r \<and> guard r
     \<and> (op_state (assign r) = op_state r \<or> op_edge (op_state r) (op_state (assign r)))
     \<and> abs_db d' = (abs_db d)\<lparr>sp_status := (op_status d)((own_node w, oid) \<mapsto> op_state (assign r))\<rparr>)"
proof -
  have at: "op_at d' k = map_option (\<lambda>r. if guard r then assign r else r) (op_at d k)" for k
    using keyed_update.row_at_upd [OF fenced_write.axioms(1) [OF assms(1)]] by (simp add: assms(2))
  have key: "guard r \<Longrightarrow> op_key r = (own_node w, oid)" for r
    using fenced_write.mine [OF assms(1)] fenced_write.only [OF assms(1)] by auto
  have other: "op_status d' k = op_status d k" if "k \<noteq> (own_node w, oid)" for k
    using that key row_at_SomeD [of op_key "operations d" k]
    by (cases "op_at d k") (auto simp: op_status_def at)
  show ?thesis
  proof (cases "\<exists>r. op_at d (own_node w, oid) = Some r \<and> guard r")
    case True
    then obtain r where r: "op_at d (own_node w, oid) = Some r" "guard r" by blast
    have "op_status d' = (op_status d)((own_node w, oid) \<mapsto> op_state (assign r))"
    proof
      fix k
      show "op_status d' k = ((op_status d)((own_node w, oid) \<mapsto> op_state (assign r))) k"
        using other [of k] r by (cases "k = (own_node w, oid)") (auto simp: op_status_def at)
    qed
    with r fenced_write.edge [OF assms(1) r(2)] show ?thesis
      by (auto simp: abs_db_def assms(3))
  next
    case False
    have "op_status d' = op_status d"
    proof
      fix k
      show "op_status d' k = op_status d k"
        using other [of k] False by (cases "k = (own_node w, oid)"; cases "op_at d k")
          (auto simp: op_status_def at)
    qed
    then show ?thesis by (simp add: abs_db_def assms(3))
  qed
qed

lemma abs_db_simps [simp]:
  "sp_status (abs_db d) = op_status d"
  "sp_generation (abs_db d) n = map_option ag_generation (agent_at d n)"
  by (simp_all add: abs_db_def)

lemma no_unknown_status:
  assumes "\<not> any_unknown n d"
  shows "op_status d (n, oid) \<noteq> Some OutcomeUnknown"
proof
  assume "op_status d (n, oid) = Some OutcomeUnknown"
  then obtain r where "op_at d (n, oid) = Some r" "op_state r = OutcomeUnknown"
    by (auto simp: op_status_def)
  with assms row_at_SomeD [of op_key "operations d" "(n, oid)" r] show False
    by (auto simp: any_unknown_def list_ex_iff)
qed

lemma write_simulates:
  assumes we: "write_effect role w d d'"
    and run: "role = PromoteRole \<Longrightarrow> operations d' \<noteq> operations d \<Longrightarrow> \<not> any_unknown (own_node w) d"
  shows "spec_step (abs_db d) (abs_db d')"
  using we run
proof (induction rule: write_effect.induct)
  case (we_quiet d d' role w)
  then have "abs_db d' = abs_db d" by (intro abs_db_stutter) (simp_all add: same_tables_def)
  then show ?case by (simp add: sp_stutter)
next
  case (we_insert w d r d' role)
  have "op_status d' = (op_status d)(op_key r \<mapsto> op_state r)"
  proof
    fix k
    show "op_status d' k = ((op_status d)(op_key r \<mapsto> op_state r)) k"
      using we_insert.hyps(2)
      by (cases "k = op_key r"; cases "op_at d k")
         (simp_all add: op_status_def we_insert.hyps(3) row_at_append)
  qed
  then have "abs_db d' = (abs_db d)\<lparr>sp_status := (sp_status (abs_db d))(op_key r \<mapsto> op_state r)\<rparr>"
    by (simp add: abs_db_def we_insert.hyps(4))
  moreover have "op_state r = Accepted \<or> op_state r = CancelledUnsent"
    using we_insert.hyps(10) by auto
  moreover have "sp_status (abs_db d) (op_key r) = None"
    using we_insert.hyps(2) by (simp add: op_status_def)
  ultimately show ?case by (metis sp_submit)
next
  case (we_update w d guard assign oid role d')
  let ?k = "(own_node w, oid)"
  consider "abs_db d' = abs_db d"
    | r where "op_at d ?k = Some r" "guard r"
      "op_state (assign r) = op_state r \<or> op_edge (op_state r) (op_state (assign r))"
      "abs_db d' = (abs_db d)\<lparr>sp_status := (op_status d)(?k \<mapsto> op_state (assign r))\<rparr>"
    using abs_db_upd [OF we_update.hyps(2,4,5)] by blast
  then show ?case
  proof cases
    case 1
    then show ?thesis by (simp add: sp_stutter)
  next
    case 2
    have st: "sp_status (abs_db d) ?k = Some (op_state r)" using 2(1) by (simp add: op_status_def)
    show ?thesis
    proof (cases "op_state (assign r) = op_state r")
      case True
      with 2(4) st have "abs_db d' = abs_db d" by (simp add: fun_upd_idem)
      then show ?thesis by (simp add: sp_stutter)
    next
      case False
      with 2(3) have edge: "op_edge (op_state r) (op_state (assign r))" by blast
      show ?thesis
      proof (cases "op_state (assign r) = Running")
        case True
        with edge have acc: "op_state r = Accepted" by (cases "op_state r") auto
        with True we_update.hyps(3) 2(2) have "role = PromoteRole"
          by (auto simp: role_ok_def)
        moreover have "operations d' \<noteq> operations d"
        proof
          assume "operations d' = operations d"
          then have "abs_db d' = abs_db d" using we_update.hyps(5) by (rule abs_db_stutter)
          with 2(4) have "sp_status (abs_db d) ?k = Some (op_state (assign r))"
            by (metis abs_db_simps(1) fun_upd_same spec_state.select_convs(1) spec_state.update_convs(1)
                spec_state.surjective)
          with st False show False by simp
        qed
        ultimately have "\<not> any_unknown (own_node w) d" by (rule we_update.prems)
        with sp_authorise [of "abs_db d" ?k] st acc True 2(4) no_unknown_status show ?thesis by simp
      next
        case False
        with sp_move [OF st edge] 2(4) show ?thesis by simp
      qed
    qed
  qed
qed

lemma promote_ops_changed:
  "operations (snd (promote w oid prov at now d)) \<noteq> operations d \<Longrightarrow> \<not> any_unknown (own_node w) d"
  by (cases "owns w d") (auto simp: promote_def owned_ok owned_refused_simps split: option.splits if_splits)

lemma run_write_promote:
  "role_of wr = PromoteRole \<Longrightarrow> operations (snd (run_write w wr now d)) \<noteq> operations d \<Longrightarrow>
     \<not> any_unknown (own_node w) d"
  by (cases wr) (simp_all add: promote_ops_changed)

lemma handover_status:
  "op_status d' = spec_handover n (op_status d)"
  if "operations d' = map (takeover_row n g note now) (operations d)"
proof
  fix k
  show "op_status d' k = spec_handover n (op_status d) k"
  proof (cases "op_at d k")
    case None
    then show ?thesis by (simp add: op_status_def that row_at_map_takeover spec_handover_def)
  next
    case (Some r)
    then have "node_id r = fst k" by (auto dest: row_at_SomeD)
    with Some show ?thesis
      by (auto simp: op_status_def that row_at_map_takeover spec_handover_def takeover_row_def
          row_simps split: op_state.split)
  qed
qed

lemma claim_simulates: "spec_step (abs_db d) (abs_db (snd (claim n held domain kboot boot pid now d)))"
proof (cases "fst (claim n held domain kboot boot pid now d)")
  case (Inl e)
  with claim_refused [OF Inl] show ?thesis by (simp add: sp_stutter)
next
  case (Inr el)
  let ?d' = "snd (claim n held domain kboot boot pid now d)"
  let ?g = "ag_generation (previous_agent n d)"
  have "abs_db ?d' = \<lparr>sp_status = spec_handover n (sp_status (abs_db d)),
      sp_generation = (sp_generation (abs_db d))(n \<mapsto> ?g + 1)\<rparr>"
    using handover_status [OF claim_success(2) [OF Inr]]
    by (auto simp: abs_db_def fun_eq_iff claim_agent_at [OF Inr] agent_set_def)
  moreover have "sp_generation (abs_db d) n = Some ?g \<or> sp_generation (abs_db d) n = None \<and> ?g = 0"
    by (auto simp: previous_agent_def fresh_agent_def split: option.split)
  ultimately show ?thesis by (metis sp_handover)
qed

lemma release_generation:
  "map_option ag_generation (agent_at (snd (release_previous_kernel n held domain pid p c oper rsn d)) m)
     = map_option ag_generation (agent_at d m)"
proof -
  let ?d' = "snd (release_previous_kernel n held domain pid p c oper rsn d)"
  obtain k where "agents ?d' = agents d
      \<or> agents ?d' = upd_where (\<lambda>a. ag_node a = n) (\<lambda>a. a\<lparr>ag_kernel_boot_id := Some k\<rparr>) (agents d)"
    using release_effect(4) by blast
  then show ?thesis
    by (cases "agent_at d m") (auto simp: kernel_write.row_at_upd)
qed

lemma release_simulates:
  "spec_step (abs_db d) (abs_db (snd (release_previous_kernel n held domain pid p c oper rsn d)))"
proof -
  have "abs_db (snd (release_previous_kernel n held domain pid p c oper rsn d)) = abs_db d"
    unfolding abs_db_def release_generation by (simp add: op_status_def release_effect(1) fun_eq_iff)
  then show ?thesis by (simp add: sp_stutter)
qed

lemma step_simulates: "agent_step d d' \<Longrightarrow> store_inv d \<Longrightarrow> spec_step (abs_db d) (abs_db d')"
proof (induction rule: agent_step.induct)
  case (ag_write d w wr now)
  then have "distinct (map op_key (operations d))" by (simp add: store_inv_def)
  then show ?case
    by (intro write_simulates [OF run_write_effect]) (auto dest: run_write_promote)
next
  case (ag_claim d n held domain kboot boot pid now)
  show ?case by (rule claim_simulates)
next
  case (ag_release d n held domain pid prev cur oper rsn)
  show ?case by (rule release_simulates)
next
  case (ag_session_end d n pid)
  have "abs_db (election_unlock n pid d) = abs_db d" by (rule abs_db_stutter) (simp_all add: election_unlock_def)
  then show ?case by (simp add: sp_stutter)
next
  case (ag_hold d c)
  have "abs_db (set_control c d) = abs_db d" by (rule abs_db_stutter) (simp_all add: set_control_def)
  then show ?case by (simp add: sp_stutter)
next
  case (ag_audit d n oid ev detail)
  have "abs_db (audit_insert n oid ev detail d) = abs_db d" by (rule abs_db_stutter) (simp_all add: audit_insert_def)
  then show ?case by (simp add: sp_stutter)
qed

end
