(* ===== verification/Agent_Properties.thy ===== *)
theory Agent_Properties
  imports Agent_Spec
begin

text \<open>
  The properties of the node agent's durable protocol, each over arbitrary interleavings of
  \<^theory_text>\<open>agent_step\<close>, with the small database (\<open>demo_db\<close>) their witnesses run on.
\<close>

section \<open>A database to run on\<close>

definition demo_nodes :: "node_row list" where
  "demo_nodes = [\<lparr>nd_id = ''n'', nd_lock_domain = None\<rparr>]"

definition demo_owner :: ownership where
  "demo_owner = \<lparr>own_node = ''n'', own_generation = 1, own_boot_id = ''b''\<rparr>"

definition demo_elected :: db where
  "demo_elected = snd (claim ''n'' True ''dom'' (Some ''k'') ''b'' 7 0 (empty_db demo_nodes (Some NORMAL)))"

definition demo_db :: db where
  "demo_db = snd (insert_accepted demo_owner ''op'' ''generation'' None None True 1 demo_elected)"

definition demo_running :: db where
  "demo_running = snd (promote demo_owner ''op'' [] None 2 demo_db)"

definition demo_unknown :: db where
  "demo_unknown = snd (mark_unknown demo_owner ''op'' ''eof_without_done'' (JObj []) demo_running)"

lemmas demo_defs = demo_nodes_def demo_owner_def demo_elected_def demo_db_def demo_running_def
  demo_unknown_def

lemma demo_elected_inv: "store_inv demo_elected"
  unfolding demo_elected_def by (rule claim_inv [OF store_inv_empty])

lemma demo_inv: "store_inv demo_db"
  unfolding demo_db_def by (rule write_effect_inv [OF insert_effect demo_elected_inv])

lemma demo_running_inv: "store_inv demo_running"
  unfolding demo_running_def by (rule write_effect_inv [OF promote_effect demo_inv])

lemma demo_unknown_inv: "store_inv demo_unknown"
  unfolding demo_unknown_def by (rule write_effect_inv [OF mark_unknown_effect demo_running_inv])

lemma demo_promoted: "fst (promote demo_owner ''op'' [] None 2 demo_db) = Inr True"
  by code_simp

text \<open>The election session of generation 1 ends, and generation 2 takes the node over.\<close>

definition demo_ended :: db where
  "demo_ended = election_unlock ''n'' 7 demo_running"

definition demo_taken :: db where
  "demo_taken = snd (claim ''n'' True ''dom'' (Some ''k'') ''b2'' 8 5 demo_ended)"

lemma demo_ended_inv: "store_inv demo_ended"
  unfolding demo_ended_def by (rule agent_step_inv [OF ag_session_end demo_running_inv])

lemma demo_claimed:
  "fst (claim ''n'' True ''dom'' (Some ''k'') ''b2'' 8 5 demo_ended) =
     Inr \<lparr>el_ownership = \<lparr>own_node = ''n'', own_generation = 2, own_boot_id = ''b2''\<rparr>,
          el_backend_pid = 8, converted_unknown = 1, converted_unsent = 0\<rparr>"
  by code_simp

section \<open>Properties\<close>

text \<open>
  C1: the authorisation to send is given at most once. After a promotion of an operation
  returned True, no promotion of it by any owner, in any state any run reaches, returns True again.
\<close>

theorem promoted_at_most_once:
  assumes "store_inv d" and "fst (promote w oid prov at now d) = Inr True"
    and "rtranclp agent_step (snd (promote w oid prov at now d)) d'"
    and "own_node w' = own_node w"
  shows "fst (promote w' oid prov' at' now' d') \<noteq> Inr True"
proof
  assume again: "fst (promote w' oid prov' at' now' d') = Inr True"
  let ?d1 = "snd (promote w oid prov at now d)"
  have inv1: "store_inv ?d1" using assms(1) by (rule write_effect_inv [OF promote_effect])
  with assms(3) have inv': "store_inv d'" by (rule protocol.inv_run)
  from promote_True(4) [OF assms(2,1)]
  have "op_status ?d1 (own_node w, oid) = Some Running"
    by (auto simp: op_status_def promote_set_def)
  from left_accepted_run [OF assms(3) inv1 this]
  have "op_status d' (own_node w, oid) \<noteq> Some Accepted" by simp
  with promote_True(4) [OF again inv'] show False
    by (auto simp: op_status_def assms(4))
qed

theorem promoted_at_most_once_witness:
  "fst (promote demo_owner ''op'' [] None 3 demo_running) \<noteq> Inr True"
  using promoted_at_most_once [OF demo_inv demo_promoted, of demo_running demo_owner]
  by (simp add: demo_running_def)

text \<open>a promotion that authorises a send found the token current, the maintenance hold as
  the send needs it (open, or closed at the restore's epoch), and no unknown operation on the node;
  it turned exactly the caller's accepted row into a running one.\<close>

theorem promotion_guarded:
  assumes "store_inv d" and "fst (promote w oid prov at now d) = Inr True"
  shows "owns w d
    \<and> (\<exists>h. control d = Some h \<and> (case at of None \<Rightarrow> \<not> admission_closed h
           | Some e \<Rightarrow> admission_closed h \<and> epoch h = e))
    \<and> (\<forall>oid'. op_status d (own_node w, oid') \<noteq> Some OutcomeUnknown)
    \<and> op_status d (own_node w, oid) = Some Accepted
    \<and> op_status (snd (promote w oid prov at now d)) =
           (op_status d)((own_node w, oid) \<mapsto> Running)"
proof (intro conjI)
  note pt = promote_True [OF assms(2,1)]
  show "owns w d" by (rule pt(1))
  show "\<exists>h. control d = Some h \<and> (case at of None \<Rightarrow> \<not> admission_closed h
           | Some e \<Rightarrow> admission_closed h \<and> epoch h = e)"
    using pt(2) by (auto simp: hold_refuses_def split: option.splits if_splits)
  show "\<forall>oid'. op_status d (own_node w, oid') \<noteq> Some OutcomeUnknown"
    using no_unknown_status [OF pt(3)] by blast
  from pt(4) obtain r where r: "op_at d (own_node w, oid) = Some r" "op_state r = Accepted"
    "owner_generation r = own_generation w" by blast
  then show "op_status d (own_node w, oid) = Some Accepted" by (simp add: op_status_def)
  show "op_status (snd (promote w oid prov at now d)) = (op_status d)((own_node w, oid) \<mapsto> Running)"
  proof
    fix k
    show "op_status (snd (promote w oid prov at now d)) k =
        ((op_status d)((own_node w, oid) \<mapsto> Running)) k"
      using r row_at_SomeD [of op_key "operations d" k]
      by (cases "op_at d k") (auto simp: promote_def owned_ok [OF pt(1)] pt(2,3) op_status_def
          promote_write.row_at_upd promote_where_def promote_set_def)
  qed
qed

theorem promotion_guarded_witness:
  "owns demo_owner demo_db \<and> op_status demo_running (''n'', ''op'') = Some Running"
  using promotion_guarded [OF demo_inv demo_promoted]
  by (simp add: demo_running_def demo_owner_def)

text \<open>
  C2: a superseded owner is fenced for good. Once a claim has given a node generation
  \<open>g\<close>, every write under a token of an earlier generation is refused in every state any run
  reaches, and changes nothing but the audit trail.
\<close>

theorem superseded_owner_fenced:
  assumes "store_inv d" and "fst (claim n held domain kboot boot pid now d) = Inr el"
    and "rtranclp agent_step (snd (claim n held domain kboot boot pid now d)) d'"
    and "own_node w = n" and "own_generation w < own_generation (el_ownership el)"
    and "\<forall>oid st trm res rsn rep. wr = WFinish oid st trm res rsn rep \<longrightarrow> st = Completed \<or> st = Failed"
  shows "(\<exists>msg. fst (run_write w wr now' d') = Some (NotOwner msg))
    \<and> core (snd (run_write w wr now' d')) = core d'"
proof -
  let ?d1 = "snd (claim n held domain kboot boot pid now d)"
  have "generation_at_least n (own_generation (el_ownership el)) ?d1"
    using claim_success(1) [OF assms(2)] claim_agent_at [OF assms(2), of n]
    by (simp add: generation_at_least_def agent_set_def)
  with generation_run [OF assms(3) claim_inv [OF assms(1)]]
  have "\<not> owns w d'" using superseded_not_owner assms(4,5) by blast
  note refused = owned_refused_simps [OF this]
  show ?thesis
    using assms(6) by (cases wr) (auto simp: drop_value_def txn_defs refused)
qed

theorem superseded_owner_fenced_witness:
  "(\<exists>msg. fst (run_write demo_owner (WFinish ''op'' Completed (JObj []) None None False) 9 demo_taken)
      = Some (NotOwner msg))
   \<and> core (snd (run_write demo_owner (WFinish ''op'' Completed (JObj []) None None False) 9 demo_taken))
      = core demo_taken"
  unfolding demo_taken_def
  by (rule superseded_owner_fenced [OF demo_ended_inv demo_claimed rtranclp.rtrancl_refl])
     (simp_all add: demo_owner_def)

text \<open>
  C4: a takeover leaves nothing of the previous owner in flight. After a successful claim
  the node's generation is one higher, none of its operations is accepted or running, those that
  were running are unknown, those that were accepted are cancelled unsent, every unknown one belongs
  to the new owner, and other nodes' operations are untouched.
\<close>

theorem takeover_settles:
  assumes "store_inv d" and "fst (claim n held domain kboot boot pid now d) = Inr el"
  defines "d' \<equiv> snd (claim n held domain kboot boot pid now d)"
  shows "owns (el_ownership el) d'
    \<and> op_status d' = spec_handover n (op_status d)
    \<and> (\<forall>r \<in> set (operations d'). node_id r = n \<and> op_state r = OutcomeUnknown \<longrightarrow>
           owner_generation r = own_generation (el_ownership el))
    \<and> (\<forall>oid. op_status d' (n, oid) \<noteq> Some Accepted \<and> op_status d' (n, oid) \<noteq> Some Running)
    \<and> count_where (state_where n OutcomeUnknown) (operations d') =
           count_where (state_where n OutcomeUnknown) (operations d) + converted_unknown el"
proof (intro conjI)
  have el: "el_ownership el = \<lparr>own_node = n, own_generation = ag_generation (previous_agent n d) + 1,
      own_boot_id = boot\<rparr>"
    by (rule claim_success(1) [OF assms(2)])
  have agent: "agent_at d' n = Some (agent_set (ag_generation (previous_agent n d) + 1) boot kboot
      pid now (previous_agent n d))"
    by (simp add: d'_def claim_agent_at [OF assms(2)])
  have inv': "store_inv d'" using assms(1) by (simp add: d'_def claim_inv)
  show "owns (el_ownership el) d'"
    by (simp add: owns_iff el agent agent_set_def)
  show st: "op_status d' = spec_handover n (op_status d)"
    unfolding d'_def by (rule handover_status [OF claim_success(2) [OF assms(2)]])
  show "\<forall>r \<in> set (operations d'). node_id r = n \<and> op_state r = OutcomeUnknown \<longrightarrow>
           owner_generation r = own_generation (el_ownership el)"
    using inv' agent unfolding store_inv_def owned_rows_def by (fastforce simp: el agent_set_def)
  show "\<forall>oid. op_status d' (n, oid) \<noteq> Some Accepted \<and> op_status d' (n, oid) \<noteq> Some Running"
    by (auto simp: st spec_handover_def split: option.splits op_state.splits)
  show "count_where (state_where n OutcomeUnknown) (operations d') =
           count_where (state_where n OutcomeUnknown) (operations d) + converted_unknown el"
    unfolding d'_def claim_success(2,7) [OF assms(2)] by (rule count_handover)
qed

theorem takeover_settles_witness:
  "op_status demo_taken (''n'', ''op'') = Some OutcomeUnknown
   \<and> count_where (state_where ''n'' OutcomeUnknown) (operations demo_taken) = 1"
proof -
  note t = takeover_settles [OF demo_ended_inv demo_claimed]
  have "op_status demo_ended (''n'', ''op'') = Some Running" by code_simp
  moreover have "count_where (state_where ''n'' OutcomeUnknown) (operations demo_ended) = 0" by code_simp
  ultimately show ?thesis using t by (simp add: demo_taken_def spec_handover_def)
qed

text \<open>
  terminal evidence is never rewritten. A completed, failed or cancelled operation keeps
  its whole row, owner, figures and reason included, in every state any run reaches.
\<close>

theorem terminal_evidence_final:
  assumes "store_inv d" and "rtranclp agent_step d d'"
    and "op_at d k = Some r" and "\<not> outstanding (op_state r)"
  shows "op_at d' k = Some r"
  using terminal_row_run [OF assms(2,1,3)] assms(4) by (simp add: terminal_state_def)

definition demo_completed :: db where
  "demo_completed = snd (finish demo_owner ''op'' Completed (JObj [(''eval_count'', JInt 3)]) None None False 4
     demo_running)"

lemma demo_completed_row:
  "op_at demo_completed (''n'', ''op'') = Some
     ((new_accepted demo_owner ''op'' ''generation'' None None True 1)
        \<lparr>op_state := Completed, running_at := Some 2, terminal := Some (JObj [(''eval_count'', JInt 3)]),
          resolved_at := Some 4, resolved_by := Some ''runtime''\<rparr>)"
  by code_simp

theorem terminal_evidence_final_witness:
  "\<exists>r. op_at (snd (run_write demo_owner (WUnknown ''op'' ''late'' JNull) 9 demo_completed)) (''n'', ''op'') = Some r
     \<and> terminal r = Some (JObj [(''eval_count'', JInt 3)])"
proof -
  have inv: "store_inv demo_completed"
    unfolding demo_completed_def
    using demo_running_inv by (intro write_effect_inv [OF finish_effect]) (simp_all add: store_inv_def)
  have run: "rtranclp agent_step demo_completed
      (snd (run_write demo_owner (WUnknown ''op'' ''late'' JNull) 9 demo_completed))"
    by (rule r_into_rtranclp, rule ag_write)
  show ?thesis
    using terminal_evidence_final [OF inv run demo_completed_row] by (simp add: outstanding_def)
qed

text \<open>
  C5: an unknown operation blocks its node. In a step from a state where the node has an
  unknown operation, no operation of the node becomes running, and the unknown operation stays unknown
  unless the step is its resolution, which makes it failed and leaves the evidence in the audit trail.
\<close>

theorem unknown_blocks_node:
  assumes "store_inv d" and "agent_step d d'" and "op_status d (n, oid) = Some OutcomeUnknown"
  shows "(\<forall>oid'. op_status d' (n, oid') = Some Running \<longrightarrow> op_status d (n, oid') = Some Running)
    \<and> (op_status d' (n, oid) = Some OutcomeUnknown
       \<or> op_status d' (n, oid) = Some Failed
         \<and> (\<exists>evidence. \<lparr>au_node = n, au_op = Some oid, au_event = ''resolved_by_reset'',
              au_detail = evidence\<rparr> \<in> set (audits d')))"
proof (intro conjI allI impI)
  fix oid'
  assume run: "op_status d' (n, oid') = Some Running"
  then obtain r' where r': "op_at d' (n, oid') = Some r'" "op_state r' = Running"
    by (auto simp: op_status_def)
  show "op_status d (n, oid') = Some Running"
  proof (cases "op_at d (n, oid')")
    case None
    from step_new_row [OF assms(2,1) None r'(1)] r'(2) show ?thesis by simp
  next
    case (Some r)
    have "\<not> is_promotion (n, oid') d d'"
      using assms(3) promote_True(3) [OF _ assms(1)] no_unknown_status
      by (fastforce simp: is_promotion_def)
    with step_row [OF assms(2,1) Some] r' Some show ?thesis by (auto simp: op_status_def)
  qed
next
  from assms(3) obtain r where r: "op_at d (n, oid) = Some r" "op_state r = OutcomeUnknown"
    by (auto simp: op_status_def)
  from step_row [OF assms(2,1) r(1)] r(2) obtain r' where r': "op_at d' (n, oid) = Some r'"
    "op_state r' = OutcomeUnknown \<or> is_resolution (n, oid) d d'" by blast
  show "op_status d' (n, oid) = Some OutcomeUnknown
       \<or> op_status d' (n, oid) = Some Failed
         \<and> (\<exists>evidence. \<lparr>au_node = n, au_op = Some oid, au_event = ''resolved_by_reset'',
              au_detail = evidence\<rparr> \<in> set (audits d'))"
  proof (cases "op_state r' = OutcomeUnknown")
    case True
    with r'(1) show ?thesis by (simp add: op_status_def)
  next
    case False
    with r'(2) obtain w ev now where res: "own_node w = n"
      "fst (resolve_unknown w oid ev now d) = Inr True" "d' = snd (resolve_unknown w oid ev now d)"
      by (auto simp: is_resolution_def)
    from resolve_True [OF res(2) assms(1)] show ?thesis
      unfolding res(3) by (auto simp: op_status_def res(1))
  qed
qed

theorem unknown_blocks_node_witness:
  "op_status demo_unknown (''n'', ''op'') = Some OutcomeUnknown
   \<and> (\<exists>ev. \<lparr>au_node = ''n'', au_op = Some ''op'', au_event = ''resolved_by_reset'', au_detail = ev\<rparr>
        \<in> set (audits (snd (run_write demo_owner (WResolve ''op'' (JStr ''restart'')) 9 demo_unknown))))"
proof -
  have u: "op_status demo_unknown (''n'', ''op'') = Some OutcomeUnknown" by code_simp
  have f: "op_status (snd (run_write demo_owner (WResolve ''op'' (JStr ''restart'')) 9 demo_unknown))
      (''n'', ''op'') = Some Failed" by code_simp
  from unknown_blocks_node [OF demo_unknown_inv ag_write u,
      of demo_owner "WResolve ''op'' (JStr ''restart'')" 9] u f
  show ?thesis by simp
qed

text \<open>
  at most one summary is outstanding on a node, in every state reachable from an empty
  database, whichever agents insert, promote, lose and settle them.
\<close>

theorem one_summary_outstanding:
  assumes "rtranclp agent_step (empty_db ns c) d"
  shows "count_where (\<lambda>r. node_id r = n \<and> kind r = ''summary'' \<and> outstanding (op_state r))
           (operations d) \<le> 1"
proof -
  have "store_inv d" using assms store_inv_empty by (rule protocol.inv_run)
  then show ?thesis by (rule one_summary_count)
qed

theorem one_summary_outstanding_witness:
  "count_where (\<lambda>r. node_id r = ''n'' \<and> kind r = ''summary'' \<and> outstanding (op_state r))
     (operations (snd (run_write demo_owner (WInsert ''s'' ''summary'' None None False) 3
        demo_elected))) \<le> 1"
proof (rule one_summary_outstanding)
  show "rtranclp agent_step (empty_db demo_nodes (Some NORMAL))
      (snd (run_write demo_owner (WInsert ''s'' ''summary'' None None False) 3 demo_elected))"
    unfolding demo_elected_def
    by (rule rtranclp.rtrancl_into_rtrancl [OF r_into_rtranclp], rule ag_claim, rule ag_write)
qed

text \<open>
  C6: a closed hold admits nothing but its own restore. If a step makes an operation running
  while the hold is closed at epoch \<open>e\<close>, the step is a promotion that asked for exactly
  epoch \<open>e\<close>.
\<close>

theorem closed_hold_admits_only_its_restore:
  assumes "store_inv d" and "agent_step d d'" and "control d = Some h" and "admission_closed h"
    and "op_status d' (n, oid) = Some Running" and "op_status d (n, oid) \<noteq> Some Running"
  shows "\<exists>w prov now. own_node w = n
    \<and> fst (promote w oid prov (Some (epoch h)) now d) = Inr True
    \<and> d' = snd (promote w oid prov (Some (epoch h)) now d)"
proof -
  have "is_promotion (n, oid) d d'"
  proof (cases "op_at d (n, oid)")
    case None
    with step_new_row [OF assms(2,1) None] assms(5) show ?thesis by (auto simp: op_status_def)
  next
    case (Some r)
    with step_row [OF assms(2,1) Some] assms(5,6) show ?thesis by (auto simp: op_status_def)
  qed
  then obtain w prov at now where p: "own_node w = n" "fst (promote w oid prov at now d) = Inr True"
    "d' = snd (promote w oid prov at now d)" by (auto simp: is_promotion_def)
  from promote_True(2) [OF p(2) assms(1)] assms(3,4) have "at = Some (epoch h)"
    by (auto simp: hold_refuses_def split: option.splits if_splits)
  with p show ?thesis by blast
qed

definition demo_closed :: db where
  "demo_closed = set_control (snd (hold_close ''admin'' None None 2 (control demo_db))) demo_db"

theorem closed_hold_admits_only_its_restore_witness:
  "\<exists>w prov now. own_node w = ''n'' \<and> fst (promote w ''op'' prov (Some 1) now demo_closed) = Inr True"
proof -
  have inv: "store_inv demo_closed"
    unfolding demo_closed_def by (rule agent_step_inv [OF ag_hold [OF hs_close] demo_inv])
  have c: "control demo_closed = Some \<lparr>admission_closed = True, m_phase = MaintenancePhase, epoch = 1,
      revision = 1, message = None, expected_return_at = None, changed_by = Some ''admin'',
      changed_at = Some 2\<rparr>" by code_simp
  have st: "op_status (snd (run_write demo_owner (WPromote ''op'' [] (Some 1)) 3 demo_closed)) (''n'', ''op'')
      = Some Running" "op_status demo_closed (''n'', ''op'') \<noteq> Some Running" by code_simp+
  from closed_hold_admits_only_its_restore [OF inv ag_write c _ st(1,2)] show ?thesis
    by auto
qed

text \<open>
  C3: the protocol implements its specification: every step of the database, whoever takes
  it, is a stutter, a submission, an authorisation with nothing unknown on the node, a move along the
  lifecycle or a handover of one node.
\<close>

theorem protocol_refines_spec:
  assumes "rtranclp agent_step (empty_db ns c) d" and "agent_step d d'"
  shows "spec_step (abs_db d) (abs_db d')"
  using step_simulates [OF assms(2) protocol.inv_run [OF assms(1) store_inv_empty]] .

theorem protocol_refines_spec_witness:
  "spec_step (abs_db (empty_db demo_nodes (Some NORMAL))) (abs_db demo_elected)"
  unfolding demo_elected_def by (rule protocol_refines_spec [OF rtranclp.rtrancl_refl ag_claim])

end
