(* ===== verification/Dispatch_Properties.thy ===== *)
theory Dispatch_Properties
  imports Dispatch_Safety Agent_Properties
begin

text \<open>
  The properties of the dispatcher: over every interleaving of its calls, its tasks, the gate's
  operations and the rest of the world on the database (\<^theory_text>\<open>disp_step\<close>), from a fresh
  dispatcher on a database its owner holds.
\<close>

section \<open>A process to run\<close>

definition demo_gate :: gate where
  "demo_gate = the (new_gate 2 4)"

definition demo_call :: caller where
  "demo_call = \<lparr>c_op = ''op-1'', c_kind = ''inference'', c_life = False, c_epoch = None,
     c_request = None, c_hash = None, c_store = True, c_prov = [], c_phase = PObserve\<rparr>"

definition demo_p0 :: disp where "demo_p0 = disp_init demo_gate demo_elected"
definition demo_p1 :: disp where "demo_p1 = call_begin demo_call demo_p0"
definition demo_p2 :: disp where "demo_p2 = call_observe demo_owner Works 0 (d_calls demo_p1 ! 0) demo_p1"
definition demo_p3 :: disp where "demo_p3 = call_admit 0 (d_calls demo_p2 ! 0) demo_p2"
definition demo_p4 :: disp where
  "demo_p4 = call_insert demo_owner Works 10 (unk_of demo_owner Works demo_p3) 0 (d_calls demo_p3 ! 0) demo_p3"
definition demo_p5 :: disp where "demo_p5 = call_wait False 0 (d_calls demo_p4 ! 0) demo_p4"
definition demo_p6 :: disp where
  "demo_p6 = goto 0 PSlot (demo_p5\<lparr>d_gate := the (take_slot (d_gate demo_p5))\<rparr>)"
definition demo_p7 :: disp where
  "demo_p7 = call_promote demo_owner Works 11 True False (unk_of demo_owner Works demo_p6) 0 (d_calls demo_p6 ! 0) demo_p6"
definition demo_p8 :: disp where "demo_p8 = run_start ''op-1'' (the (d_runs demo_p7 ''op-1'')) demo_p7"

lemma demo_new_gate: "new_gate 2 4 = Some demo_gate"
  by (simp add: demo_gate_def new_gate_def)

lemma demo_owns: "owns demo_owner demo_elected"
  by code_simp

lemma step_at: "c = d_calls s ! i \<Longrightarrow> 0 < length (d_calls s) \<Longrightarrow> i = 0 \<Longrightarrow>
    c_phase (d_calls s ! 0) = p \<Longrightarrow> at_phase s i c p"
  by (simp add: at_phase_def)

lemma demo_run7: "(disp_step demo_owner)\<^sup>*\<^sup>* demo_p0 demo_p7"
proof -
  let ?st = "disp_step demo_owner"
  have "?st demo_p0 demo_p1" unfolding demo_p1_def by (rule ds_begin) code_simp
  moreover have "?st demo_p1 demo_p2" unfolding demo_p2_def
    by (rule ds_observe, rule step_at) (rule refl, code_simp+)
  moreover have "?st demo_p2 demo_p3" unfolding demo_p3_def
    by (rule ds_admit, rule step_at) (rule refl, code_simp+)
  moreover have "?st demo_p3 demo_p4" unfolding demo_p4_def
    by (rule ds_insert, rule step_at) (rule refl, code_simp+)
  moreover have "?st demo_p4 demo_p5" unfolding demo_p5_def
    by (rule ds_wait, rule step_at) (rule refl, code_simp+)
  moreover have "?st demo_p5 demo_p6" unfolding demo_p6_def
  proof (rule ds_take, rule step_at)
    have "take_slot (d_gate demo_p5) \<noteq> None" by code_simp
    then show "take_slot (d_gate demo_p5) = Some (the (take_slot (d_gate demo_p5)))" by simp
  qed (rule refl, code_simp+)
  moreover have "?st demo_p6 demo_p7" unfolding demo_p7_def
    by (rule ds_promote, rule step_at) (rule refl, code_simp+)
  ultimately show ?thesis by (meson converse_rtranclp_into_rtranclp rtranclp.rtrancl_refl)
qed

text \<open>A restore under the hold closed at epoch 1: frozen, admitted, about to send.\<close>

definition demo_closed :: db where
  "demo_closed = snd (claim ''n'' True ''dom'' (Some ''k'') ''b'' 7 0
     (empty_db demo_nodes (fst (hold_close ''admin'' None None 3 (Some NORMAL)))))"

definition demo_restore :: caller where
  "demo_restore = demo_call\<lparr>c_op := ''r-1'', c_kind := ''load'', c_life := True, c_epoch := Some 1\<rparr>"

definition demo_q0 :: disp where "demo_q0 = disp_init demo_gate demo_closed"
definition demo_q1 :: disp where "demo_q1 = demo_q0\<lparr>d_gate := freeze (Some 1) (d_gate demo_q0)\<rparr>"
definition demo_q2 :: disp where "demo_q2 = call_begin demo_restore demo_q1"
definition demo_q3 :: disp where "demo_q3 = call_observe demo_owner Works 0 (d_calls demo_q2 ! 0) demo_q2"
definition demo_q4 :: disp where "demo_q4 = call_admit 0 (d_calls demo_q3 ! 0) demo_q3"
definition demo_q5 :: disp where
  "demo_q5 = call_insert demo_owner Works 10 (unk_of demo_owner Works demo_q4) 0 (d_calls demo_q4 ! 0) demo_q4"
definition demo_q6 :: disp where "demo_q6 = goto 0 PArmed demo_q5"
definition demo_q7 :: disp where
  "demo_q7 = goto 0 PSlot (demo_q6\<lparr>d_gate := the (take_slot (d_gate demo_q6))\<rparr>)"
definition demo_q8 :: disp where
  "demo_q8 = call_promote demo_owner Works 11 True False (unk_of demo_owner Works demo_q7) 0 (d_calls demo_q7 ! 0) demo_q7"
definition demo_q9 :: disp where "demo_q9 = run_start ''r-1'' (the (d_runs demo_q8 ''r-1'')) demo_q8"

lemma demo_closed_inv: "store_inv demo_closed"
  unfolding demo_closed_def by (rule claim_inv [OF store_inv_empty])

lemma demo_closed_owns: "owns demo_owner demo_closed"
  by code_simp

lemma demo_run_q8: "(disp_step demo_owner)\<^sup>*\<^sup>* demo_q0 demo_q8"
proof -
  let ?st = "disp_step demo_owner"
  have "?st demo_q0 demo_q1" unfolding demo_q1_def
    by (rule ds_gate [where f = Works]) (rule go_freeze)
  moreover have "?st demo_q1 demo_q2" unfolding demo_q2_def by (rule ds_begin) code_simp
  moreover have "?st demo_q2 demo_q3" unfolding demo_q3_def
    by (rule ds_observe, rule step_at) (rule refl, code_simp+)
  moreover have "?st demo_q3 demo_q4" unfolding demo_q4_def
    by (rule ds_admit, rule step_at) (rule refl, code_simp+)
  moreover have "?st demo_q4 demo_q5" unfolding demo_q5_def
    by (rule ds_insert, rule step_at) (rule refl, code_simp+)
  moreover have "?st demo_q5 demo_q6" unfolding demo_q6_def
    by (rule ds_idle, rule step_at) (rule refl, code_simp+)
  moreover have "?st demo_q6 demo_q7" unfolding demo_q7_def
  proof (rule ds_take, rule step_at)
    have "take_slot (d_gate demo_q6) \<noteq> None" by code_simp
    then show "take_slot (d_gate demo_q6) = Some (the (take_slot (d_gate demo_q6)))" by simp
  qed (rule refl, code_simp+)
  moreover have "?st demo_q7 demo_q8" unfolding demo_q8_def
    by (rule ds_promote, rule step_at) (rule refl, code_simp+)
  ultimately show ?thesis by (meson converse_rtranclp_into_rtranclp rtranclp.rtrancl_refl)
qed

lemma runs_some: "d_runs s oid \<noteq> None \<Longrightarrow> d_runs s oid = Some (the (d_runs s oid))"
  by simp

lemma demo_start_q9: "disp_step demo_owner demo_q8 demo_q9"
  unfolding demo_q9_def
proof (rule ds_start [OF runs_some])
  show "d_runs demo_q8 ''r-1'' \<noteq> None" by code_simp
qed code_simp

lemma demo_run8: "(disp_step demo_owner)\<^sup>*\<^sup>* demo_p0 demo_p8"
proof -
  have "disp_step demo_owner demo_p7 demo_p8"
    unfolding demo_p8_def
  proof (rule ds_start [OF runs_some])
    show "d_runs demo_p7 ''op-1'' \<noteq> None" by code_simp
  qed code_simp
  with demo_run7 show ?thesis by (rule rtranclp.rtrancl_into_rtrancl)
qed

section \<open>Properties\<close>

lemma process_reached:
  assumes "new_gate n q = Some g" and "store_inv d" and "owns w d"
    and "(disp_step w)\<^sup>*\<^sup>* (disp_init g d) s"
  shows "disp_inv w n s"
  using assms(4) disp_inv_init [OF assms(1-3)] by (rule process.inv_run)

text \<open>
  C7: Whatever the interleaving, failures of the database and cancellations included, an
  operation's relay is started at most once, and an operation whose relay was started is in the
  database as running, unknown, completed or failed: never as accepted, and never as
  \<open>cancelled_unsent\<close>. The rows that say "unsent" are true.
\<close>

theorem sent_once_and_never_unsent:
  assumes "new_gate n q = Some g" and "store_inv d" and "owns w d"
    and "(disp_step w)\<^sup>*\<^sup>* (disp_init g d) s"
  shows "distinct (d_sent s)
    \<and> list_all (\<lambda>oid. \<exists>r. op_at (d_db s) (own_node w, oid) = Some r
        \<and> op_state r \<noteq> Accepted \<and> op_state r \<noteq> CancelledUnsent) (d_sent s)"
proof -
  from process_reached [OF assms] have h: "hist w s" by (simp add: disp_inv_def)
  then have "sent_at w (d_db s) oid" if "oid \<in> set (d_sent s)" for oid
    using that by (auto simp: hist_def runs_ok_def committed_to_def)
  moreover have "distinct (d_sent s)" using h by (simp add: hist_def runs_ok_def)
  ultimately show ?thesis
    unfolding list_all_iff sent_at_def by (fastforce simp: sent_row_def)
qed

lemma sent_once_and_never_unsent_witness:
  "d_sent demo_p8 = [''op-1''] \<and> distinct (d_sent demo_p8)"
proof -
  have "d_sent demo_p8 = [''op-1'']" by code_simp
  then show ?thesis
    using sent_once_and_never_unsent [OF demo_new_gate demo_elected_inv demo_owns demo_run8 [unfolded demo_p0_def]]
    by simp
qed

lemma run_settle_records:
  assumes "uncertain out"
  shows "oid \<in> g_uncommitted (d_gate (run_settle oid r out s))"
  using assms by (simp add: run_settle_def set_run_def settle_begin_def close_locked_def)

text \<open>
  C10: A serving gate hides nothing. While it serves, no maintenance hold freezes it, no
  lifecycle operation holds the node, and no task is committing an uncertain outcome. A task
  that has only just received one still holds its slot, and the single step that takes it
  further leaves the gate not serving, with the outcome recorded as not committed: it serves
  again only when nothing is recorded so any more.
\<close>

theorem serving_hides_nothing:
  assumes "new_gate n q = Some g" and "store_inv d" and "owns w d"
    and "(disp_step w)\<^sup>*\<^sup>* (disp_init g d) s" and "g_state (d_gate s) = SERVING"
  shows "\<not> g_frozen (d_gate s) \<and> g_exclusive (d_gate s) = None \<and> g_uncommitted (d_gate s) = {}
    \<and> \<not> (\<exists>oid r out lc. d_runs s oid = Some r \<and> r_phase r = RCommit out lc \<and> uncertain out)
    \<and> \<not> (\<exists>oid r. d_runs s oid = Some r \<and> r_life r)
    \<and> (\<forall>oid r out t. d_runs s oid = Some r \<and> r_phase r = RSettle out \<and> uncertain out
         \<and> disp_step w s t \<longrightarrow>
           oid \<in> set (g_admitted (d_gate s))
           \<and> (d_runs t oid = Some r
              \<or> g_state (d_gate t) \<noteq> SERVING \<and> oid \<in> g_uncommitted (d_gate t)))"
proof -
  from process_reached [OF assms(1-4)]
  have i: "gate_modes (d_gate s)" "excl s" "pending_ok s" "tasks_ok s" "hist w s"
    by (simp_all add: disp_inv_def)
  then have u: "\<not> g_frozen (d_gate s)" "g_uncommitted (d_gate s) = {}" "g_exclusive (d_gate s) = None"
    using assms(5) by (auto simp: gate_modes_def)
  have "\<not> r_life r" if "d_runs s oid = Some r" for oid r
    using free_gate(2) [OF i(2) u(3) that] .
  moreover have "oid \<in> set (g_admitted (d_gate s))" if "d_runs s oid = Some r" for oid r
    using i(4) that by (auto simp: tasks_ok_def Let_def)
  moreover have "g_state (d_gate t) \<noteq> SERVING" if "disp_step w s t" "g_uncommitted (d_gate t) \<noteq> {}" for t
    using process_reached [OF assms(1-3) rtranclp.rtrancl_into_rtrancl [OF assms(4) that(1)]] that(2)
    by (auto simp: disp_inv_def gate_modes_def)
  moreover note settle_exit [OF _ i(5)] run_settle_records
  ultimately show ?thesis using u i(3) unfolding pending_ok_def
    by (intro conjI allI impI) (blast | (elim conjE, metis empty_iff))+
qed

text \<open>The demonstration run goes on: the runtime's answer is lost on the way.\<close>

definition demo_p9 :: disp where
  "demo_p9 = run_relay_end ''op-1'' (the (d_runs demo_p8 ''op-1'')) (RelayRaised ''ReadError'') demo_p8"

lemma demo_run9: "(disp_step demo_owner)\<^sup>*\<^sup>* demo_p0 demo_p9"
proof -
  have "disp_step demo_owner demo_p8 demo_p9"
    unfolding demo_p9_def
  proof (rule ds_relay_end)
    show "d_runs demo_p8 ''op-1'' = Some (the (d_runs demo_p8 ''op-1''))" by code_simp
    show "r_phase (the (d_runs demo_p8 ''op-1'')) = RSending" by code_simp
  qed (simp add: relay_says_def)
  with demo_run8 show ?thesis by simp
qed

definition demo_out :: outcome where
  "demo_out = Uncertain ''relay_error:ReadError'' []"

lemma serving_hides_nothing_witness:
  "g_state (d_gate demo_p9) = SERVING \<and> g_exclusive (d_gate demo_p9) = None
   \<and> map_option r_phase (d_runs demo_p9 ''op-1'') = Some (RSettle demo_out)
   \<and> ''op-1'' \<in> set (g_admitted (d_gate demo_p9))
   \<and> g_state (d_gate (run_settle ''op-1'' (the (d_runs demo_p9 ''op-1'')) demo_out demo_p9)) = BLOCKED"
  (is "?serving \<and> _ \<and> ?phase \<and> _ \<and> ?blocked")
proof -
  have 1: ?serving by code_simp
  have 2: ?phase by code_simp
  have 3: ?blocked by code_simp
  from 2 obtain r where r: "d_runs demo_p9 ''op-1'' = Some r" "r_phase r = RSettle demo_out" by auto
  have "uncertain demo_out" by (simp add: demo_out_def uncertain_def)
  with 1 2 3 r show ?thesis
    using serving_hides_nothing [OF demo_new_gate demo_elected_inv demo_owns demo_run9 [unfolded demo_p0_def] 1]
      ds_settle [OF r, of demo_owner]
    by blast
qed

text \<open>
  C9: A lifecycle operation has the node to itself: while its task exists, it is the only task,
  it holds the exclusive hold, and the gate does not serve.
\<close>

theorem lifecycle_runs_alone:
  assumes "new_gate n q = Some g" and "store_inv d" and "owns w d"
    and "(disp_step w)\<^sup>*\<^sup>* (disp_init g d) s" and "d_runs s oid = Some r" and "r_life r"
  shows "g_admitted (d_gate s) = [oid] \<and> dom (d_runs s) = {oid}
    \<and> g_exclusive (d_gate s) = Some oid \<and> g_state (d_gate s) \<noteq> SERVING"
proof -
  from process_reached [OF assms(1-4)] have i: "gate_modes (d_gate s)" "excl s" "tasks_ok s"
    by (simp_all add: disp_inv_def)
  from excl_runD(3,4) [OF i(2) assms(5)] assms(6)
  have "g_exclusive (d_gate s) = Some oid" "g_admitted (d_gate s) = [oid]" by simp_all
  with i show ?thesis by (auto simp: gate_modes_def tasks_ok_def Let_def)
qed

lemma lifecycle_runs_alone_witness:
  "g_admitted (d_gate demo_q8) = [''r-1''] \<and> r_life (the (d_runs demo_q8 ''r-1''))"
proof -
  have r: "d_runs demo_q8 ''r-1'' \<noteq> None" "r_life (the (d_runs demo_q8 ''r-1''))" by code_simp+
  then show ?thesis
    using lifecycle_runs_alone [OF demo_new_gate demo_closed_inv demo_closed_owns
        demo_run_q8 [unfolded demo_q0_def] runs_some [OF r(1)] r(2)] by blast
qed

text \<open>
  C8: A frozen gate sends nothing but the restore admitted for exactly its epoch: if a step
  starts a relay while the gate is frozen, the operation was admitted as a restore at the epoch
  the gate is frozen for, holds the node exclusively and is the only task.
\<close>

theorem frozen_gate_sends_only_its_restore:
  assumes "new_gate n q = Some g" and "store_inv d" and "owns w d"
    and "(disp_step w)\<^sup>*\<^sup>* (disp_init g d) s" and "disp_step w s t"
    and "g_frozen (d_gate s)" and "d_sent t = d_sent s @ [oid]"
  shows "(\<exists>e. g_restoring (d_gate s) oid = Some e \<and> g_frozen_epoch (d_gate s) = Some e)
    \<and> g_exclusive (d_gate s) = Some oid \<and> g_admitted (d_gate s) = [oid]"
proof -
  from process_reached [OF assms(1-4)] have ok: "excl s" by (simp add: disp_inv_def)
  have "\<exists>r. d_runs s oid = Some r \<and> \<not> withhold oid (d_gate s)"
    using assms(5,7)
  proof (induction rule: disp_step.induct)
    case (ds_start s' o' r)
    then show ?case by (auto simp: run_start_def set_run_def split: if_splits)
  qed (auto simp: call_begin_def call_observe_def call_admit_def call_insert_def call_insert_cancelled_def
      call_lost_def call_wait_def call_promote_def call_failed_def call_look_def call_unsent_def
      finish_call_def run_relay_end_def run_checkpoint_def run_settle_def run_commit_def run_finish_def
      set_run_def Let_def split: prod.splits sum.splits option.splits promotion.splits if_splits)
  then obtain r where r: "d_runs s oid = Some r" and pass: "\<not> withhold oid (d_gate s)" by blast
  then obtain e where e: "g_restoring (d_gate s) oid = Some e" "g_frozen_epoch (d_gate s) = Some e"
    using assms(6) by (auto simp: withhold_def split: option.splits)
  then have "(oid, True) \<in> known s" using ok unfolding excl_def ids_ok_def by blast
  with excl_runD(1) [OF ok r] ok have "r_life r" unfolding excl_def ids_ok_def by blast
  with excl_runD(3,4) [OF ok r] e show ?thesis by blast
qed

lemma frozen_gate_sends_only_its_restore_witness:
  "g_frozen (d_gate demo_q8) \<and> d_sent demo_q9 = [''r-1''] \<and> g_exclusive (d_gate demo_q8) = Some ''r-1''"
proof -
  have r: "g_frozen (d_gate demo_q8)" "d_sent demo_q9 = d_sent demo_q8 @ [''r-1'']"
    "d_sent demo_q9 = [''r-1'']" by code_simp+
  then show ?thesis
    using frozen_gate_sends_only_its_restore [OF demo_new_gate demo_closed_inv demo_closed_owns
        demo_run_q8 [unfolded demo_q0_def] demo_start_q9 r(1,2)] by blast
qed

text \<open>
  The gate's counters are the truth: slots free, slots held by waiting calls and admitted
  tasks always add up to \<open>max_inflight\<close>; \<open>_idle\<close> is set exactly when no task exists, so a drain
  that returns has waited for all of them; \<open>_quiet\<close> exactly when no relay runs; and a relay that
  runs belongs to an admitted task.
\<close>

theorem slots_and_events_exact:
  assumes "new_gate n q = Some g" and "store_inv d" and "owns w d"
    and "(disp_step w)\<^sup>*\<^sup>* (disp_init g d) s"
  shows "g_slots (d_gate s) + count_where (\<lambda>c. c_phase c = PSlot) (d_calls s)
      + length (g_admitted (d_gate s)) = n
    \<and> set (g_admitted (d_gate s)) = dom (d_runs s)
    \<and> (g_idle (d_gate s) \<longleftrightarrow> dom (d_runs s) = {})
    \<and> (g_quiet (d_gate s) \<longleftrightarrow> \<not> (\<exists>oid r. d_runs s oid = Some r \<and> r_phase r = RSending))
    \<and> set (g_sending (d_gate s)) \<subseteq> set (g_admitted (d_gate s))"
proof -
  from process_reached [OF assms] have i: "tasks_ok s" "slots_ok n s" by (simp_all add: disp_inv_def)
  then have a: "set (g_admitted (d_gate s)) = dom (d_runs s)"
    "set (g_sending (d_gate s)) = {oid. \<exists>r. d_runs s oid = Some r \<and> r_phase r = RSending}"
    "g_idle (d_gate s) \<longleftrightarrow> g_admitted (d_gate s) = []" "g_quiet (d_gate s) \<longleftrightarrow> g_sending (d_gate s) = []"
    by (simp_all add: tasks_ok_def Let_def)
  have "g_idle (d_gate s) \<longleftrightarrow> dom (d_runs s) = {}" unfolding a(1) [symmetric] a(3) by simp
  moreover have "g_quiet (d_gate s) \<longleftrightarrow> {oid. \<exists>r. d_runs s oid = Some r \<and> r_phase r = RSending} = {}"
    unfolding a(2) [symmetric] a(4) by simp
  moreover have "set (g_sending (d_gate s)) \<subseteq> set (g_admitted (d_gate s))" unfolding a(1,2) by blast
  ultimately show ?thesis using i(2) a(1) by (simp add: slots_ok_def)
qed

lemma slots_and_events_exact_witness:
  "g_slots (d_gate demo_p8) = 1 \<and> length (g_admitted (d_gate demo_p8)) = 1
   \<and> set (g_admitted (d_gate demo_p8)) = dom (d_runs demo_p8)"
proof -
  have "g_slots (d_gate demo_p8) = 1" "length (g_admitted (d_gate demo_p8)) = 1" by code_simp+
  then show ?thesis
    using slots_and_events_exact [OF demo_new_gate demo_elected_inv demo_owns demo_run8 [unfolded demo_p0_def]]
    by blast
qed

lemma lost_step: "disp_step w s t \<Longrightarrow> g_state (d_gate s) = LOST \<Longrightarrow>
    g_state (d_gate t) = LOST \<and> dom (d_runs t) \<subseteq> dom (d_runs s)"
proof
  assume st: "disp_step w s t" and lost: "g_state (d_gate s) = LOST"
  from step_keeps [OF st] lost show "g_state (d_gate t) = LOST" by (auto simp: keeps_def)
  from st lost show "dom (d_runs t) \<subseteq> dom (d_runs s)"
  proof (induction rule: disp_step.induct)
    case (ds_promote s i c cancelled f now host fr)
    have "(if c_life c
         then exclusive_locked w f now host (c_op c) (c_prov c) (c_epoch c) (d_gate s) (d_db s)
         else promote_locked w f now host (c_op c) (c_prov c) (d_gate s) (d_db s)) \<noteq> (Created, g, d)" for g d
      using ds_promote.prems by (auto simp: exclusive_locked_def promote_locked_def restorable_locked_def)
    from promote_calm [OF this] show ?case by (simp add: calm_def)
  next
    case (ds_insert s i c f now fr)
    with insert_still [of s w f now "unk_of w fr s" i c] show ?case by (simp add: still_def)
  next
    case (ds_failed s i c a fr f now fr')
    with failed_still [of s w fr f now "unk_of w fr' s" i c a] show ?case by (simp add: still_def)
  next
    case (ds_unsent s i c r' b f now fr)
    with unsent_still [of s w f now "unk_of w fr s" i c r' b] show ?case by (simp add: still_def)
  next
    case (ds_look s i c fr fr')
    with look_still [of s w fr "unk_of w fr' s" i c] show ?case by (simp add: still_def)
  next
    case (ds_checkpoint s o' r' f obs)
    with checkpoint_still [of s w f o' obs] show ?case by (simp add: still_def)
  next
    case (ds_admit s i c)
    with admit_still [of s i c] show ?case by (simp add: still_def)
  next
    case (ds_wait s i c expired)
    with wait_still [of s expired i c] show ?case by (simp add: still_def)
  next
    case (ds_insert_cancelled s i c f now fr)
    with insert_cancelled_still [of s w f now "unk_of w fr s" i c] show ?case by (simp add: still_def)
  next
    case (ds_commit s o' r' out' lc' f now)
    then show ?case by (auto simp: run_commit_def set_run_def split: prod.splits)
  qed (auto simp: call_begin_def call_observe_def call_lost_def finish_call_def run_start_def
      run_relay_end_def run_settle_def run_finish_def set_run_def split: if_splits)
qed

text \<open>
  A lost role is final: from a gate that is \<open>LOST\<close> no interleaving leads to another state, and
  no task is admitted that was not admitted already.
\<close>

theorem lost_role_is_final:
  assumes "(disp_step w)\<^sup>*\<^sup>* s t" and "g_state (d_gate s) = LOST"
  shows "g_state (d_gate t) = LOST \<and> dom (d_runs t) \<subseteq> dom (d_runs s)"
  using assms(1)
proof (induction rule: rtranclp_induct)
  case base
  then show ?case using assms(2) by simp
next
  case (step y z)
  then show ?case using lost_step [OF step.hyps(2)] by blast
qed

lemma lost_role_is_final_witness:
  "g_state (d_gate (demo_p8\<lparr>d_gate := snd (reopen (Inr False) (lose_role (d_gate demo_p8)))\<rparr>)) = LOST"
proof -
  let ?s = "demo_p8\<lparr>d_gate := lose_role (d_gate demo_p8)\<rparr>"
  have lost: "g_state (d_gate ?s) = LOST" by code_simp
  have u: "unk_of demo_owner Works ?s = Inr False" by code_simp
  have "disp_step demo_owner ?s (?s\<lparr>d_gate := snd (reopen (unk_of demo_owner Works ?s) (d_gate ?s))\<rparr>)"
    by (rule ds_gate) (rule go_reopen)
  then have "(disp_step demo_owner)\<^sup>*\<^sup>* ?s (demo_p8\<lparr>d_gate := snd (reopen (Inr False) (lose_role (d_gate demo_p8)))\<rparr>)"
    unfolding u by auto
  from lost_role_is_final [OF this lost] show ?thesis by blast
qed

fun outcome_state :: "outcome \<Rightarrow> op_state" where
  "outcome_state (RtCompleted _ _ _) = Completed"
| "outcome_state (RuntimeRefused _ _) = Failed"
| "outcome_state (NotSent _) = Failed"
| "outcome_state (Uncertain _ _) = OutcomeUnknown"
| "outcome_state (Withheld _) = CancelledUnsent"

lemma hit_row: "op_at d (own_node w, oid) = Some r \<Longrightarrow> op_state r = Running \<Longrightarrow>
    owner_generation r = own_generation w \<Longrightarrow> running_where w oid r \<and> list_ex (running_where w oid) (operations d)"
  by (auto simp: running_where_def list_ex_iff dest: row_at_SomeD)

text \<open>
  A settlement that reaches the database leaves the row in the state the runtime's evidence
  says: completed, failed (also when nothing was sent), unknown or cancelled unsent; and only then is
  an uncertain operation no longer held as uncommitted.
\<close>

theorem settlement_writes_the_evidence:
  assumes "owns w d" and "op_at d (own_node w, oid) = Some r" and "op_state r = Running"
    and "owner_generation r = own_generation w"
  shows "fst (settle_try w Works now oid out g d) = Settled
    \<and> map_option op_state (op_at (snd (snd (settle_try w Works now oid out g d))) (own_node w, oid))
        = Some (outcome_state out)
    \<and> (uncertain out \<longrightarrow> oid \<notin> g_uncommitted (fst (snd (settle_try w Works now oid out g d))))
    \<and> settle_try w FailsBefore now oid out g d = (StillSettling, g, d)"
proof -
  note hit = hit_row [OF assms(2-4)]
  have res: "fst (commit_outcome w now oid out d) = Inr True
      \<and> map_option op_state (op_at (snd (commit_outcome w now oid out d)) (own_node w, oid))
          = Some (outcome_state out)"
  proof (cases out)
    case (RtCompleted trm res rep)
    show ?thesis using hit assms(1,2)
      by (simp add: RtCompleted commit_outcome_def finish_def owned_ok Let_def completed_write.row_at_upd
          finish_set_def split: option.split)
  next
    case (RuntimeRefused trm rsn)
    show ?thesis using hit assms(1,2)
      by (simp add: RuntimeRefused commit_outcome_def finish_def owned_ok Let_def failed_write.row_at_upd
          finish_set_def)
  next
    case (NotSent rsn)
    show ?thesis using hit assms(1,2)
      by (simp add: NotSent commit_outcome_def finish_def owned_ok Let_def failed_write.row_at_upd
          finish_set_def)
  next
    case (Uncertain rsn obs)
    show ?thesis using hit assms(1,2)
      by (simp add: Uncertain commit_outcome_def mark_unknown_def owned_ok unknown_write.row_at_upd unknown_set_def)
  next
    case (Withheld rsn)
    show ?thesis using hit assms(1,2)
      by (simp add: Withheld commit_outcome_def unsent_after_promotion_def owned_ok unsent_write.row_at_upd unsent_set_def)
  qed
  obtain d' where c: "commit_outcome w now oid out d = (Inr True, d')" using res by (cases "commit_outcome w now oid out d") auto
  have "settle_try w Works now oid out g d =
      (Settled, if uncertain out then g\<lparr>g_uncommitted := g_uncommitted g - {oid}\<rparr> else g, d')"
    by (simp add: settle_try_def call_store_def c)
  moreover have "settle_try w FailsBefore now oid out g d = (StillSettling, g, d)"
    by (simp add: settle_try_def call_store_def not_owner_def)
  ultimately show ?thesis using res by (simp add: c)
qed

lemma settlement_writes_the_evidence_witness:
  "fst (settle_try demo_owner Works 5 ''op'' (Uncertain ''eof_without_done'' []) demo_gate demo_running) = Settled"
proof -
  have r: "owns demo_owner demo_running" "op_at demo_running (own_node demo_owner, ''op'') \<noteq> None"
    "op_state (the (op_at demo_running (own_node demo_owner, ''op''))) = Running"
    "owner_generation (the (op_at demo_running (own_node demo_owner, ''op''))) = own_generation demo_owner"
    by code_simp+
  from r(2) have "op_at demo_running (own_node demo_owner, ''op'')
      = Some (the (op_at demo_running (own_node demo_owner, ''op'')))" by simp
  from settlement_writes_the_evidence [OF r(1) this r(3,4)] show ?thesis by blast
qed

end
