(* ===== verification/Chat.thy ===== *)
theory Chat
  imports Prelude
begin

text \<open>
  The chat primitives of \<open>src/backend/app/domain/entities/chat.py\<close>. A float is a mantissa and
  a decimal exponent; tuples are lists.
\<close>

datatype message_role = SYSTEM | USER | ASSISTANT | TOOL

fun role_value :: "message_role \<Rightarrow> string" where
  "role_value SYSTEM = ''system''"
| "role_value USER = ''user''"
| "role_value ASSISTANT = ''assistant''"
| "role_value TOOL = ''tool''"

record tool_call =
  tc_id :: string
  tc_name :: string
  tc_arguments :: string

record tool_definition =
  td_name :: string
  td_description :: string
  td_parameters :: jobj

datatype tool_choice_mode = AUTO | NONE | REQUIRED | FUNCTION

fun mode_value :: "tool_choice_mode \<Rightarrow> string" where
  "mode_value AUTO = ''auto''"
| "mode_value NONE = ''none''"
| "mode_value REQUIRED = ''required''"
| "mode_value FUNCTION = ''function''"

record tool_choice =
  tch_mode :: tool_choice_mode
  tch_function_name :: "string option"

type_synonym pyfloat = "int \<times> int"

record sampling_options =
  s_temperature :: "pyfloat option"
  s_top_p :: "pyfloat option"
  s_stop :: "string list"
  s_seed :: "int option"

definition sampling_is_empty :: "sampling_options \<Rightarrow> bool" where
  "sampling_is_empty s \<longleftrightarrow>
     s_temperature s = None \<and> s_top_p s = None \<and> s_stop s = [] \<and> s_seed s = None"

record chat_message =
  msg_role :: message_role
  msg_content :: string
  msg_tool_calls :: "tool_call list"
  msg_tool_call_id :: "string option"
  msg_name :: "string option"

text \<open>\<open>MessageRole(value)\<close> and \<open>ToolChoiceMode(value)\<close>: None is the ValueError.\<close>

definition parse_role :: "string \<Rightarrow> message_role option" where
  "parse_role v = List.find (\<lambda>r. role_value r = v) [SYSTEM, USER, ASSISTANT, TOOL]"

definition parse_mode :: "string \<Rightarrow> tool_choice_mode option" where
  "parse_mode v = List.find (\<lambda>m. mode_value m = v) [AUTO, NONE, REQUIRED, FUNCTION]"

lemma parse_role_value [simp]: "parse_role (role_value r) = Some r"
  by (cases r) (simp_all add: parse_role_def)

lemma parse_mode_value [simp]: "parse_mode (mode_value m) = Some m"
  by (cases m) (simp_all add: parse_mode_def)

lemma role_value_not_Nil [simp]: "role_value r \<noteq> []"
  by (cases r) simp_all

lemma mode_value_not_Nil [simp]: "mode_value m \<noteq> []"
  by (cases m) simp_all

lemma parse_role_SomeD: "parse_role v = Some r \<Longrightarrow> v = role_value r"
  by (auto simp: parse_role_def split: if_splits)

lemma parse_mode_SomeD: "parse_mode v = Some m \<Longrightarrow> v = mode_value m"
  by (auto simp: parse_mode_def split: if_splits)

end
