(* ===== verification/Wire.thy ===== *)
theory Wire
  imports Chat "HOL-Library.Char_ord"
begin

text \<open>
  What crosses the wire between the gateway and a node agent,
  \<open>src/backend/app/node_agent/wire.py\<close>: the encoders, and the strict decoders with one
  \<open>wire_error\<close> per \<open>raise\<close>. Values are decoded JSON.
\<close>

section \<open>Requests\<close>

definition WIRE_VERSION :: int where
  "WIRE_VERSION = 1"

datatype wire_error =
    NotObject string | NotList string | NotString string bool | NotOptString string
  | NotBool string | NotPositive string | NotOptInt string | NotOptNumber string
  | WrongVersion json | UnknownRole json | UnknownMode json | BadStop | BadParameters
  | NoMessages | BadTexts | BadExpected | TooLong string nat | BadContext | BadDigest
  | FloatOverflow string

record generation_request =
  gr_ref :: string
  gr_messages :: "chat_message list"
  gr_max_tokens :: int
  gr_thinking :: bool
  gr_tools :: "tool_definition list"
  gr_tool_choice :: "tool_choice option"
  gr_sampling :: "sampling_options option"
  gr_context_length :: int

record embedding_request =
  er_ref :: string
  er_texts :: "string list"
  er_expected_manifest :: "string option"

record lifecycle_request =
  lr_op_id :: string
  lr_ref :: string
  lr_context_length :: "int option"
  lr_manifest_digest :: "string option"

record envelope =
  env_op_id :: string
  env_request_id :: "string option"
  env_payload_hash :: "string option"
  env_store_output :: bool

section \<open>Encoding\<close>

definition jopt_float :: "pyfloat option \<Rightarrow> json" where
  "jopt_float x = (case x of None \<Rightarrow> JNull | Some (m, e) \<Rightarrow> JFloat m e)"

definition envelope_fields :: "envelope \<Rightarrow> jobj" where
  "envelope_fields e =
     [(''op_id'', JStr (env_op_id e)), (''request_id'', jopt_str (env_request_id e)),
      (''payload_hash'', jopt_str (env_payload_hash e)), (''store_output'', JBool (env_store_output e))]"

definition encode_call :: "tool_call \<Rightarrow> json" where
  "encode_call c = JObj [(''id'', JStr (tc_id c)), (''name'', JStr (tc_name c)),
                         (''arguments'', JStr (tc_arguments c))]"

definition encode_message :: "chat_message \<Rightarrow> json" where
  "encode_message m =
     JObj [(''role'', JStr (role_value (msg_role m))), (''content'', JStr (msg_content m)),
           (''tool_calls'', JList (map encode_call (msg_tool_calls m))),
           (''tool_call_id'', jopt_str (msg_tool_call_id m)), (''name'', jopt_str (msg_name m))]"

definition encode_tool :: "tool_definition \<Rightarrow> json" where
  "encode_tool t = JObj [(''name'', JStr (td_name t)), (''description'', JStr (td_description t)),
                         (''parameters'', JObj (td_parameters t))]"

definition encode_tool_choice :: "tool_choice option \<Rightarrow> json" where
  "encode_tool_choice tc = (case tc of None \<Rightarrow> JNull
     | Some t \<Rightarrow> JObj [(''mode'', JStr (mode_value (tch_mode t))),
                       (''function_name'', jopt_str (tch_function_name t))])"

definition encode_sampling :: "sampling_options option \<Rightarrow> json" where
  "encode_sampling sm = (case sm of None \<Rightarrow> JNull
     | Some s \<Rightarrow> JObj [(''temperature'', jopt_float (s_temperature s)),
                       (''top_p'', jopt_float (s_top_p s)),
                       (''stop'', JList (map JStr (s_stop s))), (''seed'', jopt_int (s_seed s))])"

definition encode_generation :: "generation_request \<Rightarrow> envelope \<Rightarrow> json" where
  "encode_generation r e =
     JObj ((''version'', JInt WIRE_VERSION) # envelope_fields e @
       [(''ref'', JStr (gr_ref r)), (''messages'', JList (map encode_message (gr_messages r))),
        (''max_tokens'', JInt (gr_max_tokens r)), (''thinking'', JBool (gr_thinking r)),
        (''tools'', JList (map encode_tool (gr_tools r))),
        (''tool_choice'', encode_tool_choice (gr_tool_choice r)),
        (''sampling'', encode_sampling (gr_sampling r)),
        (''context_length'', JInt (gr_context_length r))])"

text \<open>\<open>**({...} if x else {})\<close>: the key is left out when the value is None or empty.\<close>

definition when_text :: "string \<Rightarrow> string option \<Rightarrow> jobj" where
  "when_text k x = (case x of None \<Rightarrow> [] | Some v \<Rightarrow> if v = [] then [] else [(k, JStr v)])"

definition encode_embedding :: "embedding_request \<Rightarrow> envelope \<Rightarrow> json" where
  "encode_embedding r e =
     JObj ((''version'', JInt WIRE_VERSION) # envelope_fields e @
       [(''ref'', JStr (er_ref r)), (''texts'', JList (map JStr (er_texts r)))]
       @ when_text ''expected_manifest'' (er_expected_manifest r))"

definition encode_lifecycle :: "lifecycle_request \<Rightarrow> json" where
  "encode_lifecycle r =
     JObj ([(''version'', JInt WIRE_VERSION), (''op_id'', JStr (lr_op_id r)), (''ref'', JStr (lr_ref r)),
            (''context_length'', jopt_int (lr_context_length r))]
       @ when_text ''manifest_digest'' (lr_manifest_digest r))"

section \<open>Decoding\<close>

subsection \<open>Fields\<close>

definition as_object :: "json \<Rightarrow> string \<Rightarrow> wire_error + jobj" where
  "as_object raw what = (case raw of JObj d \<Rightarrow> Inr d | _ \<Rightarrow> Inl (NotObject what))"

definition get_list :: "jobj \<Rightarrow> string \<Rightarrow> wire_error + json list" where
  "get_list d k = (case dget d k of JList xs \<Rightarrow> Inr xs | _ \<Rightarrow> Inl (NotList k))"

definition get_str :: "jobj \<Rightarrow> string \<Rightarrow> bool \<Rightarrow> wire_error + string" where
  "get_str d k may_be_empty =
     (case dget d k of
        JStr s \<Rightarrow> if s = [] \<and> \<not> may_be_empty then Inl (NotString k may_be_empty) else Inr s
      | _ \<Rightarrow> Inl (NotString k may_be_empty))"

definition get_opt_str :: "jobj \<Rightarrow> string \<Rightarrow> wire_error + string option" where
  "get_opt_str d k =
     (case dget d k of JNull \<Rightarrow> Inr None | JStr s \<Rightarrow> Inr (Some s) | _ \<Rightarrow> Inl (NotOptString k))"

definition get_bool :: "jobj \<Rightarrow> string \<Rightarrow> wire_error + bool" where
  "get_bool d k = (case dget d k of JBool b \<Rightarrow> Inr b | _ \<Rightarrow> Inl (NotBool k))"

definition get_positive :: "jobj \<Rightarrow> string \<Rightarrow> wire_error + int" where
  "get_positive d k =
     (case dget d k of JInt n \<Rightarrow> if n \<le> 0 then Inl (NotPositive k) else Inr n | _ \<Rightarrow> Inl (NotPositive k))"

definition get_opt_int :: "jobj \<Rightarrow> string \<Rightarrow> wire_error + int option" where
  "get_opt_int d k =
     (case dget d k of JNull \<Rightarrow> Inr None | JInt n \<Rightarrow> Inr (Some n) | _ \<Rightarrow> Inl (NotOptInt k))"

text \<open>
  \<open>float(value)\<close> of an integer is the nearest double, ties to even; beyond the largest double it is
  an \<open>OverflowError\<close>, which is no \<open>WireError\<close> and has a constructor of its own here.
\<close>

fun bit_length :: "nat \<Rightarrow> nat" where
  "bit_length n = (if n = 0 then 0 else Suc (bit_length (n div 2)))"

declare bit_length.simps [simp del]

definition half_even :: "nat \<Rightarrow> nat \<Rightarrow> nat" where
  "half_even a b = (let q = a div b; r = a mod b in
     if 2 * r < b \<or> 2 * r = b \<and> even q then q else q + 1)"

definition py_float :: "int \<Rightarrow> int option" where
  "py_float n =
     (let a = nat \<bar>n\<bar>; k = 2 ^ (bit_length a - 53); x = half_even a k * k in
      if x \<ge> 2 ^ 1024 then None else Some (sgn n * int x))"

definition get_opt_number :: "jobj \<Rightarrow> string \<Rightarrow> wire_error + pyfloat option" where
  "get_opt_number d k =
     (case dget d k of
        JNull \<Rightarrow> Inr None
      | JInt n \<Rightarrow> (case py_float n of None \<Rightarrow> Inl (FloatOverflow k) | Some f \<Rightarrow> Inr (Some (f, 0)))
      | JFloat m e \<Rightarrow> Inr (Some (m, e))
      | _ \<Rightarrow> Inl (NotOptNumber k))"

text \<open>
  \<open>data.get("version") != WIRE_VERSION\<close> is Python's equality: 1, \<open>True\<close> and 1.0 are all equal to 1.
\<close>

definition eq_one :: "json \<Rightarrow> bool" where
  "eq_one j = (case j of JInt n \<Rightarrow> n = 1 | JBool b \<Rightarrow> b
     | JFloat m e \<Rightarrow> if e \<ge> 0 then m = 1 \<and> e = 0 else m = 10 ^ nat (- e)
     | _ \<Rightarrow> False)"

definition check_version :: "jobj \<Rightarrow> wire_error + unit" where
  "check_version d = ensure (WrongVersion (dget d ''version'')) (eq_one (dget d ''version''))"

subsection \<open>Requests\<close>

definition MAX_LENGTHS :: "(string \<times> nat) list" where
  "MAX_LENGTHS = [(''op_id'', 36), (''request_id'', 128), (''payload_hash'', 80)]"

definition within :: "string \<Rightarrow> nat \<Rightarrow> string option \<Rightarrow> wire_error + unit" where
  "within k limit v = ensure (TooLong k limit) (case v of None \<Rightarrow> True | Some s \<Rightarrow> length s \<le> limit)"

definition decode_envelope :: "jobj \<Rightarrow> wire_error + envelope" where
  "decode_envelope d =
     ebind (get_str d ''op_id'' False) (\<lambda>oid.
     ebind (get_opt_str d ''request_id'') (\<lambda>rid.
     ebind (get_opt_str d ''payload_hash'') (\<lambda>ph.
     ebind (get_bool d ''store_output'') (\<lambda>st.
     ebind (within ''op_id'' 36 (Some oid)) (\<lambda>_.
     ebind (within ''request_id'' 128 rid) (\<lambda>_.
     ebind (within ''payload_hash'' 80 ph) (\<lambda>_.
       Inr \<lparr>env_op_id = oid, env_request_id = rid, env_payload_hash = ph, env_store_output = st\<rparr>)))))))"

definition decode_call :: "json \<Rightarrow> wire_error + tool_call" where
  "decode_call raw =
     ebind (as_object raw ''tool call'') (\<lambda>c.
     ebind (get_str c ''id'' False) (\<lambda>i.
     ebind (get_str c ''name'' False) (\<lambda>n.
     ebind (get_str c ''arguments'' False) (\<lambda>a.
       Inr \<lparr>tc_id = i, tc_name = n, tc_arguments = a\<rparr>))))"

text \<open>A WireError is a ValueError, so a role that is no string ends as an unknown role too.\<close>

definition get_role :: "jobj \<Rightarrow> wire_error + message_role" where
  "get_role d =
     (case get_str d ''role'' False of
        Inl _ \<Rightarrow> Inl (UnknownRole (dget d ''role''))
      | Inr v \<Rightarrow> (case parse_role v of None \<Rightarrow> Inl (UnknownRole (dget d ''role'')) | Some r \<Rightarrow> Inr r))"

definition decode_message :: "json \<Rightarrow> wire_error + chat_message" where
  "decode_message raw =
     ebind (as_object raw ''message'') (\<lambda>d.
     ebind (get_role d) (\<lambda>role.
     ebind (get_list d ''tool_calls'') (\<lambda>xs.
     ebind (emap decode_call xs) (\<lambda>calls.
     ebind (get_str d ''content'' True) (\<lambda>content.
     ebind (get_opt_str d ''tool_call_id'') (\<lambda>tid.
     ebind (get_opt_str d ''name'') (\<lambda>n.
       Inr \<lparr>msg_role = role, msg_content = content, msg_tool_calls = calls,
            msg_tool_call_id = tid, msg_name = n\<rparr>)))))))"

definition decode_tool :: "json \<Rightarrow> wire_error + tool_definition" where
  "decode_tool raw =
     ebind (as_object raw ''tool'') (\<lambda>d.
     ebind (case dget d ''parameters'' of JObj p \<Rightarrow> Inr p | _ \<Rightarrow> Inl BadParameters) (\<lambda>p.
     ebind (get_str d ''name'' False) (\<lambda>n.
     ebind (get_str d ''description'' True) (\<lambda>ds.
       Inr \<lparr>td_name = n, td_description = ds, td_parameters = p\<rparr>))))"

definition get_mode :: "jobj \<Rightarrow> wire_error + tool_choice_mode" where
  "get_mode d =
     (case get_str d ''mode'' False of
        Inl _ \<Rightarrow> Inl (UnknownMode (dget d ''mode''))
      | Inr v \<Rightarrow> (case parse_mode v of None \<Rightarrow> Inl (UnknownMode (dget d ''mode'')) | Some m \<Rightarrow> Inr m))"

definition decode_tool_choice :: "json \<Rightarrow> wire_error + tool_choice option" where
  "decode_tool_choice raw =
     (if raw = JNull then Inr None
      else ebind (as_object raw ''tool_choice'') (\<lambda>d.
           ebind (get_mode d) (\<lambda>m.
           ebind (get_opt_str d ''function_name'') (\<lambda>f.
             Inr (Some \<lparr>tch_mode = m, tch_function_name = f\<rparr>)))))"

definition as_str :: "'e \<Rightarrow> json \<Rightarrow> 'e + string" where
  "as_str e j = (case j of JStr s \<Rightarrow> Inr s | _ \<Rightarrow> Inl e)"

definition decode_sampling :: "json \<Rightarrow> wire_error + sampling_options option" where
  "decode_sampling raw =
     (if raw = JNull then Inr None
      else ebind (as_object raw ''sampling'') (\<lambda>d.
           ebind (case map_of d ''stop'' of None \<Rightarrow> Inr [] | Some (JList xs) \<Rightarrow> Inr xs | Some _ \<Rightarrow> Inl BadStop)
             (\<lambda>xs.
           ebind (emap (as_str BadStop) xs) (\<lambda>stop.
           ebind (get_opt_number d ''temperature'') (\<lambda>t.
           ebind (get_opt_number d ''top_p'') (\<lambda>p.
           ebind (get_opt_int d ''seed'') (\<lambda>seed.
             Inr (Some \<lparr>s_temperature = t, s_top_p = p, s_stop = stop, s_seed = seed\<rparr>))))))))"

definition decode_generation :: "json \<Rightarrow> wire_error + generation_request \<times> envelope" where
  "decode_generation body =
     ebind (as_object body ''body'') (\<lambda>d.
     ebind (check_version d) (\<lambda>_.
     ebind (get_str d ''ref'' False) (\<lambda>ref.
     ebind (get_list d ''messages'') (\<lambda>xs.
     ebind (emap decode_message xs) (\<lambda>ms.
     ebind (get_positive d ''max_tokens'') (\<lambda>mt.
     ebind (get_bool d ''thinking'') (\<lambda>th.
     ebind (get_list d ''tools'') (\<lambda>ts.
     ebind (emap decode_tool ts) (\<lambda>tools.
     ebind (decode_tool_choice (dget d ''tool_choice'')) (\<lambda>tc.
     ebind (decode_sampling (dget d ''sampling'')) (\<lambda>sm.
     ebind (get_positive d ''context_length'') (\<lambda>cl.
     ebind (ensure NoMessages (ms \<noteq> [])) (\<lambda>_.
     ebind (decode_envelope d) (\<lambda>e.
       Inr (\<lparr>gr_ref = ref, gr_messages = ms, gr_max_tokens = mt, gr_thinking = th, gr_tools = tools,
             gr_tool_choice = tc, gr_sampling = sm, gr_context_length = cl\<rparr>, e)))))))))))))))"

definition decode_embedding :: "json \<Rightarrow> wire_error + embedding_request \<times> envelope" where
  "decode_embedding body =
     ebind (as_object body ''body'') (\<lambda>d.
     ebind (check_version d) (\<lambda>_.
     ebind (get_list d ''texts'') (\<lambda>xs.
     ebind (ensure BadTexts (xs \<noteq> [])) (\<lambda>_.
     ebind (emap (as_str BadTexts) xs) (\<lambda>texts.
     ebind (get_opt_str d ''expected_manifest'') (\<lambda>expected.
     ebind (ensure BadExpected (case expected of None \<Rightarrow> True
                                | Some s \<Rightarrow> \<not> (s = [] \<or> length s > 80))) (\<lambda>_.
     ebind (get_str d ''ref'' False) (\<lambda>ref.
     ebind (decode_envelope d) (\<lambda>e.
       Inr (\<lparr>er_ref = ref, er_texts = texts, er_expected_manifest = expected\<rparr>, e))))))))))"

definition is_digest :: "string \<Rightarrow> bool" where
  "is_digest s \<longleftrightarrow> length s = 64 \<and>
     list_all (\<lambda>c. (CHR ''0'' \<le> c \<and> c \<le> CHR ''9'') \<or> (CHR ''a'' \<le> c \<and> c \<le> CHR ''f'')) s"

definition decode_lifecycle :: "json \<Rightarrow> wire_error + lifecycle_request" where
  "decode_lifecycle body =
     ebind (as_object body ''body'') (\<lambda>d.
     ebind (check_version d) (\<lambda>_.
     ebind (get_str d ''op_id'' False) (\<lambda>oid.
     ebind (get_str d ''ref'' False) (\<lambda>ref.
     ebind (get_opt_int d ''context_length'') (\<lambda>cl.
     ebind (get_opt_str d ''manifest_digest'') (\<lambda>dg.
     ebind (within ''op_id'' 36 (Some oid)) (\<lambda>_.
     ebind (ensure BadContext (case cl of None \<Rightarrow> True | Some n \<Rightarrow> n > 0)) (\<lambda>_.
     ebind (ensure BadDigest (case dg of None \<Rightarrow> True | Some s \<Rightarrow> is_digest s)) (\<lambda>_.
       Inr \<lparr>lr_op_id = oid, lr_ref = ref, lr_context_length = cl, lr_manifest_digest = dg\<rparr>)))))))))"

section \<open>What the decoders accept\<close>

lemmas field_defs = get_list_def get_str_def get_opt_str_def get_bool_def get_positive_def
  get_opt_int_def get_opt_number_def

lemma get_str_InrD: "get_str d k b = Inr s \<Longrightarrow> dget d k = JStr s \<and> (s \<noteq> [] \<or> b)"
  by (auto simp: get_str_def split: json.splits if_splits)

lemma get_positive_InrD: "get_positive d k = Inr n \<Longrightarrow> dget d k = JInt n \<and> n > 0"
  by (auto simp: get_positive_def split: json.splits if_splits)

lemma get_bool_InrD: "get_bool d k = Inr b \<Longrightarrow> dget d k = JBool b"
  by (auto simp: get_bool_def split: json.splits)

lemma within_InrD: "within k l v = Inr u \<Longrightarrow> case v of None \<Rightarrow> True | Some s \<Rightarrow> length s \<le> l"
  by (simp add: within_def)

subsection \<open>Values that survive the wire\<close>

definition call_ok :: "tool_call \<Rightarrow> bool" where
  "call_ok c \<longleftrightarrow> tc_id c \<noteq> [] \<and> tc_name c \<noteq> [] \<and> tc_arguments c \<noteq> []"

definition envelope_ok :: "envelope \<Rightarrow> bool" where
  "envelope_ok e \<longleftrightarrow> env_op_id e \<noteq> [] \<and> length (env_op_id e) \<le> 36
     \<and> (case env_request_id e of None \<Rightarrow> True | Some s \<Rightarrow> length s \<le> 128)
     \<and> (case env_payload_hash e of None \<Rightarrow> True | Some s \<Rightarrow> length s \<le> 80)"

definition generation_ok :: "generation_request \<Rightarrow> bool" where
  "generation_ok r \<longleftrightarrow> gr_ref r \<noteq> [] \<and> gr_messages r \<noteq> [] \<and> gr_max_tokens r > 0 \<and> gr_context_length r > 0
     \<and> list_all (\<lambda>m. list_all call_ok (msg_tool_calls m)) (gr_messages r)
     \<and> list_all (\<lambda>t. td_name t \<noteq> []) (gr_tools r)"

lemma opt_str_field [simp]: "(case jopt_str x of JNull \<Rightarrow> Inr None | JStr s \<Rightarrow> Inr (Some s) | _ \<Rightarrow> e) = Inr x"
  by (cases x) (simp_all add: jopt_str_def)

lemma opt_int_field [simp]: "(case jopt_int x of JNull \<Rightarrow> Inr None | JInt s \<Rightarrow> Inr (Some s) | _ \<Rightarrow> e) = Inr x"
  by (cases x) (simp_all add: jopt_int_def)

lemma opt_float_field [simp]:
  "(case jopt_float x of JNull \<Rightarrow> Inr None | JInt n \<Rightarrow> f n | JFloat m ex \<Rightarrow> Inr (Some (m, ex)) | _ \<Rightarrow> e) = Inr x"
  by (cases x) (auto simp: jopt_float_def)

lemma decode_call_encode: "call_ok c \<Longrightarrow> decode_call (encode_call c) = Inr c"
  by (simp add: decode_call_def encode_call_def as_object_def get_str_def call_ok_def)

lemma decode_message_encode:
  assumes "list_all call_ok (msg_tool_calls m)"
  shows "decode_message (encode_message m) = Inr m"
proof -
  have calls: "emap decode_call (map encode_call (msg_tool_calls m)) = Inr (msg_tool_calls m)"
    using assms by (intro emap_roundtrip decode_call_encode) (simp add: list_all_iff)
  show ?thesis
    by (simp add: decode_message_def encode_message_def as_object_def get_role_def field_defs calls)
qed

lemma decode_tool_encode: "td_name t \<noteq> [] \<Longrightarrow> decode_tool (encode_tool t) = Inr t"
  by (simp add: decode_tool_def encode_tool_def as_object_def get_str_def)

lemma decode_tool_choice_encode: "decode_tool_choice (encode_tool_choice tc) = Inr tc"
  by (cases tc) (simp_all add: decode_tool_choice_def encode_tool_choice_def as_object_def get_mode_def field_defs)

lemma strings_roundtrip: "emap (as_str e) (map JStr xs) = Inr xs"
  by (rule emap_roundtrip) (simp add: as_str_def)

lemma decode_sampling_encode: "decode_sampling (encode_sampling sm) = Inr sm"
  by (cases sm) (simp_all add: decode_sampling_def encode_sampling_def as_object_def strings_roundtrip
      get_opt_number_def get_opt_int_def)

lemma get_fields [simp]:
  "get_str ((k, v) # d) k' b = (if k' = k then (case v of JStr s \<Rightarrow> if s = [] \<and> \<not> b then Inl (NotString k' b) else Inr s
      | _ \<Rightarrow> Inl (NotString k' b)) else get_str d k' b)"
  "get_opt_str ((k, v) # d) k' = (if k' = k then (case v of JNull \<Rightarrow> Inr None | JStr s \<Rightarrow> Inr (Some s)
      | _ \<Rightarrow> Inl (NotOptString k')) else get_opt_str d k')"
  "get_bool ((k, v) # d) k' = (if k' = k then (case v of JBool b \<Rightarrow> Inr b | _ \<Rightarrow> Inl (NotBool k')) else get_bool d k')"
  "get_list ((k, v) # d) k' = (if k' = k then (case v of JList b \<Rightarrow> Inr b | _ \<Rightarrow> Inl (NotList k')) else get_list d k')"
  "get_positive ((k, v) # d) k' = (if k' = k then (case v of JInt n \<Rightarrow> if n \<le> 0 then Inl (NotPositive k') else Inr n
      | _ \<Rightarrow> Inl (NotPositive k')) else get_positive d k')"
  "get_opt_int ((k, v) # d) k' = (if k' = k then (case v of JNull \<Rightarrow> Inr None | JInt n \<Rightarrow> Inr (Some n)
      | _ \<Rightarrow> Inl (NotOptInt k')) else get_opt_int d k')"
  by (simp_all add: field_defs)

lemma check_version_first [simp]: "check_version ((''version'', JInt WIRE_VERSION) # d) = Inr ()"
  by (simp add: check_version_def eq_one_def WIRE_VERSION_def)

lemma decode_envelope_encode:
  assumes "envelope_ok e"
  shows "decode_envelope ((''version'', v) # envelope_fields e @ d) = Inr e"
  using assms by (simp add: decode_envelope_def envelope_fields_def envelope_ok_def within_def)

lemma after_envelope [simp]:
  "k \<notin> {''op_id'', ''request_id'', ''payload_hash'', ''store_output''} \<Longrightarrow>
     dget (envelope_fields e @ d) k = dget d k"
  by (simp add: envelope_fields_def)

lemma field_after [simp]:
  assumes "k \<notin> {''op_id'', ''request_id'', ''payload_hash'', ''store_output''}"
  shows "get_str (envelope_fields e @ d) k b = get_str d k b" "get_list (envelope_fields e @ d) k = get_list d k"
    "get_opt_str (envelope_fields e @ d) k = get_opt_str d k"
    "get_bool (envelope_fields e @ d) k = get_bool d k" "get_positive (envelope_fields e @ d) k = get_positive d k"
  using after_envelope [OF assms, of e d] by (simp_all add: field_defs del: get_fields)

lemma decode_encode_generation:
  assumes r: "generation_ok r" and e: "envelope_ok e"
  shows "decode_generation (encode_generation r e) = Inr (r, e)"
proof -
  have ms: "emap decode_message (map encode_message (gr_messages r)) = Inr (gr_messages r)"
    using r by (intro emap_roundtrip decode_message_encode) (simp add: generation_ok_def list_all_iff)
  have ts: "emap decode_tool (map encode_tool (gr_tools r)) = Inr (gr_tools r)"
    using r by (intro emap_roundtrip decode_tool_encode) (simp add: generation_ok_def list_all_iff)
  show ?thesis
    using r e
    by (simp add: decode_generation_def encode_generation_def as_object_def ms ts
        decode_tool_choice_encode decode_sampling_encode decode_envelope_encode generation_ok_def)
qed

subsection \<open>Nothing else is accepted\<close>

lemma as_object_InrD: "as_object j w = Inr d \<Longrightarrow> j = JObj d"
  by (cases j) (simp_all add: as_object_def)

lemma get_list_InrD: "get_list d k = Inr xs \<Longrightarrow> dget d k = JList xs"
  by (auto simp: get_list_def split: json.splits)

lemma decode_call_ok: "decode_call j = Inr c \<Longrightarrow> call_ok c"
  by (auto simp: decode_call_def call_ok_def elim!: ebind_InrE dest!: get_str_InrD)

lemma emap_all:
  assumes "emap f xs = Inr ys" and "\<And>x y. f x = Inr y \<Longrightarrow> P y"
  shows "list_all P ys"
  using assms by (auto simp: emap_Inr_iff list_all2_conv_all_nth list_all_length)

lemma decode_message_ok: "decode_message j = Inr m \<Longrightarrow> list_all call_ok (msg_tool_calls m)"
  by (auto simp: decode_message_def elim!: ebind_InrE intro: emap_all [where f = decode_call] decode_call_ok)

lemma decode_tool_ok: "decode_tool j = Inr t \<Longrightarrow> td_name t \<noteq> []"
  by (auto simp: decode_tool_def elim!: ebind_InrE dest!: get_str_InrD)

lemma decode_envelope_ok: "decode_envelope d = Inr e \<Longrightarrow> envelope_ok e"
  by (auto simp: decode_envelope_def envelope_ok_def elim!: ebind_InrE dest!: get_str_InrD within_InrD)

lemma ensure_InrD: "ensure e b = Inr u \<Longrightarrow> b"
  by (cases b) simp_all

lemma decode_generation_ok:
  assumes "decode_generation j = Inr (r, e)"
  shows "generation_ok r \<and> envelope_ok e"
proof -
  from assms obtain d ms ts u where r: "get_str d ''ref'' False = Inr (gr_ref r)"
      "emap decode_message ms = Inr (gr_messages r)" "get_positive d ''max_tokens'' = Inr (gr_max_tokens r)"
      "emap decode_tool ts = Inr (gr_tools r)" "get_positive d ''context_length'' = Inr (gr_context_length r)"
      "ensure NoMessages (gr_messages r \<noteq> []) = Inr u" "decode_envelope d = Inr e"
    by (auto simp: decode_generation_def elim!: ebind_InrE)
  have "list_all (\<lambda>m. list_all call_ok (msg_tool_calls m)) (gr_messages r)"
    using r(2) by (rule emap_all) (rule decode_message_ok)
  moreover have "list_all (\<lambda>t. td_name t \<noteq> []) (gr_tools r)"
    using r(4) by (rule emap_all) (rule decode_tool_ok)
  ultimately show ?thesis
    using get_str_InrD [OF r(1)] get_positive_InrD [OF r(3)] get_positive_InrD [OF r(5)]
      ensure_InrD [OF r(6)] decode_envelope_ok [OF r(7)]
    by (simp add: generation_ok_def)
qed

lemma decode_generation_fields:
  assumes "decode_generation j = Inr (r, e)"
  shows "\<exists>d. j = JObj d \<and> eq_one (dget d ''version'') \<and> dget d ''ref'' = JStr (gr_ref r)
    \<and> dget d ''max_tokens'' = JInt (gr_max_tokens r) \<and> dget d ''thinking'' = JBool (gr_thinking r)
    \<and> dget d ''context_length'' = JInt (gr_context_length r) \<and> dget d ''op_id'' = JStr (env_op_id e)
    \<and> dget d ''store_output'' = JBool (env_store_output e)"
  using assms
  by (auto simp: decode_generation_def decode_envelope_def check_version_def elim!: ebind_InrE
      dest!: as_object_InrD get_str_InrD get_positive_InrD get_bool_InrD ensure_InrD)

subsection \<open>Embeddings and lifecycle requests\<close>

definition embedding_ok :: "embedding_request \<Rightarrow> bool" where
  "embedding_ok r \<longleftrightarrow> er_ref r \<noteq> [] \<and> er_texts r \<noteq> []
     \<and> (case er_expected_manifest r of None \<Rightarrow> True | Some s \<Rightarrow> s \<noteq> [] \<and> length s \<le> 80)"

definition lifecycle_ok :: "lifecycle_request \<Rightarrow> bool" where
  "lifecycle_ok r \<longleftrightarrow> lr_op_id r \<noteq> [] \<and> length (lr_op_id r) \<le> 36 \<and> lr_ref r \<noteq> []
     \<and> (case lr_context_length r of None \<Rightarrow> True | Some n \<Rightarrow> n > 0)
     \<and> (case lr_manifest_digest r of None \<Rightarrow> True | Some s \<Rightarrow> is_digest s)"

lemma get_opt_str_when_text:
  "get_opt_str (when_text k x) k = Inr (if x = Some [] then None else x)"
  by (cases x) (auto simp: when_text_def get_opt_str_def)

lemma decode_encode_embedding:
  assumes "embedding_ok r" "envelope_ok e"
  shows "decode_embedding (encode_embedding r e) = Inr (r, e)"
proof (cases "er_expected_manifest r")
  case None
  then show ?thesis using assms
    by (simp add: decode_embedding_def encode_embedding_def as_object_def strings_roundtrip
        decode_envelope_encode embedding_ok_def when_text_def get_opt_str_def)
next
  case (Some s)
  then show ?thesis using assms
    by (simp add: decode_embedding_def encode_embedding_def as_object_def strings_roundtrip
        decode_envelope_encode embedding_ok_def when_text_def)
qed

lemma decode_embedding_ok:
  assumes "decode_embedding j = Inr (r, e)"
  shows "embedding_ok r \<and> envelope_ok e"
proof -
  from assms obtain d xs u v where r: "get_str d ''ref'' False = Inr (er_ref r)" "xs \<noteq> []"
      "emap (as_str BadTexts) xs = Inr (er_texts r)"
      "ensure BadExpected (case er_expected_manifest r of None \<Rightarrow> True
                                | Some s \<Rightarrow> \<not> (s = [] \<or> length s > 80)) = Inr v" "decode_envelope d = Inr e"
    by (auto simp: decode_embedding_def elim!: ebind_InrE dest!: ensure_InrD)
  have "er_texts r \<noteq> []"
    using r(2,3) by (auto simp: emap_Inr_iff)
  then show ?thesis
    using get_str_InrD [OF r(1)] ensure_InrD [OF r(4)] decode_envelope_ok [OF r(5)]
    by (auto simp: embedding_ok_def split: option.splits)
qed

lemma is_digest_not_Nil: "is_digest s \<Longrightarrow> s \<noteq> []"
  by (auto simp: is_digest_def)

lemma decode_encode_lifecycle:
  assumes "lifecycle_ok r"
  shows "decode_lifecycle (encode_lifecycle r) = Inr r"
proof (cases "lr_manifest_digest r")
  case None
  then show ?thesis using assms
    by (simp add: decode_lifecycle_def encode_lifecycle_def as_object_def lifecycle_ok_def when_text_def
        within_def get_opt_str_def)
next
  case (Some s)
  then show ?thesis using assms is_digest_not_Nil [of s]
    by (simp add: decode_lifecycle_def encode_lifecycle_def as_object_def lifecycle_ok_def when_text_def within_def)
qed

lemma decode_lifecycle_ok: "decode_lifecycle j = Inr r \<Longrightarrow> lifecycle_ok r"
  by (auto simp: decode_lifecycle_def lifecycle_ok_def elim!: ebind_InrE
      dest!: get_str_InrD within_InrD ensure_InrD)

section \<open>Properties\<close>

text \<open>
  C23: A generation request crosses the wire unchanged, and under its own envelope, exactly when it is
  well formed: a non-empty reference, at least one message, positive bounds, named tools, replayed
  tool calls with id, name and arguments, and identities within the column widths they land in.
  Every other request is refused or changed by the strict decoder.
\<close>

theorem generation_survives_iff:
  "decode_generation (encode_generation r e) = Inr (r, e) \<longleftrightarrow> generation_ok r \<and> envelope_ok e"
  using decode_encode_generation decode_generation_ok by blast

text \<open>
  An embedding call and a lifecycle call cross the wire unchanged exactly when they are well formed.
  An empty \<open>expected_manifest\<close> or \<open>manifest_digest\<close> is left out by the encoder, so it does not survive.
\<close>

theorem calls_survive_iff:
  "(decode_embedding (encode_embedding q e) = Inr (q, e) \<longleftrightarrow> embedding_ok q \<and> envelope_ok e)
   \<and> (decode_lifecycle (encode_lifecycle c) = Inr c \<longleftrightarrow> lifecycle_ok c)"
  using decode_encode_embedding decode_embedding_ok decode_encode_lifecycle decode_lifecycle_ok by blast

text \<open>
  Whatever bytes arrive, a decoded generation is well formed and its bounds and flags are the ones
  the body states: no field is defaulted, and no bound is zero or negative.
\<close>
theorem decoded_generation_is_stated:
  assumes "decode_generation j = Inr (r, e)"
  shows "generation_ok r \<and> envelope_ok e \<and>
    (\<exists>d. j = JObj d \<and> eq_one (dget d ''version'') \<and> dget d ''ref'' = JStr (gr_ref r)
       \<and> dget d ''max_tokens'' = JInt (gr_max_tokens r) \<and> dget d ''thinking'' = JBool (gr_thinking r)
       \<and> dget d ''context_length'' = JInt (gr_context_length r) \<and> dget d ''op_id'' = JStr (env_op_id e)
       \<and> dget d ''store_output'' = JBool (env_store_output e))"
  using decode_generation_ok [OF assms] decode_generation_fields [OF assms] by blast

definition sample_generation :: generation_request where
  "sample_generation =
     \<lparr>gr_ref = ''m'', gr_messages = [\<lparr>msg_role = ASSISTANT, msg_content = [],
        msg_tool_calls = [\<lparr>tc_id = ''c1'', tc_name = ''f'', tc_arguments = ''{}''\<rparr>],
        msg_tool_call_id = None, msg_name = None\<rparr>], gr_max_tokens = 16, gr_thinking = False, gr_tools = [],
      gr_tool_choice = None, gr_sampling = None, gr_context_length = 4096\<rparr>"

definition sample_envelope :: envelope where
  "sample_envelope = \<lparr>env_op_id = ''op-1'', env_request_id = None, env_payload_hash = None,
                      env_store_output = True\<rparr>"

lemma sample_decodes:
  "decode_generation (encode_generation sample_generation sample_envelope) = Inr (sample_generation, sample_envelope)"
  by (rule decode_encode_generation)
    (simp_all add: generation_ok_def envelope_ok_def call_ok_def sample_generation_def sample_envelope_def)

lemma decoded_generation_is_stated_witness:
  "generation_ok sample_generation \<and> envelope_ok sample_envelope"
  using decoded_generation_is_stated [OF sample_decodes] by blast

text \<open>
  Two places where the code and its documentation disagree. A replayed tool call with empty arguments,
  which the gateway accepts from a client, never passes the agent's decoder; and the version, unlike
  every other field, is compared and not type-checked.
\<close>

lemma empty_arguments_refused:
  "decode_call (encode_call \<lparr>tc_id = i, tc_name = n, tc_arguments = []\<rparr>)
     = Inl (if i = [] then NotString ''id'' False else if n = [] then NotString ''name'' False
            else NotString ''arguments'' False)"
  by (simp add: decode_call_def encode_call_def as_object_def)

lemma boolean_version_accepted:
  "decode_lifecycle (JObj [(''version'', JBool True), (''op_id'', JStr ''op-1''), (''ref'', JStr ''m'')])
     = Inr \<lparr>lr_op_id = ''op-1'', lr_ref = ''m'', lr_context_length = None, lr_manifest_digest = None\<rparr>"
  by (simp add: decode_lifecycle_def as_object_def check_version_def eq_one_def within_def
      get_opt_int_def get_opt_str_def)

end
