(* ===== verification/Py_Values.thy ===== *)
theory Py_Values
  imports Prelude
begin

text \<open>
  What the source uses of Python's text: \<open>str(x)\<close> and \<open>repr(x)\<close> of decoded JSON,
  \<open>json.dumps\<close>, and the length of a string in UTF-8. A character is a code point below 256.
\<close>

section \<open>Pieces\<close>

definition utf8_length :: "string \<Rightarrow> nat" where
  "utf8_length s = sum_list (map (\<lambda>c. if of_char c < (128::nat) then 1 else 2) s)"

definition comma_join :: "string list \<Rightarrow> string" where
  "comma_join xs = (case xs of [] \<Rightarrow> [] | y # ys \<Rightarrow> y @ concat (map (\<lambda>x. '', '' @ x) ys))"

definition hex_digit :: "nat \<Rightarrow> char" where
  "hex_digit n = char_of (if n < 10 then 48 + n else 87 + n)"

definition hex2 :: "char \<Rightarrow> string" where
  "hex2 c = [hex_digit (of_char c div 16), hex_digit (of_char c mod 16)]"

text \<open>
  \<open>repr\<close> of a float from its shortest digits: fixed notation from \<open>1e-4\<close> up to \<open>1e16\<close>,
  scientific outside.
\<close>

definition float_repr :: "int \<Rightarrow> int \<Rightarrow> string" where
  "float_repr m e =
     (let ds = digits_of_nat (nat \<bar>m\<bar>); n = int (length ds); p = n + e;
          body = (if m = 0 then ''0.0''
            else if p < - 3 \<or> p > 16
            then (take 1 ds @ (if n = 1 then [] else ''.'' @ drop 1 ds) @ ''e''
                  @ (if p - 1 < 0 then ''-'' else ''+'')
                  @ (if \<bar>p - 1\<bar> < 10 then ''0'' else []) @ show_int \<bar>p - 1\<bar>)
            else if p \<le> 0 then ''0.'' @ replicate (nat (- p)) (CHR ''0'') @ ds
            else if p \<ge> n then ds @ replicate (nat (p - n)) (CHR ''0'') @ ''.0''
            else take (nat p) ds @ ''.'' @ drop (nat p) ds)
      in (if m < 0 then ''-'' @ body else body))"

section \<open>\<open>str\<close> and \<open>repr\<close>\<close>

definition QUOTE :: char where
  "QUOTE = char_of (39::nat)"

definition DQUOTE :: char where
  "DQUOTE = char_of (34::nat)"

definition BACKSLASH :: char where
  "BACKSLASH = char_of (92::nat)"

text \<open>How \<open>repr\<close> writes one character of a string quoted with \<open>q\<close>.\<close>

definition repr_char :: "char \<Rightarrow> char \<Rightarrow> string" where
  "repr_char q c =
     (let n = (of_char c :: nat) in
      if c = q \<or> c = BACKSLASH then [BACKSLASH, c]
      else if n = 9 then [BACKSLASH, CHR ''t''] else if n = 10 then [BACKSLASH, CHR ''n'']
      else if n = 13 then [BACKSLASH, CHR ''r'']
      else if n < 32 \<or> (127 \<le> n \<and> n \<le> 160) \<or> n = 173 then BACKSLASH # CHR ''x'' # hex2 c
      else [c])"

definition repr_str :: "string \<Rightarrow> string" where
  "repr_str s =
     (let q = (if QUOTE \<in> set s \<and> DQUOTE \<notin> set s then DQUOTE else QUOTE)
      in q # concat (map (repr_char q) s) @ [q])"

fun py_repr :: "json \<Rightarrow> string"
  and repr_all :: "json list \<Rightarrow> string list"
  and repr_items :: "(string \<times> json) list \<Rightarrow> string list" where
  "py_repr JNull = ''None''"
| "py_repr (JBool b) = (if b then ''True'' else ''False'')"
| "py_repr (JInt n) = show_int n"
| "py_repr (JFloat m e) = float_repr m e"
| "py_repr (JStr s) = repr_str s"
| "py_repr (JList xs) = ''['' @ comma_join (repr_all xs) @ '']''"
| "py_repr (JObj d) = ''{'' @ comma_join (repr_items d) @ ''}''"
| "repr_all [] = []"
| "repr_all (x # xs) = py_repr x # repr_all xs"
| "repr_items [] = []"
| "repr_items ((k, v) # d) = (repr_str k @ '': '' @ py_repr v) # repr_items d"

definition py_str :: "json \<Rightarrow> string" where
  "py_str j = (case j of JStr s \<Rightarrow> s | _ \<Rightarrow> py_repr j)"

section \<open>\<open>json.dumps\<close>\<close>

definition dumps_char :: "char \<Rightarrow> string" where
  "dumps_char c =
     (let n = (of_char c :: nat) in
      if c = DQUOTE \<or> c = BACKSLASH then [BACKSLASH, c]
      else if n = 8 then [BACKSLASH, CHR ''b''] else if n = 9 then [BACKSLASH, CHR ''t'']
      else if n = 10 then [BACKSLASH, CHR ''n''] else if n = 12 then [BACKSLASH, CHR ''f'']
      else if n = 13 then [BACKSLASH, CHR ''r'']
      else if n < 32 \<or> 127 \<le> n then BACKSLASH # ''u00'' @ hex2 c
      else [c])"

definition dumps_str :: "string \<Rightarrow> string" where
  "dumps_str s = DQUOTE # concat (map dumps_char s) @ [DQUOTE]"

fun dumps :: "json \<Rightarrow> string"
  and dumps_all :: "json list \<Rightarrow> string list"
  and dumps_items :: "(string \<times> json) list \<Rightarrow> string list" where
  "dumps JNull = ''null''"
| "dumps (JBool b) = (if b then ''true'' else ''false'')"
| "dumps (JInt n) = show_int n"
| "dumps (JFloat m e) = float_repr m e"
| "dumps (JStr s) = dumps_str s"
| "dumps (JList xs) = ''['' @ comma_join (dumps_all xs) @ '']''"
| "dumps (JObj d) = ''{'' @ comma_join (dumps_items d) @ ''}''"
| "dumps_all [] = []"
| "dumps_all (x # xs) = dumps x # dumps_all xs"
| "dumps_items [] = []"
| "dumps_items ((k, v) # d) = (dumps_str k @ '': '' @ dumps v) # dumps_items d"

section \<open>\<open>int(text)\<close>, \<open>split\<close> and \<open>splitlines\<close>\<close>

text \<open>\<open>int(text)\<close>: blanks around, one sign, digits with single underscores between them.\<close>

definition is_digit :: "char \<Rightarrow> bool" where
  "is_digit c \<longleftrightarrow> (48::nat) \<le> of_char c \<and> of_char c \<le> (57::nat)"

fun digits_value :: "nat \<Rightarrow> string \<Rightarrow> nat option" where
  "digits_value n [] = Some n"
| "digits_value n [c] = (if is_digit c then Some (10 * n + (of_char c - 48)) else None)"
| "digits_value n (c # d # s) =
     (if is_digit c then
        if d = CHR ''_'' then (if s = [] then None else digits_value (10 * n + (of_char c - 48)) s)
        else digits_value (10 * n + (of_char c - 48)) (d # s)
      else None)"

definition py_int_of_str :: "string \<Rightarrow> int option" where
  "py_int_of_str s =
     (case py_strip s of
        [] \<Rightarrow> None
      | c # r \<Rightarrow>
          if c = CHR ''-'' then (if r = [] then None else map_option (\<lambda>n. - int n) (digits_value 0 r))
          else if c = CHR ''+'' then (if r = [] then None else map_option int (digits_value 0 r))
          else map_option int (digits_value 0 (c # r)))"

text \<open>\<open>int(x)\<close> of a decoded JSON value; a raise is the name of the exception.\<close>

definition py_int :: "json \<Rightarrow> string + int" where
  "py_int j = (case j of
     JInt n \<Rightarrow> Inr n
   | JBool b \<Rightarrow> Inr (if b then 1 else 0)
   | JFloat m e \<Rightarrow> Inr (if e \<ge> 0 then m * 10 ^ nat e else sgn m * (\<bar>m\<bar> div 10 ^ nat (- e)))
   | JStr s \<Rightarrow> (case py_int_of_str s of Some n \<Rightarrow> Inr n | None \<Rightarrow> Inl ''ValueError'')
   | _ \<Rightarrow> Inl ''TypeError'')"

text \<open>\<open>text.split(None, n)\<close>: at most \<open>n\<close> splits at runs of blanks, the rest kept as it is.\<close>

fun py_split :: "nat \<Rightarrow> string \<Rightarrow> string list" where
  "py_split 0 s = (let t = dropWhile py_space s in if t = [] then [] else [t])"
| "py_split (Suc n) s =
     (let t = dropWhile py_space s in
      if t = [] then []
      else takeWhile (\<lambda>c. \<not> py_space c) t # py_split n (dropWhile (\<lambda>c. \<not> py_space c) t))"

definition line_break :: "char \<Rightarrow> bool" where
  "line_break c = (let n = (of_char c :: nat) in (10 \<le> n \<and> n \<le> 13) \<or> (28 \<le> n \<and> n \<le> 30) \<or> n = 133)"

text \<open>\<open>splitlines()\<close>; a carriage return followed by a newline is one break.\<close>

fun split_lines :: "string \<Rightarrow> string \<Rightarrow> string list" where
  "split_lines acc [] = (if acc = [] then [] else [rev acc])"
| "split_lines acc [c] = (if line_break c then [rev acc] else [rev (c # acc)])"
| "split_lines acc (c # d # s) =
     (if of_char c = (13::nat) \<and> of_char d = (10::nat) then rev acc # split_lines [] s
      else if line_break c then rev acc # split_lines [] (d # s)
      else split_lines (c # acc) (d # s))"

definition splitlines :: "string \<Rightarrow> string list" where
  "splitlines s = split_lines [] s"

text \<open>The part after the last slash, and the parts between newlines.\<close>

definition basename :: "string \<Rightarrow> string" where
  "basename p = rev (takeWhile (\<lambda>c. c \<noteq> CHR ''/'') (rev p))"

fun newline_parts :: "string \<Rightarrow> string \<Rightarrow> string list" where
  "newline_parts acc [] = [rev acc]"
| "newline_parts acc (c # s) =
     (if of_char c = (10::nat) then rev acc # newline_parts [] s else newline_parts (c # acc) s)"

lemma utf8_length_simps [simp]:
  "utf8_length [] = 0"
  "utf8_length (c # s) = (if of_char c < (128::nat) then 1 else 2) + utf8_length s"
  "utf8_length (s @ t) = utf8_length s + utf8_length t"
  by (simp_all add: utf8_length_def)

lemma utf8_length_concat: "utf8_length (concat xs) = sum_list (map utf8_length xs)"
  by (induction xs) simp_all

lemma repr_examples:
  "py_repr (JObj [(''error'', JList [JStr ''it's'', JFloat 15 (- 1), JFloat 1 20, JFloat 5 (- 6), JBool True, JNull, JInt (- 3)])])
    = ''{'' @ [QUOTE] @ ''error'' @ [QUOTE] @ '': ['' @ [DQUOTE] @ ''it's'' @ [DQUOTE]
       @ '', 1.5, 1e+20, 5e-06, True, None, -3]}''"
  by code_simp

end
