(* ===== verification/Runtime_Encoding.thy ===== *)
theory Runtime_Encoding
  imports Chat Py_Values
begin

text \<open>
  The bodies sent to an Ollama runtime:
  \<open>src/backend/app/adapters/runtime/ollama_adapter/encoding.py\<close> and
  \<open>src/backend/app/adapters/runtime/tool_support.py\<close>. \<open>json.loads\<close> is the parameter \<open>loads\<close>
  (None is its \<open>JSONDecodeError\<close>); a raise is a \<open>capability_error\<close> with its detail left out.
\<close>

datatype capability_error = ChoiceNotEnforceable tool_choice_mode | ArgumentsNotJson string

section \<open>Tools\<close>

definition should_send_tools :: "tool_choice option \<Rightarrow> capability_error + bool" where
  "should_send_tools tc = (case tc of
     None \<Rightarrow> Inr True
   | Some t \<Rightarrow> (case tch_mode t of
        AUTO \<Rightarrow> Inr True
      | NONE \<Rightarrow> Inr False
      | m \<Rightarrow> Inl (ChoiceNotEnforceable m)))"

definition tool_payload :: "tool_definition list \<Rightarrow> json list" where
  "tool_payload tools = map (\<lambda>t.
     JObj [(''type'', JStr ''function''),
           (''function'', JObj [(''name'', JStr (td_name t)), (''description'', JStr (td_description t)),
                                (''parameters'', JObj (td_parameters t))])]) tools"

definition arguments_for_upstream :: "(string \<Rightarrow> json option) \<Rightarrow> string \<Rightarrow> capability_error + json" where
  "arguments_for_upstream loads a = (case loads a of None \<Rightarrow> Inl (ArgumentsNotJson a) | Some j \<Rightarrow> Inr j)"

section \<open>Messages and options\<close>

definition call_payload :: "(string \<Rightarrow> json option) \<Rightarrow> tool_call \<Rightarrow> capability_error + json" where
  "call_payload loads c =
     ebind (arguments_for_upstream loads (tc_arguments c)) (\<lambda>args.
       Inr (JObj [(''id'', JStr (tc_id c)),
                  (''function'', JObj [(''name'', JStr (tc_name c)), (''arguments'', args)])]))"

definition text_field :: "string \<Rightarrow> string option \<Rightarrow> jobj" where
  "text_field k x = (case x of None \<Rightarrow> [] | Some s \<Rightarrow> if s = [] then [] else [(k, JStr s)])"

definition message_payload :: "(string \<Rightarrow> json option) \<Rightarrow> chat_message \<Rightarrow> capability_error + json" where
  "message_payload loads m =
     ebind (emap (call_payload loads) (msg_tool_calls m)) (\<lambda>calls.
       Inr (JObj ([(''role'', JStr (role_value (msg_role m))), (''content'', JStr (msg_content m))]
         @ (if msg_tool_calls m = [] then [] else [(''tool_calls'', JList calls)])
         @ (if msg_role m = TOOL
            then text_field ''tool_name'' (msg_name m) @ text_field ''tool_call_id'' (msg_tool_call_id m)
            else []))))"

text \<open>\<open>_set_num_ctx\<close> on an options dict that has no \<open>num_ctx\<close> yet.\<close>

definition set_num_ctx :: "jobj \<Rightarrow> int option \<Rightarrow> jobj" where
  "set_num_ctx options cl = (case cl of
     None \<Rightarrow> options | Some n \<Rightarrow> if n > 0 then AList.update ''num_ctx'' (JInt n) options else options)"

definition opt_field :: "string \<Rightarrow> ('a \<Rightarrow> json) \<Rightarrow> 'a option \<Rightarrow> jobj" where
  "opt_field k f x = (case x of None \<Rightarrow> [] | Some v \<Rightarrow> [(k, f v)])"

definition sampling_fields :: "sampling_options option \<Rightarrow> jobj" where
  "sampling_fields sm = (case sm of None \<Rightarrow> [] | Some s \<Rightarrow>
     opt_field ''temperature'' (\<lambda>(m, e). JFloat m e) (s_temperature s)
     @ opt_field ''top_p'' (\<lambda>(m, e). JFloat m e) (s_top_p s)
     @ opt_field ''seed'' JInt (s_seed s)
     @ (if s_stop s = [] then [] else [(''stop'', JList (map JStr (s_stop s)))]))"

definition chat_options :: "int option \<Rightarrow> int option \<Rightarrow> sampling_options option \<Rightarrow> jobj" where
  "chat_options cl mt sm =
     dmerge (set_num_ctx [] cl @ opt_field ''num_predict'' JInt mt) (sampling_fields sm)"

definition when_any :: "string \<Rightarrow> jobj \<Rightarrow> jobj" where
  "when_any k d = (if d = [] then [] else [(k, JObj d)])"

section \<open>Bodies\<close>

definition chat_payload :: "(string \<Rightarrow> json option) \<Rightarrow> string \<Rightarrow> chat_message list \<Rightarrow> int option \<Rightarrow> bool
    \<Rightarrow> tool_definition list \<Rightarrow> tool_choice option \<Rightarrow> sampling_options option \<Rightarrow> int option \<Rightarrow> json
    \<Rightarrow> capability_error + jobj" where
  "chat_payload loads ref ms mt thinking tools tc sm cl keep_alive =
     ebind (emap (message_payload loads) ms) (\<lambda>messages.
     ebind (should_send_tools tc) (\<lambda>send_tools.
       Inr ([(''model'', JStr ref), (''messages'', JList messages), (''stream'', JBool True)]
         @ when_any ''options'' (chat_options cl mt sm)
         @ (if tools \<noteq> [] \<and> send_tools then [(''tools'', JList (tool_payload tools))] else [])
         @ [(''keep_alive'', keep_alive)]
         @ (if \<not> thinking then [(''think'', JBool False)] else []))))"

definition embed_payload :: "string \<Rightarrow> string list \<Rightarrow> json \<Rightarrow> jobj" where
  "embed_payload ref texts keep_alive =
     [(''model'', JStr ref), (''input'', JList (map JStr texts)), (''keep_alive'', keep_alive)]"

section \<open>What a body asks for\<close>

lemma dget_append: "dget (d @ d') k = (if k \<in> fst ` set d then dget d k else dget d' k)"
  by (auto simp: dget_def map_add_def dom_map_of_conv_image_fst split: option.splits
      dest: map_of_SomeD) (metis domI dom_map_of_conv_image_fst image_eqI fst_conv not_None_eq map_of_eq_None_iff)+

lemma dget_when_any [simp]: "dget (when_any k d) k' = (if k' = k \<and> d \<noteq> [] then JObj d else JNull)"
  by (simp add: when_any_def)

lemma when_any_keys: "fst ` set (when_any k d) \<subseteq> {k}"
  by (simp add: when_any_def)

lemma emap_Inl_iff: "(\<exists>e. emap f xs = Inl e) \<longleftrightarrow> list_ex (\<lambda>x. \<exists>e. f x = Inl e) xs"
proof (induction xs)
  case (Cons x xs)
  then show ?case by (cases "f x"; cases "emap f xs") auto
qed simp

text \<open>What this runtime cannot be asked: a constrained choice, or arguments that are not JSON.\<close>

definition unsupported :: "(string \<Rightarrow> json option) \<Rightarrow> chat_message list \<Rightarrow> tool_choice option \<Rightarrow> bool" where
  "unsupported loads ms tc \<longleftrightarrow>
     list_ex (\<lambda>m. list_ex (\<lambda>c. loads (tc_arguments c) = None) (msg_tool_calls m)) ms
     \<or> (case tc of None \<Rightarrow> False | Some t \<Rightarrow> tch_mode t \<in> {REQUIRED, FUNCTION})"

lemma call_payload_Inl: "(\<exists>e. call_payload loads c = Inl e) \<longleftrightarrow> loads (tc_arguments c) = None"
  by (cases "loads (tc_arguments c)") (simp_all add: call_payload_def arguments_for_upstream_def)

lemma message_payload_Inl:
  "(\<exists>e. message_payload loads m = Inl e) \<longleftrightarrow> list_ex (\<lambda>c. loads (tc_arguments c) = None) (msg_tool_calls m)"
proof -
  have "(\<exists>e. message_payload loads m = Inl e) \<longleftrightarrow> (\<exists>e. emap (call_payload loads) (msg_tool_calls m) = Inl e)"
    by (cases "emap (call_payload loads) (msg_tool_calls m)") (simp_all add: message_payload_def)
  then show ?thesis
    by (simp add: emap_Inl_iff call_payload_Inl)
qed

lemma should_send_tools_Inl:
  "(\<exists>e. should_send_tools tc = Inl e) \<longleftrightarrow> (case tc of None \<Rightarrow> False | Some t \<Rightarrow> tch_mode t \<in> {REQUIRED, FUNCTION})"
  by (cases tc) (auto simp: should_send_tools_def split: tool_choice_mode.splits)

lemma chat_payload_Inl: "(\<exists>e. chat_payload loads ref ms mt th tools tc sm cl ka = Inl e) \<longleftrightarrow> unsupported loads ms tc"
proof -
  have "(\<exists>e. chat_payload loads ref ms mt th tools tc sm cl ka = Inl e)
      \<longleftrightarrow> (\<exists>e. emap (message_payload loads) ms = Inl e) \<or> (\<exists>e. should_send_tools tc = Inl e)"
    by (cases "emap (message_payload loads) ms"; cases "should_send_tools tc") (simp_all add: chat_payload_def)
  then show ?thesis
    by (simp add: emap_Inl_iff message_payload_Inl should_send_tools_Inl unsupported_def)
qed

lemma chat_options_bounds:
  "dget (chat_options cl mt sm) ''num_ctx'' = (case cl of None \<Rightarrow> JNull | Some n \<Rightarrow> if n > 0 then JInt n else JNull)"
  "dget (chat_options cl mt sm) ''num_predict'' = jopt_int mt"
proof -
  have keys: "''num_ctx'' \<notin> fst ` set (sampling_fields sm)" "''num_predict'' \<notin> fst ` set (sampling_fields sm)"
    "distinct (map fst (sampling_fields sm))"
    by (cases sm; auto simp: sampling_fields_def opt_field_def split: option.splits)+
  have dget_merge: "k \<notin> fst ` set (sampling_fields sm) \<Longrightarrow> dget (dmerge a (sampling_fields sm)) k = dget a k" for a k
  proof -
    assume "k \<notin> fst ` set (sampling_fields sm)"
    then have "map_of (sampling_fields sm) k = None"
      by (simp add: map_of_eq_None_iff)
    then show ?thesis
      by (simp add: dget_def map_of_dmerge [OF keys(3)] map_add_def)
  qed
  show "dget (chat_options cl mt sm) ''num_ctx'' = (case cl of None \<Rightarrow> JNull | Some n \<Rightarrow> if n > 0 then JInt n else JNull)"
    by (cases cl; cases mt) (simp_all add: chat_options_def dget_merge [OF keys(1)] set_num_ctx_def opt_field_def)
  show "dget (chat_options cl mt sm) ''num_predict'' = jopt_int mt"
    by (cases cl; cases mt) (simp_all add: chat_options_def dget_merge [OF keys(2)] set_num_ctx_def opt_field_def jopt_int_def)
qed

text \<open>
  A generation either is refused, exactly when the caller constrains the tool choice or replays
  arguments that are not JSON, or becomes a body that asks for what the request said: the model, the
  registered context only when it is positive, the output bound, the tools unless the choice is
  \<open>none\<close>, the keep-alive, and thinking suppressed or left alone but never demanded.
\<close>

theorem chat_payload_asks_what_was_said:
  "case chat_payload loads ref ms mt thinking tools tc sm cl keep_alive of
     Inl _ \<Rightarrow> unsupported loads ms tc
   | Inr p \<Rightarrow> \<not> unsupported loads ms tc
       \<and> dget p ''model'' = JStr ref \<and> dget p ''stream'' = JBool True \<and> dget p ''keep_alive'' = keep_alive
       \<and> dget p ''think'' = (if thinking then JNull else JBool False)
       \<and> jget (dget p ''options'') ''num_ctx'' = (case cl of None \<Rightarrow> JNull | Some n \<Rightarrow> if n > 0 then JInt n else JNull)
       \<and> jget (dget p ''options'') ''num_predict'' = jopt_int mt
       \<and> dget p ''tools'' = (if tools \<noteq> [] \<and> should_send_tools tc = Inr True then JList (tool_payload tools) else JNull)
       \<and> (\<exists>qs. dget p ''messages'' = JList qs \<and> length qs = length ms)"
proof (cases "chat_payload loads ref ms mt thinking tools tc sm cl keep_alive")
  case (Inl e)
  then show ?thesis using chat_payload_Inl [of loads ref ms mt thinking tools tc sm cl keep_alive] by simp
next
  case (Inr p)
  then have ok: "\<not> unsupported loads ms tc"
    using chat_payload_Inl [of loads ref ms mt thinking tools tc sm cl keep_alive] by simp
  from Inr obtain qs b where p: "emap (message_payload loads) ms = Inr qs" "should_send_tools tc = Inr b"
    "p = [(''model'', JStr ref), (''messages'', JList qs), (''stream'', JBool True)]
         @ when_any ''options'' (chat_options cl mt sm)
         @ (if tools \<noteq> [] \<and> b then [(''tools'', JList (tool_payload tools))] else [])
         @ [(''keep_alive'', keep_alive)] @ (if \<not> thinking then [(''think'', JBool False)] else [])"
    by (auto simp: chat_payload_def elim!: ebind_InrE)
  have len: "length qs = length ms"
    using p(1) by (auto simp: emap_Inr_iff list_all2_lengthD)
  have options: "jget (dget p ''options'') k = dget (chat_options cl mt sm) k" for k
    by (cases "chat_options cl mt sm = []") (simp_all add: p(3) when_any_def jget_def)
  show ?thesis
    using ok len options chat_options_bounds [of cl mt sm]
    by (simp add: Inr p(2)) (simp add: p(3) when_any_def)
qed

end
