(* ===== verification/Relay.thy ===== *)
theory Relay
  imports Dispatch Runtime_Encoding
begin

text \<open>
  The agent's sends to its runtime, \<open>src/backend/app/node_agent/relay.py\<close>. What httpx delivers is a
  parameter: a response or a fault of a request, and for a stream the lines in order, each with the
  clock reading (milliseconds since the start) of its turn, and how the stream ended. A relay is a
  function to the \<open>relay_end\<close> the dispatcher settles from; an exception is \<open>RelayRaised\<close>.
\<close>

section \<open>The runtime's answers\<close>

text \<open>
  \<open>ConnectFault\<close> is \<open>httpx.ConnectError\<close> or \<open>ConnectTimeout\<close>, \<open>HttpFault\<close> any other
  \<open>httpx.HTTPError\<close>, \<open>OtherFault\<close> any other exception.
\<close>

datatype http_fault = ConnectFault string | HttpFault string | OtherFault string

record response =
  rs_status :: int
  rs_text :: string
  rs_doc :: "json option" \<comment> \<open>what \<open>response.json()\<close> returns; None is its ValueError\<close>

type_synonym http = "http_fault + response"

datatype line = Blank | Undecodable | Decoded json

datatype stream_end = EndOfStream | Broken http_fault | IdleTimeout

text \<open>An opened stream: status, the first 500 bytes of its body as text, its lines and its end.\<close>

datatype stream = NotOpened http_fault
  | Opened int "http_fault + string" "(line \<times> int) list" stream_end int

text \<open>The two exception clauses every relay has.\<close>

definition faulted :: "http_fault \<Rightarrow> jobj \<Rightarrow> relay_end" where
  "faulted f obs = (case f of
     ConnectFault n \<Rightarrow> Reported (NotSent n)
   | HttpFault n \<Rightarrow> Reported (Uncertain (''transport:'' @ n) obs)
   | OtherFault n \<Rightarrow> RelayRaised n)"

text \<open>The clause of the second send of a load: even a failed connection is uncertain there.\<close>

definition faulted_again :: "http_fault \<Rightarrow> relay_end" where
  "faulted_again f = (case f of
     ConnectFault n \<Rightarrow> Reported (Uncertain (''transport:'' @ n) [])
   | HttpFault n \<Rightarrow> Reported (Uncertain (''transport:'' @ n) [])
   | OtherFault n \<Rightarrow> RelayRaised n)"

definition http_reason :: "int \<Rightarrow> string" where
  "http_reason st = ''http_'' @ show_int st"

section \<open>Python values the relays read\<close>

text \<open>\<open>_keep_alive\<close> of \<open>encoding.py\<close>: a number is sent as a number.\<close>

definition keep_alive_value :: "string \<Rightarrow> json" where
  "keep_alive_value raw = (case py_int_of_str raw of Some n \<Rightarrow> JInt n | None \<Rightarrow> JStr raw)"

definition py_len :: "json \<Rightarrow> string + nat" where
  "py_len j = (case j of JList xs \<Rightarrow> Inr (length xs) | JStr s \<Rightarrow> Inr (length s) | JObj d \<Rightarrow> Inr (length d)
     | _ \<Rightarrow> Inl ''TypeError'')"

text \<open>\<open>x or y\<close>.\<close>

definition por :: "json \<Rightarrow> json \<Rightarrow> json" where
  "por x y = (if truthy x then x else y)"

section \<open>Load and unload\<close>

definition move_body :: "string \<Rightarrow> json \<Rightarrow> int option \<Rightarrow> jobj" where
  "move_body ref keep_alive cl =
     [(''model'', JStr ref), (''keep_alive'', keep_alive)] @ when_any ''options'' (set_num_ctx [] cl)"

definition move_answer :: "string \<Rightarrow> response \<Rightarrow> relay_end" where
  "move_answer endpoint r =
     (let tm = [(''status'', JInt (rs_status r)), (''endpoint'', JStr endpoint)] in
      if rs_status r = 404 then Reported (RuntimeRefused tm ''not_found'')
      else if rs_status r \<ge> 400
      then Reported (RuntimeRefused (tm @ [(''error'', JStr (take 500 (rs_text r)))]) (http_reason (rs_status r)))
      else Reported (RtCompleted tm None False))"

definition move_run :: "(string \<Rightarrow> jobj \<Rightarrow> http) \<Rightarrow> jobj \<Rightarrow> relay_end" where
  "move_run post body =
     (case post ''/api/generate'' body of
        Inl f \<Rightarrow> faulted f []
      | Inr r \<Rightarrow>
          if rs_status r = 400
          then (case post ''/api/embed'' (dmerge body [(''input'', JList [])]) of
                  Inl f \<Rightarrow> faulted_again f
                | Inr r' \<Rightarrow> move_answer ''embed'' r')
          else move_answer ''generate'' r)"

definition relay_load :: "(string \<Rightarrow> jobj \<Rightarrow> http) \<Rightarrow> string \<Rightarrow> json \<Rightarrow> int option \<Rightarrow> relay_end" where
  "relay_load post ref keep_alive cl = move_run post (move_body ref keep_alive cl)"

definition relay_unload :: "(string \<Rightarrow> jobj \<Rightarrow> http) \<Rightarrow> string \<Rightarrow> relay_end" where
  "relay_unload post ref = move_run post (move_body ref (JInt 0) None)"

section \<open>Probe\<close>

definition PROBE_TOKENS :: int where
  "PROBE_TOKENS = 16"

definition probe_path :: "bool \<Rightarrow> string" where
  "probe_path embedding = (if embedding then ''/api/embed'' else ''/api/generate'')"

definition probe_body :: "string \<Rightarrow> bool \<Rightarrow> json \<Rightarrow> int option \<Rightarrow> jobj" where
  "probe_body ref embedding keep_alive cl =
     [(''model'', JStr ref), (''keep_alive'', keep_alive)]
     @ (if embedding then [(''input'', JList [JStr ''maintenance restore probe''])]
        else [(''prompt'', JStr ''Reply with the single word: ready''), (''stream'', JBool False)])
     @ when_any ''options'' (if embedding then set_num_ctx [] cl
                             else set_num_ctx [] cl @ [(''num_predict'', JInt PROBE_TOKENS)])"

definition probe_vector :: "jobj \<Rightarrow> jobj \<Rightarrow> relay_end" where
  "probe_vector tm answer =
     (case (case dget answer ''embeddings'' of JList (v # vs) \<Rightarrow> py_len v | _ \<Rightarrow> Inr 0) of
        Inl n \<Rightarrow> RelayRaised n
      | Inr width \<Rightarrow>
          if width = 0 then Reported (RuntimeRefused tm ''probe_no_vector'')
          else Reported (RtCompleted (tm @ [(''dimensions'', JInt (int width))]) None False))"

definition probe_tokens :: "jobj \<Rightarrow> jobj \<Rightarrow> relay_end" where
  "probe_tokens tm answer =
     (case py_int (por (dget answer ''eval_count'') (JInt 0)) of
        Inl n \<Rightarrow> RelayRaised n
      | Inr generated \<Rightarrow>
          if \<not> truthy (dget answer ''done'') \<or> generated \<le> 0
          then Reported (RuntimeRefused tm ''probe_no_tokens'')
          else Reported (RtCompleted (tm @ [(''eval_count'', JInt generated)]) None False))"

definition relay_probe :: "(string \<Rightarrow> jobj \<Rightarrow> http) \<Rightarrow> string \<Rightarrow> bool \<Rightarrow> json \<Rightarrow> int option \<Rightarrow> relay_end" where
  "relay_probe post ref embedding keep_alive cl =
     (case post (probe_path embedding) (probe_body ref embedding keep_alive cl) of
        Inl f \<Rightarrow> faulted f []
      | Inr r \<Rightarrow>
          let tm = [(''status'', JInt (rs_status r)), (''endpoint'', JStr (probe_path embedding))] in
          if rs_status r \<ge> 400
          then Reported (RuntimeRefused (tm @ [(''error'', JStr (take 500 (rs_text r)))]) (http_reason (rs_status r)))
          else (case rs_doc r of
                  Some (JObj answer) \<Rightarrow> if embedding then probe_vector tm answer else probe_tokens tm answer
                | _ \<Rightarrow> Reported (RuntimeRefused tm ''probe_unreadable'')))"

section \<open>Pull\<close>

definition pull_refused :: "int \<Rightarrow> http_fault + string \<Rightarrow> relay_end" where
  "pull_refused st body = (case body of
     Inl f \<Rightarrow> faulted f []
   | Inr text \<Rightarrow> Reported (RuntimeRefused [(''status'', JInt st), (''error'', JStr text)]
                            (if st = 404 then ''not_found'' else http_reason st)))"

definition pull_progress :: "jobj \<Rightarrow> jobj" where
  "pull_progress d =
     [(''status'', case map_of d ''status'' of None \<Rightarrow> JStr [] | Some s \<Rightarrow> s),
      (''completed'', dget d ''completed''), (''total'', dget d ''total'')]"

definition pull_end :: "stream_end \<Rightarrow> jobj \<Rightarrow> relay_end" where
  "pull_end e seen = (case e of
     EndOfStream \<Rightarrow> Reported (Uncertain ''eof_without_success'' seen)
   | Broken f \<Rightarrow> faulted f seen
   | IdleTimeout \<Rightarrow> RelayRaised ''IdleTimeout'')"

text \<open>The events emitted and how the pull ended; \<open>seen\<close> (\<open>last\<close>) is the latest progress.\<close>

fun pull_loop :: "(line \<times> int) list \<Rightarrow> stream_end \<Rightarrow> jobj \<Rightarrow> jobj list \<times> relay_end" where
  "pull_loop [] e seen = ([], pull_end e seen)"
| "pull_loop ((Decoded ev, t) # xs) e seen =
     (case ev of
        JObj d \<Rightarrow>
          if truthy (dget d ''error'')
          then ([], Reported (RuntimeRefused [(''error'', JStr (take 500 (py_str (dget d ''error''))))] ''runtime_error''))
          else let now = pull_progress d; out = (''type'', JStr ''progress'') # now in
               if dget d ''status'' = JStr ''success''
               then ([out], Reported (RtCompleted [(''status'', JStr ''success'')] None False))
               else (case pull_loop xs e now of (es, r) \<Rightarrow> (out # es, r))
      | _ \<Rightarrow> ([], RelayRaised ''AttributeError''))"
| "pull_loop (x # xs) e seen = pull_loop xs e seen"

definition relay_pull :: "stream \<Rightarrow> jobj list \<times> relay_end" where
  "relay_pull s = (case s of
     NotOpened f \<Rightarrow> ([], faulted f [])
   | Opened st body xs e t \<Rightarrow> if st \<noteq> 200 then ([], pull_refused st body) else pull_loop xs e [])"

section \<open>What the runtime holds\<close>

definition tag_of :: "string \<Rightarrow> string" where
  "tag_of ref = (if CHR '':'' \<in> set (takeWhile (\<lambda>c. c \<noteq> CHR ''/'') (rev ref)) then ref else ref @ '':latest'')"

fun find_digest :: "string \<Rightarrow> json list \<Rightarrow> http_fault + string option" where
  "find_digest wanted [] = Inr None"
| "find_digest wanted (m # ms) = (case m of
     JObj d \<Rightarrow>
       if dget d ''name'' = JStr wanted \<or> dget d ''model'' = JStr wanted
       then Inr (case dget d ''digest'' of JStr s \<Rightarrow> Some s | _ \<Rightarrow> None)
       else find_digest wanted ms
   | _ \<Rightarrow> Inl (OtherFault ''AttributeError''))"

text \<open>Iterating over what \<open>.get("models", [])\<close> gave: keys of a dict and characters are strings.\<close>

definition iterated :: "json \<Rightarrow> http_fault + json list" where
  "iterated j = (case j of
     JList xs \<Rightarrow> Inr xs
   | JStr s \<Rightarrow> Inr (map (\<lambda>c. JStr [c]) s)
   | JObj d \<Rightarrow> Inr (map (\<lambda>(k, v). JStr k) d)
   | _ \<Rightarrow> Inl (OtherFault ''TypeError''))"

definition served_digest :: "http \<Rightarrow> string \<Rightarrow> http_fault + string option" where
  "served_digest tags ref =
     ebind tags (\<lambda>r.
       if \<not> (200 \<le> rs_status r \<and> rs_status r < 300) then Inl (HttpFault ''HTTPStatusError'')
       else case rs_doc r of
         None \<Rightarrow> Inl (OtherFault ''JSONDecodeError'')
       | Some (JObj d) \<Rightarrow>
           ebind (case map_of d ''models'' of None \<Rightarrow> Inr [] | Some j \<Rightarrow> iterated j) (find_digest (tag_of ref))
       | Some _ \<Rightarrow> Inl (OtherFault ''AttributeError''))"

definition revision_mismatch :: "http \<Rightarrow> string \<Rightarrow> string option \<Rightarrow> relay_end option" where
  "revision_mismatch tags ref expected = (case expected of
     None \<Rightarrow> None
   | Some want \<Rightarrow>
       (case served_digest tags ref of
          Inl (ConnectFault n) \<Rightarrow> Some (Reported (NotSent (''revision_unconfirmed:'' @ n)))
        | Inl (HttpFault n) \<Rightarrow> Some (Reported (NotSent (''revision_unconfirmed:'' @ n)))
        | Inl (OtherFault n) \<Rightarrow> Some (RelayRaised n)
        | Inr served \<Rightarrow> if served \<noteq> Some want then Some (Reported (NotSent ''revision_mismatch'')) else None))"

text \<open>\<open>residency\<close>: None when either read fails; a document that is no object raises.\<close>

definition residency :: "http \<Rightarrow> http \<Rightarrow> string + (json \<times> json) option" where
  "residency ps tags =
     (case (ps, tags) of
        (Inl (OtherFault n), _) \<Rightarrow> Inl n
      | (Inl _, _) \<Rightarrow> Inr None
      | (_, Inl (OtherFault n)) \<Rightarrow> Inl n
      | (_, Inl _) \<Rightarrow> Inr None
      | (Inr p, Inr t) \<Rightarrow>
          if rs_status p \<noteq> 200 \<or> rs_status t \<noteq> 200 then Inr None
          else (case rs_doc p of
                  None \<Rightarrow> Inr None
                | Some (JObj dp) \<Rightarrow>
                    (case rs_doc t of
                       None \<Rightarrow> Inr None
                     | Some (JObj dt) \<Rightarrow> Inr (Some (por (dget dp ''models'') (JList []), por (dget dt ''models'') (JList [])))
                     | Some _ \<Rightarrow> Inl ''AttributeError'')
                | Some _ \<Rightarrow> Inl ''AttributeError''))"

definition runtime_version :: "http \<Rightarrow> string + string option" where
  "runtime_version reply = (case reply of
     Inl (OtherFault n) \<Rightarrow> Inl n
   | Inl _ \<Rightarrow> Inr None
   | Inr r \<Rightarrow> Inr (if rs_status r \<noteq> 200 then None
       else case rs_doc r of
         Some (JObj d) \<Rightarrow> (case dget d ''version'' of JStr v \<Rightarrow> if v = [] then None else Some v | _ \<Rightarrow> None)
       | _ \<Rightarrow> None))"

definition runtime_health :: "http \<Rightarrow> string + bool" where
  "runtime_health reply = ebind (runtime_version reply) (\<lambda>v. Inr (v \<noteq> None))"

end
