(* ===== verification/Relay_Chat.thy ===== *)
theory Relay_Chat
  imports Relay
begin

text \<open>
  Generations and embeddings of \<open>src/backend/app/node_agent/relay.py\<close>: \<open>_stream_chat\<close> over the
  lines of the stream, with the sink it feeds as two functions on the sink's state, \<open>emit\<close> (which may
  raise) and \<open>chk\<close> (the checkpoint); the replay buffer with its cap; \<open>_embed\<close>.
\<close>

definition REPLAY_CAP_BYTES :: nat where
  "REPLAY_CAP_BYTES = 4 * 1024 * 1024"

definition CHECKPOINT_MS :: int where
  "CHECKPOINT_MS = 5000"

definition TERMINAL_FIELDS :: "string list" where
  "TERMINAL_FIELDS = [''done_reason'', ''eval_count'', ''prompt_eval_count'', ''total_duration'',
     ''load_duration'', ''prompt_eval_duration'', ''eval_duration'']"

section \<open>The replay buffer\<close>

record reading =
  rd_chunks :: nat
  rd_last :: int
  rd_content :: "string list"
  rd_thinking :: "string list"
  rd_calls :: "json list"
  rd_bytes :: nat
  rd_over :: bool

definition reading0 :: reading where
  "reading0 = \<lparr>rd_chunks = 0, rd_last = 0, rd_content = [], rd_thinking = [], rd_calls = [],
               rd_bytes = 0, rd_over = False\<rparr>"

text \<open>\<open>(x or "")\<close>, which the code then encodes: a truthy value that is no string raises.\<close>

definition text_or_empty :: "json \<Rightarrow> string + string" where
  "text_or_empty j = (if \<not> truthy j then Inr [] else case j of JStr s \<Rightarrow> Inr s | _ \<Rightarrow> Inl ''AttributeError'')"

text \<open>\<open>list.extend(x or [])\<close>.\<close>

definition extended_by :: "json \<Rightarrow> string + json list" where
  "extended_by j = (if \<not> truthy j then Inr [] else case j of
     JList xs \<Rightarrow> Inr xs
   | JObj d \<Rightarrow> Inr (map (\<lambda>(k, v). JStr k) d)
   | JStr s \<Rightarrow> Inr (map (\<lambda>c. JStr [c]) s)
   | _ \<Rightarrow> Inl ''TypeError'')"

definition piece_size :: "string \<Rightarrow> string \<Rightarrow> json \<Rightarrow> nat" where
  "piece_size content thinking calls =
     utf8_length content + utf8_length thinking + length (dumps (por calls (JList [])))"

definition keep_piece :: "nat \<Rightarrow> json \<Rightarrow> reading \<Rightarrow> string + reading" where
  "keep_piece cap msg st = (case msg of
     JObj m \<Rightarrow>
       ebind (text_or_empty (dget m ''content'')) (\<lambda>content.
       ebind (text_or_empty (dget m ''thinking'')) (\<lambda>thinking.
         if rd_bytes st + piece_size content thinking (dget m ''tool_calls'') > cap
         then Inr (st\<lparr>rd_over := True, rd_content := [], rd_thinking := [], rd_calls := []\<rparr>)
         else ebind (extended_by (dget m ''tool_calls'')) (\<lambda>calls.
           Inr (st\<lparr>rd_bytes := rd_bytes st + piece_size content thinking (dget m ''tool_calls''),
                   rd_content := rd_content st @ [content], rd_thinking := rd_thinking st @ [thinking],
                   rd_calls := rd_calls st @ calls\<rparr>))))
   | _ \<Rightarrow> Inl ''AttributeError'')"

section \<open>The stream\<close>

definition observed_at :: "nat \<Rightarrow> int \<Rightarrow> jobj" where
  "observed_at n t = [(''observed_chunk_count'', JInt (int n)), (''observed_elapsed_ms'', JInt t)]"

definition terminal_fields :: "jobj \<Rightarrow> jobj" where
  "terminal_fields d = map (\<lambda>k. (k, dget d k)) TERMINAL_FIELDS"

definition chat_refused :: "jobj \<Rightarrow> reading \<Rightarrow> int \<Rightarrow> relay_end" where
  "chat_refused d st t =
     Reported (RuntimeRefused ((''error'', JStr (take 500 (py_str (dget d ''error'')))) # observed_at (rd_chunks st) t)
                 ''runtime_error'')"

definition chat_done :: "bool \<Rightarrow> jobj \<Rightarrow> reading \<Rightarrow> int \<Rightarrow> relay_end" where
  "chat_done store d st t =
     Reported (RtCompleted (dmerge (terminal_fields d) (observed_at (rd_chunks st) t))
       (if store \<and> \<not> rd_over st
        then Some ([(''content'', JStr (concat (rd_content st))), (''thinking'', JStr (concat (rd_thinking st))),
                    (''tool_calls'', JList (rd_calls st))] @ terminal_fields d)
        else None)
       (store \<and> rd_over st))"

definition chat_end :: "stream_end \<Rightarrow> reading \<Rightarrow> int \<Rightarrow> relay_end" where
  "chat_end e st t = (case e of
     EndOfStream \<Rightarrow> Reported (Uncertain ''eof_without_done'' (observed_at (rd_chunks st) t))
   | Broken f \<Rightarrow> faulted f (observed_at (rd_chunks st) t)
   | IdleTimeout \<Rightarrow> Reported (Uncertain ''transport:IdleTimeout'' (observed_at (rd_chunks st) t)))"

definition line_event :: "json \<Rightarrow> json" where
  "line_event ev = JObj [(''type'', JStr ''line''), (''data'', ev)]"

text \<open>The turn of one decoded line after the emit: an end, or the state for the next line.\<close>

definition chat_turn :: "nat \<Rightarrow> bool \<Rightarrow> jobj \<Rightarrow> int \<Rightarrow> reading \<Rightarrow> relay_end + reading" where
  "chat_turn cap store d t st =
     (if truthy (dget d ''error'') then Inl (chat_refused d st t)
      else case (if store \<and> \<not> rd_over st then keep_piece cap (por (dget d ''message'') (JObj [])) st else Inr st) of
        Inl n \<Rightarrow> Inl (RelayRaised n)
      | Inr st1 \<Rightarrow> if truthy (dget d ''done'') then Inl (chat_done store d st1 t)
                   else Inr (st1\<lparr>rd_chunks := rd_chunks st1 + 1\<rparr>))"

fun chat_loop :: "(int \<Rightarrow> json \<Rightarrow> 'k \<Rightarrow> string + 'k) \<Rightarrow> (jobj \<Rightarrow> 'k \<Rightarrow> 'k) \<Rightarrow> nat \<Rightarrow> int \<Rightarrow> bool
    \<Rightarrow> (line \<times> int) list \<Rightarrow> stream_end \<Rightarrow> int \<Rightarrow> reading \<Rightarrow> 'k \<Rightarrow> relay_end \<times> 'k" where
  "chat_loop emit chk cap cp store [] e te st k = (chat_end e st te, k)"
| "chat_loop emit chk cap cp store ((Decoded ev, t) # xs) e te st k =
     (case emit t (line_event ev) k of
        Inl n \<Rightarrow> (RelayRaised n, k)
      | Inr k1 \<Rightarrow>
          (case ev of
             JObj d \<Rightarrow>
               (case chat_turn cap store d t st of
                  Inl r \<Rightarrow> (r, k1)
                | Inr st1 \<Rightarrow>
                    if t - rd_last st1 \<ge> cp
                    then chat_loop emit chk cap cp store xs e te (st1\<lparr>rd_last := t\<rparr>)
                           (chk (observed_at (rd_chunks st1) t) k1)
                    else chat_loop emit chk cap cp store xs e te st1 k1)
           | _ \<Rightarrow> (RelayRaised ''AttributeError'', k1)))"
| "chat_loop emit chk cap cp store (x # xs) e te st k = chat_loop emit chk cap cp store xs e te st k"

definition stream_chat :: "(int \<Rightarrow> json \<Rightarrow> 'k \<Rightarrow> string + 'k) \<Rightarrow> (jobj \<Rightarrow> 'k \<Rightarrow> 'k) \<Rightarrow> nat \<Rightarrow> int \<Rightarrow> bool
    \<Rightarrow> stream \<Rightarrow> 'k \<Rightarrow> relay_end \<times> 'k" where
  "stream_chat emit chk cap cp store s k = (case s of
     NotOpened f \<Rightarrow> (faulted f (observed_at 0 0), k)
   | Opened st body xs e te \<Rightarrow>
       if st \<noteq> 200
       then (case body of
               Inl f \<Rightarrow> (faulted f (observed_at 0 te), k)
             | Inr text \<Rightarrow> (Reported (RuntimeRefused [(''status'', JInt st), (''error'', JStr text)] (http_reason st)), k))
       else chat_loop emit chk cap cp store xs e te reading0 k)"

text \<open>
  \<open>chat\<close> and \<open>embed\<close>: the revision is confirmed before anything is sent. \<open>sent\<close> is the stream the
  runtime opens for the body, asked for only then.
\<close>

definition relay_chat :: "(int \<Rightarrow> json \<Rightarrow> 'k \<Rightarrow> string + 'k) \<Rightarrow> (jobj \<Rightarrow> 'k \<Rightarrow> 'k) \<Rightarrow> nat \<Rightarrow> int \<Rightarrow> http
    \<Rightarrow> (jobj \<Rightarrow> stream) \<Rightarrow> string \<Rightarrow> jobj \<Rightarrow> bool \<Rightarrow> string option \<Rightarrow> 'k \<Rightarrow> relay_end \<times> 'k" where
  "relay_chat emit chk cap cp tags post ref payload store expected k =
     (case revision_mismatch tags ref expected of
        Some r \<Rightarrow> (r, k)
      | None \<Rightarrow> stream_chat emit chk cap cp store (post payload) k)"

definition embed_answer :: "bool \<Rightarrow> response \<Rightarrow> json option \<times> relay_end" where
  "embed_answer store r =
     (if rs_status r \<noteq> 200
      then (None, Reported (RuntimeRefused [(''status'', JInt (rs_status r)), (''error'', JStr (take 500 (rs_text r)))]
                              (http_reason (rs_status r))))
      else case rs_doc r of
        None \<Rightarrow> (None, Reported (RuntimeRefused [(''status'', JInt 200)] ''malformed_response''))
      | Some (JObj d) \<Rightarrow>
          let timings = map (\<lambda>k. (k, dget d k)) [''total_duration'', ''load_duration'', ''prompt_eval_count''] in
          (case dget d ''embeddings'' of
             JList vs \<Rightarrow>
               (Some (JObj [(''type'', JStr ''embeddings''), (''data'', JList vs)]),
                Reported (RtCompleted (timings @ [(''count'', JInt (int (length vs)))])
                            (if store then Some [(''embeddings'', JList vs)] else None) False))
           | _ \<Rightarrow> (None, Reported (RuntimeRefused (timings @ [(''count'', JNull)]) ''no_embeddings'')))
      | Some _ \<Rightarrow> (None, RelayRaised ''AttributeError''))"

definition relay_embed :: "http \<Rightarrow> (jobj \<Rightarrow> http) \<Rightarrow> string \<Rightarrow> jobj \<Rightarrow> bool \<Rightarrow> string option \<Rightarrow> json option \<times> relay_end" where
  "relay_embed tags post ref payload store expected =
     (case revision_mismatch tags ref expected of
        Some r \<Rightarrow> (None, r)
      | None \<Rightarrow> (case post payload of
                   Inl f \<Rightarrow> (None, faulted f [])
                 | Inr r \<Rightarrow> embed_answer store r))"

section \<open>What decides a stream\<close>

text \<open>The first decoded object that carries an error or \<open>done\<close>.\<close>

definition decides :: "jobj \<Rightarrow> bool" where
  "decides d \<longleftrightarrow> truthy (dget d ''error'') \<or> truthy (dget d ''done'')"

fun decisive :: "(line \<times> int) list \<Rightarrow> jobj option" where
  "decisive [] = None"
| "decisive ((Decoded (JObj d), t) # xs) = (if decides d then Some d else decisive xs)"
| "decisive (x # xs) = decisive xs"

datatype verdict = VCompleted | VRefused | VNotSent | VUncertain | VWithheld

definition verdict_of :: "outcome \<Rightarrow> verdict" where
  "verdict_of out = (case out of RtCompleted _ _ _ \<Rightarrow> VCompleted | RuntimeRefused _ _ \<Rightarrow> VRefused
     | NotSent _ \<Rightarrow> VNotSent | Uncertain _ _ \<Rightarrow> VUncertain | Withheld _ \<Rightarrow> VWithheld)"

definition fault_verdict :: "http_fault \<Rightarrow> verdict" where
  "fault_verdict f = (case f of ConnectFault _ \<Rightarrow> VNotSent | _ \<Rightarrow> VUncertain)"

definition end_verdict :: "stream_end \<Rightarrow> verdict" where
  "end_verdict e = (case e of Broken f \<Rightarrow> fault_verdict f | _ \<Rightarrow> VUncertain)"

definition stream_verdict :: "(line \<times> int) list \<Rightarrow> stream_end \<Rightarrow> verdict" where
  "stream_verdict xs e = (case decisive xs of
     None \<Rightarrow> end_verdict e
   | Some d \<Rightarrow> if truthy (dget d ''error'') then VRefused else VCompleted)"

lemma faulted_verdict: "faulted f obs = Reported out \<Longrightarrow> verdict_of out = fault_verdict f"
  by (auto simp: faulted_def verdict_of_def fault_verdict_def split: http_fault.splits)

lemma chat_end_verdict: "chat_end e st t = Reported out \<Longrightarrow> verdict_of out = end_verdict e"
  by (cases e) (auto simp: chat_end_def end_verdict_def verdict_of_def [of "Uncertain _ _"] dest: faulted_verdict)

lemma chat_turn_end:
  assumes "chat_turn cap store d t st = Inl (Reported out)"
  shows "decides d \<and> verdict_of out = (if truthy (dget d ''error'') then VRefused else VCompleted)"
  using assms
  by (auto simp: chat_turn_def chat_refused_def chat_done_def decides_def verdict_of_def
      split: if_splits sum.splits)

lemma chat_turn_goes_on: "chat_turn cap store d t st = Inr st1 \<Longrightarrow> \<not> decides d"
  by (auto simp: chat_turn_def decides_def split: if_splits sum.splits)

lemma chat_loop_verdict:
  "chat_loop emit chk cap cp store xs e te st k = (Reported out, k') \<Longrightarrow> verdict_of out = stream_verdict xs e"
proof (induction emit chk cap cp store xs e te st k rule: chat_loop.induct)
  case (1 emit chk cap cp store e te st k)
  then show ?case by (auto simp: stream_verdict_def dest: chat_end_verdict)
next
  case (2 emit chk cap cp store ev t xs e te st k)
  then show ?case
    by (cases "emit t (line_event ev) k"; cases ev)
      (auto simp: stream_verdict_def split: sum.splits if_splits dest: chat_turn_end chat_turn_goes_on)
qed (simp_all add: stream_verdict_def)

section \<open>What the replay holds\<close>

text \<open>The objects a stream delivers up to the decisive one, and what each adds to the output.\<close>

fun consumed :: "(line \<times> int) list \<Rightarrow> jobj list" where
  "consumed [] = []"
| "consumed ((Decoded (JObj d), t) # xs) = d # (if decides d then [] else consumed xs)"
| "consumed (x # xs) = consumed xs"

definition message_field :: "string \<Rightarrow> jobj \<Rightarrow> json" where
  "message_field k d = jget (por (dget d ''message'') (JObj [])) k"

definition text_field_of :: "string \<Rightarrow> jobj \<Rightarrow> string" where
  "text_field_of k d = (case message_field k d of JStr s \<Rightarrow> s | _ \<Rightarrow> [])"

definition calls_of :: "jobj \<Rightarrow> json list" where
  "calls_of d = (case extended_by (message_field ''tool_calls'' d) of Inl _ \<Rightarrow> [] | Inr xs \<Rightarrow> xs)"

definition size_of :: "jobj \<Rightarrow> nat" where
  "size_of d = piece_size (text_field_of ''content'' d) (text_field_of ''thinking'' d) (message_field ''tool_calls'' d)"

definition replay_size :: "jobj list \<Rightarrow> nat" where
  "replay_size ds = sum_list (map size_of ds)"

definition replay_of :: "jobj list \<Rightarrow> jobj" where
  "replay_of ds = [(''content'', JStr (concat (map (text_field_of ''content'') ds))),
                   (''thinking'', JStr (concat (map (text_field_of ''thinking'') ds))),
                   (''tool_calls'', JList (concat (map calls_of ds)))]"

definition holds_replay :: "nat \<Rightarrow> jobj list \<Rightarrow> reading \<Rightarrow> bool" where
  "holds_replay cap ds st \<longleftrightarrow>
     (if rd_over st then cap < replay_size ds
      else replay_size ds \<le> cap \<and> rd_bytes st = replay_size ds
        \<and> rd_content st = map (text_field_of ''content'') ds
        \<and> rd_thinking st = map (text_field_of ''thinking'') ds
        \<and> rd_calls st = concat (map calls_of ds))"

lemma text_or_empty_field: "text_or_empty (dget m k) = Inr s \<Longrightarrow> (case dget m k of JStr s \<Rightarrow> s | _ \<Rightarrow> []) = s"
  by (auto simp: text_or_empty_def split: if_splits json.splits)

lemma holds_over: "holds_replay cap ds st \<Longrightarrow> rd_over st \<Longrightarrow> holds_replay cap (ds @ [d]) st"
  by (simp add: holds_replay_def replay_size_def)

lemma holds_keep:
  assumes h: "holds_replay cap ds st" and o: "\<not> rd_over st"
    and k: "keep_piece cap (por (dget d ''message'') (JObj [])) st = Inr st1"
  shows "holds_replay cap (ds @ [d]) st1"
proof -
  from k obtain m where m: "por (dget d ''message'') (JObj []) = JObj m"
    by (auto simp: keep_piece_def split: json.splits)
  then have field: "message_field key d = dget m key" for key
    by (simp add: message_field_def jget_def)
  from k obtain c th where ct: "text_or_empty (dget m ''content'') = Inr c" "text_or_empty (dget m ''thinking'') = Inr th"
    by (auto simp: keep_piece_def m elim!: ebind_InrE)
  have texts: "text_field_of ''content'' d = c" "text_field_of ''thinking'' d = th"
    using text_or_empty_field [OF ct(1)] text_or_empty_field [OF ct(2)]
    by (simp_all add: text_field_of_def field)
  have size: "size_of d = piece_size c th (dget m ''tool_calls'')"
    by (simp add: size_of_def texts field)
  have bytes: "rd_bytes st = replay_size ds"
    using h o by (simp add: holds_replay_def)
  show ?thesis
  proof (cases "rd_bytes st + size_of d > cap")
    case True
    then have "st1 = st\<lparr>rd_over := True, rd_content := [], rd_thinking := [], rd_calls := []\<rparr>"
      using k by (simp add: keep_piece_def m ct size)
    then show ?thesis
      using True bytes by (simp add: holds_replay_def replay_size_def)
  next
    case False
    then obtain calls where calls: "extended_by (dget m ''tool_calls'') = Inr calls"
      "st1 = st\<lparr>rd_bytes := rd_bytes st + size_of d, rd_content := rd_content st @ [c],
                rd_thinking := rd_thinking st @ [th], rd_calls := rd_calls st @ calls\<rparr>"
      using k by (auto simp: keep_piece_def m ct size elim!: ebind_InrE)
    then have "calls_of d = calls"
      by (simp add: calls_of_def field)
    then show ?thesis
      using False bytes h o by (simp add: holds_replay_def replay_size_def calls texts)
  qed
qed

lemma chat_turn_holds:
  assumes "holds_replay cap ds st" "chat_turn cap True d t st = Inr st1"
  shows "holds_replay cap (ds @ [d]) st1"
proof (cases "rd_over st")
  case True
  then show ?thesis
    using assms holds_over [OF assms(1) True, of d]
    by (auto simp: chat_turn_def holds_replay_def split: if_splits)
next
  case False
  then obtain st2 where "keep_piece cap (por (dget d ''message'') (JObj [])) st = Inr st2"
      "st1 = st2\<lparr>rd_chunks := rd_chunks st2 + 1\<rparr>"
    using assms(2) by (auto simp: chat_turn_def split: if_splits sum.splits)
  then show ?thesis
    using holds_keep [OF assms(1) False] by (simp add: holds_replay_def)
qed

lemma chat_turn_result:
  assumes h: "holds_replay cap ds st" and e: "chat_turn cap True d t st = Inl (Reported (RtCompleted tm res un))"
  shows "un = (cap < replay_size (ds @ [d]))
    \<and> res = (if cap < replay_size (ds @ [d]) then None else Some (replay_of (ds @ [d]) @ terminal_fields d))"
proof -
  obtain st1 where st1: "holds_replay cap (ds @ [d]) st1" "chat_done True d st1 t = Reported (RtCompleted tm res un)"
  proof (cases "rd_over st")
    case True
    then show ?thesis
      using that [of st] holds_over [OF h True, of d] e
      by (auto simp: chat_turn_def chat_refused_def split: if_splits)
  next
    case False
    then show ?thesis
      using that holds_keep [OF h False] e
      by (auto simp: chat_turn_def chat_refused_def split: if_splits sum.splits)
  qed
  then show ?thesis
    by (auto simp: chat_done_def holds_replay_def replay_of_def split: if_splits)
qed

lemma holds_replay_last [simp]: "holds_replay cap ds (st\<lparr>rd_last := t\<rparr>) = holds_replay cap ds st"
  by (simp add: holds_replay_def)

lemma chat_loop_replay:
  assumes "holds_replay cap ds st"
    and "chat_loop emit chk cap cp True xs e te st k = (Reported (RtCompleted tm res un), k')"
  shows "consumed xs \<noteq> [] \<and> un = (cap < replay_size (ds @ consumed xs))
    \<and> res = (if cap < replay_size (ds @ consumed xs) then None
             else Some (replay_of (ds @ consumed xs) @ terminal_fields (last (consumed xs))))"
  using assms
proof (induction xs arbitrary: ds st k)
  case Nil
  then show ?case
    by (auto simp: chat_end_def faulted_def split: stream_end.splits http_fault.splits)
next
  case (Cons x xs)
  show ?case
  proof (cases "\<exists>d t. x = (Decoded (JObj d), t)")
    case False
    obtain l t where x: "x = (l, t)" by (cases x)
    show ?thesis
    proof (cases l)
      case (Decoded j)
      then show ?thesis using False Cons.prems(2) x
        by (cases j) (auto split: sum.splits)
    next
      case Blank
      then show ?thesis using Cons.IH [OF Cons.prems(1), of k] Cons.prems(2) x by simp
    next
      case Undecodable
      then show ?thesis using Cons.IH [OF Cons.prems(1), of k] Cons.prems(2) x by simp
    qed
  next
    case True
    then obtain d t where x: "x = (Decoded (JObj d), t)" by blast
    with Cons.prems(2) obtain k1 where k1: "emit t (line_event (JObj d)) k = Inr k1"
      by (auto split: sum.splits)
    show ?thesis
    proof (cases "chat_turn cap True d t st")
      case (Inl r)
      then have r: "chat_turn cap True d t st = Inl (Reported (RtCompleted tm res un))"
        using Cons.prems(2) by (simp add: x k1)
      show ?thesis
        using chat_turn_result [OF Cons.prems(1) r] chat_turn_end [OF r] by (simp add: x)
    next
      case (Inr st1)
      obtain st2 k2 where st2: "holds_replay cap (ds @ [d]) st2"
          "chat_loop emit chk cap cp True xs e te st2 k2 = (Reported (RtCompleted tm res un), k')"
      proof (cases "t - rd_last st1 \<ge> cp")
        case True
        then show ?thesis
          using that [of "st1\<lparr>rd_last := t\<rparr>" "chk (observed_at (rd_chunks st1) t) k1"] Cons.prems(2)
            chat_turn_holds [OF Cons.prems(1) Inr] by (simp add: x k1 Inr)
      next
        case False
        then show ?thesis
          using that [of st1 k1] Cons.prems(2) chat_turn_holds [OF Cons.prems(1) Inr] by (simp add: x k1 Inr)
      qed
      show ?thesis
        using Cons.IH [OF st2] chat_turn_goes_on [OF Inr] by (simp add: x)
    qed
  qed
qed

lemma holds_reading0: "holds_replay cap [] reading0"
  by (simp add: holds_replay_def reading0_def replay_size_def)

lemma utf8_replay: "utf8_length (concat (map (text_field_of k) ds)) = sum_list (map (utf8_length \<circ> text_field_of k) ds)"
  by (simp add: utf8_length_concat)

lemma replay_texts_within:
  "utf8_length (concat (map (text_field_of ''content'') ds))
     + utf8_length (concat (map (text_field_of ''thinking'') ds)) \<le> replay_size ds"
  by (induction ds) (simp_all add: replay_size_def size_of_def piece_size_def utf8_replay)

section \<open>What a sink keeps\<close>

text \<open>A sink keeps an invariant of its state over whatever a relay feeds it.\<close>

locale sink =
  fixes emit :: "int \<Rightarrow> json \<Rightarrow> 'k \<Rightarrow> string + 'k"
    and chk :: "jobj \<Rightarrow> 'k \<Rightarrow> 'k"
    and good :: "'k \<Rightarrow> bool"
  assumes emit_keeps: "good k \<Longrightarrow> emit t ev k = Inr k' \<Longrightarrow> good k'"
    and chk_keeps: "good k \<Longrightarrow> good (chk obs k)"
begin

lemma loop_keeps:
  assumes "good k"
  shows "good (snd (chat_loop emit chk cap cp store xs e te st k))"
  using assms
proof (induction xs arbitrary: st k)
  case (Cons x xs)
  obtain l t where x: "x = (l, t)" by (cases x)
  show ?case
  proof (cases l)
    case (Decoded j)
    show ?thesis
    proof (cases "emit t (line_event j) k")
      case (Inr k1)
      then have "good k1" using Cons.prems emit_keeps by blast
      then show ?thesis
        using Cons.IH chk_keeps Inr
        by (cases j) (auto simp: x Decoded split: sum.splits)
    qed (use Cons.prems in \<open>simp add: x Decoded\<close>)
  qed (use Cons.prems Cons.IH in \<open>simp_all add: x\<close>)
qed simp

lemma stream_keeps: "good k \<Longrightarrow> good (snd (stream_chat emit chk cap cp store s k))"
  by (cases s) (auto simp: stream_chat_def loop_keeps split: sum.splits)

lemma chat_keeps: "good k \<Longrightarrow> good (snd (relay_chat emit chk cap cp tags post ref p store expected k))"
  by (auto simp: relay_chat_def stream_keeps split: option.splits)

end

end
