(* ===== verification/Relay_Summary.thy ===== *)
theory Relay_Summary
  imports Relay_Chat
begin

text \<open>
  Bounded summaries, \<open>src/backend/app/node_agent/summary.py\<close>: \<open>_SummarySink\<close> and
  \<open>bounded_summary\<close>. The relay it wraps is a parameter, as in the code; times are milliseconds on
  the event loop's clock. The token counter is a parameter too: its answer for a text, a timeout, or
  another exception.
\<close>

definition SUMMARY_MAX_BYTES :: nat where
  "SUMMARY_MAX_BYTES = 64 * 1024"

definition SUMMARY_OUTPUT_TOKENS :: int where
  "SUMMARY_OUTPUT_TOKENS = 600"

datatype counting = Counted "int list option" | CountTimeout | CountRaised

record 'k summary_sink =
  ss_outer :: 'k
  ss_parts :: "string list"
  ss_size :: nat
  ss_over :: bool

definition new_sink :: "'k \<Rightarrow> 'k summary_sink" where
  "new_sink k = \<lparr>ss_outer = k, ss_parts = [], ss_size = 0, ss_over = False\<rparr>"

text \<open>\<open>x.get(k)\<close> on a value that may be no dict.\<close>

definition get_of :: "json \<Rightarrow> string \<Rightarrow> string + json" where
  "get_of j k = (case j of JObj d \<Rightarrow> Inr (dget d k) | _ \<Rightarrow> Inl ''AttributeError'')"

definition summary_text :: "json \<Rightarrow> string + string" where
  "summary_text event =
     ebind (get_of event ''data'') (\<lambda>data.
     ebind (get_of (por data (JObj [])) ''message'') (\<lambda>m.
     ebind (get_of (por m (JObj [])) ''content'') text_or_empty))"

definition summary_emit :: "int \<Rightarrow> int \<Rightarrow> json \<Rightarrow> 'k summary_sink \<Rightarrow> string + 'k summary_sink" where
  "summary_emit deadline t event s =
     (if ss_over s \<or> t \<ge> deadline \<or> jget event ''type'' \<noteq> JStr ''line'' then Inr s
      else ebind (summary_text event) (\<lambda>text.
        Inr (if ss_size s + utf8_length text > SUMMARY_MAX_BYTES
             then s\<lparr>ss_size := ss_size s + utf8_length text, ss_over := True, ss_parts := []\<rparr>
             else s\<lparr>ss_size := ss_size s + utf8_length text, ss_parts := ss_parts s @ [text]\<rparr>)))"

definition summary_chk :: "(jobj \<Rightarrow> 'k \<Rightarrow> 'k) \<Rightarrow> jobj \<Rightarrow> 'k summary_sink \<Rightarrow> 'k summary_sink" where
  "summary_chk chk obs s = s\<lparr>ss_outer := chk obs (ss_outer s)\<rparr>"

text \<open>\<open>isinstance(runtime_count, int) and not runtime_count > limit\<close>: a bool is an int.\<close>

definition int_within :: "json \<Rightarrow> int \<Rightarrow> bool" where
  "int_within j limit = (case j of JInt n \<Rightarrow> n \<le> limit | JBool b \<Rightarrow> (if b then 1 else 0) \<le> limit | _ \<Rightarrow> False)"

definition summary_fits :: "string \<Rightarrow> int list option \<Rightarrow> jobj \<Rightarrow> bool" where
  "summary_fits text counts tm \<longleftrightarrow> text \<noteq> []
     \<and> (case counts of Some [n] \<Rightarrow> n \<le> SUMMARY_OUTPUT_TOKENS | _ \<Rightarrow> False)
     \<and> int_within (dget tm ''eval_count'') SUMMARY_OUTPUT_TOKENS
     \<and> dget tm ''done_reason'' \<noteq> JStr ''length''"

definition summary_event :: "string \<Rightarrow> json" where
  "summary_event text = JObj [(''type'', JStr ''summary''), (''text'', JStr text)]"

definition publish_summary :: "(json \<Rightarrow> 'k \<Rightarrow> string + 'k) \<Rightarrow> (string \<Rightarrow> counting) \<Rightarrow> jobj
    \<Rightarrow> 'k summary_sink \<Rightarrow> relay_end \<times> 'k" where
  "publish_summary emit count_of tm s =
     (if ss_over s then (Reported (RuntimeRefused tm ''summary_output_bytes_exceeded''), ss_outer s)
      else let text = py_strip (concat (ss_parts s)) in
        (case count_of text of
           CountTimeout \<Rightarrow> (Reported (RuntimeRefused tm ''summary_output_count_deadline''), ss_outer s)
         | CountRaised \<Rightarrow> (Reported (RuntimeRefused tm ''summary_output_count_failed''), ss_outer s)
         | Counted counts \<Rightarrow>
             if \<not> summary_fits text counts tm
             then (Reported (RuntimeRefused tm ''summary_output_budget_exceeded''), ss_outer s)
             else (case emit (summary_event text) (ss_outer s) of
                     Inl _ \<Rightarrow> (Reported (RuntimeRefused tm ''summary_output_count_failed''), ss_outer s)
                   | Inr k \<Rightarrow> (Reported (RtCompleted tm (Some [(''summary'', JStr text)]) False), k))))"

type_synonym 'k sink_relay =
  "(int \<Rightarrow> json \<Rightarrow> 'k \<Rightarrow> string + 'k) \<Rightarrow> (jobj \<Rightarrow> 'k \<Rightarrow> 'k) \<Rightarrow> 'k \<Rightarrow> relay_end \<times> 'k"

definition bounded_summary :: "(json \<Rightarrow> 'k \<Rightarrow> string + 'k) \<Rightarrow> (jobj \<Rightarrow> 'k \<Rightarrow> 'k) \<Rightarrow> 'k summary_sink sink_relay
    \<Rightarrow> (string \<Rightarrow> counting) \<Rightarrow> int \<Rightarrow> int \<Rightarrow> 'k \<Rightarrow> relay_end \<times> 'k" where
  "bounded_summary emit chk relay count_of deadline now k =
     (case relay (summary_emit deadline) (summary_chk chk) (new_sink k) of
        (Reported (RtCompleted tm res un), s) \<Rightarrow>
          if now \<ge> deadline then (Reported (RuntimeRefused tm ''summary_deadline''), ss_outer s)
          else publish_summary emit count_of tm s
      | (r, s) \<Rightarrow> (r, ss_outer s))"

section \<open>The sink's bound\<close>

definition sink_within :: "'k summary_sink \<Rightarrow> bool" where
  "sink_within s \<longleftrightarrow> (if ss_over s then ss_parts s = [] else
     ss_size s = utf8_length (concat (ss_parts s)) \<and> ss_size s \<le> SUMMARY_MAX_BYTES)"

interpretation summary: sink "summary_emit deadline" "summary_chk chk" sink_within
proof unfold_locales
  fix k k' :: "'a summary_sink" and t ev
  assume "sink_within k" "summary_emit deadline t ev k = Inr k'"
  then show "sink_within k'"
    by (auto simp: summary_emit_def sink_within_def split: if_splits elim!: ebind_InrE)
next
  fix k :: "'a summary_sink" and obs
  assume "sink_within k"
  then show "sink_within (summary_chk chk obs k)"
    by (auto simp: sink_within_def summary_chk_def split: if_splits)
qed

lemma sink_within_new [simp]: "sink_within (new_sink k)"
  by (simp add: sink_within_def new_sink_def)

lemma utf8_length_dropWhile: "utf8_length (dropWhile P s) \<le> utf8_length s"
  by (induction s) auto

lemma utf8_length_rev [simp]: "utf8_length (rev s) = utf8_length s"
  by (induction s) simp_all

lemma utf8_length_strip: "utf8_length (py_strip s) \<le> utf8_length s"
  using utf8_length_dropWhile [of py_space s] utf8_length_dropWhile [of py_space "rev (dropWhile py_space s)"]
  by (simp add: py_strip_def)

lemma publish_completed:
  assumes "publish_summary emit count_of tm s = (Reported (RtCompleted tm' res un), k)"
  shows "\<exists>n. \<not> ss_over s \<and> tm' = tm \<and> \<not> un \<and> res = Some [(''summary'', JStr (py_strip (concat (ss_parts s))))]
    \<and> py_strip (concat (ss_parts s)) \<noteq> [] \<and> count_of (py_strip (concat (ss_parts s))) = Counted (Some [n])
    \<and> n \<le> SUMMARY_OUTPUT_TOKENS \<and> int_within (dget tm ''eval_count'') SUMMARY_OUTPUT_TOKENS
    \<and> dget tm ''done_reason'' \<noteq> JStr ''length''
    \<and> emit (summary_event (py_strip (concat (ss_parts s)))) (ss_outer s) = Inr k"
  using assms
  by (auto simp: publish_summary_def summary_fits_def Let_def
      split: if_splits counting.splits sum.splits option.splits list.splits)

lemma publish_verdict:
  "\<exists>out. fst (publish_summary emit count_of tm s) = Reported out \<and> verdict_of out \<in> {VCompleted, VRefused}"
  by (auto simp: publish_summary_def Let_def verdict_of_def split: counting.splits sum.splits)

lemma bounded_completed:
  assumes r: "relay (summary_emit deadline) (summary_chk chk) (new_sink k) = (r, s)"
    and b: "bounded_summary emit chk relay count_of deadline now k = (Reported (RtCompleted tm res un), k')"
  shows "now < deadline \<and> publish_summary emit count_of tm s = (Reported (RtCompleted tm res un), k')"
proof -
  obtain tm0 res0 un0 where r0: "r = Reported (RtCompleted tm0 res0 un0)"
  proof (cases r)
    case (Reported out)
    show ?thesis
      by (cases out) (use b that Reported in \<open>simp_all add: bounded_summary_def r\<close>)
  qed (use b in \<open>simp_all add: bounded_summary_def r\<close>)
  have step: "bounded_summary emit chk relay count_of deadline now k =
      (if now \<ge> deadline then (Reported (RuntimeRefused tm0 ''summary_deadline''), ss_outer s)
       else publish_summary emit count_of tm0 s)"
    by (simp add: bounded_summary_def r r0)
  then have p: "now < deadline" "publish_summary emit count_of tm0 s = (Reported (RtCompleted tm res un), k')"
    using b by (simp_all split: if_splits)
  with publish_completed [OF p(2)] show ?thesis by auto
qed

end
