(* ===== verification/Relay_Properties.thy ===== *)
theory Relay_Properties
  imports Relay_Summary Dispatch_Protocol
begin

text \<open>
  What the relays promise: the outcome classes the dispatcher relies on, the evidence each outcome
  rests on, the bounded replay, and the summary published only within its budget.
\<close>

section \<open>The relays report what the dispatcher expects\<close>

definition never_withheld :: "relay_end \<Rightarrow> bool" where
  "never_withheld r = (case r of Reported out \<Rightarrow> verdict_of out \<noteq> VWithheld | _ \<Rightarrow> True)"

lemma never_withheld_simps [simp]:
  "never_withheld (Reported out) = (verdict_of out \<noteq> VWithheld)"
  "never_withheld (RelayRaised n)" "never_withheld (SenderCancelled b)"
  by (simp_all add: never_withheld_def)

lemma verdict_simps [simp]:
  "verdict_of (RtCompleted a b c) = VCompleted" "verdict_of (RuntimeRefused a r) = VRefused"
  "verdict_of (NotSent r) = VNotSent" "verdict_of (Uncertain r a) = VUncertain"
  "verdict_of (Withheld r) = VWithheld"
  by (simp_all add: verdict_of_def)

lemma relay_says_iff: "relay_says r = never_withheld r"
  by (auto simp: relay_says_def never_withheld_def verdict_of_def split: relay_end.splits outcome.splits)

lemma faulted_says [simp]: "never_withheld (faulted f obs)" "never_withheld (faulted_again f)"
  by (simp_all add: faulted_def faulted_again_def split: http_fault.splits)

lemma move_run_says: "never_withheld (move_run post body)"
  by (simp add: move_run_def move_answer_def Let_def split: sum.splits)

lemma relay_probe_says: "never_withheld (relay_probe post ref embedding ka cl)"
  by (simp add: relay_probe_def probe_vector_def probe_tokens_def Let_def split: sum.splits option.splits json.splits)

lemma pull_loop_says: "never_withheld (snd (pull_loop xs e seen))"
proof (induction xs e seen rule: pull_loop.induct)
  case (1 e seen)
  then show ?case by (simp add: pull_end_def split: stream_end.splits)
next
  case (2 ev t xs e seen)
  then show ?case by (cases ev) (simp_all add: Let_def case_prod_beta)
qed simp_all

lemma relay_pull_says: "never_withheld (snd (relay_pull s))"
  by (simp add: relay_pull_def pull_refused_def pull_loop_says split: stream.splits sum.splits)

lemma revision_says: "revision_mismatch tags ref expected = Some r \<Longrightarrow> never_withheld r"
  by (auto simp: revision_mismatch_def split: option.splits sum.splits http_fault.splits if_splits)

lemma end_verdict_says [simp]: "end_verdict e \<noteq> VWithheld" "fault_verdict f \<noteq> VWithheld"
  by (simp_all add: end_verdict_def fault_verdict_def split: stream_end.splits http_fault.splits)

lemma stream_verdict_says [simp]: "stream_verdict xs e \<noteq> VWithheld"
  by (simp add: stream_verdict_def split: option.splits)

lemma chat_loop_says: "never_withheld (fst (chat_loop emit chk cap cp store xs e te st k))"
proof (cases "chat_loop emit chk cap cp store xs e te st k")
  case (Pair r k')
  then show ?thesis by (cases r) (auto dest: chat_loop_verdict)
qed

lemma stream_chat_says: "never_withheld (fst (stream_chat emit chk cap cp store s k))"
  by (simp add: stream_chat_def chat_loop_says split: stream.splits sum.splits)

lemma relay_chat_says: "never_withheld (fst (relay_chat emit chk cap cp tags post ref p store expected k))"
  by (auto simp: relay_chat_def stream_chat_says revision_says split: option.splits)

lemma relay_embed_says: "never_withheld (snd (relay_embed tags post ref p store expected))"
  by (auto simp: relay_embed_def embed_answer_def Let_def revision_says
      split: option.splits sum.splits json.splits)

lemma bounded_summary_says:
  assumes "never_withheld (fst (relay (summary_emit deadline) (summary_chk chk) (new_sink k)))"
  shows "never_withheld (fst (bounded_summary emit chk relay count_of deadline now k))"
proof (cases "relay (summary_emit deadline) (summary_chk chk) (new_sink k)")
  case (Pair r s)
  have "never_withheld (fst (publish_summary emit count_of tm s))" for tm
    using publish_verdict [of emit count_of tm s] by auto
  then show ?thesis
    using assms by (auto simp: bounded_summary_def Pair split: relay_end.splits outcome.splits)
qed

text \<open>
  No relay reports \<open>Withheld\<close>, as the step relation of the dispatcher has it: a load, unload or probe, a pull, a generation with any sink, an
  embedding, and a bounded summary all report only what the dispatcher settles as the runtime's own
  evidence, whatever the runtime and the transport answer.
\<close>

lemma relays_meet_the_dispatcher:
  "relay_says (relay_load post ref ka cl) \<and> relay_says (relay_unload post ref)
   \<and> relay_says (relay_probe post ref embedding ka cl) \<and> relay_says (snd (relay_pull s))
   \<and> relay_says (fst (relay_chat emit chk cap cp tags send ref p store expected k))
   \<and> relay_says (snd (relay_embed tags post' ref p store expected))
   \<and> relay_says (fst (bounded_summary out chk'
        (\<lambda>em ck. relay_chat em ck cap cp tags send ref p False expected) count_of deadline now k'))"
  by (simp add: relay_says_iff relay_load_def relay_unload_def move_run_says relay_probe_says relay_pull_says
      relay_chat_says relay_embed_says bounded_summary_says)

section \<open>Evidence\<close>

text \<open>
  httpx raises a connection fault only while it opens the connection, before a byte is written; so
  neither the body nor the lines of an opened stream end in one.
\<close>

definition connects_first :: "stream \<Rightarrow> bool" where
  "connects_first s = (case s of NotOpened _ \<Rightarrow> True
     | Opened st body xs e te \<Rightarrow> (\<forall>n. body \<noteq> Inl (ConnectFault n)) \<and> (\<forall>n. e \<noteq> Broken (ConnectFault n)))"

lemma end_not_sent: "(\<forall>n. e \<noteq> Broken (ConnectFault n)) \<Longrightarrow> end_verdict e \<noteq> VNotSent"
  by (auto simp: end_verdict_def fault_verdict_def split: stream_end.splits http_fault.splits)

lemma stream_not_sent: "(\<forall>n. e \<noteq> Broken (ConnectFault n)) \<Longrightarrow> stream_verdict xs e \<noteq> VNotSent"
  by (simp add: stream_verdict_def end_not_sent split: option.splits)

text \<open>
  C20: A generation reported as not sent never reached the runtime: either the revision of the model was
  not confirmed, before anything was sent, or the connection for its one request was refused.
\<close>

theorem not_sent_means_no_byte:
  assumes "connects_first (send p)"
    and "relay_chat emit chk cap cp tags send ref p store expected k = (Reported (NotSent r), k')"
  shows "revision_mismatch tags ref expected = Some (Reported (NotSent r)) \<or> send p = NotOpened (ConnectFault r)"
proof (cases "revision_mismatch tags ref expected")
  case None
  with assms(2) have run: "stream_chat emit chk cap cp store (send p) k = (Reported (NotSent r), k')"
    by (simp add: relay_chat_def)
  show ?thesis
  proof (cases "send p")
    case (NotOpened f)
    then show ?thesis using run by (auto simp: stream_chat_def faulted_def split: http_fault.splits)
  next
    case (Opened st body xs e te)
    then have e: "\<forall>n. e \<noteq> Broken (ConnectFault n)" "\<forall>n. body \<noteq> Inl (ConnectFault n)"
      using assms(1) by (simp_all add: connects_first_def)
    show ?thesis
    proof (cases "st = 200")
      case True
      then have "chat_loop emit chk cap cp store xs e te reading0 k = (Reported (NotSent r), k')"
        using run Opened by (simp add: stream_chat_def)
      from chat_loop_verdict [OF this] show ?thesis
        using stream_not_sent [OF e(1), of xs] by simp
    next
      case False
      then show ?thesis
        using run Opened e(2) by (auto simp: stream_chat_def faulted_def split: sum.splits http_fault.splits)
    qed
  qed
qed (use assms in \<open>simp add: relay_chat_def\<close>)

text \<open>Lines whose shape the relay reads without an exception.\<close>

definition well_shaped :: "line \<times> int \<Rightarrow> bool" where
  "well_shaped x = (case fst x of
     Decoded (JObj d) \<Rightarrow> (case por (dget d ''message'') (JObj []) of
        JObj m \<Rightarrow> (\<exists>s. text_or_empty (dget m ''content'') = Inr s) \<and> (\<exists>s. text_or_empty (dget m ''thinking'') = Inr s)
                  \<and> (\<exists>cs. extended_by (dget m ''tool_calls'') = Inr cs)
      | _ \<Rightarrow> False)
   | Decoded _ \<Rightarrow> False
   | _ \<Rightarrow> True)"

lemma keep_piece_shaped:
  "well_shaped (Decoded (JObj d), t) \<Longrightarrow> \<exists>st1. keep_piece cap (por (dget d ''message'') (JObj [])) st = Inr st1"
  by (auto simp: well_shaped_def keep_piece_def split: json.splits)

lemma chat_turn_shaped:
  assumes "well_shaped (Decoded (JObj d), t)"
  shows "(\<exists>out. chat_turn cap store d t st = Inl (Reported out)) \<or> (\<exists>st1. chat_turn cap store d t st = Inr st1)"
  using keep_piece_shaped [OF assms, of cap st]
  by (auto simp: chat_turn_def chat_refused_def chat_done_def split: if_splits)

lemma chat_loop_reports:
  assumes "list_all well_shaped xs" and "\<And>t ev k. \<exists>k'. emit t ev k = Inr k'"
  shows "(\<exists>out. fst (chat_loop emit chk cap cp store xs e te st k) = Reported out)
    \<or> (\<exists>n. decisive xs = None \<and> e = Broken (OtherFault n)
         \<and> fst (chat_loop emit chk cap cp store xs e te st k) = RelayRaised n)"
  using assms(1)
proof (induction xs arbitrary: st k)
  case Nil
  then show ?case
    by (auto simp: chat_end_def faulted_def split: stream_end.splits http_fault.splits)
next
  case (Cons x xs)
  obtain l t where x: "x = (l, t)" by (cases x)
  show ?case
  proof (cases l)
    case (Decoded j)
    then obtain d where j: "j = JObj d"
      using Cons.prems by (cases j) (simp_all add: x well_shaped_def)
    obtain k1 where k1: "emit t (line_event j) k = Inr k1"
      using assms(2) by blast
    have shaped: "well_shaped (Decoded (JObj d), t)"
      using Cons.prems by (simp add: x Decoded j)
    show ?thesis
    proof (cases "chat_turn cap store d t st")
      case (Inl r)
      then show ?thesis
        using chat_turn_shaped [OF shaped, of cap store st] k1 by (auto simp: x Decoded j)
    next
      case (Inr st1)
      then show ?thesis
        using k1 Cons.IH Cons.prems chat_turn_goes_on [OF Inr] by (simp add: x Decoded j)
    qed
  qed (use Cons in \<open>simp_all add: x\<close>)
qed

lemma end_uncertain: "(\<forall>n. e \<noteq> Broken (ConnectFault n)) \<Longrightarrow> end_verdict e = VUncertain"
  by (auto simp: end_verdict_def fault_verdict_def split: stream_end.splits http_fault.splits)

text \<open>
  C19: Over any stream whose lines have the runtime's shape, the class of the outcome the dispatcher settles
  is the evidence's: completed or refused by the first line that says \<open>done\<close> or \<open>error\<close>, and without
  such a line uncertain, however the stream ended: closed, idle for too long, broken by a transport fault, or
  by an exception no clause of the relay catches, which is the only end at which the relay itself reports
  nothing. Lines that do not decode change nothing. (A stream that was opened does not end in a refused
  connection: httpx reports that before a byte is written.)
\<close>

theorem outcome_is_the_evidence:
  assumes "list_all well_shaped xs" and "\<And>t ev k. \<exists>k'. emit t ev k = Inr k'"
    and "connects_first (Opened 200 body xs e te)"
    and "r = fst (stream_chat emit chk cap cp store (Opened 200 body xs e te) k)"
  shows "verdict_of (relay_outcome oid r g) = (case decisive xs of None \<Rightarrow> VUncertain
        | Some d \<Rightarrow> if truthy (dget d ''error'') then VRefused else VCompleted)
    \<and> ((\<exists>out. r = Reported out) \<or> (\<exists>n. decisive xs = None \<and> e = Broken (OtherFault n) \<and> r = RelayRaised n))"
proof -
  have r: "r = fst (chat_loop emit chk cap cp store xs e te reading0 k)"
    using assms(4) by (simp add: stream_chat_def)
  have "end_verdict e = VUncertain"
    using assms(3) by (intro end_uncertain) (simp add: connects_first_def)
  then have "verdict_of out = (case decisive xs of None \<Rightarrow> VUncertain
        | Some d \<Rightarrow> if truthy (dget d ''error'') then VRefused else VCompleted)" if "r = Reported out" for out
    using that chat_loop_verdict [of emit chk cap cp store xs e te reading0 k out] r
    by (metis prod.collapse stream_verdict_def)
  moreover have "verdict_of (relay_outcome oid (RelayRaised n) g) = VUncertain" for n
    by (simp add: relay_outcome_def)
  moreover have "(\<exists>out. r = Reported out) \<or> (\<exists>n. decisive xs = None \<and> e = Broken (OtherFault n) \<and> r = RelayRaised n)"
    unfolding r by (rule chat_loop_reports [OF assms(1,2)])
  ultimately show ?thesis by (auto simp: relay_outcome_def)
qed

section \<open>The replay\<close>

text \<open>
  A completed generation stores the concatenation of what its lines carried, with the runtime's
  closing figures, if the whole fits the cap, and nothing, marked unavailable, if it does not; what is
  stored is never larger than the cap.
\<close>

theorem replay_is_the_output_within_the_cap:
  assumes "stream_chat emit chk cap cp True (Opened 200 body xs e te) k = (Reported (RtCompleted tm res un), k')"
  shows "un = (cap < replay_size (consumed xs)) \<and> consumed xs \<noteq> []
    \<and> res = (if un then None else Some (replay_of (consumed xs) @ terminal_fields (last (consumed xs))))
    \<and> (\<not> un \<longrightarrow> utf8_length (concat (map (text_field_of ''content'') (consumed xs)))
              + utf8_length (concat (map (text_field_of ''thinking'') (consumed xs))) \<le> cap)"
proof -
  have "chat_loop emit chk cap cp True xs e te reading0 k = (Reported (RtCompleted tm res un), k')"
    using assms by (simp add: stream_chat_def)
  from chat_loop_replay [OF holds_reading0 this]
  show ?thesis
    using replay_texts_within [of "consumed xs"] by auto
qed

section \<open>Summaries\<close>

text \<open>
  C21: A summary is published only from a completed relay, before its deadline, as a non-empty text of at
  most 64 KiB, counted to at most 600 tokens by the counter and reported as at most 600 by the
  runtime, and not cut off by its length; the caller's sink receives exactly that text.
\<close>

theorem summary_within_budget:
  assumes "bounded_summary out chk (\<lambda>em ck. relay_chat em ck cap cp tags send ref p False expected)
             count_of deadline now k = (Reported (RtCompleted tm res un), k')"
  shows "\<exists>text n k0. res = Some [(''summary'', JStr text)] \<and> text \<noteq> [] \<and> utf8_length text \<le> SUMMARY_MAX_BYTES
    \<and> count_of text = Counted (Some [n]) \<and> n \<le> SUMMARY_OUTPUT_TOKENS
    \<and> int_within (dget tm ''eval_count'') SUMMARY_OUTPUT_TOKENS \<and> dget tm ''done_reason'' \<noteq> JStr ''length''
    \<and> now < deadline \<and> out (summary_event text) k0 = Inr k'"
proof -
  define run where "run = relay_chat (summary_emit deadline) (summary_chk chk) cap cp tags send ref p False expected (new_sink k)"
  obtain r s where rs: "run = (r, s)" by (cases run)
  have within: "sink_within s"
    using summary.chat_keeps [of "new_sink k" deadline chk cap cp tags send ref p False expected]
    by (simp add: run_def [symmetric] rs)
  have pub: "now < deadline" "publish_summary out count_of tm s = (Reported (RtCompleted tm res un), k')"
    using bounded_completed [OF rs [unfolded run_def] assms] by simp_all
  let ?text = "py_strip (concat (ss_parts s))"
  from publish_completed [OF pub(2)] obtain n where n: "\<not> ss_over s" "res = Some [(''summary'', JStr ?text)]" "?text \<noteq> []"
    "count_of ?text = Counted (Some [n])" "n \<le> SUMMARY_OUTPUT_TOKENS"
    "int_within (dget tm ''eval_count'') SUMMARY_OUTPUT_TOKENS" "dget tm ''done_reason'' \<noteq> JStr ''length''"
    "out (summary_event ?text) (ss_outer s) = Inr k'"
    by blast
  have "utf8_length ?text \<le> SUMMARY_MAX_BYTES"
    using within n(1) utf8_length_strip [of "concat (ss_parts s)"] by (simp add: sink_within_def)
  then show ?thesis
    using n pub(1) by blast
qed

text \<open>
  The budget of a summary never costs the node its evidence: an outcome of the wrapped relay that is
  not a completion, or an exception, passes unchanged, and a completion becomes a completion or a
  refusal, never an uncertain outcome that would block the node.
\<close>
theorem summary_keeps_the_evidence:
  "case relay (summary_emit deadline) (summary_chk chk) (new_sink k) of
     (Reported (RtCompleted tm res un), s) \<Rightarrow>
       \<exists>o'. fst (bounded_summary out chk relay count_of deadline now k) = Reported o'
          \<and> verdict_of o' \<in> {VCompleted, VRefused}
   | (r, s) \<Rightarrow> bounded_summary out chk relay count_of deadline now k = (r, ss_outer s)"
proof (cases "relay (summary_emit deadline) (summary_chk chk) (new_sink k)")
  case (Pair r s)
  then show ?thesis
    using publish_verdict [of out count_of _ s]
    by (auto simp: bounded_summary_def split: relay_end.splits outcome.splits)
qed

section \<open>Concrete runs\<close>

definition keep_emit :: "int \<Rightarrow> json \<Rightarrow> json list \<Rightarrow> string + json list" where
  "keep_emit t ev k = Inr (k @ [ev])"

definition no_checkpoint :: "jobj \<Rightarrow> 'k \<Rightarrow> 'k" where
  "no_checkpoint obs k = k"

definition demo_piece :: "string \<Rightarrow> jobj \<Rightarrow> line" where
  "demo_piece text d = Decoded (JObj ((''message'', JObj [(''content'', JStr text)]) # d))"

definition demo_lines :: "(line \<times> int) list" where
  "demo_lines = [(demo_piece ''hi'' [], 10), (Undecodable, 11), (Blank, 12),
     (demo_piece ''!'' [(''done'', JBool True), (''eval_count'', JInt 2)], 20)]"

definition demo_stream :: stream where
  "demo_stream = Opened 200 (Inr []) demo_lines EndOfStream 25"

lemma not_sent_means_no_byte_witness:
  "revision_mismatch (Inl (HttpFault ''x'')) ''m'' None = Some (Reported (NotSent ''ConnectError''))
   \<or> (\<lambda>_. NotOpened (ConnectFault ''ConnectError'')) [] = NotOpened (ConnectFault ''ConnectError'')"
  by (rule not_sent_means_no_byte [where emit = keep_emit and chk = no_checkpoint and cap = 0 and cp = 5000
        and store = False and k = "[]" and k' = "[]"])
    (simp_all add: connects_first_def relay_chat_def revision_mismatch_def stream_chat_def faulted_def)

text \<open>The stream of the demonstration, and the same stream broken off after its first line.\<close>

definition broken_stream :: stream where
  "broken_stream = Opened 200 (Inr []) [(demo_piece ''hi'' [], 10)] (Broken (OtherFault ''ValueError'')) 11"

lemma outcome_is_the_evidence_witness:
  "verdict_of (relay_outcome ''op'' (fst (stream_chat keep_emit no_checkpoint 0 5000 False demo_stream [])) (the (new_gate 1 4))) = VCompleted
   \<and> verdict_of (relay_outcome ''op'' (fst (stream_chat keep_emit no_checkpoint 0 5000 False broken_stream [])) (the (new_gate 1 4))) = VUncertain"
proof -
  have shaped: "list_all well_shaped demo_lines" "list_all well_shaped [(demo_piece ''hi'' [], 10)]"
    by (simp_all add: demo_lines_def demo_piece_def well_shaped_def por_def text_or_empty_def extended_by_def)
  have emits: "\<exists>k'. keep_emit t ev k = Inr k'" for t ev k by (simp add: keep_emit_def)
  have opened: "connects_first (Opened 200 (Inr []) demo_lines EndOfStream 25)" "connects_first broken_stream"
    by (simp_all add: connects_first_def broken_stream_def)
  have "decisive demo_lines = Some [(''message'', JObj [(''content'', JStr ''!'')]), (''done'', JBool True), (''eval_count'', JInt 2)]"
    "decisive [(demo_piece ''hi'' [], 10)] = None"
    by (simp_all add: demo_lines_def demo_piece_def decides_def)
  then show ?thesis
    using outcome_is_the_evidence [OF shaped(1) emits opened(1) refl,
        where oid = "''op''" and chk = no_checkpoint and cap = 0 and cp = 5000 and store = False and k = "[]" and g = "the (new_gate 1 4)"]
      outcome_is_the_evidence [OF shaped(2) emits opened(2) [unfolded broken_stream_def] refl,
        where oid = "''op''" and chk = no_checkpoint and cap = 0 and cp = 5000 and store = False and k = "[]" and g = "the (new_gate 1 4)"]
    by (simp add: demo_stream_def broken_stream_def)
qed

lemma replay_is_the_output_within_the_cap_witness:
  "consumed demo_lines \<noteq> [] \<and> replay_size (consumed demo_lines) \<le> 100
   \<and> concat (map (text_field_of ''content'') (consumed demo_lines)) = ''hi!''"
proof -
  obtain tm res k' where "stream_chat keep_emit no_checkpoint 100 5000 True (Opened 200 (Inr []) demo_lines EndOfStream 25) []
      = (Reported (RtCompleted tm res False), k')"
    using that by (simp add: demo_lines_def demo_piece_def stream_chat_def keep_emit_def chat_turn_def keep_piece_def
        por_def text_or_empty_def extended_by_def piece_size_def reading0_def chat_done_def no_checkpoint_def comma_join_def)
  note stored = replay_is_the_output_within_the_cap [OF this]
  have "concat (map (text_field_of ''content'') (consumed demo_lines)) = ''hi!''"
    by code_simp
  with stored show ?thesis by simp
qed

definition demo_summary :: "relay_end \<times> json list" where
  "demo_summary = bounded_summary (\<lambda>ev k. Inr (k @ [ev])) no_checkpoint
     (\<lambda>em ck. relay_chat em ck 0 5000 (Inl (HttpFault ''x'')) (\<lambda>_. demo_stream) ''m'' [] False None)
     (\<lambda>_. Counted (Some [2])) 30000 30 []"

lemma demo_summary_result:
  "demo_summary = (Reported (RtCompleted
      [(''done_reason'', JNull), (''eval_count'', JInt 2), (''prompt_eval_count'', JNull), (''total_duration'', JNull),
       (''load_duration'', JNull), (''prompt_eval_duration'', JNull), (''eval_duration'', JNull),
       (''observed_chunk_count'', JInt 1), (''observed_elapsed_ms'', JInt 20)]
      (Some [(''summary'', JStr ''hi!'')]) False), [summary_event ''hi!''])"
  by (simp add: demo_summary_def bounded_summary_def relay_chat_def revision_mismatch_def demo_stream_def
      demo_lines_def demo_piece_def stream_chat_def chat_turn_def summary_emit_def summary_text_def get_of_def jget_def
      line_event_def por_def text_or_empty_def new_sink_def reading0_def chat_done_def SUMMARY_MAX_BYTES_def
      publish_summary_def summary_fits_def SUMMARY_OUTPUT_TOKENS_def int_within_def py_strip_def py_space_def
      terminal_fields_def TERMINAL_FIELDS_def observed_at_def Let_def)

lemma summary_within_budget_witness:
  "\<exists>text n. text \<noteq> [] \<and> utf8_length text \<le> SUMMARY_MAX_BYTES \<and> n \<le> SUMMARY_OUTPUT_TOKENS
    \<and> [(''summary'', JStr ''hi!'')] = [(''summary'', JStr text)] \<and> Counted (Some [2]) = Counted (Some [n])"
  using summary_within_budget [OF demo_summary_result [unfolded demo_summary_def]] by auto

text \<open>
  A runtime that answers the revision check with a document the code cannot read makes the relay raise
  before it sends anything; the dispatcher can only take that for an uncertain outcome and blocks.
\<close>

lemma unreadable_tags_block_the_node:
  assumes "tags = Inr \<lparr>rs_status = 200, rs_text = ''null'', rs_doc = Some (JObj [(''models'', JNull)])\<rparr>"
  shows "relay_chat emit chk cap cp tags send ref p store (Some want) k = (RelayRaised ''TypeError'', k)
    \<and> uncertain (relay_outcome oid (RelayRaised ''TypeError'') g)"
  by (simp add: assms relay_chat_def revision_mismatch_def served_digest_def iterated_def
      relay_outcome_def uncertain_def)

end
