(* ===== verification/Host_Supervisor.thy ===== *)
theory Host_Supervisor
  imports Py_Values
begin

text \<open>
  The host's runtime supervisor, \<open>src/scripts/host/runtime_supervisor.py\<close>: how it stops, starts and
  restarts the runtime. The host is a parameter: what the n-th call (of \<open>ps\<close>, \<open>launchctl\<close>, \<open>kill\<close>
  or the clock, counted together) answers. A loop has fuel, and running out of it is an end of its own.
  Wall-clock timestamps of a receipt are left out; durations are milliseconds.
\<close>

section \<open>Processes and the host\<close>

record proc =
  pr_pid :: int
  pr_ppid :: int
  pr_uid :: int
  pr_started :: string
  pr_command :: string

definition identity :: "proc \<Rightarrow> int \<times> string" where
  "identity p = (pr_pid p, pr_started p)"

record config =
  cf_label :: string
  cf_plist :: string
  cf_uid :: int
  cf_processes :: "string list"
  cf_unload_ms :: int
  cf_exit_ms :: int
  cf_signal_ms :: int
  cf_start_ms :: int

datatype killed = Sent | NoProcess | KillRaises string

record host =
  h_ps :: "nat \<Rightarrow> int \<times> string"
  h_ctl :: "nat \<Rightarrow> string list \<Rightarrow> int \<times> string"
  h_kill :: "nat \<Rightarrow> int \<Rightarrow> int \<Rightarrow> killed"
  h_clock :: "nat \<Rightarrow> int"

record job =
  j_loaded :: bool
  j_pid :: "int option"

definition spaced :: "string list \<Rightarrow> string" where
  "spaced xs = (case xs of [] \<Rightarrow> [] | y # ys \<Rightarrow> y @ concat (map (\<lambda>x. '' '' @ x) ys))"

definition parse_ps_line :: "string \<Rightarrow> proc option" where
  "parse_ps_line line =
     (let fields = py_split 8 line in
      if length fields < 9 then None
      else case (py_int_of_str (fields ! 0), py_int_of_str (fields ! 1), py_int_of_str (fields ! 2)) of
        (Some pid, Some ppid, Some uid) \<Rightarrow>
          Some \<lparr>pr_pid = pid, pr_ppid = ppid, pr_uid = uid, pr_started = spaced (take 5 (drop 3 fields)),
                pr_command = py_strip (fields ! 8)\<rparr>
      | _ \<Rightarrow> None)"

definition parse_ps :: "string \<Rightarrow> proc list" where
  "parse_ps output = List.map_filter parse_ps_line (splitlines output)"

text \<open>The configured account and process names.\<close>

definition runtime_proc :: "config \<Rightarrow> proc \<Rightarrow> bool" where
  "runtime_proc cf p \<longleftrightarrow> pr_uid p = cf_uid cf \<and> basename (pr_command p) \<in> set (cf_processes cf)"

text \<open>The \<open>_JOB_PID\<close> line of \<open>launchctl print\<close>.\<close>

definition job_pid_line :: "string \<Rightarrow> int option" where
  "job_pid_line line =
     (let t = py_strip line; ds = drop 6 t in
      if take 6 t = ''pid = '' \<and> ds \<noteq> [] \<and> list_all is_digit ds then map_option int (digits_value 0 ds) else None)"

definition job_of :: "int \<times> string \<Rightarrow> job" where
  "job_of r =
     (if fst r \<noteq> 0 then \<lparr>j_loaded = False, j_pid = None\<rparr>
      else \<lparr>j_loaded = True,
            j_pid = (case List.map_filter job_pid_line (newline_parts [] (snd r)) of [] \<Rightarrow> None | n # _ \<Rightarrow> Some n)\<rparr>)"

section \<open>Running a request\<close>

record receipt =
  rc_id :: string
  rc_action :: string
  rc_reason :: string
  rc_incarnation :: string
  rc_label :: string
  rc_result :: string
  rc_error :: "string option"
  rc_job_before :: "job option"
  rc_job_after :: "job option"
  rc_before :: "proc list"
  rc_after :: "proc list"
  rc_steps :: "(string \<times> jobj) list"

text \<open>
  The state of a run: calls made, the receipt so far, and, for the statements below, the scans and job
  reads with their results, the orders given to \<open>launchctl\<close> and the signals sent, in order.
\<close>

datatype seen = Scan "proc list" | Read job | Ordered "string list" | Signalled int int

record sup =
  su_tick :: nat
  su_receipt :: receipt
  su_log :: "seen list"

datatype sup_end = SupervisorError string | Exception string | OutOfFuel

type_synonym 'a sup_m = "sup \<Rightarrow> (sup_end + 'a) \<times> sup"

definition sret :: "'a \<Rightarrow> 'a sup_m" where
  "sret x s = (Inr x, s)"

definition sraise :: "sup_end \<Rightarrow> 'a sup_m" where
  "sraise e s = (Inl e, s)"

definition sbind :: "'a sup_m \<Rightarrow> ('a \<Rightarrow> 'b sup_m) \<Rightarrow> 'b sup_m" where
  "sbind m f s = (case m s of (Inl e, s1) \<Rightarrow> (Inl e, s1) | (Inr x, s1) \<Rightarrow> f x s1)"

text \<open>One call of the host.\<close>

definition tick :: "sup \<Rightarrow> sup" where
  "tick s = s\<lparr>su_tick := su_tick s + 1\<rparr>"

definition noted :: "seen \<Rightarrow> sup \<Rightarrow> sup" where
  "noted x s = s\<lparr>su_log := su_log s @ [x]\<rparr>"

definition processes :: "host \<Rightarrow> config \<Rightarrow> proc list sup_m" where
  "processes h cf s =
     (case h_ps h (su_tick s) of (code, out) \<Rightarrow>
        if code \<noteq> 0
        then (Inl (SupervisorError (''ps failed ('' @ show_int code @ ''): '' @ take 200 (py_strip out))), tick s)
        else let ps = filter (runtime_proc cf) (parse_ps out) in (Inr ps, noted (Scan ps) (tick s)))"

definition job_read :: "host \<Rightarrow> config \<Rightarrow> job sup_m" where
  "job_read h cf s =
     (let j = job_of (h_ctl h (su_tick s) [''print'', ''system/'' @ cf_label cf]) in (Inr j, noted (Read j) (tick s)))"

definition launchctl :: "host \<Rightarrow> string list \<Rightarrow> (int \<times> string) sup_m" where
  "launchctl h args s = (Inr (h_ctl h (su_tick s) args), noted (Ordered args) (tick s))"

definition clock_read :: "host \<Rightarrow> int sup_m" where
  "clock_read h s = (Inr (h_clock h (su_tick s)), tick s)"

definition step_note :: "string \<Rightarrow> jobj \<Rightarrow> unit sup_m" where
  "step_note name detail s =
     (Inr (), s\<lparr>su_receipt := (su_receipt s)\<lparr>rc_steps := rc_steps (su_receipt s) @ [(name, detail)]\<rparr>\<rparr>)"

definition on_receipt :: "(receipt \<Rightarrow> receipt) \<Rightarrow> unit sup_m" where
  "on_receipt f s = (Inr (), s\<lparr>su_receipt := f (su_receipt s)\<rparr>)"

definition kill_call :: "host \<Rightarrow> int \<Rightarrow> int \<Rightarrow> bool sup_m" where
  "kill_call h pid signum s =
     (case h_kill h (su_tick s) pid signum of
        Sent \<Rightarrow> (Inr True, noted (Signalled pid signum) (tick s))
      | NoProcess \<Rightarrow> (Inr False, tick s)
      | KillRaises n \<Rightarrow> (Inl (Exception n), tick s))"

definition signal_proc :: "host \<Rightarrow> config \<Rightarrow> proc \<Rightarrow> int \<Rightarrow> bool sup_m" where
  "signal_proc h cf target signum =
     sbind (processes h cf) (\<lambda>ps.
       if identity target \<notin> identity ` set ps then sret False else kill_call h (pr_pid target) signum)"

definition alive :: "host \<Rightarrow> config \<Rightarrow> (int \<times> string) list \<Rightarrow> proc list sup_m" where
  "alive h cf wanted = sbind (processes h cf) (\<lambda>ps. sret (filter (\<lambda>p. identity p \<in> set wanted) ps))"

text \<open>\<open>_wait\<close>: the condition is asked again until it answers or the clock passes the deadline.\<close>

fun wait_until :: "nat \<Rightarrow> host \<Rightarrow> int \<Rightarrow> 'a option sup_m \<Rightarrow> 'a option sup_m" where
  "wait_until 0 h deadline done_yet = sraise OutOfFuel"
| "wait_until (Suc n) h deadline done_yet =
     sbind done_yet (\<lambda>r. case r of
       Some x \<Rightarrow> sret (Some x)
     | None \<Rightarrow> sbind (clock_read h) (\<lambda>t.
         if t \<ge> deadline then sret None else wait_until n h deadline done_yet))"

definition wait_for :: "nat \<Rightarrow> host \<Rightarrow> int \<Rightarrow> 'a option sup_m \<Rightarrow> 'a option sup_m" where
  "wait_for fuel h timeout done_yet = sbind (clock_read h) (\<lambda>t. wait_until fuel h (t + timeout) done_yet)"

definition gone :: "host \<Rightarrow> config \<Rightarrow> (int \<times> string) list \<Rightarrow> unit option sup_m" where
  "gone h cf wanted = sbind (alive h cf wanted) (\<lambda>ps. sret (if ps = [] then Some () else None))"

definition unloaded :: "host \<Rightarrow> config \<Rightarrow> unit option sup_m" where
  "unloaded h cf = sbind (job_read h cf) (\<lambda>j. sret (if j_loaded j then None else Some ()))"

section \<open>Stop, start, restart\<close>

fun signal_all :: "host \<Rightarrow> config \<Rightarrow> proc list \<Rightarrow> int \<Rightarrow> int list sup_m" where
  "signal_all h cf [] signum = sret []"
| "signal_all h cf (p # ps) signum =
     sbind (signal_proc h cf p signum) (\<lambda>sent.
     sbind (signal_all h cf ps signum) (\<lambda>rest. sret (if sent then pr_pid p # rest else rest)))"

fun signal_rounds :: "nat \<Rightarrow> host \<Rightarrow> config \<Rightarrow> (int \<times> string) list \<Rightarrow> (int \<times> string) list \<Rightarrow> unit sup_m" where
  "signal_rounds fuel h cf wanted [] = sret ()"
| "signal_rounds fuel h cf wanted ((signum, name) # rs) =
     sbind (alive h cf wanted) (\<lambda>remaining.
       if remaining = [] then sret ()
       else sbind (signal_all h cf remaining signum) (\<lambda>sent.
            sbind (step_note name [(''pids'', JList (map JInt sent))]) (\<lambda>_.
            sbind (wait_for fuel h (cf_signal_ms cf) (gone h cf wanted)) (\<lambda>_.
              signal_rounds fuel h cf wanted rs))))"

definition SIGNALS :: "(int \<times> string) list" where
  "SIGNALS = [(15, ''SIGTERM''), (9, ''SIGKILL'')]"

definition called :: "int \<times> string \<Rightarrow> jobj" where
  "called r = [(''code'', JInt (fst r)), (''output'', JStr (take 500 (py_strip (snd r))))]"

definition pid_list :: "proc list \<Rightarrow> string" where
  "pid_list ps = ''['' @ comma_join (map (\<lambda>p. show_int (pr_pid p)) ps) @ '']''"

text \<open>The fresh scan and the job read a stop ends on.\<close>

definition stop_check :: "host \<Rightarrow> config \<Rightarrow> unit sup_m" where
  "stop_check h cf =
     sbind (processes h cf) (\<lambda>survivors.
       if survivors \<noteq> []
       then sbind (on_receipt (\<lambda>r. r\<lparr>rc_after := survivors\<rparr>)) (\<lambda>_.
            sraise (SupervisorError (''runtime processes survived the stop: '' @ pid_list survivors)))
       else sbind (job_read h cf) (\<lambda>j.
            if j_loaded j
            then sraise (SupervisorError (cf_label cf @ '' was loaded again during the stop''))
            else step_note ''stopped'' []))"

text \<open>What follows the order to unload the job.\<close>

definition stop_after :: "nat \<Rightarrow> host \<Rightarrow> config \<Rightarrow> proc list \<Rightarrow> int \<times> string \<Rightarrow> unit sup_m" where
  "stop_after fuel h cf before r =
     sbind (step_note ''bootout'' (called r)) (\<lambda>_.
     sbind (wait_for fuel h (cf_unload_ms cf) (unloaded h cf)) (\<lambda>u.
       if u = None then sraise (SupervisorError (cf_label cf @ '' is still loaded after bootout''))
       else sbind (step_note ''unloaded'' []) (\<lambda>_.
            sbind (wait_for fuel h (cf_exit_ms cf) (gone h cf (map identity before))) (\<lambda>g.
            sbind (if g = None then signal_rounds fuel h cf (map identity before) SIGNALS else sret ()) (\<lambda>_.
              stop_check h cf)))))"

definition bootout :: "config \<Rightarrow> string list" where
  "bootout cf = [''bootout'', ''system/'' @ cf_label cf]"

definition stop_from :: "nat \<Rightarrow> host \<Rightarrow> config \<Rightarrow> proc list \<Rightarrow> unit sup_m" where
  "stop_from fuel h cf before = sbind (launchctl h (bootout cf)) (stop_after fuel h cf before)"

definition stop_runtime :: "nat \<Rightarrow> host \<Rightarrow> config \<Rightarrow> unit sup_m" where
  "stop_runtime fuel h cf = sbind (processes h cf) (stop_from fuel h cf)"

text \<open>Starting: load the job if it is not loaded, then wait for the daemon launchd reports.\<close>

definition bootstrap :: "host \<Rightarrow> config \<Rightarrow> unit sup_m" where
  "bootstrap h cf =
     sbind (job_read h cf) (\<lambda>j.
       if \<not> j_loaded j
       then sbind (launchctl h [''bootstrap'', ''system'', cf_plist cf]) (\<lambda>r.
            sbind (step_note ''bootstrap'' (called r)) (\<lambda>_.
              if fst r \<noteq> 0
              then sraise (SupervisorError (''bootstrap of '' @ cf_label cf @ '' failed ('' @ show_int (fst r) @ '')''))
              else sret ()))
       else step_note ''already_loaded'' [(''pid'', jopt_int (j_pid j))])"

definition running_daemon :: "host \<Rightarrow> config \<Rightarrow> proc option sup_m" where
  "running_daemon h cf =
     sbind (job_read h cf) (\<lambda>j.
     sbind (processes h cf) (\<lambda>ps.
       sret (List.find (\<lambda>p. Some (pr_pid p) = j_pid j) ps)))"

definition start_runtime :: "nat \<Rightarrow> host \<Rightarrow> config \<Rightarrow> (int \<times> string) list \<Rightarrow> unit sup_m" where
  "start_runtime fuel h cf not_one_of =
     sbind (bootstrap h cf) (\<lambda>_.
     sbind (wait_for fuel h (cf_start_ms cf) (running_daemon h cf)) (\<lambda>d. case d of
       None \<Rightarrow> sraise (SupervisorError (cf_label cf @ '' reported no running daemon after bootstrap''))
     | Some p \<Rightarrow>
         if identity p \<in> set not_one_of
         then sraise (SupervisorError (''the daemon '' @ show_int (pr_pid p) @ '' is one the stop should have ended''))
         else step_note ''started'' [(''pid'', JInt (pr_pid p)), (''started'', JStr (pr_started p))]))"

definition execute_body :: "nat \<Rightarrow> host \<Rightarrow> config \<Rightarrow> string \<Rightarrow> unit sup_m" where
  "execute_body fuel h cf action =
     sbind (job_read h cf) (\<lambda>j.
     sbind (on_receipt (\<lambda>r. r\<lparr>rc_job_before := Some j\<rparr>)) (\<lambda>_.
     sbind (processes h cf) (\<lambda>before.
     sbind (on_receipt (\<lambda>r. r\<lparr>rc_before := before\<rparr>)) (\<lambda>_.
     sbind (if action \<in> {''stop'', ''restart''} then stop_runtime fuel h cf else sret ()) (\<lambda>_.
     sbind (if action \<in> {''start'', ''restart''}
            then start_runtime fuel h cf (if action = ''restart'' then map identity before else [])
            else sret ()) (\<lambda>_.
     sbind (processes h cf) (\<lambda>now.
     sbind (on_receipt (\<lambda>r. r\<lparr>rc_after := now\<rparr>)) (\<lambda>_.
     sbind (job_read h cf) (\<lambda>j'.
       on_receipt (\<lambda>r. r\<lparr>rc_job_after := Some j', rc_result := ''ok''\<rparr>))))))))))"

text \<open>None is a run that has not ended within the fuel.\<close>

definition execute :: "nat \<Rightarrow> host \<Rightarrow> config \<Rightarrow> receipt \<Rightarrow> receipt option \<times> seen list" where
  "execute fuel h cf r0 =
     (case execute_body fuel h cf (rc_action r0) \<lparr>su_tick = 0, su_receipt = r0, su_log = []\<rparr> of
        (Inr _, s) \<Rightarrow> (Some (su_receipt s), su_log s)
      | (Inl (SupervisorError m), s) \<Rightarrow> (Some ((su_receipt s)\<lparr>rc_error := Some m\<rparr>), su_log s)
      | (Inl (Exception n), s) \<Rightarrow> (Some ((su_receipt s)\<lparr>rc_error := Some n\<rparr>), su_log s)
      | (Inl OutOfFuel, s) \<Rightarrow> (None, su_log s))"

section \<open>Calls only move forward\<close>

definition grows :: "'a sup_m \<Rightarrow> bool" where
  "grows m \<longleftrightarrow> (\<forall>s. su_tick s \<le> su_tick (snd (m s)) \<and> (\<exists>l. su_log (snd (m s)) = su_log s @ l))"

definition ends :: "'a sup_m \<Rightarrow> bool" where
  "ends m \<longleftrightarrow> (\<forall>s. fst (m s) \<noteq> Inl OutOfFuel)"

definition preserves :: "(sup \<Rightarrow> bool) \<Rightarrow> 'a sup_m \<Rightarrow> bool" where
  "preserves P m \<longleftrightarrow> (\<forall>s. P s \<longrightarrow> P (snd (m s)))"

named_theorems sup_rules "how the host calls and their compositions behave"

lemma sbind_Inr:
  "sbind m f s = (Inr y, s2) \<longleftrightarrow> (\<exists>x s1. m s = (Inr x, s1) \<and> f x s1 = (Inr y, s2))"
  by (auto simp: sbind_def split: prod.splits sum.splits)

lemma sbind_InrE:
  assumes "sbind m f s = (Inr y, s2)"
  obtains x s1 where "m s = (Inr x, s1)" "f x s1 = (Inr y, s2)"
  using assms sbind_Inr by metis

lemma sret_Inr [simp]: "sret x s = (Inr y, s') \<longleftrightarrow> x = y \<and> s = s'"
  by (auto simp: sret_def)

lemma sraise_Inr [simp]: "sraise e s \<noteq> (Inr y, s')"
  by (simp add: sraise_def)

lemma grows_sbind [sup_rules]:
  assumes "grows m" "\<And>x. grows (f x)"
  shows "grows (sbind m f)"
  unfolding grows_def
proof
  fix s
  obtain r s1 where m: "m s = (r, s1)" by (cases "m s")
  obtain l1 where s1: "su_tick s \<le> su_tick s1" "su_log s1 = su_log s @ l1"
    using assms(1) m unfolding grows_def by (metis snd_conv)
  show "su_tick s \<le> su_tick (snd (sbind m f s)) \<and> (\<exists>l. su_log (snd (sbind m f s)) = su_log s @ l)"
  proof (cases r)
    case (Inl e)
    then show ?thesis using s1 by (simp add: sbind_def m)
  next
    case (Inr x)
    obtain l2 where "su_tick s1 \<le> su_tick (snd (f x s1))" "su_log (snd (f x s1)) = su_log s1 @ l2"
      using assms(2) [of x] unfolding grows_def by blast
    then show ?thesis using s1 by (simp add: sbind_def m Inr)
  qed
qed

lemma ends_sbind [sup_rules]: "ends m \<Longrightarrow> (\<And>x. ends (f x)) \<Longrightarrow> ends (sbind m f)"
  unfolding ends_def sbind_def by (auto split: prod.splits sum.splits) (metis fst_conv)+

lemma preserves_sbind [sup_rules]:
  "preserves P m \<Longrightarrow> (\<And>x. preserves P (f x)) \<Longrightarrow> preserves P (sbind m f)"
  unfolding preserves_def sbind_def by (auto split: prod.splits sum.splits)

lemma grows_calls [sup_rules]:
  "grows (sret x)" "grows (sraise e)" "grows (processes h cf)" "grows (job_read h cf)"
  "grows (launchctl h args)" "grows (clock_read h)" "grows (step_note n d)" "grows (on_receipt f)"
  "grows (kill_call h pid sg)"
  by (auto simp: grows_def sret_def sraise_def processes_def job_read_def launchctl_def clock_read_def
      step_note_def on_receipt_def kill_call_def tick_def noted_def Let_def split: prod.splits killed.splits)

lemma ends_calls [sup_rules]:
  "ends (sret x)" "ends (sraise (SupervisorError m))" "ends (processes h cf)" "ends (job_read h cf)"
  "ends (launchctl h args)" "ends (clock_read h)" "ends (step_note n d)" "ends (on_receipt f)"
  "ends (kill_call h pid sg)"
  by (auto simp: ends_def sret_def sraise_def processes_def job_read_def launchctl_def clock_read_def
      step_note_def on_receipt_def kill_call_def Let_def split: prod.splits killed.splits)

lemma grows_if [sup_rules]: "grows m \<Longrightarrow> grows m' \<Longrightarrow> grows (if b then m else m')"
  by simp

lemma ends_if [sup_rules]: "ends m \<Longrightarrow> ends m' \<Longrightarrow> ends (if b then m else m')"
  by simp

lemma preserves_if [sup_rules]: "preserves P m \<Longrightarrow> preserves P m' \<Longrightarrow> preserves P (if b then m else m')"
  by simp

lemma grows_option [sup_rules]:
  "grows a \<Longrightarrow> (\<And>x. grows (b x)) \<Longrightarrow> grows (case v of None \<Rightarrow> a | Some x \<Rightarrow> b x)"
  by (cases v) simp_all

lemma ends_option [sup_rules]:
  "ends a \<Longrightarrow> (\<And>x. ends (b x)) \<Longrightarrow> ends (case v of None \<Rightarrow> a | Some x \<Rightarrow> b x)"
  by (cases v) simp_all

lemma preserves_option [sup_rules]:
  "preserves P a \<Longrightarrow> (\<And>x. preserves P (b x)) \<Longrightarrow> preserves P (case v of None \<Rightarrow> a | Some x \<Rightarrow> b x)"
  by (cases v) simp_all

lemma grows_wait_until [sup_rules]: "grows c \<Longrightarrow> grows (wait_until n h d c)"
  by (induction n) (auto intro!: sup_rules)

lemma grows_wait_for [sup_rules]: "grows c \<Longrightarrow> grows (wait_for n h d c)"
  unfolding wait_for_def by (auto intro!: sup_rules)

lemma grows_checks [sup_rules]:
  "grows (alive h cf w)" "grows (gone h cf w)" "grows (unloaded h cf)" "grows (running_daemon h cf)"
  "grows (signal_proc h cf p sg)"
  unfolding alive_def gone_def unloaded_def running_daemon_def signal_proc_def by (auto intro!: sup_rules)

lemma ends_checks [sup_rules]:
  "ends (alive h cf w)" "ends (gone h cf w)" "ends (unloaded h cf)" "ends (running_daemon h cf)"
  "ends (signal_proc h cf p sg)"
  unfolding alive_def gone_def unloaded_def running_daemon_def signal_proc_def by (auto intro!: sup_rules)

lemma grows_signal_all [sup_rules]: "grows (signal_all h cf ps sg)"
  by (induction ps) (auto intro!: sup_rules)

lemma ends_signal_all [sup_rules]: "ends (signal_all h cf ps sg)"
  by (induction ps) (auto intro!: sup_rules)

lemma grows_signal_rounds [sup_rules]: "grows (signal_rounds n h cf w rs)"
  by (induction rs) (auto intro!: sup_rules)

lemma grows_stop_check [sup_rules]: "grows (stop_check h cf)"
  unfolding stop_check_def by (auto intro!: sup_rules)

lemma grows_stop_from [sup_rules]: "grows (stop_from n h cf before)"
  unfolding stop_from_def stop_after_def by (auto intro!: sup_rules)

lemma grows_stop [sup_rules]: "grows (stop_runtime n h cf)"
  unfolding stop_runtime_def by (auto intro!: sup_rules)

lemma grows_bootstrap [sup_rules]: "grows (bootstrap h cf)"
  unfolding bootstrap_def by (auto intro!: sup_rules)

lemma grows_start [sup_rules]: "grows (start_runtime n h cf w)"
  unfolding start_runtime_def by (auto intro!: sup_rules)

section \<open>Waiting ends\<close>

definition clock_advances :: "host \<Rightarrow> bool" where
  "clock_advances h \<longleftrightarrow> (\<forall>m n. m < n \<longrightarrow> h_clock h m < h_clock h n)"

lemma clock_le: "clock_advances h \<Longrightarrow> m \<le> n \<Longrightarrow> h_clock h m \<le> h_clock h n"
  unfolding clock_advances_def by (metis le_neq_implies_less order.refl order_less_imp_le)

lemma ends_wait_until:
  assumes c: "clock_advances h" and g: "grows done_yet" and e: "ends done_yet"
  shows "1 \<le> n \<Longrightarrow> deadline - h_clock h (su_tick s) < int n \<Longrightarrow> fst (wait_until n h deadline done_yet s) \<noteq> Inl OutOfFuel"
proof (induction n arbitrary: s)
  case (Suc n)
  obtain r s1 where d: "done_yet s = (r, s1)" by (cases "done_yet s")
  have t1: "su_tick s \<le> su_tick s1"
    using g d unfolding grows_def by (metis snd_conv)
  have r: "r \<noteq> Inl OutOfFuel"
    using e d unfolding ends_def by (metis fst_conv)
  show ?case
  proof (cases "r = Inr None \<and> h_clock h (su_tick s1) < deadline")
    case False
    then show ?thesis
      using r by (cases r) (auto simp: sbind_def d sret_def clock_read_def split: option.splits)
  next
    case True
    have "h_clock h (su_tick s) < h_clock h (su_tick s1 + 1)"
      using c t1 unfolding clock_advances_def by (metis le_imp_less_Suc Suc_eq_plus1)
    moreover have "h_clock h (su_tick s) \<le> h_clock h (su_tick s1)"
      using clock_le [OF c t1] .
    ultimately have "1 \<le> n" "deadline - h_clock h (su_tick (tick s1)) < int n"
      using Suc.prems True by (simp_all add: tick_def)
    then show ?thesis
      using Suc.IH [of "tick s1"] True by (simp add: sbind_def d clock_read_def)
  qed
qed simp

lemma ends_wait_for [sup_rules]:
  assumes "clock_advances h" "grows done_yet" "ends done_yet" "1 \<le> n" "timeout \<le> int n"
  shows "ends (wait_for n h timeout done_yet)"
  unfolding ends_def
proof
  fix s
  have "h_clock h (su_tick s) < h_clock h (su_tick (tick s))"
    using assms(1) by (simp add: clock_advances_def tick_def)
  then have "fst (wait_until n h (h_clock h (su_tick s) + timeout) done_yet (tick s)) \<noteq> Inl OutOfFuel"
    using assms by (intro ends_wait_until) auto
  then show "fst (wait_for n h timeout done_yet s) \<noteq> Inl OutOfFuel"
    by (simp add: wait_for_def sbind_def clock_read_def)
qed

definition enough_fuel :: "config \<Rightarrow> nat \<Rightarrow> bool" where
  "enough_fuel cf n \<longleftrightarrow> 1 \<le> n \<and> cf_unload_ms cf \<le> int n \<and> cf_exit_ms cf \<le> int n
     \<and> cf_signal_ms cf \<le> int n \<and> cf_start_ms cf \<le> int n"

lemma ends_signal_rounds:
  assumes "clock_advances h" "enough_fuel cf n"
  shows "ends (signal_rounds n h cf w rs)"
proof (induction rs)
  case (Cons r rs)
  then show ?case
    using assms by (cases r) (auto simp: enough_fuel_def intro!: sup_rules)
qed (auto intro: sup_rules)

lemma ends_execute_body:
  assumes "clock_advances h" "enough_fuel cf n"
  shows "ends (execute_body n h cf action)"
proof -
  note fuel = assms [unfolded enough_fuel_def]
  have "ends (stop_runtime n h cf)" "ends (start_runtime n h cf w)" for w
    unfolding stop_runtime_def stop_from_def stop_after_def stop_check_def start_runtime_def bootstrap_def
    using fuel by (auto intro!: sup_rules ends_signal_rounds assms)
  then show ?thesis
    unfolding execute_body_def by (auto intro!: sup_rules)
qed

section \<open>What the calls keep\<close>

text \<open>
  An invariant of a run: kept by every call and every note on the receipt that leaves its result alone,
  and by a signal to a process of the scan just made whose identity is in \<open>W\<close>.
\<close>

definition same_outcome :: "receipt \<Rightarrow> receipt \<Rightarrow> bool" where
  "same_outcome r r' \<longleftrightarrow> rc_result r = rc_result r' \<and> rc_id r = rc_id r' \<and> rc_action r = rc_action r'"

locale sup_invariant =
  fixes cf :: config and W :: "(int \<times> string) set" and P :: "sup \<Rightarrow> bool"
  assumes on_tick: "P s \<Longrightarrow> P (tick s)"
    and on_scan: "P s \<Longrightarrow> P (noted (Scan ps) s)"
    and on_read: "P s \<Longrightarrow> P (noted (Read j) s)"
    and on_order: "P s \<Longrightarrow> P (noted (Ordered args) s)"
    and on_note: "P s \<Longrightarrow> same_outcome r (su_receipt s) \<Longrightarrow> P (s\<lparr>su_receipt := r\<rparr>)"
    and on_signal: "P s \<Longrightarrow> su_log s = l @ [Scan ps] \<Longrightarrow> p \<in> set ps \<Longrightarrow> runtime_proc cf p \<Longrightarrow> identity p \<in> W
      \<Longrightarrow> P (noted (Signalled (pr_pid p) sg) (tick s))"
begin

lemma call_keeps [sup_rules]:
  "preserves P (sret x)" "preserves P (sraise e)" "preserves P (processes h cf)" "preserves P (job_read h c)"
  "preserves P (launchctl h args)" "preserves P (clock_read h)" "preserves P (step_note n d)"
  by (auto simp: preserves_def sret_def sraise_def processes_def job_read_def launchctl_def clock_read_def
      step_note_def Let_def on_tick same_outcome_def split: prod.splits intro!: on_scan on_read on_order on_note)

lemma receipt_keeps: "(\<And>r. same_outcome (f r) r) \<Longrightarrow> preserves P (on_receipt f)"
  by (simp add: preserves_def on_receipt_def on_note)

lemma check_keeps [sup_rules]:
  "preserves P (alive h cf w)" "preserves P (gone h cf w)" "preserves P (unloaded h c)"
  "preserves P (running_daemon h cf)"
  unfolding alive_def gone_def unloaded_def running_daemon_def by (auto intro!: sup_rules)

lemma wait_keeps [sup_rules]: "preserves P c \<Longrightarrow> preserves P (wait_for n h d c)"
proof -
  assume c: "preserves P c"
  have "preserves P (wait_until n h d c)" for d
    by (induction n) (auto intro!: sup_rules c)
  then show ?thesis
    unfolding wait_for_def by (auto intro!: sup_rules)
qed

lemma signal_keeps:
  assumes "identity p \<in> W"
  shows "preserves P (signal_proc h cf p sg)"
  unfolding preserves_def
proof (intro allI impI)
  fix s assume s: "P s"
  obtain r s1 where m: "processes h cf s = (r, s1)" by (cases "processes h cf s")
  then have s1: "P s1"
    using s call_keeps(3) [of h] unfolding preserves_def by (metis snd_conv)
  show "P (snd (signal_proc h cf p sg s))"
  proof (cases r)
    case (Inl e)
    then show ?thesis using s1 by (simp add: signal_proc_def sbind_def m)
  next
    case (Inr ps)
    then have ps: "\<exists>l. su_log s1 = l @ [Scan ps]" "\<forall>q \<in> set ps. runtime_proc cf q"
      using m by (auto simp: processes_def noted_def Let_def split: prod.splits if_splits)
    show ?thesis
    proof (cases "identity p \<in> identity ` set ps")
      case True
      then obtain q where q: "q \<in> set ps" "identity q = identity p" by auto
      then have "P (noted (Signalled (pr_pid p) sg) (tick s1))"
        using on_signal [OF s1 _ q(1), of _ sg] ps assms by (auto simp: identity_def)
      then show ?thesis
        using True s1 by (simp add: signal_proc_def sbind_def m Inr kill_call_def on_tick split: killed.splits)
    qed (use s1 in \<open>simp add: signal_proc_def sbind_def m Inr sret_def\<close>)
  qed
qed

lemma signal_all_keeps: "identity ` set ps \<subseteq> W \<Longrightarrow> preserves P (signal_all h cf ps sg)"
  by (induction ps) (auto intro!: sup_rules signal_keeps)

lemma preserves_sbind_value:
  assumes "preserves P m" "\<And>x s s1. m s = (Inr x, s1) \<Longrightarrow> preserves P (f x)"
  shows "preserves P (sbind m f)"
  using assms unfolding preserves_def sbind_def
  by (auto split: prod.splits sum.splits)

lemma alive_wanted: "alive h cf w s = (Inr ps, s1) \<Longrightarrow> identity ` set ps \<subseteq> set w"
  by (auto simp: alive_def sbind_Inr)

lemma signal_rounds_keeps: "set w \<subseteq> W \<Longrightarrow> preserves P (signal_rounds n h cf w rs)"
proof (induction rs)
  case (Cons r rs)
  obtain sg name where r: "r = (sg, name)" by (cases r)
  show ?case
    unfolding r signal_rounds.simps
  proof (rule preserves_sbind_value)
    fix ps s s1
    assume "alive h cf w s = (Inr ps, s1)"
    then have "identity ` set ps \<subseteq> W"
      using alive_wanted Cons.prems by blast
    then show "preserves P (if ps = [] then sret () else sbind (signal_all h cf ps sg) (\<lambda>sent.
        sbind (step_note name [(''pids'', JList (map JInt sent))]) (\<lambda>_.
        sbind (wait_for n h (cf_signal_ms cf) (gone h cf w)) (\<lambda>_. signal_rounds n h cf w rs))))"
      using Cons by (auto intro!: sup_rules signal_all_keeps)
  qed (intro sup_rules)
qed (auto intro: sup_rules)

lemma stop_after_keeps:
  "identity ` set before \<subseteq> W \<Longrightarrow> preserves P (stop_after n h cf before r)"
  unfolding stop_after_def stop_check_def
  by (auto intro!: sup_rules signal_rounds_keeps receipt_keeps simp: same_outcome_def)

lemma stop_from_keeps:
  "identity ` set before \<subseteq> W \<Longrightarrow> preserves P (stop_from n h cf before)"
  unfolding stop_from_def by (intro sup_rules stop_after_keeps)

lemma start_keeps: "preserves P (start_runtime n h cf w)"
  unfolding start_runtime_def bootstrap_def by (auto intro!: sup_rules)

end

section \<open>Signals\<close>

text \<open>
  Every signal directly follows a scan that shows a runtime process with that PID whose birth identity
  is in \<open>W\<close>.
\<close>

definition may_follow :: "config \<Rightarrow> (int \<times> string) set \<Rightarrow> seen \<Rightarrow> seen \<Rightarrow> bool" where
  "may_follow cf W a b = (case b of
     Signalled pid sg \<Rightarrow> (case a of
        Scan ps \<Rightarrow> list_ex (\<lambda>p. pr_pid p = pid \<and> runtime_proc cf p \<and> identity p \<in> W) ps
      | _ \<Rightarrow> False)
   | _ \<Rightarrow> True)"

definition signals_ok :: "config \<Rightarrow> (int \<times> string) set \<Rightarrow> seen list \<Rightarrow> bool" where
  "signals_ok cf W log \<longleftrightarrow> successively (may_follow cf W) (Read \<lparr>j_loaded = False, j_pid = None\<rparr> # log)"

lemma signals_ok_Nil [simp]: "signals_ok cf W []"
  by (simp add: signals_ok_def)

lemma signals_ok_snoc:
  "signals_ok cf W (log @ [x]) \<longleftrightarrow> signals_ok cf W log
     \<and> may_follow cf W (last (Read \<lparr>j_loaded = False, j_pid = None\<rparr> # log)) x"
  unfolding signals_ok_def by (cases log) (auto simp: successively_append_iff successively_Cons)

text \<open>A run without a signal, and one whose stop recorded the runtime, ordered the job out, and only then signalled.\<close>

definition no_signal :: "seen list \<Rightarrow> bool" where
  "no_signal log \<longleftrightarrow> (\<forall>pid sg. Signalled pid sg \<notin> set log)"

definition quiet :: "sup \<Rightarrow> bool" where
  "quiet s \<longleftrightarrow> no_signal (su_log s)"

definition began :: "config \<Rightarrow> seen list \<Rightarrow> proc list \<Rightarrow> sup \<Rightarrow> bool" where
  "began cf pre before s \<longleftrightarrow> (\<exists>post. su_log s = pre @ [Scan before, Ordered (bootout cf)] @ post
     \<and> signals_ok cf (identity ` set before) post)"

interpretation quiets: sup_invariant cf "{}" quiet for cf
  by unfold_locales (auto simp: quiet_def no_signal_def noted_def tick_def)

lemma began_snoc:
  assumes "began cf pre before s" "su_log s' = su_log s @ [x]"
    and "\<And>post. su_log s = pre @ [Scan before, Ordered (bootout cf)] @ post \<Longrightarrow>
      may_follow cf (identity ` set before) (last (Read \<lparr>j_loaded = False, j_pid = None\<rparr> # post)) x"
  shows "began cf pre before s'"
proof -
  from assms(1) obtain post where "su_log s = pre @ [Scan before, Ordered (bootout cf)] @ post"
    "signals_ok cf (identity ` set before) post" unfolding began_def by blast
  then show ?thesis
    unfolding began_def using assms(2,3) by (intro exI [of _ "post @ [x]"]) (simp add: signals_ok_snoc)
qed

interpretation signals: sup_invariant cf "identity ` set before" "began cf pre before" for cf pre before
proof unfold_locales
  fix s l ps p sg
  assume s: "began cf pre before s" "su_log s = l @ [Scan ps]" "p \<in> set ps" "runtime_proc cf p"
    "identity p \<in> identity ` set before"
  show "began cf pre before (noted (Signalled (pr_pid p) sg) (tick s))"
  proof (rule began_snoc [OF s(1)])
    fix post
    assume "su_log s = pre @ [Scan before, Ordered (bootout cf)] @ post"
    with s(2) have "post \<noteq> [] \<and> last post = Scan ps" by (cases post rule: rev_cases) auto
    then show "may_follow cf (identity ` set before) (last (Read \<lparr>j_loaded = False, j_pid = None\<rparr> # post)) (Signalled (pr_pid p) sg)"
      using s(3-5) by (auto simp: may_follow_def list_ex_iff)
  qed (simp add: noted_def tick_def)
qed (simp_all add: noted_def tick_def may_follow_def began_def; fail | erule began_snoc, simp add: noted_def, simp add: may_follow_def)+

definition signalled_well :: "config \<Rightarrow> sup \<Rightarrow> bool" where
  "signalled_well cf s \<longleftrightarrow> quiet s \<or> (\<exists>pre before. no_signal pre \<and> began cf pre before s)"

lemma quiet_well: "quiet s \<Longrightarrow> signalled_well cf s"
  by (simp add: signalled_well_def)

lemma processes_log: "processes h cf s = (Inr ps, s1) \<Longrightarrow> su_log s1 = su_log s @ [Scan ps]"
  by (auto simp: processes_def noted_def tick_def Let_def split: prod.splits if_splits)

lemma stop_signals: "quiet s \<Longrightarrow> signalled_well cf (snd (stop_runtime n h cf s))"
proof -
  assume s: "quiet s"
  obtain r s1 where m: "processes h cf s = (r, s1)" by (cases "processes h cf s")
  show ?thesis
  proof (cases r)
    case (Inl e)
    then show ?thesis
      using s quiets.call_keeps(3) [of h cf] m
      by (auto simp: preserves_def stop_runtime_def sbind_def intro: quiet_well) (metis snd_conv quiet_well)
  next
    case (Inr before)
    let ?s2 = "noted (Ordered (bootout cf)) (tick s1)"
    have "su_log s1 = su_log s @ [Scan before]"
      using processes_log m Inr by blast
    then have "began cf (su_log s) before ?s2"
      by (simp add: began_def noted_def tick_def)
    moreover have "preserves (began cf (su_log s) before) (stop_after n h cf before r')" for r'
      by (rule signals.stop_after_keeps) simp
    ultimately have "began cf (su_log s) before (snd (stop_from n h cf before s1))"
      by (simp add: preserves_def stop_from_def sbind_def launchctl_def)
    then show ?thesis
      using s by (auto simp: signalled_well_def quiet_def stop_runtime_def sbind_def m Inr)
  qed
qed

lemma preserves_well:
  assumes "preserves quiet m" "\<And>pre before. preserves (began cf pre before) m"
  shows "preserves (signalled_well cf) m"
  using assms unfolding preserves_def signalled_well_def by blast

lemma kept_then:
  assumes "preserves quiet m" and "\<And>x s. quiet s \<Longrightarrow> signalled_well cf (snd (f x s))"
  shows "\<And>s. quiet s \<Longrightarrow> signalled_well cf (snd (sbind m f s))"
  using assms unfolding preserves_def sbind_def signalled_well_def
  by (auto split: prod.splits sum.splits) (metis snd_conv)+

lemma well_then:
  assumes "\<And>s. quiet s \<Longrightarrow> signalled_well cf (snd (m s))"
    and "\<And>x. preserves (signalled_well cf) (f x)"
  shows "\<And>s. quiet s \<Longrightarrow> signalled_well cf (snd (sbind m f s))"
  using assms unfolding preserves_def sbind_def
  by (auto split: prod.splits sum.splits) (metis snd_conv)+

lemma well_receipt: "preserves (signalled_well cf) (on_receipt f)"
  by (simp add: preserves_def on_receipt_def signalled_well_def quiet_def began_def)

lemmas well_calls = preserves_well [OF quiets.call_keeps(1) signals.call_keeps(1)]
  preserves_well [OF quiets.call_keeps(3) signals.call_keeps(3)]
  preserves_well [OF quiets.call_keeps(4) signals.call_keeps(4)]
  well_receipt preserves_well [OF quiets.start_keeps signals.start_keeps]

lemma body_signals: "quiet s \<Longrightarrow> signalled_well cf (snd (execute_body n h cf action s))"
  unfolding execute_body_def
  by (rule kept_then, rule quiets.call_keeps, rule kept_then, rule quiets.receipt_keeps, simp add: same_outcome_def,
      rule kept_then, rule quiets.call_keeps, rule kept_then, rule quiets.receipt_keeps, simp add: same_outcome_def, rule well_then)
    (auto simp: sret_def quiet_well intro: stop_signals
       intro!: preserves_sbind preserves_if well_calls)

section \<open>A restart that reports ok\<close>

definition failing :: "sup \<Rightarrow> bool" where
  "failing s \<longleftrightarrow> rc_result (su_receipt s) \<noteq> ''ok''"

interpretation result: sup_invariant cf UNIV failing for cf
  by unfold_locales (auto simp: failing_def tick_def noted_def same_outcome_def)

text \<open>A computation that raises has not written a result.\<close>

definition raises_failing :: "'a sup_m \<Rightarrow> bool" where
  "raises_failing m \<longleftrightarrow> (\<forall>s e s'. failing s \<longrightarrow> m s = (Inl e, s') \<longrightarrow> failing s')"

lemma raises_sbind: "preserves failing m \<Longrightarrow> (\<And>x. raises_failing (f x)) \<Longrightarrow> raises_failing (sbind m f)"
  unfolding raises_failing_def preserves_def sbind_def
  by (auto split: prod.splits sum.splits)

lemma raises_receipt: "raises_failing (on_receipt f)"
  by (simp add: raises_failing_def on_receipt_def)

lemma stop_result: "preserves failing (stop_runtime n h cf)"
  unfolding stop_runtime_def by (intro preserves_sbind result.call_keeps result.stop_from_keeps) simp

lemma body_raises: "raises_failing (execute_body n h cf action)"
  unfolding execute_body_def
  by (intro raises_sbind raises_receipt preserves_if result.call_keeps result.receipt_keeps stop_result
      result.start_keeps) (simp_all add: same_outcome_def)

text \<open>The receipt stays the one of its request.\<close>

definition filed_as :: "string \<Rightarrow> string \<Rightarrow> sup \<Rightarrow> bool" where
  "filed_as i a s \<longleftrightarrow> rc_id (su_receipt s) = i \<and> rc_action (su_receipt s) = a"

interpretation filed: sup_invariant cf UNIV "filed_as i a" for cf i a
  by unfold_locales (auto simp: filed_as_def tick_def noted_def same_outcome_def)

lemma filed_receipt: "(\<And>r. rc_id (f r) = rc_id r \<and> rc_action (f r) = rc_action r) \<Longrightarrow> preserves (filed_as i a) (on_receipt f)"
  by (simp add: preserves_def on_receipt_def filed_as_def)

lemma body_filed: "preserves (filed_as i a) (execute_body n h cf action)"
  unfolding execute_body_def stop_runtime_def
  by (intro preserves_sbind preserves_if filed.call_keeps filed_receipt filed.stop_from_keeps filed.start_keeps) simp_all

text \<open>What the log of a computation that succeeds ends with.\<close>

definition leaves :: "(seen list \<Rightarrow> bool) \<Rightarrow> 'a sup_m \<Rightarrow> bool" where
  "leaves Q m \<longleftrightarrow> (\<forall>s x s'. m s = (Inr x, s') \<longrightarrow> (\<exists>l. su_log s' = su_log s @ l \<and> Q l))"

lemma leaves_last: 
  assumes "grows m" "\<And>x. leaves Q (f x)" "\<And>l l'. Q l \<Longrightarrow> Q (l' @ l)"
  shows "leaves Q (sbind m f)"
  unfolding leaves_def
proof (intro allI impI)
  fix s y s2
  assume "sbind m f s = (Inr y, s2)"
  then obtain x s1 where x: "m s = (Inr x, s1)" "f x s1 = (Inr y, s2)"
    by (auto simp: sbind_Inr)
  obtain l1 where "su_log s1 = su_log s @ l1"
    using assms(1) x(1) unfolding grows_def by (metis snd_conv)
  moreover obtain l2 where "su_log s2 = su_log s1 @ l2" "Q l2"
    using assms(2) [of x] x(2) unfolding leaves_def by blast
  ultimately show "\<exists>l. su_log s2 = su_log s @ l \<and> Q l"
    using assms(3) by auto
qed

lemma leaves_first:
  assumes "leaves Q m" "\<And>x. grows (f x)" "\<And>l l'. Q l \<Longrightarrow> Q (l @ l')"
  shows "leaves Q (sbind m f)"
  unfolding leaves_def
proof (intro allI impI)
  fix s y s2
  assume "sbind m f s = (Inr y, s2)"
  then obtain x s1 where x: "m s = (Inr x, s1)" "f x s1 = (Inr y, s2)"
    by (auto simp: sbind_Inr)
  obtain l1 where "su_log s1 = su_log s @ l1" "Q l1"
    using assms(1) x(1) unfolding leaves_def by blast
  moreover obtain l2 where "su_log s2 = su_log s1 @ l2"
    using assms(2) [of x] x(2) unfolding grows_def by (metis snd_conv)
  ultimately show "\<exists>l. su_log s2 = su_log s @ l \<and> Q l"
    using assms(3) by auto
qed

definition ends_empty :: "seen list \<Rightarrow> bool" where
  "ends_empty l \<longleftrightarrow> (\<exists>l0 j. l = l0 @ [Scan [], Read j] \<and> \<not> j_loaded j)"

lemma ends_empty_append: "ends_empty l \<Longrightarrow> ends_empty (l' @ l)"
  by (auto simp: ends_empty_def)

lemma stop_check_leaves: "leaves ends_empty (stop_check h cf)"
  by (auto simp: leaves_def ends_empty_def stop_check_def sbind_Inr processes_def job_read_def step_note_def
      noted_def tick_def Let_def split: prod.splits if_splits)

lemma leaves_sraise: "leaves Q (sraise e)"
  by (simp add: leaves_def)

lemma stop_leaves: "leaves ends_empty (stop_runtime n h cf)"
  unfolding stop_runtime_def stop_from_def stop_after_def
  by (auto intro!: leaves_last leaves_sraise stop_check_leaves ends_empty_append sup_rules)

definition daemon_seen :: "(int \<times> string) set \<Rightarrow> seen list \<Rightarrow> bool" where
  "daemon_seen old l \<longleftrightarrow> (\<exists>l0 j ps l1 p. l = l0 @ [Read j, Scan ps] @ l1 \<and> p \<in> set ps
     \<and> Some (pr_pid p) = j_pid j \<and> identity p \<notin> old)"

lemma daemon_seen_append: "daemon_seen old l \<Longrightarrow> daemon_seen old (l' @ l)" "daemon_seen old l \<Longrightarrow> daemon_seen old (l @ l')"
  unfolding daemon_seen_def by (metis append.assoc)+

lemma job_read_log: "job_read h cf s = (Inr j, s1) \<Longrightarrow> su_log s1 = su_log s @ [Read j]"
  by (auto simp: job_read_def noted_def tick_def Let_def)

lemma find_member: "List.find P xs = Some p \<Longrightarrow> p \<in> set xs \<and> P p"
  by (auto simp: find_Some_iff)

lemma running_found:
  assumes "running_daemon h cf s = (Inr (Some p), s1)"
  shows "\<exists>j ps. su_log s1 = su_log s @ [Read j, Scan ps] \<and> p \<in> set ps \<and> Some (pr_pid p) = j_pid j"
proof -
  from assms obtain j ps s2 where "job_read h cf s = (Inr j, s2)" "processes h cf s2 = (Inr ps, s1)"
      "List.find (\<lambda>p. Some (pr_pid p) = j_pid j) ps = Some p"
    by (auto simp: running_daemon_def sbind_Inr)
  then show ?thesis
    using processes_log job_read_log find_member by fastforce
qed

lemma wait_until_found:
  "wait_until n h d (running_daemon h cf) s = (Inr (Some p), s2)
    \<Longrightarrow> \<exists>l j ps. su_log s2 = su_log s @ l @ [Read j, Scan ps] \<and> p \<in> set ps \<and> Some (pr_pid p) = j_pid j"
proof (induction n arbitrary: s)
  case (Suc n)
  obtain r s1 where r: "running_daemon h cf s = (Inr r, s1)"
    using Suc.prems by (auto simp: sbind_Inr)
  show ?case
  proof (cases r)
    case None
    then obtain l1 where "su_log s1 = su_log s @ l1"
      using r grows_checks(4) [of h cf] unfolding grows_def by (metis snd_conv)
    then show ?thesis
      using Suc.IH [of "tick s1"] Suc.prems None r
      by (auto simp: sbind_Inr sbind_def clock_read_def tick_def split: if_splits)
  next
    case (Some q)
    then have "q = p" "s1 = s2" using Suc.prems r by (auto simp: sbind_Inr)
    then show ?thesis using running_found r Some by fastforce
  qed
qed (simp add: sraise_def)

lemma wait_found:
  assumes "wait_for n h d (running_daemon h cf) s = (Inr (Some p), s2)"
  shows "\<exists>l j ps. su_log s2 = su_log s @ l @ [Read j, Scan ps] \<and> p \<in> set ps \<and> Some (pr_pid p) = j_pid j"
proof -
  obtain t where "wait_until n h t (running_daemon h cf) (tick s) = (Inr (Some p), s2)"
    using assms by (auto simp: wait_for_def sbind_Inr clock_read_def)
  from wait_until_found [OF this] show ?thesis
    by (simp add: tick_def)
qed

lemma started_leaves:
  "leaves (daemon_seen (set old)) (sbind (wait_for fuel h (cf_start_ms cf) (running_daemon h cf)) (\<lambda>d. case d of
       None \<Rightarrow> sraise (SupervisorError m1)
     | Some p \<Rightarrow> if identity p \<in> set old then sraise (m2 p) else step_note ''started'' (dt p)))"
  unfolding leaves_def
proof (intro allI impI, goal_cases)
  case (1 s x s')
  then obtain p s1 where p: "wait_for fuel h (cf_start_ms cf) (running_daemon h cf) s = (Inr (Some p), s1)"
      "identity p \<notin> set old" "su_log s' = su_log s1"
    by (auto simp: sbind_Inr step_note_def split: option.splits if_splits)
  with wait_found [OF p(1)] show ?case
    unfolding daemon_seen_def by fastforce
qed

lemma start_leaves: "leaves (daemon_seen (set old)) (start_runtime n h cf old)"
  unfolding start_runtime_def
  by (rule leaves_last [OF grows_bootstrap started_leaves daemon_seen_append(1)])

definition run0 :: "receipt \<Rightarrow> sup" where
  "run0 r0 = \<lparr>su_tick = 0, su_receipt = r0, su_log = []\<rparr>"

lemma execute_run0: "execute fuel h cf r0 =
     (case execute_body fuel h cf (rc_action r0) (run0 r0) of
        (Inr _, s) \<Rightarrow> (Some (su_receipt s), su_log s)
      | (Inl (SupervisorError m), s) \<Rightarrow> (Some ((su_receipt s)\<lparr>rc_error := Some m\<rparr>), su_log s)
      | (Inl (Exception n), s) \<Rightarrow> (Some ((su_receipt s)\<lparr>rc_error := Some n\<rparr>), su_log s)
      | (Inl OutOfFuel, s) \<Rightarrow> (None, su_log s))"
  by (simp add: execute_def run0_def)

lemma execute_filed: "fst (execute fuel h cf r0) = Some r \<Longrightarrow> rc_id r = rc_id r0 \<and> rc_action r = rc_action r0"
proof -
  assume e: "fst (execute fuel h cf r0) = Some r"
  obtain x s where b: "execute_body fuel h cf (rc_action r0) (run0 r0) = (x, s)"
    by (cases "execute_body fuel h cf (rc_action r0) (run0 r0)")
  have "filed_as (rc_id r0) (rc_action r0) (run0 r0)"
    by (simp add: filed_as_def run0_def)
  then have "filed_as (rc_id r0) (rc_action r0) s"
    using body_filed [of "rc_id r0" "rc_action r0" fuel h cf "rc_action r0"] b unfolding preserves_def by (metis snd_conv)
  then show ?thesis
    using e by (auto simp: execute_run0 b filed_as_def split: sum.splits sup_end.splits)
qed

lemma restart_body:
  assumes "execute_body n h cf ''restart'' (run0 r0) = (Inr u, s)"
  shows "\<exists>j0 before l1 j l2. su_log s = Read j0 # Scan before # l1 @ [Scan [], Read j] @ l2
    \<and> \<not> j_loaded j \<and> daemon_seen (identity ` set before) l2"
proof -
  define rest where "rest = sbind (processes h cf) (\<lambda>now. sbind (on_receipt (\<lambda>r. r\<lparr>rc_after := now\<rparr>)) (\<lambda>_.
        sbind (job_read h cf) (\<lambda>j'. on_receipt (\<lambda>r. r\<lparr>rc_job_after := Some j', rc_result := ''ok''\<rparr>))))"
  have "sbind (job_read h cf) (\<lambda>j. sbind (on_receipt (\<lambda>r. r\<lparr>rc_job_before := Some j\<rparr>)) (\<lambda>_.
      sbind (processes h cf) (\<lambda>before. sbind (on_receipt (\<lambda>r. r\<lparr>rc_before := before\<rparr>)) (\<lambda>_.
      sbind (stop_runtime n h cf) (\<lambda>_. sbind (start_runtime n h cf (map identity before)) (\<lambda>_. rest))))))
      (run0 r0) = (Inr u, s)"
    using assms by (simp add: execute_body_def rest_def)
  then obtain j0 s1 s2 before s3 s4 s5 u1 u2 u3 u4 s6 where
    a: "job_read h cf (run0 r0) = (Inr j0, s1)" "on_receipt (\<lambda>r. r\<lparr>rc_job_before := Some j0\<rparr>) s1 = (Inr u1, s2)"
      "processes h cf s2 = (Inr before, s3)" "on_receipt (\<lambda>r. r\<lparr>rc_before := before\<rparr>) s3 = (Inr u2, s4)"
      "stop_runtime n h cf s4 = (Inr u3, s5)" "start_runtime n h cf (map identity before) s5 = (Inr u4, s6)"
    and last: "rest s6 = (Inr u, s)"
    by (elim sbind_InrE) (rule that)
  have log0: "su_log s2 = [Read j0]" "su_log s4 = [Read j0, Scan before]"
    using job_read_log [OF a(1)] processes_log [OF a(3)] a(2,4) by (auto simp: run0_def on_receipt_def)
  obtain l j where "su_log s5 = su_log s4 @ l @ [Scan [], Read j]" "\<not> j_loaded j"
    using stop_leaves [of n h cf] a(5) unfolding leaves_def ends_empty_def by blast
  moreover obtain l2 where "su_log s6 = su_log s5 @ l2" "daemon_seen (identity ` set before) l2"
    using start_leaves [of "map identity before" n h cf] a(6) unfolding leaves_def by auto
  moreover obtain l3 where "su_log s = su_log s6 @ l3"
  proof -
    have "grows rest"
      unfolding rest_def by (auto intro!: sup_rules)
    with last that show ?thesis unfolding grows_def by (metis snd_conv)
  qed
  ultimately have "su_log s = Read j0 # Scan before # l @ [Scan [], Read j] @ (l2 @ l3)"
      "daemon_seen (identity ` set before) (l2 @ l3)"
    by (simp_all add: log0 daemon_seen_append(2))
  with \<open>\<not> j_loaded j\<close> show ?thesis by blast
qed

section \<open>Properties\<close>

text \<open>
  C24: A restart whose receipt says \<open>ok\<close> found, after the runtime was told to stop, a fresh scan without
  any runtime process and the job not loaded, and after that a daemon that launchd reports and that is
  none of the processes seen before.
\<close>

theorem restart_ok_is_a_new_runtime:
  assumes "execute fuel h cf r0 = (Some r, log)" and "rc_action r0 = ''restart''"
    and "rc_result r0 = ''failed''" and "rc_result r = ''ok''"
  shows "\<exists>j0 before l1 j l2. log = Read j0 # Scan before # l1 @ [Scan [], Read j] @ l2
    \<and> \<not> j_loaded j \<and> daemon_seen (identity ` set before) l2"
proof -
  obtain x s where b: "execute_body fuel h cf ''restart'' (run0 r0) = (x, s)"
    by (cases "execute_body fuel h cf ''restart'' (run0 r0)")
  show ?thesis
  proof (cases x)
    case (Inl e)
    have "failing (run0 r0)"
      using assms(3) by (simp add: failing_def run0_def)
    then have "failing s"
      using body_raises [of fuel h cf "''restart''"] b Inl unfolding raises_failing_def by blast
    then show ?thesis
      using assms(1,4) by (cases e) (auto simp: execute_run0 assms(2) b Inl failing_def)
  next
    case (Inr u)
    then have "log = su_log s"
      using assms(1) by (simp add: execute_run0 assms(2) b)
    then show ?thesis
      using restart_body b Inr by simp
  qed
qed

lemma successively_nth: "successively P (x # xs) \<Longrightarrow> i < length xs \<Longrightarrow> P ((x # xs) ! i) (xs ! i)"
proof (induction xs arbitrary: x i)
  case (Cons y ys)
  then show ?case by (cases i) auto
qed simp

lemma signals_ok_nth:
  assumes "signals_ok cf W log" "i < length log" "log ! i = Signalled pid sg"
  shows "0 < i \<and> (\<exists>ps p. log ! (i - 1) = Scan ps \<and> p \<in> set ps \<and> pr_pid p = pid \<and> runtime_proc cf p \<and> identity p \<in> W)"
proof -
  from successively_nth [OF assms(1) [unfolded signals_ok_def] assms(2)] assms(3)
  have "may_follow cf W ((Read \<lparr>j_loaded = False, j_pid = None\<rparr> # log) ! i) (Signalled pid sg)" by simp
  then show ?thesis
    by (cases i) (auto simp: may_follow_def list_ex_iff split: seen.splits)
qed

text \<open>
  C25: Whatever the host answers, a run signals nothing before its stop has scanned the runtime and ordered
  the job out; the scan made immediately before that order is the record. After it every signal goes to a
  process that the scan made immediately before the signal shows to be the runtime's, by account and name,
  under a birth identity of the record: a process whose PID was reused, one that was started since the stop
  began, or any other process, is never signalled.
\<close>

theorem signals_only_the_recorded_runtime:
  assumes "execute fuel h cf r0 = (out, log)" and "Signalled pid0 sg0 \<in> set log"
  shows "\<exists>pre before post. log = pre @ [Scan before, Ordered [''bootout'', ''system/'' @ cf_label cf]] @ post
    \<and> (\<forall>pid sg. Signalled pid sg \<notin> set pre)
    \<and> (\<forall>i pid sg. i < length post \<and> post ! i = Signalled pid sg \<longrightarrow>
         0 < i \<and> (\<exists>ps p. post ! (i - 1) = Scan ps \<and> p \<in> set ps \<and> pr_pid p = pid
           \<and> runtime_proc cf p \<and> identity p \<in> identity ` set before))"
proof -
  obtain x s where b: "execute_body fuel h cf (rc_action r0) (run0 r0) = (x, s)"
    by (cases "execute_body fuel h cf (rc_action r0) (run0 r0)")
  have "signalled_well cf s"
    using body_signals [of "run0 r0" cf fuel h "rc_action r0"] b by (simp add: quiet_def no_signal_def run0_def)
  moreover have log: "log = su_log s"
    using assms(1) by (auto simp: execute_run0 b split: sum.splits sup_end.splits)
  moreover have "\<not> quiet s"
    using assms(2) log by (auto simp: quiet_def no_signal_def)
  ultimately obtain pre before post where "log = pre @ [Scan before, Ordered (bootout cf)] @ post"
    "no_signal pre" "signals_ok cf (identity ` set before) post"
    unfolding signalled_well_def began_def by blast
  with signals_ok_nth show ?thesis
    unfolding no_signal_def bootout_def by blast
qed

text \<open>
  C26: A request always ends in a receipt: with a clock that advances, fuel for the longest of the four
  waits is enough, whatever the processes and launchd do.
\<close>

theorem execute_ends:
  assumes "clock_advances h" and "enough_fuel cf fuel"
  shows "\<exists>r. fst (execute fuel h cf r0) = Some r"
proof -
  obtain x s where b: "execute_body fuel h cf (rc_action r0) (run0 r0) = (x, s)"
    by (cases "execute_body fuel h cf (rc_action r0) (run0 r0)")
  have "x \<noteq> Inl OutOfFuel"
    using ends_execute_body [OF assms, of "rc_action r0"] b unfolding ends_def by (metis fst_conv)
  then show ?thesis
    by (auto simp: execute_run0 b split: sum.splits sup_end.splits)
qed

section \<open>A concrete restart\<close>

definition demo_ps :: "nat \<Rightarrow> int \<times> string" where
  "demo_ps n = (0, if n < 5 then '' 100 1 501 Thu Oct 8 10:00:00 2026 /opt/ollama''
                   else if n < 12 then [] else '' 200 1 501 Thu Oct 8 11:00:00 2026 /opt/ollama'')"

definition demo_ctl :: "nat \<Rightarrow> string list \<Rightarrow> int \<times> string" where
  "demo_ctl n args = (if args ! 0 = ''print'' then (if n < 5 \<or> n > 11 then (0, ''pid = 200'') else (113, [])) else (0, []))"

definition demo_host :: host where
  "demo_host = \<lparr>h_ps = demo_ps, h_ctl = demo_ctl, h_kill = (\<lambda>n pid sg. Sent), h_clock = int\<rparr>"

definition demo_config :: config where
  "demo_config = \<lparr>cf_label = ''job'', cf_plist = ''p'', cf_uid = 501, cf_processes = [''ollama''],
     cf_unload_ms = 2, cf_exit_ms = 2, cf_signal_ms = 2, cf_start_ms = 2\<rparr>"

definition demo_receipt :: receipt where
  "demo_receipt = \<lparr>rc_id = ''r'', rc_action = ''restart'', rc_reason = [], rc_incarnation = ''i'', rc_label = ''job'',
     rc_result = ''failed'', rc_error = None, rc_job_before = None, rc_job_after = None, rc_before = [], rc_after = [],
     rc_steps = []\<rparr>"

definition demo_proc :: "int \<Rightarrow> string \<Rightarrow> proc" where
  "demo_proc pid t = \<lparr>pr_pid = pid, pr_ppid = 1, pr_uid = 501, pr_started = ''Thu Oct 8 '' @ t @ '':00:00 2026'',
     pr_command = ''/opt/ollama''\<rparr>"

lemma demo_parse:
  "parse_ps '' 100 1 501 Thu Oct 8 10:00:00 2026 /opt/ollama'' = [demo_proc 100 ''10'']"
  "parse_ps '' 200 1 501 Thu Oct 8 11:00:00 2026 /opt/ollama'' = [demo_proc 200 ''11'']"
  "parse_ps [] = []"
  by code_simp+

lemma demo_job: "job_of (0, ''pid = 200'') = \<lparr>j_loaded = True, j_pid = Some 200\<rparr>" 
  by code_simp

lemma demo_runtime: "runtime_proc demo_config (demo_proc pid t)"
  by (simp add: runtime_proc_def demo_config_def demo_proc_def basename_def)

lemma demo_restart_ok: "map_option rc_result (fst (execute 3 demo_host demo_config demo_receipt)) = Some ''ok''"
  by (simp add: execute_def execute_body_def sbind_def job_read_def processes_def launchctl_def clock_read_def
      step_note_def on_receipt_def sret_def tick_def noted_def stop_runtime_def stop_from_def stop_after_def bootout_def stop_check_def
      start_runtime_def bootstrap_def running_daemon_def wait_for_def gone_def alive_def unloaded_def
      demo_host_def demo_ps_def demo_ctl_def demo_parse demo_job demo_runtime numeral_3_eq_3
      demo_receipt_def job_of_def [of "(113, [])"] Let_def)
    (simp add: demo_proc_def identity_def)

lemma restart_ok_is_a_new_runtime_witness:
  "\<exists>j0 before l1 j l2. snd (execute 3 demo_host demo_config demo_receipt)
      = Read j0 # Scan before # l1 @ [Scan [], Read j] @ l2
    \<and> \<not> j_loaded j \<and> daemon_seen (identity ` set before) l2"
proof -
  obtain r log where e: "execute 3 demo_host demo_config demo_receipt = (Some r, log)" "rc_result r = ''ok''"
    using demo_restart_ok by (cases "execute 3 demo_host demo_config demo_receipt") auto
  have "rc_action demo_receipt = ''restart''" "rc_result demo_receipt = ''failed''"
    by (simp_all add: demo_receipt_def)
  from restart_ok_is_a_new_runtime [OF e(1) this e(2)] e(1) show ?thesis by simp
qed

text \<open>A stop of a daemon that does not leave by itself, whose host fails once the first signal is out.\<close>

definition stuck_host :: host where
  "stuck_host = demo_host\<lparr>h_ps := \<lambda>n. if n < 12 then (0, '' 100 1 501 Thu Oct 8 10:00:00 2026 /opt/ollama'') else (1, []),
     h_ctl := \<lambda>n args. (113, [])\<rparr>"

definition stuck_config :: config where
  "stuck_config = demo_config\<lparr>cf_unload_ms := 0, cf_exit_ms := 0\<rparr>"

definition stop_receipt :: receipt where
  "stop_receipt = demo_receipt\<lparr>rc_action := ''stop''\<rparr>"

lemma stuck_calls:
  "processes stuck_host stuck_config s = (if su_tick s < 12
     then (Inr [demo_proc 100 ''10''], noted (Scan [demo_proc 100 ''10'']) (tick s))
     else (Inl (SupervisorError (''ps failed ('' @ show_int 1 @ ''): '' @ take 200 (py_strip []))), tick s))"
  "job_read stuck_host stuck_config s
     = (Inr \<lparr>j_loaded = False, j_pid = None\<rparr>, noted (Read \<lparr>j_loaded = False, j_pid = None\<rparr>) (tick s))"
  "clock_read stuck_host s = (Inr (int (su_tick s)), tick s)"
  "launchctl stuck_host args s = (Inr (113, []), noted (Ordered args) (tick s))"
  "kill_call stuck_host pid sg s = (Inr True, noted (Signalled pid sg) (tick s))"
proof -
  have "runtime_proc stuck_config (demo_proc 100 ''10'')"
    by (simp add: runtime_proc_def stuck_config_def demo_config_def demo_proc_def basename_def)
  then show "processes stuck_host stuck_config s = (if su_tick s < 12
     then (Inr [demo_proc 100 ''10''], noted (Scan [demo_proc 100 ''10'']) (tick s))
     else (Inl (SupervisorError (''ps failed ('' @ show_int 1 @ ''): '' @ take 200 (py_strip []))), tick s))"
    by (simp add: processes_def stuck_host_def demo_parse Let_def)
qed (simp_all add: job_read_def job_of_def clock_read_def launchctl_def kill_call_def stuck_host_def demo_host_def Let_def)

lemma stuck_signalled: "Signalled 100 15 \<in> set (snd (execute 1 stuck_host stuck_config stop_receipt))"
  by (simp add: execute_def execute_body_def sbind_def stuck_calls
      step_note_def on_receipt_def sret_def tick_def noted_def stop_runtime_def stop_from_def stop_after_def
      wait_for_def gone_def alive_def unloaded_def signal_proc_def SIGNALS_def stop_receipt_def demo_receipt_def)
    (simp add: stuck_config_def demo_config_def demo_proc_def)

lemma signals_only_the_recorded_runtime_witness:
  "\<exists>pre before post. snd (execute 1 stuck_host stuck_config stop_receipt)
      = pre @ [Scan before, Ordered [''bootout'', ''system/job'']] @ post \<and> 100 \<in> pr_pid ` set before"
proof -
  from signals_only_the_recorded_runtime [OF surjective_pairing stuck_signalled]
  obtain pre before post where log: "snd (execute 1 stuck_host stuck_config stop_receipt)
        = pre @ [Scan before, Ordered [''bootout'', ''system/'' @ cf_label stuck_config]] @ post"
    "Signalled 100 15 \<notin> set pre"
    and signals: "\<forall>i pid sg. i < length post \<and> post ! i = Signalled pid sg \<longrightarrow>
         0 < i \<and> (\<exists>ps p. post ! (i - 1) = Scan ps \<and> p \<in> set ps \<and> pr_pid p = pid
           \<and> runtime_proc stuck_config p \<and> identity p \<in> identity ` set before)"
    by blast
  then have "Signalled 100 15 \<in> set post" using stuck_signalled by auto
  then obtain i where "i < length post" "post ! i = Signalled 100 15" by (auto simp: in_set_conv_nth)
  with signals obtain p where "pr_pid p = 100" "identity p \<in> identity ` set before" by blast
  then have "100 \<in> pr_pid ` set before" by (auto simp: identity_def)
  with log(1) show ?thesis by (auto simp: stuck_config_def demo_config_def)
qed

lemma execute_ends_witness: "\<exists>r. fst (execute 3 demo_host demo_config demo_receipt) = Some r"
  by (rule execute_ends) (simp_all add: clock_advances_def demo_host_def enough_fuel_def demo_config_def)

end
