(* ===== verification/Supervisor_Protocol.thy ===== *)
theory Supervisor_Protocol
  imports Host_Supervisor
begin

text \<open>
  The file protocol between the node agent (\<open>src/backend/app/node_agent/supervisor.py\<close>) and the host's
  supervisor (\<open>cycle\<close>, \<open>read_request\<close>, \<open>publish\<close> of \<open>src/scripts/host/runtime_supervisor.py\<close>): the two
  directories, each side's operations cut at its file operations, and every interleaving of them.
\<close>

section \<open>The two directories\<close>

text \<open>\<open>Broken\<close>: a file that is no regular file, is too large or does not decode, with the error's text.\<close>

datatype document = Broken string | Doc json

record files =
  fs_mounted :: bool
  fs_requests :: "(string \<times> document) list"
  fs_receipts :: "(string \<times> document) list"

definition is_id :: "string \<Rightarrow> bool" where
  "is_id s \<longleftrightarrow> length s = 32 \<and> list_all (\<lambda>c. is_digit c \<or> ((97::nat) \<le> of_char c \<and> of_char c \<le> (102::nat))) s"

definition json_name :: "string \<Rightarrow> string" where
  "json_name i = i @ ''.json''"

definition claimed_name :: "string \<Rightarrow> string" where
  "claimed_name i = ''.'' @ i @ ''.claimed''"

definition present :: "string \<Rightarrow> (string \<times> document) list \<Rightarrow> bool" where
  "present name dir \<longleftrightarrow> map_of dir name \<noteq> None"

text \<open>\<open>name.removesuffix\<close> where \<open>name.endswith\<close>.\<close>

definition stem :: "string \<Rightarrow> string \<Rightarrow> string option" where
  "stem suffix name =
     (if length suffix \<le> length name \<and> drop (length name - length suffix) name = suffix
      then Some (take (length name - length suffix) name) else None)"

section \<open>The agent's side\<close>

definition ACTIONS :: "string list" where
  "ACTIONS = [''stop'', ''start'', ''restart'']"

definition read_receipt :: "files \<Rightarrow> string \<Rightarrow> jobj option" where
  "read_receipt fs i =
     (if \<not> is_id i then None
      else case map_of (fs_receipts fs) (json_name i) of Some (Doc (JObj d)) \<Rightarrow> Some d | _ \<Rightarrow> None)"

definition waiting_id :: "string \<Rightarrow> string option" where
  "waiting_id name = (case stem ''.json'' name of Some i \<Rightarrow> if is_id i then Some i else None | None \<Rightarrow> None)"

definition claimed_id :: "string \<Rightarrow> string option" where
  "claimed_id name =
     (if take 1 name = ''.'' then (case stem ''.claimed'' (drop 1 name) of
        Some i \<Rightarrow> if is_id i then Some i else None | None \<Rightarrow> None) else None)"

definition outstanding :: "files \<Rightarrow> string list \<times> string list" where
  "outstanding fs =
     (if \<not> fs_mounted fs then ([], [])
      else (sort_by str_le (List.map_filter waiting_id (map fst (fs_requests fs))),
            sort_by str_le (filter (\<lambda>i. read_receipt fs i = None)
              (List.map_filter claimed_id (map fst (fs_requests fs))))))"

text \<open>\<open>withdraw\<close>; \<open>io\<close> says whether the unlink of an existing file works, an \<open>OSError\<close> escapes.\<close>

definition withdraw :: "bool \<Rightarrow> string \<Rightarrow> files \<Rightarrow> (string + bool) \<times> files" where
  "withdraw io i fs =
     (if \<not> is_id i \<or> \<not> present (json_name i) (fs_requests fs) then (Inr False, fs)
      else if io then (Inr True, fs\<lparr>fs_requests := AList.delete (json_name i) (fs_requests fs)\<rparr>)
      else (Inl ''OSError'', fs))"

datatype verdict_of_run =
    Answered jobj | WrongReceipt jobj | WasWithdrawn | TookNoReceipt | DidNotAnswer

definition checked :: "jobj \<Rightarrow> string \<Rightarrow> string \<Rightarrow> verdict_of_run" where
  "checked d i action =
     (if dget d ''request_id'' \<noteq> JStr i \<or> dget d ''action'' \<noteq> JStr action then WrongReceipt d else Answered d)"

definition request_doc :: "string \<Rightarrow> string \<Rightarrow> string \<Rightarrow> document" where
  "request_doc i action reason =
     Doc (JObj [(''request_id'', JStr i), (''action'', JStr action), (''reason'', JStr (take 200 reason))])"

text \<open>
  What \<open>run\<close> refuses before it touches a file, and its file operations: the request written, and the end
  of a wait that timed out (a failing unlink is swallowed, and reported as withdrawn all the same).
\<close>

datatype run_refusal = BadAction | BadId | NotMounted

definition run_refused :: "files \<Rightarrow> string \<Rightarrow> string \<Rightarrow> run_refusal option" where
  "run_refused fs action i =
     (if action \<notin> set ACTIONS then Some BadAction
      else if \<not> is_id i then Some BadId
      else if \<not> fs_mounted fs then Some NotMounted else None)"

definition write_request :: "string \<Rightarrow> string \<Rightarrow> string \<Rightarrow> files \<Rightarrow> files" where
  "write_request i action reason fs =
     fs\<lparr>fs_requests := AList.update (json_name i) (request_doc i action reason) (fs_requests fs)\<rparr>"

definition run_timed_out :: "bool \<Rightarrow> string \<Rightarrow> files \<Rightarrow> verdict_of_run \<times> files" where
  "run_timed_out io i fs =
     (if \<not> present (json_name i) (fs_requests fs) then (TookNoReceipt, fs)
      else (DidNotAnswer, if io then fs\<lparr>fs_requests := AList.delete (json_name i) (fs_requests fs)\<rparr> else fs))"

section \<open>The supervisor's side\<close>

definition REASON_MAX :: nat where
  "REASON_MAX = 200"

definition printable :: "char \<Rightarrow> bool" where
  "printable c = (let n = (of_char c :: nat) in (32 \<le> n \<and> n \<le> 126) \<or> (161 \<le> n \<and> n \<noteq> 173))"

definition read_request :: "document \<Rightarrow> string \<Rightarrow> string + string \<times> string" where
  "read_request f i = (case f of
     Broken e \<Rightarrow> Inl e
   | Doc (JObj d) \<Rightarrow>
       if set (map fst d) \<noteq> {''request_id'', ''action'', ''reason''}
       then Inl ''a request has exactly request_id, action and reason''
       else if dget d ''request_id'' \<noteq> JStr i then Inl ''request_id does not match the file name''
       else (case dget d ''action'' of
           JStr action \<Rightarrow>
             if action \<notin> set ACTIONS then Inl ''action must be one of ACTIONS''
             else (case dget d ''reason'' of
                 JStr reason \<Rightarrow>
                   if length reason > REASON_MAX \<or> \<not> list_all printable reason
                   then Inl ''reason must be printable text of at most 200 characters''
                   else Inr (action, reason)
               | _ \<Rightarrow> Inl ''reason must be printable text of at most 200 characters'')
         | _ \<Rightarrow> Inl ''action must be one of ACTIONS'')
   | Doc _ \<Rightarrow> Inl ''a request has exactly request_id, action and reason'')"

definition blank_receipt :: "config \<Rightarrow> string \<Rightarrow> string \<Rightarrow> receipt" where
  "blank_receipt cf incarnation i =
     \<lparr>rc_id = i, rc_action = [], rc_reason = [], rc_incarnation = incarnation, rc_label = cf_label cf,
      rc_result = ''failed'', rc_error = None, rc_job_before = None, rc_job_after = None, rc_before = [],
      rc_after = [], rc_steps = []\<rparr>"

definition rejected_receipt :: "config \<Rightarrow> string \<Rightarrow> string \<Rightarrow> string \<Rightarrow> receipt" where
  "rejected_receipt cf incarnation i e =
     (blank_receipt cf incarnation i)\<lparr>rc_result := ''rejected'', rc_error := Some (take REASON_MAX e)\<rparr>"

definition taken_receipt :: "config \<Rightarrow> string \<Rightarrow> string \<Rightarrow> string \<Rightarrow> string \<Rightarrow> receipt" where
  "taken_receipt cf incarnation i action reason =
     (blank_receipt cf incarnation i)\<lparr>rc_action := action, rc_reason := reason\<rparr>"

definition proc_doc :: "proc \<Rightarrow> json" where
  "proc_doc p = JObj [(''pid'', JInt (pr_pid p)), (''ppid'', JInt (pr_ppid p)), (''uid'', JInt (pr_uid p)),
                      (''started'', JStr (pr_started p)), (''command'', JStr (pr_command p))]"

definition job_doc :: "job option \<Rightarrow> json" where
  "job_doc j = (case j of None \<Rightarrow> JNull
     | Some j \<Rightarrow> JObj [(''loaded'', JBool (j_loaded j)), (''pid'', jopt_int (j_pid j))])"

definition receipt_doc :: "receipt \<Rightarrow> jobj" where
  "receipt_doc r =
     [(''action'', JStr (rc_action r)), (''after'', JList (map proc_doc (rc_after r))),
      (''before'', JList (map proc_doc (rc_before r))), (''error'', jopt_str (rc_error r)),
      (''job_after'', job_doc (rc_job_after r)), (''job_before'', job_doc (rc_job_before r)),
      (''label'', JStr (rc_label r)), (''reason'', JStr (rc_reason r)), (''request_id'', JStr (rc_id r)),
      (''result'', JStr (rc_result r)),
      (''steps'', JList (map (\<lambda>(n, d). JObj ((''step'', JStr n) # d)) (rc_steps r))),
      (''supervisor_incarnation'', JStr (rc_incarnation r))]"

definition publish :: "receipt \<Rightarrow> files \<Rightarrow> files" where
  "publish r fs = fs\<lparr>fs_receipts := AList.update (json_name (rc_id r)) (Doc (JObj (receipt_doc r))) (fs_receipts fs)\<rparr>"

definition pending :: "files \<Rightarrow> string list" where
  "pending fs = List.map_filter waiting_id (map fst (fs_requests fs))"

datatype sup_state = Idle | Claimed string | Executing string string string | Ready receipt | Published string

text \<open>One pending path of \<open>cycle\<close>: executed already, withdrawn meanwhile, or claimed by renaming.\<close>

definition take_path :: "string \<Rightarrow> files \<Rightarrow> files \<times> sup_state" where
  "take_path i fs =
     (if present (json_name i) (fs_receipts fs)
      then (fs\<lparr>fs_requests := AList.delete (json_name i) (fs_requests fs)\<rparr>, Idle)
      else case map_of (fs_requests fs) (json_name i) of
        None \<Rightarrow> (fs, Idle)
      | Some f \<Rightarrow> (fs\<lparr>fs_requests := AList.update (claimed_name i) f (AList.delete (json_name i) (fs_requests fs))\<rparr>,
                   Claimed i))"

definition claimed_file :: "string \<Rightarrow> files \<Rightarrow> document" where
  "claimed_file i fs = (case map_of (fs_requests fs) (claimed_name i) of None \<Rightarrow> Broken ''No such file'' | Some f \<Rightarrow> f)"

definition begin_claimed :: "config \<Rightarrow> string \<Rightarrow> string \<Rightarrow> files \<Rightarrow> sup_state" where
  "begin_claimed cf incarnation i fs = (case read_request (claimed_file i fs) i of
     Inl e \<Rightarrow> Ready (rejected_receipt cf incarnation i e)
   | Inr (action, reason) \<Rightarrow> Executing i action reason)"

definition clean_claimed :: "string \<Rightarrow> files \<Rightarrow> files" where
  "clean_claimed i fs = fs\<lparr>fs_requests := AList.delete (claimed_name i) (fs_requests fs)\<rparr>"

section \<open>Interleavings\<close>

text \<open>
  The agent's file operations run on one thread, and \<open>run\<close> awaits only between its polls: \<open>thread\<close> is
  how far the current synchronous stretch got. \<open>p_runs\<close> records the executions begun and \<open>p_said\<close> what
  \<open>run\<close> answered to whom.
\<close>

datatype thread = Free
  | Start1 string string string | Start2 string string string | Start3 string string string
  | Poll1 string string | Poll2 string string | Poll3 string string

record proto =
  p_fs :: files
  p_sup :: sup_state
  p_thread :: thread
  p_runs :: "(string \<times> string) list"
  p_said :: "(string \<times> string \<times> verdict_of_run) list"

definition say :: "string \<Rightarrow> string \<Rightarrow> verdict_of_run \<Rightarrow> proto \<Rightarrow> proto" where
  "say i a v s = s\<lparr>p_thread := Free, p_said := p_said s @ [(i, a, v)]\<rparr>"

text \<open>A file operation of \<open>run\<close> that continues, or ends with an answer.\<close>

definition start_run :: "string \<Rightarrow> string \<Rightarrow> string \<Rightarrow> proto \<Rightarrow> proto" where
  "start_run i action reason s = (case read_receipt (p_fs s) i of
     Some d \<Rightarrow> say i action (checked d i action) s
   | None \<Rightarrow> s\<lparr>p_thread := Start1 i action reason\<rparr>)"

definition poll_run :: "string \<Rightarrow> string \<Rightarrow> proto \<Rightarrow> proto" where
  "poll_run i action s = (case read_receipt (p_fs s) i of
     Some d \<Rightarrow> say i action (checked d i action) s
   | None \<Rightarrow> s\<lparr>p_thread := Poll1 i action\<rparr>)"

definition last_poll :: "string \<Rightarrow> string \<Rightarrow> proto \<Rightarrow> proto" where
  "last_poll i action s = (case read_receipt (p_fs s) i of
     Some d \<Rightarrow> say i action (checked d i action) s
   | None \<Rightarrow> say i action WasWithdrawn s)"

inductive agent_step :: "proto \<Rightarrow> proto \<Rightarrow> bool" where
  as_start: "p_thread s = Free \<Longrightarrow> run_refused (p_fs s) action i = None \<Longrightarrow>
     agent_step s (start_run i action reason s)"
| as_request: "p_thread s = Start1 i action reason \<Longrightarrow>
     agent_step s (s\<lparr>p_thread := (if present (json_name i) (fs_requests (p_fs s)) then Free else Start2 i action reason)\<rparr>)"
| as_claimed: "p_thread s = Start2 i action reason \<Longrightarrow>
     agent_step s (s\<lparr>p_thread := (if present (claimed_name i) (fs_requests (p_fs s)) then Free else Start3 i action reason)\<rparr>)"
| as_write: "p_thread s = Start3 i action reason \<Longrightarrow>
     agent_step s (s\<lparr>p_thread := Free, p_fs := (if io then write_request i action reason (p_fs s) else p_fs s)\<rparr>)"
| as_poll: "p_thread s = Free \<Longrightarrow> run_refused (p_fs s) action i = None \<Longrightarrow> agent_step s (poll_run i action s)"
| as_poll_request: "p_thread s = Poll1 i action \<Longrightarrow>
     agent_step s (s\<lparr>p_thread := (if present (json_name i) (fs_requests (p_fs s)) then Free else Poll2 i action)\<rparr>)"
| as_poll_claimed: "p_thread s = Poll2 i action \<Longrightarrow>
     agent_step s (s\<lparr>p_thread := (if present (claimed_name i) (fs_requests (p_fs s)) then Free else Poll3 i action)\<rparr>)"
| as_poll_again: "p_thread s = Poll3 i action \<Longrightarrow> agent_step s (last_poll i action s)"
| as_timeout: "p_thread s = Free \<Longrightarrow> is_id i \<Longrightarrow> run_timed_out io i (p_fs s) = (v, fs) \<Longrightarrow>
     agent_step s (say i action v (s\<lparr>p_fs := fs\<rparr>))"
| as_withdraw: "p_thread s = Free \<Longrightarrow> withdraw io i (p_fs s) = (r, fs) \<Longrightarrow> agent_step s (s\<lparr>p_fs := fs\<rparr>)"

text \<open>A supervisor that dies is started again and begins a new cycle; what it had claimed stays claimed.\<close>

inductive sup_step :: "config \<Rightarrow> string \<Rightarrow> proto \<Rightarrow> proto \<Rightarrow> bool" for cf incarnation where
  ss_take: "p_sup s = Idle \<Longrightarrow> is_id i \<Longrightarrow> take_path i (p_fs s) = (fs, st) \<Longrightarrow>
     sup_step cf incarnation s (s\<lparr>p_fs := fs, p_sup := st\<rparr>)"
| ss_begin: "p_sup s = Claimed i \<Longrightarrow> begin_claimed cf incarnation i (p_fs s) = st \<Longrightarrow>
     sup_step cf incarnation s (s\<lparr>p_sup := st,
       p_runs := (case st of Executing j action reason \<Rightarrow> p_runs s @ [(j, action)] | _ \<Rightarrow> p_runs s)\<rparr>)"
| ss_end: "p_sup s = Executing i action reason \<Longrightarrow>
     fst (execute fuel h cf (taken_receipt cf incarnation i action reason)) = Some r \<Longrightarrow>
     sup_step cf incarnation s (s\<lparr>p_sup := Ready r\<rparr>)"
| ss_publish: "p_sup s = Ready r \<Longrightarrow>
     sup_step cf incarnation s (s\<lparr>p_fs := publish r (p_fs s), p_sup := Published (rc_id r)\<rparr>)"
| ss_clean: "p_sup s = Published i \<Longrightarrow>
     sup_step cf incarnation s (s\<lparr>p_fs := clean_claimed i (p_fs s), p_sup := Idle\<rparr>)"
| ss_crash: "sup_step cf incarnation s (s\<lparr>p_sup := Idle\<rparr>)"

inductive proto_step :: "config \<Rightarrow> string \<Rightarrow> proto \<Rightarrow> proto \<Rightarrow> bool" for cf incarnation where
  agent: "agent_step s t \<Longrightarrow> proto_step cf incarnation s t"
| supervisor: "sup_step cf incarnation s t \<Longrightarrow> proto_step cf incarnation s t"

definition proto_init :: proto where
  "proto_init = \<lparr>p_fs = \<lparr>fs_mounted = True, fs_requests = [], fs_receipts = []\<rparr>, p_sup = Idle, p_thread = Free,
                 p_runs = [], p_said = []\<rparr>"

abbreviation proto_reaches :: "config \<Rightarrow> string \<Rightarrow> proto \<Rightarrow> bool" where
  "proto_reaches cf incarnation s \<equiv> (proto_step cf incarnation)\<^sup>*\<^sup>* proto_init s"

section \<open>What every interleaving keeps\<close>

lemma present_delete [simp]: "present n (AList.delete m d) \<longleftrightarrow> n \<noteq> m \<and> present n d"
  by (auto simp: present_def delete_conv')

lemma present_update [simp]: "present n (AList.update m f d) \<longleftrightarrow> n = m \<or> present n d"
  by (auto simp: present_def update_conv')

lemma names_distinct [simp]:
  "json_name i = json_name j \<longleftrightarrow> i = j" "claimed_name i = claimed_name j \<longleftrightarrow> i = j"
  "json_name i \<noteq> claimed_name j" "claimed_name j \<noteq> json_name i"
proof -
  have "last (json_name i) \<noteq> last (claimed_name j)"
    by (simp add: json_name_def claimed_name_def)
  then show "json_name i \<noteq> claimed_name j" "claimed_name j \<noteq> json_name i" by auto
qed (simp_all add: json_name_def claimed_name_def)

definition ran :: "proto \<Rightarrow> string \<Rightarrow> bool" where
  "ran s i \<longleftrightarrow> i \<in> fst ` set (p_runs s)"

definition files_ok :: "proto \<Rightarrow> bool" where
  "files_ok s \<longleftrightarrow> (\<forall>i. ran s i \<longrightarrow> present (json_name i) (fs_receipts (p_fs s)) \<or> present (claimed_name i) (fs_requests (p_fs s)))
     \<and> (\<forall>i. ran s i \<and> present (json_name i) (fs_requests (p_fs s)) \<longrightarrow> present (json_name i) (fs_receipts (p_fs s)))
     \<and> (\<forall>i. \<not> (present (json_name i) (fs_requests (p_fs s)) \<and> present (claimed_name i) (fs_requests (p_fs s))))"

definition receipts_ok :: "proto \<Rightarrow> bool" where
  "receipts_ok s \<longleftrightarrow> (\<forall>n f. map_of (fs_receipts (p_fs s)) n = Some f \<longrightarrow>
     (\<exists>r. f = Doc (JObj (receipt_doc r)) \<and> n = json_name (rc_id r)
        \<and> (rc_action r \<noteq> [] \<longrightarrow> (rc_id r, rc_action r) \<in> set (p_runs s))))"

text \<open>A claim without a receipt, as the supervisor holds one from its rename to its publication.\<close>

definition holds_claim :: "proto \<Rightarrow> string \<Rightarrow> bool" where
  "holds_claim s i \<longleftrightarrow> is_id i \<and> present (claimed_name i) (fs_requests (p_fs s))
     \<and> \<not> present (json_name i) (fs_receipts (p_fs s))"

definition sup_ok :: "proto \<Rightarrow> bool" where
  "sup_ok s = (case p_sup s of
     Idle \<Rightarrow> True
   | Claimed i \<Rightarrow> holds_claim s i \<and> \<not> ran s i
   | Executing i action reason \<Rightarrow> holds_claim s i \<and> (i, action) \<in> set (p_runs s)
   | Ready r \<Rightarrow> holds_claim s (rc_id r) \<and> (rc_action r \<noteq> [] \<longrightarrow> (rc_id r, rc_action r) \<in> set (p_runs s))
   | Published i \<Rightarrow> present (json_name i) (fs_receipts (p_fs s)))"

definition thread_ok :: "proto \<Rightarrow> bool" where
  "thread_ok s = (case p_thread s of
     Free \<Rightarrow> True
   | Start1 i a r \<Rightarrow> True
   | Start2 i a r \<Rightarrow> \<not> present (json_name i) (fs_requests (p_fs s))
   | Start3 i a r \<Rightarrow> \<not> present (json_name i) (fs_requests (p_fs s)) \<and> \<not> present (claimed_name i) (fs_requests (p_fs s))
   | Poll1 i a \<Rightarrow> is_id i \<and> a \<noteq> []
   | Poll2 i a \<Rightarrow> is_id i \<and> a \<noteq> [] \<and> \<not> present (json_name i) (fs_requests (p_fs s))
   | Poll3 i a \<Rightarrow> is_id i \<and> a \<noteq> [] \<and> \<not> present (json_name i) (fs_requests (p_fs s))
       \<and> \<not> present (claimed_name i) (fs_requests (p_fs s)))"

definition said_ok :: "proto \<Rightarrow> bool" where
  "said_ok s \<longleftrightarrow> (\<forall>(i, a, v) \<in> set (p_said s). \<forall>d. v = Answered d \<longrightarrow> (i, a) \<in> set (p_runs s))"

definition proto_ok :: "proto \<Rightarrow> bool" where
  "proto_ok s \<longleftrightarrow> distinct (map fst (p_runs s)) \<and> files_ok s \<and> receipts_ok s \<and> sup_ok s \<and> thread_ok s \<and> said_ok s
     \<and> fs_mounted (p_fs s)"

lemma proto_okI:
  "distinct (map fst (p_runs s)) \<Longrightarrow> files_ok s \<Longrightarrow> receipts_ok s \<Longrightarrow> sup_ok s \<Longrightarrow> thread_ok s \<Longrightarrow> said_ok s
    \<Longrightarrow> fs_mounted (p_fs s) \<Longrightarrow> proto_ok s"
  by (simp add: proto_ok_def)

lemma proto_okD:
  assumes "proto_ok s"
  shows "distinct (map fst (p_runs s))" "files_ok s" "receipts_ok s" "sup_ok s" "thread_ok s" "said_ok s" "fs_mounted (p_fs s)"
  using assms by (simp_all add: proto_ok_def)

lemma receipt_fields:
  "dget (receipt_doc r) ''request_id'' = JStr (rc_id r)" "dget (receipt_doc r) ''action'' = JStr (rc_action r)"
  by (simp_all add: receipt_doc_def)

text \<open>A receipt that answers a request is evidence that it was executed with that action.\<close>

lemma answered_ran:
  assumes "receipts_ok s" and "read_receipt (p_fs s) i = Some d" and "checked d i a = Answered d'" and "a \<noteq> []"
  shows "(i, a) \<in> set (p_runs s)"
proof -
  obtain f where f: "map_of (fs_receipts (p_fs s)) (json_name i) = Some f" "f = Doc (JObj d)"
    using assms(2) by (auto simp: read_receipt_def split: if_splits option.splits document.splits json.splits)
  then obtain r where r: "f = Doc (JObj (receipt_doc r))"
      "rc_action r \<noteq> [] \<longrightarrow> (rc_id r, rc_action r) \<in> set (p_runs s)"
    using assms(1) unfolding receipts_ok_def by blast
  then have "rc_id r = i" "rc_action r = a"
    using assms(3) f(2) by (auto simp: checked_def receipt_fields split: if_splits)
  with r(2) assms(4) show ?thesis by simp
qed

lemma no_receipt_file:
  assumes "receipts_ok s" "is_id i" "read_receipt (p_fs s) i = None"
  shows "\<not> present (json_name i) (fs_receipts (p_fs s))"
proof
  assume "present (json_name i) (fs_receipts (p_fs s))"
  then obtain f where f: "map_of (fs_receipts (p_fs s)) (json_name i) = Some f"
    by (auto simp: present_def)
  then obtain r where "f = Doc (JObj (receipt_doc r))"
    using assms(1) unfolding receipts_ok_def by blast
  with f assms(2,3) show False
    by (simp add: read_receipt_def)
qed

lemma refused_None: "run_refused fs a i = None \<Longrightarrow> is_id i \<and> a \<noteq> []"
  by (auto simp: run_refused_def ACTIONS_def split: if_splits)

named_theorems proto_defs

lemmas ok_defs [proto_defs] = files_ok_def receipts_ok_def sup_ok_def thread_ok_def said_ok_def ran_def holds_claim_def

lemma say_ok:
  assumes s: "proto_ok s" and v: "\<And>d. v = Answered d \<Longrightarrow> (i, a) \<in> set (p_runs s)"
  shows "proto_ok (say i a v s)"
  using proto_okD [OF s] v
  by (intro proto_okI) (auto simp: say_def proto_defs split: sup_state.splits)

lemma checked_ok:
  assumes s: "proto_ok s" and d: "read_receipt (p_fs s) i = Some d" and a: "a \<noteq> []"
  shows "proto_ok (say i a (checked d i a) s)"
  by (rule say_ok [OF s]) (rule answered_ran [OF proto_okD(3) [OF s] d _ a], simp)

lemma thread_moves:
  assumes s: "proto_ok s" and t: "thread_ok (s\<lparr>p_thread := t\<rparr>)"
  shows "proto_ok (s\<lparr>p_thread := t\<rparr>)"
  using proto_okD [OF s] t by (intro proto_okI) (auto simp: proto_defs split: sup_state.splits)

text \<open>Removing a request, or filing one that is neither there nor claimed, with the thread free after it.\<close>

lemma request_removed:
  assumes s: "proto_ok s" and "p_thread s = Free"
  shows "proto_ok (s\<lparr>p_fs := (p_fs s)\<lparr>fs_requests := AList.delete (json_name i) (fs_requests (p_fs s))\<rparr>\<rparr>)"
  using proto_okD [OF s] assms(2)
  by (intro proto_okI) (auto simp: proto_defs split: sup_state.splits)

lemma request_written:
  assumes s: "proto_ok s" and t: "p_thread s = Start3 i a r"
  shows "proto_ok (s\<lparr>p_thread := Free, p_fs := write_request i a r (p_fs s)\<rparr>)"
  using proto_okD [OF s] t
  by (intro proto_okI) (auto simp: proto_defs write_request_def split: sup_state.splits)

lemma agent_ok: "agent_step s t \<Longrightarrow> proto_ok s \<Longrightarrow> proto_ok t"
proof (induction rule: agent_step.induct)
  case (as_start s action i reason)
  note i = refused_None [OF as_start(2)]
  show ?case
    using as_start i checked_ok thread_moves [OF as_start(3), of "Start1 i action reason"]
    by (auto simp: start_run_def thread_ok_def split: option.splits)
next
  case (as_request s i action reason)
  show ?case
    by (rule thread_moves [OF as_request(2)]) (simp add: thread_ok_def)
next
  case (as_claimed s i action reason)
  show ?case
    using proto_okD(5) [OF as_claimed(2)] as_claimed(1)
    by (intro thread_moves [OF as_claimed(2)]) (simp add: thread_ok_def)
next
  case (as_write s i action reason io)
  then show ?case
    using request_written thread_moves [OF as_write(2), of Free] by (cases io) (auto simp: thread_ok_def)
next
  case (as_poll s action i)
  note i = refused_None [OF as_poll(2)]
  show ?case
    using as_poll i checked_ok thread_moves [OF as_poll(3), of "Poll1 i action"]
    by (auto simp: poll_run_def thread_ok_def split: option.splits)
next
  case (as_poll_request s i action)
  show ?case
    using proto_okD(5) [OF as_poll_request(2)] as_poll_request(1)
    by (intro thread_moves [OF as_poll_request(2)]) (simp add: thread_ok_def)
next
  case (as_poll_claimed s i action)
  show ?case
    using proto_okD(5) [OF as_poll_claimed(2)] as_poll_claimed(1)
    by (intro thread_moves [OF as_poll_claimed(2)]) (simp add: thread_ok_def)
next
  case (as_poll_again s i action)
  then have "action \<noteq> []"
    using proto_okD(5) [OF as_poll_again(2)] by (simp add: thread_ok_def)
  then show ?case
    using as_poll_again checked_ok say_ok [of s WasWithdrawn] by (auto simp: last_poll_def split: option.splits)
next
  case (as_timeout s i io v fs action)
  have v: "v \<noteq> Answered d" for d
    using as_timeout(3) by (auto simp: run_timed_out_def split: if_splits)
  have "proto_ok (s\<lparr>p_fs := fs\<rparr>)"
    using as_timeout request_removed by (auto simp: run_timed_out_def split: if_splits)
  then show ?case
    using say_ok v by blast
next
  case (as_withdraw s io i r fs)
  then show ?case
    using request_removed by (auto simp: withdraw_def split: if_splits)
qed

lemma take_ok:
  assumes s: "proto_ok s" and "is_id i" and t: "take_path i (p_fs s) = (fs, st)"
  shows "proto_ok (s\<lparr>p_fs := fs, p_sup := st\<rparr>)"
proof (cases "present (json_name i) (fs_receipts (p_fs s))")
  case True
  then have "fs = (p_fs s)\<lparr>fs_requests := AList.delete (json_name i) (fs_requests (p_fs s))\<rparr>" "st = Idle"
    using t by (auto simp: take_path_def)
  then show ?thesis
    using proto_okD [OF s] by (intro proto_okI) (auto simp: proto_defs split: thread.splits)
next
  case False
  show ?thesis
  proof (cases "map_of (fs_requests (p_fs s)) (json_name i)")
    case None
    then have "fs = p_fs s" "st = Idle" using t False by (auto simp: take_path_def)
    then show ?thesis
      using proto_okD [OF s] by (intro proto_okI) (auto simp: proto_defs split: thread.splits)
  next
    case (Some f)
    then have fs: "fs = (p_fs s)\<lparr>fs_requests := AList.update (claimed_name i) f (AList.delete (json_name i) (fs_requests (p_fs s)))\<rparr>"
        "st = Claimed i"
      using t False by (auto simp: take_path_def)
    have p: "present (json_name i) (fs_requests (p_fs s))"
      by (simp add: present_def Some)
    have "\<not> ran s i"
      using proto_okD(2) [OF s] p False by (auto simp: files_ok_def)
    then show ?thesis
      using proto_okD [OF s] p False \<open>is_id i\<close> unfolding fs
      by (intro proto_okI) (auto simp: proto_defs split: thread.splits)
  qed
qed

lemma begin_ok:
  assumes s: "proto_ok s" and c: "p_sup s = Claimed i" and b: "begin_claimed cf inc i (p_fs s) = st"
  shows "proto_ok (s\<lparr>p_sup := st, p_runs := (case st of Executing j a r \<Rightarrow> p_runs s @ [(j, a)] | _ \<Rightarrow> p_runs s)\<rparr>)"
proof -
  have h: "holds_claim s i" "\<not> ran s i"
    using proto_okD(4) [OF s] c by (simp_all add: sup_ok_def)
  show ?thesis
  proof (cases "read_request (claimed_file i (p_fs s)) i")
    case (Inl e)
    then have "st = Ready (rejected_receipt cf inc i e)" using b by (simp add: begin_claimed_def)
    then show ?thesis
      using proto_okD [OF s] h
      by (intro proto_okI) (auto simp: proto_defs rejected_receipt_def blank_receipt_def split: thread.splits)
  next
    case (Inr p)
    obtain a r where "p = (a, r)" by (cases p)
    then have st: "st = Executing i a r" using b Inr by (simp add: begin_claimed_def)
    have "distinct (map fst (p_runs s @ [(i, a)]))"
      using proto_okD(1) [OF s] h(2) by (auto simp: ran_def)
    moreover have "files_ok (s\<lparr>p_sup := st, p_runs := p_runs s @ [(i, a)]\<rparr>)"
      using proto_okD(2) [OF s] h by (auto simp: files_ok_def ran_def holds_claim_def)
    moreover have "receipts_ok (s\<lparr>p_sup := st, p_runs := p_runs s @ [(i, a)]\<rparr>)"
      using proto_okD(3) [OF s] unfolding receipts_ok_def by fastforce
    ultimately show ?thesis
      using proto_okD [OF s] h st
      by (intro proto_okI) (auto simp: sup_ok_def thread_ok_def said_ok_def holds_claim_def split: thread.splits)
  qed
qed

lemma publish_ok:
  assumes s: "proto_ok s" and r: "p_sup s = Ready r"
  shows "proto_ok (s\<lparr>p_fs := publish r (p_fs s), p_sup := Published (rc_id r)\<rparr>)"
proof -
  have a: "rc_action r \<noteq> [] \<longrightarrow> (rc_id r, rc_action r) \<in> set (p_runs s)"
    using proto_okD(4) [OF s] r by (simp add: sup_ok_def)
  have "receipts_ok (s\<lparr>p_fs := publish r (p_fs s), p_sup := Published (rc_id r)\<rparr>)"
    unfolding receipts_ok_def
  proof (intro allI impI)
    fix n f
    assume f: "map_of (fs_receipts (p_fs (s\<lparr>p_fs := publish r (p_fs s), p_sup := Published (rc_id r)\<rparr>))) n = Some f"
    show "\<exists>r'. f = Doc (JObj (receipt_doc r')) \<and> n = json_name (rc_id r')
        \<and> (rc_action r' \<noteq> [] \<longrightarrow> (rc_id r', rc_action r') \<in> set (p_runs (s\<lparr>p_fs := publish r (p_fs s), p_sup := Published (rc_id r)\<rparr>)))"
    proof (cases "n = json_name (rc_id r)")
      case True
      then show ?thesis using f a by (intro exI [of _ r]) (simp add: publish_def update_conv')
    next
      case False
      then show ?thesis using f proto_okD(3) [OF s] by (simp add: publish_def update_conv' receipts_ok_def)
    qed
  qed
  then show ?thesis
    using proto_okD [OF s]
    by (intro proto_okI) (auto simp: files_ok_def sup_ok_def thread_ok_def said_ok_def ran_def publish_def split: thread.splits)
qed

lemma sup_step_ok: "sup_step cf inc s t \<Longrightarrow> proto_ok s \<Longrightarrow> proto_ok t"
proof (induction rule: sup_step.induct)
  case (ss_take s i fs st)
  then show ?case using take_ok by blast
next
  case (ss_begin s i st)
  then show ?case using begin_ok by blast
next
  case (ss_end s i action reason fuel h r)
  have "rc_id r = i" "rc_action r = action"
    using execute_filed [OF ss_end(2)] by (simp_all add: taken_receipt_def blank_receipt_def)
  then show ?case
    using proto_okD [OF ss_end(3)] ss_end(1)
    by (intro proto_okI) (auto simp: proto_defs split: thread.splits)
next
  case (ss_publish s r)
  then show ?case using publish_ok by blast
next
  case (ss_clean s i)
  then show ?case
    using proto_okD [OF ss_clean(2)]
    by (intro proto_okI) (auto simp: proto_defs clean_claimed_def split: thread.splits)
next
  case (ss_crash s)
  then show ?case
    using proto_okD [OF ss_crash] by (intro proto_okI) (auto simp: proto_defs split: thread.splits)
qed

lemma proto_step_ok: "proto_step cf inc s t \<Longrightarrow> proto_ok s \<Longrightarrow> proto_ok t"
  by (induction rule: proto_step.induct) (auto intro: agent_ok sup_step_ok)

interpretation protocol: transition_system "proto_step cf inc" proto_ok for cf inc
  by unfold_locales (rule proto_step_ok)

lemma proto_init_ok: "proto_ok proto_init"
  by (simp add: proto_ok_def proto_init_def proto_defs present_def)

lemma reached_ok: "proto_reaches cf inc s \<Longrightarrow> proto_ok s"
  using protocol.inv_run proto_init_ok by blast

section \<open>Properties\<close>

text \<open>
  C27: However the agent's calls, timeouts and withdrawals interleave with the supervisor's cycles and
  with supervisors that die and are started again, the supervisor never executes a request twice.
\<close>

theorem executed_at_most_once:
  assumes "proto_reaches cf incarnation s"
  shows "distinct (map fst (p_runs s))"
  by (rule proto_okD(1) [OF reached_ok [OF assms]])

text \<open>Steps of both sides that do not file the request anew.\<close>

definition unfiled_step :: "config \<Rightarrow> string \<Rightarrow> string \<Rightarrow> proto \<Rightarrow> proto \<Rightarrow> bool" where
  "unfiled_step cf incarnation i s t \<longleftrightarrow>
     proto_step cf incarnation s t \<and> \<not> present (json_name i) (fs_requests (p_fs t))"

definition no_file :: "string \<Rightarrow> proto \<Rightarrow> bool" where
  "no_file i s \<longleftrightarrow> \<not> present (json_name i) (fs_requests (p_fs s)) \<and> \<not> present (claimed_name i) (fs_requests (p_fs s))"

text \<open>Without a request file and without a claim the supervisor neither claims nor begins it.\<close>

lemma agent_quiet_runs:
  "agent_step s t \<Longrightarrow> p_runs t = p_runs s
    \<and> (present (claimed_name i) (fs_requests (p_fs t)) \<longrightarrow> present (claimed_name i) (fs_requests (p_fs s)))"
  by (induction rule: agent_step.induct)
    (auto simp: start_run_def poll_run_def last_poll_def say_def write_request_def run_timed_out_def withdraw_def
      split: option.splits if_splits)

lemma sup_quiet_runs:
  assumes "sup_step cf incarnation s t" "proto_ok s" "no_file i s"
  shows "\<not> present (claimed_name i) (fs_requests (p_fs t)) \<and> ran t i = ran s i"
  using assms(1)
proof cases
  case (ss_take j fs st)
  then show ?thesis
    using assms(3) by (auto simp: take_path_def no_file_def ran_def present_def [of "json_name i"]
        split: if_splits option.splits)
next
  case (ss_begin j st)
  then have "holds_claim s j" using proto_okD(4) [OF assms(2)] by (simp add: sup_ok_def)
  with assms(3) have "j \<noteq> i" by (auto simp: holds_claim_def no_file_def)
  with ss_begin assms(3) show ?thesis
    by (auto simp: begin_claimed_def no_file_def ran_def split: sum.splits)
next
  case (ss_clean j)
  then show ?thesis using assms(3) by (simp add: clean_claimed_def no_file_def ran_def)
qed (use assms(3) in \<open>simp_all add: no_file_def ran_def publish_def\<close>)

lemma unfiled_runs:
  assumes "(unfiled_step cf incarnation i)\<^sup>*\<^sup>* t u" "proto_ok t" "no_file i t"
  shows "proto_ok u \<and> no_file i u \<and> ran u i = ran t i"
  using assms(1)
proof (induction rule: rtranclp_induct)
  case (step x y)
  then have x: "proto_ok x" "no_file i x" "ran x i = ran t i"
    and xy: "proto_step cf incarnation x y" "\<not> present (json_name i) (fs_requests (p_fs y))"
    by (simp_all add: unfiled_step_def)
  have "\<not> present (claimed_name i) (fs_requests (p_fs y)) \<and> ran y i = ran x i"
    using xy(1)
  proof cases
    case agent
    then show ?thesis using agent_quiet_runs [of x y i] x(2) by (auto simp: no_file_def ran_def)
  next
    case supervisor
    then show ?thesis using sup_quiet_runs x by blast
  qed
  then show ?case using xy x(3) proto_step_ok [OF xy(1) x(1)] by (simp add: no_file_def)
qed (use assms in simp)

lemma withdrawn_state:
  assumes "proto_ok s" "agent_step s t" "p_said t = p_said s @ [(i, a, WasWithdrawn)]"
  shows "\<not> ran t i \<and> no_file i t"
proof -
  have "p_thread s = Poll3 i a \<and> read_receipt (p_fs s) i = None \<and> t = say i a WasWithdrawn s"
    using assms(2,3)
    by cases (auto simp: say_def start_run_def poll_run_def last_poll_def checked_def run_timed_out_def
        split: option.splits if_splits)
  moreover from this have "is_id i" "\<not> present (json_name i) (fs_requests (p_fs s))"
      "\<not> present (claimed_name i) (fs_requests (p_fs s))"
    using proto_okD(5) [OF assms(1)] by (simp_all add: thread_ok_def)
  moreover from calculation have "\<not> present (json_name i) (fs_receipts (p_fs s))"
    using no_receipt_file [OF proto_okD(3) [OF assms(1)]] by blast
  ultimately show ?thesis
    using proto_okD(2) [OF assms(1)] by (auto simp: files_ok_def ran_def say_def no_file_def)
qed

lemma unanswered_state:
  assumes "proto_ok s" "agent_step s t" "p_said t = p_said s @ [(i, a, DidNotAnswer)]"
    and "\<not> present (json_name i) (fs_requests (p_fs t))"
  shows "no_file i t \<and> (ran t i \<longrightarrow> present (json_name i) (fs_receipts (p_fs t)))"
proof -
  have "present (json_name i) (fs_requests (p_fs s))
      \<and> t = say i a DidNotAnswer (s\<lparr>p_fs := (p_fs s)\<lparr>fs_requests := AList.delete (json_name i) (fs_requests (p_fs s))\<rparr>\<rparr>)"
    using assms(2-4)
    by cases (auto simp: say_def start_run_def poll_run_def last_poll_def checked_def run_timed_out_def
        split: option.splits if_splits)
  then show ?thesis
    using proto_okD(2) [OF assms(1)] by (auto simp: files_ok_def ran_def say_def no_file_def)
qed

text \<open>
  C28: What \<open>run\<close> answers is true of the host. An accepted receipt was written for an execution of that
  request with that action. When \<open>run\<close> says that a request was withdrawn before the supervisor took it, the
  request was not executed; when it says that the supervisor did not answer and the request was withdrawn, and
  removing the file has worked, it was not executed either, unless its receipt is already there. In both cases
  neither the request nor a claim of it is left, and as long as nobody files it again it is never executed,
  however the two sides go on. (When the removal fails the second answer is given all the same, and is untrue.)
\<close>

theorem answers_are_true:
  assumes "proto_reaches cf incarnation s" and "agent_step s t" and "p_said t = p_said s @ [(i, a, v)]"
  shows "(\<forall>d. v = Answered d \<longrightarrow> (i, a) \<in> set (p_runs t))
    \<and> (v = WasWithdrawn \<longrightarrow> i \<notin> fst ` set (p_runs t) \<and> \<not> present (json_name i) (fs_requests (p_fs t))
         \<and> \<not> present (claimed_name i) (fs_requests (p_fs t)))
    \<and> (v = DidNotAnswer \<and> \<not> present (json_name i) (fs_requests (p_fs t)) \<longrightarrow>
         \<not> present (claimed_name i) (fs_requests (p_fs t))
         \<and> (i \<in> fst ` set (p_runs t) \<longrightarrow> present (json_name i) (fs_receipts (p_fs t))))
    \<and> (v = WasWithdrawn \<or> v = DidNotAnswer \<and> \<not> present (json_name i) (fs_requests (p_fs t)) \<longrightarrow>
         (\<forall>u. (unfiled_step cf incarnation i)\<^sup>*\<^sup>* t u \<longrightarrow>
           (i \<in> fst ` set (p_runs u) \<longleftrightarrow> i \<in> fst ` set (p_runs t))))"
proof -
  note s = reached_ok [OF assms(1)]
  note t = agent_ok [OF assms(2) s]
  have "(i, a) \<in> set (p_runs t)" if "v = Answered d" for d
    using proto_okD(6) [OF t] assms(3) that by (auto simp: said_ok_def)
  moreover have withdrawn: "\<not> ran t i \<and> no_file i t" if "v = WasWithdrawn"
    using withdrawn_state [OF s assms(2)] assms(3) that by simp
  moreover have unanswered: "no_file i t \<and> (ran t i \<longrightarrow> present (json_name i) (fs_receipts (p_fs t)))"
    if "v = DidNotAnswer" "\<not> present (json_name i) (fs_requests (p_fs t))"
    using unanswered_state [OF s assms(2)] assms(3) that by simp
  moreover have "ran u i = ran t i"
    if "v = WasWithdrawn \<or> v = DidNotAnswer \<and> \<not> present (json_name i) (fs_requests (p_fs t))"
      "(unfiled_step cf incarnation i)\<^sup>*\<^sup>* t u" for u
    using unfiled_runs [OF that(2) t] withdrawn unanswered that(1) by blast
  ultimately show ?thesis unfolding ran_def no_file_def by blast
qed

lemma stem_append: "stem suf (x @ suf) = Some x"
  by (simp add: stem_def)

lemma names_read [simp]:
  "is_id i \<Longrightarrow> waiting_id (json_name i) = Some i" "is_id i \<Longrightarrow> claimed_id (claimed_name i) = Some i"
  by (simp_all add: waiting_id_def claimed_id_def json_name_def claimed_name_def stem_append)

lemma present_listed: "present n d \<Longrightarrow> n \<in> set (map fst d)"
  by (auto simp: present_def dest: map_of_SomeD intro: rev_image_eqI)

lemma map_filter_member: "x \<in> set xs \<Longrightarrow> f x = Some y \<Longrightarrow> y \<in> set (List.map_filter f xs)"
  by (force simp: List.map_filter_def)

lemma claims_listed:
  assumes "proto_ok s" "holds_claim s i"
  shows "i \<in> set (snd (outstanding (p_fs s)))"
proof -
  have "claimed_name i \<in> set (map fst (fs_requests (p_fs s)))"
    using assms(2) present_listed by (simp add: holds_claim_def)
  then have "i \<in> set (List.map_filter claimed_id (map fst (fs_requests (p_fs s))))"
    using assms(2) by (intro map_filter_member) (auto simp: holds_claim_def)
  moreover have "read_receipt (p_fs s) i = None"
    using assms(2) by (auto simp: holds_claim_def present_def read_receipt_def)
  ultimately show ?thesis
    using proto_okD(7) [OF assms(1)] by (simp add: outstanding_def)
qed

lemma requests_listed:
  assumes "proto_ok s" "is_id i" "present (json_name i) (fs_requests (p_fs s))"
  shows "i \<in> set (fst (outstanding (p_fs s)))"
proof -
  have "i \<in> set (List.map_filter waiting_id (map fst (fs_requests (p_fs s))))"
    using present_listed [OF assms(3)] assms(2) by (intro map_filter_member) auto
  then show ?thesis
    using proto_okD(7) [OF assms(1)] by (simp add: outstanding_def)
qed

lemma sort_by_empty: "sort_by le xs = [] \<longleftrightarrow> xs = []"
  using length_sort_by [of le xs] by (metis length_0_conv)

text \<open>Nothing outstanding, name by name; fewer request files leave nothing outstanding.\<close>

lemma nothing_outstanding:
  assumes "fs_mounted fs"
  shows "outstanding fs = ([], []) \<longleftrightarrow> (\<forall>n \<in> fst ` set (fs_requests fs).
    waiting_id n = None \<and> (\<forall>i. claimed_id n = Some i \<longrightarrow> read_receipt fs i \<noteq> None))"
  using assms by (auto simp: outstanding_def sort_by_empty List.map_filter_def filter_empty_conv)

lemma fewer_outstanding:
  assumes "fs_mounted fs" "outstanding fs = ([], [])"
  shows "outstanding (fs\<lparr>fs_requests := AList.delete n (fs_requests fs)\<rparr>) = ([], [])"
proof -
  have "\<forall>x \<in> fst ` set (fs_requests fs). waiting_id x = None
      \<and> (\<forall>i. claimed_id x = Some i \<longrightarrow> read_receipt fs i \<noteq> None)"
    using nothing_outstanding [OF assms(1), THEN iffD1, OF assms(2)] .
  moreover have "read_receipt (fs\<lparr>fs_requests := r\<rparr>) i = read_receipt fs i" for r i
    by (simp add: read_receipt_def)
  ultimately show ?thesis
    using assms(1) by (subst nothing_outstanding) (force simp: AList.delete_eq)+
qed

text \<open>
  When the agent finds no outstanding request, which is what it requires before it lets a node serve
  again, the supervisor is not stopping or restarting the runtime, and nothing it can do next begins an
  execution: only a new request could.
\<close>

theorem nothing_outstanding_is_quiet:
  assumes "proto_reaches cf incarnation s" and "outstanding (p_fs s) = ([], [])"
  shows "(case p_sup s of Idle \<Rightarrow> True | Published i \<Rightarrow> True | _ \<Rightarrow> False)
    \<and> (\<forall>t. sup_step cf incarnation s t \<longrightarrow> p_runs t = p_runs s \<and> outstanding (p_fs t) = ([], []))"
proof -
  note s = reached_ok [OF assms(1)]
  have free: "\<not> holds_claim s i" for i
    using claims_listed [OF s] assms(2) by force
  have none: "is_id i \<Longrightarrow> \<not> present (json_name i) (fs_requests (p_fs s))" for i
    using requests_listed [OF s] assms(2) by force
  have idle: "case p_sup s of Idle \<Rightarrow> True | Published i \<Rightarrow> True | _ \<Rightarrow> False"
    using proto_okD(4) [OF s] free by (auto simp: sup_ok_def split: sup_state.splits)
  moreover have "p_runs t = p_runs s \<and> outstanding (p_fs t) = ([], [])" if step: "sup_step cf incarnation s t" for t
    using step
  proof cases
    case (ss_take i fs st)
    then have "fs = p_fs s \<or> fs = (p_fs s)\<lparr>fs_requests := AList.delete (json_name i) (fs_requests (p_fs s))\<rparr>"
      using none [of i] by (auto simp: take_path_def present_def split: if_splits)
    then show ?thesis
      using ss_take(1) fewer_outstanding [OF proto_okD(7) [OF s] assms(2)] assms(2) by auto
  next
    case (ss_clean i)
    then show ?thesis
      using fewer_outstanding [OF proto_okD(7) [OF s] assms(2)] by (simp add: clean_claimed_def)
  qed (use idle assms(2) in auto)
  ultimately show ?thesis by blast
qed

section \<open>Concrete runs\<close>

lemma agent_to: "proto_reaches cf inc s \<Longrightarrow> agent_step s t \<Longrightarrow> proto_reaches cf inc t"
  by (auto intro: rtranclp.rtrancl_into_rtrancl proto_step.agent)

lemma supervisor_to: "proto_reaches cf inc s \<Longrightarrow> sup_step cf inc s t \<Longrightarrow> proto_reaches cf inc t"
  by (auto intro: rtranclp.rtrancl_into_rtrancl proto_step.supervisor)

definition demo_id :: string where
  "demo_id = replicate 32 (CHR ''0'')"

lemma demo_id [simp]: "is_id demo_id"
  by (simp add: is_id_def demo_id_def is_digit_def list_all_iff)

definition demo_fs :: files where
  "demo_fs = \<lparr>fs_mounted = True, fs_requests = [], fs_receipts = []\<rparr>"

definition demo_at :: "thread \<Rightarrow> proto" where
  "demo_at t = \<lparr>p_fs = demo_fs, p_sup = Idle, p_thread = t, p_runs = [], p_said = []\<rparr>"

lemma demo_start: "proto_reaches cf inc (demo_at Free)"
  by (simp add: demo_at_def demo_fs_def proto_init_def)

lemma demo_valid: "run_refused demo_fs ''restart'' demo_id = None"
  by (simp add: run_refused_def ACTIONS_def demo_fs_def)

lemma demo_no_receipt: "read_receipt demo_fs demo_id = None"
  by (simp add: read_receipt_def demo_fs_def)

lemma demo_absent: "\<not> present n (fs_requests demo_fs)"
  by (simp add: present_def demo_fs_def)

lemma demo_start3: "proto_reaches cf inc (demo_at (Start3 demo_id ''restart'' ''why''))"
proof -
  have "agent_step (demo_at Free) (demo_at (Start1 demo_id ''restart'' ''why''))"
    using as_start [of "demo_at Free" "''restart''" demo_id "''why''"] demo_valid demo_no_receipt
    by (simp add: demo_at_def start_run_def)
  note s1 = agent_to [OF demo_start this]
  have "agent_step (demo_at (Start1 demo_id ''restart'' ''why'')) (demo_at (Start2 demo_id ''restart'' ''why''))"
    using as_request [of "demo_at (Start1 demo_id ''restart'' ''why'')"] by (simp add: demo_at_def demo_absent)
  note s2 = agent_to [OF s1 this]
  have "agent_step (demo_at (Start2 demo_id ''restart'' ''why'')) (demo_at (Start3 demo_id ''restart'' ''why''))"
    using as_claimed [of "demo_at (Start2 demo_id ''restart'' ''why'')"] by (simp add: demo_at_def demo_absent)
  from agent_to [OF s2 this] show ?thesis .
qed

definition demo_claimed :: files where
  "demo_claimed = \<lparr>fs_mounted = True,
     fs_requests = [(claimed_name demo_id, request_doc demo_id ''restart'' ''why'')], fs_receipts = []\<rparr>"

definition demo_running :: proto where
  "demo_running = \<lparr>p_fs = demo_claimed, p_sup = Executing demo_id ''restart'' ''why'', p_thread = Free,
     p_runs = [(demo_id, ''restart'')], p_said = []\<rparr>"

lemma demo_runs: "proto_reaches cf inc demo_running"
proof -
  define w where "w = write_request demo_id ''restart'' ''why'' demo_fs"
  have "agent_step (demo_at (Start3 demo_id ''restart'' ''why'')) ((demo_at Free)\<lparr>p_fs := w\<rparr>)"
    using as_write [of "demo_at (Start3 demo_id ''restart'' ''why'')" demo_id "''restart''" "''why''" True]
    by (simp add: demo_at_def w_def)
  note s1 = agent_to [OF demo_start3 this]
  have "take_path demo_id w = (demo_claimed, Claimed demo_id)"
    by (simp add: take_path_def w_def write_request_def demo_fs_def demo_claimed_def present_def)
  then have "sup_step cf inc ((demo_at Free)\<lparr>p_fs := w\<rparr>) ((demo_at Free)\<lparr>p_fs := demo_claimed, p_sup := Claimed demo_id\<rparr>)"
    using ss_take [of "(demo_at Free)\<lparr>p_fs := w\<rparr>" demo_id demo_claimed "Claimed demo_id" cf inc] by (simp add: demo_at_def)
  note s2 = supervisor_to [OF s1 this]
  have "begin_claimed cf inc demo_id demo_claimed = Executing demo_id ''restart'' ''why''"
    by (auto simp: begin_claimed_def read_request_def claimed_file_def demo_claimed_def request_doc_def ACTIONS_def
        REASON_MAX_def printable_def)
  then have "sup_step cf inc ((demo_at Free)\<lparr>p_fs := demo_claimed, p_sup := Claimed demo_id\<rparr>) demo_running"
    using ss_begin [of "(demo_at Free)\<lparr>p_fs := demo_claimed, p_sup := Claimed demo_id\<rparr>" demo_id cf inc]
    by (simp add: demo_at_def demo_running_def)
  from supervisor_to [OF s2 this] show ?thesis .
qed

lemma executed_at_most_once_witness: "distinct (map fst (p_runs demo_running)) \<and> p_runs demo_running \<noteq> []"
  using executed_at_most_once [OF demo_runs [of demo_config "''i''"]] by (simp add: demo_running_def)

lemma demo_poll3: "proto_reaches cf inc (demo_at (Poll3 demo_id ''restart''))"
proof -
  have "agent_step (demo_at Free) (demo_at (Poll1 demo_id ''restart''))"
    using as_poll [of "demo_at Free" "''restart''" demo_id] demo_valid demo_no_receipt
    by (simp add: demo_at_def poll_run_def)
  note s1 = agent_to [OF demo_start this]
  have "agent_step (demo_at (Poll1 demo_id ''restart'')) (demo_at (Poll2 demo_id ''restart''))"
    using as_poll_request [of "demo_at (Poll1 demo_id ''restart'')"] by (simp add: demo_at_def demo_absent)
  note s2 = agent_to [OF s1 this]
  have "agent_step (demo_at (Poll2 demo_id ''restart'')) (demo_at (Poll3 demo_id ''restart''))"
    using as_poll_claimed [of "demo_at (Poll2 demo_id ''restart'')"] by (simp add: demo_at_def demo_absent)
  from agent_to [OF s2 this] show ?thesis .
qed

lemma answers_are_true_witness:
  "demo_id \<notin> fst ` set (p_runs (say demo_id ''restart'' WasWithdrawn (demo_at (Poll3 demo_id ''restart''))))"
proof -
  have "agent_step (demo_at (Poll3 demo_id ''restart'')) (say demo_id ''restart'' WasWithdrawn (demo_at (Poll3 demo_id ''restart'')))"
    using as_poll_again [of "demo_at (Poll3 demo_id ''restart'')" demo_id "''restart''"] demo_no_receipt
    by (simp add: demo_at_def last_poll_def)
  from answers_are_true [OF demo_poll3 [of demo_config "''i''"] this, of demo_id "''restart''" WasWithdrawn]
  show ?thesis by (simp add: say_def)
qed

lemma nothing_outstanding_is_quiet_witness: "outstanding (p_fs proto_init) = ([], []) \<and> p_sup proto_init = Idle"
proof -
  have o: "outstanding (p_fs proto_init) = ([], [])"
    by (simp add: proto_init_def outstanding_def)
  from nothing_outstanding_is_quiet [OF rtranclp.rtrancl_refl [of "proto_step demo_config ''i''" proto_init] o]
  have "case p_sup proto_init of Idle \<Rightarrow> True | Published i \<Rightarrow> True | _ \<Rightarrow> False" by blast
  then show ?thesis using o by (simp add: proto_init_def)
qed

end
