(* ===== verification/Resolution.thy ===== *)
theory Resolution
  imports Dispatch Py_Values
begin

text \<open>
  Clearing an unknown operation with ordered reset evidence: \<open>src/backend/app/node_agent/resolution.py\<close>.
  Answers of the witness, of the supervisor and of the clock are arguments, in the order the code asks
  for them; \<open>rely\<close> is what other tasks and processes do to the database and the gate at an await.
\<close>

section \<open>The witness's answer\<close>

record attestation =
  at_nonce :: string
  at_incarnation :: string
  at_seq :: int
  at_pid :: int
  at_start :: string
  at_endpoint :: string

definition at_instance :: "attestation \<Rightarrow> int \<times> string" where
  "at_instance a = (at_pid a, at_start a)"

datatype refusal =
    CannotChallenge | Unanswered | NotObserved jobj | OtherEndpoint json | Malformed string
  | NeedsStatement | NotUnknown string | StillHeld string | NoSuchResolution string | WitnessRestarted
  | NotRestarted attestation | NoLongerUnknown string | SupervisorRefused string | RestartFailed jobj
  | HoldNotClosed int | ResetFailed jobj | StoreRaised fault

definition member :: "jobj \<Rightarrow> string \<Rightarrow> refusal + json" where
  "member d k = (case map_of d k of None \<Rightarrow> Inl (Malformed ''KeyError'') | Some j \<Rightarrow> Inr j)"

definition int_member :: "jobj \<Rightarrow> string \<Rightarrow> refusal + int" where
  "int_member d k = ebind (member d k) (\<lambda>j. case py_int j of Inl n \<Rightarrow> Inl (Malformed n) | Inr i \<Rightarrow> Inr i)"

definition str_member :: "jobj \<Rightarrow> string \<Rightarrow> refusal + string" where
  "str_member d k = ebind (member d k) (\<lambda>j. Inr (py_str j))"

definition attestation_of :: "string \<Rightarrow> jobj \<Rightarrow> string \<Rightarrow> refusal + attestation" where
  "attestation_of expected d nonce =
     (if dget d ''status'' \<noteq> JStr ''observed'' then Inl (NotObserved d)
      else if dget d ''endpoint'' \<noteq> JStr expected then Inl (OtherEndpoint (dget d ''endpoint''))
      else ebind (str_member d ''witness_incarnation'') (\<lambda>inc.
           ebind (int_member d ''seq'') (\<lambda>sq.
           ebind (int_member d ''pid'') (\<lambda>pid.
           ebind (str_member d ''start_time'') (\<lambda>st.
           ebind (str_member d ''endpoint'') (\<lambda>ep.
             Inr \<lparr>at_nonce = nonce, at_incarnation = inc, at_seq = sq, at_pid = pid, at_start = st,
                  at_endpoint = ep\<rparr>))))))"

text \<open>\<open>attest\<close>: the polls of one call, each with the clock before it and the document read.\<close>

fun attest_polls :: "string \<Rightarrow> string \<Rightarrow> int \<Rightarrow> (int \<times> json option) list \<Rightarrow> refusal + attestation" where
  "attest_polls expected nonce deadline [] = Inl Unanswered"
| "attest_polls expected nonce deadline ((t, doc) # polls) =
     (if t \<ge> deadline then Inl Unanswered
      else case doc of
        Some (JObj d) \<Rightarrow>
          if dget d ''nonce'' = JStr nonce then attestation_of expected d nonce
          else attest_polls expected nonce deadline polls
      | _ \<Rightarrow> attest_polls expected nonce deadline polls)"

definition attest :: "bool \<Rightarrow> string \<Rightarrow> string \<Rightarrow> int \<Rightarrow> (int \<times> json option) list \<Rightarrow> refusal + attestation" where
  "attest issued expected nonce deadline polls =
     (if \<not> issued then Inl CannotChallenge else attest_polls expected nonce deadline polls)"

section \<open>A resolution in two calls\<close>

record resolving =
  pn_op :: string
  pn_statement :: string
  pn_operator :: string
  pn_baseline :: attestation

record resolver =
  rv_db :: db
  rv_gate :: gate
  rv_pending :: "(string \<times> resolving) list"

definition att_doc :: "attestation \<Rightarrow> json" where
  "att_doc a = JObj [(''nonce'', JStr (at_nonce a)), (''incarnation'', JStr (at_incarnation a)),
     (''seq'', JInt (at_seq a)), (''pid'', JInt (at_pid a)), (''start_time'', JStr (at_start a)),
     (''endpoint'', JStr (at_endpoint a))]"

definition sender_gone :: "ownership \<Rightarrow> operation \<Rightarrow> string" where
  "sender_gone w r = (if origin_boot_id r \<noteq> own_boot_id w
     then ''earlier agent; this agent holds the host lock''
     else ''this agent; its task for the operation has ended'')"

text \<open>What \<open>start\<close> checks before it drains: the operation is unknown and no task is left for it.\<close>

definition start_check :: "ownership \<Rightarrow> string \<Rightarrow> string \<Rightarrow> string \<Rightarrow> db \<Rightarrow> gate \<Rightarrow> refusal + string" where
  "start_check w oid statement operator d g =
     (if py_strip statement = [] \<or> py_strip operator = [] then Inl NeedsStatement
      else case observe (own_node w) oid d of
        None \<Rightarrow> Inl (NotUnknown oid)
      | Some r \<Rightarrow>
          if op_state r \<noteq> OutcomeUnknown then Inl (NotUnknown oid)
          else if holds oid g then Inl (StillHeld oid)
          else Inr (sender_gone w r))"

definition start_audit :: "string \<Rightarrow> string \<Rightarrow> string \<Rightarrow> attestation \<Rightarrow> json" where
  "start_audit rid operator sender b =
     JObj [(''resolution_id'', JStr rid), (''operator'', JStr operator), (''sender'', JStr sender),
           (''baseline'', att_doc b)]"

text \<open>\<open>rely 0\<close> runs after the observation, \<open>rely 1\<close> while the witness is asked.\<close>

definition resolution_start :: "ownership \<Rightarrow> (nat \<Rightarrow> db \<times> gate \<Rightarrow> db \<times> gate) \<Rightarrow> string \<Rightarrow> string \<Rightarrow> string
    \<Rightarrow> string \<Rightarrow> (refusal + attestation) \<Rightarrow> resolver \<Rightarrow> (refusal + attestation) \<times> resolver" where
  "resolution_start w rely rid oid statement operator answer v =
     (let (d, g) = rely 0 (rv_db v, rv_gate v) in
      case start_check w oid statement operator (rv_db v) g of
        Inl e \<Rightarrow> (Inl e, v\<lparr>rv_db := d, rv_gate := g\<rparr>)
      | Inr sender \<Rightarrow>
          (let (d1, g1) = rely 1 (d, drain g) in
           case answer of
             Inl e \<Rightarrow> (Inl e, v\<lparr>rv_db := d1, rv_gate := g1\<rparr>)
           | Inr b \<Rightarrow>
               (Inr b, v\<lparr>rv_db := audit_insert (own_node w) (Some oid) ''resolution_baseline''
                             (start_audit rid operator sender b) d1,
                         rv_gate := g1,
                         rv_pending := AList.update rid \<lparr>pn_op = oid, pn_statement = statement,
                           pn_operator = operator, pn_baseline = b\<rparr> (rv_pending v)\<rparr>)))"

definition evidence_doc :: "ownership \<Rightarrow> string \<Rightarrow> resolving \<Rightarrow> attestation \<Rightarrow> jobj \<Rightarrow> jobj" where
  "evidence_doc w rid p after extra =
     dmerge [(''resolution_id'', JStr rid), (''operator'', JStr (pn_operator p)),
             (''statement'', JStr (pn_statement p)), (''baseline'', att_doc (pn_baseline p)),
             (''after'', att_doc after), (''resolver_generation'', JInt (own_generation w)),
             (''resolver_boot_id'', JStr (own_boot_id w))] extra"

text \<open>The second answer against the baseline: True keeps the resolution pending after a refusal.\<close>

definition judge_after :: "attestation \<Rightarrow> attestation \<Rightarrow> (refusal \<times> bool) option" where
  "judge_after b after =
     (if at_incarnation after \<noteq> at_incarnation b then Some (WitnessRestarted, False)
      else if at_seq after \<le> at_seq b \<or> at_instance after = at_instance b then Some (NotRestarted after, True)
      else None)"

definition drop_pending :: "string \<Rightarrow> resolver \<Rightarrow> resolver" where
  "drop_pending rid v = v\<lparr>rv_pending := AList.delete rid (rv_pending v)\<rparr>"

definition resolution_complete :: "ownership \<Rightarrow> (nat \<Rightarrow> db \<times> gate \<Rightarrow> db \<times> gate) \<Rightarrow> string \<Rightarrow> jobj \<Rightarrow> int
    \<Rightarrow> fate \<Rightarrow> (refusal + attestation) \<Rightarrow> (db \<Rightarrow> fault + bool) \<Rightarrow> resolver \<Rightarrow> (refusal + gate_state) \<times> resolver" where
  "resolution_complete w rely rid extra now f answer unk v =
     (case map_of (rv_pending v) rid of
        None \<Rightarrow> (Inl (NoSuchResolution rid), v)
      | Some p \<Rightarrow>
          (let (d, g) = rely 0 (rv_db v, rv_gate v); v1 = v\<lparr>rv_db := d, rv_gate := g\<rparr> in
           case answer of
             Inl e \<Rightarrow> (Inl e, v1)
           | Inr after \<Rightarrow>
               (case judge_after (pn_baseline p) after of
                  Some (e, True) \<Rightarrow> (Inl e, v1)
                | Some (e, False) \<Rightarrow> (Inl e, drop_pending rid v1)
                | None \<Rightarrow>
                    (case call_store f (resolve_unknown w (pn_op p) (JObj (evidence_doc w rid p after extra)) now) d of
                       (Inl e, d') \<Rightarrow> (Inl (StoreRaised e), v1\<lparr>rv_db := d'\<rparr>)
                     | (Inr False, d') \<Rightarrow> (Inl (NoLongerUnknown (pn_op p)), drop_pending rid (v1\<lparr>rv_db := d'\<rparr>))
                     | (Inr True, d') \<Rightarrow>
                         (let (d2, g2) = rely 1 (d', g); (r, g3) = reopen (unk d2) g2 in
                          (case r of Inl e \<Rightarrow> Inl (StoreRaised e) | Inr st \<Rightarrow> Inr st,
                           drop_pending rid (v1\<lparr>rv_db := d2, rv_gate := g3\<rparr>)))))))"

section \<open>A reset in one call\<close>

text \<open>
  The retries of \<open>reset\<close>: each attempt of \<open>complete\<close> with its answer, store fate and interference, and
  the clock after a refusal. Only a refusal while the resolution is still pending is retried.
\<close>

record attempt_in =
  ai_rely :: "nat \<Rightarrow> db \<times> gate \<Rightarrow> db \<times> gate"
  ai_now :: int
  ai_fate :: fate
  ai_answer :: "refusal + attestation"
  ai_clock :: int

fun complete_retry :: "ownership \<Rightarrow> string \<Rightarrow> jobj \<Rightarrow> int \<Rightarrow> (db \<Rightarrow> fault + bool) \<Rightarrow> attempt_in list \<Rightarrow> resolver
    \<Rightarrow> (refusal + gate_state) option \<times> resolver" where
  "complete_retry w rid extra deadline unk [] v = (None, v)"
| "complete_retry w rid extra deadline unk (i # is) v =
     (case resolution_complete w (ai_rely i) rid extra (ai_now i) (ai_fate i) (ai_answer i) unk v of
        (Inr st, v1) \<Rightarrow> (Some (Inr st), v1)
      | (Inl (StoreRaised e), v1) \<Rightarrow> (Some (Inl (StoreRaised e)), v1)
      | (Inl e, v1) \<Rightarrow>
          if map_of (rv_pending v1) rid = None \<or> ai_clock i \<ge> deadline
          then (Some (Inl e), drop_pending rid v1)
          else complete_retry w rid extra deadline unk is v1)"

definition resolution_reset :: "ownership \<Rightarrow> (nat \<Rightarrow> db \<times> gate \<Rightarrow> db \<times> gate) \<Rightarrow> string \<Rightarrow> string \<Rightarrow> string \<Rightarrow> string
    \<Rightarrow> (refusal + attestation) \<Rightarrow> (string + jobj) \<Rightarrow> (db \<times> gate \<Rightarrow> db \<times> gate) \<Rightarrow> int
    \<Rightarrow> (db \<Rightarrow> fault + bool) \<Rightarrow> attempt_in list \<Rightarrow> resolver \<Rightarrow> (refusal + gate_state) option \<times> resolver" where
  "resolution_reset w rely rid oid statement operator answer receipt rely' deadline unk attempts v =
     (case resolution_start w rely rid oid statement operator answer v of
        (Inl e, v1) \<Rightarrow> (Some (Inl e), v1)
      | (Inr b, v1) \<Rightarrow>
          (let (d, g) = rely' (rv_db v1, rv_gate v1); v2 = v1\<lparr>rv_db := d, rv_gate := g\<rparr> in
           case receipt of
             Inl m \<Rightarrow> (Some (Inl (SupervisorRefused m)), drop_pending rid v2)
           | Inr doc \<Rightarrow>
               (let v3 = v2\<lparr>rv_db := audit_insert (own_node w) (Some oid) ''resolution_restart''
                                (JObj [(''resolution_id'', JStr rid), (''receipt'', JObj doc)]) d\<rparr> in
                if dget doc ''result'' \<noteq> JStr ''ok'' then (Some (Inl (RestartFailed doc)), drop_pending rid v3)
                else complete_retry w rid [(''supervisor_receipt'', JObj doc)] deadline unk attempts v3)))"

end
