(* ===== verification/Async_Program.thy ===== *)
theory Async_Program
  imports Main
begin

text \<open>
  Asynchronous code as a tree: each call names what is asked (a transaction, a request to another
  process) and continues with its answer. Between two calls everybody else may run. \<open>meets\<close> is the
  rely/guarantee reading of a tree: whatever the others do within the rely, each call is made only in a
  state that satisfies its obligation, and the tree ends as its two postconditions say.
\<close>

section \<open>Trees\<close>

datatype ('q, 'r, 'e, 'a) prog = Ret 'a | Throw 'e | Call 'q "'r \<Rightarrow> ('q, 'r, 'e, 'a) prog"

primrec seq :: "('q, 'r, 'e, 'a) prog \<Rightarrow> ('a \<Rightarrow> ('q, 'r, 'e, 'b) prog) \<Rightarrow> ('q, 'r, 'e, 'b) prog" where
  "seq (Ret x) f = f x"
| "seq (Throw e) f = Throw e"
| "seq (Call q k) f = Call q (\<lambda>r. seq (k r) f)"

text \<open>\<open>try ... except\<close>: what the handler does not catch it throws again.\<close>

primrec handle :: "('q, 'r, 'e, 'a) prog \<Rightarrow> ('e \<Rightarrow> ('q, 'r, 'e, 'a) prog) \<Rightarrow> ('q, 'r, 'e, 'a) prog" where
  "handle (Ret x) h = Ret x"
| "handle (Throw e) h = h e"
| "handle (Call q k) h = Call q (\<lambda>r. handle (k r) h)"

text \<open>\<open>try ... finally\<close>, for a cleanup that does not raise.\<close>

definition finally_do :: "('q, 'r, 'e, 'a) prog \<Rightarrow> 'q \<Rightarrow> ('q, 'r, 'e, 'a) prog" where
  "finally_do p q = seq (handle p (\<lambda>e. Call q (\<lambda>_. Throw e))) (\<lambda>x. Call q (\<lambda>_. Ret x))"

definition of_sum :: "('x \<Rightarrow> 'e) \<Rightarrow> 'x + 'a \<Rightarrow> ('q, 'r, 'e, 'a) prog" where
  "of_sum g x = (case x of Inl e \<Rightarrow> Throw (g e) | Inr a \<Rightarrow> Ret a)"

section \<open>Rely and guarantee\<close>

locale program_rules =
  fixes rely :: "'s \<Rightarrow> 's \<Rightarrow> bool"
    and answers :: "'q \<Rightarrow> 's \<Rightarrow> 'r \<Rightarrow> 's \<Rightarrow> bool"
    and duty :: "'q \<Rightarrow> 's \<Rightarrow> bool"
  assumes rely_refl: "rely s s"
    and rely_trans: "rely s t \<Longrightarrow> rely t u \<Longrightarrow> rely s u"
begin

primrec meets :: "('q, 'r, 'e, 'a) prog \<Rightarrow> ('a \<Rightarrow> 's \<Rightarrow> bool) \<Rightarrow> ('e \<Rightarrow> 's \<Rightarrow> bool) \<Rightarrow> 's \<Rightarrow> bool" where
  "meets (Ret x) Q E s = (\<forall>t. rely s t \<longrightarrow> Q x t)"
| "meets (Throw e) Q E s = (\<forall>t. rely s t \<longrightarrow> E e t)"
| "meets (Call q k) Q E s =
     (\<forall>t. rely s t \<longrightarrow> duty q t \<and> (\<forall>r u. answers q t r u \<longrightarrow> meets (k r) Q E u))"

lemma meets_rely: "meets p Q E s \<Longrightarrow> rely s t \<Longrightarrow> meets p Q E t"
  using rely_trans by (cases p) (simp_all, blast+)

lemma meets_seq:
  "meets m (\<lambda>x. meets (f x) Q E) E s \<Longrightarrow> meets (seq m f) Q E s"
proof (induction m arbitrary: s)
  case (Ret x)
  then show ?case using rely_refl by simp
qed auto

lemma meets_handle:
  "meets m Q (\<lambda>e. meets (h e) Q E) s \<Longrightarrow> meets (handle m h) Q E s"
proof (induction m arbitrary: s)
  case (Throw e)
  then show ?case using rely_refl by simp
qed auto

lemma meets_conseq:
  assumes "meets p Q E s" "\<And>x t. Q x t \<Longrightarrow> Q' x t" "\<And>e t. E e t \<Longrightarrow> E' e t"
  shows "meets p Q' E' s"
  using assms(1) by (induction p arbitrary: s) (auto intro: assms(2,3))

end

section \<open>A bound shared by two programs\<close>

text \<open>The repair rounds after the first, of the reconciler's pass and of a maintenance restore.\<close>

definition MAX_REPAIR_ROUNDS :: nat where
  "MAX_REPAIR_ROUNDS = 2"

end
