(* ===== verification/Program_Runs.thy ===== *)
theory Program_Runs
  imports Prelude Async_Program
begin

text \<open>
  A program tree against a list of answers: \<open>run\<close> returns the calls made with what each was answered, and
  how the program stands when the answers are used up. The interpretation \<open>traced\<close> of the program rules
  reads the history of calls as the state, so that an obligation of a call may speak of every call before
  it; nobody else writes the history, so the rely is equality.
\<close>

section \<open>Runs\<close>

datatype ('q, 'e, 'a) ending = Returned 'a | Raised 'e | Waiting 'q

primrec run :: "('q, 'r, 'e, 'a) prog \<Rightarrow> 'r list \<Rightarrow> ('q \<times> 'r) list \<times> ('q, 'e, 'a) ending" where
  "run (Ret x) = (\<lambda>rs. ([], Returned x))"
| "run (Throw e) = (\<lambda>rs. ([], Raised e))"
| "run (Call q k) = (\<lambda>rs. case rs of
     [] \<Rightarrow> ([], Waiting q)
   | r # rs' \<Rightarrow> (let (h, out) = (run \<circ> k) r rs' in ((q, r) # h, out)))"

lemma run_Call_Nil [simp]: "run (Call q k) [] = ([], Waiting q)"
  by simp

lemma run_Call_Cons [simp]:
  "run (Call q k) (r # rs) = ((q, r) # fst (run (k r) rs), snd (run (k r) rs))"
  by (simp add: case_prod_beta)

lemmas run_Call [simp del] = run.simps(3)

section \<open>Histories\<close>

definition appended :: "('q \<Rightarrow> 'r \<Rightarrow> bool) \<Rightarrow> 'q \<Rightarrow> ('q \<times> 'r) list \<Rightarrow> 'r \<Rightarrow> ('q \<times> 'r) list \<Rightarrow> bool" where
  "appended ok q h r u \<longleftrightarrow> ok q r \<and> u = h @ [(q, r)]"

interpretation traced: program_rules "(=)" "appended ok" duty
  for ok :: "'q \<Rightarrow> 'r \<Rightarrow> bool" and duty :: "'q \<Rightarrow> ('q \<times> 'r) list \<Rightarrow> bool"
  by unfold_locales simp_all

lemma traced_Ret [simp]: "traced.meets ok duty (Ret x) Q E = Q x"
  by (rule ext) (simp add: traced.meets.simps)

lemma traced_Throw [simp]: "traced.meets ok duty (Throw e) Q E = E e"
  by (rule ext) (simp add: traced.meets.simps)

lemma traced_Call [simp]:
  "traced.meets ok duty (Call q k) Q E
     = (\<lambda>h. duty q h \<and> (\<forall>r. ok q r \<longrightarrow> traced.meets ok duty (k r) Q E (h @ [(q, r)])))"
  by (rule ext) (simp add: traced.meets.simps appended_def)

lemma traced_seq [simp]:
  "traced.meets ok duty (seq m f) Q E = traced.meets ok duty m (\<lambda>x. traced.meets ok duty (f x) Q E) E"
proof (rule ext)
  fix h
  show "traced.meets ok duty (seq m f) Q E h = traced.meets ok duty m (\<lambda>x. traced.meets ok duty (f x) Q E) E h"
    by (induction m arbitrary: h) simp_all
qed

lemma traced_handle [simp]:
  "traced.meets ok duty (handle m g) Q E = traced.meets ok duty m Q (\<lambda>e. traced.meets ok duty (g e) Q E)"
proof (rule ext)
  fix h
  show "traced.meets ok duty (handle m g) Q E h = traced.meets ok duty m Q (\<lambda>e. traced.meets ok duty (g e) Q E) h"
    by (induction m arbitrary: h) simp_all
qed

lemma case_prod_const [simp]: "(\<lambda>(x, y). c) = (\<lambda>_. c)"
  by (simp add: case_prod_unfold)

declare traced.meets.simps [simp del]

lemma traced_duty:
  "traced.meets ok D p Q E h \<Longrightarrow> (\<And>q h. D q h \<Longrightarrow> D' q h) \<Longrightarrow> traced.meets ok D' p Q E h"
  by (induction p arbitrary: h) simp_all

lemma traced_both:
  "traced.meets ok (\<lambda>_ _. True) p Q (\<lambda>_ _. True) h \<Longrightarrow> traced.meets ok D p (\<lambda>_ _. True) (\<lambda>_ _. True) h
   \<Longrightarrow> traced.meets ok D p Q (\<lambda>_ _. True) h"
  by (induction p arbitrary: h) simp_all

lemma traced_conj:
  "traced.meets ok D p Q E h \<Longrightarrow> traced.meets ok (\<lambda>_ _. True) p Q' E' h
   \<Longrightarrow> traced.meets ok D p (\<lambda>x h. Q x h \<and> Q' x h) (\<lambda>e h. E e h \<and> E' e h) h"
  by (induction p arbitrary: h) simp_all

lemma traced_grows:
  "traced.meets ok (\<lambda>_ _. True) p (\<lambda>_ h'. set h \<subseteq> set h') (\<lambda>_ h'. set h \<subseteq> set h') h"
proof (induction p arbitrary: h)
  case (Call q k)
  have "traced.meets ok (\<lambda>_ _. True) (k r) (\<lambda>_ h'. set h \<subseteq> set h') (\<lambda>_ h'. set h \<subseteq> set h') (h @ [(q, r)])" for r
    by (rule traced.meets_conseq [OF Call.IH]) auto
  then show ?case by simp
qed simp_all

lemma meets_finally:
  "traced.meets ok D (finally_do p q) Q E h \<longleftrightarrow>
     traced.meets ok D p (\<lambda>x h. D q h \<and> (\<forall>r. ok q r \<longrightarrow> Q x (h @ [(q, r)])))
       (\<lambda>e h. D q h \<and> (\<forall>r. ok q r \<longrightarrow> E e (h @ [(q, r)]))) h"
  by (simp add: finally_do_def)

text \<open>What the rules prove of a tree holds of each of its runs.\<close>

definition ends_as :: "('q, 'e, 'a) ending \<Rightarrow> ('a \<Rightarrow> bool) \<Rightarrow> ('e \<Rightarrow> bool) \<Rightarrow> ('q \<Rightarrow> bool) \<Rightarrow> bool" where
  "ends_as out Q E W = (case out of Returned x \<Rightarrow> Q x | Raised e \<Rightarrow> E e | Waiting q \<Rightarrow> W q)"

lemma ends_as_simps [simp]:
  "ends_as (Returned x) Q E W = Q x" "ends_as (Raised e) Q E W = E e" "ends_as (Waiting q) Q E W = W q"
  by (simp_all add: ends_as_def)

lemma traced_run:
  assumes "traced.meets ok duty p Q E h0" "\<forall>(q, r) \<in> set (fst (run p rs)). ok q r"
  shows "(\<forall>k < length (fst (run p rs)). duty (fst (fst (run p rs) ! k)) (h0 @ take k (fst (run p rs))))
     \<and> ends_as (snd (run p rs)) (\<lambda>x. Q x (h0 @ fst (run p rs))) (\<lambda>e. E e (h0 @ fst (run p rs)))
         (\<lambda>q. duty q (h0 @ fst (run p rs)))"
  using assms
proof (induction p arbitrary: rs h0)
  case (Call q k)
  show ?case
  proof (cases rs)
    case Nil
    then show ?thesis using Call.prems(1) by simp
  next
    case (Cons r rs')
    let ?h = "fst (run (k r) rs')"
    have ok: "ok q r" "\<forall>(q, r) \<in> set ?h. ok q r" using Call.prems(2) Cons by simp_all
    then have "traced.meets ok duty (k r) Q E (h0 @ [(q, r)])" using Call.prems(1) by simp
    from Call.IH [OF rangeI this ok(2)]
    have IH: "\<forall>j < length ?h. duty (fst (?h ! j)) (h0 @ (q, r) # take j ?h)"
      and out: "ends_as (snd (run (k r) rs')) (\<lambda>x. Q x (h0 @ (q, r) # ?h)) (\<lambda>e. E e (h0 @ (q, r) # ?h))
          (\<lambda>q'. duty q' (h0 @ (q, r) # ?h))" by simp_all
    have "duty (fst (((q, r) # ?h) ! j)) (h0 @ take j ((q, r) # ?h))" if "j < length ((q, r) # ?h)" for j
      using that IH Call.prems(1) by (cases j) simp_all
    then show ?thesis using out Cons by simp
  qed
qed simp_all

lemma run_duty:
  assumes "run p rs = (h, out)" "k < length h"
    and "traced.meets ok duty p Q E []" "\<forall>(q, r) \<in> set h. ok q r"
  shows "duty (fst (h ! k)) (take k h)"
  using traced_run [of ok duty p Q E "[]" rs] assms by fastforce

lemma run_returned:
  assumes "run p rs = (h, Returned x)" "traced.meets ok duty p Q E []" "\<forall>(q, r) \<in> set h. ok q r"
  shows "Q x h"
  using traced_run [of ok duty p Q E "[]" rs] assms by simp

section \<open>What a program may ask at all\<close>

primrec asks :: "('q \<Rightarrow> bool) \<Rightarrow> ('q, 'r, 'e, 'a) prog \<Rightarrow> bool" where
  "asks f (Ret x) = True"
| "asks f (Throw e) = True"
| "asks f (Call q k) = (f q \<and> (\<forall>r. asks f (k r)))"

lemma asks_seq [intro]: "asks f m \<Longrightarrow> (\<And>x. asks f (g x)) \<Longrightarrow> asks f (seq m g)"
  by (induction m) auto

lemma asks_handle [intro]: "asks f m \<Longrightarrow> (\<And>e. asks f (g e)) \<Longrightarrow> asks f (handle m g)"
  by (induction m) auto

lemma asks_finally: "asks f p \<Longrightarrow> f q \<Longrightarrow> asks f (finally_do p q)"
  unfolding finally_do_def by (rule asks_seq, rule asks_handle) simp_all

lemma asks_mono: "asks f p \<Longrightarrow> (\<And>q. f q \<Longrightarrow> g q) \<Longrightarrow> asks g p"
  by (induction p) auto

lemma asks_meets:
  assumes "asks f p" "\<And>q h. f q \<Longrightarrow> duty q h"
  shows "traced.meets ok duty p (\<lambda>_ _. True) (\<lambda>_ _. True) h"
  using assms(1) by (induction p arbitrary: h) (auto simp: assms(2))

text \<open>A history only grows.\<close>

lemma asks_grows:
  assumes "asks f p" "\<And>q h. f q \<Longrightarrow> duty q h"
  shows "traced.meets ok duty p (\<lambda>_ h'. set h \<subseteq> set h') (\<lambda>_ _. True) h"
  using assms(1)
proof (induction p arbitrary: h)
  case (Call q k)
  have "traced.meets ok duty (k r) (\<lambda>_ h'. set h \<subseteq> set h') (\<lambda>_ _. True) (h @ [(q, r)])" for r
    by (rule traced.meets_conseq [OF Call.IH]) (use Call.prems in auto)
  then show ?case using Call.prems by (simp add: assms(2))
qed simp_all

lemma asks_keeps:
  assumes "asks f p" "I h" "\<And>q r h. f q \<Longrightarrow> I h \<Longrightarrow> I (h @ [(q, r)])"
  shows "traced.meets ok (\<lambda>_ _. True) p (\<lambda>_. I) (\<lambda>_ _. True) h"
  using assms(1,2)
proof (induction p arbitrary: h)
  case (Call q k)
  then have "I (h @ [(q, r)])" for r by (intro assms(3)) simp_all
  then show ?case using Call by simp
qed simp_all

lemma asks_run:
  assumes "asks f p" "run p rs = (h, out)"
  shows "\<forall>(q, r) \<in> set h. f q"
proof -
  from assms(1) have "traced.meets (\<lambda>_ _. True) (\<lambda>q _. f q) p (\<lambda>_ _. True) (\<lambda>_ _. True) []"
    by (rule asks_meets) simp
  from run_duty [OF assms(2) _ this] show ?thesis
    by (fastforce simp: in_set_conv_nth)
qed

end
