(* ===== verification/Maintenance_Reset.thy ===== *)
theory Maintenance_Reset
  imports Resolution Program_Runs
begin

text \<open>
  \<open>Resolutions.maintenance_reset\<close> of \<open>src/backend/app/node_agent/resolution.py\<close>: the runtime restarted
  empty for a maintenance entry, resumable under the caller's \<open>reset_id\<close>. The method is a tree of the calls it
  makes, each awaited call and each reading of the gate, of the clock and of the supervisor's receipt; between any
  two others may change the database and the gate. \<open>play\<close> runs it against them. The retries of the second
  challenge are bounded by fuel, beyond which the tree raises; what is shown holds for every bound.
\<close>

section \<open>Calls\<close>

datatype reset_call =
    RAudited string string        \<comment> \<open>event and \<open>reset_id\<close>\<close>
  | RReceipt string
  | RUnknown | RAdmittedOps | RAdmitted | RFrozenEpoch | RHold
  | RAttest
  | RRun string string            \<comment> \<open>\<open>supervisor.run("restart", reason, request_id)\<close>\<close>
  | RClock | RSleep
  | RObserve string | RHolds string
  | RResolve string json
  | RAudit string json

datatype reset_answer =
    RJson "jobj option" | ROps "string list" | RAtt "refusal + attestation" | RHoldIs bool "int option"
  | RRan "string + jobj" | RTime int | RDone | REpoch "int option" | ROp "operation option" | RBool bool | RNat nat
  | RFails fault

type_synonym 'a resetting = "(reset_call, reset_answer, refusal, 'a) prog"

type_synonym reset_history = "(reset_call \<times> reset_answer) list"

definition failed :: "reset_answer \<Rightarrow> 'a resetting" where
  "failed r = Throw (case r of RFails e \<Rightarrow> StoreRaised e | _ \<Rightarrow> Malformed ''TypeError'')"

definition ask_json :: "reset_call \<Rightarrow> jobj option resetting" where
  "ask_json q = Call q (\<lambda>r. case r of RJson x \<Rightarrow> Ret x | _ \<Rightarrow> failed r)"

definition ask_ops :: "reset_call \<Rightarrow> string list resetting" where
  "ask_ops q = Call q (\<lambda>r. case r of ROps x \<Rightarrow> Ret x | _ \<Rightarrow> failed r)"

definition ask_witness :: "(refusal + attestation) resetting" where
  "ask_witness = Call RAttest (\<lambda>r. case r of RAtt x \<Rightarrow> Ret x | _ \<Rightarrow> failed r)"

definition ask_hold :: "(bool \<times> int option) resetting" where
  "ask_hold = Call RHold (\<lambda>r. case r of RHoldIs shut e \<Rightarrow> Ret (shut, e) | _ \<Rightarrow> failed r)"

definition ask_epoch :: "int option resetting" where
  "ask_epoch = Call RFrozenEpoch (\<lambda>r. case r of REpoch e \<Rightarrow> Ret e | _ \<Rightarrow> failed r)"

definition ask_run :: "string \<Rightarrow> string \<Rightarrow> jobj resetting" where
  "ask_run why rid = Call (RRun why rid) (\<lambda>r. case r of
     RRan (Inr receipt) \<Rightarrow> Ret receipt | RRan (Inl m) \<Rightarrow> Throw (SupervisorRefused m) | _ \<Rightarrow> failed r)"

definition ask_time :: "int resetting" where
  "ask_time = Call RClock (\<lambda>r. case r of RTime t \<Rightarrow> Ret t | _ \<Rightarrow> failed r)"

definition ask_operation :: "string \<Rightarrow> operation option resetting" where
  "ask_operation oid = Call (RObserve oid) (\<lambda>r. case r of ROp x \<Rightarrow> Ret x | _ \<Rightarrow> failed r)"

definition ask_bool :: "reset_call \<Rightarrow> bool resetting" where
  "ask_bool q = Call q (\<lambda>r. case r of RBool b \<Rightarrow> Ret b | _ \<Rightarrow> failed r)"

definition ask_count :: "nat resetting" where
  "ask_count = Call RAdmitted (\<lambda>r. case r of RNat n \<Rightarrow> Ret n | _ \<Rightarrow> failed r)"

definition do_call :: "reset_call \<Rightarrow> unit resetting" where
  "do_call q = Call q (\<lambda>r. case r of RDone \<Rightarrow> Ret () | _ \<Rightarrow> failed r)"

section \<open>The second answer\<close>

text \<open>\<open>Attestation(**recorded["baseline"])\<close>; None is its TypeError.\<close>

definition att_of_doc :: "json \<Rightarrow> attestation option" where
  "att_of_doc j = (case j of
     JObj d \<Rightarrow>
       (case (dget d ''nonce'', dget d ''incarnation'', dget d ''seq'', dget d ''pid'', dget d ''start_time'', dget d ''endpoint'') of
          (JStr n, JStr i, JInt q, JInt p, JStr s, JStr e) \<Rightarrow>
            Some \<lparr>at_nonce = n, at_incarnation = i, at_seq = q, at_pid = p, at_start = s, at_endpoint = e\<rparr>
        | _ \<Rightarrow> None)
   | _ \<Rightarrow> None)"

lemma att_roundtrip [simp]: "att_of_doc (att_doc a) = Some a"
  by (simp add: att_of_doc_def att_doc_def)

text \<open>One answer: the reason to ask again, or the verdict.\<close>

definition after_verdict :: "(refusal \<Rightarrow> string) \<Rightarrow> attestation \<Rightarrow> refusal + attestation
    \<Rightarrow> string + attestation option \<times> string option" where
  "after_verdict text_of b answer = (case answer of
     Inl e \<Rightarrow> Inl (text_of e)
   | Inr a \<Rightarrow>
       if at_incarnation a \<noteq> at_incarnation b then Inr (None, Some ''the witness restarted since the baseline'')
       else if at_seq a > at_seq b \<and> at_instance a \<noteq> at_instance b then Inr (Some a, None)
       else Inl (text_of (NotRestarted a)))"

primrec after_wait :: "nat \<Rightarrow> (refusal \<Rightarrow> string) \<Rightarrow> attestation \<Rightarrow> int \<Rightarrow> (attestation option \<times> string option) resetting" where
  "after_wait 0 text_of b deadline = Throw (Malformed ''AttemptsBeyond'')"
| "after_wait (Suc n) text_of b deadline = seq ask_witness (\<lambda>answer.
     case after_verdict text_of b answer of
       Inr v \<Rightarrow> Ret v
     | Inl why \<Rightarrow> seq ask_time (\<lambda>t.
         if t \<ge> deadline then Ret (None, Some why)
         else seq (do_call RSleep) (\<lambda>_. after_wait n text_of b deadline)))"

definition after_answer :: "nat \<Rightarrow> (refusal \<Rightarrow> string) \<Rightarrow> attestation \<Rightarrow> int \<Rightarrow> (attestation option \<times> string option) resetting" where
  "after_answer fuel text_of b settle = seq ask_time (\<lambda>t. after_wait fuel text_of b (t + settle))"

section \<open>The phases\<close>

text \<open>What the reset is told: \<open>rq_text\<close> is the message of a refusal, \<open>rq_settle\<close> the wait for the second answer.\<close>

record reset_request =
  rq_epoch :: int
  rq_id :: string
  rq_operator :: string
  rq_settle :: int
  rq_text :: "refusal \<Rightarrow> string"

record phase =
  ph_baseline :: "attestation option"
  ph_note :: "string option"
  ph_cohort :: "string list"

definition baseline_audit :: "reset_request \<Rightarrow> attestation \<Rightarrow> string list \<Rightarrow> json" where
  "baseline_audit rq b cohort =
     JObj [(''reset_id'', JStr (rq_id rq)), (''epoch'', JInt (rq_epoch rq)), (''operator'', JStr (rq_operator rq)),
           (''baseline'', att_doc b), (''cohort'', JList (map JStr cohort))]"

definition cohort_of :: "string list \<Rightarrow> string list \<Rightarrow> string list" where
  "cohort_of unknown admitted = sort_by str_le (remdups (unknown @ admitted))"

definition recorded_cohort :: "jobj \<Rightarrow> string list" where
  "recorded_cohort d = (case dget d ''cohort'' of JList xs \<Rightarrow> map py_str xs | _ \<Rightarrow> [])"

text \<open>The baseline recorded before, given up for a restart nobody witnessed, or taken now.\<close>

definition baseline_taken :: "reset_request \<Rightarrow> phase resetting" where
  "baseline_taken rq =
     seq (ask_ops RUnknown) (\<lambda>unknown.
     seq (ask_ops RAdmittedOps) (\<lambda>admitted.
     seq ask_witness (\<lambda>answer. case answer of
       Inl e \<Rightarrow> Ret \<lparr>ph_baseline = None, ph_note = Some (rq_text rq e), ph_cohort = cohort_of unknown admitted\<rparr>
     | Inr b \<Rightarrow>
         seq (do_call (RAudit ''maintenance_reset_baseline'' (baseline_audit rq b (cohort_of unknown admitted)))) (\<lambda>_.
           Ret \<lparr>ph_baseline = Some b, ph_note = None, ph_cohort = cohort_of unknown admitted\<rparr>))))"

definition baseline_phase :: "reset_request \<Rightarrow> phase resetting" where
  "baseline_phase rq =
     seq (ask_json (RAudited ''maintenance_reset_baseline'' (rq_id rq))) (\<lambda>recorded. case recorded of
       Some rec \<Rightarrow>
         (case att_of_doc (dget rec ''baseline'') of
            None \<Rightarrow> Throw (Malformed ''TypeError'')
          | Some b \<Rightarrow> Ret \<lparr>ph_baseline = Some b, ph_note = None, ph_cohort = recorded_cohort rec\<rparr>)
     | None \<Rightarrow>
         seq (ask_json (RReceipt (rq_id rq))) (\<lambda>receipt.
           if receipt \<noteq> None
           then Ret \<lparr>ph_baseline = None,
                     ph_note = Some ''the runtime restarted before a witness baseline was recorded'', ph_cohort = []\<rparr>
           else baseline_taken rq))"

text \<open>The restart, unless the hold was lifted and the supervisor has not restarted yet.\<close>

definition restart_reason :: "reset_request \<Rightarrow> string" where
  "restart_reason rq = rq_operator rq @ '': maintenance epoch '' @ show_int (rq_epoch rq)"

definition restart_run :: "reset_request \<Rightarrow> jobj resetting" where
  "restart_run rq =
     seq (ask_run (restart_reason rq) (rq_id rq)) (\<lambda>receipt.
     seq (do_call (RAudit ''maintenance_reset_receipt''
            (JObj [(''reset_id'', JStr (rq_id rq)), (''receipt'', JObj receipt)]))) (\<lambda>_.
       if dget receipt ''result'' \<noteq> JStr ''ok'' then Throw (ResetFailed receipt) else Ret receipt))"

definition restart_phase :: "reset_request \<Rightarrow> jobj resetting" where
  "restart_phase rq =
     seq (ask_json (RReceipt (rq_id rq))) (\<lambda>receipt.
       if receipt = None
       then seq ask_hold (\<lambda>(shut, current).
              if \<not> shut \<or> current \<noteq> Some (rq_epoch rq) then Throw (HoldNotClosed (rq_epoch rq)) else restart_run rq)
       else restart_run rq)"

definition reset_evidence :: "ownership \<Rightarrow> reset_request \<Rightarrow> attestation \<Rightarrow> attestation \<Rightarrow> jobj \<Rightarrow> operation \<Rightarrow> json" where
  "reset_evidence w rq b after receipt r =
     JObj [(''reset_id'', JStr (rq_id rq)), (''maintenance_epoch'', JInt (rq_epoch rq)), (''operator'', JStr (rq_operator rq)),
           (''sender'', JStr (sender_gone w r)), (''baseline'', att_doc b), (''after'', att_doc after),
           (''supervisor_receipt'', JObj receipt), (''resolver_generation'', JInt (own_generation w)),
           (''resolver_boot_id'', JStr (own_boot_id w))]"

text \<open>The cohort's operations that are still unknown, one by one; the answer lists those whose write was accepted.\<close>

primrec resolve_each :: "(operation \<Rightarrow> json) \<Rightarrow> string list \<Rightarrow> string list resetting" where
  "resolve_each ev [] = Ret []"
| "resolve_each ev (oid # ops) =
     seq (ask_operation oid) (\<lambda>found. case found of
       None \<Rightarrow> resolve_each ev ops
     | Some r \<Rightarrow>
         seq (ask_bool (RHolds oid)) (\<lambda>held.
           if held then resolve_each ev ops
           else seq (ask_bool (RResolve oid (ev r))) (\<lambda>hit.
                seq (resolve_each ev ops) (\<lambda>rs. Ret (if hit then oid # rs else rs)))))"

text \<open>The second answer and the hold read again after it.\<close>

definition witnessed :: "nat \<Rightarrow> reset_request \<Rightarrow> phase \<Rightarrow> (attestation option \<times> string option) resetting" where
  "witnessed fuel rq ph =
     seq (case ph_baseline ph of None \<Rightarrow> Ret (None, ph_note ph)
          | Some b \<Rightarrow> after_answer fuel (rq_text rq) b (rq_settle rq)) (\<lambda>v. case fst v of
       None \<Rightarrow> Ret v
     | Some after \<Rightarrow>
         seq ask_hold (\<lambda>(shut, current).
           if \<not> shut \<or> current \<noteq> Some (rq_epoch rq) then Ret (None, Some ''the hold was lifted during the reset'')
           else seq ask_epoch (\<lambda>frozen.
             if frozen \<noteq> Some (rq_epoch rq) then Ret (None, Some ''the hold was lifted during the reset'') else Ret v)))"

definition resolve_phase :: "ownership \<Rightarrow> reset_request \<Rightarrow> phase \<Rightarrow> jobj \<Rightarrow> attestation option \<Rightarrow> string list resetting" where
  "resolve_phase w rq ph receipt found = (case (ph_baseline ph, found) of
     (Some b, Some after) \<Rightarrow>
       seq (ask_ops RUnknown) (\<lambda>unknown.
         resolve_each (reset_evidence w rq b after receipt) (filter (\<lambda>oid. oid \<in> set unknown) (ph_cohort ph)))
   | _ \<Rightarrow> Ret [])"

definition opt_att :: "attestation option \<Rightarrow> json" where
  "opt_att a = (case a of None \<Rightarrow> JNull | Some x \<Rightarrow> att_doc x)"

definition maintenance_report :: "reset_request \<Rightarrow> jobj \<Rightarrow> attestation option \<Rightarrow> attestation option \<Rightarrow> string option
    \<Rightarrow> string list \<Rightarrow> string list \<Rightarrow> nat \<Rightarrow> jobj" where
  "maintenance_report rq receipt b after why resolved remaining settling =
     [(''reset_id'', JStr (rq_id rq)), (''epoch'', JInt (rq_epoch rq)), (''operator'', JStr (rq_operator rq)),
      (''supervisor_receipt'', JObj receipt), (''baseline'', opt_att b), (''after'', opt_att after),
      (''resolved'', JList (map JStr resolved)), (''remaining_unknown'', JList (map JStr remaining)),
      (''settling'', JInt (int settling)),
      (''accounting'', JStr (if remaining = [] \<and> settling = 0 then ''resolved'' else ''unresolved'')),
      (''accounting_error'', if remaining \<noteq> [] \<or> settling \<noteq> 0 then jopt_str why else JNull)]"

definition account_phase :: "ownership \<Rightarrow> nat \<Rightarrow> reset_request \<Rightarrow> phase \<Rightarrow> jobj \<Rightarrow> jobj resetting" where
  "account_phase w fuel rq ph receipt =
     seq (witnessed fuel rq ph) (\<lambda>(found, why).
     seq (resolve_phase w rq ph receipt found) (\<lambda>resolved.
     seq (ask_ops RUnknown) (\<lambda>remaining.
     seq ask_count (\<lambda>settling.
       let report = maintenance_report rq receipt (ph_baseline ph) found why resolved remaining settling in
       seq (do_call (RAudit ''maintenance_reset_done'' (JObj report))) (\<lambda>_. Ret report)))))"

definition maintenance_reset :: "ownership \<Rightarrow> nat \<Rightarrow> reset_request \<Rightarrow> jobj resetting" where
  "maintenance_reset w fuel rq =
     seq (ask_json (RAudited ''maintenance_reset_done'' (rq_id rq))) (\<lambda>earlier. case earlier of
       Some report \<Rightarrow> Ret report
     | None \<Rightarrow>
         seq (baseline_phase rq) (\<lambda>ph.
         seq (restart_phase rq) (\<lambda>receipt.
           account_phase w fuel rq ph receipt)))"

section \<open>Against the database\<close>

text \<open>
  What a call meets: what the others did to the database and the gate before it, how its transaction ends, and
  what the witness, the supervisor and the clock answer.
\<close>

record world_in =
  wi_rely :: "db \<times> gate \<Rightarrow> db \<times> gate"
  wi_fate :: fate
  wi_receipt :: "jobj option"
  wi_attest :: "refusal + attestation"
  wi_run :: "string + jobj"
  wi_clock :: int
  wi_now :: int

definition stored :: "fault + 'a \<Rightarrow> ('a \<Rightarrow> reset_answer) \<Rightarrow> reset_answer" where
  "stored x f = (case x of Inl e \<Rightarrow> RFails e | Inr a \<Rightarrow> f a)"

definition reads :: "world_in \<Rightarrow> db \<times> gate \<Rightarrow> 'a \<Rightarrow> ('a \<Rightarrow> reset_answer) \<Rightarrow> reset_answer \<times> (db \<times> gate)" where
  "reads i s x f = (stored (read_store (wi_fate i) x) f, s)"

definition writes :: "world_in \<Rightarrow> db \<times> gate \<Rightarrow> 'a txn \<Rightarrow> ('a \<Rightarrow> reset_answer) \<Rightarrow> reset_answer \<times> (db \<times> gate)" where
  "writes i s t f = (case call_store (wi_fate i) t (fst s) of (x, d) \<Rightarrow> (stored x f, (d, snd s)))"

definition served :: "ownership \<Rightarrow> world_in \<Rightarrow> reset_call \<Rightarrow> db \<times> gate \<Rightarrow> reset_answer \<times> (db \<times> gate)" where
  "served w i q s = (case q of
     RAudited ev rid \<Rightarrow> reads i s (audited (own_node w) ev rid (fst s)) RJson
   | RReceipt rid \<Rightarrow> (RJson (wi_receipt i), s)
   | RUnknown \<Rightarrow> reads i s (unknown_ops (own_node w) (fst s)) ROps
   | RAdmittedOps \<Rightarrow> (ROps (g_admitted (snd s)), s)
   | RAdmitted \<Rightarrow> (RNat (length (g_admitted (snd s))), s)
   | RFrozenEpoch \<Rightarrow> (REpoch (g_frozen_epoch (snd s)), s)
   | RHold \<Rightarrow> reads i s (maintenance_hold (fst s)) (\<lambda>(shut, e). RHoldIs shut e)
   | RAttest \<Rightarrow> (RAtt (wi_attest i), s)
   | RRun why rid \<Rightarrow> (RRan (wi_run i), s)
   | RClock \<Rightarrow> (RTime (wi_clock i), s)
   | RSleep \<Rightarrow> (RDone, s)
   | RObserve oid \<Rightarrow> reads i s (observe (own_node w) oid (fst s)) ROp
   | RHolds oid \<Rightarrow> (RBool (holds oid (snd s)), s)
   | RResolve oid ev \<Rightarrow> writes i s (resolve_unknown w oid ev (wi_now i)) RBool
   | RAudit event detail \<Rightarrow> writes i s (\<lambda>d. (Inr (), audit_insert (own_node w) None event detail d)) (\<lambda>_. RDone))"

text \<open>The calls of a run, each with the state it met, its answer and the state it left.\<close>

type_synonym met = "reset_call \<times> (db \<times> gate) \<times> reset_answer \<times> (db \<times> gate)"

primrec play :: "ownership \<Rightarrow> 'a resetting \<Rightarrow> world_in list \<Rightarrow> db \<times> gate \<Rightarrow> met list \<times> (reset_call, refusal, 'a) ending" where
  "play w (Ret x) = (\<lambda>is s. ([], Returned x))"
| "play w (Throw e) = (\<lambda>is s. ([], Raised e))"
| "play w (Call q k) = (\<lambda>is s. case is of
     [] \<Rightarrow> ([], Waiting q)
   | i # is' \<Rightarrow>
       (let b = wi_rely i s; (r, a) = served w i q b; (h, out) = (play w \<circ> k) r is' a in ((q, b, r, a) # h, out)))"

definition heard :: "met list \<Rightarrow> reset_history" where
  "heard h = map (\<lambda>(q, b, r, a). (q, r)) h"

lemma play_run: "play w p ws s = (h, out) \<Longrightarrow> \<exists>rs. run p rs = (heard h, out)"
proof (induction p arbitrary: ws s h out)
  case (Call q k)
  show ?case
  proof (cases ws)
    case Nil
    then show ?thesis using Call.prems by (intro exI [of _ "[]"]) (simp add: heard_def)
  next
    case (Cons i ws')
    obtain r a where r: "served w i q (wi_rely i s) = (r, a)" by (metis surj_pair)
    obtain h' out' where h': "play w (k r) ws' a = (h', out')" by (metis surj_pair)
    from Call.IH [OF rangeI h'] obtain rs where "run (k r) rs = (heard h', out')" ..
    then show ?thesis
      using Call.prems by (intro exI [of _ "r # rs"]) (auto simp: Cons r h' heard_def Let_def)
  qed
qed (auto simp: heard_def)

text \<open>Of the calls of a reset only \<open>RResolve\<close> changes an operation, and it changes the row it names.\<close>

lemma owned_operations:
  assumes "\<And>d. operations (snd (body d)) = f (operations d)"
  shows "operations (snd (owned w act oid body d)) \<in> {operations d, f (operations d)}"
  using assms [of d] by (auto simp: owned_def audit_insert_def split: option.splits prod.splits sum.splits)

lemma resolve_operations:
  "operations (snd (resolve_unknown w oid ev now d))
     \<in> {operations d, upd_where (resolve_where w oid) (resolve_set ev now) (operations d)}"
  unfolding resolve_unknown_def by (rule owned_operations) (simp add: Let_def audit_insert_def)

lemma writes_operations:
  "operations (fst (snd (writes i s t f))) \<in> {operations (fst s), operations (snd (t (fst s)))}"
  by (auto simp: writes_def call_store_def split: fate.splits prod.splits sum.splits)

lemma served_operations:
  assumes "served w i q s = (r, a)" and "operations (fst a) \<noteq> operations (fst s)"
  shows "\<exists>oid ev. q = RResolve oid ev
    \<and> operations (fst a) = upd_where (resolve_where w oid) (resolve_set ev (wi_now i)) (operations (fst s))"
proof -
  have a: "a = snd (served w i q s)" using assms(1) by simp
  show ?thesis
  proof (cases q)
    case (RResolve oid ev)
    then show ?thesis
      using assms(2) writes_operations [of i s "resolve_unknown w oid ev (wi_now i)" RBool]
        resolve_operations [of w oid ev "wi_now i" "fst s"]
      by (auto simp: a served_def)
  next
    case (RAudit event detail)
    then show ?thesis
      using assms(2) writes_operations [of i s "\<lambda>d. (Inr (), audit_insert (own_node w) None event detail d)" "\<lambda>_. RDone"]
      by (auto simp: a served_def audit_insert_def)
  qed (use assms(2) in \<open>simp_all add: a served_def reads_def\<close>)
qed

lemma play_served:
  "play w p ws s = (h, out) \<Longrightarrow> k < length h \<Longrightarrow> h ! k = (q, b, r, a) \<Longrightarrow> \<exists>i. served w i q b = (r, a)"
proof (induction p arbitrary: ws s h k out)
  case (Call q' f)
  then obtain i ws' where ws: "ws = i # ws'" by (cases ws) auto
  obtain r' a' where r: "served w i q' (wi_rely i s) = (r', a')" by (metis surj_pair)
  obtain h' out' where h': "play w (f r') ws' a' = (h', out')" by (metis surj_pair)
  have h: "h = (q', wi_rely i s, r', a') # h'" using Call.prems(1) by (simp add: ws r h')
  show ?case
  proof (cases k)
    case 0
    then show ?thesis using Call.prems(3) r by (auto simp: h)
  next
    case (Suc m)
    then show ?thesis using Call.IH [OF rangeI h'] Call.prems by (simp add: h)
  qed
qed auto

section \<open>The evidence\<close>

abbreviation upto :: "(reset_call \<Rightarrow> reset_history \<Rightarrow> bool) \<Rightarrow> ('a \<Rightarrow> reset_history \<Rightarrow> bool) \<Rightarrow> 'a resetting \<Rightarrow> reset_history \<Rightarrow> bool" where
  "upto D Q p h \<equiv> traced.meets (\<lambda>_ _. True) D p Q (\<lambda>_ _. True) h"

lemma upto_failed: "upto D Q (failed r) h"
  by (simp add: failed_def)

lemma upto_calls:
  "upto D Qj (ask_json q) h \<longleftrightarrow> D q h \<and> (\<forall>x. Qj x (h @ [(q, RJson x)]))"
  "upto D Qo (ask_ops q) h \<longleftrightarrow> D q h \<and> (\<forall>x. Qo x (h @ [(q, ROps x)]))"
  "upto D Qw ask_witness h \<longleftrightarrow> D RAttest h \<and> (\<forall>x. Qw x (h @ [(RAttest, RAtt x)]))"
  "upto D Qh ask_hold h \<longleftrightarrow> D RHold h \<and> (\<forall>c e. Qh (c, e) (h @ [(RHold, RHoldIs c e)]))"
  "upto D Qe ask_epoch h \<longleftrightarrow> D RFrozenEpoch h \<and> (\<forall>x. Qe x (h @ [(RFrozenEpoch, REpoch x)]))"
  "upto D Qr (ask_run why rid) h \<longleftrightarrow> D (RRun why rid) h \<and> (\<forall>x. Qr x (h @ [(RRun why rid, RRan (Inr x))]))"
  "upto D Qt ask_time h \<longleftrightarrow> D RClock h \<and> (\<forall>x. Qt x (h @ [(RClock, RTime x)]))"
  "upto D Qp (ask_operation oid) h \<longleftrightarrow> D (RObserve oid) h \<and> (\<forall>x. Qp x (h @ [(RObserve oid, ROp x)]))"
  "upto D Qb (ask_bool q) h \<longleftrightarrow> D q h \<and> (\<forall>x. Qb x (h @ [(q, RBool x)]))"
  "upto D Qn ask_count h \<longleftrightarrow> D RAdmitted h \<and> (\<forall>x. Qn x (h @ [(RAdmitted, RNat x)]))"
  "upto D Qu (do_call q) h \<longleftrightarrow> D q h \<and> Qu () (h @ [(q, RDone)])"
  by (auto simp: ask_json_def ask_ops_def ask_witness_def ask_hold_def ask_epoch_def ask_run_def ask_time_def
      ask_operation_def ask_bool_def ask_count_def do_call_def upto_failed split: reset_answer.split sum.split)

definition another_instance :: "attestation \<Rightarrow> attestation \<Rightarrow> bool" where
  "another_instance b a \<longleftrightarrow> at_incarnation a = at_incarnation b \<and> at_seq b < at_seq a
     \<and> at_instance a \<noteq> at_instance b"

text \<open>The baseline and its cohort are in the audit: read from it, or taken and written.\<close>

definition baseline_known :: "reset_request \<Rightarrow> attestation \<Rightarrow> string list \<Rightarrow> reset_history \<Rightarrow> bool" where
  "baseline_known rq b cohort h \<longleftrightarrow>
     (\<exists>l l' doc. h = l @ [(RAudited ''maintenance_reset_baseline'' (rq_id rq), RJson (Some doc))] @ l'
        \<and> att_of_doc (dget doc ''baseline'') = Some b \<and> cohort = recorded_cohort doc)
   \<or> (\<exists>l l' us ad. h = l @ [(RUnknown, ROps us), (RAdmittedOps, ROps ad), (RAttest, RAtt (Inr b)),
          (RAudit ''maintenance_reset_baseline'' (baseline_audit rq b cohort), RDone)] @ l'
        \<and> cohort = cohort_of us ad)"

definition restarted :: "reset_request \<Rightarrow> attestation \<Rightarrow> string list \<Rightarrow> jobj \<Rightarrow> reset_history \<Rightarrow> bool" where
  "restarted rq b cohort receipt h \<longleftrightarrow>
     (\<exists>l l'. h = l @ [(RRun (restart_reason rq) (rq_id rq), RRan (Inr receipt))] @ l'
        \<and> baseline_known rq b cohort l \<and> dget receipt ''result'' = JStr ''ok'')"

definition confirmed :: "reset_request \<Rightarrow> attestation \<Rightarrow> string list \<Rightarrow> jobj \<Rightarrow> attestation \<Rightarrow> reset_history \<Rightarrow> bool" where
  "confirmed rq b cohort receipt after h \<longleftrightarrow>
     (\<exists>l l'. h = l @ [(RAttest, RAtt (Inr after)), (RHold, RHoldIs True (Some (rq_epoch rq))),
          (RFrozenEpoch, REpoch (Some (rq_epoch rq)))] @ l'
        \<and> restarted rq b cohort receipt l \<and> another_instance b after)"

lemma evidence_grows:
  "baseline_known rq b cohort h \<Longrightarrow> baseline_known rq b cohort (h @ x)"
  "restarted rq b cohort receipt h \<Longrightarrow> restarted rq b cohort receipt (h @ x)"
  "confirmed rq b cohort receipt after h \<Longrightarrow> confirmed rq b cohort receipt after (h @ x)"
  unfolding baseline_known_def restarted_def confirmed_def by (metis append.assoc)+

definition justified :: "ownership \<Rightarrow> reset_request \<Rightarrow> string \<Rightarrow> json \<Rightarrow> reset_history \<Rightarrow> bool" where
  "justified w rq oid ev h \<longleftrightarrow>
     (\<exists>b cohort receipt after us r l l'. ev = reset_evidence w rq b after receipt r
        \<and> h = l @ [(RUnknown, ROps us)] @ l' @ [(RObserve oid, ROp (Some r)), (RHolds oid, RBool False)]
        \<and> confirmed rq b cohort receipt after l \<and> oid \<in> set cohort \<and> oid \<in> set us)"

definition resolves_justified :: "ownership \<Rightarrow> reset_request \<Rightarrow> reset_call \<Rightarrow> reset_history \<Rightarrow> bool" where
  "resolves_justified w rq q h = (case q of RResolve oid ev \<Rightarrow> justified w rq oid ev h | _ \<Rightarrow> True)"

lemma resolves_justified_simps [simp]:
  "resolves_justified w rq (RResolve oid ev) h = justified w rq oid ev h"
  "resolves_justified w rq (RAudited e i) h" "resolves_justified w rq (RReceipt i) h" "resolves_justified w rq RUnknown h"
  "resolves_justified w rq RAdmittedOps h" "resolves_justified w rq RAdmitted h" "resolves_justified w rq RFrozenEpoch h"
  "resolves_justified w rq RHold h" "resolves_justified w rq RAttest h" "resolves_justified w rq (RRun y i) h"
  "resolves_justified w rq RClock h" "resolves_justified w rq RSleep h" "resolves_justified w rq (RObserve oid) h"
  "resolves_justified w rq (RHolds oid) h" "resolves_justified w rq (RAudit e d) h"
  by (simp_all add: resolves_justified_def)

lemma baseline_meets:
  "upto (resolves_justified w rq) (\<lambda>ph h'. \<forall>b. ph_baseline ph = Some b \<longrightarrow> baseline_known rq b (ph_cohort ph) h') (baseline_phase rq) h"
proof -
  let ?Q = "\<lambda>ph h'. \<forall>b. ph_baseline ph = Some b \<longrightarrow> baseline_known rq b (ph_cohort ph) h'"
  have "baseline_known rq b (cohort_of us ad) (h' @ [(RUnknown, ROps us), (RAdmittedOps, ROps ad), (RAttest, RAtt (Inr b)),
          (RAudit ''maintenance_reset_baseline'' (baseline_audit rq b (cohort_of us ad)), RDone)])" for b us ad h'
    unfolding baseline_known_def by (intro disjI2 exI [of _ h'] exI [of _ "[]"] exI [of _ us] exI [of _ ad]) simp
  then have taken: "upto (resolves_justified w rq) ?Q (baseline_taken rq) h'" for h'
    by (simp add: baseline_taken_def upto_calls split: sum.split)
  have "baseline_known rq b (recorded_cohort doc) (h @ [(RAudited ''maintenance_reset_baseline'' (rq_id rq), RJson (Some doc))])"
    if "att_of_doc (dget doc ''baseline'') = Some b" for b doc
    using that unfolding baseline_known_def by (intro disjI1 exI [of _ h] exI [of _ "[]"] exI [of _ doc]) simp
  then show ?thesis
    by (auto simp: baseline_phase_def upto_calls taken split: option.split)
qed

lemma restart_meets:
  assumes "\<forall>b. ph_baseline ph = Some b \<longrightarrow> baseline_known rq b (ph_cohort ph) h"
  shows "upto (resolves_justified w rq)
     (\<lambda>receipt h'. \<forall>b. ph_baseline ph = Some b \<longrightarrow> restarted rq b (ph_cohort ph) receipt h') (restart_phase rq) h"
proof -
  have "restarted rq b (ph_cohort ph) receipt (h @ x @ [(RRun (restart_reason rq) (rq_id rq), RRan (Inr receipt)), y])"
    if "ph_baseline ph = Some b" "dget receipt ''result'' = JStr ''ok''" for receipt b x y
  proof -
    have "baseline_known rq b (ph_cohort ph) (h @ x)" using assms that(1) evidence_grows(1) by blast
    with that(2) show ?thesis
      unfolding restarted_def by (intro exI [of _ "h @ x"] exI [of _ "[y]"]) simp
  qed
  then have run: "upto (resolves_justified w rq)
     (\<lambda>receipt h'. \<forall>b. ph_baseline ph = Some b \<longrightarrow> restarted rq b (ph_cohort ph) receipt h') (restart_run rq) (h @ x)" for x
    by (simp add: restart_run_def upto_calls)
  show ?thesis
    using run [of "[_]"] run [of "[_, _]"] by (simp add: restart_phase_def upto_calls)
qed

lemma after_verdict_instance: "after_verdict text_of b answer = Inr (Some a, why) \<Longrightarrow> answer = Inr a \<and> another_instance b a"
  by (auto simp: after_verdict_def another_instance_def split: sum.splits if_splits)

lemma after_meets:
  assumes "restarted rq b cohort receipt h"
  shows "upto (resolves_justified w rq) (\<lambda>v h'. \<forall>a. fst v = Some a \<longrightarrow>
     (\<exists>l. h' = l @ [(RAttest, RAtt (Inr a))] \<and> restarted rq b cohort receipt l \<and> another_instance b a)) (after_wait n text_of b deadline) h"
  using assms
proof (induction n arbitrary: h)
  case (Suc n)
  show ?case
    using Suc.prems Suc.IH [OF evidence_grows(2) [OF Suc.prems]] after_verdict_instance [of text_of b]
    by (fastforce simp: upto_calls split: sum.split)
qed simp

lemma confirmed_now:
  assumes "restarted rq b cohort receipt l" "another_instance b a"
  shows "confirmed rq b cohort receipt a (l @ [(RAttest, RAtt (Inr a)), (RHold, RHoldIs True (Some (rq_epoch rq))),
     (RFrozenEpoch, REpoch (Some (rq_epoch rq)))])"
  using assms unfolding confirmed_def by (intro exI [of _ l] exI [of _ "[]"]) simp

lemma witnessed_meets:
  assumes "\<forall>b. ph_baseline ph = Some b \<longrightarrow> restarted rq b (ph_cohort ph) receipt h"
  shows "upto (resolves_justified w rq)
     (\<lambda>v h'. \<forall>a b. fst v = Some a \<and> ph_baseline ph = Some b \<longrightarrow> confirmed rq b (ph_cohort ph) receipt a h') (witnessed fuel rq ph) h"
proof (cases "ph_baseline ph")
  case None
  then show ?thesis by (simp add: witnessed_def)
next
  case (Some b)
  with assms have r: "restarted rq b (ph_cohort ph) receipt h" by simp
  let ?Q = "\<lambda>v h'. \<forall>a b'. fst v = Some a \<and> ph_baseline ph = Some b' \<longrightarrow> confirmed rq b' (ph_cohort ph) receipt a h'"
  let ?rest = "\<lambda>v. case fst v of
       None \<Rightarrow> Ret v
     | Some after \<Rightarrow>
         seq ask_hold (\<lambda>(shut, current).
           if \<not> shut \<or> current \<noteq> Some (rq_epoch rq) then Ret (None, Some ''the hold was lifted during the reset'')
           else seq ask_epoch (\<lambda>frozen.
             if frozen \<noteq> Some (rq_epoch rq) then Ret (None, Some ''the hold was lifted during the reset'') else Ret v))"
  have rest: "upto (resolves_justified w rq) ?Q (?rest v) h'"
    if "\<forall>a. fst v = Some a \<longrightarrow> (\<exists>l. h' = l @ [(RAttest, RAtt (Inr a))] \<and> restarted rq b (ph_cohort ph) receipt l \<and> another_instance b a)"
    for v h'
  proof (cases "fst v")
    case (Some a)
    with that obtain l where "h' = l @ [(RAttest, RAtt (Inr a))]" "restarted rq b (ph_cohort ph) receipt l" "another_instance b a"
      by blast
    then show ?thesis using Some \<open>ph_baseline ph = Some b\<close> by (simp add: upto_calls confirmed_now)
  qed simp
  have "upto (resolves_justified w rq) (\<lambda>v. upto (resolves_justified w rq) ?Q (?rest v))
      (after_wait fuel (rq_text rq) b d) (h @ x)" for d x
    by (rule traced.meets_conseq [OF after_meets [OF evidence_grows(2) [OF r]]]) (rule rest, assumption, simp)
  then show ?thesis
    by (simp add: witnessed_def after_answer_def upto_calls Some del: not_None_eq)
qed

lemma resolve_each_meets:
  assumes "confirmed rq b cohort receipt after l" "h = l @ [(RUnknown, ROps us)] @ l'" "set ops \<subseteq> set cohort" "set ops \<subseteq> set us"
  shows "upto (resolves_justified w rq) (\<lambda>_ _. True) (resolve_each (reset_evidence w rq b after receipt) ops) h"
  using assms(2-4)
proof (induction ops arbitrary: h l')
  case (Cons oid ops)
  have next_: "upto (resolves_justified w rq) (\<lambda>_ _. True) (resolve_each (reset_evidence w rq b after receipt) ops) (h @ x)" for x
    by (rule Cons.IH [of _ "l' @ x"]) (use Cons.prems in auto)
  have "justified w rq oid (reset_evidence w rq b after receipt r) (h @ [(RObserve oid, ROp (Some r)), (RHolds oid, RBool False)])" for r
    using Cons.prems assms(1) unfolding justified_def
    by (intro exI [of _ b] exI [of _ cohort] exI [of _ receipt] exI [of _ after] exI [of _ us] exI [of _ r] exI [of _ l] exI [of _ l']) simp
  then show ?case
    using next_ [of "[_]"] next_ [of "[_, _]"] next_ [of "[_, _, _]"]
    by (simp add: upto_calls split: option.split)
qed simp

lemma account_meets:
  assumes "\<forall>b. ph_baseline ph = Some b \<longrightarrow> restarted rq b (ph_cohort ph) receipt h"
  shows "upto (resolves_justified w rq) (\<lambda>_ _. True) (account_phase w fuel rq ph receipt) h"
proof -
  have phase: "upto (resolves_justified w rq) (\<lambda>_ _. True) (resolve_phase w rq ph receipt found) h'"
    if "\<forall>a b. found = Some a \<and> ph_baseline ph = Some b \<longrightarrow> confirmed rq b (ph_cohort ph) receipt a h'" for found h'
  proof -
    have "upto (resolves_justified w rq) (\<lambda>_ _. True) (resolve_each (reset_evidence w rq b a receipt)
        (filter (\<lambda>oid. oid \<in> set us) (ph_cohort ph))) (h' @ [(RUnknown, ROps us)])"
      if "confirmed rq b (ph_cohort ph) receipt a h'" for a b us
      by (rule resolve_each_meets [OF that, of _ us "[]"]) auto
    then show ?thesis
      using that by (simp add: resolve_phase_def upto_calls split: option.split)
  qed
  let ?Q = "\<lambda>v h'. \<forall>a b. fst v = Some a \<and> ph_baseline ph = Some b \<longrightarrow> confirmed rq b (ph_cohort ph) receipt a h'"
  have rest: "upto (resolves_justified w rq) (\<lambda>_ _. True)
      (seq (resolve_phase w rq ph receipt found) (\<lambda>resolved.
       seq (ask_ops RUnknown) (\<lambda>remaining.
       seq ask_count (\<lambda>settling.
       let report = maintenance_report rq receipt (ph_baseline ph) found why resolved remaining settling in
       seq (do_call (RAudit ''maintenance_reset_done'' (JObj report))) (\<lambda>_. Ret report))))) h'"
    if "?Q (found, why) h'" for found why h'
  proof -
    from that have found_ok: "\<forall>a b. found = Some a \<and> ph_baseline ph = Some b \<longrightarrow> confirmed rq b (ph_cohort ph) receipt a h'" by simp
    show ?thesis
      unfolding traced_seq [of _ _ "resolve_phase w rq ph receipt found"]
      by (rule traced.meets_conseq [OF phase [OF found_ok]]) (simp_all add: upto_calls Let_def)
  qed
  show ?thesis
    unfolding account_phase_def traced_seq [of _ _ "witnessed fuel rq ph"]
  proof (rule traced.meets_conseq [OF witnessed_meets [OF assms]], goal_cases)
    case (1 v h')
    then show ?case by (cases v) (simp only: prod.case, rule rest, simp only: prod.sel)
  qed simp
qed

lemma whole_reset_meets: "upto (resolves_justified w rq) (\<lambda>_ _. True) (maintenance_reset w fuel rq) []"
proof -
  have "upto (resolves_justified w rq) (\<lambda>ph. upto (resolves_justified w rq) (\<lambda>receipt.
      upto (resolves_justified w rq) (\<lambda>_ _. True) (account_phase w fuel rq ph receipt)) (restart_phase rq)) (baseline_phase rq) h" for h
    by (rule traced.meets_conseq [OF baseline_meets], rule traced.meets_conseq [OF restart_meets], assumption)
      (simp_all add: account_meets)
  then show ?thesis by (simp add: maintenance_reset_def upto_calls split: option.split)
qed

section \<open>The report\<close>

text \<open>The operations whose resolving write was answered with success, in order.\<close>

fun resolved_by_call :: "reset_call \<times> reset_answer \<Rightarrow> string option" where
  "resolved_by_call (RResolve oid ev, RBool True) = Some oid"
| "resolved_by_call _ = None"

definition resolved_in :: "reset_history \<Rightarrow> string list" where
  "resolved_in h = List.map_filter resolved_by_call h"

lemma resolved_in_simps [simp]:
  "resolved_in [] = []" "resolved_in (h @ h') = resolved_in h @ resolved_in h'"
  "resolved_in ((q, r) # h) = (case resolved_by_call (q, r) of None \<Rightarrow> resolved_in h | Some oid \<Rightarrow> oid # resolved_in h)"
  by (simp_all add: resolved_in_def map_filter_simps List.map_filter_def split: option.split)

definition is_resolve :: "reset_call \<Rightarrow> bool" where
  "is_resolve q = (case q of RResolve _ _ \<Rightarrow> True | _ \<Rightarrow> False)"

lemma is_resolve_simps [simp]:
  "is_resolve (RResolve oid ev)" "\<not> is_resolve (RAudited e i)" "\<not> is_resolve (RReceipt i)" "\<not> is_resolve RUnknown"
  "\<not> is_resolve RAdmittedOps" "\<not> is_resolve RAdmitted" "\<not> is_resolve RFrozenEpoch" "\<not> is_resolve RHold"
  "\<not> is_resolve RAttest" "\<not> is_resolve (RRun y i)" "\<not> is_resolve RClock" "\<not> is_resolve RSleep"
  "\<not> is_resolve (RAudit e d)"
  by (simp_all add: is_resolve_def)












section \<open>Properties\<close>

lemma heard_nth: "k < length h \<Longrightarrow> h ! k = (q, b, r, a) \<Longrightarrow> heard h ! k = (q, r)"
  by (simp add: heard_def)

lemma heard_take: "heard (take k h) = take k (heard h)"
  by (simp add: heard_def take_map)

lemma played_justified:
  assumes "play w (maintenance_reset w fuel rq) ws s = (h, out)" "k < length h" "h ! k = (RResolve oid ev, b, r, a)"
  shows "justified w rq oid ev (heard (take k h))"
proof -
  obtain rs where run: "run (maintenance_reset w fuel rq) rs = (heard h, out)"
    using play_run [OF assms(1)] by blast
  have "resolves_justified w rq (fst (heard h ! k)) (take k (heard h))"
    by (rule run_duty [OF run _ whole_reset_meets]) (use assms(2) in \<open>simp_all add: heard_def\<close>)
  then show ?thesis
    using heard_nth [OF assms(2,3)] by (simp add: heard_take)
qed

text \<open>
  C29: Whatever the others do to the database and the gate meanwhile, a reset changes an operation's row only by
  marking its own node's operations of one id, still unknown, as resolved, and only on the ordered evidence. Before that write,
  in this order: the baseline and its cohort, with this operation in it, were in the audit, read from it or taken
  and written; the supervisor reported the restart of this reset ok; the same witness answered again and named
  another runtime instance; the platform's hold and the gate's were read as closed at the reset's epoch; the
  operation was still among the unknown, was observed, and no task of this process held it. The write carries this
  evidence.
\<close>

theorem reset_resolves_on_evidence:
  assumes "play w (maintenance_reset w fuel rq) ws s = (h, out)"
    and "k < length h" and "h ! k = (q, b, r, a)" and "operations (fst a) \<noteq> operations (fst b)"
  shows "\<exists>oid row baseline cohort receipt after us l1 l2 l3 l4 now.
    q = RResolve oid (reset_evidence w rq baseline after receipt row)
    \<and> operations (fst a) = upd_where (resolve_where w oid)
        (resolve_set (reset_evidence w rq baseline after receipt row) now) (operations (fst b))
    \<and> heard (take k h) =
        l1 @ [(RRun (restart_reason rq) (rq_id rq), RRan (Inr receipt))]
        @ l2 @ [(RAttest, RAtt (Inr after)), (RHold, RHoldIs True (Some (rq_epoch rq))),
                (RFrozenEpoch, REpoch (Some (rq_epoch rq)))]
        @ l3 @ [(RUnknown, ROps us)]
        @ l4 @ [(RObserve oid, ROp (Some row)), (RHolds oid, RBool False)]
    \<and> baseline_known rq baseline cohort l1 \<and> oid \<in> set cohort \<and> oid \<in> set us
    \<and> dget receipt ''result'' = JStr ''ok''
    \<and> at_incarnation after = at_incarnation baseline \<and> at_seq baseline < at_seq after
    \<and> at_instance after \<noteq> at_instance baseline"
proof -
  obtain i where "served w i q b = (r, a)" using play_served [OF assms(1-3)] by blast
  from served_operations [OF this assms(4)] obtain oid ev where
    q: "q = RResolve oid ev" "operations (fst a) = upd_where (resolve_where w oid) (resolve_set ev (wi_now i)) (operations (fst b))"
    by blast
  from played_justified [OF assms(1,2)] assms(3) q(1) have "justified w rq oid ev (heard (take k h))" by simp
  then obtain baseline cohort receipt after us row l l4 where j: "ev = reset_evidence w rq baseline after receipt row"
    "heard (take k h) = l @ [(RUnknown, ROps us)] @ l4 @ [(RObserve oid, ROp (Some row)), (RHolds oid, RBool False)]"
    "confirmed rq baseline cohort receipt after l" "oid \<in> set cohort" "oid \<in> set us"
    unfolding justified_def by blast
  from j(3) obtain m l3 where c: "l = m @ [(RAttest, RAtt (Inr after)), (RHold, RHoldIs True (Some (rq_epoch rq))),
      (RFrozenEpoch, REpoch (Some (rq_epoch rq)))] @ l3" "restarted rq baseline cohort receipt m" "another_instance baseline after"
    unfolding confirmed_def by blast
  from c(2) obtain l1 l2 where d: "m = l1 @ [(RRun (restart_reason rq) (rq_id rq), RRan (Inr receipt))] @ l2"
    "baseline_known rq baseline cohort l1" "dget receipt ''result'' = JStr ''ok''"
    unfolding restarted_def by blast
  have "heard (take k h) = l1 @ [(RRun (restart_reason rq) (rq_id rq), RRan (Inr receipt))]
        @ l2 @ [(RAttest, RAtt (Inr after)), (RHold, RHoldIs True (Some (rq_epoch rq))),
                (RFrozenEpoch, REpoch (Some (rq_epoch rq)))]
        @ l3 @ [(RUnknown, ROps us)]
        @ l4 @ [(RObserve oid, ROp (Some row)), (RHolds oid, RBool False)]"
    unfolding j(2) c(1) d(1) by simp
  with q j(1,4,5) c(3) d(2,3) show ?thesis
    unfolding another_instance_def by blast
qed


section \<open>A concrete reset\<close>

definition demo_owner :: ownership where
  "demo_owner = \<lparr>own_node = ''n'', own_generation = 2, own_boot_id = ''b2''\<rparr>"

definition demo_unknown :: operation where
  "demo_unknown = (unknown_set ''lost'' JNull
     (new_accepted \<lparr>own_node = ''n'', own_generation = 1, own_boot_id = ''b1''\<rparr> ''o'' ''chat'' None None False 0))
     \<lparr>owner_generation := 2\<rparr>"

definition demo_db :: db where
  "demo_db = \<lparr>nodes = [], agents = [\<lparr>ag_node = ''n'', ag_generation = 2, ag_boot_id = Some ''b2'',
       ag_kernel_boot_id = None, ag_backend_pid = None, ag_started_at = None\<rparr>],
     operations = [demo_unknown], results = [], audits = [],
     control = Some (NORMAL\<lparr>admission_closed := True, epoch := 7\<rparr>), models = [], election_locks = [], audit_up = True\<rparr>"

definition demo_gate :: gate where
  "demo_gate = freeze (Some 7) (the (new_gate 1 8))"

definition demo_att :: "int \<Rightarrow> int \<Rightarrow> attestation" where
  "demo_att sq pid = \<lparr>at_nonce = ''x'', at_incarnation = ''w'', at_seq = sq, at_pid = pid, at_start = ''s'', at_endpoint = ''e''\<rparr>"

definition demo_request :: reset_request where
  "demo_request = \<lparr>rq_epoch = 7, rq_id = ''r'', rq_operator = ''op'', rq_settle = 9, rq_text = (\<lambda>_. ''refused'')\<rparr>"

definition demo_in :: "attestation \<Rightarrow> world_in" where
  "demo_in a = \<lparr>wi_rely = (\<lambda>s. s), wi_fate = Works, wi_receipt = None, wi_attest = Inr a,
     wi_run = Inr [(''result'', JStr ''ok'')], wi_clock = 0, wi_now = 5\<rparr>"

definition demo_reset :: "met list \<times> (reset_call, refusal, jobj) ending" where
  "demo_reset = play demo_owner (maintenance_reset demo_owner 1 demo_request)
     (replicate 10 (demo_in (demo_att 1 10)) @ replicate 12 (demo_in (demo_att 2 11))) (demo_db, demo_gate)"

definition demo_report :: jobj where
  "demo_report = (case snd demo_reset of Returned rep \<Rightarrow> rep | _ \<Rightarrow> [])"

definition demo_write :: met where
  "demo_write = fst demo_reset ! 18"

lemma demo_reset_resolves:
  "length (fst demo_reset) = 22" "case snd demo_reset of Returned rep \<Rightarrow> True | _ \<Rightarrow> False"
  "dget demo_report ''resolved'' = JList [JStr ''o'']"
  "map op_state (operations (fst (fst (snd demo_write)))) = [OutcomeUnknown]"
  "map op_state (operations (fst (snd (snd (snd demo_write))))) = [Failed]"
  by code_simp+

lemma demo_played: "play demo_owner (maintenance_reset demo_owner 1 demo_request)
     (replicate 10 (demo_in (demo_att 1 10)) @ replicate 12 (demo_in (demo_att 2 11))) (demo_db, demo_gate)
   = (fst demo_reset, snd demo_reset)"
  by (simp only: demo_reset_def prod.collapse)


lemma reset_resolves_on_evidence_witness:
  "\<exists>oid row baseline after receipt. fst (fst demo_reset ! 18) = RResolve oid (reset_evidence demo_owner demo_request baseline after receipt row)
     \<and> dget receipt ''result'' = JStr ''ok'' \<and> at_instance after \<noteq> at_instance baseline"
proof -
  obtain q b r a where w: "fst demo_reset ! 18 = (q, b, r, a)" by (metis surj_pair)
  have "operations (fst a) \<noteq> operations (fst b)"
    using demo_reset_resolves(4,5) by (auto simp: demo_write_def w)
  moreover have "18 < length (fst demo_reset)" using demo_reset_resolves(1) by simp
  ultimately show ?thesis
    using reset_resolves_on_evidence [OF demo_played _ w] w by fastforce
qed


end
