(* ===== verification/Maintenance_Operations.thy ===== *)
theory Maintenance_Operations
  imports Maintenance_Hold Py_Values
begin

text \<open>
  Maintenance operations and their node steps: the entity
  \<open>src/backend/app/domain/entities/maintenance_operation.py\<close> and its repository
  \<open>src/backend/app/adapters/persistence/repositories/maintenance_operations.py\<close>. Each method is one
  statement, or several of one transaction, over the two tables; \<open>now\<close> is the database's clock. The
  column \<open>verification\<close> is only written and read by the coordinator, and is kept as the fields it has.
\<close>

section \<open>Rows\<close>

datatype op_kind = EnterKind | RestoreKind

datatype op_status = OpRunning | OpFailed | OpSucceeded | OpAbandoned

datatype step_phase = PhPending | PhInterrupted | PhSnapshotted | PhReset | PhLoaded | PhProbed | PhVerified

datatype step_status = StRunning | StFailed | StDone

fun phase_value :: "step_phase \<Rightarrow> string" where
  "phase_value PhPending = ''pending''"
| "phase_value PhInterrupted = ''interrupted''"
| "phase_value PhSnapshotted = ''snapshotted''"
| "phase_value PhReset = ''reset''"
| "phase_value PhLoaded = ''loaded''"
| "phase_value PhProbed = ''probed''"
| "phase_value PhVerified = ''verified''"

record load =
  ld_op :: string
  ld_name :: json
  ld_state :: json

record probe =
  pb_op :: string
  pb_state :: json

record verification =
  vf_resident :: "string list option"
  vf_fresh :: bool
  vf_loads :: "load list"
  vf_probes :: "(string \<times> probe) list"
  vf_attempts :: int

record node_step =
  ns_operation :: string
  ns_node :: string
  ns_phase :: step_phase
  ns_status :: step_status
  ns_attempts :: int
  ns_interrupt :: "jobj option"
  ns_snapshot :: "jobj list option"
  ns_snapshot_at :: "int option"
  ns_snapshot_error :: "string option"
  ns_reset_id :: "string option"
  ns_reset :: "jobj option"
  ns_accounting :: "string option"
  ns_verification :: "verification option"
  ns_error :: "string option"
  ns_updated_at :: "int option"

definition snapshot_taken :: "node_step \<Rightarrow> bool" where
  "snapshot_taken s \<longleftrightarrow> ns_snapshot s \<noteq> None \<or> ns_snapshot_error s \<noteq> None"

record m_op =
  mo_id :: string
  mo_kind :: op_kind
  mo_epoch :: int
  mo_status :: op_status
  mo_requested_by :: string
  mo_owner :: "string option"
  mo_lease :: "int option"
  mo_error :: "string option"
  mo_created_at :: int
  mo_updated_at :: int
  mo_finished_at :: "int option"

text \<open>\<open>MaintenanceOperation\<close>: a row with its steps, by node.\<close>

type_synonym m_view = "m_op \<times> node_step list"

record m_audit =
  ma_action :: string
  ma_target :: string
  ma_outcome :: string
  ma_detail :: "(string \<times> string) list"

record mdb =
  md_hold :: "maintenance_state option"
  md_ops :: "m_op list"
  md_steps :: "node_step list"
  md_audit :: "m_audit list"

abbreviation step_key :: "node_step \<Rightarrow> string \<times> string" where
  "step_key s \<equiv> (ns_operation s, ns_node s)"

abbreviation mop_at :: "mdb \<Rightarrow> string \<Rightarrow> m_op option" where
  "mop_at d i \<equiv> row_at mo_id (md_ops d) i"

abbreviation step_at :: "mdb \<Rightarrow> string \<times> string \<Rightarrow> node_step option" where
  "step_at d k \<equiv> row_at step_key (md_steps d) k"

section \<open>What a snapshot keeps, and what matches it\<close>

definition SNAPSHOT_FIELDS :: "string list" where
  "SNAPSHOT_FIELDS = [''name'', ''model'', ''digest'', ''size'', ''size_vram'', ''context_length'', ''expires_at'', ''details'']"

definition snapshot_entry :: "json \<Rightarrow> jobj option" where
  "snapshot_entry j = (case j of
     JObj d \<Rightarrow> Some (List.map_filter (\<lambda>k. map_option (Pair k) (map_of d k)) SNAPSHOT_FIELDS)
   | _ \<Rightarrow> None)"

definition snapshot_of :: "json list \<Rightarrow> jobj list" where
  "snapshot_of resident = List.map_filter snapshot_entry resident"

text \<open>Python's \<open>==\<close> on decoded JSON scalars: numbers, booleans among them, by value.\<close>

definition num_of :: "json \<Rightarrow> (int \<times> int) option" where
  "num_of j = (case j of JInt n \<Rightarrow> Some (n, 0) | JBool b \<Rightarrow> Some (if b then 1 else 0, 0) | JFloat m e \<Rightarrow> Some (m, e) | _ \<Rightarrow> None)"

definition py_eq :: "json \<Rightarrow> json \<Rightarrow> bool" where
  "py_eq a b = (case (num_of a, num_of b) of
     (Some (m, e), Some (n, f)) \<Rightarrow> m * 10 ^ nat (e - min e f) = n * 10 ^ nat (f - min e f)
   | _ \<Rightarrow> a = b)"

text \<open>
  \<open>resident_matches\<close>; the entries come from the runtime, so one that is no object raises, which is
  None here.
\<close>

fun resident_matches :: "jobj \<Rightarrow> json list \<Rightarrow> bool option" where
  "resident_matches saved [] = Some False"
| "resident_matches saved (JObj d # rest) =
     (if \<not> py_eq (dget d ''name'') (dget saved ''name'') then resident_matches saved rest
      else if truthy (dget saved ''digest'') \<and> \<not> py_eq (dget d ''digest'') (dget saved ''digest'') then Some False
      else Some (\<not> truthy (dget saved ''context_length'')
                 \<or> py_eq (dget d ''context_length'') (dget saved ''context_length'')))"
| "resident_matches saved (j # rest) = None"

definition size_of :: "jobj \<Rightarrow> string + int" where
  "size_of m = (let s = dget m ''size'' in py_int (if truthy s then s else JInt 0))"

definition name_of :: "jobj \<Rightarrow> string" where
  "name_of m = py_str (dget m ''name'')"

text \<open>Largest first, then by name; a size that is no number raises.\<close>

definition order_le :: "int \<times> jobj \<Rightarrow> int \<times> jobj \<Rightarrow> bool" where
  "order_le a b \<longleftrightarrow> fst a > fst b \<or> (fst a = fst b \<and> str_le (name_of (snd a)) (name_of (snd b)))"

definition restore_order :: "jobj list \<Rightarrow> string + jobj list" where
  "restore_order snap =
     ebind (emap (\<lambda>m. ebind (size_of m) (\<lambda>n. Inr (n, m))) snap) (\<lambda>xs. Inr (map snd (sort_by order_le xs)))"

text \<open>\<open>sep.join(xs)\<close>.\<close>

definition join_with :: "string \<Rightarrow> string list \<Rightarrow> string" where
  "join_with sep xs = (case xs of [] \<Rightarrow> [] | y # ys \<Rightarrow> y @ concat (map (\<lambda>x. sep @ x) ys))"

section \<open>Creating operations\<close>

definition new_op :: "string \<Rightarrow> op_kind \<Rightarrow> int \<Rightarrow> string \<Rightarrow> int \<Rightarrow> m_op" where
  "new_op i k ep by now =
     \<lparr>mo_id = i, mo_kind = k, mo_epoch = ep, mo_status = OpRunning, mo_requested_by = by, mo_owner = None,
      mo_lease = None, mo_error = None, mo_created_at = now, mo_updated_at = now, mo_finished_at = None\<rparr>"

definition new_step :: "string \<Rightarrow> string \<Rightarrow> int \<Rightarrow> node_step" where
  "new_step i n now =
     \<lparr>ns_operation = i, ns_node = n, ns_phase = PhPending, ns_status = StRunning, ns_attempts = 0,
      ns_interrupt = None, ns_snapshot = None, ns_snapshot_at = None, ns_snapshot_error = None,
      ns_reset_id = None, ns_reset = None, ns_accounting = None, ns_verification = None, ns_error = None,
      ns_updated_at = Some now\<rparr>"

text \<open>The unique constraints: the id, one operation per kind and epoch, one step per node. None is an IntegrityError.\<close>

definition insert_op :: "m_op \<Rightarrow> node_step list \<Rightarrow> mdb \<Rightarrow> mdb option" where
  "insert_op r steps d =
     (if list_ex (\<lambda>q. mo_id q = mo_id r \<or> (mo_kind q = mo_kind r \<and> mo_epoch q = mo_epoch r)) (md_ops d)
         \<or> \<not> distinct (map step_key steps)
      then None else Some (d\<lparr>md_ops := md_ops d @ [r], md_steps := md_steps d @ steps\<rparr>))"

definition create_entry :: "string \<Rightarrow> int \<Rightarrow> string \<Rightarrow> string list \<Rightarrow> int \<Rightarrow> mdb \<Rightarrow> mdb option" where
  "create_entry i ep by nds now =
     insert_op (new_op i EnterKind ep by now) (map (\<lambda>n. new_step i n now) nds)"

definition create_restore :: "string \<Rightarrow> int \<Rightarrow> string \<Rightarrow> (string \<times> jobj list) list \<Rightarrow> int \<Rightarrow> mdb \<Rightarrow> mdb option" where
  "create_restore i ep by snaps now =
     insert_op (new_op i RestoreKind ep by now)
       (map (\<lambda>(n, snap). (new_step i n now)\<lparr>ns_snapshot := Some snap, ns_snapshot_at := Some now\<rparr>) snaps)"

section \<open>Reads\<close>

definition steps_of :: "string \<Rightarrow> mdb \<Rightarrow> node_step list" where
  "steps_of i d =
     sort_by (\<lambda>a b. str_le (ns_node a) (ns_node b)) (filter (\<lambda>s. ns_operation s = i) (md_steps d))"

definition op_get :: "string \<Rightarrow> mdb \<Rightarrow> m_view option" where
  "op_get i d = map_option (\<lambda>r. (r, steps_of i d)) (mop_at d i)"

definition latest_of :: "op_kind \<Rightarrow> int \<Rightarrow> mdb \<Rightarrow> m_view option" where
  "latest_of k ep d =
     (case List.find (\<lambda>r. mo_kind r = k \<and> mo_epoch r = ep) (md_ops d) of None \<Rightarrow> None | Some r \<Rightarrow> op_get (mo_id r) d)"

text \<open>\<open>ORDER BY created_at LIMIT 1\<close>, newest and oldest.\<close>

definition newest :: "m_op list \<Rightarrow> m_op option" where
  "newest rs = (case sort_by (\<lambda>a b. mo_created_at a \<ge> mo_created_at b) rs of [] \<Rightarrow> None | r # _ \<Rightarrow> Some r)"

definition oldest :: "m_op list \<Rightarrow> m_op option" where
  "oldest rs = (case sort_by (\<lambda>a b. mo_created_at a \<le> mo_created_at b) rs of [] \<Rightarrow> None | r # _ \<Rightarrow> Some r)"

definition op_latest :: "mdb \<Rightarrow> m_view option" where
  "op_latest d = (case newest (md_ops d) of None \<Rightarrow> None | Some r \<Rightarrow> op_get (mo_id r) d)"

section \<open>The coordinator's claim\<close>

definition claimable :: "string \<Rightarrow> int \<Rightarrow> m_op \<Rightarrow> bool" where
  "claimable me now r \<longleftrightarrow> mo_status r = OpRunning
     \<and> (mo_owner r = None \<or> mo_owner r = Some me \<or> (case mo_lease r of None \<Rightarrow> False | Some t \<Rightarrow> t < now))"

definition set_op :: "string \<Rightarrow> (m_op \<Rightarrow> bool) \<Rightarrow> (m_op \<Rightarrow> m_op) \<Rightarrow> mdb \<Rightarrow> mdb" where
  "set_op i cond assign d = d\<lparr>md_ops := upd_where (\<lambda>r. mo_id r = i \<and> cond r) assign (md_ops d)\<rparr>"

definition op_claim :: "string \<Rightarrow> int \<Rightarrow> int \<Rightarrow> mdb \<Rightarrow> m_view option \<times> mdb" where
  "op_claim me lease now d =
     (case oldest (filter (claimable me now) (md_ops d)) of
        None \<Rightarrow> (None, d)
      | Some r \<Rightarrow>
          (let d' = set_op (mo_id r) (\<lambda>_. True)
                 (\<lambda>r. r\<lparr>mo_owner := Some me, mo_lease := Some (now + lease), mo_updated_at := now\<rparr>) d
           in (op_get (mo_id r) d', d')))"

definition held_by :: "string \<Rightarrow> m_op \<Rightarrow> bool" where
  "held_by me r \<longleftrightarrow> mo_owner r = Some me \<and> mo_status r = OpRunning"

text \<open>The fence every step write carries: \<open>EXISTS (... id = :id AND owner = :me AND status = 'running')\<close>.\<close>

definition fenced :: "string \<Rightarrow> string \<Rightarrow> mdb \<Rightarrow> bool" where
  "fenced me i d \<longleftrightarrow> list_ex (\<lambda>r. mo_id r = i \<and> held_by me r) (md_ops d)"

definition op_renew :: "string \<Rightarrow> string \<Rightarrow> int \<Rightarrow> int \<Rightarrow> mdb \<Rightarrow> bool \<times> mdb" where
  "op_renew i me lease now d =
     (fenced me i d, set_op i (held_by me) (\<lambda>r. r\<lparr>mo_lease := Some (now + lease)\<rparr>) d)"

section \<open>Writes on a step\<close>

text \<open>The columns of \<open>**values\<close>; None is a column not given.\<close>

record step_values =
  sv_interrupt :: "jobj option"
  sv_snapshot :: "jobj list option"
  sv_snapshot_error :: "string option"
  sv_reset :: "jobj option"
  sv_accounting :: "string option"
  sv_verification :: "verification option"

definition no_values :: step_values where
  "no_values = \<lparr>sv_interrupt = None, sv_snapshot = None, sv_snapshot_error = None, sv_reset = None,
     sv_accounting = None, sv_verification = None\<rparr>"

definition coalesce :: "'a option \<Rightarrow> 'a option \<Rightarrow> 'a option" where
  "coalesce a b = (if a = None then b else a)"

definition advance_set :: "step_phase \<Rightarrow> step_values \<Rightarrow> int \<Rightarrow> node_step \<Rightarrow> node_step" where
  "advance_set ph v now s =
     s\<lparr>ns_phase := ph,
       ns_attempts := (if ns_phase s = ph then ns_attempts s else 0),
       ns_error := (if ns_phase s = ph then ns_error s else None),
       ns_updated_at := Some now,
       ns_status := (if ph = PhVerified then StDone else ns_status s),
       ns_interrupt := coalesce (sv_interrupt v) (ns_interrupt s),
       ns_reset := coalesce (sv_reset v) (ns_reset s),
       ns_verification := coalesce (sv_verification v) (ns_verification s),
       ns_accounting := coalesce (sv_accounting v) (ns_accounting s),
       ns_snapshot := (if snapshot_taken s then ns_snapshot s else sv_snapshot v),
       ns_snapshot_error := (if snapshot_taken s then ns_snapshot_error s else sv_snapshot_error v),
       ns_snapshot_at := (if \<not> snapshot_taken s \<and> (sv_snapshot v \<noteq> None \<or> sv_snapshot_error v \<noteq> None)
                          then Some now else ns_snapshot_at s)\<rparr>"

text \<open>One fenced \<open>UPDATE\<close> of a step, and whether it hit.\<close>

definition step_where :: "string \<times> string \<Rightarrow> (node_step \<Rightarrow> bool) \<Rightarrow> node_step \<Rightarrow> bool" where
  "step_where k cond s \<longleftrightarrow> step_key s = k \<and> cond s"

definition step_write :: "string \<Rightarrow> string \<times> string \<Rightarrow> (node_step \<Rightarrow> bool) \<Rightarrow> (node_step \<Rightarrow> node_step) \<Rightarrow> mdb
    \<Rightarrow> bool \<times> mdb" where
  "step_write me k cond assign d =
     (if fenced me (fst k) d \<and> list_ex (step_where k cond) (md_steps d)
      then (True, d\<lparr>md_steps := upd_where (step_where k cond) assign (md_steps d)\<rparr>)
      else (False, d))"

abbreviation is_running :: "node_step \<Rightarrow> bool" where
  "is_running s \<equiv> ns_status s = StRunning"

definition op_advance :: "string \<times> string \<Rightarrow> string \<Rightarrow> step_phase \<Rightarrow> step_values \<Rightarrow> int \<Rightarrow> mdb \<Rightarrow> bool \<times> mdb" where
  "op_advance k me ph v now = step_write me k is_running (advance_set ph v now)"

definition op_set_reset_id :: "string \<times> string \<Rightarrow> string \<Rightarrow> string \<Rightarrow> int \<Rightarrow> mdb \<Rightarrow> bool \<times> mdb" where
  "op_set_reset_id k me rid now =
     step_write me k (\<lambda>s. ns_reset_id s = None) (\<lambda>s. s\<lparr>ns_reset_id := Some rid, ns_updated_at := Some now\<rparr>)"

definition failed_set :: "string \<Rightarrow> int \<Rightarrow> bool \<Rightarrow> bool \<Rightarrow> int \<Rightarrow> node_step \<Rightarrow> node_step" where
  "failed_set err max_attempts clear final now s =
     s\<lparr>ns_attempts := ns_attempts s + 1, ns_error := Some (take 2000 err), ns_updated_at := Some now,
       ns_reset_id := (if clear then None else ns_reset_id s),
       ns_status := (if final \<or> ns_attempts s + 1 \<ge> max_attempts then StFailed else ns_status s)\<rparr>"

definition op_attempt_failed :: "string \<times> string \<Rightarrow> string \<Rightarrow> string \<Rightarrow> int \<Rightarrow> bool \<Rightarrow> bool \<Rightarrow> int \<Rightarrow> mdb
    \<Rightarrow> node_step option \<times> mdb" where
  "op_attempt_failed k me err max_attempts clear final now d =
     (let (hit, d') = step_write me k is_running (failed_set err max_attempts clear final now) d
      in (if hit then step_at d' k else None, d'))"

definition op_rewind :: "string \<times> string \<Rightarrow> string \<Rightarrow> step_phase \<Rightarrow> int \<Rightarrow> mdb \<Rightarrow> bool \<times> mdb" where
  "op_rewind k me ph now =
     step_write me k (\<lambda>s. ns_status s = StDone)
       (\<lambda>s. s\<lparr>ns_status := StRunning, ns_phase := ph, ns_attempts := 0, ns_updated_at := Some now\<rparr>)"

section \<open>The operation's end\<close>

definition ended :: "op_status \<Rightarrow> string option \<Rightarrow> int \<Rightarrow> m_op \<Rightarrow> m_op" where
  "ended st err now r =
     r\<lparr>mo_status := st, mo_error := err, mo_owner := None, mo_lease := None, mo_updated_at := now,
       mo_finished_at := Some now\<rparr>"

definition op_finish :: "string \<Rightarrow> string \<Rightarrow> op_status \<Rightarrow> string option \<Rightarrow> int \<Rightarrow> mdb \<Rightarrow> bool \<times> mdb" where
  "op_finish i me st err now d = (fenced me i d, set_op i (held_by me) (ended st err now) d)"

definition abandon_running :: "string \<Rightarrow> int \<Rightarrow> mdb \<Rightarrow> string list \<times> mdb" where
  "abandon_running why now d =
     (map mo_id (filter (\<lambda>r. mo_status r = OpRunning) (md_ops d)),
      d\<lparr>md_ops := upd_where (\<lambda>r. mo_status r = OpRunning) (ended OpAbandoned (Some why) now) (md_ops d)\<rparr>)"

definition op_retry :: "string \<Rightarrow> int \<Rightarrow> mdb \<Rightarrow> bool \<times> mdb" where
  "op_retry i now d =
     (if list_ex (\<lambda>r. mo_id r = i \<and> mo_status r = OpFailed) (md_ops d)
      then (True,
        (set_op i (\<lambda>r. mo_status r = OpFailed)
           (\<lambda>r. r\<lparr>mo_status := OpRunning, mo_error := None, mo_owner := None, mo_lease := None,
                  mo_finished_at := None, mo_updated_at := now\<rparr>) d)
        \<lparr>md_steps := upd_where (\<lambda>s. ns_operation s = i \<and> ns_status s = StFailed)
           (\<lambda>s. s\<lparr>ns_status := StRunning, ns_attempts := 0, ns_updated_at := Some now\<rparr>) (md_steps d)\<rparr>)
      else (False, d))"

text \<open>
  \<open>PostgresCoordinatorStore.reopen_after\<close>: the operation ends and the hold of its epoch lifts in one
  transaction, or neither.
\<close>

definition reopen_after :: "string \<Rightarrow> string \<Rightarrow> string \<Rightarrow> int \<Rightarrow> int \<Rightarrow> mdb \<Rightarrow> bool \<times> mdb" where
  "reopen_after by i me ep now d =
     (let (hit, d1) = op_finish i me OpSucceeded None now d in
      if \<not> hit then (False, d)
      else (case hold_reopen by now (md_hold d1) of
              (Some st, h) \<Rightarrow> if epoch st = ep then (True, d1\<lparr>md_hold := h\<rparr>) else (False, d)
            | (None, _) \<Rightarrow> (False, d)))"

end
