(* ===== verification/Manage_Maintenance.thy ===== *)
theory Manage_Maintenance
  imports Maintenance_Operations
begin

text \<open>
  What an administrator does to the platform's hold: \<open>ManageMaintenance\<close> of
  \<open>src/backend/app/application/use_cases/manage_maintenance.py\<close>. Each use case is one transaction of the
  request; a raise rolls it back. Who holds which scope, the registered nodes and the fresh operation id
  are parameters.
\<close>

datatype m_error =
    NotAuthorized string | Disabled | Unsupported string | StateConflict string | MaintenanceClosed int
  | RuntimeError string

datatype scope = MAINTENANCE_READ | MAINTENANCE_WRITE

record actor =
  ac_id :: string
  ac_role :: string

record registered_node =
  rn_id :: string
  rn_name :: string
  rn_agent_url :: "string option"

record manage =
  mg_allowed :: "actor \<Rightarrow> scope \<Rightarrow> bool"
  mg_enabled :: bool
  mg_operations :: bool
  mg_nodes :: "registered_node list option"
  mg_agents_enabled :: bool

definition MAX_MESSAGE_LENGTH :: nat where
  "MAX_MESSAGE_LENGTH = 500"

definition clean_message :: "string option \<Rightarrow> string option" where
  "clean_message m = (case m of
     None \<Rightarrow> None
   | Some s \<Rightarrow> (let t = py_strip s in if t = [] then None else Some (take MAX_MESSAGE_LENGTH t)))"

definition require :: "manage \<Rightarrow> actor \<Rightarrow> scope \<Rightarrow> m_error + unit" where
  "require mg a sc =
     (if \<not> mg_allowed mg a sc then Inl (NotAuthorized (ac_id a))
      else if ac_role a \<noteq> ''admin''
      then Inl (NotAuthorized (''maintenance needs a platform admin, not '' @ ac_role a))
      else Inr ())"

definition read_hold :: "mdb \<Rightarrow> m_error + maintenance_state" where
  "read_hold d = (case hold_read (md_hold d) of Inl e \<Rightarrow> Inl (RuntimeError e) | Inr s \<Rightarrow> Inr s)"

definition recorded :: "string \<Rightarrow> string \<Rightarrow> string \<Rightarrow> (string \<times> string) list \<Rightarrow> mdb \<Rightarrow> mdb" where
  "recorded action target result detail d =
     d\<lparr>md_audit := md_audit d @ [\<lparr>ma_action = action, ma_target = target, ma_outcome = result, ma_detail = detail\<rparr>]\<rparr>"

text \<open>Why an entry cannot be made here; None lets it close the platform.\<close>

definition cannot_enter :: "manage \<Rightarrow> m_error option" where
  "cannot_enter mg =
     (if \<not> mg_enabled mg then Some Disabled
      else if \<not> mg_operations mg \<or> mg_nodes mg = None \<or> \<not> mg_agents_enabled mg
      then Some (Unsupported ''maintenance needs node agents: NODE_AGENT_ENABLED is off'')
      else (let direct = sort_by str_le (map rn_name
                  (filter (\<lambda>n. rn_agent_url n = None \<or> rn_agent_url n = Some []) (the (mg_nodes mg))))
            in if direct \<noteq> []
               then Some (Unsupported (''nodes without an agent: '' @ py_repr (JList (map JStr direct))))
               else None))"

definition enter :: "manage \<Rightarrow> actor \<Rightarrow> string option \<Rightarrow> int option \<Rightarrow> string \<Rightarrow> int \<Rightarrow> mdb
    \<Rightarrow> (m_error + maintenance_state) \<times> mdb" where
  "enter mg a msg expected fresh now d =
     (case require mg a MAINTENANCE_WRITE of
        Inl e \<Rightarrow> (Inl e, d)
      | Inr _ \<Rightarrow>
          (case cannot_enter mg of
             Some e \<Rightarrow> (Inl e, d)
           | None \<Rightarrow>
               (case hold_close (ac_id a) (clean_message msg) expected now (md_hold d) of
                  (None, h) \<Rightarrow> (read_hold d, d)
                | (Some closed, h) \<Rightarrow>
                    (let nds = map rn_id (the (mg_nodes mg)) in
                     case create_entry fresh (epoch closed) (ac_id a) nds now (d\<lparr>md_hold := h\<rparr>) of
                       None \<Rightarrow> (Inl (RuntimeError ''IntegrityError''), d)
                     | Some d' \<Rightarrow>
                         (Inr closed,
                          recorded ''maintenance.entered'' ''platform'' ''success''
                            [(''epoch'', show_int (epoch closed)), (''operation'', fresh),
                             (''nodes'', show_int (int (length nds)))] d')))))"

text \<open>Whether the entry's result can be restored.\<close>

definition restorable_entry :: "m_view option \<Rightarrow> m_error + (string \<times> jobj list) list" where
  "restorable_entry v = (case v of
     None \<Rightarrow> Inl (StateConflict ''this hold has no entry to restore'')
   | Some (r, steps) \<Rightarrow>
       if mo_status r \<noteq> OpSucceeded
       then Inl (StateConflict ''the entry has not released every runtime yet'')
       else if list_ex (\<lambda>s. ns_snapshot s = None) steps
       then Inl (StateConflict (''no snapshot for ''
              @ py_repr (JList (map (\<lambda>s. JStr (ns_node s)) (filter (\<lambda>s. ns_snapshot s = None) steps)))
              @ '': load those models by hand, or reopen without restoring''))
       else if list_ex (\<lambda>s. ns_accounting s \<noteq> Some ''resolved'') steps
       then Inl (StateConflict (''unresolved unknown operations on ''
              @ py_repr (JList (map (\<lambda>s. JStr (ns_node s)) (filter (\<lambda>s. ns_accounting s \<noteq> Some ''resolved'') steps)))
              @ '': resolve them first''))
       else Inr (map (\<lambda>s. (ns_node s, the (ns_snapshot s))) steps))"

fun op_status_value :: "op_status \<Rightarrow> string" where
  "op_status_value OpRunning = ''running''"
| "op_status_value OpFailed = ''failed''"
| "op_status_value OpSucceeded = ''succeeded''"
| "op_status_value OpAbandoned = ''abandoned''"

definition begin_restore :: "actor \<Rightarrow> maintenance_state \<Rightarrow> string \<Rightarrow> int \<Rightarrow> mdb \<Rightarrow> (m_error + m_view) \<times> mdb" where
  "begin_restore a st fresh now d =
     (case restorable_entry (latest_of EnterKind (epoch st) d) of
        Inl e \<Rightarrow> (Inl e, d)
      | Inr snaps \<Rightarrow>
          (case create_restore fresh (epoch st) (ac_id a) snaps now d of
             None \<Rightarrow> (Inl (RuntimeError ''IntegrityError''), d)
           | Some d' \<Rightarrow>
               (case op_get fresh d' of
                  None \<Rightarrow> (Inl (RuntimeError ''maintenance operation vanished after insert''), d)
                | Some v \<Rightarrow>
                    (Inr v, recorded ''maintenance.restore_started'' ''platform'' ''success''
                       [(''epoch'', show_int (epoch st)), (''operation'', fresh)] d'))))"

definition restore :: "manage \<Rightarrow> actor \<Rightarrow> string \<Rightarrow> int \<Rightarrow> mdb \<Rightarrow> (m_error + m_view) \<times> mdb" where
  "restore mg a fresh now d =
     (case ebind (require mg a MAINTENANCE_WRITE) (\<lambda>_. read_hold d) of
        Inl e \<Rightarrow> (Inl e, d)
      | Inr st \<Rightarrow>
          if \<not> mg_operations mg \<or> \<not> admission_closed st
          then (Inl (StateConflict ''the platform is not closed''), d)
          else (case latest_of RestoreKind (epoch st) d of
              Some (r, steps) \<Rightarrow>
                if mo_status r = OpRunning then (Inr (r, steps), d)
                else (Inl (StateConflict (''this hold's restore is '' @ op_status_value (mo_status r)
                             @ ''; retry it instead'')), d)
            | None \<Rightarrow> begin_restore a st fresh now d))"

definition retry :: "manage \<Rightarrow> actor \<Rightarrow> int \<Rightarrow> mdb \<Rightarrow> (m_error + m_view) \<times> mdb" where
  "retry mg a now d =
     (case require mg a MAINTENANCE_WRITE of
        Inl e \<Rightarrow> (Inl e, d)
      | Inr _ \<Rightarrow>
          (case (if mg_operations mg then op_latest d else None) of
             None \<Rightarrow> (Inl (StateConflict ''there is no failed entry to retry''), d)
           | Some (r, steps) \<Rightarrow>
               if mo_status r \<noteq> OpFailed then (Inl (StateConflict ''there is no failed entry to retry''), d)
               else (case read_hold d of
                   Inl e \<Rightarrow> (Inl e, d)
                 | Inr st \<Rightarrow>
                     if \<not> admission_closed st \<or> epoch st \<noteq> mo_epoch r
                     then (Inl (StateConflict (''the entry was for epoch '' @ show_int (mo_epoch r)
                             @ '', and that hold is not current'')), d)
                     else (let (hit, d') = op_retry (mo_id r) now d in
                       if \<not> hit then (Inl (StateConflict ''the entry is no longer failed''), d)
                       else (let d2 = recorded ''maintenance.retried'' ''platform'' ''success''
                                   [(''epoch'', show_int (mo_epoch r)), (''operation'', mo_id r)] d'
                             in (Inr (case op_get (mo_id r) d2 of None \<Rightarrow> (r, steps) | Some v \<Rightarrow> v), d2))))))"

text \<open>Never refused: the running entries end with the hold.\<close>

definition admin_reopen :: "manage \<Rightarrow> actor \<Rightarrow> int \<Rightarrow> mdb \<Rightarrow> (m_error + maintenance_state) \<times> mdb" where
  "admin_reopen mg a now d =
     (case require mg a MAINTENANCE_WRITE of
        Inl e \<Rightarrow> (Inl e, d)
      | Inr _ \<Rightarrow>
          (case hold_reopen (ac_id a) now (md_hold d) of
             (None, h) \<Rightarrow> (read_hold d, d)
           | (Some opened, h) \<Rightarrow>
               (let d1 = d\<lparr>md_hold := h\<rparr>;
                    (ids, d2) = (if mg_operations mg then abandon_running ''the platform was reopened'' now d1 else ([], d1))
                in (Inr opened,
                    recorded ''maintenance.reopened'' ''platform'' ''success''
                      [(''epoch'', show_int (epoch opened)), (''abandoned'', join_with '','' ids)] d2))))"

definition admin_set_message :: "manage \<Rightarrow> actor \<Rightarrow> string option \<Rightarrow> int option \<Rightarrow> int \<Rightarrow> int \<Rightarrow> mdb
    \<Rightarrow> (m_error + maintenance_state) \<times> mdb" where
  "admin_set_message mg a msg expected expected_revision now d =
     (case require mg a MAINTENANCE_WRITE of
        Inl e \<Rightarrow> (Inl e, d)
      | Inr _ \<Rightarrow>
          (case hold_set_message (ac_id a) (clean_message msg) expected expected_revision now (md_hold d) of
             (None, h) \<Rightarrow> (Inl (StateConflict (''revision '' @ show_int expected_revision @ '' is no longer current'')), d)
           | (Some saved, h) \<Rightarrow>
               (Inr saved, recorded ''maintenance.message_set'' ''platform'' ''success'' [] (d\<lparr>md_hold := h\<rparr>))))"

definition latest_operation :: "manage \<Rightarrow> actor \<Rightarrow> mdb \<Rightarrow> m_error + m_view option" where
  "latest_operation mg a d =
     ebind (require mg a MAINTENANCE_READ) (\<lambda>_. Inr (if mg_operations mg then op_latest d else None))"

text \<open>The check every path that spends the runtime makes.\<close>

definition assert_serving :: "mdb \<Rightarrow> m_error + unit" where
  "assert_serving d =
     ebind (read_hold d) (\<lambda>st. if admission_closed st then Inl (MaintenanceClosed (epoch st)) else Inr ())"

end
