(* ===== verification/Coordinator.thy ===== *)
theory Coordinator
  imports Manage_Maintenance Async_Program
begin

text \<open>
  The maintenance coordinator, \<open>src/backend/app/application/use_cases/maintenance_coordinator.py\<close>: what a
  pass does, as trees of the calls it awaits. A call is a transaction of \<open>CoordinatorStore\<close>, a request to
  a node's agent (its answer is whatever the agent says) or a random token.
\<close>

section \<open>Calls\<close>

record node_error =
  ne_message :: string
  ne_status :: "int option"
  ne_refused :: "string option"
  ne_body :: jobj

datatype node_call =
    NInterrupt int | NResidency | NReset int string | NRestore int string string jobj

text \<open>
  \<open>NodeCall i n c\<close> asks the agent of node \<open>n\<close> for operation \<open>i\<close>; an answer is the error raised or the
  document. The answer to \<open>residency\<close> is None when the runtime could not be asked.
\<close>

datatype request =
    Claim | Hold | GetOp string
  | Advance "string \<times> string" step_phase step_values
  | SetResetId "string \<times> string" string
  | AttemptFailed "string \<times> string" string bool bool
  | Finish string op_status "string option"
  | Rewind "string \<times> string" step_phase
  | ReopenAfter string int
  | AuditEvent string string string "(string \<times> string) list"
  | ControlFor string string
  | Token
  | NodeCall string string node_call

datatype answer =
    ABool bool | AView "m_view option" | AHold maintenance_state | AStep "node_step option"
  | AText string | ADoc "node_error + jobj" | AResidency "json list option"

datatype exn = LostRole | LaterPass | NodeControlError node_error | OtherError string

type_synonym 'a program = "(request, answer, exn, 'a) prog"

text \<open>One call, by the kind of its answer.\<close>

definition call_bool :: "request \<Rightarrow> bool program" where
  "call_bool q = Call q (\<lambda>r. case r of ABool b \<Rightarrow> Ret b | _ \<Rightarrow> Throw (OtherError ''TypeError''))"

definition call_view :: "request \<Rightarrow> m_view option program" where
  "call_view q = Call q (\<lambda>r. case r of AView v \<Rightarrow> Ret v | _ \<Rightarrow> Throw (OtherError ''TypeError''))"

definition call_hold :: "maintenance_state program" where
  "call_hold = Call Hold (\<lambda>r. case r of AHold h \<Rightarrow> Ret h | _ \<Rightarrow> Throw (OtherError ''TypeError''))"

definition call_step :: "request \<Rightarrow> node_step option program" where
  "call_step q = Call q (\<lambda>r. case r of AStep s \<Rightarrow> Ret s | _ \<Rightarrow> Throw (OtherError ''TypeError''))"

definition call_token :: "string program" where
  "call_token = Call Token (\<lambda>r. case r of AText s \<Rightarrow> Ret s | _ \<Rightarrow> Throw (OtherError ''TypeError''))"

definition call_doc :: "request \<Rightarrow> jobj program" where
  "call_doc q = Call q (\<lambda>r. case r of
     ADoc (Inr d) \<Rightarrow> Ret d | ADoc (Inl e) \<Rightarrow> Throw (NodeControlError e) | _ \<Rightarrow> Throw (OtherError ''TypeError''))"

definition call_residency :: "string \<Rightarrow> string \<Rightarrow> json list option program" where
  "call_residency i n = Call (NodeCall i n NResidency) (\<lambda>r. case r of
     AResidency x \<Rightarrow> Ret x | _ \<Rightarrow> Throw (OtherError ''TypeError''))"

definition raised :: "string \<Rightarrow> string option \<Rightarrow> exn" where
  "raised msg refused = NodeControlError \<lparr>ne_message = msg, ne_status = None, ne_refused = refused, ne_body = []\<rparr>"

definition audit_event :: "string \<Rightarrow> string \<Rightarrow> string \<Rightarrow> (string \<times> string) list \<Rightarrow> unit program" where
  "audit_event action target result detail = seq (call_bool (AuditEvent action target result detail)) (\<lambda>_. Ret ())"

section \<open>One phase of an entry\<close>

text \<open>\<open>_advance\<close>: the fenced write, then the step as it now is.\<close>

definition advance :: "node_step \<Rightarrow> step_phase \<Rightarrow> step_values \<Rightarrow> node_step program" where
  "advance s ph v =
     seq (call_bool (Advance (step_key s) ph v)) (\<lambda>ok.
       if \<not> ok then Throw LostRole
       else seq (call_view (GetOp (ns_operation s))) (\<lambda>r. case r of
         None \<Rightarrow> Throw LostRole
       | Some (_, steps) \<Rightarrow>
           (case List.find (\<lambda>t. ns_node t = ns_node s) steps of None \<Rightarrow> Throw LostRole | Some t \<Rightarrow> Ret t)))"

definition SNAPSHOT_TRIES :: int where
  "SNAPSHOT_TRIES = 3"

text \<open>The names of runtime entries; an entry that is no object raises.\<close>

fun entry_names :: "json list \<Rightarrow> json list option" where
  "entry_names [] = Some []"
| "entry_names (JObj d # rest) = map_option (\<lambda>xs. dget d ''name'' # xs) (entry_names rest)"
| "entry_names (j # rest) = None"

definition names_text :: "json list \<Rightarrow> string" where
  "names_text xs = py_repr (JList (map JStr (sort_by str_le (map py_str xs))))"

definition snapshot_summary :: "node_step \<Rightarrow> string" where
  "snapshot_summary s = (case ns_snapshot s of
     None \<Rightarrow> ''none: '' @ show_opt_str (ns_snapshot_error s)
   | Some es \<Rightarrow> (let t = join_with '','' (map name_of es) in if t = [] then ''empty'' else t))"

definition interrupt_phase :: "m_op \<Rightarrow> node_step \<Rightarrow> node_step program" where
  "interrupt_phase r s =
     seq (call_doc (NodeCall (mo_id r) (ns_node s) (NInterrupt (mo_epoch r)))) (\<lambda>report.
       if \<not> truthy (dget report ''quiescent'')
       then Throw (raised (''senders still talking to the runtime: '' @ py_str (dget report ''still_sending'')) None)
       else advance s PhInterrupted (no_values\<lparr>sv_interrupt := Some report\<rparr>))"

definition snapshot_phase :: "m_op \<Rightarrow> node_step \<Rightarrow> node_step program" where
  "snapshot_phase r s =
     (if snapshot_taken s then advance s PhSnapshotted no_values
      else seq (call_residency (mo_id r) (ns_node s)) (\<lambda>resident. case resident of
        Some es \<Rightarrow> advance s PhSnapshotted (no_values\<lparr>sv_snapshot := Some (snapshot_of es)\<rparr>)
      | None \<Rightarrow>
          if ns_attempts s + 1 < SNAPSHOT_TRIES
          then Throw (raised ''the runtime could not be observed for the snapshot'' None)
          else advance s PhSnapshotted (no_values\<lparr>sv_snapshot_error :=
            Some ''the runtime could not be observed before the reset; it cannot be restored automatically''\<rparr>)))"

definition reset_call :: "m_op \<Rightarrow> node_step \<Rightarrow> string \<Rightarrow> node_step program" where
  "reset_call r s rid =
     seq (handle (call_doc (NodeCall (mo_id r) (ns_node s) (NReset (mo_epoch r) rid))) (\<lambda>e. case e of
         NodeControlError ne \<Rightarrow>
           if ne_refused ne = Some ''node_not_quiescent''
           then seq (advance s PhPending no_values) (\<lambda>_. Throw LaterPass)
           else Throw e
       | _ \<Rightarrow> Throw e)) (\<lambda>report.
       advance s PhReset (no_values\<lparr>sv_reset := Some report,
                                    sv_accounting := Some (py_str (dget report ''accounting''))\<rparr>))"

definition reset_phase :: "m_op \<Rightarrow> node_step \<Rightarrow> node_step program" where
  "reset_phase r s = (case ns_reset_id s of
     Some rid \<Rightarrow> reset_call r s rid
   | None \<Rightarrow>
       seq call_token (\<lambda>rid.
       seq (call_bool (SetResetId (step_key s) rid)) (\<lambda>ok.
         if ok then reset_call r s rid else Throw LostRole)))"

definition VERIFIED_EMPTY :: verification where
  "VERIFIED_EMPTY = \<lparr>vf_resident = Some [], vf_fresh = True, vf_loads = [], vf_probes = [], vf_attempts = 0\<rparr>"

definition verify_phase :: "m_op \<Rightarrow> node_step \<Rightarrow> node_step program" where
  "verify_phase r s =
     seq (call_residency (mo_id r) (ns_node s)) (\<lambda>resident. case resident of
       None \<Rightarrow> Throw (raised ''the restarted runtime does not answer yet'' None)
     | Some [] \<Rightarrow>
         seq (advance s PhVerified (no_values\<lparr>sv_verification := Some VERIFIED_EMPTY\<rparr>)) (\<lambda>done_step.
         seq (audit_event ''maintenance.node_cleared'' (ns_node s) ''success''
                [(''epoch'', show_int (mo_epoch r)), (''operation'', mo_id r), (''snapshot'', snapshot_summary s),
                 (''accounting'', if ns_accounting s = None \<or> ns_accounting s = Some [] then ''unknown'' else the (ns_accounting s)),
                 (''reset_id'', case ns_reset_id s of None \<Rightarrow> [] | Some i \<Rightarrow> i)]) (\<lambda>_. Ret done_step))
     | Some es \<Rightarrow>
         (case entry_names es of
            None \<Rightarrow> Throw (OtherError ''AttributeError'')
          | Some ns \<Rightarrow> Throw (raised (''models are resident after the reset: '' @ names_text ns) None)))"

definition next_phase :: "m_op \<Rightarrow> node_step \<Rightarrow> node_step program" where
  "next_phase r s = (case ns_phase s of
     PhPending \<Rightarrow> interrupt_phase r s
   | PhInterrupted \<Rightarrow> snapshot_phase r s
   | PhSnapshotted \<Rightarrow> reset_phase r s
   | PhReset \<Rightarrow> verify_phase r s
   | p \<Rightarrow> Throw (OtherError ''AssertionError''))"

section \<open>One phase of a restore\<close>

definition NO_PROGRESS :: verification where
  "NO_PROGRESS = \<lparr>vf_resident = None, vf_fresh = False, vf_loads = [], vf_probes = [], vf_attempts = 0\<rparr>"

definition progress_of :: "node_step \<Rightarrow> verification" where
  "progress_of s = (case ns_verification s of None \<Rightarrow> NO_PROGRESS | Some v \<Rightarrow> v)"

definition only_loads :: "load list \<Rightarrow> step_values" where
  "only_loads loads = no_values\<lparr>sv_verification := Some (NO_PROGRESS\<lparr>vf_loads := loads\<rparr>)\<rparr>"

definition verified_by :: "verification \<Rightarrow> step_values" where
  "verified_by v = no_values\<lparr>sv_verification := Some v\<rparr>"

definition strangers :: "jobj list \<Rightarrow> json list \<Rightarrow> string list option" where
  "strangers snap resident =
     map_option (\<lambda>ns. sort_by str_le (map py_str
       (filter (\<lambda>n. \<not> list_ex (\<lambda>m. py_eq n (dget m ''name'')) snap) ns))) (entry_names resident)"

text \<open>\<open>all(resident_matches(m, resident) for m in snapshot)\<close>, which stops at the first that does not.\<close>

fun all_match :: "jobj list \<Rightarrow> json list \<Rightarrow> bool option" where
  "all_match [] resident = Some True"
| "all_match (m # ms) resident = (case resident_matches m resident of
     Some True \<Rightarrow> all_match ms resident | r \<Rightarrow> r)"

fun missing_of :: "jobj list \<Rightarrow> json list \<Rightarrow> jobj list option" where
  "missing_of [] resident = Some []"
| "missing_of (m # ms) resident = (case (resident_matches m resident, missing_of ms resident) of
     (Some b, Some rest) \<Rightarrow> Some (if b then rest else m # rest) | _ \<Rightarrow> None)"

definition attribute :: "'a option \<Rightarrow> 'a program" where
  "attribute x = (case x of None \<Rightarrow> Throw (OtherError ''AttributeError'') | Some y \<Rightarrow> Ret y)"

text \<open>\<open>_observe\<close> and \<open>_no_strangers\<close>.\<close>

definition observe_node :: "m_op \<Rightarrow> node_step \<Rightarrow> jobj list \<Rightarrow> json list program" where
  "observe_node r s snap =
     seq (call_residency (mo_id r) (ns_node s)) (\<lambda>x. case x of
       None \<Rightarrow> Throw (raised ''the runtime could not be observed'' None)
     | Some resident \<Rightarrow>
         seq (attribute (strangers snap resident)) (\<lambda>xs.
           if xs \<noteq> []
           then Throw (raised (''models the snapshot did not hold are resident: '' @ py_repr (JList (map JStr xs)))
                         (Some ''unexpected_resident''))
           else Ret resident))"

definition model_args :: "jobj \<Rightarrow> jobj" where
  "model_args m = [(''name'', JStr (name_of m)), (''digest'', dget m ''digest''),
                   (''context_length'', dget m ''context_length'')]"

definition load_id :: "m_op \<Rightarrow> nat \<Rightarrow> string" where
  "load_id r n = ''restore-'' @ take 16 (mo_id r) @ ''-'' @ show_int (int n)"

definition set_last :: "json \<Rightarrow> load list \<Rightarrow> load list" where
  "set_last st loads = (case rev loads of [] \<Rightarrow> [] | l # ls \<Rightarrow> rev (l\<lparr>ld_state := st\<rparr> # ls))"

text \<open>The load just recorded is asked for; a stored failure is recorded before it is raised.\<close>

definition ask_load :: "m_op \<Rightarrow> node_step \<Rightarrow> string \<Rightarrow> jobj \<Rightarrow> load list \<Rightarrow> node_step program" where
  "ask_load r s oid m loads =
     seq (handle (call_doc (NodeCall (mo_id r) (ns_node s) (NRestore (mo_epoch r) oid ''load'' (model_args m)))) (\<lambda>e. case e of
         NodeControlError ne \<Rightarrow>
           if dget (ne_body ne) ''state'' = JStr ''failed''
           then seq (advance s PhPending (only_loads (set_last (JStr ''failed'') loads))) (\<lambda>_. Throw e)
           else Throw e
       | _ \<Rightarrow> Throw e)) (\<lambda>doc.
       advance s PhPending (only_loads (set_last (dget doc ''state'') loads)))"

definition load_one :: "m_op \<Rightarrow> node_step \<Rightarrow> jobj \<Rightarrow> load list \<Rightarrow> node_step program" where
  "load_one r s m loads =
     (if loads \<noteq> [] \<and> py_eq (ld_name (last loads)) (dget m ''name'') \<and> \<not> truthy (ld_state (last loads))
      then ask_load r s (ld_op (last loads)) m loads
      else (let oid = load_id r (length loads);
                loads' = loads @ [\<lparr>ld_op = oid, ld_name = dget m ''name'', ld_state = JNull\<rparr>] in
            seq (advance s PhPending (only_loads loads')) (\<lambda>s'. ask_load r s' oid m loads')))"

definition load_phase :: "m_op \<Rightarrow> node_step \<Rightarrow> jobj list \<Rightarrow> node_step program" where
  "load_phase r s snap =
     (let progress = progress_of s; loads = vf_loads progress in
      seq (observe_node r s snap) (\<lambda>resident.
      seq (attribute (missing_of snap resident)) (\<lambda>missing. case missing of
        [] \<Rightarrow> advance s PhLoaded (verified_by (progress\<lparr>vf_probes := []\<rparr>))
      | m # _ \<Rightarrow>
          if length loads \<ge> length snap * (1 + MAX_REPAIR_ROUNDS)
          then Throw (raised (''still missing after '' @ show_int (int (length loads)) @ '' loads: ''
                 @ py_repr (JList (map (\<lambda>m. dget m ''name'') missing))) (Some ''repairs_exhausted''))
          else load_one r s m loads)))"

definition probe_id :: "m_op \<Rightarrow> nat \<Rightarrow> int \<Rightarrow> string" where
  "probe_id r loads n = ''probe-'' @ take 16 (mo_id r) @ ''-'' @ show_int (int loads) @ ''-'' @ show_int n"

text \<open>One model's probe, from its recorded attempt to its recorded outcome.\<close>

definition ask_probe :: "m_op \<Rightarrow> verification \<Rightarrow> node_step \<Rightarrow> jobj \<Rightarrow> (string \<times> probe) list \<Rightarrow> int \<Rightarrow> probe
    \<Rightarrow> (node_step \<times> (string \<times> probe) list) program" where
  "ask_probe r progress s m probes n p =
     (let put = (\<lambda>st. AList.update (name_of m) (p\<lparr>pb_state := st\<rparr>) probes);
          save = (\<lambda>ps. verified_by (progress\<lparr>vf_probes := ps, vf_attempts := n\<rparr>)) in
      seq (handle (call_doc (NodeCall (mo_id r) (ns_node s)
             (NRestore (mo_epoch r) (pb_op p) ''probe'' (model_args m)))) (\<lambda>e. case e of
         NodeControlError ne \<Rightarrow>
           if dget (ne_body ne) ''state'' = JStr ''failed''
           then seq (advance s PhLoaded (save (put (JStr ''failed'')))) (\<lambda>_. Throw e)
           else Throw e
       | _ \<Rightarrow> Throw e)) (\<lambda>doc.
      seq (advance s PhLoaded (save (put (dget doc ''state'')))) (\<lambda>s'. Ret (s', put (dget doc ''state'')))))"

fun probe_all :: "m_op \<Rightarrow> verification \<Rightarrow> node_step \<Rightarrow> jobj list \<Rightarrow> (string \<times> probe) list \<Rightarrow> int \<Rightarrow> node_step program" where
  "probe_all r progress s [] probes n = Ret s"
| "probe_all r progress s (m # ms) probes n =
     (case map_of probes (name_of m) of
        Some p \<Rightarrow>
          if pb_state p = JStr ''completed'' then probe_all r progress s ms probes n
          else if pb_state p = JNull
          then seq (ask_probe r progress s m probes n p) (\<lambda>(s', ps). probe_all r progress s' ms ps n)
          else (let p' = \<lparr>pb_op = probe_id r (length (vf_loads progress)) (n + 1), pb_state = JNull\<rparr>;
                    ps = AList.update (name_of m) p' probes in
                seq (advance s PhLoaded (verified_by (progress\<lparr>vf_probes := ps, vf_attempts := n + 1\<rparr>))) (\<lambda>s1.
                seq (ask_probe r progress s1 m ps (n + 1) p') (\<lambda>(s2, ps2). probe_all r progress s2 ms ps2 (n + 1))))
      | None \<Rightarrow>
          (let p' = \<lparr>pb_op = probe_id r (length (vf_loads progress)) (n + 1), pb_state = JNull\<rparr>;
               ps = AList.update (name_of m) p' probes in
           seq (advance s PhLoaded (verified_by (progress\<lparr>vf_probes := ps, vf_attempts := n + 1\<rparr>))) (\<lambda>s1.
           seq (ask_probe r progress s1 m ps (n + 1) p') (\<lambda>(s2, ps2). probe_all r progress s2 ms ps2 (n + 1)))))"

definition still_whole :: "m_op \<Rightarrow> node_step \<Rightarrow> jobj list \<Rightarrow> step_phase \<Rightarrow> verification \<Rightarrow> node_step program" where
  "still_whole r s snap ph progress =
     seq (observe_node r s snap) (\<lambda>resident.
     seq (attribute (all_match snap resident)) (\<lambda>whole.
     seq (attribute (entry_names resident)) (\<lambda>ns.
       if whole
       then advance s ph (verified_by (progress\<lparr>vf_resident := Some (sort_by str_le (map py_str ns))\<rparr>))
       else advance s PhPending (only_loads (vf_loads progress)))))"

definition probe_phase :: "m_op \<Rightarrow> node_step \<Rightarrow> jobj list \<Rightarrow> node_step program" where
  "probe_phase r s snap =
     (let progress = progress_of s in
      seq (probe_all r progress s snap (vf_probes progress) (vf_attempts progress)) (\<lambda>s'.
        still_whole r s' snap PhProbed (progress_of s')))"

definition confirm_phase :: "m_op \<Rightarrow> node_step \<Rightarrow> jobj list \<Rightarrow> node_step program" where
  "confirm_phase r s snap =
     seq (still_whole r s snap PhVerified (progress_of s)) (\<lambda>t.
       if ns_phase t = PhVerified
       then seq (audit_event ''maintenance.node_restored'' (ns_node s) ''success''
              [(''epoch'', show_int (mo_epoch r)), (''operation'', mo_id r),
               (''models'', let x = join_with '','' (map name_of snap) in if x = [] then ''none'' else x),
               (''loads'', show_int (int (length (vf_loads (progress_of s)))))]) (\<lambda>_. Ret t)
       else Ret t)"

definition next_restore :: "m_op \<Rightarrow> node_step \<Rightarrow> node_step program" where
  "next_restore r s =
     seq (of_sum OtherError (restore_order (case ns_snapshot s of None \<Rightarrow> [] | Some es \<Rightarrow> es))) (\<lambda>snap.
       case ns_phase s of
         PhPending \<Rightarrow> load_phase r s snap
       | PhLoaded \<Rightarrow> probe_phase r s snap
       | PhProbed \<Rightarrow> confirm_phase r s snap
       | p \<Rightarrow> Throw (OtherError ''AssertionError''))"

section \<open>One node, and the operation\<close>

definition FINAL_REFUSALS :: "string list" where
  "FINAL_REFUSALS = [''restart_failed'', ''repairs_exhausted'', ''unexpected_resident'']"

definition step_failed :: "node_step \<Rightarrow> node_error \<Rightarrow> bool \<Rightarrow> bool \<Rightarrow> unit program" where
  "step_failed s e final clear =
     seq (call_step (AttemptFailed (step_key s) (ne_message e) clear final)) (\<lambda>u. case u of
       Some t \<Rightarrow>
         if ns_status t = StFailed
         then audit_event ''maintenance.node_failed'' (ns_node s) ''failed''
                [(''phase'', phase_value (ns_phase s)), (''error'', take 500 (ne_message e))]
         else Ret ()
     | None \<Rightarrow> Ret ())"

text \<open>
  One turn of \<open>_carry\<close>'s loop: the step as it now is when it still runs, None when the node is done for
  this pass. The loop itself is in the step relation, so nothing bounds it here.
\<close>

definition carry_turn :: "m_op \<Rightarrow> node_step \<Rightarrow> node_step option program" where
  "carry_turn r s =
     handle (seq (if mo_kind r = RestoreKind then next_restore r s else next_phase r s) (\<lambda>t.
               Ret (if is_running t then Some t else None)))
       (\<lambda>e. case e of
          LostRole \<Rightarrow> Ret None
        | LaterPass \<Rightarrow> Ret None
        | NodeControlError ne \<Rightarrow>
            seq (step_failed s ne
                  ((case ne_refused ne of None \<Rightarrow> False | Some x \<Rightarrow> x \<in> set FINAL_REFUSALS) \<or> ne_status ne = Some 422)
                  (ne_refused ne = Some ''restart_failed'')) (\<lambda>_. Ret None)
        | OtherError x \<Rightarrow> Throw e)"

definition carry_start :: "m_op \<Rightarrow> node_step \<Rightarrow> node_step option program" where
  "carry_start r s =
     seq (call_bool (ControlFor (mo_id r) (ns_node s))) (\<lambda>ok.
       if ok then Ret (Some s)
       else seq (step_failed s \<lparr>ne_message = ''the node has no agent this coordinator can control'',
                    ne_status = None, ne_refused = None, ne_body = []\<rparr> True False) (\<lambda>_. Ret None))"

definition failed_text :: "node_step list \<Rightarrow> string" where
  "failed_text steps = take 2000 (join_with ''; '' (map (\<lambda>s. ns_node s @ '' at '' @ phase_value (ns_phase s) @ '': ''
      @ show_opt_str (ns_error s)) (filter (\<lambda>s. ns_status s = StFailed) steps)))"

definition count_text :: "'a list \<Rightarrow> string" where
  "count_text xs = show_int (int (length xs))"

definition close_detail :: "m_op \<Rightarrow> (string \<times> string) list" where
  "close_detail r = [(''epoch'', show_int (mo_epoch r)), (''operation'', mo_id r)]"

definition close_failed :: "string \<Rightarrow> m_op \<Rightarrow> node_step list \<Rightarrow> (string \<times> string) list \<Rightarrow> unit program" where
  "close_failed action r steps detail =
     seq (call_bool (Finish (mo_id r) OpFailed (Some (failed_text steps)))) (\<lambda>ok.
       if ok then audit_event action ''platform'' ''failed''
              (detail @ [(''failed'', count_text (filter (\<lambda>s. ns_status s = StFailed) steps))])
       else Ret ())"

definition any_failed :: "node_step list \<Rightarrow> bool" where
  "any_failed steps \<longleftrightarrow> list_ex (\<lambda>s. ns_status s = StFailed) steps"

definition close_entry :: "m_op \<Rightarrow> node_step list \<Rightarrow> unit program" where
  "close_entry r steps =
     (let detail = close_detail r @ [(''nodes'', count_text steps)] in
      if any_failed steps then close_failed ''maintenance.entry_failed'' r steps detail
      else seq (call_bool (Finish (mo_id r) OpSucceeded None)) (\<lambda>ok.
        if ok then audit_event ''maintenance.entry_cleared'' ''platform'' ''success''
               (detail @ [(''accounting_unresolved'', join_with '','' (map ns_node
                  (filter (\<lambda>s. ns_accounting s \<noteq> Some ''resolved'') steps)))])
        else Ret ()))"

text \<open>One node just before the platform reopens: True when it is still whole.\<close>

definition check_node :: "m_op \<Rightarrow> node_step \<Rightarrow> bool program" where
  "check_node r s =
     (let snap = (case ns_snapshot s of None \<Rightarrow> [] | Some es \<Rightarrow> es) in
      seq (call_bool (ControlFor (mo_id r) (ns_node s))) (\<lambda>ok.
      seq (if ok then call_residency (mo_id r) (ns_node s) else Ret None) (\<lambda>x. case x of
        None \<Rightarrow> Ret False
      | Some resident \<Rightarrow>
          seq (attribute (all_match snap resident)) (\<lambda>whole.
            if \<not> whole then Ret False
            else if resident = [] then Ret True
            else seq (attribute (strangers snap resident)) (\<lambda>xs. Ret (xs = []))))))"

fun check_all :: "m_op \<Rightarrow> node_step list \<Rightarrow> node_step option program" where
  "check_all r [] = Ret None"
| "check_all r (s # ss) = seq (check_node r s) (\<lambda>whole. if whole then check_all r ss else Ret (Some s))"

definition close_restore :: "m_op \<Rightarrow> node_step list \<Rightarrow> unit program" where
  "close_restore r steps =
     (if any_failed steps then close_failed ''maintenance.restore_failed'' r steps (close_detail r)
      else seq (check_all r steps) (\<lambda>changed. case changed of
        Some s \<Rightarrow> seq (call_bool (Rewind (step_key s) PhPending)) (\<lambda>_. Ret ())
      | None \<Rightarrow>
          seq (call_bool (ReopenAfter (mo_id r) (mo_epoch r))) (\<lambda>ok.
            if ok then audit_event ''maintenance.restored'' ''platform'' ''success''
                   (close_detail r @ [(''nodes'', count_text steps)])
            else Ret ())))"

definition close_op :: "m_op \<Rightarrow> node_step list \<Rightarrow> unit program" where
  "close_op r steps = (if mo_kind r = RestoreKind then close_restore r steps else close_entry r steps)"

definition abandon_op :: "m_op \<Rightarrow> maintenance_state \<Rightarrow> unit program" where
  "abandon_op r h =
     (let why = (if \<not> admission_closed h then ''the hold was lifted before the entry finished''
                 else ''a later entry (epoch '' @ show_int (epoch h) @ '') superseded this one'') in
      seq (call_bool (Finish (mo_id r) OpAbandoned (Some why))) (\<lambda>ok.
        if ok then audit_event ''maintenance.entry_abandoned'' ''platform'' ''failed''
               (close_detail r @ [(''reason'', why)])
        else Ret ()))"

section \<open>A pass\<close>

definition pass_end :: "string \<Rightarrow> m_op \<Rightarrow> node_step list \<Rightarrow> unit program" where
  "pass_end me r steps =
     (if list_ex is_running steps then Ret ()
      else if mo_owner r \<noteq> None \<and> mo_owner r \<noteq> Some me then Ret ()
      else close_op r steps)"

datatype pass_result = NoOperation | PassOver | CarryOn m_op "node_step list"

definition pass_begin :: "string \<Rightarrow> pass_result program" where
  "pass_begin me =
     seq (call_view Claim) (\<lambda>v. case v of
       None \<Rightarrow> Ret NoOperation
     | Some (r, steps) \<Rightarrow>
         seq call_hold (\<lambda>h.
           if \<not> admission_closed h \<or> epoch h \<noteq> mo_epoch r then seq (abandon_op r h) (\<lambda>_. Ret PassOver)
           else if list_ex is_running steps then Ret (CarryOn r (filter is_running steps))
           else seq (pass_end me r steps) (\<lambda>_. Ret PassOver)))"

definition pass_after :: "string \<Rightarrow> string \<Rightarrow> unit program" where
  "pass_after me i =
     seq (call_view (GetOp i)) (\<lambda>v. case v of None \<Rightarrow> Ret () | Some (r, steps) \<Rightarrow> pass_end me r steps)"

end
