(* ===== verification/Coordinator_Protocol.thy ===== *)
theory Coordinator_Protocol
  imports Coordinator
begin

text \<open>
  Any number of coordinators (each with its own owner id), administrators and nodes, interleaved at the
  awaits of \<open>src/backend/app/application/use_cases/maintenance_coordinator.py\<close>; a transaction may fail,
  before or after its commit, and a coordinator may die. Each transaction is atomic.
\<close>

section \<open>The world a call meets\<close>

text \<open>
  \<open>Ev i n c r\<close>: the agent of node \<open>n\<close> answered \<open>r\<close> to call \<open>c\<close>, made for operation \<open>i\<close>. \<open>Wrote i\<close>: a step
  of operation \<open>i\<close> changed its phase, status or attempts. Both are only recorded for the statements below.
\<close>

datatype event = Ev string string node_call answer | Wrote string

record world =
  w_db :: mdb
  w_log :: "event list"

record coord_config =
  cc_lease :: int
  cc_max_attempts :: int

definition MAX_ATTEMPTS :: int where
  "MAX_ATTEMPTS = 5"

definition COORDINATOR_ID :: string where
  "COORDINATOR_ID = ''maintenance-coordinator''"

definition noting :: "bool \<Rightarrow> event \<Rightarrow> mdb \<Rightarrow> world \<Rightarrow> world" where
  "noting b e d w = w\<lparr>w_db := d, w_log := (if b then w_log w @ [e] else w_log w)\<rparr>"

text \<open>
  One call of the coordinator \<open>me\<close> at the time \<open>now\<close>: its answer and the world after it. \<open>said\<close> is what a
  node, the node table or the random generator answers; None when that is no answer to this call.
\<close>

definition perform :: "coord_config \<Rightarrow> string \<Rightarrow> int \<Rightarrow> answer \<Rightarrow> request \<Rightarrow> world \<Rightarrow> (answer \<times> world) option" where
  "perform cc me now said q w = (let d = w_db w in case q of
     Claim \<Rightarrow> (let (v, d') = op_claim me (cc_lease cc) now d in Some (AView v, w\<lparr>w_db := d'\<rparr>))
   | Hold \<Rightarrow> (case md_hold d of None \<Rightarrow> None | Some h \<Rightarrow> Some (AHold h, w))
   | GetOp i \<Rightarrow> Some (AView (op_get i d), w)
   | Advance k ph v \<Rightarrow> (let (b, d') = op_advance k me ph v now d in Some (ABool b, noting b (Wrote (fst k)) d' w))
   | SetResetId k rid \<Rightarrow> (let (b, d') = op_set_reset_id k me rid now d in Some (ABool b, w\<lparr>w_db := d'\<rparr>))
   | AttemptFailed k err final clear \<Rightarrow>
       (let (u, d') = op_attempt_failed k me err (cc_max_attempts cc) clear final now d
        in Some (AStep u, noting (u \<noteq> None) (Wrote (fst k)) d' w))
   | Finish i st err \<Rightarrow> (let (b, d') = op_finish i me st err now d in Some (ABool b, w\<lparr>w_db := d'\<rparr>))
   | Rewind k ph \<Rightarrow> (let (b, d') = op_rewind k me ph now d in Some (ABool b, noting b (Wrote (fst k)) d' w))
   | ReopenAfter i ep \<Rightarrow> (let (b, d') = reopen_after COORDINATOR_ID i me ep now d in Some (ABool b, w\<lparr>w_db := d'\<rparr>))
   | AuditEvent action target result detail \<Rightarrow> Some (ABool True, w\<lparr>w_db := recorded action target result detail d\<rparr>)
   | ControlFor i n \<Rightarrow> (case said of ABool b \<Rightarrow> Some (said, w) | _ \<Rightarrow> None)
   | Token \<Rightarrow> (case said of AText t \<Rightarrow> Some (said, w) | _ \<Rightarrow> None)
   | NodeCall i n c \<Rightarrow>
       (case (c, said) of
          (NResidency, AResidency x) \<Rightarrow> Some (said, noting True (Ev i n c said) d w)
        | (NResidency, _) \<Rightarrow> None
        | (_, ADoc x) \<Rightarrow> Some (said, noting True (Ev i n c said) d w)
        | _ \<Rightarrow> None))"

definition does :: "coord_config \<Rightarrow> string \<Rightarrow> request \<Rightarrow> world \<Rightarrow> answer \<Rightarrow> world \<Rightarrow> bool" where
  "does cc me q w r w' \<longleftrightarrow> (\<exists>now said. perform cc me now said q w = Some (r, w'))"

section \<open>Interleavings\<close>

text \<open>One call of a tree, or its failure before or after it took effect.\<close>

inductive moves :: "coord_config \<Rightarrow> string \<Rightarrow> 'a program \<Rightarrow> world \<Rightarrow> 'a program \<Rightarrow> world \<Rightarrow> bool"
  for cc me where
  answered: "does cc me q w r w' \<Longrightarrow> moves cc me (Call q k) w (k r) w'"
| fails_before: "moves cc me (Call q k) w (Throw (OtherError x)) w"
| fails_after: "does cc me q w r w' \<Longrightarrow> moves cc me (Call q k) w (Throw (OtherError x)) w'"

datatype main = MIdle | MBegin "pass_result program" | MCarry string | MAfter "unit program"

type_synonym node_task = "m_op \<times> node_step option program"

text \<open>
  A coordinator: its pass, the tasks of the nodes that pass carries, and tasks of earlier passes. A task
  that raises ends the pass (\<open>gather\<close> raises at once) while the others go on running beside the next one.
\<close>

record coordinator =
  cr_main :: main
  cr_tasks :: "node_task list"
  cr_left :: "node_task list"

inductive main_step :: "coord_config \<Rightarrow> string \<Rightarrow> world \<times> coordinator \<Rightarrow> world \<times> coordinator \<Rightarrow> bool"
  for cc me where
  wakes: "cr_main c = MIdle \<Longrightarrow> main_step cc me (w, c) (w, c\<lparr>cr_main := MBegin (pass_begin me)\<rparr>)"
| begins: "cr_main c = MBegin p \<Longrightarrow> moves cc me p w p' w' \<Longrightarrow> main_step cc me (w, c) (w', c\<lparr>cr_main := MBegin p'\<rparr>)"
| begin_raises: "cr_main c = MBegin (Throw e) \<Longrightarrow> main_step cc me (w, c) (w, c\<lparr>cr_main := MIdle\<rparr>)"
| begin_over: "cr_main c = MBegin (Ret v) \<Longrightarrow> v = NoOperation \<or> v = PassOver \<Longrightarrow>
     main_step cc me (w, c) (w, c\<lparr>cr_main := MIdle\<rparr>)"
| carries: "cr_main c = MBegin (Ret (CarryOn r steps)) \<Longrightarrow>
     main_step cc me (w, c) (w, c\<lparr>cr_main := MCarry (mo_id r), cr_tasks := map (\<lambda>s. (r, carry_start r s)) steps\<rparr>)"
| renews: "cr_main c = MCarry i \<Longrightarrow> op_renew i me (cc_lease cc) now (w_db w) = (b, d) \<Longrightarrow>
     main_step cc me (w, c) (w\<lparr>w_db := d\<rparr>, c)"
| gathered: "cr_main c = MCarry i \<Longrightarrow> \<forall>(r, p) \<in> set (cr_tasks c). p = Ret None \<Longrightarrow>
     main_step cc me (w, c) (w, c\<lparr>cr_main := MAfter (pass_after me i), cr_tasks := []\<rparr>)"
| gather_raises: "cr_main c = MCarry i \<Longrightarrow> cr_tasks c = ts @ (r, Throw e) # us \<Longrightarrow>
     main_step cc me (w, c) (w, c\<lparr>cr_main := MIdle, cr_tasks := [], cr_left := cr_left c @ ts @ us\<rparr>)"
| finishes: "cr_main c = MAfter p \<Longrightarrow> moves cc me p w p' w' \<Longrightarrow> main_step cc me (w, c) (w', c\<lparr>cr_main := MAfter p'\<rparr>)"
| finish_ends: "cr_main c = MAfter p \<Longrightarrow> p = Ret u \<or> p = Throw e \<Longrightarrow>
     main_step cc me (w, c) (w, c\<lparr>cr_main := MIdle\<rparr>)"
| dies: "main_step cc me (w, c) (w, \<lparr>cr_main = MIdle, cr_tasks = [], cr_left = []\<rparr>)"

inductive task_step :: "coord_config \<Rightarrow> string \<Rightarrow> world \<times> node_task \<Rightarrow> world \<times> node_task \<Rightarrow> bool" for cc me where
  runs: "moves cc me p w p' w' \<Longrightarrow> task_step cc me (w, r, p) (w', r, p')"
| turns: "task_step cc me (w, r, Ret (Some s)) (w, r, carry_turn r s)"

inductive coord_step :: "coord_config \<Rightarrow> string \<Rightarrow> world \<times> coordinator \<Rightarrow> world \<times> coordinator \<Rightarrow> bool" for cc me where
  main: "main_step cc me x y \<Longrightarrow> coord_step cc me x y"
| task: "cr_tasks c = ts @ t # us \<Longrightarrow> task_step cc me (w, t) (w', t') \<Longrightarrow>
     coord_step cc me (w, c) (w', c\<lparr>cr_tasks := ts @ t' # us\<rparr>)"
| left_over: "cr_left c = ts @ t # us \<Longrightarrow> task_step cc me (w, t) (w', t') \<Longrightarrow>
     coord_step cc me (w, c) (w', c\<lparr>cr_left := ts @ t' # us\<rparr>)"

text \<open>What administrators do to the same tables.\<close>

inductive admin_step :: "mdb \<Rightarrow> mdb \<Rightarrow> bool" where
  "admin_step d (snd (enter mg a msg expected fresh now d))"
| "admin_step d (snd (restore mg a fresh now d))"
| "admin_step d (snd (retry mg a now d))"
| "admin_step d (snd (admin_reopen mg a now d))"
| "admin_step d (snd (admin_set_message mg a msg expected expected_revision now d))"

record system =
  sy_world :: world
  sy_coord :: "string \<Rightarrow> coordinator"

inductive sys_step :: "coord_config \<Rightarrow> system \<Rightarrow> system \<Rightarrow> bool" for cc where
  administrator: "admin_step (w_db (sy_world s)) d \<Longrightarrow> sys_step cc s (s\<lparr>sy_world := (sy_world s)\<lparr>w_db := d\<rparr>\<rparr>)"
| coordinator: "coord_step cc me (sy_world s, sy_coord s me) (w, c) \<Longrightarrow>
     sys_step cc s (s\<lparr>sy_world := w, sy_coord := (sy_coord s)(me := c)\<rparr>)"

definition sys_init :: "maintenance_state option \<Rightarrow> system" where
  "sys_init h = \<lparr>sy_world = \<lparr>w_db = \<lparr>md_hold = h, md_ops = [], md_steps = [], md_audit = []\<rparr>, w_log = []\<rparr>,
     sy_coord = (\<lambda>_. \<lparr>cr_main = MIdle, cr_tasks = [], cr_left = []\<rparr>)\<rparr>"

abbreviation sys_reaches :: "coord_config \<Rightarrow> maintenance_state option \<Rightarrow> system \<Rightarrow> bool" where
  "sys_reaches cc h s \<equiv> (sys_step cc)\<^sup>*\<^sup>* (sys_init h) s"

end
