(* ===== verification/Coordinator_Invariants.thy ===== *)
theory Coordinator_Invariants
  imports Coordinator_Protocol
begin

text \<open>
  What every transaction of the maintenance tables keeps, whoever runs it: the evidence a step's columns
  hold (\<open>row_ok\<close>), the facts about a step that never change back (\<open>grown\<close>), and what a coordinator that
  holds an operation may rely on (\<open>hands_off\<close>).
\<close>

section \<open>Evidence\<close>

text \<open>An entry's phases in order, as the evidence they stand for.\<close>

definition interrupted :: "step_phase \<Rightarrow> bool" where
  "interrupted p \<longleftrightarrow> p \<in> {PhInterrupted, PhSnapshotted, PhReset, PhVerified}"

definition snapshotted :: "step_phase \<Rightarrow> bool" where
  "snapshotted p \<longleftrightarrow> p \<in> {PhSnapshotted, PhReset, PhVerified}"

definition was_reset :: "step_phase \<Rightarrow> bool" where
  "was_reset p \<longleftrightarrow> p \<in> {PhReset, PhVerified}"

lemmas phase_defs = interrupted_def snapshotted_def was_reset_def

definition answered_reset :: "m_op \<Rightarrow> string \<Rightarrow> jobj \<Rightarrow> event \<Rightarrow> bool" where
  "answered_reset r n rep e \<longleftrightarrow> (\<exists>rid. e = Ev (mo_id r) n (NReset (mo_epoch r) rid) (ADoc (Inr rep)))"

text \<open>The runtime of node \<open>n\<close> was observed empty after an answered reset of this entry.\<close>

definition emptied :: "m_op \<Rightarrow> string \<Rightarrow> event list \<Rightarrow> bool" where
  "emptied r n log \<longleftrightarrow> (\<exists>l1 e l2 l3 rep. log = l1 @ e # l2 @ Ev (mo_id r) n NResidency (AResidency (Some [])) # l3
     \<and> answered_reset r n rep e)"

definition enter_ok :: "m_op \<Rightarrow> node_step \<Rightarrow> event list \<Rightarrow> bool" where
  "enter_ok r s log \<longleftrightarrow>
     (\<forall>rep. ns_interrupt s = Some rep \<longrightarrow> truthy (dget rep ''quiescent'')
        \<and> Ev (mo_id r) (ns_node s) (NInterrupt (mo_epoch r)) (ADoc (Inr rep)) \<in> set log)
     \<and> (\<forall>rep. ns_reset s = Some rep \<longrightarrow> ns_accounting s = Some (py_str (dget rep ''accounting''))
        \<and> (\<exists>e \<in> set log. answered_reset r (ns_node s) rep e))
     \<and> (interrupted (ns_phase s) \<longrightarrow> ns_interrupt s \<noteq> None)
     \<and> (snapshotted (ns_phase s) \<longrightarrow> snapshot_taken s)
     \<and> (was_reset (ns_phase s) \<longrightarrow> ns_reset s \<noteq> None)
     \<and> (ns_phase s = PhVerified \<longrightarrow> emptied r (ns_node s) log)
     \<and> (ns_status s = StDone \<longleftrightarrow> ns_phase s = PhVerified)"

definition load_bound :: "jobj list \<Rightarrow> nat" where
  "load_bound snap = length snap * (1 + MAX_REPAIR_ROUNDS)"

definition loads_ok :: "m_op \<Rightarrow> jobj list \<Rightarrow> load list \<Rightarrow> bool" where
  "loads_ok r snap loads \<longleftrightarrow> length loads \<le> load_bound snap
     \<and> ld_op ` set loads \<subseteq> load_id r ` {..<load_bound snap}"

definition restore_ok :: "m_op \<Rightarrow> node_step \<Rightarrow> event list \<Rightarrow> bool" where
  "restore_ok r s log \<longleftrightarrow> (\<exists>snap. ns_snapshot s = Some snap \<and> loads_ok r snap (vf_loads (progress_of s))
       \<and> (\<forall>ep oid m a. Ev (mo_id r) (ns_node s) (NRestore ep oid ''load'' m) a \<in> set log \<longrightarrow>
            oid \<in> load_id r ` {..<load_bound snap}))
     \<and> (ns_status s = StDone \<longleftrightarrow> ns_phase s = PhVerified)"

definition row_ok :: "m_op \<Rightarrow> node_step \<Rightarrow> event list \<Rightarrow> bool" where
  "row_ok r s log = (if mo_kind r = EnterKind then enter_ok r s log else restore_ok r s log)"

definition all_done :: "string \<Rightarrow> mdb \<Rightarrow> bool" where
  "all_done i d \<longleftrightarrow> (\<forall>s \<in> set (md_steps d). ns_operation s = i \<longrightarrow> ns_status s = StDone)"

definition world_ok :: "world \<Rightarrow> bool" where
  "world_ok w \<longleftrightarrow> distinct (map mo_id (md_ops (w_db w))) \<and> distinct (map step_key (md_steps (w_db w)))
     \<and> (\<forall>s \<in> set (md_steps (w_db w)). \<exists>r. mop_at (w_db w) (ns_operation s) = Some r \<and> row_ok r s (w_log w))
     \<and> (\<forall>r \<in> set (md_ops (w_db w)). mo_status r = OpSucceeded \<longrightarrow> all_done (mo_id r) (w_db w))
     \<and> (\<forall>i n c a. Ev i n c a \<in> set (w_log w) \<longrightarrow> mop_at (w_db w) i \<noteq> None)"

section \<open>What only grows\<close>

definition grown :: "node_step \<Rightarrow> node_step \<Rightarrow> bool" where
  "grown s t \<longleftrightarrow> (snapshot_taken s \<longrightarrow> ns_snapshot t = ns_snapshot s \<and> ns_snapshot_error t = ns_snapshot_error s)
     \<and> (ns_interrupt s \<noteq> None \<longrightarrow> ns_interrupt t \<noteq> None) \<and> (ns_reset s \<noteq> None \<longrightarrow> ns_reset t \<noteq> None)"

definition same_op :: "m_op \<Rightarrow> m_op \<Rightarrow> bool" where
  "same_op r q \<longleftrightarrow> mo_id q = mo_id r \<and> mo_kind q = mo_kind r \<and> mo_epoch q = mo_epoch r"

definition grows_to :: "world \<Rightarrow> world \<Rightarrow> bool" where
  "grows_to w t \<longleftrightarrow> (\<exists>l. w_log t = w_log w @ l)
     \<and> (\<forall>i r. mop_at (w_db w) i = Some r \<longrightarrow> (\<exists>q. mop_at (w_db t) i = Some q \<and> same_op r q))
     \<and> (\<forall>k s. step_at (w_db w) k = Some s \<longrightarrow> (\<exists>u. step_at (w_db t) k = Some u \<and> grown s u))
     \<and> (\<forall>k. mop_at (w_db w) (fst k) \<noteq> None \<and> step_at (w_db w) k = None \<longrightarrow> step_at (w_db t) k = None)"

definition evolves :: "world \<Rightarrow> world \<Rightarrow> bool" where
  "evolves w t \<longleftrightarrow> grows_to w t \<and> (world_ok w \<longrightarrow> world_ok t)"

definition owned :: "string \<Rightarrow> string \<Rightarrow> mdb \<Rightarrow> bool" where
  "owned me i d \<longleftrightarrow> (\<exists>r. mop_at d i = Some r \<and> held_by me r)"

definition quiet :: "string \<Rightarrow> event list \<Rightarrow> bool" where
  "quiet i l \<longleftrightarrow> Wrote i \<notin> set l"

definition hands_off :: "string \<Rightarrow> world \<Rightarrow> world \<Rightarrow> bool" where
  "hands_off me w t \<longleftrightarrow> (\<forall>i. owned me i (w_db t) \<longrightarrow> mop_at (w_db w) i \<noteq> None \<longrightarrow>
     owned me i (w_db w) \<and> (all_done i (w_db w) \<longrightarrow> all_done i (w_db t)
        \<and> (\<exists>l. w_log t = w_log w @ l \<and> quiet i l)))"

lemma grown_refl [simp]: "grown s s"
  by (simp add: grown_def)

lemma grown_trans: "grown s t \<Longrightarrow> grown t u \<Longrightarrow> grown s u"
  by (auto simp: grown_def snapshot_taken_def)

lemma same_op_refl [simp]: "same_op r r"
  by (simp add: same_op_def)

lemma same_op_trans: "same_op r q \<Longrightarrow> same_op q p \<Longrightarrow> same_op r p"
  by (simp add: same_op_def)

lemma grows_to_refl [simp]: "grows_to w w"
  by (auto simp: grows_to_def intro: exI [of _ "[]"])

lemma grows_toD:
  assumes "grows_to w t"
  shows "\<exists>l. w_log t = w_log w @ l"
    "mop_at (w_db w) i = Some r \<Longrightarrow> \<exists>q. mop_at (w_db t) i = Some q \<and> same_op r q"
    "step_at (w_db w) k = Some s \<Longrightarrow> \<exists>u. step_at (w_db t) k = Some u \<and> grown s u"
    "mop_at (w_db w) (fst k) = Some r \<Longrightarrow> step_at (w_db w) k = None \<Longrightarrow> step_at (w_db t) k = None"
  using assms unfolding grows_to_def by blast+

lemma grows_to_trans:
  assumes wt: "grows_to w t" and tu: "grows_to t u"
  shows "grows_to w u"
  unfolding grows_to_def
proof (intro conjI allI impI)
  obtain l l' where "w_log t = w_log w @ l" "w_log u = w_log t @ l'"
    using wt tu unfolding grows_to_def by blast
  then show "\<exists>l. w_log u = w_log w @ l" by simp
next
  fix i r assume "mop_at (w_db w) i = Some r"
  then obtain q where q: "mop_at (w_db t) i = Some q" "same_op r q"
    using wt unfolding grows_to_def by blast
  then obtain p where "mop_at (w_db u) i = Some p" "same_op q p"
    using tu unfolding grows_to_def by blast
  then show "\<exists>p. mop_at (w_db u) i = Some p \<and> same_op r p"
    using q(2) same_op_trans by blast
next
  fix k s assume "step_at (w_db w) k = Some s"
  then obtain x where x: "step_at (w_db t) k = Some x" "grown s x"
    using wt unfolding grows_to_def by blast
  then obtain y where "step_at (w_db u) k = Some y" "grown x y"
    using tu unfolding grows_to_def by blast
  then show "\<exists>y. step_at (w_db u) k = Some y \<and> grown s y"
    using x(2) grown_trans by blast
next
  fix k assume a: "mop_at (w_db w) (fst k) \<noteq> None \<and> step_at (w_db w) k = None"
  then obtain r where r: "mop_at (w_db w) (fst k) = Some r" by blast
  obtain q where q: "mop_at (w_db t) (fst k) = Some q"
    using grows_toD(2) [OF wt r] by blast
  have "step_at (w_db t) k = None"
    using a by (intro grows_toD(4) [OF wt r]) simp
  then show "step_at (w_db u) k = None"
    by (rule grows_toD(4) [OF tu q])
qed

lemma evolves_refl [simp]: "evolves w w"
  by (simp add: evolves_def)

lemma evolves_trans: "evolves w t \<Longrightarrow> evolves t u \<Longrightarrow> evolves w u"
  using grows_to_trans by (auto simp: evolves_def)

lemma grows_to_op: "grows_to w t \<Longrightarrow> mop_at (w_db w) i \<noteq> None \<Longrightarrow> mop_at (w_db t) i \<noteq> None"
  unfolding grows_to_def by (metis not_None_eq)

lemma hands_off_refl [simp]: "hands_off me w w"
  by (auto simp: hands_off_def quiet_def intro: exI [of _ "[]"])

lemma hands_off_trans:
  assumes "hands_off me w t" "hands_off me t u" "grows_to w t"
  shows "hands_off me w u"
  unfolding hands_off_def
proof (intro allI impI)
  fix i
  assume u: "owned me i (w_db u)" and w: "mop_at (w_db w) i \<noteq> None"
  have t: "mop_at (w_db t) i \<noteq> None"
    using grows_to_op [OF assms(3) w] .
  have tu: "owned me i (w_db t)" "all_done i (w_db t) \<longrightarrow> all_done i (w_db u) \<and> (\<exists>l. w_log u = w_log t @ l \<and> quiet i l)"
    using assms(2) u t by (auto simp: hands_off_def)
  then have wt: "owned me i (w_db w)" "all_done i (w_db w) \<longrightarrow> all_done i (w_db t) \<and> (\<exists>l. w_log t = w_log w @ l \<and> quiet i l)"
    using assms(1) w by (auto simp: hands_off_def)
  show "owned me i (w_db w) \<and> (all_done i (w_db w) \<longrightarrow> all_done i (w_db u) \<and> (\<exists>l. w_log u = w_log w @ l \<and> quiet i l))"
  proof (intro conjI impI)
    show "owned me i (w_db w)" by (rule wt(1))
    assume "all_done i (w_db w)"
    with wt tu obtain l1 l2 where l: "all_done i (w_db u)" "w_log t = w_log w @ l1" "quiet i l1" "w_log u = w_log t @ l2" "quiet i l2"
      by blast
    then show "all_done i (w_db u)" "\<exists>l. w_log u = w_log w @ l \<and> quiet i l"
      by (auto simp: quiet_def intro: exI [of _ "l1 @ l2"])
  qed
qed

section \<open>One rule for every transaction\<close>

lemma answered_reset_same: "same_op r q \<Longrightarrow> answered_reset q n rep e = answered_reset r n rep e"
  by (simp add: same_op_def answered_reset_def)

lemma emptied_same: "same_op r q \<Longrightarrow> emptied q n log = emptied r n log"
  by (simp add: emptied_def answered_reset_same) (simp add: same_op_def)

lemma load_id_same: "same_op r q \<Longrightarrow> load_id q = load_id r"
  by (simp add: fun_eq_iff load_id_def same_op_def)

lemma row_ok_same: "same_op r q \<Longrightarrow> row_ok q s log = row_ok r s log"
  by (simp add: row_ok_def enter_ok_def restore_ok_def loads_ok_def answered_reset_same emptied_same load_id_same)
    (simp add: same_op_def)

lemma emptied_more: "emptied r n log \<Longrightarrow> emptied r n (log @ l)"
  unfolding emptied_def by (metis append.assoc append_Cons)

lemma emptied_now:
  "e \<in> set log \<Longrightarrow> answered_reset r n rep e \<Longrightarrow> emptied r n (log @ [Ev (mo_id r) n NResidency (AResidency (Some []))])"
  unfolding emptied_def by (metis append.assoc append_Cons append_Nil split_list)

text \<open>A load asked of a node belongs to the bounded set of its step.\<close>

definition event_ok :: "m_op \<Rightarrow> node_step \<Rightarrow> event \<Rightarrow> bool" where
  "event_ok r s e \<longleftrightarrow> (\<forall>ep oid m a snap. e = Ev (mo_id r) (ns_node s) (NRestore ep oid ''load'' m) a
     \<longrightarrow> ns_snapshot s = Some snap \<longrightarrow> oid \<in> load_id r ` {..<load_bound snap})"

lemma row_ok_more:
  assumes "row_ok r s log" "\<forall>e \<in> set l. event_ok r s e"
  shows "row_ok r s (log @ l)"
proof (cases "mo_kind r = EnterKind")
  case True
  with assms(1) show ?thesis
    unfolding row_ok_def enter_ok_def by (auto intro: emptied_more)
next
  case False
  with assms show ?thesis
    unfolding row_ok_def restore_ok_def event_ok_def by auto
qed

lemma row_at_map:
  assumes "\<And>r. r \<in> set t \<Longrightarrow> key (f r) = key r"
  shows "row_at key (map f t) k = map_option f (row_at key t k)"
  using assms by (induction t) auto

lemma all_done_same: "md_steps d = md_steps d' \<Longrightarrow> all_done i d = all_done i d'"
  by (simp add: all_done_def)

lemma evolves_by:
  assumes ops: "md_ops (w_db t) = map g (md_ops (w_db w)) @ nops"
    and steps: "md_steps (w_db t) = map f (md_steps (w_db w)) @ nsteps"
    and log: "w_log t = w_log w @ l"
    and op_kept: "\<And>r. r \<in> set (md_ops (w_db w)) \<Longrightarrow> same_op r (g r)"
    and key_kept: "\<And>s. s \<in> set (md_steps (w_db w)) \<Longrightarrow> step_key (f s) = step_key s \<and> grown s (f s)"
    and row_kept: "\<And>s r. world_ok w \<Longrightarrow> s \<in> set (md_steps (w_db w)) \<Longrightarrow> mop_at (w_db w) (ns_operation s) = Some r \<Longrightarrow>
      row_ok r s (w_log w) \<Longrightarrow> row_ok r (f s) (w_log w @ l)"
    and succeeded: "\<And>r. world_ok w \<Longrightarrow> r \<in> set (md_ops (w_db w)) \<Longrightarrow> mo_status (g r) = OpSucceeded \<Longrightarrow>
      all_done (mo_id r) (w_db t)"
    and fresh: "distinct (map mo_id nops)" "\<And>r. r \<in> set nops \<Longrightarrow> mop_at (w_db w) (mo_id r) = None \<and> mo_status r \<noteq> OpSucceeded"
      "distinct (map step_key nsteps)" "\<And>s. s \<in> set nsteps \<Longrightarrow> mop_at (w_db w) (ns_operation s) = None
         \<and> (\<exists>r \<in> set nops. mo_id r = ns_operation s \<and> row_ok r s (w_log w @ l))"
    and events: "\<And>i n c a. world_ok w \<Longrightarrow> Ev i n c a \<in> set l \<Longrightarrow> mop_at (w_db w) i \<noteq> None"
  shows "evolves w t"
proof -
  have op_at: "mop_at (w_db t) i = (case mop_at (w_db w) i of Some r \<Rightarrow> Some (g r) | None \<Rightarrow> row_at mo_id nops i)" for i
    using op_kept by (simp add: ops row_at_append row_at_map same_op_def split: option.splits)
  have step_at: "step_at (w_db t) k = (case step_at (w_db w) k of Some s \<Rightarrow> Some (f s) | None \<Rightarrow> row_at step_key nsteps k)" for k
    using key_kept by (simp add: steps row_at_append row_at_map split: option.splits)
  have grows: "grows_to w t"
    unfolding grows_to_def
  proof (intro conjI allI impI)
    show "\<exists>l. w_log t = w_log w @ l" using log by blast
    show "\<exists>q. mop_at (w_db t) i = Some q \<and> same_op r q" if "mop_at (w_db w) i = Some r" for i r
      using that op_kept by (auto simp: op_at dest: row_at_SomeD)
    show "\<exists>u. step_at (w_db t) k = Some u \<and> grown s u" if "step_at (w_db w) k = Some s" for k s
      using that key_kept by (auto simp: step_at dest: row_at_SomeD)
    show "step_at (w_db t) k = None" if "mop_at (w_db w) (fst k) \<noteq> None \<and> step_at (w_db w) k = None" for k
    proof -
      have "step_key s \<noteq> k" if "s \<in> set nsteps" for s
        using fresh(4) [OF that] \<open>mop_at (w_db w) (fst k) \<noteq> None \<and> step_at (w_db w) k = None\<close> by auto
      then have "row_at step_key nsteps k = None"
        by (simp add: row_at_None_iff)
      with that show ?thesis by (simp add: step_at)
    qed
  qed
  have "world_ok t" if ok: "world_ok w"
  proof -
    have ids: "distinct (map mo_id (md_ops (w_db t)))"
    proof -
      have "map (mo_id \<circ> g) (md_ops (w_db w)) = map mo_id (md_ops (w_db w))"
        using op_kept by (auto simp: same_op_def)
      with ok have "distinct (map (mo_id \<circ> g) (md_ops (w_db w)))"
        unfolding world_ok_def by metis
      moreover have "mo_id q \<noteq> mo_id r" if "q \<in> set (md_ops (w_db w))" "r \<in> set nops" for q r
        using that fresh(2) [of r] by (simp add: row_at_None_iff)
      moreover have "mo_id (g q) = mo_id q" if "q \<in> set (md_ops (w_db w))" for q
        using op_kept [OF that] by (simp add: same_op_def)
      ultimately show ?thesis
        using fresh(1) by (auto simp: ops)
    qed
    have keys: "distinct (map step_key (md_steps (w_db t)))"
    proof -
      have "map (step_key \<circ> f) (md_steps (w_db w)) = map step_key (md_steps (w_db w))"
        using key_kept by auto
      with ok have "distinct (map (step_key \<circ> f) (md_steps (w_db w)))"
        unfolding world_ok_def by metis
      moreover have same: "step_key (f s) = step_key s" if "s \<in> set (md_steps (w_db w))" for s
        using key_kept [OF that] by simp
      moreover have "step_key s \<noteq> step_key u" if "s \<in> set (md_steps (w_db w))" "u \<in> set nsteps" for s u
        using that ok fresh(4) [of u] by (auto simp: world_ok_def)
      ultimately show ?thesis
        using fresh(3) by (auto simp: steps comp_def)
    qed
    have rows: "\<exists>r. mop_at (w_db t) (ns_operation s) = Some r \<and> row_ok r s (w_log t)" if s: "s \<in> set (md_steps (w_db t))" for s
    proof (cases "s \<in> set nsteps")
      case True
      with fresh(4) obtain r where r: "mop_at (w_db w) (ns_operation s) = None" "r \<in> set nops"
          "mo_id r = ns_operation s" "row_ok r s (w_log w @ l)"
        by blast
      then have "row_at mo_id nops (ns_operation s) = Some r"
        using row_at_unique [OF fresh(1) r(2)] by simp
      with r show ?thesis by (simp add: op_at log)
    next
      case False
      then obtain u where u: "u \<in> set (md_steps (w_db w))" "s = f u"
        using s by (auto simp: steps)
      then obtain r where r: "mop_at (w_db w) (ns_operation u) = Some r" "row_ok r u (w_log w)"
        using ok by (auto simp: world_ok_def)
      have "same_op r (g r)"
        using r(1) op_kept by (auto dest: row_at_SomeD)
      moreover have "row_ok r (f u) (w_log w @ l)"
        by (rule row_kept [OF ok u(1) r])
      moreover have "ns_operation (f u) = ns_operation u"
        using key_kept [OF u(1)] by simp
      ultimately show ?thesis
        using r(1) u(2) by (simp add: op_at log row_ok_same)
    qed
    have good: "all_done (mo_id r) (w_db t)" if "r \<in> set (md_ops (w_db t))" "mo_status r = OpSucceeded" for r
    proof -
      from that fresh(2) obtain q where "q \<in> set (md_ops (w_db w))" "r = g q" by (auto simp: ops)
      with succeeded [OF ok, of q] that(2) op_kept [of q] show ?thesis by (simp add: same_op_def)
    qed
    have evs: "mop_at (w_db t) i \<noteq> None" if "Ev i n c a \<in> set (w_log t)" for i n c a
    proof -
      have "mop_at (w_db w) i \<noteq> None"
      proof (cases "Ev i n c a \<in> set l")
        case True
        then show ?thesis by (rule events [OF ok])
      next
        case False
        then have "Ev i n c a \<in> set (w_log w)" using that by (simp add: log)
        then show ?thesis using ok unfolding world_ok_def by blast
      qed
      then show ?thesis by (rule grows_to_op [OF grows])
    qed
    show ?thesis
      unfolding world_ok_def using ids keys rows good evs by blast
  qed
  with grows show ?thesis by (simp add: evolves_def)
qed

end
