(* ===== verification/Coordinator_Calls.thy ===== *)
theory Coordinator_Calls
  imports Coordinator_Invariants
begin

text \<open>
  Every call of a coordinator and every act of an administrator keeps the invariants of
  \<^theory_text>\<open>Coordinator_Invariants\<close>, provided a coordinator meets the obligation (\<open>duty\<close>) of the calls
  that could break them; and everybody else keeps their hands off an operation a coordinator holds.
\<close>

section \<open>Obligations\<close>

definition whole :: "jobj list \<Rightarrow> json list \<Rightarrow> bool" where
  "whole snap resident \<longleftrightarrow> all_match snap resident = Some True \<and> (resident = [] \<or> strangers snap resident = Some [])"

text \<open>
  All of an operation's steps are done, and since the last write to any of them every node was observed
  whole.
\<close>

definition observed_whole :: "string \<Rightarrow> string \<Rightarrow> jobj list option \<Rightarrow> event list \<Rightarrow> bool" where
  "observed_whole i n snap l \<longleftrightarrow> (\<exists>resident. Ev i n NResidency (AResidency (Some resident)) \<in> set l
     \<and> whole (case snap of None \<Rightarrow> [] | Some es \<Rightarrow> es) resident)"

definition fresh_whole :: "string \<Rightarrow> world \<Rightarrow> bool" where
  "fresh_whole i w \<longleftrightarrow> all_done i (w_db w) \<and> (\<exists>l1 l2. w_log w = l1 @ l2 \<and> quiet i l2
     \<and> (\<forall>s \<in> set (md_steps (w_db w)). ns_operation s = i \<longrightarrow> observed_whole i (ns_node s) (ns_snapshot s) l2))"

definition load_duty :: "string \<Rightarrow> string \<Rightarrow> node_call \<Rightarrow> mdb \<Rightarrow> bool" where
  "load_duty i n c d \<longleftrightarrow> (\<forall>ep oid m r s snap. c = NRestore ep oid ''load'' m \<longrightarrow> mop_at d i = Some r \<longrightarrow>
     step_at d (i, n) = Some s \<longrightarrow> ns_snapshot s = Some snap \<longrightarrow> oid \<in> load_id r ` {..<load_bound snap})"

definition advance_duty :: "string \<times> string \<Rightarrow> step_phase \<Rightarrow> step_values \<Rightarrow> world \<Rightarrow> bool" where
  "advance_duty k ph v w \<longleftrightarrow> (\<forall>s r now. step_at (w_db w) k = Some s \<longrightarrow> is_running s \<longrightarrow>
     mop_at (w_db w) (fst k) = Some r \<longrightarrow> row_ok r s (w_log w) \<longrightarrow> row_ok r (advance_set ph v now s) (w_log w))"

definition duty :: "string \<Rightarrow> request \<Rightarrow> world \<Rightarrow> bool" where
  "duty me q w = (case q of
     Advance k ph v \<Rightarrow> advance_duty k ph v w
   | Finish i st err \<Rightarrow> st = OpSucceeded \<longrightarrow> owned me i (w_db w) \<longrightarrow> all_done i (w_db w)
   | Rewind k ph \<Rightarrow> ph = PhPending \<and> (\<forall>r. mop_at (w_db w) (fst k) = Some r \<longrightarrow> mo_kind r = RestoreKind)
   | ReopenAfter i ep \<Rightarrow> owned me i (w_db w) \<longrightarrow> fresh_whole i w
        \<and> (\<forall>r. mop_at (w_db w) i = Some r \<longrightarrow> mo_kind r = RestoreKind \<and> mo_epoch r = ep)
   | NodeCall i n c \<Rightarrow> mop_at (w_db w) i \<noteq> None \<and> load_duty i n c (w_db w)
   | _ \<Rightarrow> True)"

section \<open>Calls that only touch operations\<close>

lemma mdb_eta: "md_ops d = ops \<Longrightarrow> map (\<lambda>x. x) ops @ [] = md_ops d"
  by simp

lemma ops_evolve:
  assumes "md_ops (w_db t) = upd_where P g (md_ops (w_db w))" "md_steps (w_db t) = md_steps (w_db w)"
    and "w_log t = w_log w" and "\<And>r. same_op r (g r)"
    and "\<And>r. world_ok w \<Longrightarrow> r \<in> set (md_ops (w_db w)) \<Longrightarrow> P r \<Longrightarrow> mo_status (g r) = OpSucceeded \<Longrightarrow>
      all_done (mo_id r) (w_db w)"
  shows "evolves w t"
proof (rule evolves_by [where g = "\<lambda>r. if P r then g r else r" and f = "\<lambda>s. s" and nops = "[]" and nsteps = "[]" and l = "[]"])
  show "md_ops (w_db t) = map (\<lambda>r. if P r then g r else r) (md_ops (w_db w)) @ []"
    using assms(1) by (simp add: upd_where_def)
  show "all_done (mo_id r) (w_db t)" if "world_ok w" "r \<in> set (md_ops (w_db w))"
      "mo_status (if P r then g r else r) = OpSucceeded" for r
    using that assms(5) [of r] all_done_same [OF assms(2), of "mo_id r"] by (cases "P r") (auto simp: world_ok_def)
qed (use assms in \<open>simp_all\<close>)

lemma other_evolve:
  assumes "md_ops (w_db t) = md_ops (w_db w)" "md_steps (w_db t) = md_steps (w_db w)" "w_log t = w_log w"
  shows "evolves w t"
  by (rule ops_evolve [where P = "\<lambda>_. False" and g = "\<lambda>r. r"]) (use assms in \<open>simp_all add: upd_where_def\<close>)

section \<open>Calls that write a step\<close>

lemma step_write_cases:
  assumes "step_write me k cond f d = (b, d')"
  shows "b \<and> fenced me (fst k) d \<and> (\<exists>s \<in> set (md_steps d). step_where k cond s)
      \<and> d' = d\<lparr>md_steps := upd_where (step_where k cond) f (md_steps d)\<rparr>
    \<or> \<not> b \<and> d' = d"
  using assms by (auto simp: step_write_def list_ex_iff split: if_splits)

lemma unique_op: "world_ok w \<Longrightarrow> r \<in> set (md_ops (w_db w)) \<Longrightarrow> mop_at (w_db w) (mo_id r) = Some r"
  by (rule row_at_unique) (simp_all add: world_ok_def)

lemma unique_step: "world_ok w \<Longrightarrow> s \<in> set (md_steps (w_db w)) \<Longrightarrow> step_at (w_db w) (step_key s) = Some s"
  by (rule row_at_unique) (simp_all add: world_ok_def)

lemma fenced_owned:
  assumes "world_ok w"
  shows "fenced me i (w_db w) \<longleftrightarrow> owned me i (w_db w)"
proof
  assume "fenced me i (w_db w)"
  then obtain r where "r \<in> set (md_ops (w_db w))" "mo_id r = i" "held_by me r"
    unfolding fenced_def list_ex_iff by blast
  then show "owned me i (w_db w)"
    using unique_op [OF assms, of r] by (simp add: owned_def)
next
  assume "owned me i (w_db w)"
  then obtain r where "mop_at (w_db w) i = Some r" "held_by me r"
    unfolding owned_def by blast
  then show "fenced me i (w_db w)"
    using row_at_SomeD [of mo_id _ i r] by (auto simp: fenced_def list_ex_iff)
qed

lemma step_write_evolves:
  assumes wr: "step_write me k cond f (w_db w) = (b, d')"
    and t: "md_ops (w_db t) = md_ops d'" "md_steps (w_db t) = md_steps d'" "w_log t = w_log w @ l"
    and l: "\<And>e. e \<in> set l \<Longrightarrow> \<exists>i. e = Wrote i"
    and f: "\<And>s. step_key (f s) = step_key s" "\<And>s. cond s \<Longrightarrow> grown s (f s)"
    and row: "\<And>s r. world_ok w \<Longrightarrow> step_at (w_db w) k = Some s \<Longrightarrow> cond s \<Longrightarrow> mop_at (w_db w) (fst k) = Some r \<Longrightarrow>
      row_ok r s (w_log w) \<Longrightarrow> row_ok r (f s) (w_log w)"
  shows "evolves w t"
proof -
  let ?f = "\<lambda>s. if b \<and> step_where k cond s then f s else s"
  have steps: "md_steps d' = map ?f (md_steps (w_db w))" and ops: "md_ops d' = md_ops (w_db w)"
    using step_write_cases [OF wr] by (auto simp: upd_where_def)
  have more: "row_ok r s (w_log w @ l)" if "row_ok r s (w_log w)" for r s
    by (rule row_ok_more [OF that]) (use l in \<open>force simp: event_ok_def\<close>)
  show ?thesis
  proof (rule evolves_by [where g = "\<lambda>r. r" and f = ?f and nops = "[]" and nsteps = "[]" and l = l])
    show "row_ok r (?f s) (w_log w @ l)" if ok: "world_ok w" "s \<in> set (md_steps (w_db w))"
        "mop_at (w_db w) (ns_operation s) = Some r" "row_ok r s (w_log w)" for s r
    proof (cases "b \<and> step_where k cond s")
      case True
      then have "step_at (w_db w) k = Some s" "fst k = ns_operation s" "cond s"
        using unique_step [OF ok(1,2)] by (auto simp: step_where_def)
      then show ?thesis
        using True row [OF ok(1)] ok(3,4) more by simp
    next
      case False
      then show ?thesis using more [OF ok(4)] by auto
    qed
    show "all_done (mo_id r) (w_db t)" if ok: "world_ok w" "r \<in> set (md_ops (w_db w))" "mo_status r = OpSucceeded" for r
    proof -
      have "?f s = s" if "s \<in> set (md_steps (w_db w))" "ns_operation s = mo_id r" for s
      proof (rule ccontr)
        assume "?f s \<noteq> s"
        then have "b" "fst k = mo_id r" using that by (auto simp: step_where_def split: if_splits)
        then have "owned me (mo_id r) (w_db w)"
          using step_write_cases [OF wr] fenced_owned [OF ok(1)] by auto
        then show False using unique_op [OF ok(1,2)] ok(3) by (auto simp: owned_def held_by_def)
      qed
      then have same: "?f s = s" if "s \<in> set (md_steps (w_db w))" "ns_operation s = mo_id r" for s
        using that by blast
      have kept: "ns_operation (?f s) = ns_operation s" for s
        using f(1) [of s] by simp
      show ?thesis
        unfolding all_done_def
      proof (intro ballI impI)
        fix s assume s: "s \<in> set (md_steps (w_db t))" "ns_operation s = mo_id r"
        then obtain u where u: "u \<in> set (md_steps (w_db w))" "s = ?f u"
          unfolding t(2) steps set_map by blast
        with s(2) kept [of u] have "ns_operation u = mo_id r" by simp
        with u same [of u] ok show "ns_status s = StDone"
          by (simp add: world_ok_def all_done_def)
      qed
    qed
    show "step_key (?f s) = step_key s \<and> grown s (?f s)" for s
      using f by (simp add: step_where_def)
    show "mop_at (w_db w) i \<noteq> None" if "Ev i n c a \<in> set l" for i n c a
      using l [OF that] by simp
  qed (simp_all add: t ops steps)
qed

section \<open>Every call evolves the world\<close>

lemma grown_advance: "grown s (advance_set ph v now s)"
  by (auto simp: grown_def advance_set_def coalesce_def snapshot_taken_def)

lemma advance_key [simp]: "step_key (advance_set ph v now s) = step_key s"
  by (simp add: advance_set_def)

lemma advance_evolves:
  assumes "op_advance k me ph v now (w_db w) = (b, d')" "advance_duty k ph v w"
  shows "evolves w (noting b (Wrote (fst k)) d' w)"
  by (rule step_write_evolves [OF assms(1) [unfolded op_advance_def], where l = "if b then [Wrote (fst k)] else []"])
    (use assms(2) in \<open>auto simp: noting_def grown_advance advance_duty_def split: if_splits\<close>)

lemma reset_id_evolves:
  assumes "op_set_reset_id k me rid now (w_db w) = (b, d')"
  shows "evolves w (w\<lparr>w_db := d'\<rparr>)"
  by (rule step_write_evolves [OF assms [unfolded op_set_reset_id_def], where l = "[]"])
    (auto simp: grown_def snapshot_taken_def row_ok_def enter_ok_def restore_ok_def progress_of_def)

lemma failed_row_ok:
  assumes "row_ok r s log" "is_running s"
  shows "row_ok r (failed_set err mx clear final now s) log"
  using assms by (auto simp: row_ok_def enter_ok_def restore_ok_def failed_set_def progress_of_def snapshot_taken_def)

lemma attempt_failed_evolves:
  assumes "op_attempt_failed k me err mx clear final now (w_db w) = (u, d')"
  shows "evolves w (noting (u \<noteq> None) (Wrote (fst k)) d' w)"
proof -
  obtain b where b: "step_write me k is_running (failed_set err mx clear final now) (w_db w) = (b, d')"
    using assms by (auto simp: op_attempt_failed_def split: prod.splits)
  show ?thesis
  proof (rule step_write_evolves [OF b, where l = "if u \<noteq> None then [Wrote (fst k)] else []"])
    show "row_ok r (failed_set err mx clear final now s) (w_log w)" if "is_running s" "row_ok r s (w_log w)" for s r
      using that by (rule failed_row_ok [rotated])
    show "step_key (failed_set err mx clear final now s) = step_key s" "grown s (failed_set err mx clear final now s)" for s
      by (simp_all add: failed_set_def grown_def snapshot_taken_def)
  qed (auto simp: noting_def split: if_splits)
qed

lemma rewind_evolves:
  assumes "op_rewind k me ph now (w_db w) = (b, d')" "duty me (Rewind k ph) w"
  shows "evolves w (noting b (Wrote (fst k)) d' w)"
  by (rule step_write_evolves [OF assms(1) [unfolded op_rewind_def], where l = "if b then [Wrote (fst k)] else []"])
    (use assms(2) in \<open>auto simp: noting_def grown_def snapshot_taken_def row_ok_def restore_ok_def progress_of_def duty_def
      split: if_splits\<close>)

lemma set_op_ops: "md_ops (set_op i c g d) = upd_where (\<lambda>r. mo_id r = i \<and> c r) g (md_ops d)"
  "md_steps (set_op i c g d) = md_steps d" "md_hold (set_op i c g d) = md_hold d"
  by (simp_all add: set_op_def)

lemma ended_same [simp]: "same_op r (ended st err now r)" "mo_status (ended st err now r) = st"
  by (simp_all add: same_op_def ended_def)

lemma claim_evolves:
  assumes "op_claim me lease now (w_db w) = (v, d')"
  shows "evolves w (w\<lparr>w_db := d'\<rparr>)"
proof (cases "oldest (filter (claimable me now) (md_ops (w_db w)))")
  case None
  with assms show ?thesis by (intro other_evolve) (simp_all add: op_claim_def)
next
  case (Some r)
  with assms have d': "d' = set_op (mo_id r) (\<lambda>_. True)
      (\<lambda>r. r\<lparr>mo_owner := Some me, mo_lease := Some (now + lease), mo_updated_at := now\<rparr>) (w_db w)"
    by (simp add: op_claim_def Let_def)
  show ?thesis
    by (rule ops_evolve [where P = "\<lambda>q. mo_id q = mo_id r"
          and g = "\<lambda>r. r\<lparr>mo_owner := Some me, mo_lease := Some (now + lease), mo_updated_at := now\<rparr>"]) (auto simp: d' set_op_ops same_op_def world_ok_def)
qed

lemma renew_evolves:
  assumes "op_renew i me lease now (w_db w) = (b, d')"
  shows "evolves w (w\<lparr>w_db := d'\<rparr>)"
  by (rule ops_evolve [where P = "\<lambda>r. mo_id r = i \<and> held_by me r" and g = "\<lambda>r. r\<lparr>mo_lease := Some (now + lease)\<rparr>"])
    (use assms in \<open>auto simp: op_renew_def set_op_ops same_op_def world_ok_def\<close>)

lemma finish_evolves:
  assumes "op_finish i me st err now (w_db w) = (b, d')" and "st = OpSucceeded \<longrightarrow> owned me i (w_db w) \<longrightarrow> all_done i (w_db w)"
    and t: "md_ops (w_db t) = md_ops d'" "md_steps (w_db t) = md_steps (w_db w)" "w_log t = w_log w"
  shows "evolves w t"
proof (rule ops_evolve [where P = "\<lambda>r. mo_id r = i \<and> held_by me r" and g = "ended st err now"])
  show "all_done (mo_id r) (w_db w)" if "world_ok w" "r \<in> set (md_ops (w_db w))" "mo_id r = i \<and> held_by me r"
      "mo_status (ended st err now r) = OpSucceeded" for r
    using that assms(2) unique_op [of w r] by (auto simp: owned_def)
qed (use assms in \<open>auto simp: op_finish_def set_op_ops\<close>)

lemma reopen_after_cases:
  assumes "reopen_after by i me ep now d = (b, d')"
  shows "(\<not> b \<and> d' = d) \<or> (b \<and> fenced me i d \<and> (\<exists>st. md_hold d' = Some st \<and> epoch st = ep \<and> \<not> admission_closed st)
    \<and> md_ops d' = md_ops (snd (op_finish i me OpSucceeded None now d)) \<and> md_steps d' = md_steps d)"
  using assms
  by (auto simp: reopen_after_def op_finish_def Let_def set_op_ops hold_defs split: if_splits option.splits prod.splits)

lemma reopen_evolves:
  assumes "reopen_after by i me ep now (w_db w) = (b, d')" "duty me (ReopenAfter i ep) w"
  shows "evolves w (w\<lparr>w_db := d'\<rparr>)"
proof (cases b)
  case True
  obtain b2 d2 where fin: "op_finish i me OpSucceeded None now (w_db w) = (b2, d2)"
    by (metis surj_pair)
  show ?thesis
    by (rule finish_evolves [OF fin])
      (use reopen_after_cases [OF assms(1)] True assms(2) in \<open>auto simp: duty_def fresh_whole_def fin\<close>)
next
  case False
  with reopen_after_cases [OF assms(1)] show ?thesis by simp
qed

lemma node_call_evolves:
  assumes "duty me (NodeCall i n c) w"
  shows "evolves w (w\<lparr>w_log := w_log w @ [Ev i n c a]\<rparr>)"
proof (rule evolves_by [where g = "\<lambda>r. r" and f = "\<lambda>s. s" and nops = "[]" and nsteps = "[]" and l = "[Ev i n c a]"])
  show "row_ok r s (w_log w @ [Ev i n c a])" if ok: "world_ok w" "s \<in> set (md_steps (w_db w))"
      "mop_at (w_db w) (ns_operation s) = Some r" "row_ok r s (w_log w)" for s r
  proof (rule row_ok_more [OF ok(4)])
    have "step_at (w_db w) (mo_id r, ns_node s) = Some s" "mop_at (w_db w) (mo_id r) = Some r"
      using unique_step [OF ok(1,2)] row_at_SomeD [OF ok(3)] ok(3) by auto
    then show "\<forall>e \<in> set [Ev i n c a]. event_ok r s e"
      using assms by (auto simp: event_ok_def duty_def load_duty_def)
  qed
qed (use assms in \<open>auto simp: duty_def world_ok_def\<close>)

lemma noting_self: "noting True e (w_db w) w = w\<lparr>w_log := w_log w @ [e]\<rparr>"
  by (simp add: noting_def)

theorem does_evolves:
  assumes "does cc me q w r w'" and "duty me q w"
  shows "evolves w w'"
proof -
  obtain now said where p: "perform cc me now said q w = Some (r, w')"
    using assms(1) by (auto simp: does_def)
  show ?thesis
  proof (cases q)
    case (NodeCall i n c)
    then have "w' = noting True (Ev i n c said) (w_db w) w"
      using p by (auto simp: perform_def Let_def split: node_call.splits answer.splits)
    then show ?thesis
      using node_call_evolves assms(2) unfolding NodeCall noting_self by simp
  next
    case (Finish i st err)
    then have "w' = w\<lparr>w_db := snd (op_finish i me st err now (w_db w))\<rparr>"
      using p by (auto simp: perform_def Let_def split: prod.splits)
    then show ?thesis
      using assms(2) Finish
      by (intro finish_evolves [of i me st err now w _ "snd (op_finish i me st err now (w_db w))"])
        (auto simp: duty_def op_finish_def set_op_ops)
  next
    case (Rewind k ph)
    then show ?thesis
      using p assms(2) by (auto simp: perform_def Let_def intro: rewind_evolves split: prod.splits)
  next
    case (ReopenAfter i ep)
    then show ?thesis
      using p assms(2) by (auto simp: perform_def Let_def intro: reopen_evolves split: prod.splits)
  next
    case (Advance k ph v)
    then show ?thesis
      using p assms(2) by (auto simp: perform_def Let_def duty_def intro: advance_evolves split: prod.splits)
  next
    case (AttemptFailed k err final clear)
    then show ?thesis
      using p by (auto simp: perform_def Let_def simp del: not_None_eq intro: attempt_failed_evolves split: prod.splits)
  next
    case (SetResetId k rid)
    then show ?thesis
      using p by (auto simp: perform_def Let_def intro: reset_id_evolves split: prod.splits)
  next
    case Claim
    then show ?thesis
      using p by (auto simp: perform_def Let_def intro: claim_evolves split: prod.splits)
  next
    case (AuditEvent action target result detail)
    then show ?thesis
      using p by (auto simp: perform_def Let_def recorded_def intro: other_evolve)
  qed (use p in \<open>auto simp: perform_def Let_def split: option.splits answer.splits\<close>)
qed

section \<open>Hands off\<close>

lemma owned_unique: "owned me i d \<Longrightarrow> owned you i d \<Longrightarrow> me = you"
  by (auto simp: owned_def held_by_def)

lemma owned_same_ops: "md_ops d = md_ops d' \<Longrightarrow> owned me i d = owned me i d'"
  by (simp add: owned_def)

lemma step_write_all_done:
  assumes wr: "step_write x k cond f d = (b, d')" and "all_done i d"
    and "\<And>s. step_key (f s) = step_key s" "\<And>s. cond s \<Longrightarrow> ns_status s = StDone \<Longrightarrow> ns_status (f s) = StDone"
  shows "all_done i d'"
proof -
  have "ns_operation (f s) = ns_operation s" for s
    using assms(3) [of s] by simp
  then show ?thesis
    using step_write_cases [OF wr] assms(2,4) by (auto simp: all_done_def set_upd_where step_where_def)
qed

lemma step_write_elsewhere:
  assumes "step_write x k cond f d = (True, d')" "all_done i d" "\<And>s. cond s \<Longrightarrow> ns_status s \<noteq> StDone"
  shows "fst k \<noteq> i"
  using step_write_cases [OF assms(1)] assms(2,3) by (auto simp: all_done_def step_where_def)

text \<open>A write on a running step cannot touch an operation whose steps are all done.\<close>

lemma running_write_hands_off:
  assumes wr: "step_write x k is_running f (w_db w) = (b, d')" and f: "\<And>s. step_key (f s) = step_key s"
    and b: "b' \<longrightarrow> b"
  shows "hands_off me w (noting b' (Wrote (fst k)) d' w)"
proof -
  have ops: "md_ops d' = md_ops (w_db w)"
    using step_write_cases [OF wr] by auto
  have "all_done i d'" if "all_done i (w_db w)" for i
    by (rule step_write_all_done [OF wr that f]) simp_all
  moreover have "quiet i (if b' then [Wrote (fst k)] else [])" if "all_done i (w_db w)" for i
    using step_write_elsewhere [of x k is_running f "w_db w" d' i] that wr b by (auto simp: quiet_def)
  ultimately show ?thesis
    unfolding hands_off_def noting_def using owned_same_ops [OF ops] by auto
qed

lemma silent_hands_off:
  assumes "md_ops (w_db t) = md_ops (w_db w)" "w_log t = w_log w @ l" "\<And>e. e \<in> set l \<Longrightarrow> \<exists>i n c a. e = Ev i n c a"
    and "\<And>i. all_done i (w_db w) \<Longrightarrow> all_done i (w_db t)"
  shows "hands_off me w t"
  unfolding hands_off_def
proof (intro allI impI conjI)
  fix i
  assume "owned me i (w_db t)" "mop_at (w_db w) i \<noteq> None"
  then show "owned me i (w_db w)"
    using owned_same_ops [OF assms(1)] by simp
  assume "all_done i (w_db w)"
  then show "all_done i (w_db t)" by (rule assms(4))
  have "quiet i l" using assms(3) by (force simp: quiet_def)
  then show "\<exists>l. w_log t = w_log w @ l \<and> quiet i l" using assms(2) by blast
qed

text \<open>Changes of operation rows that give nothing to \<open>me\<close> and leave the steps alone.\<close>

lemma ops_hands_off:
  assumes ok: "world_ok w"
    and "md_ops (w_db t) = upd_where P g (md_ops (w_db w))" "md_steps (w_db t) = md_steps (w_db w)" "w_log t = w_log w"
    and "\<And>r. mo_id (g r) = mo_id r"
    and "\<And>r. r \<in> set (md_ops (w_db w)) \<Longrightarrow> P r \<Longrightarrow> held_by me (g r) \<Longrightarrow> held_by me r"
  shows "hands_off me w t"
  unfolding hands_off_def
proof (intro allI impI conjI)
  fix i
  assume own: "owned me i (w_db t)" "mop_at (w_db w) i \<noteq> None"
  have "mop_at (w_db t) i = map_option (\<lambda>r. if P r then g r else r) (mop_at (w_db w) i)"
    unfolding assms(2) upd_where_def by (rule row_at_map) (simp add: assms(5))
  then obtain r where r: "mop_at (w_db w) i = Some r" "held_by me (if P r then g r else r)"
    using own by (auto simp: owned_def)
  then have "held_by me r"
    using assms(6) [of r] by (auto dest: row_at_SomeD split: if_splits)
  then show "owned me i (w_db w)" using r(1) by (simp add: owned_def)
  assume "all_done i (w_db w)"
  then show "all_done i (w_db t)" using all_done_same [OF assms(3)] by simp
  show "\<exists>l. w_log t = w_log w @ l \<and> quiet i l" using assms(4) by (simp add: quiet_def)
qed

text \<open>The calls a node's task makes: none of them takes, ends or rewinds an operation.\<close>

definition task_request :: "request \<Rightarrow> bool" where
  "task_request q = (case q of Claim \<Rightarrow> False | Finish i st e \<Rightarrow> False | Rewind k ph \<Rightarrow> False | ReopenAfter i ep \<Rightarrow> False | _ \<Rightarrow> True)"

lemma rewind_hands_off:
  assumes "op_rewind k x ph now (w_db w) = (b, d')" "x \<noteq> me" "world_ok w"
  shows "hands_off me w (noting b (Wrote (fst k)) d' w)"
proof (cases b)
  case False
  then have "d' = w_db w"
    using step_write_cases [OF assms(1) [unfolded op_rewind_def]] by simp
  with False show ?thesis by (intro silent_hands_off [where l = "[]"]) (simp_all add: noting_def)
next
  case True
  note wr = step_write_cases [OF assms(1) [unfolded op_rewind_def]]
  then have own: "owned x (fst k) (w_db w)" and ops: "md_ops d' = md_ops (w_db w)"
    using True fenced_owned [OF assms(3)] by auto
  have other: "fst k \<noteq> i" if "owned me i (w_db w)" for i
    using own that owned_unique assms(2) by metis
  have "all_done i d'" if "owned me i (w_db w)" "all_done i (w_db w)" for i
    using wr that(2) other [OF that(1)] by (auto simp: all_done_def set_upd_where step_where_def split: if_splits)
  moreover have "quiet i [Wrote (fst k)]" if "owned me i (w_db w)" for i
    using other [OF that] by (auto simp: quiet_def)
  ultimately show ?thesis
    unfolding hands_off_def noting_def using owned_same_ops [OF ops] True by auto
qed

theorem does_hands_off:
  assumes "does cc x q w r w'" and "x \<noteq> me \<or> task_request q" and ok: "world_ok w"
  shows "hands_off me w w'"
proof -
  obtain now said where p: "perform cc x now said q w = Some (r, w')"
    using assms(1) by (auto simp: does_def)
  show ?thesis
  proof (cases q)
    case (Advance k ph v)
    obtain b d' where b: "step_write x k is_running (advance_set ph v now) (w_db w) = (b, d')"
      by (metis surj_pair)
    have "w' = noting b (Wrote (fst k)) d' w"
      using p Advance b by (simp add: perform_def Let_def op_advance_def)
    then show ?thesis
      using running_write_hands_off [OF b, of b] by (simp add: advance_set_def)
  next
    case (AttemptFailed k err final clear)
    obtain b d' where b: "step_write x k is_running (failed_set err (cc_max_attempts cc) clear final now) (w_db w) = (b, d')"
      by (metis surj_pair)
    have "w' = noting (b \<and> step_at d' k \<noteq> None) (Wrote (fst k)) d' w"
      using p AttemptFailed b by (auto simp: perform_def Let_def op_attempt_failed_def noting_def)
    then show ?thesis
      using running_write_hands_off [OF b, of "b \<and> step_at d' k \<noteq> None"] by (simp add: failed_set_def)
  next
    case (SetResetId k rid)
    obtain b d' where b: "step_write x k (\<lambda>s. ns_reset_id s = None)
        (\<lambda>s. s\<lparr>ns_reset_id := Some rid, ns_updated_at := Some now\<rparr>) (w_db w) = (b, d')"
      by (metis surj_pair)
    have "w' = w\<lparr>w_db := d'\<rparr>"
      using p SetResetId b by (simp add: perform_def Let_def op_set_reset_id_def)
    moreover have "md_ops d' = md_ops (w_db w)"
      using step_write_cases [OF b] by auto
    ultimately show ?thesis
      using step_write_all_done [OF b] by (intro silent_hands_off [where l = "[]"]) simp_all
  next
    case (Rewind k ph)
    then show ?thesis
      using p assms(2) ok by (auto simp: perform_def Let_def task_request_def intro: rewind_hands_off split: prod.splits)
  next
    case Claim
    then have x: "x \<noteq> me" using assms(2) by (simp add: task_request_def)
    show ?thesis
    proof (cases "oldest (filter (claimable x now) (md_ops (w_db w)))")
      case None
      then show ?thesis
        using p Claim by (intro silent_hands_off [where l = "[]"]) (auto simp: perform_def op_claim_def)
    next
      case (Some q)
      then show ?thesis
        using p Claim x ok
        by (intro ops_hands_off [where P = "\<lambda>r. mo_id r = mo_id q"
              and g = "\<lambda>r. r\<lparr>mo_owner := Some x, mo_lease := Some (now + cc_lease cc), mo_updated_at := now\<rparr>"])
          (auto simp: perform_def op_claim_def Let_def set_op_ops held_by_def)
    qed
  next
    case (Finish i st err)
    then show ?thesis
      using p ok assms(2)
      by (intro ops_hands_off [where P = "\<lambda>r. mo_id r = i \<and> held_by x r" and g = "ended st err now"])
        (auto simp: perform_def Let_def op_finish_def set_op_ops ended_def held_by_def)
  next
    case (ReopenAfter i ep)
    obtain b d' where b: "reopen_after COORDINATOR_ID i x ep now (w_db w) = (b, d')" by (metis surj_pair)
    have w': "w' = w\<lparr>w_db := d'\<rparr>"
      using p ReopenAfter b by (simp add: perform_def Let_def)
    show ?thesis
    proof (cases b)
      case True
      then show ?thesis
        using reopen_after_cases [OF b] ok w'
        by (intro ops_hands_off [where P = "\<lambda>r. mo_id r = i \<and> held_by x r" and g = "ended OpSucceeded None now"])
          (auto simp: op_finish_def set_op_ops ended_def held_by_def)
    next
      case False
      then show ?thesis
        using reopen_after_cases [OF b] w' by (intro silent_hands_off [where l = "[]"]) simp_all
    qed
  next
    case (NodeCall i n c)
    then have "w' = noting True (Ev i n c said) (w_db w) w"
      using p by (auto simp: perform_def Let_def split: node_call.splits answer.splits)
    then show ?thesis
      by (intro silent_hands_off [where l = "[Ev i n c said]"]) (auto simp: noting_def)
  next
    case (AuditEvent action target result detail)
    then show ?thesis
      using p by (intro silent_hands_off [where l = "[]"]) (auto simp: perform_def recorded_def all_done_def Let_def)
  qed (use p in \<open>auto simp: perform_def Let_def split: option.splits answer.splits\<close>)
qed

section \<open>Administrators\<close>

lemma insert_evolves:
  assumes ins: "insert_op r steps d = Some d'" and d: "md_ops d = md_ops (w_db w)" "md_steps d = md_steps (w_db w)"
    and t: "md_ops (w_db t) = md_ops d'" "md_steps (w_db t) = md_steps d'" "w_log t = w_log w"
    and r: "mo_status r = OpRunning" "mo_owner r = None"
    and steps: "\<And>s. s \<in> set steps \<Longrightarrow> ns_operation s = mo_id r \<and> row_ok r s []"
    and ok: "world_ok w"
  shows "evolves w t" "hands_off me w t"
proof -
  have new: "mop_at (w_db w) (mo_id r) = None" and keys: "distinct (map step_key steps)"
    and tables: "md_ops (w_db t) = md_ops (w_db w) @ [r]" "md_steps (w_db t) = md_steps (w_db w) @ steps"
    using ins d t by (auto simp: insert_op_def row_at_None_iff list_ex_iff split: if_splits)
  have none: "Ev (mo_id r) n c a \<notin> set (w_log w)" for n c a
    using ok new unfolding world_ok_def by blast
  have rows: "row_ok r s (w_log w)" if "s \<in> set steps" for s
  proof -
    have "row_ok r s ([] @ w_log w)"
      using steps [OF that] none by (intro row_ok_more) (auto simp: event_ok_def)
    then show ?thesis by simp
  qed
  show "evolves w t"
  proof (rule evolves_by [where g = "\<lambda>r. r" and f = "\<lambda>s. s" and nops = "[r]" and nsteps = steps and l = "[]"])
    show "all_done (mo_id q) (w_db t)" if "world_ok w" "q \<in> set (md_ops (w_db w))" "mo_status q = OpSucceeded" for q
    proof -
      have "mo_id q \<noteq> mo_id r" using new that(2) by (auto simp: row_at_None_iff)
      then show ?thesis
        using that steps by (auto simp: world_ok_def all_done_def tables)
    qed
  qed (use new keys rows steps r in \<open>auto simp: tables t world_ok_def\<close>)
  show "hands_off me w t"
    unfolding hands_off_def
  proof (intro allI impI conjI)
    fix i
    assume own: "owned me i (w_db t)" "mop_at (w_db w) i \<noteq> None"
    then show "owned me i (w_db w)"
      by (auto simp: owned_def tables row_at_append split: option.splits)
    have other: "mo_id r \<noteq> i" using own(2) new by auto
    assume "all_done i (w_db w)"
    then show "all_done i (w_db t)" using steps other by (auto simp: all_done_def tables)
    show "\<exists>l. w_log t = w_log w @ l \<and> quiet i l" using t(3) by (simp add: quiet_def)
  qed
qed

lemma new_rows_ok:
  "row_ok (new_op i EnterKind ep by now) (new_step i n now) []"
  "row_ok (new_op i RestoreKind ep by now) ((new_step i n now)\<lparr>ns_snapshot := Some snap, ns_snapshot_at := t\<rparr>) []"
  by (auto simp: row_ok_def enter_ok_def restore_ok_def new_op_def new_step_def phase_defs loads_ok_def
      progress_of_def NO_PROGRESS_def)

lemma same_tables:
  assumes "md_ops d = md_ops (w_db w)" "md_steps d = md_steps (w_db w)"
  shows "evolves w (w\<lparr>w_db := d\<rparr>)" "hands_off me w (w\<lparr>w_db := d\<rparr>)"
  using assms by (auto intro!: other_evolve silent_hands_off [where l = "[]"] simp: all_done_def)

lemma enter_cases:
  "snd (enter mg a msg expected fresh now d) = d
   \<or> (\<exists>h ep d'. create_entry fresh ep (ac_id a) (map rn_id (the (mg_nodes mg))) now (d\<lparr>md_hold := h\<rparr>) = Some d'
        \<and> md_ops (snd (enter mg a msg expected fresh now d)) = md_ops d'
        \<and> md_steps (snd (enter mg a msg expected fresh now d)) = md_steps d')"
  by (auto simp: enter_def Let_def recorded_def split: sum.splits option.splits prod.splits)

lemma restore_cases:
  "snd (restore mg a fresh now d) = d
   \<or> (\<exists>ep snaps d'. create_restore fresh ep (ac_id a) snaps now d = Some d'
        \<and> md_ops (snd (restore mg a fresh now d)) = md_ops d'
        \<and> md_steps (snd (restore mg a fresh now d)) = md_steps d')"
  by (auto simp: restore_def begin_restore_def Let_def recorded_def split: sum.splits option.splits prod.splits if_splits)

lemma retry_cases:
  "snd (retry mg a now d) = d
   \<or> (\<exists>i. md_ops (snd (retry mg a now d)) = md_ops (snd (op_retry i now d))
        \<and> md_steps (snd (retry mg a now d)) = md_steps (snd (op_retry i now d)))"
  by (auto simp: retry_def Let_def recorded_def split: sum.splits option.splits prod.splits if_splits)
    (metis snd_conv)

lemma reopen_cases:
  "snd (admin_reopen mg a now d) = d
   \<or> md_steps (snd (admin_reopen mg a now d)) = md_steps d
     \<and> (md_ops (snd (admin_reopen mg a now d)) = md_ops d
        \<or> md_ops (snd (admin_reopen mg a now d))
            = upd_where (\<lambda>r. mo_status r = OpRunning) (ended OpAbandoned (Some ''the platform was reopened'') now) (md_ops d))"
  by (auto simp: admin_reopen_def Let_def recorded_def abandon_running_def split: sum.splits option.splits prod.splits if_splits)

lemma retry_world:
  assumes "md_ops (w_db t) = md_ops (snd (op_retry i now (w_db w)))"
    "md_steps (w_db t) = md_steps (snd (op_retry i now (w_db w)))" "w_log t = w_log w" "world_ok w"
  shows "evolves w t \<and> hands_off me w t"
proof (cases "fst (op_retry i now (w_db w))")
  case False
  then have "md_ops (w_db t) = md_ops (w_db w)" "md_steps (w_db t) = md_steps (w_db w)"
    using assms(1,2) by (auto simp: op_retry_def split: if_splits)
  then show ?thesis
    using assms(3) by (auto intro!: other_evolve silent_hands_off [where l = "[]"] simp: all_done_def)
next
  case True
  let ?g = "\<lambda>r. if mo_id r = i \<and> mo_status r = OpFailed
      then r\<lparr>mo_status := OpRunning, mo_error := None, mo_owner := None, mo_lease := None, mo_finished_at := None, mo_updated_at := now\<rparr>
      else r"
  let ?f = "\<lambda>s. if ns_operation s = i \<and> ns_status s = StFailed
      then s\<lparr>ns_status := StRunning, ns_attempts := 0, ns_updated_at := Some now\<rparr> else s"
  have ops: "md_ops (w_db t) = map ?g (md_ops (w_db w))" and steps: "md_steps (w_db t) = map ?f (md_steps (w_db w))"
    using True assms(1,2) by (auto simp: op_retry_def set_op_def upd_where_def split: if_splits)
  have still_done: "all_done j (w_db t)" if "all_done j (w_db w)" for j
    using that by (auto simp: all_done_def steps)
  have "evolves w t"
  proof (rule evolves_by [where g = ?g and f = ?f and nops = "[]" and nsteps = "[]" and l = "[]"])
    show "row_ok r (?f s) (w_log w @ [])" if "row_ok r s (w_log w)" for r s
      using that by (auto simp: row_ok_def enter_ok_def restore_ok_def snapshot_taken_def progress_of_def)
    show "all_done (mo_id r) (w_db t)" if "world_ok w" "r \<in> set (md_ops (w_db w))" "mo_status (?g r) = OpSucceeded" for r
      using that by (intro still_done) (auto simp: world_ok_def split: if_splits)
  qed (use assms(3) in \<open>auto simp: ops steps same_op_def grown_def snapshot_taken_def\<close>)
  moreover have "hands_off me w t"
    unfolding hands_off_def
  proof (intro allI impI conjI)
    fix j
    assume own: "owned me j (w_db t)" "mop_at (w_db w) j \<noteq> None"
    have "mop_at (w_db t) j = map_option ?g (mop_at (w_db w) j)"
      unfolding ops by (rule row_at_map) simp
    then show "owned me j (w_db w)"
      using own by (auto simp: owned_def held_by_def split: if_splits)
    assume "all_done j (w_db w)"
    then show "all_done j (w_db t)" by (rule still_done)
    show "\<exists>l. w_log t = w_log w @ l \<and> quiet j l" using assms(3) by (simp add: quiet_def)
  qed
  ultimately show ?thesis ..
qed

lemma new_op_simps [simp]: "mo_id (new_op i k ep by now) = i" "mo_status (new_op i k ep by now) = OpRunning"
  "mo_owner (new_op i k ep by now) = None" "ns_operation (new_step i n now) = i"
  by (simp_all add: new_op_def new_step_def)

lemma entry_world:
  assumes "create_entry i ep by nds now d = Some d'" "md_ops d = md_ops (w_db w)" "md_steps d = md_steps (w_db w)"
    and "md_ops (w_db t) = md_ops d'" "md_steps (w_db t) = md_steps d'" "w_log t = w_log w" "world_ok w"
  shows "evolves w t \<and> hands_off me w t"
proof -
  have rows: "ns_operation s = mo_id (new_op i EnterKind ep by now) \<and> row_ok (new_op i EnterKind ep by now) s []"
    if "s \<in> set (map (\<lambda>n. new_step i n now) nds)" for s
    using that new_rows_ok(1) by auto
  show ?thesis
    by (intro conjI; rule insert_evolves [OF assms(1) [unfolded create_entry_def] assms(2-6) new_op_simps(2,3) rows assms(7)]; assumption)
qed

lemma restore_world:
  assumes "create_restore i ep by snaps now d = Some d'" "md_ops d = md_ops (w_db w)" "md_steps d = md_steps (w_db w)"
    and "md_ops (w_db t) = md_ops d'" "md_steps (w_db t) = md_steps d'" "w_log t = w_log w" "world_ok w"
  shows "evolves w t \<and> hands_off me w t"
proof -
  have rows: "ns_operation s = mo_id (new_op i RestoreKind ep by now) \<and> row_ok (new_op i RestoreKind ep by now) s []"
    if "s \<in> set (map (\<lambda>(n, snap). (new_step i n now)\<lparr>ns_snapshot := Some snap, ns_snapshot_at := Some now\<rparr>) snaps)" for s
  proof -
    from that obtain n snap where s: "s = (new_step i n now)\<lparr>ns_snapshot := Some snap, ns_snapshot_at := Some now\<rparr>"
      by auto
    show ?thesis
      unfolding s using new_rows_ok(2) by simp
  qed
  show ?thesis
    by (intro conjI; rule insert_evolves [OF assms(1) [unfolded create_restore_def] assms(2-6) new_op_simps(2,3) rows assms(7)]; assumption)
qed

theorem admin_world:
  assumes step: "admin_step (w_db w) d" and ok: "world_ok w"
  shows "evolves w (w\<lparr>w_db := d\<rparr>) \<and> hands_off me w (w\<lparr>w_db := d\<rparr>)"
  using step
proof cases
  case (1 mg a msg expected fresh now)
  consider "d = w_db w" | h ep d' where "create_entry fresh ep (ac_id a) (map rn_id (the (mg_nodes mg))) now ((w_db w)\<lparr>md_hold := h\<rparr>) = Some d'"
      "md_ops d = md_ops d'" "md_steps d = md_steps d'"
    using enter_cases 1 by metis
  then show ?thesis
  proof cases
    case 1
    then show ?thesis using same_tables by simp
  next
    case 2
    then show ?thesis
      using ok by (intro entry_world [OF 2(1)]) simp_all
  qed
next
  case (2 mg a fresh now)
  consider "d = w_db w" | ep snaps d' where "create_restore fresh ep (ac_id a) snaps now (w_db w) = Some d'"
      "md_ops d = md_ops d'" "md_steps d = md_steps d'"
    using restore_cases 2 by metis
  then show ?thesis
  proof cases
    case 1
    then show ?thesis using same_tables by simp
  next
    case 2
    then show ?thesis
      using ok by (intro restore_world [OF 2(1)]) simp_all
  qed
next
  case (3 mg a now)
  then show ?thesis
    using retry_cases [of mg a now "w_db w"] same_tables [of d w] retry_world [of "w\<lparr>w_db := d\<rparr>" _ now w me] ok by auto
next
  case (4 mg a now)
  consider "md_steps d = md_steps (w_db w)" "md_ops d = md_ops (w_db w)"
    | "md_steps d = md_steps (w_db w)"
      "md_ops d = upd_where (\<lambda>r. mo_status r = OpRunning) (ended OpAbandoned (Some ''the platform was reopened'') now) (md_ops (w_db w))"
    using reopen_cases [of mg a now "w_db w"] 4 by auto
  then show ?thesis
  proof cases
    case 1
    then show ?thesis using same_tables by simp
  next
    case 2
    have "evolves w (w\<lparr>w_db := d\<rparr>)"
      by (rule ops_evolve [where P = "\<lambda>r. mo_status r = OpRunning"
            and g = "ended OpAbandoned (Some ''the platform was reopened'') now"]) (use 2 in \<open>simp_all\<close>)
    moreover have "hands_off me w (w\<lparr>w_db := d\<rparr>)"
      by (rule ops_hands_off [OF ok, where g = "ended OpAbandoned (Some ''the platform was reopened'') now"])
        (use 2 in \<open>simp_all add: ended_def held_by_def\<close>)
    ultimately show ?thesis ..
  qed
next
  case (5 mg a msg expected expected_revision now)
  then have "md_ops d = md_ops (w_db w)" "md_steps d = md_steps (w_db w)"
    by (auto simp: admin_set_message_def recorded_def split: sum.splits option.splits prod.splits)
  then show ?thesis using same_tables by simp
qed

end
