(* ===== verification/Coordinator_Tasks.thy ===== *)
theory Coordinator_Tasks
  imports Coordinator_Calls
begin

text \<open>
  A node's task meets its obligations whatever everybody else does: each turn of \<open>carry_turn\<close> is checked
  against the rely \<open>evolves\<close>, with what the task knows of its step (\<open>knows\<close>) as the assertion.
\<close>

section \<open>Rules\<close>

interpretation task: program_rules evolves "\<lambda>q w r u. world_ok w \<and> does cc me q w r u"
  "\<lambda>q w. task_request q \<and> duty me q w" for cc me
  by unfold_locales (auto intro: evolves_trans)

lemma does_world: "world_ok w \<Longrightarrow> does cc me q w r u \<Longrightarrow> duty me q w \<Longrightarrow> evolves w u \<and> world_ok u"
  using does_evolves by (auto simp: evolves_def)

lemma evolves_ok: "evolves u t \<Longrightarrow> world_ok u \<Longrightarrow> world_ok t"
  by (simp add: evolves_def)

text \<open>What is stable and holds at the start holds throughout.\<close>

lemma task_keep:
  assumes "\<And>u v. evolves u v \<Longrightarrow> K u \<Longrightarrow> K v" and "K s" and "task.meets cc me p Q E s"
  shows "task.meets cc me p (\<lambda>x w. Q x w \<and> K w) (\<lambda>e w. E e w \<and> K w) s"
  using assms(2,3)
proof (induction p arbitrary: s)
  case (Call q k)
  show ?case
    unfolding task.meets.simps
  proof (intro allI impI conjI)
    fix t assume t: "evolves s t"
    then show "task_request q" "duty me q t" using Call.prems(2) by auto
    fix r u assume u: "world_ok t \<and> does cc me q t r u"
    then have "evolves t u" using \<open>duty me q t\<close> does_world by blast
    then have "K u" using t assms(1) Call.prems(1) by blast
    then show "task.meets cc me (k r) (\<lambda>x w. Q x w \<and> K w) (\<lambda>e w. E e w \<and> K w) u"
      using Call.IH Call.prems(2) t u by auto
  qed
qed (use assms(1) in auto)

lemmas task_conseq = task.meets_conseq [of cc me for cc me]

lemma task_ret: "(\<And>w. evolves s w \<Longrightarrow> Q x w) \<Longrightarrow> task.meets cc me (Ret x) Q E s"
  by simp

lemma task_throw: "(\<And>w. evolves s w \<Longrightarrow> E e w) \<Longrightarrow> task.meets cc me (Throw e) Q E s"
  by simp

lemma task_seq: "task.meets cc me m (\<lambda>x. task.meets cc me (f x) Q E) E s \<Longrightarrow> task.meets cc me (seq m f) Q E s"
  by (rule task.meets_seq)

text \<open>A call, from what is known just before it to what is known at any time after its answer.\<close>

lemma task_call:
  assumes "\<And>w. evolves s w \<Longrightarrow> task_request q \<and> duty me q w"
    and "\<And>w r u. evolves s w \<Longrightarrow> world_ok w \<Longrightarrow> does cc me q w r u \<Longrightarrow> evolves w u \<Longrightarrow> world_ok u \<Longrightarrow>
      task.meets cc me (k r) Q E u"
  shows "task.meets cc me (Call q k) Q E s"
  using assms does_world unfolding task.meets.simps by blast

lemma task_bool:
  assumes "\<And>w. evolves s w \<Longrightarrow> task_request q \<and> duty me q w"
    and "\<And>w b u t. evolves s w \<Longrightarrow> world_ok w \<Longrightarrow> does cc me q w (ABool b) u \<Longrightarrow> evolves u t \<Longrightarrow> evolves w t \<Longrightarrow> world_ok t \<Longrightarrow> Q b t"
  shows "task.meets cc me (call_bool q) Q (\<lambda>_ _. True) s"
  unfolding call_bool_def
proof (rule task_call [OF assms(1)])
  fix w r u assume w: "evolves s w" "world_ok w" "does cc me q w r u" "evolves w u" "world_ok u"
  have "Q x t" if "r = ABool x" "evolves u t" for x t
    using assms(2) [OF w(1,2) w(3) [unfolded that(1)] that(2)] evolves_trans [OF w(4) that(2)] evolves_ok [OF that(2) w(5)]
    by blast
  then show "task.meets cc me (case r of ABool x \<Rightarrow> Ret x | _ \<Rightarrow> Throw (OtherError ''TypeError'')) Q (\<lambda>_ _. True) u"
    by (auto split: answer.splits)
qed assumption

lemma task_view:
  assumes "\<And>w. evolves s w \<Longrightarrow> task_request q \<and> duty me q w"
    and "\<And>w v u t. evolves s w \<Longrightarrow> world_ok w \<Longrightarrow> does cc me q w (AView v) u \<Longrightarrow> evolves u t \<Longrightarrow> evolves w t \<Longrightarrow> world_ok t \<Longrightarrow> Q v t"
  shows "task.meets cc me (call_view q) Q (\<lambda>_ _. True) s"
  unfolding call_view_def
proof (rule task_call [OF assms(1)])
  fix w r u assume w: "evolves s w" "world_ok w" "does cc me q w r u" "evolves w u" "world_ok u"
  have "Q x t" if "r = AView x" "evolves u t" for x t
    using assms(2) [OF w(1,2) w(3) [unfolded that(1)] that(2)] evolves_trans [OF w(4) that(2)] evolves_ok [OF that(2) w(5)]
    by blast
  then show "task.meets cc me (case r of AView x \<Rightarrow> Ret x | _ \<Rightarrow> Throw (OtherError ''TypeError'')) Q (\<lambda>_ _. True) u"
    by (auto split: answer.splits)
qed assumption

lemma task_audit: "task.meets cc me (audit_event a t r d) (\<lambda>_ _. True) (\<lambda>_ _. True) s"
  unfolding audit_event_def
proof (rule task_seq, rule task_bool)
  show "task_request (AuditEvent a t r d) \<and> duty me (AuditEvent a t r d) w" for w
    by (simp add: task_request_def duty_def)
qed simp

lemma does_node_call:
  assumes "does cc me (NodeCall i n c) w r u"
  shows "u = w\<lparr>w_log := w_log w @ [Ev i n c r]\<rparr> \<and> (case r of AResidency x \<Rightarrow> c = NResidency | ADoc x \<Rightarrow> True | _ \<Rightarrow> False)"
proof -
  obtain now said where "perform cc me now said (NodeCall i n c) w = Some (r, u)"
    using assms by (auto simp: does_def)
  then show ?thesis
    by (cases c; cases said) (auto simp: perform_def noting_def Let_def)
qed

lemma task_doc:
  assumes "\<And>w. evolves s w \<Longrightarrow> duty me (NodeCall i n c) w"
    and "\<And>w d t. evolves s w \<Longrightarrow> world_ok w \<Longrightarrow> evolves w t \<Longrightarrow> world_ok t \<Longrightarrow> Ev i n c (ADoc (Inr d)) \<in> set (w_log t) \<Longrightarrow> Q d t"
  shows "task.meets cc me (call_doc (NodeCall i n c)) Q (\<lambda>_ _. True) s"
  unfolding call_doc_def
proof (rule task_call)
  show "task_request (NodeCall i n c) \<and> duty me (NodeCall i n c) w" if "evolves s w" for w
    using assms(1) [OF that] by (simp add: task_request_def)
  fix w r u assume w: "evolves s w" "world_ok w" "does cc me (NodeCall i n c) w r u" "evolves w u" "world_ok u"
  have "Q d t" if "r = ADoc (Inr d)" "evolves u t" for d t
  proof (rule assms(2) [OF w(1,2)])
    show "evolves w t" using w(4) that(2) by (rule evolves_trans)
    then show "world_ok t" using w(2) by (simp add: evolves_def)
    have "\<exists>l. w_log t = w_log u @ l"
      using that(2) grows_toD(1) by (auto simp: evolves_def)
    then show "Ev i n c (ADoc (Inr d)) \<in> set (w_log t)"
      using does_node_call [OF w(3)] that(1) by auto
  qed
  then show "task.meets cc me (case r of ADoc (Inr d) \<Rightarrow> Ret d | ADoc (Inl e) \<Rightarrow> Throw (NodeControlError e)
      | _ \<Rightarrow> Throw (OtherError ''TypeError'')) Q (\<lambda>_ _. True) u"
    by (auto split: answer.splits sum.splits)
qed

lemma task_residency:
  assumes "\<And>w. evolves s w \<Longrightarrow> mop_at (w_db w) i \<noteq> None"
    and "\<And>w x l t. evolves s w \<Longrightarrow> world_ok w \<Longrightarrow> evolves w t \<Longrightarrow> world_ok t \<Longrightarrow>
      w_log t = (w_log w @ [Ev i n NResidency (AResidency x)]) @ l \<Longrightarrow> Q x t"
  shows "task.meets cc me (call_residency i n) Q (\<lambda>_ _. True) s"
  unfolding call_residency_def
proof (rule task_call)
  show "task_request (NodeCall i n NResidency) \<and> duty me (NodeCall i n NResidency) w" if "evolves s w" for w
    using assms(1) [OF that] by (simp add: task_request_def duty_def load_duty_def)
  fix w r u assume w: "evolves s w" "world_ok w" "does cc me (NodeCall i n NResidency) w r u" "evolves w u" "world_ok u"
  have "Q x t" if r: "r = AResidency x" and ut: "evolves u t" for x t
  proof -
    have t: "evolves w t" using w(4) ut by (rule evolves_trans)
    obtain l where "w_log t = w_log u @ l"
      using ut grows_toD(1) by (auto simp: evolves_def)
    then show ?thesis
      using assms(2) [OF w(1,2) t] does_node_call [OF w(3)] r evolves_ok [OF t w(2)] by auto
  qed
  then show "task.meets cc me (case r of AResidency x \<Rightarrow> Ret x | _ \<Rightarrow> Throw (OtherError ''TypeError'')) Q (\<lambda>_ _. True) u"
    by (auto split: answer.splits)
qed

section \<open>What a task knows of its step\<close>

definition op_known :: "m_op \<Rightarrow> world \<Rightarrow> bool" where
  "op_known r w \<longleftrightarrow> world_ok w \<and> (\<exists>q. mop_at (w_db w) (mo_id r) = Some q \<and> same_op r q)"

definition knows :: "m_op \<Rightarrow> node_step \<Rightarrow> world \<Rightarrow> bool" where
  "knows r s w \<longleftrightarrow> op_known r w \<and> ns_operation s = mo_id r \<and> row_ok r s (w_log w)
     \<and> (\<exists>u. step_at (w_db w) (step_key s) = Some u \<and> grown s u)"

lemma op_known_stable: "evolves w t \<Longrightarrow> op_known r w \<Longrightarrow> op_known r t"
  unfolding op_known_def using grows_toD(2) same_op_trans by (meson evolves_def)

lemma known_row:
  assumes "op_known r w" "step_at (w_db w) k = Some u" "fst k = mo_id r"
  shows "row_ok r u (w_log w)" "ns_operation u = mo_id r" "ns_node u = snd k"
proof -
  have u: "u \<in> set (md_steps (w_db w))" "step_key u = k"
    using row_at_SomeD [OF assms(2)] by auto
  then show "ns_operation u = mo_id r" "ns_node u = snd k" using assms(3) by auto
  then obtain q where "mop_at (w_db w) (mo_id r) = Some q" "row_ok q u (w_log w)"
    using assms(1) u(1) by (auto simp: op_known_def world_ok_def)
  with assms(1) show "row_ok r u (w_log w)"
    by (auto simp: op_known_def row_ok_same)
qed

lemma row_ok_later:
  assumes "row_ok r s log" "row_ok r u (log @ l)" "grown s u" "ns_node u = ns_node s"
  shows "row_ok r s (log @ l)"
proof (cases "mo_kind r = EnterKind")
  case True
  with assms(1) show ?thesis
    unfolding row_ok_def enter_ok_def by (auto intro: emptied_more)
next
  case False
  obtain snap where snap: "ns_snapshot s = Some snap"
    using assms(1) False by (auto simp: row_ok_def restore_ok_def)
  then have "ns_snapshot u = Some snap"
    using assms(3) by (auto simp: grown_def snapshot_taken_def)
  then show ?thesis
    using assms False snap unfolding row_ok_def restore_ok_def by auto
qed

lemma knows_stable:
  assumes "evolves w t" "knows r s w"
  shows "knows r s t"
proof -
  obtain u where u: "step_at (w_db w) (step_key s) = Some u" "grown s u"
    using assms(2) by (auto simp: knows_def)
  have grows: "grows_to w t" using assms(1) by (simp add: evolves_def)
  obtain x where x: "step_at (w_db t) (step_key s) = Some x" "grown u x"
    using grows_toD(3) [OF grows u(1)] by blast
  have known: "op_known r t" "ns_operation s = mo_id r"
    using assms op_known_stable by (auto simp: knows_def)
  obtain l where "w_log t = w_log w @ l" using grows_toD(1) [OF grows] by blast
  moreover have "row_ok r x (w_log t)" "ns_node x = ns_node s"
    using known_row [OF known(1) x(1)] known(2) by simp_all
  ultimately have "row_ok r s (w_log t)"
    using row_ok_later [OF _ _ grown_trans [OF u(2) x(2)]] assms(2) by (auto simp: knows_def)
  then show ?thesis
    using known x grown_trans [OF u(2)] by (auto simp: knows_def)
qed

lemma knows_taken:
  assumes "op_known r w" "s \<in> set (md_steps (w_db w))" "ns_operation s = mo_id r"
  shows "knows r s w"
proof -
  have "step_at (w_db w) (step_key s) = Some s"
    using assms(1,2) unique_step by (auto simp: op_known_def)
  then show ?thesis
    using known_row(1) [OF assms(1)] assms(3) by (auto simp: knows_def assms(1))
qed

lemma does_get: "does cc me (GetOp i) w (AView v) u \<Longrightarrow> u = w \<and> v = op_get i (w_db w)"
  by (auto simp: does_def perform_def Let_def)

text \<open>The columns an advance may write in an entry.\<close>

definition enter_values :: "m_op \<Rightarrow> node_step \<Rightarrow> step_phase \<Rightarrow> step_values \<Rightarrow> event list \<Rightarrow> bool" where
  "enter_values r s ph v log \<longleftrightarrow>
     (\<forall>rep. sv_interrupt v = Some rep \<longrightarrow> truthy (dget rep ''quiescent'')
        \<and> Ev (mo_id r) (ns_node s) (NInterrupt (mo_epoch r)) (ADoc (Inr rep)) \<in> set log)
     \<and> (\<forall>rep. sv_reset v = Some rep \<longrightarrow> sv_accounting v = Some (py_str (dget rep ''accounting''))
        \<and> (\<exists>e \<in> set log. answered_reset r (ns_node s) rep e))
     \<and> (sv_reset v = None \<longrightarrow> sv_accounting v = None)
     \<and> (interrupted ph \<longrightarrow> sv_interrupt v \<noteq> None \<or> ns_interrupt s \<noteq> None)
     \<and> (snapshotted ph \<longrightarrow> sv_snapshot v \<noteq> None \<or> sv_snapshot_error v \<noteq> None \<or> snapshot_taken s)
     \<and> (was_reset ph \<longrightarrow> sv_reset v \<noteq> None \<or> ns_reset s \<noteq> None)
     \<and> (ph = PhVerified \<longrightarrow> emptied r (ns_node s) log)"

definition restore_values :: "m_op \<Rightarrow> node_step \<Rightarrow> step_values \<Rightarrow> bool" where
  "restore_values r s v \<longleftrightarrow> (\<forall>vf snap. sv_verification v = Some vf \<longrightarrow> ns_snapshot s = Some snap \<longrightarrow> loads_ok r snap (vf_loads vf))"

definition values_ok :: "m_op \<Rightarrow> node_step \<Rightarrow> step_phase \<Rightarrow> step_values \<Rightarrow> event list \<Rightarrow> bool" where
  "values_ok r s ph v log = (if mo_kind r = EnterKind then enter_values r s ph v log else restore_values r s v)"

lemma enter_advance:
  assumes "enter_ok r u log" "is_running u" "grown s u" "ns_node u = ns_node s" "enter_values r s ph v log"
  shows "enter_ok r (advance_set ph v now u) log"
proof -
  let ?t = "advance_set ph v now u"
  have cols: "ns_interrupt ?t = coalesce (sv_interrupt v) (ns_interrupt u)" "ns_reset ?t = coalesce (sv_reset v) (ns_reset u)"
    "ns_accounting ?t = coalesce (sv_accounting v) (ns_accounting u)" "ns_phase ?t = ph" "ns_node ?t = ns_node s"
    "snapshot_taken ?t \<longleftrightarrow> snapshot_taken u \<or> sv_snapshot v \<noteq> None \<or> sv_snapshot_error v \<noteq> None"
    "ns_status ?t = (if ph = PhVerified then StDone else StRunning)"
    using assms(2,4) by (auto simp: advance_set_def snapshot_taken_def)
  have grown: "ns_interrupt s \<noteq> None \<longrightarrow> ns_interrupt u \<noteq> None" "ns_reset s \<noteq> None \<longrightarrow> ns_reset u \<noteq> None"
      "snapshot_taken s \<longrightarrow> snapshot_taken u"
    using assms(3) by (auto simp: grown_def snapshot_taken_def)
  show ?thesis
    unfolding enter_ok_def cols
  proof (intro conjI allI impI)
    fix rep assume rep: "coalesce (sv_interrupt v) (ns_interrupt u) = Some rep"
    show "truthy (dget rep ''quiescent'')"
      "Ev (mo_id r) (ns_node s) (NInterrupt (mo_epoch r)) (ADoc (Inr rep)) \<in> set log"
      using rep assms(1,4,5) unfolding enter_ok_def enter_values_def coalesce_def by (auto split: if_splits)
  next
    fix rep assume rep: "coalesce (sv_reset v) (ns_reset u) = Some rep"
    show "coalesce (sv_accounting v) (ns_accounting u) = Some (py_str (dget rep ''accounting''))"
      "\<exists>e \<in> set log. answered_reset r (ns_node s) rep e"
      using rep assms(1,4,5) unfolding enter_ok_def enter_values_def coalesce_def by (auto split: if_splits)
  next
    show "coalesce (sv_interrupt v) (ns_interrupt u) \<noteq> None" if "interrupted ph"
      using that assms(5) grown(1) by (auto simp: enter_values_def coalesce_def)
    show "snapshot_taken u \<or> sv_snapshot v \<noteq> None \<or> sv_snapshot_error v \<noteq> None" if "snapshotted ph"
      using that assms(5) grown(3) by (auto simp: enter_values_def)
    show "coalesce (sv_reset v) (ns_reset u) \<noteq> None" if "was_reset ph"
      using that assms(5) grown(2) by (auto simp: enter_values_def coalesce_def)
    show "emptied r (ns_node s) log" if "ph = PhVerified"
      using that assms(5) by (simp add: enter_values_def)
  qed (auto)
qed

lemma restore_advance:
  assumes "restore_ok r u log" "is_running u" "grown s u" "snapshot_taken s" "restore_values r s v"
  shows "restore_ok r (advance_set ph v now u) log"
proof -
  obtain snap where snap: "ns_snapshot u = Some snap" using assms(1) by (auto simp: restore_ok_def)
  then have "ns_snapshot s = Some snap" using assms(3,4) by (auto simp: grown_def)
  then show ?thesis
    using assms(1,2,5) snap
    by (auto simp: restore_ok_def advance_set_def coalesce_def progress_of_def snapshot_taken_def restore_values_def)
qed

lemma values_advance:
  assumes "row_ok r u log" "row_ok r s log" "is_running u" "grown s u" "ns_node u = ns_node s" "values_ok r s ph v log"
  shows "row_ok r (advance_set ph v now u) log"
proof (cases "mo_kind r = EnterKind")
  case True
  with assms show ?thesis unfolding row_ok_def values_ok_def using enter_advance by simp
next
  case False
  then have "snapshot_taken s"
    using assms(2) by (auto simp: row_ok_def restore_ok_def snapshot_taken_def)
  with False assms show ?thesis unfolding row_ok_def values_ok_def using restore_advance by simp
qed

lemma knows_duty:
  assumes "knows r s w" "values_ok r s ph v (w_log w)"
  shows "advance_duty (step_key s) ph v w"
  unfolding advance_duty_def
proof (intro allI impI)
  fix u q now
  assume a: "step_at (w_db w) (step_key s) = Some u" "is_running u" "mop_at (w_db w) (fst (step_key s)) = Some q" "row_ok q u (w_log w)"
  have known: "op_known r w" "ns_operation s = mo_id r" "row_ok r s (w_log w)" "grown s u"
    using assms(1) a(1) by (auto simp: knows_def)
  have "same_op r q"
    using known(1,2) a(3) by (auto simp: op_known_def)
  moreover have "row_ok r (advance_set ph v now u) (w_log w)"
    using values_advance [OF known_row(1) [OF known(1) a(1)] known(3) a(2) known(4)] known_row(3) [OF known(1) a(1)]
      assms(2) known(2) by simp
  ultimately show "row_ok q (advance_set ph v now u) (w_log w)"
    by (simp add: row_ok_same)
qed

lemma task_advance_same:
  assumes "knows r s w0" and "\<And>w. evolves w0 w \<Longrightarrow> knows r s w \<Longrightarrow> values_ok r s ph v (w_log w)"
  shows "task.meets cc me (advance s ph v) (\<lambda>t w. knows r t w \<and> ns_node t = ns_node s) (\<lambda>_ _. True) w0"
  unfolding advance_def
proof (rule task_seq, rule task_bool)
  fix w assume w: "evolves w0 w"
  note kw = knows_stable [OF w assms(1)]
  show "task_request (Advance (step_key s) ph v) \<and> duty me (Advance (step_key s) ph v) w"
    using knows_duty [OF kw assms(2) [OF w kw]] by (simp add: task_request_def duty_def)
next
  fix w b u t assume wt: "evolves w0 w" "evolves w t"
  have kt: "knows r s t"
    using knows_stable [OF evolves_trans [OF wt] assms(1)] .
  have found: "knows r x v \<and> ns_node x = ns_node s" if "evolves t v" "op_get (ns_operation s) (w_db v) = Some (q, steps)"
      "List.find (\<lambda>t. ns_node t = ns_node s) steps = Some x" for v q steps x
  proof -
    have "knows r s v" using knows_stable [OF that(1) kt] .
    moreover have "x \<in> set (md_steps (w_db v))" "ns_operation x = ns_operation s"
      using that(2,3) by (auto simp: op_get_def steps_of_def find_Some_iff dest!: nth_mem)
    moreover have "ns_node x = ns_node s"
      using that(3) by (auto simp: find_Some_iff)
    ultimately show ?thesis
      by (intro conjI knows_taken) (auto simp: knows_def)
  qed
  let ?get = "seq (call_view (GetOp (ns_operation s))) (\<lambda>r. case r of None \<Rightarrow> Throw LostRole
            | Some (_, steps) \<Rightarrow> (case List.find (\<lambda>t. ns_node t = ns_node s) steps of None \<Rightarrow> Throw LostRole | Some t \<Rightarrow> Ret t))"
  have "task.meets cc me ?get (\<lambda>t w. knows r t w \<and> ns_node t = ns_node s) (\<lambda>_ _. True) t"
  proof (rule task_seq, rule task_view)
    show "task_request (GetOp (ns_operation s)) \<and> duty me (GetOp (ns_operation s)) w" for w
      by (simp add: task_request_def duty_def)
    fix v x y z
    assume v: "evolves t v" "does cc me (GetOp (ns_operation s)) v (AView x) y" "evolves y z"
    have y: "y = v" "x = op_get (ns_operation s) (w_db v)" using does_get [OF v(2)] by auto
    have "knows r n z' \<and> ns_node n = ns_node s" if x: "x = Some (q, steps)" "List.find (\<lambda>t. ns_node t = ns_node s) steps = Some n" "evolves z z'"
      for q steps n z'
    proof -
      have "knows r n v \<and> ns_node n = ns_node s" using found [OF v(1) _ x(2)] x(1) y by simp
      moreover have "evolves v z'" using v(3) x(3) y evolves_trans by blast
      ultimately show ?thesis using knows_stable by blast
    qed
    note done_by = this
    show "task.meets cc me (case x of None \<Rightarrow> Throw LostRole
          | Some (_, steps) \<Rightarrow> (case List.find (\<lambda>t. ns_node t = ns_node s) steps of None \<Rightarrow> Throw LostRole | Some t \<Rightarrow> Ret t))
        (\<lambda>t w. knows r t w \<and> ns_node t = ns_node s) (\<lambda>_ _. True) z"
    proof (cases x)
      case None
      then show ?thesis by simp
    next
      case (Some y)
      obtain q steps where y: "y = (q, steps)" by (cases y)
      show ?thesis
      proof (cases "List.find (\<lambda>t. ns_node t = ns_node s) steps")
        case None
        then show ?thesis by (simp add: Some y)
      next
        case (Some n)
        show ?thesis
          unfolding \<open>x = Some y\<close> y option.case prod.case Some
          by (rule task_ret) (rule done_by [OF _ Some], simp_all add: \<open>x = Some y\<close> y)
      qed
    qed
  qed
  then show "task.meets cc me (if \<not> b then Throw LostRole else ?get) (\<lambda>t w. knows r t w \<and> ns_node t = ns_node s) (\<lambda>_ _. True) t"
    by (cases b) simp_all
qed

lemma task_advance:
  assumes "knows r s w0" and "\<And>w. evolves w0 w \<Longrightarrow> knows r s w \<Longrightarrow> values_ok r s ph v (w_log w)"
  shows "task.meets cc me (advance s ph v) (\<lambda>t w. knows r t w) (\<lambda>_ _. True) w0"
  by (rule task.meets_conseq [OF task_advance_same [OF assms]]) auto

section \<open>The phases of an entry\<close>

lemma task_bind:
  assumes "knows r s w0" and "task.meets cc me m Q' (\<lambda>_ _. True) w0"
    and "\<And>x w. evolves w0 w \<Longrightarrow> Q' x w \<Longrightarrow> knows r s w \<Longrightarrow> task.meets cc me (f x) Q (\<lambda>_ _. True) w"
  shows "task.meets cc me (seq m f) Q (\<lambda>_ _. True) w0"
proof -
  have "task.meets cc me m (\<lambda>x w. Q' x w \<and> evolves w0 w \<and> knows r s w) (\<lambda>e w. True \<and> evolves w0 w \<and> knows r s w) w0"
    by (rule task_keep [OF _ _ assms(2)]) (use assms(1) knows_stable evolves_trans in \<open>auto\<close>)
  then show ?thesis
    by (intro task_seq) (rule task.meets_conseq, assumption, use assms(3) in \<open>auto\<close>)
qed

lemma task_handle:
  assumes "knows r s w0" and "task.meets cc me m Q (\<lambda>_ _. True) w0"
    and "\<And>e w. evolves w0 w \<Longrightarrow> knows r s w \<Longrightarrow> task.meets cc me (h e) Q (\<lambda>_ _. True) w"
  shows "task.meets cc me (handle m h) Q (\<lambda>_ _. True) w0"
proof -
  have "task.meets cc me m (\<lambda>x w. Q x w \<and> evolves w0 w \<and> knows r s w) (\<lambda>e w. True \<and> evolves w0 w \<and> knows r s w) w0"
    by (rule task_keep [OF _ _ assms(2)]) (use assms(1) knows_stable evolves_trans in \<open>auto\<close>)
  then show ?thesis
    by (intro task.meets_handle) (rule task.meets_conseq, assumption, use assms(3) in \<open>auto\<close>)
qed

lemma knows_call: "knows r s w \<Longrightarrow> mop_at (w_db w) (mo_id r) \<noteq> None"
  by (auto simp: knows_def op_known_def)

lemma entry_doc:
  assumes "knows r s w0" "\<And>ep oid m. c \<noteq> NRestore ep oid ''load'' m"
  shows "task.meets cc me (call_doc (NodeCall (mo_id r) (ns_node s) c))
    (\<lambda>d w. Ev (mo_id r) (ns_node s) c (ADoc (Inr d)) \<in> set (w_log w)) (\<lambda>_ _. True) w0"
proof (rule task_doc)
  fix w assume "evolves w0 w"
  then show "duty me (NodeCall (mo_id r) (ns_node s) c) w"
    using knows_call [OF knows_stable] assms by (auto simp: duty_def load_duty_def)
qed

lemma known_entry:
  assumes "knows r s w" "mo_kind r = EnterKind"
  shows "enter_ok r s (w_log w)"
  using assms by (simp add: knows_def row_ok_def)

lemma interrupt_meets:
  assumes k: "knows r s w0" and r: "mo_kind r = EnterKind"
  shows "task.meets cc me (interrupt_phase r s) (\<lambda>t w. knows r t w) (\<lambda>_ _. True) w0"
  unfolding interrupt_phase_def
proof (rule task_bind [OF k entry_doc [OF k]])
  fix rep w
  assume ev: "Ev (mo_id r) (ns_node s) (NInterrupt (mo_epoch r)) (ADoc (Inr rep)) \<in> set (w_log w)" and kw: "knows r s w"
  have "task.meets cc me (advance s PhInterrupted (no_values\<lparr>sv_interrupt := Some rep\<rparr>)) (\<lambda>t w. knows r t w) (\<lambda>_ _. True) w"
    if q: "truthy (dget rep ''quiescent'')"
  proof (rule task_advance [OF kw])
    fix v assume "evolves w v"
    then obtain l where "w_log v = w_log w @ l" using grows_toD(1) by (auto simp: evolves_def)
    then show "values_ok r s PhInterrupted (no_values\<lparr>sv_interrupt := Some rep\<rparr>) (w_log v)"
      using ev q r by (simp add: values_ok_def enter_values_def phase_defs no_values_def)
  qed
  then show "task.meets cc me (if \<not> truthy (dget rep ''quiescent'')
        then Throw (raised (''senders still talking to the runtime: '' @ py_str (dget rep ''still_sending'')) None)
        else advance s PhInterrupted (no_values\<lparr>sv_interrupt := Some rep\<rparr>)) (\<lambda>t w. knows r t w) (\<lambda>_ _. True) w"
    by simp
qed simp

lemma plain_advance:
  assumes k: "knows r s w0" and r: "mo_kind r = EnterKind"
    and "interrupted ph \<longrightarrow> interrupted (ns_phase s)" "snapshotted ph \<longrightarrow> snapshot_taken s \<or> x \<noteq> None \<or> y \<noteq> None" "\<not> was_reset ph"
  shows "task.meets cc me (advance s ph (no_values\<lparr>sv_snapshot := x, sv_snapshot_error := y\<rparr>)) (\<lambda>t w. knows r t w) (\<lambda>_ _. True) w0"
proof (rule task_advance [OF k])
  fix w assume "knows r s w"
  then have "enter_ok r s (w_log w)" using known_entry r by blast
  then show "values_ok r s ph (no_values\<lparr>sv_snapshot := x, sv_snapshot_error := y\<rparr>) (w_log w)"
    using assms(2-) by (auto simp: values_ok_def enter_values_def no_values_def enter_ok_def was_reset_def)
qed

lemma snapshot_meets:
  assumes k: "knows r s w0" and r: "mo_kind r = EnterKind" and p: "ns_phase s = PhInterrupted"
  shows "task.meets cc me (snapshot_phase r s) (\<lambda>t w. knows r t w) (\<lambda>_ _. True) w0"
proof -
  have adv: "task.meets cc me (advance s PhSnapshotted (no_values\<lparr>sv_snapshot := x, sv_snapshot_error := y\<rparr>)) (\<lambda>t w. knows r t w) (\<lambda>_ _. True) w"
    if "knows r s w" "snapshot_taken s \<or> x \<noteq> None \<or> y \<noteq> None" for w x y
    using plain_advance [OF that(1) r] that(2) p by (simp add: phase_defs)
  have same: "no_values = no_values\<lparr>sv_snapshot := None, sv_snapshot_error := None\<rparr>"
    "no_values\<lparr>sv_snapshot := x\<rparr> = no_values\<lparr>sv_snapshot := x, sv_snapshot_error := None\<rparr>"
    "no_values\<lparr>sv_snapshot_error := y\<rparr> = no_values\<lparr>sv_snapshot := None, sv_snapshot_error := y\<rparr>" for x y
    by (simp_all add: no_values_def)
  have obs: "task.meets cc me (call_residency (mo_id r) (ns_node s)) (\<lambda>_ _. True) (\<lambda>_ _. True) w0"
    by (rule task_residency) (use knows_call [OF knows_stable [OF _ k]] in \<open>auto\<close>)
  show ?thesis
  proof (cases "snapshot_taken s")
    case True
    then show ?thesis
      unfolding snapshot_phase_def using adv [OF k, of None None] same(1) by simp
  next
    case False
    let ?f = "\<lambda>resident. case resident of
        Some es \<Rightarrow> advance s PhSnapshotted (no_values\<lparr>sv_snapshot := Some (snapshot_of es)\<rparr>)
      | None \<Rightarrow>
          if ns_attempts s + 1 < SNAPSHOT_TRIES
          then Throw (raised ''the runtime could not be observed for the snapshot'' None)
          else advance s PhSnapshotted (no_values\<lparr>sv_snapshot_error :=
            Some ''the runtime could not be observed before the reset; it cannot be restored automatically''\<rparr>)"
    have "task.meets cc me (seq (call_residency (mo_id r) (ns_node s)) ?f) (\<lambda>t w. knows r t w) (\<lambda>_ _. True) w0"
    proof (rule task_bind [OF k obs])
      fix x w assume "knows r s w"
      then show "task.meets cc me (?f x) (\<lambda>t w. knows r t w) (\<lambda>_ _. True) w"
        using adv [of w "Some y" None for y] adv [of w None "Some y" for y] same(2,3) by (cases x) simp_all
    qed
    with False show ?thesis
      by (simp add: snapshot_phase_def)
  qed
qed

lemma reset_call_meets:
  assumes k: "knows r s w0" and r: "mo_kind r = EnterKind" and p: "ns_phase s = PhSnapshotted"
  shows "task.meets cc me (reset_call r s rid) (\<lambda>t w. knows r t w) (\<lambda>_ _. True) w0"
  unfolding reset_call_def
proof (rule task_bind [OF k task_handle [OF k entry_doc [OF k]]])
  fix e w assume kw: "knows r s w"
  have "task.meets cc me (advance s PhPending no_values) (\<lambda>t w. knows r t w) (\<lambda>_ _. True) w"
    using plain_advance [OF kw r, of PhPending None None] by (simp add: phase_defs no_values_def)
  then have "task.meets cc me (seq (advance s PhPending no_values) (\<lambda>_. Throw LaterPass))
      (\<lambda>d w. Ev (mo_id r) (ns_node s) (NReset (mo_epoch r) rid) (ADoc (Inr d)) \<in> set (w_log w)) (\<lambda>_ _. True) w"
    by (rule task_bind [OF kw]) simp
  then show "task.meets cc me (case e of NodeControlError ne \<Rightarrow>
        if ne_refused ne = Some ''node_not_quiescent'' then seq (advance s PhPending no_values) (\<lambda>_. Throw LaterPass) else Throw e
      | _ \<Rightarrow> Throw e)
      (\<lambda>d w. Ev (mo_id r) (ns_node s) (NReset (mo_epoch r) rid) (ADoc (Inr d)) \<in> set (w_log w)) (\<lambda>_ _. True) w"
    by (auto split: exn.splits)
next
  fix rep w
  assume ev: "Ev (mo_id r) (ns_node s) (NReset (mo_epoch r) rid) (ADoc (Inr rep)) \<in> set (w_log w)" and kw: "knows r s w"
  show "task.meets cc me (advance s PhReset (no_values\<lparr>sv_reset := Some rep,
      sv_accounting := Some (py_str (dget rep ''accounting''))\<rparr>)) (\<lambda>t w. knows r t w) (\<lambda>_ _. True) w"
  proof (rule task_advance [OF kw])
    fix v assume v: "evolves w v" "knows r s v"
    obtain l where "w_log v = w_log w @ l" using v(1) grows_toD(1) by (auto simp: evolves_def)
    then have "\<exists>e \<in> set (w_log v). answered_reset r (ns_node s) rep e"
      using ev by (auto simp: answered_reset_def)
    then show "values_ok r s PhReset (no_values\<lparr>sv_reset := Some rep,
        sv_accounting := Some (py_str (dget rep ''accounting''))\<rparr>) (w_log v)"
      using known_entry [OF v(2) r] r p by (simp add: values_ok_def enter_values_def phase_defs no_values_def enter_ok_def)
  qed
qed simp

lemma reset_meets:
  assumes k: "knows r s w0" and r: "mo_kind r = EnterKind" and p: "ns_phase s = PhSnapshotted"
  shows "task.meets cc me (reset_phase r s) (\<lambda>t w. knows r t w) (\<lambda>_ _. True) w0"
proof (cases "ns_reset_id s")
  case (Some rid)
  then show ?thesis using reset_call_meets [OF assms] by (simp add: reset_phase_def)
next
  case None
  have token: "task.meets cc me call_token (\<lambda>_ _. True) (\<lambda>_ _. True) w0"
    unfolding call_token_def
  proof (rule task_call)
    show "task_request Token \<and> duty me Token w" for w by (simp add: task_request_def duty_def)
  qed (simp split: answer.split)
  have set: "task.meets cc me (call_bool (SetResetId (step_key s) rid)) (\<lambda>_ _. True) (\<lambda>_ _. True) w" for rid w
    by (rule task_bool) (simp_all add: task_request_def duty_def)
  show ?thesis
    unfolding reset_phase_def None option.case
    by (intro task_bind [OF k token] task_bind [OF _ set]) (use reset_call_meets [OF _ r p] in \<open>auto\<close>)
qed

lemma verify_meets:
  assumes k: "knows r s w0" and r: "mo_kind r = EnterKind" and p: "ns_phase s = PhReset"
  shows "task.meets cc me (verify_phase r s) (\<lambda>t w. knows r t w) (\<lambda>_ _. True) w0"
  unfolding verify_phase_def
proof (rule task_bind [OF k])
  show "task.meets cc me (call_residency (mo_id r) (ns_node s))
      (\<lambda>x w. x = Some [] \<longrightarrow> emptied r (ns_node s) (w_log w)) (\<lambda>_ _. True) w0"
  proof (rule task_residency)
    show "mop_at (w_db w) (mo_id r) \<noteq> None" if "evolves w0 w" for w
      using knows_call [OF knows_stable [OF that k]] .
    fix w x l t
    assume w: "evolves w0 w" "w_log t = (w_log w @ [Ev (mo_id r) (ns_node s) NResidency (AResidency x)]) @ l"
    have "enter_ok r s (w_log w)" using known_entry [OF knows_stable [OF w(1) k] r] .
    then obtain rep e where "e \<in> set (w_log w)" "answered_reset r (ns_node s) rep e"
      using p by (auto simp: enter_ok_def was_reset_def)
    then show "x = Some [] \<longrightarrow> emptied r (ns_node s) (w_log t)"
      unfolding w(2) using emptied_more [OF emptied_now] by blast
  qed
next
  fix x :: "json list option" and w
  assume x: "x = Some [] \<longrightarrow> emptied r (ns_node s) (w_log w)" and kw: "knows r s w"
  have adv: "task.meets cc me (advance s PhVerified (no_values\<lparr>sv_verification := Some VERIFIED_EMPTY\<rparr>)) (\<lambda>t w. knows r t w) (\<lambda>_ _. True) w"
    if "x = Some []"
  proof (rule task_advance [OF kw])
    fix v assume v: "evolves w v" "knows r s v"
    obtain l where "w_log v = w_log w @ l" using v(1) grows_toD(1) by (auto simp: evolves_def)
    then have "emptied r (ns_node s) (w_log v)" using x that emptied_more by simp
    then show "values_ok r s PhVerified (no_values\<lparr>sv_verification := Some VERIFIED_EMPTY\<rparr>) (w_log v)"
      using known_entry [OF v(2) r] r p by (simp add: values_ok_def enter_values_def phase_defs no_values_def enter_ok_def)
  qed
  have audited: "task.meets cc me (seq (audit_event a b c d) (\<lambda>_. Ret t)) (\<lambda>t w. knows r t w) (\<lambda>_ _. True) v"
    if "knows r t v" for a b c d t v
    by (rule task_bind [OF that task_audit]) (use knows_stable that in \<open>auto\<close>)
  show "task.meets cc me (case x of
       None \<Rightarrow> Throw (raised ''the restarted runtime does not answer yet'' None)
     | Some [] \<Rightarrow>
         seq (advance s PhVerified (no_values\<lparr>sv_verification := Some VERIFIED_EMPTY\<rparr>)) (\<lambda>done_step.
         seq (audit_event ''maintenance.node_cleared'' (ns_node s) ''success''
                [(''epoch'', show_int (mo_epoch r)), (''operation'', mo_id r), (''snapshot'', snapshot_summary s),
                 (''accounting'', if ns_accounting s = None \<or> ns_accounting s = Some [] then ''unknown'' else the (ns_accounting s)),
                 (''reset_id'', case ns_reset_id s of None \<Rightarrow> [] | Some i \<Rightarrow> i)]) (\<lambda>_. Ret done_step))
     | Some es \<Rightarrow>
         (case entry_names es of
            None \<Rightarrow> Throw (OtherError ''AttributeError'')
          | Some ns \<Rightarrow> Throw (raised (''models are resident after the reset: '' @ names_text ns) None)))
     (\<lambda>t w. knows r t w) (\<lambda>_ _. True) w"
  proof (cases "x = Some []")
    case True
    show ?thesis
      unfolding True option.case list.case
      by (rule task_bind [OF kw adv [OF True]]) (rule audited)
  qed (auto split: option.splits list.splits)
qed

lemma next_meets:
  assumes "knows r s w0" "mo_kind r = EnterKind"
  shows "task.meets cc me (next_phase r s) (\<lambda>t w. knows r t w) (\<lambda>_ _. True) w0"
  unfolding next_phase_def
  using assms interrupt_meets snapshot_meets reset_meets verify_meets by (cases "ns_phase s") simp_all

section \<open>The phases of a restore\<close>

lemma known_restore:
  assumes "knows r s w" "mo_kind r = RestoreKind"
  shows "\<exists>snap. ns_snapshot s = Some snap \<and> loads_ok r snap (vf_loads (progress_of s))"
  using assms by (auto simp: knows_def row_ok_def restore_ok_def)

lemma same_snapshot:
  assumes "ns_snapshot s = Some snap" "mo_kind r = RestoreKind"
    and "(knows r t w \<and> ns_node t = ns_node s) \<and> knows r s w"
  shows "knows r t w \<and> ns_node t = ns_node s \<and> ns_snapshot t = Some snap"
proof -
  have k: "knows r s w" "knows r t w" "ns_node t = ns_node s" using assms(3) by auto
  then have "step_key t = step_key s" by (simp add: knows_def)
  then obtain u where "grown s u" "grown t u" using k by (auto simp: knows_def)
  moreover have "snapshot_taken s" "snapshot_taken t"
    using assms known_restore [OF k(2) assms(2)] by (auto simp: snapshot_taken_def)
  ultimately show ?thesis using assms(1) k by (auto simp: grown_def)
qed

lemma save_loads:
  assumes k: "knows r s w0" and r: "mo_kind r = RestoreKind" and snap: "ns_snapshot s = Some snap"
    and v: "sv_verification v = Some vf" "loads_ok r snap (vf_loads vf)"
  shows "task.meets cc me (advance s ph v) (\<lambda>t w. knows r t w \<and> ns_node t = ns_node s \<and> ns_snapshot t = Some snap) (\<lambda>_ _. True) w0"
proof -
  have adv: "task.meets cc me (advance s ph v) (\<lambda>t w. knows r t w \<and> ns_node t = ns_node s) (\<lambda>_ _. True) w0"
    by (rule task_advance_same [OF k]) (use r snap v in \<open>auto simp: values_ok_def restore_values_def\<close>)
  have "task.meets cc me (advance s ph v) (\<lambda>t w. (knows r t w \<and> ns_node t = ns_node s) \<and> knows r s w)
      (\<lambda>_ w. True \<and> knows r s w) w0"
    by (rule task_keep [where K = "knows r s", OF knows_stable k adv])
  then show ?thesis
    by (rule task.meets_conseq) (rule same_snapshot [OF snap r], assumption, simp)
qed

lemma save_meets:
  assumes "knows r s w0" "mo_kind r = RestoreKind" "ns_snapshot s = Some snap" "loads_ok r snap (vf_loads vf)"
  shows "task.meets cc me (advance s ph (verified_by vf)) (\<lambda>t w. knows r t w \<and> ns_node t = ns_node s \<and> ns_snapshot t = Some snap) (\<lambda>_ _. True) w0"
  by (rule save_loads [OF assms(1-3), where vf = vf]) (use assms(4) in \<open>simp_all add: verified_by_def\<close>)

lemma only_loads_meets:
  assumes "knows r s w0" "mo_kind r = RestoreKind" "ns_snapshot s = Some snap" "loads_ok r snap loads"
  shows "task.meets cc me (advance s ph (only_loads loads)) (\<lambda>t w. knows r t w \<and> ns_node t = ns_node s \<and> ns_snapshot t = Some snap) (\<lambda>_ _. True) w0"
  by (rule save_loads [OF assms(1-3), where vf = "NO_PROGRESS\<lparr>vf_loads := loads\<rparr>"]) (use assms(4) in \<open>simp_all add: only_loads_def\<close>)

lemma knows_only: "task.meets cc me p (\<lambda>t w. knows r t w \<and> A t w) (\<lambda>_ _. True) w0 \<Longrightarrow>
    task.meets cc me p (\<lambda>t w. knows r t w) (\<lambda>_ _. True) w0"
  by (erule task.meets_conseq) auto

lemma restore_doc:
  assumes k: "knows r s w0" and r: "mo_kind r = RestoreKind" and snap: "ns_snapshot s = Some snap"
    and load: "a = ''load'' \<longrightarrow> oid \<in> load_id r ` {..<load_bound snap}"
  shows "task.meets cc me (call_doc (NodeCall (mo_id r) (ns_node s) (NRestore ep oid a m))) (\<lambda>_ _. True) (\<lambda>_ _. True) w0"
proof (rule task_doc)
  fix w assume "evolves w0 w"
  then have kw: "knows r s w" using k by (rule knows_stable)
  have "ns_snapshot u = Some snap" if "step_at (w_db w) (mo_id r, ns_node s) = Some u" for u
    using kw snap that by (auto simp: knows_def grown_def snapshot_taken_def)
  moreover have "load_id q = load_id r" if "mop_at (w_db w) (mo_id r) = Some q" for q
    using kw that load_id_same by (auto simp: knows_def op_known_def)
  ultimately show "duty me (NodeCall (mo_id r) (ns_node s) (NRestore ep oid a m)) w"
    using knows_call [OF kw] load by (auto simp: duty_def load_duty_def)
qed simp

lemma task_attribute: "task.meets cc me (attribute x) (\<lambda>y w. x = Some y) (\<lambda>_ _. True) w0"
  by (cases x) (simp_all add: attribute_def)

lemma observe_meets:
  assumes k: "knows r s w0"
  shows "task.meets cc me (observe_node r s snap) (\<lambda>_ _. True) (\<lambda>_ _. True) w0"
proof -
  have obs: "task.meets cc me (call_residency (mo_id r) (ns_node s)) (\<lambda>_ _. True) (\<lambda>_ _. True) w0"
    by (rule task_residency) (use knows_call [OF knows_stable [OF _ k]] in \<open>auto\<close>)
  have rest: "task.meets cc me (seq (attribute (strangers snap res)) (\<lambda>xs. if xs \<noteq> [] then Throw (e xs) else Ret res))
      (\<lambda>_ _. True) (\<lambda>_ _. True) w" if "knows r s w" for res e w
    by (rule task_bind [OF that task_attribute]) simp
  show ?thesis
    unfolding observe_node_def
    by (rule task_bind [OF k obs]) (use rest in \<open>auto split: option.split\<close>)
qed

lemma set_last_ops: "ld_op ` set (set_last st loads) = ld_op ` set loads" "length (set_last st loads) = length loads"
  by (cases loads rule: rev_cases; auto simp: set_last_def)+

lemma set_last_ok: "loads_ok r snap loads \<Longrightarrow> loads_ok r snap (set_last st loads)"
  by (simp add: loads_ok_def set_last_ops)

lemma ask_load_meets:
  assumes k: "knows r s w0" and r: "mo_kind r = RestoreKind" and snap: "ns_snapshot s = Some snap"
    and loads: "loads_ok r snap loads" and oid: "oid \<in> load_id r ` {..<load_bound snap}"
  shows "task.meets cc me (ask_load r s oid m loads) (\<lambda>t w. knows r t w) (\<lambda>_ _. True) w0"
  unfolding ask_load_def
proof (rule task_bind [OF k task_handle [OF k restore_doc [OF k r snap]]])
  fix e w assume kw: "knows r s w"
  have "task.meets cc me (seq (advance s PhPending (only_loads (set_last (JStr ''failed'') loads))) (\<lambda>_. Throw e)) (\<lambda>_ _. True) (\<lambda>_ _. True) w"
    by (rule task_bind [OF kw only_loads_meets [OF kw r snap set_last_ok [OF loads]]]) simp
  then show "task.meets cc me (case e of NodeControlError ne \<Rightarrow>
           if dget (ne_body ne) ''state'' = JStr ''failed''
           then seq (advance s PhPending (only_loads (set_last (JStr ''failed'') loads))) (\<lambda>_. Throw e) else Throw e
       | _ \<Rightarrow> Throw e) (\<lambda>_ _. True) (\<lambda>_ _. True) w"
    by (auto split: exn.split)
next
  fix d w assume "knows r s w"
  then show "task.meets cc me (advance s PhPending (only_loads (set_last (dget d ''state'') loads))) (\<lambda>t w. knows r t w) (\<lambda>_ _. True) w"
    by (intro knows_only [OF only_loads_meets [OF _ r snap set_last_ok [OF loads]]])
qed (use oid in simp)

lemma load_one_meets:
  assumes k: "knows r s w0" and r: "mo_kind r = RestoreKind" and snap: "ns_snapshot s = Some snap"
    and loads: "loads_ok r snap loads" and room: "length loads < load_bound snap"
  shows "task.meets cc me (load_one r s m loads) (\<lambda>t w. knows r t w) (\<lambda>_ _. True) w0"
proof (cases "loads \<noteq> [] \<and> py_eq (ld_name (last loads)) (dget m ''name'') \<and> \<not> truthy (ld_state (last loads))")
  case True
  then have "ld_op (last loads) \<in> load_id r ` {..<load_bound snap}"
    using loads by (auto simp: loads_ok_def)
  with True show ?thesis
    unfolding load_one_def using ask_load_meets [OF k r snap loads] by simp
next
  case False
  let ?oid = "load_id r (length loads)"
  let ?loads = "loads @ [\<lparr>ld_op = ?oid, ld_name = dget m ''name'', ld_state = JNull\<rparr>]"
  have ok: "loads_ok r snap ?loads" "?oid \<in> load_id r ` {..<load_bound snap}"
    using loads room by (auto simp: loads_ok_def)
  have "task.meets cc me (seq (advance s PhPending (only_loads ?loads)) (\<lambda>s'. ask_load r s' ?oid m ?loads)) (\<lambda>t w. knows r t w) (\<lambda>_ _. True) w0"
    by (rule task_bind [OF k only_loads_meets [OF k r snap ok(1)]]) (use ask_load_meets [OF _ r _ ok] in \<open>auto\<close>)
  then show ?thesis
    unfolding load_one_def Let_def if_not_P [OF False] .
qed

lemma load_phase_meets:
  assumes k: "knows r s w0" and r: "mo_kind r = RestoreKind" and snap: "ns_snapshot s = Some snap0" "length snap = length snap0"
  shows "task.meets cc me (load_phase r s snap) (\<lambda>t w. knows r t w) (\<lambda>_ _. True) w0"
proof -
  let ?p = "progress_of s"
  have loads: "loads_ok r snap0 (vf_loads ?p)" using known_restore [OF k r] snap(1) by auto
  have bound: "load_bound snap0 = length snap * (1 + MAX_REPAIR_ROUNDS)" using snap(2) by (simp add: load_bound_def)
  have turn: "task.meets cc me (case missing of
        [] \<Rightarrow> advance s PhLoaded (verified_by (?p\<lparr>vf_probes := []\<rparr>))
      | m # ms \<Rightarrow>
          if length (vf_loads ?p) \<ge> length snap * (1 + MAX_REPAIR_ROUNDS) then Throw (e missing)
          else load_one r s m (vf_loads ?p)) (\<lambda>t w. knows r t w) (\<lambda>_ _. True) w" if "knows r s w" for missing e w
    using knows_only [OF save_meets [OF that r snap(1), of "?p\<lparr>vf_probes := []\<rparr>"]] load_one_meets [OF that r snap(1) loads] loads
    by (auto simp: bound split: list.split)
  have rest: "task.meets cc me (seq (attribute (missing_of snap resident)) (\<lambda>missing. case missing of
        [] \<Rightarrow> advance s PhLoaded (verified_by (?p\<lparr>vf_probes := []\<rparr>))
      | m # ms \<Rightarrow>
          if length (vf_loads ?p) \<ge> length snap * (1 + MAX_REPAIR_ROUNDS) then Throw (e missing)
          else load_one r s m (vf_loads ?p))) (\<lambda>t w. knows r t w) (\<lambda>_ _. True) w" if "knows r s w" for resident e w
    by (rule task_bind [OF that task_attribute]) (rule turn)
  show ?thesis
    unfolding load_phase_def Let_def by (rule task_bind [OF k observe_meets [OF k]]) (rule rest)
qed

definition tracks :: "m_op \<Rightarrow> jobj list \<Rightarrow> node_step \<Rightarrow> world \<Rightarrow> bool" where
  "tracks r snap s w \<longleftrightarrow> knows r s w \<and> ns_snapshot s = Some snap"

lemma tracks_stable: "evolves w t \<Longrightarrow> tracks r snap s w \<Longrightarrow> tracks r snap s t"
  by (simp add: tracks_def knows_stable)

lemma track_post: "task.meets cc me p (\<lambda>t w. knows r t w \<and> ns_node t = n \<and> ns_snapshot t = Some snap) (\<lambda>_ _. True) w0 \<Longrightarrow>
    task.meets cc me p (tracks r snap) (\<lambda>_ _. True) w0"
  by (erule task.meets_conseq) (simp_all add: tracks_def)

lemma track_advance:
  assumes "tracks r snap s w0" "mo_kind r = RestoreKind" "loads_ok r snap (vf_loads vf)"
  shows "task.meets cc me (advance s ph (verified_by vf)) (tracks r snap) (\<lambda>_ _. True) w0"
  by (rule track_post [OF save_meets [OF _ assms(2) _ assms(3)]]) (use assms(1) in \<open>simp_all add: tracks_def\<close>)

lemma track_bind:
  assumes "tracks r snap s w0" and "task.meets cc me m Q' (\<lambda>_ _. True) w0"
    and "\<And>x w. Q' x w \<Longrightarrow> tracks r snap s w \<Longrightarrow> task.meets cc me (f x) Q (\<lambda>_ _. True) w"
  shows "task.meets cc me (seq m f) Q (\<lambda>_ _. True) w0"
  using assms by (intro task_bind [OF _ assms(2), of r s]) (auto simp: tracks_def)

lemma ask_probe_meets:
  assumes k: "tracks r snap s w0" and r: "mo_kind r = RestoreKind" and loads: "loads_ok r snap (vf_loads progress)"
  shows "task.meets cc me (ask_probe r progress s m probes n p) (\<lambda>x w. tracks r snap (fst x) w) (\<lambda>_ _. True) w0"
proof -
  have ks: "knows r s w0" "ns_snapshot s = Some snap" using k by (auto simp: tracks_def)
  have save: "task.meets cc me (advance s PhLoaded (verified_by (progress\<lparr>vf_probes := ps, vf_attempts := n\<rparr>))) (tracks r snap) (\<lambda>_ _. True) w"
    if "tracks r snap s w" for ps w
    by (rule track_advance [OF that r]) (simp add: loads)
  show ?thesis
    unfolding ask_probe_def Let_def
  proof (rule track_bind [OF k task_handle [OF ks(1) restore_doc [OF ks(1) r ks(2)]]])
    fix e w assume "knows r s w"
    then have kw: "tracks r snap s w" using ks(2) by (simp add: tracks_def)
    have "task.meets cc me (seq (advance s PhLoaded (verified_by (progress\<lparr>vf_probes := ps, vf_attempts := n\<rparr>))) (\<lambda>_. Throw e))
        (\<lambda>_ _. True) (\<lambda>_ _. True) w" for ps
      by (rule track_bind [OF kw save [OF kw]]) simp
    then show "task.meets cc me (case e of NodeControlError ne \<Rightarrow>
           if dget (ne_body ne) ''state'' = JStr ''failed''
           then seq (advance s PhLoaded (verified_by (progress\<lparr>vf_probes := AList.update (name_of m) (p\<lparr>pb_state := JStr ''failed''\<rparr>) probes,
             vf_attempts := n\<rparr>))) (\<lambda>_. Throw e) else Throw e
       | _ \<Rightarrow> Throw e) (\<lambda>_ _. True) (\<lambda>_ _. True) w"
      by (auto split: exn.split)
  next
    fix d w assume kw: "tracks r snap s w"
    show "task.meets cc me (seq (advance s PhLoaded (verified_by (progress\<lparr>vf_probes :=
          AList.update (name_of m) (p\<lparr>pb_state := dget d ''state''\<rparr>) probes, vf_attempts := n\<rparr>)))
        (\<lambda>s'. Ret (s', AList.update (name_of m) (p\<lparr>pb_state := dget d ''state''\<rparr>) probes)))
        (\<lambda>x w. tracks r snap (fst x) w) (\<lambda>_ _. True) w"
      by (rule track_bind [OF kw save [OF kw]]) (auto intro: tracks_stable)
  qed simp
qed

lemma probe_all_meets:
  assumes "tracks r snap s w0" "mo_kind r = RestoreKind" "loads_ok r snap (vf_loads progress)"
  shows "task.meets cc me (probe_all r progress s ms probes n) (tracks r snap) (\<lambda>_ _. True) w0"
  using assms(1)
proof (induction ms arbitrary: s probes n w0)
  case Nil
  then show ?case by (auto intro: tracks_stable)
next
  case (Cons m ms)
  have ask: "task.meets cc me (seq (ask_probe r progress s' m ps k p) (\<lambda>(s', ps). probe_all r progress s' ms ps k))
      (tracks r snap) (\<lambda>_ _. True) w" if "tracks r snap s' w" for s' ps k p w
    by (rule track_bind [OF that ask_probe_meets [OF that assms(2,3)]]) (auto split: prod.split intro: Cons.IH)
  have new: "task.meets cc me (seq (advance s PhLoaded (verified_by (progress\<lparr>vf_probes := ps, vf_attempts := k\<rparr>))) (\<lambda>s1.
      seq (ask_probe r progress s1 m ps k p) (\<lambda>(s2, ps2). probe_all r progress s2 ms ps2 k))) (tracks r snap) (\<lambda>_ _. True) w0" for ps k p
    by (rule track_bind [OF Cons.prems track_advance [OF Cons.prems assms(2)]]) (auto simp: assms(3) intro: ask)
  show ?case
    using ask [OF Cons.prems] new Cons.IH [OF Cons.prems] by (auto simp: Let_def split: option.split)
qed

lemma still_whole_meets:
  assumes k: "tracks r snap0 s w0" and r: "mo_kind r = RestoreKind" and loads: "loads_ok r snap0 (vf_loads progress)"
  shows "task.meets cc me (still_whole r s snap ph progress) (tracks r snap0) (\<lambda>_ _. True) w0"
  unfolding still_whole_def
proof (rule track_bind [OF k observe_meets], goal_cases)
  case 1
  then show ?case using k by (simp add: tracks_def)
next
  case (2 resident w)
  show ?case
  proof (rule track_bind [OF 2(2) task_attribute], rule track_bind [OF _ task_attribute], assumption)
    fix b ns w assume kw: "tracks r snap0 s w"
    have "task.meets cc me (advance s PhPending (only_loads (vf_loads progress))) (tracks r snap0) (\<lambda>_ _. True) w"
      by (rule track_post [OF only_loads_meets [OF _ r _ loads]]) (use kw in \<open>simp_all add: tracks_def\<close>)
    then show "task.meets cc me (if b
       then advance s ph (verified_by (progress\<lparr>vf_resident := Some (sort_by str_le (map py_str ns))\<rparr>))
       else advance s PhPending (only_loads (vf_loads progress))) (tracks r snap0) (\<lambda>_ _. True) w"
      using track_advance [OF kw r, of "progress\<lparr>vf_resident := Some (sort_by str_le (map py_str ns))\<rparr>"] loads by simp
  qed
qed

lemma track_loads: "tracks r snap s w \<Longrightarrow> mo_kind r = RestoreKind \<Longrightarrow> loads_ok r snap (vf_loads (progress_of s))"
  using known_restore by (fastforce simp: tracks_def)

lemma probe_phase_meets:
  assumes k: "tracks r snap0 s w0" and r: "mo_kind r = RestoreKind"
  shows "task.meets cc me (probe_phase r s snap) (tracks r snap0) (\<lambda>_ _. True) w0"
  unfolding probe_phase_def Let_def
  by (rule track_bind [OF k probe_all_meets [OF k r track_loads [OF k r]]])
    (rule still_whole_meets [OF _ r track_loads [OF _ r]], assumption+)

lemma confirm_phase_meets:
  assumes k: "tracks r snap0 s w0" and r: "mo_kind r = RestoreKind"
  shows "task.meets cc me (confirm_phase r s snap) (tracks r snap0) (\<lambda>_ _. True) w0"
proof -
  have audited: "task.meets cc me (seq (audit_event a b c d) (\<lambda>_. Ret t)) (tracks r snap0) (\<lambda>_ _. True) v"
    if "tracks r snap0 t v" for a b c d t v
    by (rule track_bind [OF that task_audit]) (use tracks_stable that in \<open>auto\<close>)
  show ?thesis
    unfolding confirm_phase_def
    by (rule track_bind [OF k still_whole_meets [OF k r track_loads [OF k r]]])
      (use audited tracks_stable in \<open>auto\<close>)
qed

lemma restore_order_length:
  assumes "restore_order snap = Inr ordered"
  shows "length ordered = length snap"
proof -
  obtain xs where xs: "emap (\<lambda>m. ebind (size_of m) (\<lambda>n. Inr (n, m))) snap = Inr xs" "ordered = map snd (sort_by order_le xs)"
    using assms by (cases "emap (\<lambda>m. ebind (size_of m) (\<lambda>n. Inr (n, m))) snap") (auto simp: restore_order_def)
  then show ?thesis
    using list_all2_lengthD by (fastforce simp: emap_Inr_iff)
qed

lemma next_restore_meets:
  assumes k: "knows r s w0" and r: "mo_kind r = RestoreKind"
  shows "task.meets cc me (next_restore r s) (\<lambda>t w. knows r t w) (\<lambda>_ _. True) w0"
proof -
  obtain snap0 where snap0: "ns_snapshot s = Some snap0"
    using known_restore [OF assms] by blast
  then have tracked: "tracks r snap0 s w" if "knows r s w" for w using that by (simp add: tracks_def)
  have order: "task.meets cc me (of_sum OtherError (restore_order snap0)) (\<lambda>snap w. length snap = length snap0) (\<lambda>_ _. True) w0"
    by (cases "restore_order snap0") (simp_all add: of_sum_def restore_order_length)
  have forget: "task.meets cc me p (tracks r snap0) (\<lambda>_ _. True) w \<Longrightarrow> task.meets cc me p (\<lambda>t w. knows r t w) (\<lambda>_ _. True) w" for p w
    by (erule task.meets_conseq) (auto simp: tracks_def)
  show ?thesis
    unfolding next_restore_def snap0 option.case
  proof (rule task_bind [OF k order])
    fix snap :: "jobj list" and w assume l: "length snap = length snap0" and kw: "knows r s w"
    show "task.meets cc me (case ns_phase s of PhPending \<Rightarrow> load_phase r s snap | PhLoaded \<Rightarrow> probe_phase r s snap
         | PhProbed \<Rightarrow> confirm_phase r s snap | p \<Rightarrow> Throw (OtherError ''AssertionError'')) (\<lambda>t w. knows r t w) (\<lambda>_ _. True) w"
      using load_phase_meets [OF kw r snap0 l] forget [OF probe_phase_meets [OF tracked [OF kw] r]]
        forget [OF confirm_phase_meets [OF tracked [OF kw] r]]
      by (cases "ns_phase s") simp_all
  qed
qed

section \<open>A turn\<close>

lemma step_failed_meets: "task.meets cc me (step_failed s e final clear) (\<lambda>_ _. True) (\<lambda>_ _. True) w0"
proof -
  have failed: "task.meets cc me (call_step (AttemptFailed k err cl fin)) (\<lambda>_ _. True) (\<lambda>_ _. True) w0" for k err cl fin
    unfolding call_step_def
  proof (rule task_call)
    show "task_request (AttemptFailed k err cl fin) \<and> duty me (AttemptFailed k err cl fin) w" for w
      by (simp add: task_request_def duty_def)
  qed (simp split: answer.split)
  have rest: "task.meets cc me (case u of
       Some t \<Rightarrow> if ns_status t = StFailed then audit_event a b c d else Ret () | None \<Rightarrow> Ret ()) (\<lambda>_ _. True) (\<lambda>_ _. True) w" for u a b c d w
    by (auto split: option.split intro: task_audit)
  show ?thesis
    unfolding step_failed_def
    by (rule task_seq, rule task.meets_conseq [OF failed]) (use rest in \<open>auto\<close>)
qed

definition carried :: "m_op \<Rightarrow> node_step option \<Rightarrow> world \<Rightarrow> bool" where
  "carried r x w \<longleftrightarrow> (\<forall>s. x = Some s \<longrightarrow> knows r s w)"

lemma given_up: "task.meets cc me (seq (step_failed s e final clear) (\<lambda>_. Ret None)) (carried r) (\<lambda>_ _. True) w0"
  by (rule task_seq, rule task.meets_conseq [OF step_failed_meets]) (simp_all add: carried_def)

theorem carry_turn_meets:
  assumes k: "knows r s w0"
  shows "task.meets cc me (carry_turn r s) (carried r) (\<lambda>_ _. True) w0"
proof -
  have phase: "task.meets cc me (if mo_kind r = RestoreKind then next_restore r s else next_phase r s) (\<lambda>t w. knows r t w) (\<lambda>_ _. True) w0"
    using next_restore_meets [OF k] next_meets [OF k] by (cases "mo_kind r") simp_all
  show ?thesis
    unfolding carry_turn_def
  proof (rule task_handle [OF k task_bind [OF k phase]])
    show "task.meets cc me (Ret (if is_running t then Some t else None)) (carried r) (\<lambda>_ _. True) w" if "knows r t w" for t w
      using that knows_stable by (auto simp: carried_def)
  next
    fix e w
    show "task.meets cc me (case e of
          LostRole \<Rightarrow> Ret None
        | LaterPass \<Rightarrow> Ret None
        | NodeControlError ne \<Rightarrow>
            seq (step_failed s ne
                  ((case ne_refused ne of None \<Rightarrow> False | Some x \<Rightarrow> x \<in> set FINAL_REFUSALS) \<or> ne_status ne = Some 422)
                  (ne_refused ne = Some ''restart_failed'')) (\<lambda>_. Ret None)
        | OtherError x \<Rightarrow> Throw e) (carried r) (\<lambda>_ _. True) w"
      using given_up by (cases e) (simp_all add: carried_def)
  qed
qed

theorem carry_start_meets:
  assumes k: "knows r s w0"
  shows "task.meets cc me (carry_start r s) (carried r) (\<lambda>_ _. True) w0"
proof -
  have ask: "task.meets cc me (call_bool (ControlFor (mo_id r) (ns_node s))) (\<lambda>_ _. True) (\<lambda>_ _. True) w0"
    by (rule task_bool) (simp_all add: task_request_def duty_def)
  show ?thesis
    unfolding carry_start_def
    by (rule task_bind [OF k ask]) (use given_up knows_stable in \<open>auto simp: carried_def\<close>)
qed

end
