(* ===== verification/Coordinator_Passes.thy ===== *)
theory Coordinator_Passes
  imports Coordinator_Tasks
begin

text \<open>
  A coordinator's pass meets its obligations: its trees are checked against the rely of one that holds an
  operation, which everybody else leaves alone (\<open>hands_off\<close>), its own tasks included.
\<close>

section \<open>Rules\<close>

definition leaves :: "string \<Rightarrow> world \<Rightarrow> world \<Rightarrow> bool" where
  "leaves me w t \<longleftrightarrow> evolves w t \<and> hands_off me w t"

lemma leaves_trans: "leaves me w t \<Longrightarrow> leaves me t u \<Longrightarrow> leaves me w u"
  unfolding leaves_def using evolves_trans hands_off_trans by (meson evolves_def)

interpretation pass: program_rules "leaves me" "\<lambda>q w r u. world_ok w \<and> does cc me q w r u"
  "duty me" for cc me
proof unfold_locales
  show "leaves me s s" for me s by (simp add: leaves_def)
  show "leaves me s t \<Longrightarrow> leaves me t u \<Longrightarrow> leaves me s u" for me s t u by (rule leaves_trans)
qed

text \<open>A tree that meets its obligations whatever evolves meets them here, and keeps what others leave alone.\<close>

lemma pass_task:
  assumes "\<And>u v. leaves me u v \<Longrightarrow> K u \<Longrightarrow> K v" and "K s" and "task.meets cc me p Q E s"
  shows "pass.meets me cc p (\<lambda>x w. Q x w \<and> K w) (\<lambda>e w. E e w \<and> K w) s"
  using assms(2,3)
proof (induction p arbitrary: s)
  case (Call q k)
  show ?case
    unfolding pass.meets.simps
  proof (intro allI impI conjI)
    fix t assume t: "leaves me s t"
    then have ev: "evolves s t" by (simp add: leaves_def)
    then show "duty me q t" using Call.prems(2) by auto
    fix r u assume u: "world_ok t \<and> does cc me q t r u"
    then have "leaves me t u"
      using does_evolves [OF _ \<open>duty me q t\<close>] does_hands_off Call.prems(2) ev by (auto simp: leaves_def)
    then have "K u" using t assms(1) Call.prems(1) by blast
    then show "pass.meets me cc (k r) (\<lambda>x w. Q x w \<and> K w) (\<lambda>e w. E e w \<and> K w) u"
      using Call.IH Call.prems(2) ev u by auto
  qed
qed (use assms(1) in \<open>auto simp: leaves_def\<close>)

lemma pass_bind:
  assumes "\<And>u v. leaves me u v \<Longrightarrow> K u \<Longrightarrow> K v" and "K s" and "task.meets cc me m Q' (\<lambda>_ _. True) s"
    and "\<And>x w. Q' x w \<Longrightarrow> K w \<Longrightarrow> pass.meets me cc (f x) Q (\<lambda>_ _. True) w"
  shows "pass.meets me cc (seq m f) Q (\<lambda>_ _. True) s"
  by (rule pass.meets_seq, rule pass.meets_conseq [OF pass_task [where K = K, OF assms(1-3)]]) (use assms(4) in \<open>auto\<close>)

text \<open>A call after which the pass has nothing left to keep.\<close>

lemma pass_last:
  assumes "\<And>w. leaves me s w \<Longrightarrow> duty me q w" and "\<And>b w. pass.meets me cc (f b) Q (\<lambda>_ _. True) w"
  shows "pass.meets me cc (seq (call_bool q) f) Q (\<lambda>_ _. True) s"
proof (rule pass.meets_seq)
  show "pass.meets me cc (call_bool q) (\<lambda>x. pass.meets me cc (f x) Q (\<lambda>_ _. True)) (\<lambda>_ _. True) s"
    using assms by (simp add: call_bool_def split: answer.split)
qed

lemma pass_audit: "pass.meets me cc (audit_event a t r d) (\<lambda>_ _. True) (\<lambda>_ _. True) s"
  using pass_task [where K = "\<lambda>_. True", OF _ _ task_audit] by simp

section \<open>What a read of an operation gives\<close>

text \<open>
  The operation and its steps as read, and what holds as long as this coordinator has the operation: when
  all were done, they still are, and nothing was written to them since the log \<open>l0\<close>.
\<close>

definition read_steps :: "m_op \<Rightarrow> node_step list \<Rightarrow> world \<Rightarrow> bool" where
  "read_steps r steps w \<longleftrightarrow> op_known r w \<and> (\<forall>s \<in> set steps. knows r s w)
     \<and> (\<forall>n. step_at (w_db w) (mo_id r, n) \<noteq> None \<longrightarrow> n \<in> ns_node ` set steps)"

definition still_done :: "string \<Rightarrow> m_op \<Rightarrow> node_step list \<Rightarrow> event list \<Rightarrow> world \<Rightarrow> bool" where
  "still_done me r steps l0 w \<longleftrightarrow> read_steps r steps w \<and> (\<exists>l. w_log w = l0 @ l)
     \<and> (owned me (mo_id r) (w_db w) \<longrightarrow> all_done (mo_id r) (w_db w) \<and> (\<exists>l. w_log w = l0 @ l \<and> quiet (mo_id r) l))"

lemma read_steps_stable:
  assumes "evolves w t" "read_steps r steps w"
  shows "read_steps r steps t"
  unfolding read_steps_def
proof (intro conjI ballI allI impI)
  show "op_known r t" using assms op_known_stable by (auto simp: read_steps_def)
  show "knows r s t" if "s \<in> set steps" for s
    using that assms knows_stable by (auto simp: read_steps_def)
  fix n assume "step_at (w_db t) (mo_id r, n) \<noteq> None"
  moreover obtain q where q: "mop_at (w_db w) (fst (mo_id r, n)) = Some q"
    using assms(2) by (auto simp: read_steps_def op_known_def)
  moreover have "grows_to w t" using assms(1) by (simp add: evolves_def)
  ultimately have at: "step_at (w_db t) (mo_id r, n) \<noteq> None" and grows: "grows_to w t" by simp_all
  have "step_at (w_db w) (mo_id r, n) \<noteq> None"
  proof
    assume "step_at (w_db w) (mo_id r, n) = None"
    with at show False using grows_toD(4) [OF grows q] by simp
  qed
  then show "n \<in> ns_node ` set steps" using assms(2) by (simp add: read_steps_def)
qed

lemma still_done_stable:
  assumes "leaves me w t" "still_done me r steps l0 w"
  shows "still_done me r steps l0 t"
proof -
  have ev: "evolves w t" and off: "hands_off me w t" using assms(1) by (simp_all add: leaves_def)
  have w: "read_steps r steps w" "mop_at (w_db w) (mo_id r) \<noteq> None"
    using assms(2) by (auto simp: still_done_def read_steps_def op_known_def)
  have "\<exists>l. w_log t = l0 @ l"
    using ev assms(2) grows_toD(1) by (fastforce simp: evolves_def still_done_def)
  moreover have "all_done (mo_id r) (w_db t) \<and> (\<exists>l. w_log t = l0 @ l \<and> quiet (mo_id r) l)" if "owned me (mo_id r) (w_db t)"
  proof -
    have own: "owned me (mo_id r) (w_db w)" "all_done (mo_id r) (w_db w) \<longrightarrow> all_done (mo_id r) (w_db t)
        \<and> (\<exists>l. w_log t = w_log w @ l \<and> quiet (mo_id r) l)"
      using off that w(2) by (auto simp: hands_off_def)
    then obtain l l' where "all_done (mo_id r) (w_db t)" "w_log w = l0 @ l" "quiet (mo_id r) l" "w_log t = w_log w @ l'"
        "quiet (mo_id r) l'"
      using assms(2) by (auto simp: still_done_def)
    then show ?thesis by (auto simp: quiet_def intro!: exI [of _ "l @ l'"])
  qed
  ultimately show ?thesis
    unfolding still_done_def using read_steps_stable [OF ev w(1)] by blast
qed

lemma read_view:
  assumes ok: "world_ok w" and v: "op_get i (w_db w) = Some (r, steps)"
  shows "read_steps r steps w" "mo_id r = i"
    "\<not> list_ex is_running steps \<Longrightarrow> \<not> any_failed steps \<Longrightarrow> still_done me r steps (w_log w) w"
proof -
  have r: "mop_at (w_db w) i = Some r" "mo_id r = i" and steps: "set steps = {s \<in> set (md_steps (w_db w)). ns_operation s = i}"
    using v by (auto simp: op_get_def steps_of_def dest: row_at_SomeD)
  then have known: "op_known r w" using ok by (simp add: op_known_def)
  show i: "mo_id r = i" by (rule r(2))
  show read: "read_steps r steps w"
    unfolding read_steps_def
  proof (intro conjI ballI allI impI known)
    show "knows r s w" if "s \<in> set steps" for s
      using that steps r(2) by (intro knows_taken [OF known]) auto
    show "n \<in> ns_node ` set steps" if at: "step_at (w_db w) (mo_id r, n) \<noteq> None" for n
    proof -
      obtain s where s: "step_at (w_db w) (mo_id r, n) = Some s" using at by auto
      then have "s \<in> set steps" "ns_node s = n" using row_at_SomeD [OF s] steps r(2) by auto
      then show ?thesis by blast
    qed
  qed
  assume "\<not> list_ex is_running steps" "\<not> any_failed steps"
  then have "ns_status s = StDone" if "s \<in> set steps" for s
    using that by (cases "ns_status s") (auto simp: any_failed_def list_ex_iff)
  then have "all_done i (w_db w)" using steps by (auto simp: all_done_def)
  with read i show "still_done me r steps (w_log w) w" by (auto simp: still_done_def quiet_def)
qed

section \<open>The last look at the nodes\<close>

definition seen_whole :: "event list \<Rightarrow> m_op \<Rightarrow> node_step \<Rightarrow> world \<Rightarrow> bool" where
  "seen_whole l0 r s w \<longleftrightarrow> (\<exists>l. w_log w = l0 @ l \<and> observed_whole (mo_id r) (ns_node s) (ns_snapshot s) l)"

lemma observed_more: "observed_whole i n snap l \<Longrightarrow> observed_whole i n snap (l @ l')"
  by (auto simp: observed_whole_def)

lemma seen_whole_stable: "evolves w t \<Longrightarrow> seen_whole l0 r s w \<Longrightarrow> seen_whole l0 r s t"
  unfolding seen_whole_def evolves_def using grows_toD(1) observed_more by (metis append.assoc)

lemma check_node_meets:
  assumes k: "knows r s w0" and l0: "\<exists>l. w_log w0 = l0 @ l"
  shows "task.meets cc me (check_node r s) (\<lambda>b w. b \<longrightarrow> seen_whole l0 r s w) (\<lambda>_ _. True) w0"
proof -
  let ?snap = "case ns_snapshot s of None \<Rightarrow> [] | Some es \<Rightarrow> es"
  let ?seen = "\<lambda>res w. \<exists>l. w_log w = l0 @ l \<and> Ev (mo_id r) (ns_node s) NResidency (AResidency (Some res)) \<in> set l"
  have ask: "task.meets cc me (call_bool (ControlFor (mo_id r) (ns_node s))) (\<lambda>_ w. \<exists>l. w_log w = l0 @ l) (\<lambda>_ _. True) w0"
  proof (rule task_bool)
    show "task_request (ControlFor (mo_id r) (ns_node s)) \<and> duty me (ControlFor (mo_id r) (ns_node s)) w" for w
      by (simp add: task_request_def duty_def)
    show "\<exists>l. w_log t = l0 @ l" if "evolves w0 w" "evolves w t" for w t
      using evolves_trans [OF that] l0 grows_toD(1) by (fastforce simp: evolves_def)
  qed
  have obs: "task.meets cc me (call_residency (mo_id r) (ns_node s)) (\<lambda>x w. \<forall>res. x = Some res \<longrightarrow> ?seen res w) (\<lambda>_ _. True) w"
    if "knows r s w" "\<exists>l. w_log w = l0 @ l" for w
  proof (rule task_residency)
    show "mop_at (w_db u) (mo_id r) \<noteq> None" if "evolves w u" for u
      using knows_call [OF knows_stable [OF that \<open>knows r s w\<close>]] .
    fix u x l t assume u: "evolves w u" "w_log t = (w_log u @ [Ev (mo_id r) (ns_node s) NResidency (AResidency x)]) @ l"
    obtain l' where "w_log u = w_log w @ l'" using u(1) grows_toD(1) by (auto simp: evolves_def)
    then show "\<forall>res. x = Some res \<longrightarrow> ?seen res t" using that(2) u(2) by auto
  qed
  have whole: "seen_whole l0 r s w" if "?seen res w" "all_match ?snap res = Some True" "res = [] \<or> strangers ?snap res = Some []" for res w
    using that by (auto simp: seen_whole_def observed_whole_def whole_def)
  have judge: "task.meets cc me (seq (attribute (all_match ?snap res)) (\<lambda>b.
            if \<not> b then Ret False
            else if res = [] then Ret True
            else seq (attribute (strangers ?snap res)) (\<lambda>xs. Ret (xs = [])))) (\<lambda>b w. b \<longrightarrow> seen_whole l0 r s w) (\<lambda>_ _. True) w"
    if seen: "?seen res w" for res w
  proof -
    have later: "evolves w t \<Longrightarrow> all_match ?snap res = Some True \<Longrightarrow> res = [] \<or> strangers ?snap res = Some [] \<Longrightarrow>
        seen_whole l0 r s t" for t
      using seen_whole_stable whole [OF seen] by blast
    then show ?thesis
      by (cases "all_match ?snap res"; cases "strangers ?snap res") (auto simp: attribute_def)
  qed
  show ?thesis
    unfolding check_node_def Let_def
  proof (rule task_bind [OF k ask])
    fix ok w assume w: "\<exists>l. w_log w = l0 @ l" "knows r s w"
    have look: "task.meets cc me (if ok then call_residency (mo_id r) (ns_node s) else Ret None)
        (\<lambda>x w. \<forall>res. x = Some res \<longrightarrow> ?seen res w) (\<lambda>_ _. True) w"
      using obs [OF w(2,1)] by simp
    show "task.meets cc me (seq (if ok then call_residency (mo_id r) (ns_node s) else Ret None) (\<lambda>x. case x of
        None \<Rightarrow> Ret False
      | Some res \<Rightarrow> seq (attribute (all_match ?snap res)) (\<lambda>b.
            if \<not> b then Ret False
            else if res = [] then Ret True
            else seq (attribute (strangers ?snap res)) (\<lambda>xs. Ret (xs = [])))))
        (\<lambda>b w. b \<longrightarrow> seen_whole l0 r s w) (\<lambda>_ _. True) w"
      by (rule task_bind [OF w(2) look]) (use judge in \<open>auto split: option.split\<close>)
  qed
qed

definition all_whole :: "event list \<Rightarrow> m_op \<Rightarrow> node_step list \<Rightarrow> node_step option \<Rightarrow> world \<Rightarrow> bool" where
  "all_whole l0 r steps x w \<longleftrightarrow> (case x of
     None \<Rightarrow> \<forall>s \<in> set steps. seen_whole l0 r s w | Some s \<Rightarrow> s \<in> set steps)"

lemma check_all_meets:
  assumes "\<forall>s \<in> set steps. knows r s w0" "\<exists>l. w_log w0 = l0 @ l"
  shows "task.meets cc me (check_all r steps) (all_whole l0 r steps) (\<lambda>_ _. True) w0"
  using assms
proof (induction steps arbitrary: w0)
  case (Cons s ss)
  have k: "knows r s w0" using Cons.prems by simp
  show ?case
    unfolding check_all.simps
  proof (rule task_bind [OF k check_node_meets [OF k Cons.prems(2)]])
    fix b w assume w: "evolves w0 w" "b \<longrightarrow> seen_whole l0 r s w"
    have rest: "task.meets cc me (check_all r ss) (all_whole l0 r ss) (\<lambda>_ _. True) w"
    proof (rule Cons.IH)
      show "\<forall>s \<in> set ss. knows r s w" using Cons.prems(1) knows_stable [OF w(1)] by simp
      show "\<exists>l. w_log w = l0 @ l" using w(1) Cons.prems(2) grows_toD(1) by (fastforce simp: evolves_def)
    qed
    have "task.meets cc me (check_all r ss) (all_whole l0 r (s # ss)) (\<lambda>_ _. True) w" if b
    proof -
      have "seen_whole l0 r s w" using w(2) that by simp
      from task_keep [where K = "seen_whole l0 r s", OF seen_whole_stable this rest]
      show ?thesis by (rule task.meets_conseq) (auto simp: all_whole_def split: option.splits)
    qed
    then show "task.meets cc me (if b then check_all r ss else Ret (Some s))
        (all_whole l0 r (s # ss)) (\<lambda>_ _. True) w"
      by (cases b) (simp_all add: all_whole_def)
  qed
qed (simp add: all_whole_def)

section \<open>Closing an operation\<close>

lemma close_failed_meets: "pass.meets me cc (close_failed action r steps detail) (\<lambda>_ _. True) (\<lambda>_ _. True) w0"
  unfolding close_failed_def by (rule pass_last) (simp_all add: duty_def pass_audit)

lemma close_entry_meets:
  assumes "\<not> any_failed steps \<Longrightarrow> still_done me r steps l0 w0"
  shows "pass.meets me cc (close_entry r steps) (\<lambda>_ _. True) (\<lambda>_ _. True) w0"
proof (cases "any_failed steps")
  case True
  then show ?thesis by (simp add: close_entry_def close_failed_meets)
next
  case False
  have "pass.meets me cc (seq (call_bool (Finish (mo_id r) OpSucceeded None)) (\<lambda>ok.
        if ok then audit_event a b c d else Ret ())) (\<lambda>_ _. True) (\<lambda>_ _. True) w0" for a b c d
  proof (rule pass_last)
    fix w assume "leaves me w0 w"
    then have "still_done me r steps l0 w" using still_done_stable assms False by blast
    then show "duty me (Finish (mo_id r) OpSucceeded None) w" by (simp add: duty_def still_done_def)
  qed (simp add: pass_audit)
  with False show ?thesis by (simp add: close_entry_def Let_def)
qed

text \<open>Every node seen whole since the read, and still the steps that were read: the hold may lift.\<close>

lemma reopen_duty:
  assumes done_: "still_done me r steps l0 w" and r: "mo_kind r = RestoreKind"
    and seen: "\<forall>s \<in> set steps. seen_whole l0 r s w"
  shows "duty me (ReopenAfter (mo_id r) (mo_epoch r)) w"
proof -
  have read: "read_steps r steps w" using done_ by (simp add: still_done_def)
  then obtain q where q: "mop_at (w_db w) (mo_id r) = Some q" "same_op r q" and ok: "world_ok w"
    by (auto simp: read_steps_def op_known_def)
  have "fresh_whole (mo_id r) w" if own: "owned me (mo_id r) (w_db w)"
  proof -
    obtain l where all: "all_done (mo_id r) (w_db w)" and l: "w_log w = l0 @ l" "quiet (mo_id r) l"
      using done_ own by (auto simp: still_done_def)
    have "observed_whole (mo_id r) (ns_node u) (ns_snapshot u) l" if u: "u \<in> set (md_steps (w_db w))" "ns_operation u = mo_id r" for u
    proof -
      have at: "step_at (w_db w) (mo_id r, ns_node u) = Some u"
        using unique_step [OF ok u(1)] u(2) by simp
      then obtain s where s: "s \<in> set steps" "ns_node s = ns_node u"
        using read by (auto simp: read_steps_def)
      then have k: "knows r s w" using read by (simp add: read_steps_def)
      then have "grown s u" using at s(2) by (auto simp: knows_def)
      then have "ns_snapshot u = ns_snapshot s"
        using known_restore [OF k r] by (auto simp: grown_def snapshot_taken_def)
      moreover have "seen_whole l0 r s w" using seen s(1) by blast
      ultimately show ?thesis using s(2) l(1) by (auto simp: seen_whole_def)
    qed
    with all l show ?thesis unfolding fresh_whole_def by blast
  qed
  moreover have "mo_kind q = RestoreKind \<and> mo_epoch q = mo_epoch r" using q(2) r by (simp add: same_op_def)
  ultimately show ?thesis using q(1) by (simp add: duty_def)
qed

lemma close_restore_meets:
  assumes read: "read_steps r steps w0" and r: "mo_kind r = RestoreKind"
    and quiet: "\<not> any_failed steps \<Longrightarrow> still_done me r steps l0 w0"
  shows "pass.meets me cc (close_restore r steps) (\<lambda>_ _. True) (\<lambda>_ _. True) w0"
proof (cases "any_failed steps")
  case True
  then show ?thesis by (simp add: close_restore_def close_failed_meets)
next
  case False
  note still = quiet [OF False]
  let ?rest = "\<lambda>x. case x of
        Some s \<Rightarrow> seq (call_bool (Rewind (step_key s) PhPending)) (\<lambda>_. Ret ())
      | None \<Rightarrow>
          seq (call_bool (ReopenAfter (mo_id r) (mo_epoch r))) (\<lambda>ok.
            if ok then audit_event ''maintenance.restored'' ''platform'' ''success''
                   (close_detail r @ [(''nodes'', count_text steps)])
            else Ret ())"
  have looked: "task.meets cc me (check_all r steps) (all_whole l0 r steps) (\<lambda>_ _. True) w0"
    by (rule check_all_meets) (use read still in \<open>auto simp: read_steps_def still_done_def\<close>)
  have rest: "pass.meets me cc (?rest x) (\<lambda>_ _. True) (\<lambda>_ _. True) w"
    if x: "all_whole l0 r steps x w"
      and w: "still_done me r steps l0 w" for x w
  proof (cases x)
    case None
    then have seen: "\<forall>s \<in> set steps. seen_whole l0 r s w" using x by (simp add: all_whole_def)
    have duty: "duty me (ReopenAfter (mo_id r) (mo_epoch r)) v" if v: "leaves me w v" for v
    proof (rule reopen_duty [OF still_done_stable [OF v w] r])
      show "\<forall>s \<in> set steps. seen_whole l0 r s v"
        using seen seen_whole_stable v by (auto simp: leaves_def)
    qed
    show ?thesis
      unfolding None option.case by (rule pass_last) (simp_all add: duty pass_audit)
  next
    case (Some s)
    then have s: "s \<in> set steps" using x by (simp add: all_whole_def)
    have duty: "duty me (Rewind (step_key s) PhPending) v" if v: "leaves me w v" for v
    proof -
      have "read_steps r steps v" using still_done_stable [OF v w] by (simp add: still_done_def)
      then have "knows r s v" using s by (simp add: read_steps_def)
      then have "ns_operation s = mo_id r" "op_known r v" by (auto simp: knows_def)
      then show ?thesis using r by (auto simp: duty_def op_known_def same_op_def)
    qed
    show ?thesis
      unfolding Some option.case by (rule pass_last) (simp_all add: duty)
  qed
  have "pass.meets me cc (seq (check_all r steps) ?rest) (\<lambda>_ _. True) (\<lambda>_ _. True) w0"
    by (rule pass_bind [where K = "still_done me r steps l0", OF _ still looked])
      (erule (1) still_done_stable, erule (1) rest)
  with False show ?thesis unfolding close_restore_def by simp
qed

section \<open>A pass\<close>

definition begun :: "pass_result \<Rightarrow> world \<Rightarrow> bool" where
  "begun x w \<longleftrightarrow> (\<forall>r steps. x = CarryOn r steps \<longrightarrow> (\<forall>s \<in> set steps. knows r s w))"

lemma begun_over [simp]: "begun NoOperation w" "begun PassOver w"
  by (simp_all add: begun_def)

lemma abandon_meets: "pass.meets me cc (abandon_op r h) (\<lambda>_ _. True) (\<lambda>_ _. True) w0"
  unfolding abandon_op_def Let_def by (rule pass_last) (simp_all add: duty_def pass_audit)

lemma pass_then:
  assumes "pass.meets me cc m (\<lambda>_ _. True) (\<lambda>_ _. True) w0" and "\<And>w. Q x w"
  shows "pass.meets me cc (seq m (\<lambda>_. Ret x)) Q (\<lambda>_ _. True) w0"
  by (rule pass.meets_seq, rule pass.meets_conseq [OF assms(1)]) (use assms(2) in \<open>simp_all\<close>)

lemma does_claim:
  assumes "does cc me Claim w (AView (Some (r, steps))) u"
  shows "\<exists>i. op_get i (w_db u) = Some (r, steps)"
proof -
  obtain now where "(let (v, d') = op_claim me (cc_lease cc) now (w_db w) in Some (AView v, w\<lparr>w_db := d'\<rparr>))
      = Some (AView (Some (r, steps)), u)"
    using assms by (auto simp: does_def perform_def Let_def)
  then show ?thesis
    by (auto simp: op_claim_def Let_def split: prod.splits option.splits)
qed

text \<open>What is read at the claim is kept over the wait for the hold.\<close>

definition just_read :: "string \<Rightarrow> m_op \<Rightarrow> node_step list \<Rightarrow> event list \<Rightarrow> world \<Rightarrow> bool" where
  "just_read me r steps l0 w \<longleftrightarrow> read_steps r steps w
     \<and> (\<not> list_ex is_running steps \<longrightarrow> \<not> any_failed steps \<longrightarrow> still_done me r steps l0 w)"

lemma just_read_stable: "leaves me u v \<Longrightarrow> just_read me r steps l0 u \<Longrightarrow> just_read me r steps l0 v"
  unfolding just_read_def using read_steps_stable still_done_stable by (auto simp: leaves_def)

lemma read_end_meets:
  assumes read: "just_read me r steps l0 w0"
  shows "pass.meets me cc (pass_end me r steps) (\<lambda>_ _. True) (\<lambda>_ _. True) w0"
proof (cases "list_ex is_running steps")
  case True
  then show ?thesis by (simp add: pass_end_def)
next
  case False
  have still: "\<not> any_failed steps \<Longrightarrow> still_done me r steps l0 w0" and rd: "read_steps r steps w0"
    using read False by (auto simp: just_read_def)
  have "pass.meets me cc (close_op r steps) (\<lambda>_ _. True) (\<lambda>_ _. True) w0"
    using close_restore_meets [OF rd _ still] close_entry_meets [OF still]
    by (cases "mo_kind r") (simp_all add: close_op_def)
  with False show ?thesis by (simp add: pass_end_def)
qed

theorem pass_begin_meets: "pass.meets me cc (pass_begin me) begun (\<lambda>_ _. True) w0"
proof -
  have hold: "task.meets cc me call_hold (\<lambda>_ _. True) (\<lambda>_ _. True) w" for w
    unfolding call_hold_def
  proof (rule task_call)
    show "task_request Hold \<and> duty me Hold w" for w by (simp add: task_request_def duty_def)
  qed (simp split: answer.split)
  let ?judge = "\<lambda>r steps h. if \<not> admission_closed h \<or> epoch h \<noteq> mo_epoch r then seq (abandon_op r h) (\<lambda>_. Ret PassOver)
           else if list_ex is_running steps then Ret (CarryOn r (filter is_running steps))
           else seq (pass_end me r steps) (\<lambda>_. Ret PassOver)"
  have judge: "pass.meets me cc (?judge r steps h) begun (\<lambda>_ _. True) w" if read: "just_read me r steps l0 w" for r steps h l0 w
  proof -
    have go: "pass.meets me cc (Ret (CarryOn r (filter is_running steps))) begun (\<lambda>_ _. True) w"
      using just_read_stable [OF _ read] by (auto simp: begun_def just_read_def read_steps_def)
    show ?thesis
      using pass_then [OF abandon_meets, of begun PassOver] pass_then [OF read_end_meets [OF read], of begun PassOver] go by simp
  qed
  have read: "pass.meets me cc (seq call_hold (?judge r steps)) begun (\<lambda>_ _. True) u"
    if view: "world_ok u" "op_get i (w_db u) = Some (r, steps)" for i r steps u
  proof -
    have now: "just_read me r steps (w_log u) u" using read_view [OF view] by (simp add: just_read_def)
    show ?thesis
      by (rule pass_bind [where K = "just_read me r steps (w_log u)", OF _ now hold]) (erule (1) just_read_stable, erule judge)
  qed
  show ?thesis
    unfolding pass_begin_def call_view_def seq.simps pass.meets.simps
  proof (intro allI impI conjI)
    show "duty me Claim t" for t by (simp add: duty_def)
    fix t q u assume u: "world_ok t \<and> does cc me Claim t q u"
    then have ok: "world_ok u" using does_evolves [of cc me Claim t q u] by (auto simp: duty_def evolves_def)
    show "pass.meets me cc (seq (case q of AView x \<Rightarrow> Ret x | _ \<Rightarrow> Throw (OtherError ''TypeError'')) (\<lambda>v. case v of
        None \<Rightarrow> Ret NoOperation | Some (r, steps) \<Rightarrow> seq call_hold (?judge r steps))) begun (\<lambda>_ _. True) u"
    proof (cases q)
      case (AView x)
      show ?thesis
      proof (cases x)
        case None
        then show ?thesis by (simp add: AView)
      next
        case (Some v)
        obtain r steps where v: "v = (r, steps)" by (cases v)
        then obtain i where "op_get i (w_db u) = Some (r, steps)"
          using does_claim u AView Some by blast
        then show ?thesis using read [OF ok] by (simp add: AView Some v)
      qed
    qed simp_all
  qed
qed

theorem pass_after_meets: "pass.meets me cc (pass_after me i) (\<lambda>_ _. True) (\<lambda>_ _. True) w0"
  unfolding pass_after_def call_view_def seq.simps pass.meets.simps
proof (intro allI impI conjI)
  show "duty me (GetOp i) t" for t by (simp add: duty_def)
  fix t q u assume u: "world_ok t \<and> does cc me (GetOp i) t q u"
  show "pass.meets me cc (seq (case q of AView x \<Rightarrow> Ret x | _ \<Rightarrow> Throw (OtherError ''TypeError'')) (\<lambda>v. case v of
      None \<Rightarrow> Ret () | Some (r, steps) \<Rightarrow> pass_end me r steps)) (\<lambda>_ _. True) (\<lambda>_ _. True) u"
  proof (cases q)
    case (AView x)
    then have x: "u = t" "x = op_get i (w_db t)" using does_get u by blast+
    have "just_read me r steps (w_log u) u" if "x = Some (r, steps)" for r steps
      using read_view [of u i r steps] that x u by (simp add: just_read_def)
    then show ?thesis
      using read_end_meets by (auto simp: AView split: option.split)
  qed simp_all
qed

end
