(* ===== verification/Coordinator_Safety.thy ===== *)
theory Coordinator_Safety
  imports Coordinator_Passes
begin

text \<open>
  Every interleaving of coordinators, their tasks, administrators and failures keeps the tables'
  invariants: each running tree meets its obligations in the world as it now is.
\<close>

section \<open>The invariant of a system\<close>

definition main_ok :: "coord_config \<Rightarrow> string \<Rightarrow> main \<Rightarrow> world \<Rightarrow> bool" where
  "main_ok cc me m w \<longleftrightarrow> (case m of
     MBegin p \<Rightarrow> pass.meets me cc p begun (\<lambda>_ _. True) w
   | MAfter p \<Rightarrow> pass.meets me cc p (\<lambda>_ _. True) (\<lambda>_ _. True) w
   | _ \<Rightarrow> True)"

definition task_ok :: "coord_config \<Rightarrow> string \<Rightarrow> world \<Rightarrow> node_task \<Rightarrow> bool" where
  "task_ok cc me w t \<longleftrightarrow> task.meets cc me (snd t) (carried (fst t)) (\<lambda>_ _. True) w"

definition coord_ok :: "coord_config \<Rightarrow> string \<Rightarrow> coordinator \<Rightarrow> world \<Rightarrow> bool" where
  "coord_ok cc me c w \<longleftrightarrow> main_ok cc me (cr_main c) w \<and> (\<forall>t \<in> set (cr_tasks c) \<union> set (cr_left c). task_ok cc me w t)"

definition sys_ok :: "coord_config \<Rightarrow> system \<Rightarrow> bool" where
  "sys_ok cc s \<longleftrightarrow> world_ok (sy_world s) \<and> (\<forall>me. coord_ok cc me (sy_coord s me) (sy_world s))"

lemma main_ok_stable: "leaves me w t \<Longrightarrow> main_ok cc me m w \<Longrightarrow> main_ok cc me m t"
  by (cases m) (auto simp: main_ok_def intro: pass.meets_rely)

lemma task_ok_stable: "evolves w t \<Longrightarrow> task_ok cc me w x \<Longrightarrow> task_ok cc me t x"
  using task.meets_rely by (auto simp: task_ok_def)

lemma coord_ok_stable: "leaves me w t \<Longrightarrow> coord_ok cc me c w \<Longrightarrow> coord_ok cc me c t"
  using main_ok_stable task_ok_stable by (auto simp: coord_ok_def leaves_def)

text \<open>What a step of one coordinator may do to the others, and to its own other trees.\<close>

definition others_left :: "string \<Rightarrow> world \<Rightarrow> world \<Rightarrow> bool" where
  "others_left me w t \<longleftrightarrow> evolves w t \<and> (\<forall>x. x \<noteq> me \<longrightarrow> hands_off x w t)"

lemma others_left_refl [simp]: "others_left me w w"
  by (simp add: others_left_def)

lemma pass_moves:
  assumes "moves cc me p w p' w'" "pass.meets me cc p Q (\<lambda>_ _. True) w" "world_ok w"
  shows "pass.meets me cc p' Q (\<lambda>_ _. True) w' \<and> others_left me w w'"
  using assms(1)
proof cases
  case (answered q r k)
  have duty: "duty me q w" and go: "pass.meets me cc (k r) Q (\<lambda>_ _. True) w'"
    using assms(2,3) answered pass.rely_refl by auto
  show ?thesis
    using go does_evolves [OF answered(3) duty] does_hands_off [OF answered(3) _ assms(3)] answered(2)
    by (simp add: others_left_def)
next
  case (fails_after q r k x)
  have duty: "duty me q w" using assms(2,3) fails_after pass.rely_refl by auto
  show ?thesis
    using does_evolves [OF fails_after(3) duty] does_hands_off [OF fails_after(3) _ assms(3)] fails_after(2)
    by (simp add: others_left_def)
qed simp

lemma task_now:
  assumes "task.meets cc me (Call q k) Q E w"
  shows "task_request q" "duty me q w" "world_ok w \<Longrightarrow> does cc me q w r u \<Longrightarrow> task.meets cc me (k r) Q E u"
  using assms evolves_refl unfolding task.meets.simps by blast+

lemma task_moves:
  assumes "moves cc me p w p' w'" "task.meets cc me p Q (\<lambda>_ _. True) w" "world_ok w"
  shows "task.meets cc me p' Q (\<lambda>_ _. True) w' \<and> evolves w w' \<and> (\<forall>x. hands_off x w w')"
  using assms(1)
proof cases
  case (answered q r k)
  have duty: "task_request q" "duty me q w" and go: "task.meets cc me (k r) Q (\<lambda>_ _. True) w'"
    using task_now [OF assms(2) [unfolded answered(1)]] task_now(3) [OF assms(2) [unfolded answered(1)] assms(3) answered(3)] answered(2)
    by simp_all
  show ?thesis
    using go does_evolves [OF answered(3) duty(2)] does_hands_off [OF answered(3) _ assms(3)] duty(1) answered(2)
    by simp
next
  case (fails_after q r k x)
  have duty: "task_request q" "duty me q w" using task_now assms(2) fails_after by blast+
  show ?thesis
    using does_evolves [OF fails_after(3) duty(2)] does_hands_off [OF fails_after(3) _ assms(3)] duty(1) fails_after(2)
    by simp
qed simp

lemma task_step_ok:
  assumes "task_step cc me (w, t) (w', t')" "task_ok cc me w t" "world_ok w"
  shows "task_ok cc me w' t' \<and> evolves w w' \<and> (\<forall>x. hands_off x w w')"
  using assms(1)
proof cases
  case (runs p p' r)
  then show ?thesis
    using task_moves [OF runs(3) _ assms(3)] assms(2) by (simp add: task_ok_def)
next
  case (turns r s)
  have "knows r s w" using assms(2) turns by (auto simp: task_ok_def carried_def)
  with turns show ?thesis
    using carry_turn_meets by (simp add: task_ok_def)
qed

lemma renew_hands_off:
  assumes "op_renew i me lease now (w_db w) = (b, d)" "x \<noteq> me" "world_ok w"
  shows "hands_off x w (w\<lparr>w_db := d\<rparr>)"
  by (rule ops_hands_off [where P = "\<lambda>r. mo_id r = i \<and> held_by me r" and g = "\<lambda>r. r\<lparr>mo_lease := Some (now + lease)\<rparr>"])
    (use assms in \<open>auto simp: op_renew_def set_op_ops held_by_def\<close>)

lemma main_step_ok:
  assumes "main_step cc me (w, c) (w', c')" "coord_ok cc me c w" "world_ok w"
  shows "coord_ok cc me c' w' \<and> others_left me w w'"
  using assms(1)
proof cases
  case wakes
  then show ?thesis using assms(2) pass_begin_meets by (simp add: coord_ok_def main_ok_def)
next
  case (begins p p')
  have "pass.meets me cc p begun (\<lambda>_ _. True) w" using assms(2) begins by (simp add: coord_ok_def main_ok_def)
  note go = pass_moves [OF begins(3) this assms(3)]
  then have "\<forall>t \<in> set (cr_tasks c) \<union> set (cr_left c). task_ok cc me w' t"
    using assms(2) task_ok_stable by (auto simp: coord_ok_def others_left_def)
  with go begins show ?thesis by (simp add: coord_ok_def main_ok_def)
next
  case (carries r steps)
  have "begun (CarryOn r steps) w" using assms(2) carries pass.rely_refl by (simp add: coord_ok_def main_ok_def)
  then have "\<forall>t \<in> set (map (\<lambda>s. (r, carry_start r s)) steps). task_ok cc me w t"
    using carry_start_meets by (auto simp: begun_def task_ok_def)
  with carries assms(2) show ?thesis by (auto simp: coord_ok_def main_ok_def)
next
  case (renews i now b d)
  have "evolves w w'" using renew_evolves [OF renews(4)] renews(1) by simp
  moreover have "hands_off x w w'" if "x \<noteq> me" for x
    using renew_hands_off [OF renews(4) that assms(3)] renews(1) by simp
  ultimately show ?thesis
    using assms(2) renews task_ok_stable by (auto simp: coord_ok_def main_ok_def others_left_def)
next
  case (gathered i)
  then show ?thesis using assms(2) pass_after_meets by (auto simp: coord_ok_def main_ok_def)
next
  case (gather_raises i ts r e us)
  then show ?thesis using assms(2) by (auto simp: coord_ok_def main_ok_def)
next
  case (finishes p p')
  have "pass.meets me cc p (\<lambda>_ _. True) (\<lambda>_ _. True) w" using assms(2) finishes by (simp add: coord_ok_def main_ok_def)
  note go = pass_moves [OF finishes(3) this assms(3)]
  then have "\<forall>t \<in> set (cr_tasks c) \<union> set (cr_left c). task_ok cc me w' t"
    using assms(2) task_ok_stable by (auto simp: coord_ok_def others_left_def)
  with go finishes show ?thesis by (simp add: coord_ok_def main_ok_def)
qed (use assms(2) in \<open>auto simp: coord_ok_def main_ok_def\<close>)

lemma coord_step_ok:
  assumes "coord_step cc me (w, c) (w', c')" "coord_ok cc me c w" "world_ok w"
  shows "coord_ok cc me c' w' \<and> others_left me w w'"
  using assms(1)
proof cases
  case main
  then show ?thesis by (rule main_step_ok [OF _ assms(2,3)])
next
  case (task ts t us t')
  have "task_ok cc me w t" using assms(2) task by (simp add: coord_ok_def)
  note go = task_step_ok [OF task(3) this assms(3)]
  then have "coord_ok cc me c w'" using coord_ok_stable [OF _ assms(2)] by (simp add: leaves_def)
  with go task show ?thesis by (auto simp: coord_ok_def others_left_def)
next
  case (left_over ts t us t')
  have "task_ok cc me w t" using assms(2) left_over by (simp add: coord_ok_def)
  note go = task_step_ok [OF left_over(3) this assms(3)]
  then have "coord_ok cc me c w'" using coord_ok_stable [OF _ assms(2)] by (simp add: leaves_def)
  with go left_over show ?thesis by (auto simp: coord_ok_def others_left_def)
qed

lemma sys_step_ok:
  assumes "sys_step cc s s'" "sys_ok cc s"
  shows "sys_ok cc s' \<and> evolves (sy_world s) (sy_world s')"
  using assms(1)
proof cases
  case (administrator d)
  have ok: "world_ok (sy_world s)" using assms(2) by (simp add: sys_ok_def)
  have ev: "evolves (sy_world s) (sy_world s')" "hands_off me (sy_world s) (sy_world s')" for me
    using admin_world [OF administrator(2) ok, of me] administrator(1) by simp_all
  have kept: "coord_ok cc me (sy_coord s me) (sy_world s')" for me
  proof (rule coord_ok_stable)
    show "leaves me (sy_world s) (sy_world s')" using ev by (simp add: leaves_def)
    show "coord_ok cc me (sy_coord s me) (sy_world s)" using assms(2) by (simp add: sys_ok_def)
  qed
  have "sy_coord s' = sy_coord s" using administrator(1) by simp
  then show ?thesis
    unfolding sys_ok_def using kept by (intro conjI allI evolves_ok [OF ev(1) ok] ev(1)) simp
next
  case (coordinator me w c)
  have ok: "world_ok (sy_world s)" "coord_ok cc me (sy_coord s me) (sy_world s)" using assms(2) by (simp_all add: sys_ok_def)
  note go = coord_step_ok [OF coordinator(2) ok(2,1)]
  have other: "coord_ok cc x (sy_coord s x) w" if "x \<noteq> me" for x
  proof (rule coord_ok_stable)
    show "leaves x (sy_world s) w" using go that by (simp add: others_left_def leaves_def)
    show "coord_ok cc x (sy_coord s x) (sy_world s)" using assms(2) by (simp add: sys_ok_def)
  qed
  have ev: "evolves (sy_world s) w" using go by (simp add: others_left_def)
  have "coord_ok cc x (sy_coord s' x) w" for x
    using other go coordinator(1) by (cases "x = me") simp_all
  then show ?thesis
    using ev evolves_ok [OF ev ok(1)] coordinator(1) by (simp add: sys_ok_def)
qed

lemma sys_init_ok: "sys_ok cc (sys_init h)"
  by (simp add: sys_ok_def sys_init_def world_ok_def coord_ok_def main_ok_def)

theorem sys_reaches_ok: "sys_reaches cc h s \<Longrightarrow> sys_ok cc s"
  by (induction rule: rtranclp_induct) (auto simp: sys_init_ok dest: sys_step_ok)

lemma sys_later: "(sys_step cc)\<^sup>*\<^sup>* s t \<Longrightarrow> sys_ok cc s \<Longrightarrow> evolves (sy_world s) (sy_world t) \<and> sys_ok cc t"
  by (induction rule: rtranclp_induct) (use sys_step_ok evolves_trans in \<open>auto\<close>)

end
