(* ===== verification/Coordinator_Runs.thy ===== *)
theory Coordinator_Runs
  imports Coordinator_Safety
begin

text \<open>
  Concrete runs of the coordinator, evaluated: an administrator closes the platform, the entry clears a
  node that has a model loaded, and the restore loads it again and reopens.
\<close>

section \<open>A script\<close>

text \<open>
  One move of the coordinator \<open>me\<close>: \<open>Silent\<close> is a step of its pass that asks nothing, \<open>Main now said\<close> and
  \<open>Node now said\<close> are the next call of its pass or of its first task, \<open>Turn\<close> is the task's next turn.
\<close>

datatype act = Silent | Main int answer | Node int answer | Turn

definition call_prog :: "coord_config \<Rightarrow> string \<Rightarrow> int \<Rightarrow> answer \<Rightarrow> 'a program \<Rightarrow> world \<Rightarrow> ('a program \<times> world) option" where
  "call_prog cc me now said p w = (case p of
     Call q k \<Rightarrow> (case perform cc me now said q w of Some (r, w') \<Rightarrow> Some (k r, w') | None \<Rightarrow> None)
   | _ \<Rightarrow> None)"

fun idle_task :: "node_task \<Rightarrow> bool" where
  "idle_task (r, Ret None) = True"
| "idle_task t = False"

fun silent :: "string \<Rightarrow> coordinator \<Rightarrow> coordinator option" where
  "silent me c = (case cr_main c of
     MIdle \<Rightarrow> Some (c\<lparr>cr_main := MBegin (pass_begin me)\<rparr>)
   | MBegin (Ret (CarryOn r steps)) \<Rightarrow> Some (c\<lparr>cr_main := MCarry (mo_id r), cr_tasks := map (\<lambda>s. (r, carry_start r s)) steps\<rparr>)
   | MBegin (Ret v) \<Rightarrow> Some (c\<lparr>cr_main := MIdle\<rparr>)
   | MCarry i \<Rightarrow> if list_all idle_task (cr_tasks c) then Some (c\<lparr>cr_main := MAfter (pass_after me i), cr_tasks := []\<rparr>) else None
   | MAfter (Ret u) \<Rightarrow> Some (c\<lparr>cr_main := MIdle\<rparr>)
   | _ \<Rightarrow> None)"

fun act_of :: "coord_config \<Rightarrow> string \<Rightarrow> act \<Rightarrow> world \<times> coordinator \<Rightarrow> (world \<times> coordinator) option" where
  "act_of cc me Silent (w, c) = map_option (Pair w) (silent me c)"
| "act_of cc me (Main now said) (w, c) = (case cr_main c of
     MBegin p \<Rightarrow> map_option (\<lambda>(p', w'). (w', c\<lparr>cr_main := MBegin p'\<rparr>)) (call_prog cc me now said p w)
   | MAfter p \<Rightarrow> map_option (\<lambda>(p', w'). (w', c\<lparr>cr_main := MAfter p'\<rparr>)) (call_prog cc me now said p w)
   | _ \<Rightarrow> None)"
| "act_of cc me (Node now said) (w, c) = (case cr_tasks c of
     (r, p) # us \<Rightarrow> map_option (\<lambda>(p', w'). (w', c\<lparr>cr_tasks := (r, p') # us\<rparr>)) (call_prog cc me now said p w)
   | [] \<Rightarrow> None)"
| "act_of cc me Turn (w, c) = (case cr_tasks c of
     (r, Ret (Some s)) # us \<Rightarrow> Some (w, c\<lparr>cr_tasks := (r, carry_turn r s) # us\<rparr>)
   | _ \<Rightarrow> None)"

fun acts_of :: "coord_config \<Rightarrow> string \<Rightarrow> act list \<Rightarrow> world \<times> coordinator \<Rightarrow> (world \<times> coordinator) option" where
  "acts_of cc me [] x = Some x"
| "acts_of cc me (a # as) x = (case act_of cc me a x of None \<Rightarrow> None | Some y \<Rightarrow> acts_of cc me as y)"

lemma call_prog_moves: "call_prog cc me now said p w = Some (p', w') \<Longrightarrow> moves cc me p w p' w'"
  by (auto simp: call_prog_def split: prog.splits option.splits intro!: answered) (auto simp: does_def)

lemma idle_task_iff: "idle_task (r, p) \<longleftrightarrow> p = Ret None"
  by (cases "(r, p)" rule: idle_task.cases) auto

lemma silent_steps:
  assumes "silent me c = Some c'"
  shows "main_step cc me (w, c) (w, c')"
proof (cases "\<exists>i. cr_main c = MCarry i")
  case True
  then obtain i where i: "cr_main c = MCarry i" by blast
  with assms have "list_all idle_task (cr_tasks c)" "c' = c\<lparr>cr_main := MAfter (pass_after me i), cr_tasks := []\<rparr>"
    by (auto split: if_splits)
  moreover from this(1) have "\<forall>(r, p) \<in> set (cr_tasks c). p = Ret None"
    by (fastforce simp: list_all_iff idle_task_iff)
  ultimately show ?thesis using gathered [OF i] by simp
next
  case False
  with assms show ?thesis
    by (auto split: main.splits prog.splits pass_result.splits intro: main_step.intros)
qed

lemma act_of_steps: "act_of cc me a (w, c) = Some (w', c') \<Longrightarrow> coord_step cc me (w, c) (w', c')"
proof (cases a)
  case Silent
  then show "act_of cc me a (w, c) = Some (w', c') \<Longrightarrow> ?thesis" by (auto intro!: main silent_steps)
next
  case (Main now said)
  then show "act_of cc me a (w, c) = Some (w', c') \<Longrightarrow> ?thesis"
    by (auto split: main.splits intro!: main begins finishes call_prog_moves)
next
  case (Node now said)
  assume "act_of cc me a (w, c) = Some (w', c')"
  with Node obtain r p us p' where t: "cr_tasks c = (r, p) # us" "call_prog cc me now said p w = Some (p', w')"
      "c' = c\<lparr>cr_tasks := (r, p') # us\<rparr>"
    by (auto split: list.splits)
  then show ?thesis
    using task [of c "[]" "(r, p)" us cc me w w' "(r, p')"] runs [OF call_prog_moves] by simp
next
  case Turn
  assume "act_of cc me a (w, c) = Some (w', c')"
  with Turn obtain r s us where t: "cr_tasks c = (r, Ret (Some s)) # us" "w' = w" "c' = c\<lparr>cr_tasks := (r, carry_turn r s) # us\<rparr>"
    by (auto split: list.splits prog.splits option.splits)
  then show ?thesis
    using task [of c "[]" "(r, Ret (Some s))" us cc me w w "(r, carry_turn r s)"] turns by simp
qed

definition with_coord :: "string \<Rightarrow> world \<times> coordinator \<Rightarrow> system \<Rightarrow> system" where
  "with_coord me x s = s\<lparr>sy_world := fst x, sy_coord := (sy_coord s)(me := snd x)\<rparr>"

lemma acts_of_steps:
  "acts_of cc me as x = Some y \<Longrightarrow> (sys_step cc)\<^sup>*\<^sup>* (with_coord me x s) (with_coord me y s)"
proof (induction as arbitrary: x)
  case (Cons a as)
  obtain z where z: "act_of cc me a x = Some z" "acts_of cc me as z = Some y"
    using Cons.prems by (auto split: option.splits)
  have "coord_step cc me (fst x, snd x) (fst z, snd z)"
    using act_of_steps [of cc me a "fst x" "snd x" "fst z" "snd z"] z(1) by simp
  then have "sys_step cc (with_coord me x s) (with_coord me z s)"
    using sys_step.coordinator [of cc me "with_coord me x s" "fst z" "snd z"] by (simp add: with_coord_def)
  then show ?case using Cons.IH [OF z(2)] by (rule converse_rtranclp_into_rtranclp)
qed simp

lemma run_steps:
  "acts_of cc me as x \<noteq> None \<Longrightarrow>
     (sys_step cc)\<^sup>*\<^sup>* (with_coord me x s) (with_coord me (the (acts_of cc me as x)) s)"
  by (cases "acts_of cc me as x") (simp_all add: acts_of_steps)

lemma act_steps:
  assumes "act_of cc me a x \<noteq> None"
  shows "coord_step cc me x (the (act_of cc me a x))"
proof -
  obtain y where y: "act_of cc me a x = Some y" using assms by blast
  then have "coord_step cc me (fst x, snd x) (fst y, snd y)"
    using act_of_steps [of cc me a "fst x" "snd x" "fst y" "snd y"] by (simp only: prod.collapse)
  then show ?thesis by (simp only: y option.sel prod.collapse)
qed

lemma administrator_steps:
  assumes "admin_step (w_db (fst x)) d"
  shows "sys_step cc (with_coord me x s) (with_coord me ((fst x)\<lparr>w_db := d\<rparr>, snd x) s)"
  using administrator [of "with_coord me x s" d cc] assms by (cases s) (simp add: with_coord_def)

section \<open>One node with one model\<close>

definition demo_cc :: coord_config where
  "demo_cc = \<lparr>cc_lease = 60, cc_max_attempts = MAX_ATTEMPTS\<rparr>"

definition demo_admin :: actor where
  "demo_admin = \<lparr>ac_id = ''a'', ac_role = ''admin''\<rparr>"

definition demo_manage :: manage where
  "demo_manage = \<lparr>mg_allowed = \<lambda>_ _. True, mg_enabled = True, mg_operations = True,
     mg_nodes = Some [\<lparr>rn_id = ''n'', rn_name = ''node'', rn_agent_url = Some ''u''\<rparr>], mg_agents_enabled = True\<rparr>"

definition demo_model :: json where
  "demo_model = JObj [(''name'', JStr ''m'')]"

definition on_db :: "(mdb \<Rightarrow> mdb) \<Rightarrow> world \<times> coordinator \<Rightarrow> world \<times> coordinator" where
  "on_db f x = ((fst x)\<lparr>w_db := f (w_db (fst x))\<rparr>, snd x)"

definition demo_start :: "world \<times> coordinator" where
  "demo_start = (sy_world (sys_init (Some NORMAL)), sy_coord (sys_init (Some NORMAL)) ''c'')"

definition demo_closed :: "world \<times> coordinator" where
  "demo_closed = on_db (\<lambda>d. snd (enter demo_manage demo_admin None None ''e'' 1 d)) demo_start"

definition asks :: answer where
  "asks = AText []"

definition completed :: answer where
  "completed = ADoc (Inr [(''state'', JStr ''completed'')])"

definition entry_acts :: "act list" where
  "entry_acts = [Silent, Main 2 asks, Main 3 asks, Silent, Node 4 (ABool True),
     Turn, Node 5 (ADoc (Inr [(''quiescent'', JBool True)])), Node 6 asks, Node 7 asks,
     Turn, Node 8 (AResidency (Some [demo_model])), Node 9 asks, Node 10 asks,
     Turn, Node 11 (AText ''r''), Node 12 asks, Node 13 (ADoc (Inr [(''accounting'', JStr ''resolved'')])), Node 14 asks, Node 15 asks,
     Turn, Node 16 (AResidency (Some [])), Node 17 asks, Node 18 asks, Node 19 asks,
     Silent, Main 20 asks, Main 21 asks, Main 22 asks, Silent]"

definition demo_cleared :: "world \<times> coordinator" where
  "demo_cleared = the (acts_of demo_cc ''c'' entry_acts demo_closed)"

definition demo_asked :: "world \<times> coordinator" where
  "demo_asked = on_db (\<lambda>d. snd (restore demo_manage demo_admin ''q'' 30 d)) demo_cleared"

definition restore_acts :: "act list" where
  "restore_acts = [Silent, Main 32 asks, Main 33 asks, Silent, Node 34 (ABool True),
     Turn, Node 35 (AResidency (Some [])), Node 36 asks, Node 36 asks, Node 37 completed, Node 38 asks, Node 39 asks,
     Turn, Node 40 (AResidency (Some [demo_model])), Node 41 asks, Node 42 asks,
     Turn, Node 43 asks, Node 44 asks, Node 45 completed, Node 46 asks, Node 47 asks,
       Node 48 (AResidency (Some [demo_model])), Node 49 asks, Node 50 asks,
     Turn, Node 51 (AResidency (Some [demo_model])), Node 52 asks, Node 53 asks, Node 54 asks,
     Silent, Main 55 asks, Main 56 (ABool True), Main 57 (AResidency (Some [demo_model]))]"

definition demo_whole :: "world \<times> coordinator" where
  "demo_whole = the (acts_of demo_cc ''c'' restore_acts demo_asked)"

definition demo_reopened :: "world \<times> coordinator" where
  "demo_reopened = the (act_of demo_cc ''c'' (Main 58 asks) demo_whole)"

definition demo_system :: "world \<times> coordinator \<Rightarrow> system" where
  "demo_system x = with_coord ''c'' x (sys_init (Some NORMAL))"

lemma demo_restore_runs:
  "acts_of demo_cc ''c'' entry_acts demo_closed \<noteq> None"
  "acts_of demo_cc ''c'' restore_acts demo_asked \<noteq> None"
  "act_of demo_cc ''c'' (Main 58 asks) demo_whole \<noteq> None"
  by code_simp+

lemma demo_start_system: "demo_system demo_start = sys_init (Some NORMAL)"
  by (simp add: demo_system_def demo_start_def with_coord_def sys_init_def fun_upd_idem)

lemma demo_administrator:
  assumes "\<And>d. admin_step d (f d)"
  shows "sys_step cc (demo_system x) (demo_system (on_db f x))"
  unfolding demo_system_def on_db_def by (rule administrator_steps) (rule assms)

lemma demo_acts: "acts_of demo_cc ''c'' as x \<noteq> None \<Longrightarrow>
    (sys_step demo_cc)\<^sup>*\<^sup>* (demo_system x) (demo_system (the (acts_of demo_cc ''c'' as x)))"
  unfolding demo_system_def by (rule run_steps)

lemma demo_reaches:
  "sys_reaches demo_cc (Some NORMAL) (demo_system demo_cleared)"
  "(sys_step demo_cc)\<^sup>*\<^sup>* (demo_system demo_cleared) (demo_system demo_whole)"
  "sys_reaches demo_cc (Some NORMAL) (demo_system demo_whole)"
proof -
  have "sys_step demo_cc (demo_system demo_start) (demo_system demo_closed)"
    unfolding demo_closed_def by (rule demo_administrator) (rule admin_step.intros)
  then show cleared: "sys_reaches demo_cc (Some NORMAL) (demo_system demo_cleared)"
    using demo_acts [OF demo_restore_runs(1)] unfolding demo_cleared_def demo_start_system [symmetric]
    by (rule converse_rtranclp_into_rtranclp)
  have "sys_step demo_cc (demo_system demo_cleared) (demo_system demo_asked)"
    unfolding demo_asked_def by (rule demo_administrator) (rule admin_step.intros)
  then show later: "(sys_step demo_cc)\<^sup>*\<^sup>* (demo_system demo_cleared) (demo_system demo_whole)"
    using demo_acts [OF demo_restore_runs(2)] unfolding demo_whole_def by (rule converse_rtranclp_into_rtranclp)
  show "sys_reaches demo_cc (Some NORMAL) (demo_system demo_whole)"
    using cleared later by (rule rtranclp_trans)
qed

lemma demo_step: "sys_step demo_cc (demo_system demo_whole) (demo_system demo_reopened)"
proof -
  have "coord_step demo_cc ''c'' (fst demo_whole, snd demo_whole) (fst demo_reopened, snd demo_reopened)"
    using act_steps [OF demo_restore_runs(3)] by (simp add: demo_reopened_def)
  then show ?thesis
    using sys_step.coordinator [of demo_cc "''c''" "demo_system demo_whole" "fst demo_reopened" "snd demo_reopened"]
    by (simp add: demo_system_def with_coord_def)
qed

text \<open>A second coordinator takes the entry over when the first one's lease has passed.\<close>

definition demo_midway :: "world \<times> coordinator" where
  "demo_midway = the (acts_of demo_cc ''c'' (take 7 entry_acts) demo_closed)"

definition demo_taken :: "world \<times> coordinator" where
  "demo_taken = the (acts_of demo_cc ''d'' [Silent, Main 100 asks] (fst demo_midway, sy_coord (sys_init None) ''d''))"

definition demo_two :: system where
  "demo_two = with_coord ''d'' demo_taken (demo_system demo_midway)"

definition demo_late :: "world \<times> coordinator" where
  "demo_late = the (act_of demo_cc ''c'' (Node 101 asks) (fst demo_taken, snd demo_midway))"

lemma demo_two_runs:
  "acts_of demo_cc ''c'' (take 7 entry_acts) demo_closed \<noteq> None"
  "acts_of demo_cc ''d'' [Silent, Main 100 asks] (fst demo_midway, sy_coord (sys_init None) ''d'') \<noteq> None"
  "act_of demo_cc ''c'' (Node 101 asks) (fst demo_taken, snd demo_midway) \<noteq> None"
  by code_simp+

lemma demo_two_reaches: "sys_reaches demo_cc (Some NORMAL) demo_two"
proof -
  let ?x = "(fst demo_midway, sy_coord (sys_init None) ''d'')"
  have "sys_step demo_cc (demo_system demo_start) (demo_system demo_closed)"
    unfolding demo_closed_def by (rule demo_administrator) (rule admin_step.intros)
  then have "sys_reaches demo_cc (Some NORMAL) (demo_system demo_midway)"
    using demo_acts [OF demo_two_runs(1)] unfolding demo_midway_def demo_start_system [symmetric]
    by (rule converse_rtranclp_into_rtranclp)
  moreover have "with_coord ''d'' ?x (demo_system demo_midway) = demo_system demo_midway"
    by (simp add: with_coord_def demo_system_def sys_init_def fun_upd_idem)
  moreover have "(sys_step demo_cc)\<^sup>*\<^sup>* (with_coord ''d'' ?x (demo_system demo_midway)) demo_two"
    unfolding demo_two_def demo_taken_def by (rule run_steps [OF demo_two_runs(2)])
  ultimately show ?thesis by simp
qed

lemma demo_late_step: "coord_step demo_cc ''c'' (sy_world demo_two, sy_coord demo_two ''c'') (fst demo_late, snd demo_late)"
proof -
  have "sy_world demo_two = fst demo_taken" "sy_coord demo_two ''c'' = snd demo_midway"
    by (simp_all add: demo_two_def with_coord_def demo_system_def)
  moreover have "coord_step demo_cc ''c'' (fst demo_taken, snd demo_midway) demo_late"
    unfolding demo_late_def by (rule act_steps [OF demo_two_runs(3)])
  ultimately show ?thesis by simp
qed

end
