(* ===== verification/Coordinator_Properties.thy ===== *)
theory Coordinator_Properties
  imports Coordinator_Runs
begin

text \<open>
  What the maintenance coordinator guarantees, whatever coordinators, administrators, nodes and failures
  do: an entry that succeeded has cleared every node, the platform reopens only by an administrator or with
  every node whole, and a coordinator that lost an operation changes nothing of it.
\<close>

section \<open>An entry that succeeded\<close>

text \<open>
  C35: Whatever coordinators, administrators, failures and nodes did before: when an entry has
  succeeded, each of its nodes is verified, was interrupted with nothing left sending, had its snapshot
  decided before the reset, and was observed with an empty runtime after an answered reset of this entry.
\<close>

theorem entry_clears_every_node:
  assumes "sys_reaches cc h s" and "r \<in> set (md_ops (w_db (sy_world s)))" and "mo_kind r = EnterKind"
    and "mo_status r = OpSucceeded" and "t \<in> set (md_steps (w_db (sy_world s)))" and "ns_operation t = mo_id r"
  shows "ns_phase t = PhVerified \<and> snapshot_taken t
    \<and> (\<exists>rep. ns_interrupt t = Some rep \<and> truthy (dget rep ''quiescent''))
    \<and> emptied r (ns_node t) (w_log (sy_world s))"
proof -
  have ok: "world_ok (sy_world s)" using sys_reaches_ok [OF assms(1)] by (simp add: sys_ok_def)
  then have "ns_status t = StDone"
    using assms(2,4-6) by (auto simp: world_ok_def all_done_def)
  moreover have "mop_at (w_db (sy_world s)) (ns_operation t) = Some r"
    using unique_op [OF ok assms(2)] assms(6) by simp
  then have "row_ok r t (w_log (sy_world s))"
    using ok assms(5) by (auto simp: world_ok_def)
  ultimately show ?thesis
    using assms(3) by (auto simp: row_ok_def enter_ok_def phase_defs)
qed

lemma entry_clears_every_node_witness:
  "ns_phase (hd (md_steps (w_db (fst demo_cleared)))) = PhVerified"
proof -
  let ?d = "w_db (fst demo_cleared)"
  have w: "sy_world (demo_system demo_cleared) = fst demo_cleared"
    by (simp add: demo_system_def with_coord_def)
  have "md_ops ?d \<noteq> []" "md_steps ?d \<noteq> []" "mo_kind (hd (md_ops ?d)) = EnterKind" "mo_status (hd (md_ops ?d)) = OpSucceeded"
      "ns_operation (hd (md_steps ?d)) = mo_id (hd (md_ops ?d))"
    by code_simp+
  then show ?thesis
    using entry_clears_every_node [OF demo_reaches(1), of "hd (md_ops ?d)" "hd (md_steps ?d)"] by (simp add: w)
qed

section \<open>The snapshot is written once\<close>

text \<open>
  Once an entry's node has its snapshot, or the recorded reason why it has none, no later step of
  anybody, a retry or another coordinator included, changes it: the snapshot is the state before the reset.
\<close>

theorem snapshot_written_once:
  assumes "sys_reaches cc h s" and "(sys_step cc)\<^sup>*\<^sup>* s t" and "step_at (w_db (sy_world s)) k = Some u"
    and "snapshot_taken u"
  shows "\<exists>v. step_at (w_db (sy_world t)) k = Some v \<and> ns_snapshot v = ns_snapshot u
    \<and> ns_snapshot_error v = ns_snapshot_error u"
proof -
  have "grows_to (sy_world s) (sy_world t)"
    using sys_later [OF assms(2) sys_reaches_ok [OF assms(1)]] by (simp add: evolves_def)
  then obtain v where "step_at (w_db (sy_world t)) k = Some v" "grown u v"
    using grows_toD(3) assms(3) by blast
  with assms(4) show ?thesis by (simp add: grown_def)
qed

lemma snapshot_written_once_witness:
  "\<exists>v. step_at (w_db (fst demo_whole)) (''e'', ''n'') = Some v \<and> ns_snapshot v = Some [[(''name'', JStr ''m'')]]"
proof -
  have w: "sy_world (demo_system x) = fst x" for x
    by (simp add: demo_system_def with_coord_def)
  let ?u = "the (step_at (w_db (fst demo_cleared)) (''e'', ''n''))"
  have at: "step_at (w_db (fst demo_cleared)) (''e'', ''n'') \<noteq> None" and u: "snapshot_taken ?u"
      "ns_snapshot ?u = Some [[(''name'', JStr ''m'')]]"
    by code_simp+
  have "step_at (w_db (sy_world (demo_system demo_cleared))) (''e'', ''n'') = Some ?u"
    using at by (simp add: w)
  from snapshot_written_once [OF demo_reaches(1,2) this u(1)] show ?thesis by (auto simp: w u(2))
qed

section \<open>A restore asks for a bounded set of loads\<close>

definition loads_asked :: "string \<Rightarrow> string \<Rightarrow> event list \<Rightarrow> string set" where
  "loads_asked i n log = {oid. \<exists>ep m a. Ev i n (NRestore ep oid ''load'' m) a \<in> set log}"

text \<open>
  A restore asks a node for at most (1 + MAX_REPAIR_ROUNDS) loads for each model of its snapshot,
  by operation id, over all passes, coordinators, crashes and retries together.
\<close>

theorem restore_loads_bounded:
  assumes "sys_reaches cc h s" and "r \<in> set (md_ops (w_db (sy_world s)))" and "mo_kind r = RestoreKind"
    and "t \<in> set (md_steps (w_db (sy_world s)))" and "ns_operation t = mo_id r"
  shows "\<exists>snap. ns_snapshot t = Some snap
    \<and> finite (loads_asked (mo_id r) (ns_node t) (w_log (sy_world s)))
    \<and> card (loads_asked (mo_id r) (ns_node t) (w_log (sy_world s))) \<le> length snap * (1 + MAX_REPAIR_ROUNDS)"
proof -
  have ok: "world_ok (sy_world s)" using sys_reaches_ok [OF assms(1)] by (simp add: sys_ok_def)
  have "mop_at (w_db (sy_world s)) (ns_operation t) = Some r"
    using unique_op [OF ok assms(2)] assms(5) by simp
  then have "restore_ok r t (w_log (sy_world s))"
    using ok assms(3,4) by (auto simp: world_ok_def row_ok_def)
  then obtain snap where at: "ns_snapshot t = Some snap"
      "\<forall>ep oid m a. Ev (mo_id r) (ns_node t) (NRestore ep oid ''load'' m) a \<in> set (w_log (sy_world s)) \<longrightarrow>
         oid \<in> load_id r ` {..<load_bound snap}"
    unfolding restore_ok_def by blast
  then have snap: "ns_snapshot t = Some snap"
      "loads_asked (mo_id r) (ns_node t) (w_log (sy_world s)) \<subseteq> load_id r ` {..<load_bound snap}"
    unfolding loads_asked_def by blast+
  then have "finite (loads_asked (mo_id r) (ns_node t) (w_log (sy_world s)))"
    using finite_subset by blast
  moreover have "card (loads_asked (mo_id r) (ns_node t) (w_log (sy_world s))) \<le> card {..<load_bound snap}"
    using card_mono [OF _ snap(2)] card_image_le [of "{..<load_bound snap}" "load_id r"] by fastforce
  ultimately show ?thesis using snap(1) by (simp add: load_bound_def)
qed

lemma restore_loads_bounded_witness:
  "card (loads_asked ''q'' ''n'' (w_log (fst demo_whole))) \<le> 3 \<and> loads_asked ''q'' ''n'' (w_log (fst demo_whole)) \<noteq> {}"
proof -
  let ?d = "w_db (fst demo_whole)"
  have w: "sy_world (demo_system demo_whole) = fst demo_whole"
    by (simp add: demo_system_def with_coord_def)
  have "length (md_ops ?d) = 2" "length (md_steps ?d) = 2" "mo_kind (md_ops ?d ! 1) = RestoreKind" "mo_id (md_ops ?d ! 1) = ''q''"
      "ns_operation (md_steps ?d ! 1) = ''q''" "ns_node (md_steps ?d ! 1) = ''n''"
      "map_option length (ns_snapshot (md_steps ?d ! 1)) = Some 1"
    by code_simp+
  then have "card (loads_asked ''q'' ''n'' (w_log (fst demo_whole))) \<le> 1 * (1 + MAX_REPAIR_ROUNDS)"
    using restore_loads_bounded [OF demo_reaches(3), of "md_ops ?d ! 1" "md_steps ?d ! 1"] by (auto simp: w)
  moreover have "list_ex (\<lambda>e. case e of Ev i n (NRestore ep oid a m) r \<Rightarrow> i = ''q'' \<and> n = ''n'' \<and> a = ''load'' | _ \<Rightarrow> False)
      (w_log (fst demo_whole))"
    by code_simp
  then have "loads_asked ''q'' ''n'' (w_log (fst demo_whole)) \<noteq> {}"
    unfolding list_ex_iff
    by (elim bexE) (auto simp: loads_asked_def split: event.split_asm node_call.split_asm)
  ultimately show ?thesis by (simp add: MAX_REPAIR_ROUNDS_def)
qed

section \<open>How the platform reopens\<close>

definition closed_at :: "mdb \<Rightarrow> int \<Rightarrow> bool" where
  "closed_at d ep \<longleftrightarrow> (\<exists>h. md_hold d = Some h \<and> admission_closed h \<and> epoch h = ep)"

lemma step_write_hold: "step_write me k c g d = (b, d') \<Longrightarrow> md_hold d' = md_hold d"
  by (auto simp: step_write_def split: if_splits)

text \<open>Only \<open>ReopenAfter\<close> touches the hold, and only when its operation is still this coordinator's.\<close>

lemma does_hold:
  assumes "does cc me q w r w'" "md_hold (w_db w') \<noteq> md_hold (w_db w)"
  shows "\<exists>i ep h. q = ReopenAfter i ep \<and> fenced me i (w_db w) \<and> md_hold (w_db w) = Some h
    \<and> admission_closed h \<and> epoch h = ep"
proof -
  obtain now said where p: "perform cc me now said q w = Some (r, w')" using assms(1) by (auto simp: does_def)
  show ?thesis
  proof (cases q)
    case (ReopenAfter i ep)
    then have "w' = w\<lparr>w_db := snd (reopen_after COORDINATOR_ID i me ep now (w_db w))\<rparr>"
      using p by (auto simp: perform_def Let_def split: prod.splits)
    then show ?thesis
      using assms(2) ReopenAfter
      by (auto simp: reopen_after_def op_finish_def set_op_def hold_reopen_def hold_change_def Let_def split: if_splits option.splits)
  next
    case (Advance k ph v)
    then show ?thesis using p assms(2)
      by (auto simp: perform_def Let_def noting_def op_advance_def dest: step_write_hold split: prod.splits)
  next
    case (SetResetId k rid)
    then show ?thesis using p assms(2)
      by (auto simp: perform_def Let_def noting_def op_set_reset_id_def dest: step_write_hold split: prod.splits)
  next
    case (AttemptFailed k err final clear)
    then show ?thesis using p assms(2)
      by (auto simp: perform_def Let_def noting_def op_attempt_failed_def dest: step_write_hold split: prod.splits)
  next
    case (Rewind k ph)
    then show ?thesis using p assms(2)
      by (auto simp: perform_def Let_def noting_def op_rewind_def dest: step_write_hold split: prod.splits)
  next
    case Claim
    then show ?thesis using p assms(2)
      by (auto simp: perform_def Let_def op_claim_def set_op_def split: prod.splits option.splits)
  next
    case (Finish i st err)
    then show ?thesis using p assms(2)
      by (auto simp: perform_def Let_def op_finish_def set_op_def split: prod.splits)
  next
    case (NodeCall i n c)
    then show ?thesis using p assms(2)
      by (auto simp: perform_def Let_def noting_def split: node_call.splits answer.splits)
  qed (use p assms(2) in \<open>auto simp: perform_def Let_def recorded_def split: option.splits answer.splits\<close>)
qed

lemma moves_hold:
  assumes "moves cc me p w p' w'" "md_hold (w_db w') \<noteq> md_hold (w_db w)"
  shows "\<exists>i k h. p = Call (ReopenAfter i (epoch h)) k \<and> fenced me i (w_db w) \<and> md_hold (w_db w) = Some h \<and> admission_closed h"
  using assms
proof cases
  case (answered q r k)
  then show ?thesis using does_hold [OF answered(3) assms(2)] by auto
next
  case (fails_after q r k x)
  then show ?thesis using does_hold [OF fails_after(3) assms(2)] by auto
qed simp

lemma pass_reopens:
  assumes "moves cc me p w p' w'" "pass.meets me cc p Q (\<lambda>_ _. True) w" "world_ok w" "md_hold (w_db w') \<noteq> md_hold (w_db w)"
  shows "\<exists>r h. mop_at (w_db w) (mo_id r) = Some r \<and> held_by me r \<and> mo_kind r = RestoreKind
    \<and> fresh_whole (mo_id r) w \<and> md_hold (w_db w) = Some h \<and> admission_closed h \<and> mo_epoch r = epoch h"
proof -
  obtain i k h where p: "p = Call (ReopenAfter i (epoch h)) k" "fenced me i (w_db w)" "md_hold (w_db w) = Some h" "admission_closed h"
    using moves_hold [OF assms(1,4)] by blast
  have duty: "duty me (ReopenAfter i (epoch h)) w" using assms(2,3) p(1) pass.rely_refl by auto
  have own: "owned me i (w_db w)" using fenced_owned [OF assms(3)] p(2) by simp
  then obtain r where r: "mop_at (w_db w) i = Some r" "held_by me r" by (auto simp: owned_def)
  then have "mo_id r = i" by (auto dest: row_at_SomeD)
  with r p duty own show ?thesis by (auto simp: duty_def)
qed

lemma task_keeps_hold:
  assumes "task_step cc me (w, x) (w', y)" "task_ok cc me w x"
  shows "md_hold (w_db w') = md_hold (w_db w)"
  using assms(1)
proof cases
  case (runs p p' r)
  show ?thesis
  proof (rule ccontr)
    assume ne: "md_hold (w_db w') \<noteq> md_hold (w_db w)"
    obtain i k and h :: maintenance_state where p: "p = Call (ReopenAfter i (epoch h)) k"
      using moves_hold [OF runs(3) ne] by blast
    have "task.meets cc me p (carried r) (\<lambda>_ _. True) w"
      using assms(2) runs(1) by (simp add: task_ok_def)
    then have "task_request (ReopenAfter i (epoch h))"
      unfolding p by (rule task_now(1))
    then show False by (simp add: task_request_def)
  qed
qed simp

lemma coordinator_reopens:
  assumes step: "coord_step cc me (w, c) (w', c')" and ok: "coord_ok cc me c w" "world_ok w"
    and ne: "md_hold (w_db w') \<noteq> md_hold (w_db w)"
  shows "\<exists>r h. mop_at (w_db w) (mo_id r) = Some r \<and> held_by me r \<and> mo_kind r = RestoreKind
    \<and> fresh_whole (mo_id r) w \<and> md_hold (w_db w) = Some h \<and> admission_closed h \<and> mo_epoch r = epoch h"
  using step
proof cases
  case main
  then show ?thesis
  proof cases
    case (begins p p')
    have "pass.meets me cc p begun (\<lambda>_ _. True) w" using ok(1) begins by (simp add: coord_ok_def main_ok_def)
    then show ?thesis by (rule pass_reopens [OF begins(3) _ ok(2) ne])
  next
    case (finishes p p')
    have "pass.meets me cc p (\<lambda>_ _. True) (\<lambda>_ _. True) w" using ok(1) finishes by (simp add: coord_ok_def main_ok_def)
    then show ?thesis by (rule pass_reopens [OF finishes(3) _ ok(2) ne])
  next
    case (renews i now b d)
    then show ?thesis using ne by (auto simp: op_renew_def set_op_def)
  qed (use ne in simp_all)
next
  case (task ts t us t')
  then show ?thesis using task_keeps_hold [OF task(3)] ok(1) ne by (simp add: coord_ok_def)
next
  case (left_over ts t us t')
  then show ?thesis using task_keeps_hold [OF left_over(3)] ok(1) ne by (simp add: coord_ok_def)
qed

lemma administrator_reopens:
  assumes "admin_step d d'" "md_hold d = Some h" "admission_closed h" "md_hold d' = Some h'" "\<not> admission_closed h'"
  shows "\<exists>mg a now. d' = snd (admin_reopen mg a now d)"
  using assms(1)
proof cases
  case (1 mg a msg expected fresh now)
  then show ?thesis
    using assms(2-) by (auto simp: enter_def hold_defs split: sum.splits option.splits)
next
  case (2 mg a fresh now)
  have "md_hold (snd (restore mg a fresh now d)) = md_hold d"
    by (auto simp: restore_def begin_restore_def create_restore_def insert_op_def recorded_def
        split: sum.splits option.splits prod.splits if_splits)
  then show ?thesis using 2 assms(2-) by simp
next
  case (3 mg a now)
  have "md_hold (snd (retry mg a now d)) = md_hold d"
    by (auto simp: retry_def op_retry_def set_op_def recorded_def Let_def split: sum.splits option.splits prod.splits if_splits)
  then show ?thesis using 3 assms(2-) by simp
next
  case (5 mg a msg expected expected_revision now)
  then show ?thesis
    using assms(2-) by (auto simp: admin_set_message_def hold_defs recorded_def Let_def split: sum.splits option.splits if_splits)
qed blast

text \<open>
  C36: The platform leaves the closed state in two ways only: an administrator reopens it, or a
  coordinator that still holds this epoch's running restore does, and then every step is done and, since
  the last write to any of them, every node was observed to hold its snapshot and nothing else.
\<close>

theorem restore_reopens_only_when_whole:
  assumes "sys_reaches cc h0 s" and "sys_step cc s t"
    and "md_hold (w_db (sy_world s)) = Some h" and "admission_closed h"
    and "md_hold (w_db (sy_world t)) = Some h'" and "\<not> admission_closed h'"
  shows "(\<exists>mg a now. w_db (sy_world t) = snd (admin_reopen mg a now (w_db (sy_world s))))
    \<or> (\<exists>me r. mop_at (w_db (sy_world s)) (mo_id r) = Some r \<and> held_by me r \<and> mo_kind r = RestoreKind
         \<and> mo_epoch r = epoch h \<and> fresh_whole (mo_id r) (sy_world s))"
  using assms(2)
proof cases
  case (administrator d)
  then show ?thesis using administrator_reopens [OF administrator(2) assms(3,4) _ assms(6)] assms(5) by auto
next
  case (coordinator me w c)
  have "sys_ok cc s" by (rule sys_reaches_ok [OF assms(1)])
  then have "coord_ok cc me (sy_coord s me) (sy_world s)" "world_ok (sy_world s)" by (simp_all add: sys_ok_def)
  moreover have "md_hold (w_db w) \<noteq> md_hold (w_db (sy_world s))" using assms(3-) coordinator(1) by auto
  ultimately show ?thesis
    using coordinator_reopens [OF coordinator(2)] assms(3) by fastforce
qed

lemma restore_reopens_only_when_whole_witness:
  "(\<exists>mg a now. w_db (fst demo_reopened) = snd (admin_reopen mg a now (w_db (fst demo_whole))))
   \<or> (\<exists>me r. mop_at (w_db (fst demo_whole)) (mo_id r) = Some r \<and> held_by me r \<and> mo_kind r = RestoreKind
        \<and> mo_epoch r = 1 \<and> fresh_whole (mo_id r) (fst demo_whole))"
proof -
  have w: "sy_world (demo_system x) = fst x" for x
    by (simp add: demo_system_def with_coord_def)
  let ?h = "the (md_hold (w_db (fst demo_whole)))" and ?h' = "the (md_hold (w_db (fst demo_reopened)))"
  have h: "md_hold (w_db (fst demo_whole)) \<noteq> None" "admission_closed ?h" "epoch ?h = 1"
      "md_hold (w_db (fst demo_reopened)) \<noteq> None" "\<not> admission_closed ?h'"
    by code_simp+
  have "md_hold (w_db (sy_world (demo_system demo_whole))) = Some ?h" "md_hold (w_db (sy_world (demo_system demo_reopened))) = Some ?h'"
    using h(1,4) by (simp_all add: w)
  from restore_reopens_only_when_whole [OF demo_reaches(3) demo_step this(1) h(2) this(2) h(5)]
  show ?thesis by (simp add: w h(3))
qed

section \<open>A coordinator that lost the operation\<close>

text \<open>Operation \<open>i\<close> and its steps as before, or the coordinator just claimed it.\<close>

definition untouched :: "string \<Rightarrow> string \<Rightarrow> mdb \<Rightarrow> mdb \<Rightarrow> bool" where
  "untouched me i d d' \<longleftrightarrow>
     filter (\<lambda>s. ns_operation s = i) (md_steps d') = filter (\<lambda>s. ns_operation s = i) (md_steps d)
     \<and> (mop_at d' i = mop_at d i \<or> owned me i d')"

lemma untouched_same: "md_ops d' = md_ops d \<Longrightarrow> md_steps d' = md_steps d \<Longrightarrow> untouched me i d d'"
  by (simp add: untouched_def)

lemma filter_upd_other:
  assumes "\<And>x. P x \<Longrightarrow> \<not> Q x" "\<And>x. P x \<Longrightarrow> \<not> Q (f x)"
  shows "filter Q (upd_where P f xs) = filter Q xs"
  using assms by (induction xs) (auto simp: upd_where_def)

lemma step_write_untouched:
  assumes "step_write me k c g d = (b, d')" "\<not> fenced me i d" "\<And>s. ns_operation (g s) = ns_operation s"
  shows "untouched me i d d'"
  using step_write_cases [OF assms(1)] assms(2,3)
  by (auto simp: untouched_def step_where_def intro!: filter_upd_other)

lemma set_op_untouched:
  assumes "\<And>r. mo_id (g r) = mo_id r" "\<And>r. r \<in> set (md_ops d) \<Longrightarrow> mo_id r = i \<Longrightarrow> c r \<Longrightarrow> j \<noteq> i"
  shows "untouched me i d (set_op j c g d)"
proof -
  have "mop_at (set_op j c g d) i = map_option (\<lambda>r. if mo_id r = j \<and> c r then g r else r) (mop_at d i)"
    unfolding set_op_ops upd_where_def by (rule row_at_map) (simp add: assms(1))
  moreover have "(if mo_id r = j \<and> c r then g r else r) = r" if "mop_at d i = Some r" for r
    using row_at_SomeD [OF that] assms(2) by auto
  ultimately show ?thesis
    by (cases "mop_at d i") (simp_all add: untouched_def set_op_def)
qed

lemma not_fenced_held: "\<not> fenced me i d \<Longrightarrow> r \<in> set (md_ops d) \<Longrightarrow> mo_id r = i \<Longrightarrow> \<not> held_by me r"
  by (auto simp: fenced_def list_ex_iff)

lemma oldest_in: "oldest rs = Some r \<Longrightarrow> r \<in> set rs"
  using set_sort_by [of "\<lambda>a b. mo_created_at a \<le> mo_created_at b" rs]
  by (auto simp: oldest_def simp del: set_sort_by split: list.splits)

lemma claim_untouched:
  assumes "op_claim me lease now d = (v, d')" "distinct (map mo_id (md_ops d))"
  shows "untouched me i d d'"
proof (cases "oldest (filter (claimable me now) (md_ops d))")
  case None
  then show ?thesis using assms(1) by (simp add: op_claim_def untouched_same)
next
  case (Some r)
  let ?g = "\<lambda>r. r\<lparr>mo_owner := Some me, mo_lease := Some (now + lease), mo_updated_at := now\<rparr>"
  have d': "d' = set_op (mo_id r) (\<lambda>_. True) ?g d" using assms(1) Some by (simp add: op_claim_def Let_def)
  show ?thesis
  proof (cases "mo_id r = i")
    case True
    have r: "r \<in> set (md_ops d)" "mo_status r = OpRunning"
      using oldest_in [OF Some] by (auto simp: claimable_def)
    have "mop_at d' i = map_option (\<lambda>q. if mo_id q = mo_id r \<and> True then ?g q else q) (mop_at d i)"
      unfolding d' set_op_ops upd_where_def by (rule row_at_map) simp
    then have "owned me i d'"
      using row_at_unique [OF assms(2) r(1)] r(2) True by (simp add: owned_def held_by_def)
    then show ?thesis by (simp add: untouched_def d' set_op_def)
  next
    case False
    then show ?thesis unfolding d' by (intro set_op_untouched) simp_all
  qed
qed

lemma does_untouched:
  assumes "does cc me q w r w'" "world_ok w" "\<not> owned me i (w_db w)"
  shows "untouched me i (w_db w) (w_db w')"
proof -
  have free: "\<not> fenced me i (w_db w)" using assms(2,3) fenced_owned by simp
  obtain now said where p: "perform cc me now said q w = Some (r, w')" using assms(1) by (auto simp: does_def)
  have ended: "untouched me i (w_db w) (set_op j (held_by me) (ended st err now) (w_db w))" for j st err
    by (rule set_op_untouched) (use free in \<open>auto simp: ended_def dest: not_fenced_held\<close>)
  have written: "untouched me i (w_db w) d'" if "step_write me k c g (w_db w) = (b, d')" "\<And>s. ns_operation (g s) = ns_operation s" for k c g b d'
    by (rule step_write_untouched [OF that(1) free that(2)])
  show ?thesis
  proof (cases q)
    case Claim
    then have "w_db w' = snd (op_claim me (cc_lease cc) now (w_db w))"
      using p by (auto simp: perform_def Let_def split: prod.splits)
    then show ?thesis
      using claim_untouched [of me "cc_lease cc" now "w_db w"] assms(2) by (metis prod.collapse world_ok_def)
  next
    case (Advance k ph v)
    obtain b d' where b: "step_write me k is_running (advance_set ph v now) (w_db w) = (b, d')" by (metis surj_pair)
    then have "w_db w' = d'" using p Advance by (auto simp: perform_def Let_def op_advance_def noting_def)
    then show ?thesis using written [OF b] by (simp add: advance_set_def)
  next
    case (SetResetId k rid)
    obtain b d' where b: "step_write me k (\<lambda>s. ns_reset_id s = None)
        (\<lambda>s. s\<lparr>ns_reset_id := Some rid, ns_updated_at := Some now\<rparr>) (w_db w) = (b, d')" by (metis surj_pair)
    then have "w_db w' = d'" using p SetResetId by (auto simp: perform_def Let_def op_set_reset_id_def)
    then show ?thesis using written [OF b] by simp
  next
    case (AttemptFailed k err final clear)
    obtain b d' where b: "step_write me k is_running (failed_set err (cc_max_attempts cc) clear final now) (w_db w) = (b, d')"
      by (metis surj_pair)
    then have "w_db w' = d'" using p AttemptFailed by (auto simp: perform_def Let_def op_attempt_failed_def noting_def)
    then show ?thesis using written [OF b] by (simp add: failed_set_def)
  next
    case (Rewind k ph)
    obtain b d' where b: "step_write me k (\<lambda>s. ns_status s = StDone)
        (\<lambda>s. s\<lparr>ns_status := StRunning, ns_phase := ph, ns_attempts := 0, ns_updated_at := Some now\<rparr>) (w_db w) = (b, d')"
      by (metis surj_pair)
    then have "w_db w' = d'" using p Rewind by (auto simp: perform_def Let_def op_rewind_def noting_def)
    then show ?thesis using written [OF b] by simp
  next
    case (Finish j st err)
    then have "w_db w' = set_op j (held_by me) (ended st err now) (w_db w)"
      using p by (auto simp: perform_def Let_def op_finish_def)
    then show ?thesis using ended by simp
  next
    case (ReopenAfter j ep)
    obtain b d' where b: "reopen_after COORDINATOR_ID j me ep now (w_db w) = (b, d')" by (metis surj_pair)
    have w': "w_db w' = d'" using p ReopenAfter b by (auto simp: perform_def Let_def)
    show ?thesis
    proof (cases b)
      case True
      then have "md_ops d' = md_ops (set_op j (held_by me) (ended OpSucceeded None now) (w_db w))" "md_steps d' = md_steps (w_db w)"
        using reopen_after_cases [OF b] by (auto simp: op_finish_def)
      then show ?thesis
        using ended [of j OpSucceeded None] unfolding w' untouched_def by (auto simp: owned_def set_op_def)
    next
      case False
      then show ?thesis using reopen_after_cases [OF b] w' by (simp add: untouched_same)
    qed
  next
    case (NodeCall n x c)
    then have "w_db w' = w_db w"
      using p by (auto simp: perform_def Let_def noting_def split: node_call.splits answer.splits)
    then show ?thesis by (simp add: untouched_same)
  qed (use p in \<open>auto simp: perform_def Let_def recorded_def split: option.splits answer.splits intro: untouched_same\<close>)
qed

lemma moves_untouched:
  assumes "moves cc me p w p' w'" "world_ok w" "\<not> owned me i (w_db w)"
  shows "untouched me i (w_db w) (w_db w')"
  using assms(1) by cases (use does_untouched [OF _ assms(2,3)] in \<open>auto simp: untouched_same\<close>)

lemma task_untouched:
  assumes "task_step cc me (w, x) (w', y)" "world_ok w" "\<not> owned me i (w_db w)"
  shows "untouched me i (w_db w) (w_db w')"
  using assms(1) by cases (use moves_untouched [OF _ assms(2,3)] in \<open>auto simp: untouched_same\<close>)

text \<open>
  C37: A coordinator that does not hold an operation, because another took it over or it ended, can
  carry on its pass and its tasks as it likes: no step of it changes the operation or its nodes' steps,
  unless that step is a new claim.
\<close>

theorem stale_coordinator_fenced:
  assumes "sys_reaches cc h s" and "coord_step cc me (sy_world s, sy_coord s me) (w, c)"
    and "\<not> owned me i (w_db (sy_world s))"
  shows "filter (\<lambda>t. ns_operation t = i) (md_steps (w_db w)) = filter (\<lambda>t. ns_operation t = i) (md_steps (w_db (sy_world s)))
    \<and> (mop_at (w_db w) i = mop_at (w_db (sy_world s)) i \<or> owned me i (w_db w))"
proof -
  have ok: "world_ok (sy_world s)" using sys_reaches_ok [OF assms(1)] by (simp add: sys_ok_def)
  have "untouched me i (w_db (sy_world s)) (w_db w)"
    using assms(2)
  proof cases
    case main
    then show ?thesis
    proof cases
      case (renews j now b d)
      then have "d = set_op j (held_by me) (\<lambda>r. r\<lparr>mo_lease := Some (now + cc_lease cc)\<rparr>) (w_db (sy_world s))"
        by (simp add: op_renew_def)
      moreover have "untouched me i (w_db (sy_world s)) (set_op j (held_by me) (\<lambda>r. r\<lparr>mo_lease := Some (now + cc_lease cc)\<rparr>) (w_db (sy_world s)))"
        by (rule set_op_untouched) (use assms(3) fenced_owned [OF ok] in \<open>auto dest: not_fenced_held\<close>)
      ultimately show ?thesis using renews(1) by simp
    qed (use moves_untouched [OF _ ok assms(3)] in \<open>auto simp: untouched_same\<close>)
  qed (use task_untouched [OF _ ok assms(3)] in auto)
  then show ?thesis by (simp add: untouched_def)
qed

lemma stale_coordinator_fenced_witness:
  "filter (\<lambda>t. ns_operation t = ''e'') (md_steps (w_db (fst demo_late))) = filter (\<lambda>t. ns_operation t = ''e'') (md_steps (w_db (sy_world demo_two)))
   \<and> (mop_at (w_db (fst demo_late)) ''e'' = mop_at (w_db (sy_world demo_two)) ''e'' \<or> owned ''c'' ''e'' (w_db (fst demo_late)))"
proof -
  have w: "sy_world demo_two = fst demo_taken" by (simp add: demo_two_def with_coord_def)
  have "map_option (held_by ''c'') (mop_at (w_db (fst demo_taken)) ''e'') = Some False"
    by code_simp
  then have "\<not> owned ''c'' ''e'' (w_db (sy_world demo_two))" by (auto simp: owned_def w)
  from stale_coordinator_fenced [OF demo_two_reaches demo_late_step this] show ?thesis by simp
qed

end
