(* ===== verification/Residency.thy ===== *)
theory Residency
  imports Prelude Complex_Main
begin

text \<open>
  Registered models and what their observations mean: the entities of
  \<open>src/backend/app/domain/entities/model.py\<close>, \<open>node.py\<close> and \<open>routing_policy.py\<close>, the rules of
  \<open>src/backend/app/domain/services/residency_reconciliation.py\<close>, the selection of
  \<open>routing_service.py\<close> and the budget of \<open>memory_budget_service.py\<close>. Times are microseconds, as a
  \<open>datetime\<close> keeps them; figures in GB are exact rationals, so the rounding of floats is left out.
\<close>

section \<open>Models and nodes\<close>

datatype model_state = MsNotDownloaded | MsDownloading | MsDownloaded | MsLoading | MsLoaded | MsUnloading | MsError

datatype runtime_kind = OllamaKind | MlxKind | VllmKind | LlamacppKind

record registry_model =
  rm_id :: string
  rm_alias :: string
  rm_ref :: string
  rm_runtime :: runtime_kind
  rm_node :: string
  rm_state :: model_state
  rm_memory_gb :: rat
  rm_context :: int
  rm_observed :: "model_state option"
  rm_observed_gb :: "rat option"
  rm_observed_at :: "int option"
  rm_validated :: bool
  rm_digest :: "string option"
  rm_desired :: bool
  rm_version :: int

datatype node_status = NodeOnline | NodeOffline | NodeDegraded

record gpu_node =
  gn_id :: string
  gn_status :: node_status
  gn_total_gb :: rat
  gn_runtimes :: "runtime_kind list"

section \<open>Evidence of residency\<close>

definition seconds :: "int \<Rightarrow> int" where
  "seconds n = n * 1000000"

definition RESIDENCY_MAX_AGE_SECONDS :: int where
  "RESIDENCY_MAX_AGE_SECONDS = 90"

definition REQUIRED_ABSENT_OBSERVATIONS :: nat where
  "REQUIRED_ABSENT_OBSERVATIONS = 2"

definition GIVE_UP_AFTER_WASTED_PASSES :: nat where
  "GIVE_UP_AFTER_WASTED_PASSES = 4"

definition TRANSIENT_STATES :: "model_state list" where
  "TRANSIENT_STATES = [MsDownloading, MsLoading, MsUnloading]"

text \<open>The failed passes before this one decide the wait; the power is capped before the product is.\<close>

definition backoff_seconds :: "nat \<Rightarrow> int" where
  "backoff_seconds failures = (let n = failures - 1 in min (30 * 2 ^ min n 16) (15 * 60))"

definition fresh_at :: "registry_model \<Rightarrow> int \<Rightarrow> bool" where
  "fresh_at m now = (case (rm_observed m, rm_observed_at m) of
     (Some _, Some t) \<Rightarrow> 0 \<le> now - t \<and> now - t \<le> seconds RESIDENCY_MAX_AGE_SECONDS | _ \<Rightarrow> False)"

definition observed_absent :: "registry_model \<Rightarrow> int \<Rightarrow> bool" where
  "observed_absent m now \<longleftrightarrow> fresh_at m now \<and> rm_observed m = Some MsDownloaded"

definition observed_resident :: "registry_model \<Rightarrow> int \<Rightarrow> bool" where
  "observed_resident m now \<longleftrightarrow> fresh_at m now \<and> rm_observed m = Some MsLoaded"

definition effective_state :: "registry_model \<Rightarrow> model_state" where
  "effective_state m = (case rm_observed m of None \<Rightarrow> rm_state m | Some s \<Rightarrow> s)"

definition residency_mismatch :: "registry_model \<Rightarrow> int \<Rightarrow> bool" where
  "residency_mismatch m now =
     (if \<not> rm_desired m then False
      else if rm_runtime m = OllamaKind then \<not> observed_resident m now
      else effective_state m \<noteq> MsLoaded)"

definition restorable :: "registry_model \<Rightarrow> int \<Rightarrow> bool" where
  "restorable m now =
     (if \<not> rm_desired m \<or> rm_runtime m \<noteq> OllamaKind then False
      else \<not> (fresh_at m now \<and> rm_observed m = Some MsNotDownloaded))"

definition restore_before :: "registry_model \<Rightarrow> registry_model \<Rightarrow> bool" where
  "restore_before a b \<longleftrightarrow> rm_memory_gb a > rm_memory_gb b
     \<or> (rm_memory_gb a = rm_memory_gb b \<and> str_le (rm_alias a) (rm_alias b))"

definition restore_queue :: "registry_model list \<Rightarrow> registry_model list" where
  "restore_queue ms = sort_by restore_before ms"

definition charges_memory :: "registry_model \<Rightarrow> int \<Rightarrow> bool" where
  "charges_memory m now =
     (if rm_state m = MsLoading then True
      else if rm_runtime m = OllamaKind \<and> fresh_at m now then rm_observed m = Some MsLoaded
      else rm_state m = MsLoaded \<or> rm_observed m = Some MsLoaded)"

text \<open>\<open>AbsenceEvidence\<close>: per model the capture time last counted, and the count.\<close>

type_synonym evidence = "(string \<times> int \<times> nat) list"

definition record_absence :: "registry_model \<Rightarrow> int \<Rightarrow> evidence \<Rightarrow> nat \<times> evidence" where
  "record_absence m now ev = (case rm_observed_at m of
     None \<Rightarrow> (0, AList.delete (rm_id m) ev)
   | Some t \<Rightarrow>
       if \<not> observed_absent m now then (0, AList.delete (rm_id m) ev)
       else (case map_of ev (rm_id m) of
          None \<Rightarrow> (1, AList.update (rm_id m) (t, 1) ev)
        | Some (t0, c) \<Rightarrow>
            if t0 = t then (c, ev)
            else (let n = (if 0 < t - t0 \<and> t - t0 \<le> seconds RESIDENCY_MAX_AGE_SECONDS then c + 1 else 1)
                  in (n, AList.update (rm_id m) (t, n) ev))))"

definition forget_absence :: "string \<Rightarrow> evidence \<Rightarrow> evidence" where
  "forget_absence i ev = AList.delete i ev"

section \<open>Routing\<close>

record requirement =
  rq_node_status :: "node_status list"
  rq_model_state :: "model_state list"
  rq_min_free_gb :: "rat option"

record candidate =
  cd_alias :: string
  cd_priority :: int
  cd_require :: requirement

record policy =
  po_capability :: string
  po_candidates :: "candidate list"
  po_thinking :: "bool option"

definition rejection :: "requirement \<Rightarrow> registry_model \<Rightarrow> gpu_node \<Rightarrow> rat option \<Rightarrow> int \<Rightarrow> string option" where
  "rejection rq m n free now =
     (if gn_status n \<noteq> NodeOnline then Some ''node_unhealthy''
      else if rq_node_status rq \<noteq> [] \<and> gn_status n \<notin> set (rq_node_status rq) then Some ''node_unhealthy''
      else case (if rm_runtime m = OllamaKind
                 then (case (rm_observed m, rm_observed_at m) of
                        (Some s, Some t) \<Rightarrow>
                          if \<not> (0 \<le> now - t \<and> now - t \<le> seconds RESIDENCY_MAX_AGE_SECONDS) then Some ''residency_stale''
                          else if s \<noteq> MsLoaded then Some ''model_not_resident'' else None
                      | _ \<Rightarrow> Some ''residency_unknown'')
                 else None) of
        Some why \<Rightarrow> Some why
      | None \<Rightarrow>
          if rq_model_state rq \<noteq> [] \<and> effective_state m \<notin> set (rq_model_state rq) then Some ''model_state_mismatch''
          else (case rq_min_free_gb rq of
                  None \<Rightarrow> None
                | Some need \<Rightarrow> (case free of
                    None \<Rightarrow> Some ''insufficient_memory''
                  | Some f \<Rightarrow> if f < need then Some ''insufficient_memory'' else None)))"

text \<open>\<open>select\<close>; None is \<open>NoAvailableModelError\<close>.\<close>

definition acceptable :: "(string \<Rightarrow> registry_model option) \<Rightarrow> (string \<Rightarrow> gpu_node option) \<Rightarrow> (string \<Rightarrow> rat option) \<Rightarrow> int
    \<Rightarrow> candidate \<Rightarrow> registry_model option" where
  "acceptable models nds free now c = (case models (cd_alias c) of
     None \<Rightarrow> None
   | Some m \<Rightarrow> (case nds (rm_node m) of
       None \<Rightarrow> None
     | Some n \<Rightarrow> if rejection (cd_require c) m n (free (gn_id n)) now = None then Some m else None))"

fun first_some :: "('a \<Rightarrow> 'b option) \<Rightarrow> 'a list \<Rightarrow> 'b option" where
  "first_some f [] = None"
| "first_some f (x # xs) = (case f x of None \<Rightarrow> first_some f xs | Some y \<Rightarrow> Some y)"

definition route_select :: "policy \<Rightarrow> (string \<Rightarrow> registry_model option) \<Rightarrow> (string \<Rightarrow> gpu_node option) \<Rightarrow> (string \<Rightarrow> rat option)
    \<Rightarrow> int \<Rightarrow> registry_model option" where
  "route_select p models nds free now =
     first_some (acceptable models nds free now) (sort_by (\<lambda>a b. cd_priority a \<ge> cd_priority b) (po_candidates p))"

section \<open>The memory budget\<close>

definition charge :: "registry_model \<Rightarrow> rat" where
  "charge m = max (rm_memory_gb m) (case rm_observed_gb m of None \<Rightarrow> 0 | Some g \<Rightarrow> g)"

definition in_use :: "string \<Rightarrow> registry_model list \<Rightarrow> rat" where
  "in_use i occupying = sum_list (map charge (filter (\<lambda>m. rm_id m \<noteq> i) occupying))"

text \<open>\<open>assert_can_load\<close>: None, or the required and available figures of the refusal.\<close>

definition cannot_load :: "rat \<Rightarrow> registry_model \<Rightarrow> gpu_node \<Rightarrow> registry_model list \<Rightarrow> rat option \<Rightarrow> (rat \<times> rat) option" where
  "cannot_load headroom target n occupying live =
     (let available = gn_total_gb n * headroom - in_use (rm_id target) occupying; required = rm_memory_gb target in
      if required > available then Some (required, max available 0)
      else case live of
        None \<Rightarrow> None
      | Some f \<Rightarrow> if required > f then Some (required, max f 0) else None)"

end
