(* ===== verification/Reconciler.thy ===== *)
theory Reconciler
  imports Residency Program_Runs
begin

text \<open>
  The residency reconciler, \<open>src/backend/app/application/use_cases/reconcile_residency.py\<close>: a pass as a tree
  of the calls it awaits, with the process-local state (evidence, backoff, intents) passed along. A call
  may raise; the exception carries the state as it was left. The flag and the suspension hook are
  parameters or calls; logging is left out.
\<close>

section \<open>State and calls\<close>

record node_backoff =
  bk_failures :: nat
  bk_until :: "int option"
  bk_wasted :: nat
  bk_gave_up :: bool

definition no_backoff :: node_backoff where
  "no_backoff = \<lparr>bk_failures = 0, bk_until = None, bk_wasted = 0, bk_gave_up = False\<rparr>"

record reconciler =
  rc_evidence :: evidence
  rc_backoff :: "(string \<times> node_backoff) list"
  rc_intents :: "(string \<times> (string \<times> int) set) list"

definition reconciler_init :: reconciler where
  "reconciler_init = \<lparr>rc_evidence = [], rc_backoff = [], rc_intents = []\<rparr>"

record pass_progress =
  pg_restored :: "string list"
  pg_released :: "string list"

definition no_progress :: pass_progress where
  "no_progress = \<lparr>pg_restored = [], pg_released = []\<rparr>"

datatype reconcile_result =
    RIdle | RRestored | RFailed | RBackingOff | RBlocked | RBusy | RUnhealthy | RSuspended | RGaveUp

record pass_outcome =
  oc_node :: string
  oc_result :: reconcile_result
  oc_restored :: "string list"
  oc_released :: "string list"
  oc_reason :: "string option"

datatype rrequest =
    AskSuspended | AskNodes | AskModels string | AskBlocked string | AskNow
  | EnterNode string | LeaveNode string | Restore string | Release string | Observe string

datatype ranswer =
    SayBool bool | SayNodes "gpu_node list" | SayModels "registry_model list" | SayTime int | SayDone | SayRaise string

type_synonym 'a reconciling = "(rrequest, ranswer, string \<times> reconciler, 'a) prog"

definition mistyped :: "ranswer \<Rightarrow> reconciler \<Rightarrow> 'a reconciling" where
  "mistyped r st = Throw (case r of SayRaise x \<Rightarrow> x | _ \<Rightarrow> ''TypeError'', st)"

definition ask_bool :: "reconciler \<Rightarrow> rrequest \<Rightarrow> bool reconciling" where
  "ask_bool st q = Call q (\<lambda>r. case r of SayBool b \<Rightarrow> Ret b | _ \<Rightarrow> mistyped r st)"

definition ask_now :: "reconciler \<Rightarrow> int reconciling" where
  "ask_now st = Call AskNow (\<lambda>r. case r of SayTime t \<Rightarrow> Ret t | _ \<Rightarrow> mistyped r st)"

definition ask_models :: "reconciler \<Rightarrow> string \<Rightarrow> registry_model list reconciling" where
  "ask_models st n = Call (AskModels n) (\<lambda>r. case r of SayModels ms \<Rightarrow> Ret ms | _ \<Rightarrow> mistyped r st)"

definition ask_nodes :: "reconciler \<Rightarrow> gpu_node list reconciling" where
  "ask_nodes st = Call AskNodes (\<lambda>r. case r of SayNodes ns \<Rightarrow> Ret ns | _ \<Rightarrow> mistyped r st)"

text \<open>A call whose exception is caught: the name of the exception's class, or None.\<close>

definition try_call :: "rrequest \<Rightarrow> string option reconciling" where
  "try_call q = Call q (\<lambda>r. case r of SayRaise x \<Rightarrow> Ret (Some x) | _ \<Rightarrow> Ret None)"

definition do_call :: "reconciler \<Rightarrow> rrequest \<Rightarrow> unit reconciling" where
  "do_call st q = Call q (\<lambda>r. case r of SayRaise x \<Rightarrow> Throw (x, st) | _ \<Rightarrow> Ret ())"

section \<open>A failed pass\<close>

definition backoff_of :: "string \<Rightarrow> reconciler \<Rightarrow> node_backoff" where
  "backoff_of n st = (case map_of (rc_backoff st) n of None \<Rightarrow> no_backoff | Some b \<Rightarrow> b)"

definition set_backoff :: "string \<Rightarrow> node_backoff \<Rightarrow> reconciler \<Rightarrow> reconciler" where
  "set_backoff n b st = st\<lparr>rc_backoff := AList.update n b (rc_backoff st)\<rparr>"

definition clear_backoff :: "string \<Rightarrow> reconciler \<Rightarrow> reconciler" where
  "clear_backoff n st = st\<lparr>rc_backoff := AList.delete n (rc_backoff st)\<rparr>"

definition forget_models :: "registry_model list \<Rightarrow> reconciler \<Rightarrow> reconciler" where
  "forget_models ms st = st\<lparr>rc_evidence := fold (\<lambda>m. forget_absence (rm_id m)) ms (rc_evidence st)\<rparr>"

text \<open>The counts after the clock was read: a pass that loaded something and still failed was wasted.\<close>

definition backed_off :: "int \<Rightarrow> pass_progress \<Rightarrow> node_backoff \<Rightarrow> node_backoff" where
  "backed_off now pr b =
     (let wasted = (if pg_restored pr \<noteq> [] then bk_wasted b + 1 else bk_wasted b) in
      b\<lparr>bk_until := Some (now + seconds (backoff_seconds (bk_failures b))), bk_wasted := wasted,
        bk_gave_up := bk_gave_up b \<or> wasted \<ge> GIVE_UP_AFTER_WASTED_PASSES\<rparr>)"

definition fail_pass :: "reconciler \<Rightarrow> string \<Rightarrow> string \<Rightarrow> pass_progress \<Rightarrow> (pass_outcome \<times> reconciler) reconciling" where
  "fail_pass st n reason pr =
     (let b = (backoff_of n st)\<lparr>bk_failures := bk_failures (backoff_of n st) + 1\<rparr>; st1 = set_backoff n b st in
      seq (ask_now st1) (\<lambda>now.
      let st2 = set_backoff n (backed_off now pr b) st1 in
      seq (ask_models st2 n) (\<lambda>ms.
        Ret (\<lparr>oc_node = n, oc_result = RFailed, oc_restored = pg_restored pr, oc_released = pg_released pr,
              oc_reason = Some reason\<rparr>, forget_models ms st2))))"

definition pass_ended :: "string \<Rightarrow> reconcile_result \<Rightarrow> pass_progress \<Rightarrow> string option \<Rightarrow> pass_outcome" where
  "pass_ended n res pr reason =
     \<lparr>oc_node = n, oc_result = res, oc_restored = pg_restored pr, oc_released = pg_released pr, oc_reason = reason\<rparr>"

section \<open>One load\<close>

definition find_model :: "registry_model list \<Rightarrow> string \<Rightarrow> registry_model option" where
  "find_model ms i = List.find (\<lambda>m. rm_id m = i) ms"

type_synonym turn_end = "pass_outcome option \<times> pass_progress \<times> reconciler"

definition stop_pass :: "pass_progress \<Rightarrow> (pass_outcome \<times> reconciler) reconciling \<Rightarrow> turn_end reconciling" where
  "stop_pass pr p = seq p (\<lambda>(oc, st). Ret (Some oc, pr, st))"

text \<open>After a load: withdrawn weights go again, then the node is observed.\<close>

definition after_load :: "reconciler \<Rightarrow> string \<Rightarrow> registry_model \<Rightarrow> pass_progress \<Rightarrow> turn_end reconciling" where
  "after_load st n m pr =
     seq (ask_models st n) (\<lambda>ms.
       let wanted = (case find_model ms (rm_id m) of None \<Rightarrow> False | Some a \<Rightarrow> rm_desired a) in
       if wanted then seq (do_call st (Observe n)) (\<lambda>_. Ret (None, pr, st))
       else seq (try_call (Release (rm_id m))) (\<lambda>x. case x of
         Some why \<Rightarrow> stop_pass pr (fail_pass st n (''release_failed:'' @ why) pr)
       | None \<Rightarrow>
           seq (do_call st (Observe n)) (\<lambda>_. Ret (None, pr\<lparr>pg_released := pg_released pr @ [rm_alias m]\<rparr>, st))))"

definition restore_one :: "reconciler \<Rightarrow> string \<Rightarrow> string \<Rightarrow> pass_progress \<Rightarrow> turn_end reconciling" where
  "restore_one st n i pr =
     seq (ask_bool st AskSuspended) (\<lambda>suspended.
       if suspended then Ret (Some (pass_ended n RSuspended pr None), pr, st)
       else seq (ask_bool st (AskBlocked n)) (\<lambda>blocked.
       if blocked then Ret (Some (pass_ended n RBlocked pr None), pr, st)
       else seq (ask_now st) (\<lambda>now.
       seq (ask_models st n) (\<lambda>ms. case find_model ms i of
         None \<Rightarrow> Ret (None, pr, st)
       | Some m \<Rightarrow>
           if \<not> rm_desired m \<or> observed_resident m now then Ret (None, pr, st)
           else if rm_state m \<in> set TRANSIENT_STATES
           then Ret (Some (pass_ended n RBusy pr (Some ''lifecycle_in_flight'')), pr, st)
           else if \<not> observed_absent m now then stop_pass pr (fail_pass st n ''residency_unobserved'' pr)
           else seq (try_call (Restore (rm_id m))) (\<lambda>x. case x of
             Some why \<Rightarrow> stop_pass pr (fail_pass st n (''load_failed:'' @ why) pr)
           | None \<Rightarrow> after_load st n m (pr\<lparr>pg_restored := pg_restored pr @ [rm_alias m]\<rparr>))))))"

fun restore_each :: "reconciler \<Rightarrow> string \<Rightarrow> registry_model list \<Rightarrow> pass_progress \<Rightarrow> turn_end reconciling" where
  "restore_each st n [] pr = Ret (None, pr, st)"
| "restore_each st n (t # ts) pr =
     seq (restore_one st n (rm_id t) pr) (\<lambda>(stopped, pr', st'). case stopped of
       Some oc \<Rightarrow> Ret (Some oc, pr', st') | None \<Rightarrow> restore_each st' n ts pr')"

text \<open>The rounds of a pass, \<open>k\<close> of them left.\<close>

primrec restore_rounds :: "nat \<Rightarrow> reconciler \<Rightarrow> string \<Rightarrow> registry_model list \<Rightarrow> pass_progress
    \<Rightarrow> (pass_outcome \<times> reconciler) reconciling" where
  "restore_rounds 0 st n queue pr = fail_pass st n ''repair_rounds_exhausted'' pr"
| "restore_rounds (Suc k) st n queue pr =
     seq (restore_each st n queue pr) (\<lambda>(stopped, pr', st'). case stopped of
       Some oc \<Rightarrow> Ret (oc, st')
     | None \<Rightarrow>
         seq (ask_now st') (\<lambda>now.
         seq (ask_models st' n) (\<lambda>ms.
           let missing = filter (\<lambda>m. restorable m now \<and> \<not> observed_resident m now) ms in
           if missing = [] then Ret (pass_ended n RRestored pr' None, clear_backoff n st')
           else restore_rounds k st' n (restore_queue missing) pr')))"

definition restore_node :: "reconciler \<Rightarrow> string \<Rightarrow> registry_model list \<Rightarrow> (pass_outcome \<times> reconciler) reconciling" where
  "restore_node st n queue = restore_rounds (1 + MAX_REPAIR_ROUNDS) st n queue no_progress"

section \<open>A node's pass\<close>

text \<open>The evidence is recorded for every desired model, whether it turns out due or not.\<close>

fun due_models :: "registry_model list \<Rightarrow> int \<Rightarrow> evidence \<Rightarrow> registry_model list \<times> evidence" where
  "due_models [] now ev = ([], ev)"
| "due_models (m # ms) now ev =
     (let (c, ev1) = record_absence m now ev; (rest, ev2) = due_models ms now ev1 in
      (if c \<ge> REQUIRED_ABSENT_OBSERVATIONS \<and> rm_state m \<notin> set TRANSIENT_STATES then m # rest else rest, ev2))"

definition intent_of :: "registry_model list \<Rightarrow> (string \<times> int) set" where
  "intent_of desired = set (map (\<lambda>m. (rm_id m, rm_version m)) desired)"

text \<open>The backoff after a look at the intent and at what is resident.\<close>

definition note_intent :: "string \<Rightarrow> registry_model list \<Rightarrow> int \<Rightarrow> reconciler \<Rightarrow> reconciler" where
  "note_intent n desired now st =
     (let intent = intent_of desired; prior = map_of (rc_intents st) n;
          st1 = st\<lparr>rc_intents := AList.update n intent (rc_intents st)\<rparr>;
          st2 = (if prior \<noteq> None \<and> prior \<noteq> Some intent then clear_backoff n st1 else st1) in
      if \<forall>m \<in> set desired. restorable m now \<longrightarrow> observed_resident m now then clear_backoff n st2 else st2)"

definition held_off :: "string \<Rightarrow> int \<Rightarrow> reconciler \<Rightarrow> reconcile_result option" where
  "held_off n now st = (case map_of (rc_backoff st) n of
     None \<Rightarrow> None
   | Some b \<Rightarrow>
       if bk_gave_up b then Some RGaveUp
       else (case bk_until b of None \<Rightarrow> None | Some t \<Rightarrow> if now < t then Some RBackingOff else None))"

text \<open>\<open>hold\<close>: a held node is let go of on every way out; a failing unlock replaces what was under way.\<close>

definition with_node :: "reconciler \<Rightarrow> string \<Rightarrow> (pass_outcome \<times> reconciler) reconciling \<Rightarrow> (pass_outcome \<times> reconciler) reconciling" where
  "with_node st n p =
     seq (ask_bool st (EnterNode n)) (\<lambda>held.
       if \<not> held then Ret (pass_ended n RBusy no_progress (Some ''held_elsewhere''), st)
       else seq (handle (seq p (\<lambda>x. Ret (Inr x))) (\<lambda>e. Ret (Inl e))) (\<lambda>out.
         let st' = (case out of Inl (_, st') \<Rightarrow> st' | Inr (_, st') \<Rightarrow> st') in
         seq (do_call st' (LeaveNode n)) (\<lambda>_. of_sum id out)))"

text \<open>What the models read at \<open>now\<close> call for: an outcome, or the node's loads.\<close>

definition judge_node :: "reconciler \<Rightarrow> gpu_node \<Rightarrow> int \<Rightarrow> registry_model list \<Rightarrow> (pass_outcome \<times> reconciler) reconciling" where
  "judge_node st node now all =
     (let n = gn_id node; over = (\<lambda>res reason st. Ret (pass_ended n res no_progress reason, st));
          models = filter (\<lambda>m. rm_runtime m = OllamaKind) all;
          desired = filter rm_desired models;
          st1 = note_intent n desired now st in
      case held_off n now st1 of
        Some res \<Rightarrow> over res None st1
      | None \<Rightarrow>
          let st2 = forget_models (filter (\<lambda>m. \<not> rm_desired m) models) st1;
              (due, ev) = due_models desired now (rc_evidence st2);
              st3 = st2\<lparr>rc_evidence := ev\<rparr> in
          if due = [] then over RIdle None st3
          else if gn_status node \<noteq> NodeOnline then over RUnhealthy None st3
          else if \<exists>m \<in> set models. rm_state m \<in> set TRANSIENT_STATES then over RBusy (Some ''lifecycle_in_flight'') st3
          else seq (ask_bool st3 (AskBlocked n)) (\<lambda>blocked.
            if blocked then over RBlocked None st3
            else with_node st3 n (restore_node st3 n (restore_queue due))))"

definition reconcile_node :: "reconciler \<Rightarrow> gpu_node \<Rightarrow> (pass_outcome \<times> reconciler) reconciling" where
  "reconcile_node st node =
     seq (ask_bool st AskSuspended) (\<lambda>suspended.
       if suspended then Ret (pass_ended (gn_id node) RSuspended no_progress None, st)
       else seq (ask_now st) (\<lambda>now. seq (ask_models st (gn_id node)) (judge_node st node now)))"

section \<open>A pass over every node\<close>

fun reconcile_all :: "reconciler \<Rightarrow> gpu_node list \<Rightarrow> (pass_outcome list \<times> reconciler) reconciling" where
  "reconcile_all st [] = Ret ([], st)"
| "reconcile_all st (node # ns) =
     (if OllamaKind \<notin> set (gn_runtimes node) then reconcile_all st ns
      else seq (handle (reconcile_node st node) (\<lambda>(x, st'). fail_pass st' (gn_id node) (''error:'' @ x) no_progress)) (\<lambda>(oc, st').
           seq (reconcile_all st' ns) (\<lambda>(ocs, st''). Ret (oc # ocs, st''))))"

definition run_once :: "bool \<Rightarrow> reconciler \<Rightarrow> (pass_outcome list \<times> reconciler) reconciling" where
  "run_once enabled st =
     (if \<not> enabled then Ret ([], st) else seq (ask_nodes st) (\<lambda>ns. reconcile_all st ns))"

text \<open>\<open>run_residency_reconciler\<close>: \<open>k\<close> wakings of its loop; a pass that raised leaves what it changed and no outcome.\<close>

primrec passes :: "nat \<Rightarrow> bool \<Rightarrow> reconciler \<Rightarrow> (pass_outcome list \<times> reconciler) reconciling" where
  "passes 0 enabled st = Ret ([], st)"
| "passes (Suc k) enabled st =
     seq (handle (run_once enabled st) (\<lambda>(x, st'). Ret ([], st'))) (\<lambda>(ocs, st').
     seq (passes k enabled st') (\<lambda>(ocs', st''). Ret (ocs @ ocs', st'')))"

end
