(* ===== verification/Reconciler_Safety.thy ===== *)
theory Reconciler_Safety
  imports Reconciler
begin

text \<open>
  What the reconciler asks for and when, over every history of answers: the ground of each load and each
  release, the evidence a node is entered on, and the number of loads.
\<close>

type_synonym rhistory = "(rrequest \<times> ranswer) list"

lemma traced_mistyped [simp]: "traced.meets ok duty (mistyped r st) Q E h
    \<longleftrightarrow> E (case r of SayRaise x \<Rightarrow> x | _ \<Rightarrow> ''TypeError'', st) h"
  by (simp add: mistyped_def)

section \<open>The ground of a load\<close>

text \<open>The node is held: entered, and not left since.\<close>

primrec held_after :: "string \<Rightarrow> bool \<Rightarrow> rhistory \<Rightarrow> bool" where
  "held_after n b [] = b"
| "held_after n b (x # h) =
     held_after n (if fst x = EnterNode n then snd x = SayBool True else if fst x = LeaveNode n then False else b) h"

abbreviation held :: "string \<Rightarrow> rhistory \<Rightarrow> bool" where
  "held n \<equiv> held_after n False"

lemma held_append [simp]: "held_after n b (h @ h') = held_after n (held_after n b h) h'"
  by (induction h arbitrary: b) simp_all

definition load_ground :: "string \<Rightarrow> rhistory \<Rightarrow> bool" where
  "load_ground i h \<longleftrightarrow> (\<exists>h' n now ms m.
     h = h' @ [(AskSuspended, SayBool False), (AskBlocked n, SayBool False), (AskNow, SayTime now), (AskModels n, SayModels ms)]
     \<and> held n h' \<and> find_model ms i = Some m \<and> rm_desired m \<and> observed_absent m now \<and> rm_state m \<notin> set TRANSIENT_STATES)"

definition release_ground :: "string \<Rightarrow> rhistory \<Rightarrow> bool" where
  "release_ground i h \<longleftrightarrow> (\<exists>h' n r ms.
     h = h' @ [(Restore i, r), (AskModels n, SayModels ms)] \<and> held n h'
     \<and> (case find_model ms i of None \<Rightarrow> True | Some m \<Rightarrow> \<not> rm_desired m))"

definition grounded :: "rrequest \<Rightarrow> rhistory \<Rightarrow> bool" where
  "grounded q h = (case q of Restore i \<Rightarrow> load_ground i h | Release i \<Rightarrow> release_ground i h | _ \<Rightarrow> True)"

lemma grounded_simps [simp]:
  "grounded AskSuspended h" "grounded AskNodes h" "grounded (AskModels n) h" "grounded (AskBlocked n) h" "grounded AskNow h"
  "grounded (EnterNode n) h" "grounded (LeaveNode n) h" "grounded (Observe n) h"
  "grounded (Restore i) h = load_ground i h" "grounded (Release i) h = release_ground i h"
  by (simp_all add: grounded_def)

text \<open>A part of a pass that runs while the node is held keeps it held, whichever way it ends.\<close>

abbreviation keeps_held :: "string \<Rightarrow> 'a reconciling \<Rightarrow> rhistory \<Rightarrow> bool" where
  "keeps_held n p h \<equiv> traced.meets (\<lambda>q r. True) grounded p (\<lambda>x. held n) (\<lambda>e. held n) h"

lemma fail_pass_held: "held n h \<Longrightarrow> keeps_held n (fail_pass st n' why pr) h"
  by (simp add: fail_pass_def ask_now_def ask_models_def Let_def split: ranswer.splits)

lemma stop_pass_meets [simp]:
  "traced.meets ok duty (stop_pass pr p) Q E h \<longleftrightarrow> traced.meets ok duty p (\<lambda>(oc, st). Q (Some oc, pr, st)) E h"
  by (simp add: stop_pass_def case_prod_unfold)

lemma after_load_held:
  assumes "h \<noteq> []" "fst (last h) = Restore (rm_id m)" "held n (butlast h)"
  shows "keeps_held n (after_load st n m pr) h"
proof -
  obtain h' r where h: "h = h' @ [(Restore (rm_id m), r)]" "held n h'"
    using assms by (metis append_butlast_last_id prod.collapse)
  show ?thesis unfolding h(1) using h(2)
    by (auto simp: after_load_def ask_models_def do_call_def try_call_def release_ground_def Let_def fail_pass_held
        split: ranswer.splits option.splits)
qed

lemma find_model_id: "find_model ms i = Some m \<Longrightarrow> rm_id m = i"
  by (auto simp: find_model_def find_Some_iff)

lemma restore_one_held:
  assumes "held n h"
  shows "keeps_held n (restore_one st n i pr) h"
  using assms
  by (auto simp: restore_one_def ask_bool_def ask_now_def ask_models_def try_call_def fail_pass_held after_load_held
      load_ground_def butlast_append find_model_id split: ranswer.splits option.splits)

text \<open>The rest of a pass follows the same pattern.\<close>

lemma restore_each_held: "held n h \<Longrightarrow> keeps_held n (restore_each st n ts pr) h"
proof (induction ts arbitrary: st pr h)
  case (Cons t ts)
  have "keeps_held n (restore_one st n (rm_id t) pr) h" using restore_one_held Cons.prems .
  then show ?case by (auto elim!: traced.meets_conseq simp: Cons.IH split: option.splits)
qed simp

lemma restore_rounds_held: "held n h \<Longrightarrow> keeps_held n (restore_rounds k st n queue pr) h"
proof (induction k arbitrary: st queue pr h)
  case 0
  then show ?case by (simp add: fail_pass_held)
next
  case (Suc k)
  have "keeps_held n (restore_each st n queue pr) h" using restore_each_held Suc.prems .
  then show ?case
    by (auto elim!: traced.meets_conseq simp: ask_now_def ask_models_def Let_def Suc.IH split: option.splits ranswer.splits)
qed

lemma with_node_grounded:
  "traced.meets (\<lambda>q r. True) grounded (with_node st n (restore_node st n queue)) (\<lambda>_ _. True) (\<lambda>_ _. True) h"
proof -
  have "keeps_held n (restore_node st n queue) (h @ [(EnterNode n, SayBool True)])"
    unfolding restore_node_def by (rule restore_rounds_held) simp
  then have "traced.meets (\<lambda>q r. True) grounded (restore_node st n queue) (\<lambda>_ _. True) (\<lambda>_ _. True) (h @ [(EnterNode n, SayBool True)])"
    by (rule traced.meets_conseq) simp_all
  then show ?thesis
    by (auto simp: with_node_def ask_bool_def do_call_def of_sum_def Let_def elim!: traced.meets_conseq
        split: ranswer.splits sum.splits)
qed

abbreviation well_grounded :: "'a reconciling \<Rightarrow> rhistory \<Rightarrow> bool" where
  "well_grounded p h \<equiv> traced.meets (\<lambda>q r. True) grounded p (\<lambda>_ _. True) (\<lambda>_ _. True) h"

lemma reconcile_node_grounded: "well_grounded (reconcile_node st node) h"
  by (simp add: reconcile_node_def judge_node_def ask_bool_def ask_now_def ask_models_def Let_def with_node_grounded case_prod_unfold
      split: ranswer.splits option.splits)

lemma fail_pass_grounded: "well_grounded (fail_pass st n' why pr) h"
  by (simp add: fail_pass_def ask_now_def ask_models_def Let_def split: ranswer.splits)

lemma reconcile_all_grounded: "well_grounded (reconcile_all st ns) h"
proof (induction ns arbitrary: st h)
  case (Cons node ns st h)
  have rest: "traced.meets (\<lambda>q r. True) grounded (fail_pass st' (gn_id node) why no_progress)
      (\<lambda>x. well_grounded (reconcile_all (snd x) ns)) (\<lambda>_ _. True) t" for st' why t
    by (rule traced.meets_conseq [OF fail_pass_grounded]) (simp_all add: Cons.IH)
  have "traced.meets (\<lambda>q r. True) grounded (reconcile_node st node)
      (\<lambda>x. well_grounded (reconcile_all (snd x) ns))
      (\<lambda>e. traced.meets (\<lambda>q r. True) grounded (fail_pass (snd e) (gn_id node) (''error:'' @ fst e) no_progress)
         (\<lambda>x. well_grounded (reconcile_all (snd x) ns)) (\<lambda>_ _. True)) h"
    by (rule traced.meets_conseq [OF reconcile_node_grounded], rule Cons.IH, rule rest)
  then show ?case using Cons.IH [of st h] by (simp add: case_prod_unfold)
qed simp

lemma passes_grounded: "well_grounded (passes k enabled st) h"
proof (induction k arbitrary: st h)
  case (Suc k st h)
  have "well_grounded (run_once enabled st) h"
    by (simp add: run_once_def ask_nodes_def reconcile_all_grounded split: ranswer.splits)
  then have "traced.meets (\<lambda>q r. True) grounded (run_once enabled st)
      (\<lambda>x. well_grounded (passes k enabled (snd x))) (\<lambda>e. well_grounded (passes k enabled (snd e))) h"
    by (rule traced.meets_conseq) (simp_all only: Suc.IH)
  then show ?case by (simp add: case_prod_unfold)
qed simp

section \<open>The number of loads\<close>

primrec loads :: "rhistory \<Rightarrow> nat" where
  "loads [] = 0"
| "loads (x # h) = (case fst x of Restore i \<Rightarrow> 1 | _ \<Rightarrow> 0) + loads h"

lemma loads_append [simp]: "loads (h @ h') = loads h + loads h'"
  by (induction h) simp_all

definition answers_at_most :: "nat \<Rightarrow> nat \<Rightarrow> rrequest \<Rightarrow> ranswer \<Rightarrow> bool" where
  "answers_at_most N M q r = (case r of SayModels ms \<Rightarrow> length ms \<le> N | SayNodes ns \<Rightarrow> length ns \<le> M | _ \<Rightarrow> True)"

lemma answers_at_most_simps [simp]:
  "answers_at_most N M q (SayModels ms) = (length ms \<le> N)" "answers_at_most N M q (SayNodes ns) = (length ns \<le> M)"
  "answers_at_most N M q (SayBool b)" "answers_at_most N M q (SayTime t)" "answers_at_most N M q SayDone"
  "answers_at_most N M q (SayRaise x)"
  by (simp_all add: answers_at_most_def)

definition loads_within :: "nat \<Rightarrow> rrequest \<Rightarrow> rhistory \<Rightarrow> bool" where
  "loads_within B q h \<longleftrightarrow> loads (h @ [(q, SayDone)]) \<le> B"

lemma loads_within_simps [simp]:
  "loads_within B AskSuspended h = (loads h \<le> B)" "loads_within B AskNodes h = (loads h \<le> B)"
  "loads_within B (AskModels n) h = (loads h \<le> B)" "loads_within B (AskBlocked n) h = (loads h \<le> B)"
  "loads_within B AskNow h = (loads h \<le> B)" "loads_within B (EnterNode n) h = (loads h \<le> B)"
  "loads_within B (LeaveNode n) h = (loads h \<le> B)" "loads_within B (Observe n) h = (loads h \<le> B)"
  "loads_within B (Restore i) h = (Suc (loads h) \<le> B)" "loads_within B (Release i) h = (loads h \<le> B)"
  by (auto simp: loads_within_def)

abbreviation loads_up_to :: "nat \<Rightarrow> nat \<Rightarrow> nat \<Rightarrow> nat \<Rightarrow> 'a reconciling \<Rightarrow> rhistory \<Rightarrow> bool" where
  "loads_up_to N M B c p h \<equiv>
     traced.meets (answers_at_most N M) (loads_within B) p (\<lambda>_ t. loads t \<le> c) (\<lambda>_ t. loads t \<le> c) h"

lemma fail_pass_loads: "loads h \<le> c \<Longrightarrow> c \<le> B \<Longrightarrow> loads_up_to N M B c (fail_pass st n why pr) h"
  by (simp add: fail_pass_def ask_now_def ask_models_def Let_def split: ranswer.splits)

lemma after_load_loads: "loads h \<le> c \<Longrightarrow> c \<le> B \<Longrightarrow> loads_up_to N M B c (after_load st n m pr) h"
  by (auto simp: after_load_def ask_models_def do_call_def try_call_def Let_def fail_pass_loads
      split: ranswer.splits option.splits)

lemma restore_one_loads: "loads h < c \<Longrightarrow> c \<le> B \<Longrightarrow> loads_up_to N M B c (restore_one st n i pr) h"
  by (auto simp: restore_one_def ask_bool_def ask_now_def ask_models_def try_call_def fail_pass_loads after_load_loads
      split: ranswer.splits option.splits)

lemma restore_each_loads:
  "loads h + length ts \<le> c \<Longrightarrow> c \<le> B \<Longrightarrow> loads_up_to N M B c (restore_each st n ts pr) h"
proof (induction ts arbitrary: st pr h c)
  case (Cons t ts)
  have "loads_up_to N M B (Suc (loads h)) (restore_one st n (rm_id t) pr) h"
    using Cons.prems by (intro restore_one_loads) simp_all
  then show ?case using Cons.prems
    by (auto elim!: traced.meets_conseq intro!: Cons.IH split: option.splits)
qed simp

lemma restore_rounds_loads:
  "length queue \<le> N \<Longrightarrow> loads h + k * N \<le> c \<Longrightarrow> c \<le> B \<Longrightarrow> loads_up_to N M B c (restore_rounds k st n queue pr) h"
proof (induction k arbitrary: st queue pr h c)
  case 0
  then show ?case by (simp add: fail_pass_loads)
next
  case (Suc k)
  have each: "loads_up_to N M B (loads h + N) (restore_each st n queue pr) h"
    using Suc.prems by (intro restore_each_loads) simp_all
  have "length (restore_queue (filter P ms)) \<le> N" if "length ms \<le> N" for P ms
    using that le_trans [OF length_filter_le] by (simp add: restore_queue_def)
  with each show ?case using Suc.prems
    by (auto elim!: traced.meets_conseq intro!: Suc.IH simp: ask_now_def ask_models_def Let_def
        split: option.splits ranswer.splits)
qed

lemma due_models_length: "length (fst (due_models ms now ev)) \<le> length ms"
  by (induction ms arbitrary: ev) (auto simp: case_prod_unfold Let_def intro: le_SucI)

lemma with_node_loads:
  assumes "loads_up_to N M B c p (h @ [(EnterNode n, SayBool True)])" "loads h \<le> c" "c \<le> B"
  shows "loads_up_to N M B c (with_node st n p) h"
  using assms
  by (auto simp: with_node_def ask_bool_def do_call_def of_sum_def Let_def elim!: traced.meets_conseq
      split: ranswer.splits sum.splits)

lemma due_queue_length:
  assumes "length ms \<le> N"
  shows "length (restore_queue (fst (due_models (filter P ms) now ev))) \<le> N"
proof -
  have "length (fst (due_models (filter P ms) now ev)) \<le> length (filter P ms)" by (rule due_models_length)
  also have "\<dots> \<le> N" using length_filter_le [of P ms] assms by linarith
  finally show ?thesis by (simp add: restore_queue_def)
qed

lemma reconcile_node_loads:
  assumes "loads h + (1 + MAX_REPAIR_ROUNDS) * N \<le> c" "c \<le> B"
  shows "loads_up_to N M B c (reconcile_node st node) h"
proof -
  have pass: "loads_up_to N M B c (with_node st' n (restore_node st' n queue)) t"
    if "length queue \<le> N" "loads t = loads h" for st' n queue t
    using that assms unfolding restore_node_def by (intro with_node_loads restore_rounds_loads) simp_all
  have small: "loads h \<le> c" using assms by simp
  show ?thesis using assms(2) small
    by (auto simp: reconcile_node_def judge_node_def ask_bool_def ask_now_def ask_models_def Let_def case_prod_unfold
        intro!: pass due_queue_length split: ranswer.splits option.splits)
qed

lemma reconcile_all_loads:
  "loads h + length ns * ((1 + MAX_REPAIR_ROUNDS) * N) \<le> c \<Longrightarrow> c \<le> B \<Longrightarrow> loads_up_to N M B c (reconcile_all st ns) h"
proof (induction ns arbitrary: st h)
  case (Cons node ns st h)
  let ?b = "(1 + MAX_REPAIR_ROUNDS) * N"
  have rest: "loads_up_to N M B c (reconcile_all st' ns) t" if "loads t \<le> loads h + ?b" for st' t
    using Cons.prems that by (intro Cons.IH) simp_all
  have failed: "traced.meets (answers_at_most N M) (loads_within B) (fail_pass st' (gn_id node) why no_progress)
      (\<lambda>x. loads_up_to N M B c (reconcile_all (snd x) ns)) (\<lambda>_ t. loads t \<le> c) t" if "loads t \<le> loads h + ?b" for st' why t
    using that Cons.prems by (rule_tac traced.meets_conseq [OF fail_pass_loads [of t "loads h + ?b"]]) (auto intro: rest)
  have "loads_up_to N M B (loads h + ?b) (reconcile_node st node) h"
    using Cons.prems by (intro reconcile_node_loads) simp_all
  then have "traced.meets (answers_at_most N M) (loads_within B) (reconcile_node st node)
      (\<lambda>x. loads_up_to N M B c (reconcile_all (snd x) ns))
      (\<lambda>e. traced.meets (answers_at_most N M) (loads_within B) (fail_pass (snd e) (gn_id node) (''error:'' @ fst e) no_progress)
         (\<lambda>x. loads_up_to N M B c (reconcile_all (snd x) ns)) (\<lambda>_ t. loads t \<le> c)) h"
    by (rule traced.meets_conseq) (rule rest failed, assumption)+
  then show ?case using rest [of h] Cons.prems by (simp add: case_prod_unfold)
qed simp

lemma passes_loads:
  "loads h + k * (M * ((1 + MAX_REPAIR_ROUNDS) * N)) \<le> c \<Longrightarrow> c \<le> B \<Longrightarrow> loads_up_to N M B c (passes k enabled st) h"
proof (induction k arbitrary: st h)
  case (Suc k st h)
  let ?b = "M * ((1 + MAX_REPAIR_ROUNDS) * N)"
  have rest: "loads_up_to N M B c (passes k enabled st') t" if "loads t \<le> loads h + ?b" for st' t
    using Suc.prems that by (intro Suc.IH) simp_all
  have "loads_up_to N M B (loads h + ?b) (reconcile_all st ns) (h @ [(AskNodes, SayNodes ns)])" if "length ns \<le> M" for ns
    using Suc.prems that by (intro reconcile_all_loads) (simp_all add: mult_le_mono1)
  then have "loads_up_to N M B (loads h + ?b) (run_once enabled st) h"
    using Suc.prems by (auto simp: run_once_def ask_nodes_def split: ranswer.splits)
  then have "traced.meets (answers_at_most N M) (loads_within B) (run_once enabled st)
      (\<lambda>x. loads_up_to N M B c (passes k enabled (snd x))) (\<lambda>e. loads_up_to N M B c (passes k enabled (snd e))) h"
    by (rule traced.meets_conseq) (rule rest, assumption)+
  then show ?case by (simp add: case_prod_unfold)
qed simp

end

