(* ===== verification/Reconciler_Progress.thy ===== *)
theory Reconciler_Progress
  imports Reconciler_Safety
begin

text \<open>
  What the reconciler remembers between its passes: the absences it counted were all read (the evidence),
  and the passes it wasted on an unchanged intent (the backoff).
\<close>

section \<open>The evidence a node is entered on\<close>

definition absent_seen :: "rhistory \<Rightarrow> string \<Rightarrow> int \<Rightarrow> bool" where
  "absent_seen h i t \<longleftrightarrow> (\<exists>h1 now n ms m h2.
     h = h1 @ [(AskNow, SayTime now), (AskModels n, SayModels ms)] @ h2
     \<and> m \<in> set ms \<and> rm_id m = i \<and> rm_desired m \<and> rm_observed_at m = Some t \<and> observed_absent m now)"

definition twice_absent :: "rhistory \<Rightarrow> string \<Rightarrow> bool" where
  "twice_absent h i \<longleftrightarrow> (\<exists>t1 t2. absent_seen h i t1 \<and> absent_seen h i t2 \<and> t1 < t2 \<and> t2 - t1 \<le> seconds RESIDENCY_MAX_AGE_SECONDS)"

lemma absent_seen_append [intro]: "absent_seen h i t \<Longrightarrow> absent_seen (h @ h') i t"
  by (auto simp: absent_seen_def) (metis append.assoc append_Cons)

lemma twice_absent_append [intro]: "twice_absent h i \<Longrightarrow> twice_absent (h @ h') i"
  by (auto simp: twice_absent_def)

definition evidence_read :: "rhistory \<Rightarrow> evidence \<Rightarrow> bool" where
  "evidence_read h ev \<longleftrightarrow> (\<forall>i t c. map_of ev i = Some (t, c) \<longrightarrow>
     absent_seen h i t \<and> (REQUIRED_ABSENT_OBSERVATIONS \<le> c \<longrightarrow> twice_absent h i))"

lemma evidence_read_append [simp, intro]: "evidence_read h ev \<Longrightarrow> evidence_read (h @ h') ev"
  by (auto simp: evidence_read_def)

lemma evidence_read_Nil [simp]: "evidence_read h []"
  by (simp add: evidence_read_def)

lemma evidence_read_delete: "evidence_read h ev \<Longrightarrow> evidence_read h (AList.delete i ev)"
  by (auto simp: evidence_read_def delete_conv' split: if_splits)

lemma evidence_read_forget [simp, intro]: "evidence_read h (rc_evidence st) \<Longrightarrow> evidence_read h (rc_evidence (forget_models ms st))"
proof -
  have "evidence_read h ev \<Longrightarrow> evidence_read h (fold (\<lambda>m. forget_absence (rm_id m)) ms ev)" for ev
    by (induction ms arbitrary: ev) (simp_all add: forget_absence_def evidence_read_delete)
  then show "evidence_read h (rc_evidence st) \<Longrightarrow> ?thesis" by (simp add: forget_models_def)
qed

lemma evidence_kept [simp]:
  "rc_evidence (set_backoff n b st) = rc_evidence st" "rc_evidence (clear_backoff n st) = rc_evidence st"
  "rc_evidence (note_intent n ms now st) = rc_evidence st"
  by (simp_all add: set_backoff_def clear_backoff_def note_intent_def Let_def)

lemma evidence_read_update:
  "evidence_read h ev \<Longrightarrow> absent_seen h i t \<Longrightarrow> (REQUIRED_ABSENT_OBSERVATIONS \<le> c \<Longrightarrow> twice_absent h i)
     \<Longrightarrow> evidence_read h (AList.update i (t, c) ev)"
  by (auto simp: evidence_read_def update_conv')

text \<open>Recording a model that was just read keeps the evidence true, and a count that suffices is two absences.\<close>

lemma record_absence_read:
  assumes ev: "evidence_read h ev"
    and read: "\<And>t. rm_observed_at m = Some t \<Longrightarrow> observed_absent m now \<Longrightarrow> absent_seen h (rm_id m) t"
  shows "evidence_read h (snd (record_absence m now ev))
    \<and> (REQUIRED_ABSENT_OBSERVATIONS \<le> fst (record_absence m now ev) \<longrightarrow> twice_absent h (rm_id m) \<and> observed_absent m now)"
proof (cases "\<exists>t. rm_observed_at m = Some t \<and> observed_absent m now")
  case False
  then show ?thesis using ev
    by (auto simp: record_absence_def evidence_read_delete REQUIRED_ABSENT_OBSERVATIONS_def split: option.split)
next
  case True
  then obtain t where t: "rm_observed_at m = Some t" "observed_absent m now" "absent_seen h (rm_id m) t" using read by blast
  show ?thesis
  proof (cases "map_of ev (rm_id m)")
    case None
    then show ?thesis using t ev by (auto simp: record_absence_def REQUIRED_ABSENT_OBSERVATIONS_def intro!: evidence_read_update)
  next
    case (Some y)
    then obtain t0 c where y: "map_of ev (rm_id m) = Some (t0, c)" by (cases y) simp
    then have t0: "absent_seen h (rm_id m) t0" "REQUIRED_ABSENT_OBSERVATIONS \<le> c \<Longrightarrow> twice_absent h (rm_id m)"
      using ev by (auto simp: evidence_read_def)
    have two: "twice_absent h (rm_id m)" if "0 < t - t0" "t - t0 \<le> seconds RESIDENCY_MAX_AGE_SECONDS"
      using t(3) t0(1) that by (auto simp: twice_absent_def)
    show ?thesis using t t0 y ev two
      by (auto simp: record_absence_def Let_def REQUIRED_ABSENT_OBSERVATIONS_def intro!: evidence_read_update)
  qed
qed

lemma due_models_read:
  assumes "evidence_read h ev" "\<And>m t. m \<in> set ms \<Longrightarrow> rm_observed_at m = Some t \<Longrightarrow> observed_absent m now \<Longrightarrow> absent_seen h (rm_id m) t"
  shows "evidence_read h (snd (due_models ms now ev))
    \<and> (\<forall>m \<in> set (fst (due_models ms now ev)). m \<in> set ms \<and> twice_absent h (rm_id m) \<and> observed_absent m now)"
  using assms
proof (induction ms arbitrary: ev)
  case (Cons m ms)
  let ?r = "record_absence m now ev"
  have r: "evidence_read h (snd ?r) \<and> (REQUIRED_ABSENT_OBSERVATIONS \<le> fst ?r \<longrightarrow> twice_absent h (rm_id m) \<and> observed_absent m now)"
    using Cons.prems by (intro record_absence_read) simp_all
  then have "evidence_read h (snd (due_models ms now (snd ?r)))
      \<and> (\<forall>m' \<in> set (fst (due_models ms now (snd ?r))). m' \<in> set ms \<and> twice_absent h (rm_id m') \<and> observed_absent m' now)"
    using Cons.prems by (intro Cons.IH) simp_all
  then show ?case using r by (auto simp: case_prod_unfold Let_def)
qed simp

text \<open>The duty of entering a node, and the state a tree leaves.\<close>

definition entry_ground :: "string \<Rightarrow> rhistory \<Rightarrow> bool" where
  "entry_ground n h \<longleftrightarrow> (\<exists>h' now ms m.
     h = h' @ [(AskNow, SayTime now), (AskModels n, SayModels ms), (AskBlocked n, SayBool False)]
     \<and> m \<in> set ms \<and> rm_desired m \<and> rm_runtime m = OllamaKind \<and> observed_absent m now \<and> twice_absent h (rm_id m)
     \<and> (\<forall>m' \<in> set ms. rm_runtime m' = OllamaKind \<longrightarrow> rm_state m' \<notin> set TRANSIENT_STATES))"

definition enters_on_ground :: "rrequest \<Rightarrow> rhistory \<Rightarrow> bool" where
  "enters_on_ground q h = (case q of EnterNode n \<Rightarrow> entry_ground n h | _ \<Rightarrow> True)"

lemma enters_on_ground_simps [simp]:
  "enters_on_ground AskSuspended h" "enters_on_ground AskNodes h" "enters_on_ground (AskModels n) h" "enters_on_ground (AskBlocked n) h"
  "enters_on_ground AskNow h" "enters_on_ground (EnterNode n) h = entry_ground n h" "enters_on_ground (LeaveNode n) h"
  "enters_on_ground (Observe n) h" "enters_on_ground (Restore i) h" "enters_on_ground (Release i) h"
  by (simp_all add: enters_on_ground_def)

abbreviation true_evidence :: "rhistory \<Rightarrow> reconciler \<Rightarrow> bool" where
  "true_evidence h st \<equiv> evidence_read h (rc_evidence st)"

abbreviation evident :: "('a \<Rightarrow> reconciler) \<Rightarrow> 'a reconciling \<Rightarrow> rhistory \<Rightarrow> bool" where
  "evident get p h \<equiv> traced.meets (\<lambda>q r. True) enters_on_ground p (\<lambda>x t. true_evidence t (get x)) (\<lambda>e t. true_evidence t (snd e)) h"

lemma fail_pass_evident: "true_evidence h st \<Longrightarrow> evident snd (fail_pass st n why pr) h"
  by (auto simp: fail_pass_def ask_now_def ask_models_def Let_def split: ranswer.splits)

lemma after_load_evident: "true_evidence h st \<Longrightarrow> evident (snd \<circ> snd) (after_load st n m pr) h"
  by (auto simp: after_load_def ask_models_def do_call_def try_call_def Let_def case_prod_unfold
      intro!: traced.meets_conseq [OF fail_pass_evident] split: ranswer.splits option.splits)

lemma restore_one_evident: "true_evidence h st \<Longrightarrow> evident (snd \<circ> snd) (restore_one st n i pr) h"
  by (auto simp: restore_one_def ask_bool_def ask_now_def ask_models_def try_call_def case_prod_unfold
      intro!: traced.meets_conseq [OF fail_pass_evident] after_load_evident [unfolded comp_def] split: ranswer.splits option.splits)

lemma restore_each_evident: "true_evidence h st \<Longrightarrow> evident (snd \<circ> snd) (restore_each st n ts pr) h"
proof (induction ts arbitrary: st pr h)
  case (Cons t ts st pr h)
  from restore_one_evident [OF Cons.prems, of n "rm_id t" pr] show ?case
    by (auto elim!: traced.meets_conseq intro!: Cons.IH [unfolded comp_def] split: option.splits)
qed simp

lemma restore_rounds_evident: "true_evidence h st \<Longrightarrow> evident snd (restore_rounds k st n queue pr) h"
proof (induction k arbitrary: st queue pr h)
  case 0
  then show ?case by (simp add: fail_pass_evident)
next
  case (Suc k st queue pr h)
  from restore_each_evident [OF Suc.prems, of n queue pr] show ?case
    by (auto elim!: traced.meets_conseq intro!: Suc.IH simp: ask_now_def ask_models_def Let_def
        split: option.splits ranswer.splits)
qed

lemma with_node_evident:
  assumes "entry_ground n h" "true_evidence h st" "\<And>t. true_evidence t st \<Longrightarrow> evident snd p t"
  shows "evident snd (with_node st n p) h"
proof -
  have "evident snd p (h @ [(EnterNode n, SayBool True)])" using assms(2) by (intro assms(3)) simp
  then show ?thesis using assms(1,2)
    by (auto simp: with_node_def ask_bool_def do_call_def of_sum_def Let_def case_prod_unfold elim!: traced.meets_conseq
      split: ranswer.splits sum.splits)
qed

text \<open>A due model, read with the others of its node, is the ground the node is entered on.\<close>

lemma entered_for_due:
  assumes "m \<in> set all" "rm_desired m" "rm_runtime m = OllamaKind" "observed_absent m now"
    and "twice_absent (h @ [(AskNow, SayTime now), (AskModels n, SayModels all)]) (rm_id m)"
    and "\<forall>m' \<in> set all. rm_runtime m' = OllamaKind \<longrightarrow> rm_state m' \<notin> set TRANSIENT_STATES"
  shows "entry_ground n (h @ [(AskNow, SayTime now), (AskModels n, SayModels all), (AskBlocked n, SayBool False)])"
proof -
  from twice_absent_append [OF assms(5), of "[(AskBlocked n, SayBool False)]"]
  show ?thesis using assms(1-4,6) unfolding entry_ground_def
    by (intro exI [of _ h] exI [of _ now] exI [of _ all] exI [of _ m]) simp
qed

text \<open>The names of what a look at a node computes.\<close>

definition desired_in :: "registry_model list \<Rightarrow> registry_model list" where
  "desired_in all = filter rm_desired (filter (\<lambda>m. rm_runtime m = OllamaKind) all)"

definition noted :: "reconciler \<Rightarrow> string \<Rightarrow> int \<Rightarrow> registry_model list \<Rightarrow> reconciler" where
  "noted st n now all = note_intent n (desired_in all) now st"

definition undesired_forgotten :: "reconciler \<Rightarrow> string \<Rightarrow> int \<Rightarrow> registry_model list \<Rightarrow> reconciler" where
  "undesired_forgotten st n now all =
     forget_models (filter (\<lambda>m. \<not> rm_desired m) (filter (\<lambda>m. rm_runtime m = OllamaKind) all)) (noted st n now all)"

definition due_in :: "reconciler \<Rightarrow> string \<Rightarrow> int \<Rightarrow> registry_model list \<Rightarrow> registry_model list" where
  "due_in st n now all = fst (due_models (desired_in all) now (rc_evidence (undesired_forgotten st n now all)))"

definition recorded_at :: "reconciler \<Rightarrow> string \<Rightarrow> int \<Rightarrow> registry_model list \<Rightarrow> reconciler" where
  "recorded_at st n now all = (undesired_forgotten st n now all)
     \<lparr>rc_evidence := snd (due_models (desired_in all) now (rc_evidence (undesired_forgotten st n now all)))\<rparr>"

lemma recorded_evidence:
  "rc_evidence (recorded_at st n now all) = snd (due_models (desired_in all) now (rc_evidence (undesired_forgotten st n now all)))"
  by (simp add: recorded_at_def)

lemma judge_node_split:
  "judge_node st node now all = (case held_off (gn_id node) now (noted st (gn_id node) now all) of
     Some res \<Rightarrow> Ret (pass_ended (gn_id node) res no_progress None, noted st (gn_id node) now all)
   | None \<Rightarrow>
       let n = gn_id node; st3 = recorded_at st n now all; due = due_in st n now all in
       if due = [] then Ret (pass_ended n RIdle no_progress None, st3)
       else if gn_status node \<noteq> NodeOnline then Ret (pass_ended n RUnhealthy no_progress None, st3)
       else if \<exists>m \<in> set all. rm_runtime m = OllamaKind \<and> rm_state m \<in> set TRANSIENT_STATES
       then Ret (pass_ended n RBusy no_progress (Some ''lifecycle_in_flight''), st3)
       else seq (ask_bool st3 (AskBlocked n)) (\<lambda>blocked.
         if blocked then Ret (pass_ended n RBlocked no_progress None, st3)
         else with_node st3 n (restore_node st3 n (restore_queue due))))"
proof -
  have "(\<exists>m \<in> set (filter (\<lambda>m. rm_runtime m = OllamaKind) all). rm_state m \<in> set TRANSIENT_STATES)
      \<longleftrightarrow> (\<exists>m \<in> set all. rm_runtime m = OllamaKind \<and> rm_state m \<in> set TRANSIENT_STATES)" by auto
  then show ?thesis
    by (simp only: judge_node_def Let_def case_prod_unfold desired_in_def noted_def undesired_forgotten_def due_in_def recorded_at_def)
qed

lemma judge_node_evident:
  assumes "true_evidence h st"
  shows "evident snd (judge_node st node now all) (h @ [(AskNow, SayTime now), (AskModels (gn_id node), SayModels all)])"
proof -
  define n where "n = gn_id node"
  define t where "t = h @ [(AskNow, SayTime now), (AskModels n, SayModels all)]"
  define due where "due = due_in st n now all"
  define st3 where "st3 = recorded_at st n now all"
  have seen: "absent_seen t (rm_id m) w" if "m \<in> set (desired_in all)" "rm_observed_at m = Some w" "observed_absent m now" for m w
    using that unfolding absent_seen_def t_def desired_in_def
    by (intro exI [of _ h] exI [of _ now] exI [of _ n] exI [of _ all] exI [of _ m] exI [of _ "[]"]) auto
  have kept: "true_evidence t (noted st n now all)" using assms by (simp add: t_def noted_def)
  then have ev: "true_evidence t (undesired_forgotten st n now all)" by (simp add: undesired_forgotten_def)
  have r: "evidence_read t (rc_evidence st3)
      \<and> (\<forall>m \<in> set due. m \<in> set (desired_in all) \<and> twice_absent t (rm_id m) \<and> observed_absent m now)"
    unfolding due_def due_in_def st3_def recorded_evidence
    by (rule due_models_read [OF ev]) (rule seen)
  have enter: "evident snd (with_node st3 n (restore_node st3 n (restore_queue due))) (t @ [(AskBlocked n, SayBool False)])"
    if "due \<noteq> []" "\<forall>m' \<in> set all. rm_runtime m' = OllamaKind \<longrightarrow> rm_state m' \<notin> set TRANSIENT_STATES"
  proof -
    obtain m where "m \<in> set due" using \<open>due \<noteq> []\<close> by (meson hd_in_set)
    with r that(2) have "entry_ground n (t @ [(AskBlocked n, SayBool False)])"
      unfolding t_def desired_in_def append_assoc append_Cons append_Nil by (intro entered_for_due [of m]) auto
    then show ?thesis using r unfolding restore_node_def
      by (intro with_node_evident restore_rounds_evident) simp_all
  qed
  have "evident snd (judge_node st node now all) t"
    unfolding judge_node_split Let_def n_def [symmetric] due_def [symmetric] st3_def [symmetric] using kept r enter
    by (auto simp: ask_bool_def split: option.splits ranswer.splits)
  then show ?thesis by (simp add: t_def n_def)
qed

lemma reconcile_node_evident: "true_evidence h st \<Longrightarrow> evident snd (reconcile_node st node) h"
  using judge_node_evident [of "h @ [(AskSuspended, SayBool False)]" st node]
  by (auto simp: reconcile_node_def ask_bool_def ask_now_def ask_models_def split: ranswer.splits)

lemma reconcile_all_evident: "true_evidence h st \<Longrightarrow> evident snd (reconcile_all st ns) h"
proof (induction ns arbitrary: st h)
  case (Cons node ns st h)
  have failed: "traced.meets (\<lambda>q r. True) enters_on_ground (fail_pass st' (gn_id node) why no_progress)
      (\<lambda>x. evident snd (reconcile_all (snd x) ns)) (\<lambda>e t. true_evidence t (snd e)) t" if "true_evidence t st'" for st' why t
    by (rule traced.meets_conseq [OF fail_pass_evident [OF that]]) (rule Cons.IH, assumption+)
  have "traced.meets (\<lambda>q r. True) enters_on_ground (reconcile_node st node)
      (\<lambda>x. evident snd (reconcile_all (snd x) ns))
      (\<lambda>e. traced.meets (\<lambda>q r. True) enters_on_ground (fail_pass (snd e) (gn_id node) (''error:'' @ fst e) no_progress)
         (\<lambda>x. evident snd (reconcile_all (snd x) ns)) (\<lambda>e t. true_evidence t (snd e))) h"
    by (rule traced.meets_conseq [OF reconcile_node_evident [OF Cons.prems]], rule Cons.IH, assumption, rule failed, assumption)
  then show ?case using Cons.IH [of h st] Cons.prems by (simp add: case_prod_unfold)
qed simp

lemma passes_evident: "true_evidence h st \<Longrightarrow> evident snd (passes k enabled st) h"
proof (induction k arbitrary: st h)
  case (Suc k st h)
  have "evident snd (run_once enabled st) h"
    using Suc.prems by (auto simp: run_once_def ask_nodes_def intro!: reconcile_all_evident split: ranswer.splits)
  then have "traced.meets (\<lambda>q r. True) enters_on_ground (run_once enabled st)
      (\<lambda>x. evident snd (passes k enabled (snd x))) (\<lambda>e. evident snd (passes k enabled (snd e))) h"
    by (rule traced.meets_conseq) (rule Suc.IH, assumption)+
  then show ?case by (simp add: case_prod_unfold)
qed simp

section \<open>Passes that loaded and failed\<close>

definition wasted_on :: "string \<Rightarrow> reconciler \<Rightarrow> nat" where
  "wasted_on n st = bk_wasted (backoff_of n st)"

definition wasted_outcome :: "string \<Rightarrow> pass_outcome \<Rightarrow> bool" where
  "wasted_outcome n oc \<longleftrightarrow> oc_node oc = n \<and> oc_result oc = RFailed \<and> oc_restored oc \<noteq> []"

definition count_wasted :: "string \<Rightarrow> pass_outcome list \<Rightarrow> nat" where
  "count_wasted n ocs = length (filter (wasted_outcome n) ocs)"

lemma count_wasted_simps [simp]:
  "count_wasted n [] = 0" "count_wasted n (oc # ocs) = (if wasted_outcome n oc then 1 else 0) + count_wasted n ocs"
  "count_wasted n (ocs @ ocs') = count_wasted n ocs + count_wasted n ocs'"
  by (simp_all add: count_wasted_def)

text \<open>The listings of a node whose intent stays as it is, with a wanted model observed neither loaded nor without weights.\<close>

definition intent_in :: "registry_model list \<Rightarrow> (string \<times> int) set" where
  "intent_in all = intent_of (desired_in all)"

definition stuck :: "registry_model list \<Rightarrow> bool" where
  "stuck all \<longleftrightarrow> (\<exists>m \<in> set all. rm_desired m \<and> rm_runtime m = OllamaKind
     \<and> rm_observed m \<noteq> Some MsLoaded \<and> rm_observed m \<noteq> Some MsNotDownloaded)"

definition stuck_answers :: "string \<Rightarrow> (string \<times> int) set \<Rightarrow> rrequest \<Rightarrow> ranswer \<Rightarrow> bool" where
  "stuck_answers n intent q r = (case r of SayModels ms \<Rightarrow> q = AskModels n \<longrightarrow> intent_in ms = intent \<and> stuck ms | _ \<Rightarrow> True)"

lemma stuck_answers_simps [simp]:
  "stuck_answers n i (AskModels n') (SayModels ms) = (n' = n \<longrightarrow> intent_in ms = i \<and> stuck ms)"
  "stuck_answers n i q (SayBool b)" "stuck_answers n i q (SayNodes ns)" "stuck_answers n i q (SayTime t)"
  "stuck_answers n i q SayDone" "stuck_answers n i q (SayRaise x)"
  by (simp_all add: stuck_answers_def)

text \<open>What the reconciler knows of the node: given up exactly after enough wasted passes, and no other intent.\<close>

definition wasted_inv :: "string \<Rightarrow> (string \<times> int) set \<Rightarrow> reconciler \<Rightarrow> bool" where
  "wasted_inv n intent st \<longleftrightarrow> (bk_gave_up (backoff_of n st) \<longleftrightarrow> wasted_on n st \<ge> GIVE_UP_AFTER_WASTED_PASSES)
     \<and> map_of (rc_intents st) n \<in> {None, Some intent}"

lemma backoff_of_set [simp]: "backoff_of n (set_backoff n' b st) = (if n = n' then b else backoff_of n st)"
  by (simp add: backoff_of_def set_backoff_def update_conv')

lemma backoff_of_clear [simp]: "n \<noteq> n' \<Longrightarrow> backoff_of n (clear_backoff n' st) = backoff_of n st"
  by (simp add: backoff_of_def clear_backoff_def delete_conv')

lemma rest_kept [simp]:
  "rc_intents (set_backoff n' b st) = rc_intents st" "rc_intents (clear_backoff n' st) = rc_intents st"
  "rc_intents (forget_models ms st) = rc_intents st" "backoff_of n (forget_models ms st) = backoff_of n st"
  "backoff_of n (rc_evidence_update f st) = backoff_of n st"
  by (simp_all add: set_backoff_def clear_backoff_def forget_models_def backoff_of_def)

abbreviation stuck_meets :: "string \<Rightarrow> (string \<times> int) set \<Rightarrow> 'a reconciling \<Rightarrow> ('a \<Rightarrow> bool) \<Rightarrow> (string \<times> reconciler \<Rightarrow> bool) \<Rightarrow> rhistory \<Rightarrow> bool" where
  "stuck_meets n i p Q E h \<equiv> traced.meets (stuck_answers n i) (\<lambda>_ _. True) p (\<lambda>x _. Q x) (\<lambda>e _. E e) h"

definition counted :: "string \<Rightarrow> (string \<times> int) set \<Rightarrow> string \<Rightarrow> reconciler \<Rightarrow> pass_outcome \<times> reconciler \<Rightarrow> bool" where
  "counted n i n' st x \<longleftrightarrow> oc_node (fst x) = n' \<and> wasted_inv n i (snd x)
     \<and> wasted_on n (snd x) = wasted_on n st + (if wasted_outcome n (fst x) then 1 else 0)"

definition left_at :: "string \<Rightarrow> (string \<times> int) set \<Rightarrow> string \<Rightarrow> reconciler \<Rightarrow> string \<times> reconciler \<Rightarrow> bool" where
  "left_at n i n' st e \<longleftrightarrow> wasted_inv n i (snd e) \<and> wasted_on n st \<le> wasted_on n (snd e)
     \<and> wasted_on n (snd e) \<le> wasted_on n st + (if n' = n then 1 else 0)"

lemma fail_pass_counted:
  assumes "wasted_inv n i st"
  shows "stuck_meets n i (fail_pass st n' why pr) (counted n i n' st) (left_at n i n' st) h"
  using assms
  by (auto simp: fail_pass_def ask_now_def ask_models_def Let_def counted_def left_at_def wasted_inv_def wasted_on_def
      wasted_outcome_def backed_off_def mistyped_def split: ranswer.splits)

lemma counted_same [simp]:
  "wasted_inv n i st \<Longrightarrow> oc_result oc \<noteq> RFailed \<Longrightarrow> oc_node oc = n' \<Longrightarrow> counted n i n' st (oc, st)"
  by (simp add: counted_def wasted_outcome_def)

lemma left_same [simp]: "wasted_inv n i st \<Longrightarrow> left_at n i n' st (x, st)"
  by (simp add: left_at_def)

definition turn_counted :: "string \<Rightarrow> (string \<times> int) set \<Rightarrow> string \<Rightarrow> reconciler \<Rightarrow> turn_end \<Rightarrow> bool" where
  "turn_counted n i n' st x = (case x of (None, _, st') \<Rightarrow> st' = st | (Some oc, _, st') \<Rightarrow> counted n i n' st (oc, st'))"

lemma turn_counted_simps [simp]:
  "turn_counted n i n' st (None, pr, st') = (st' = st)" "turn_counted n i n' st (Some oc, pr, st') = counted n i n' st (oc, st')"
  by (simp_all add: turn_counted_def)

lemma turn_countedE:
  assumes "turn_counted n i n' st x"
  obtains pr where "x = (None, pr, st)" | oc pr st' where "x = (Some oc, pr, st')" "counted n i n' st (oc, st')"
  using assms by (cases x) (auto simp: turn_counted_def split: option.splits)

lemma pass_ended_result [simp]: "oc_result (pass_ended n res pr why) = res" "oc_node (pass_ended n res pr why) = n"
  by (simp_all add: pass_ended_def)

lemma after_load_counted:
  "wasted_inv n i st \<Longrightarrow> stuck_meets n i (after_load st n' m pr) (turn_counted n i n' st) (left_at n i n' st) h"
  by (auto simp: after_load_def ask_models_def do_call_def try_call_def Let_def case_prod_unfold fail_pass_counted
      split: ranswer.splits option.splits)

lemma restore_one_counted:
  "wasted_inv n i st \<Longrightarrow> stuck_meets n i (restore_one st n' j pr) (turn_counted n i n' st) (left_at n i n' st) h"
  by (auto simp: restore_one_def ask_bool_def ask_now_def ask_models_def try_call_def case_prod_unfold fail_pass_counted
      after_load_counted split: ranswer.splits option.splits)

lemma restore_each_counted:
  "wasted_inv n i st \<Longrightarrow> stuck_meets n i (restore_each st n' ts pr) (turn_counted n i n' st) (left_at n i n' st) h"
proof (induction ts arbitrary: pr h)
  case (Cons t ts pr h)
  from restore_one_counted [OF Cons.prems, of n' "rm_id t" pr h] show ?case
    unfolding restore_each.simps traced_seq
    by (rule traced.meets_conseq) (use Cons.prems in \<open>auto elim!: turn_countedE intro!: Cons.IH\<close>)
qed simp

lemma stuck_missing: "stuck ms \<Longrightarrow> filter (\<lambda>m. restorable m now \<and> \<not> observed_resident m now) ms \<noteq> []"
  by (auto simp: stuck_def restorable_def observed_resident_def filter_empty_conv)

lemma restore_rounds_counted:
  "wasted_inv n i st \<Longrightarrow> stuck_meets n i (restore_rounds k st n' queue pr) (counted n i n' st) (left_at n i n' st) h"
proof (induction k arbitrary: queue pr h)
  case 0
  then show ?case by (simp add: fail_pass_counted)
next
  case (Suc k queue pr h)
  have cleared: "counted n i n' st (pass_ended n' RRestored pr' None, clear_backoff n' st)" if "n' \<noteq> n" for pr'
    using Suc.prems that by (simp add: counted_def wasted_outcome_def wasted_inv_def wasted_on_def)
  from restore_each_counted [OF Suc.prems, of n' queue pr h] show ?case
    unfolding restore_rounds.simps traced_seq
    by (rule traced.meets_conseq)
      (use Suc.prems in \<open>auto elim!: turn_countedE simp: ask_now_def ask_models_def Let_def stuck_missing
        intro!: Suc.IH cleared split: ranswer.splits\<close>)
qed

lemma with_node_counted:
  assumes "wasted_inv n i st" "\<And>t. stuck_meets n i p (counted n i n' st) (left_at n i n' st) t"
  shows "stuck_meets n i (with_node st n' p) (counted n i n' st) (left_at n i n' st) h"
proof -
  have fin: "left_at n i n' st (x, st')" if "counted n i n' st (oc, st')" for x oc st'
    using that by (auto simp: counted_def left_at_def wasted_outcome_def)
  have "stuck_meets n i p (counted n i n' st) (left_at n i n' st) (h @ [(EnterNode n', SayBool True)])" by (rule assms(2))
  then show ?thesis
    using assms(1) fin
    by (auto simp: with_node_def ask_bool_def do_call_def of_sum_def Let_def case_prod_unfold mistyped_def left_at_def elim!: traced.meets_conseq
      split: ranswer.splits sum.splits)
qed

text \<open>A node's pass, on a list that leaves the intent and the backoff as they were.\<close>

lemma note_intent_other: "n' \<noteq> n \<Longrightarrow> backoff_of n (note_intent n' ms now st) = backoff_of n st
    \<and> map_of (rc_intents (note_intent n' ms now st)) n = map_of (rc_intents st) n"
  by (simp add: note_intent_def Let_def backoff_of_def clear_backoff_def update_conv' delete_conv')

lemma note_intent_same:
  assumes "wasted_inv n i st" "intent_in all = i" "stuck all"
  shows "backoff_of n (noted st n now all) = backoff_of n st \<and> map_of (rc_intents (noted st n now all)) n = Some i"
proof -
  obtain m where m: "m \<in> set all" "rm_desired m" "rm_runtime m = OllamaKind" "rm_observed m \<noteq> Some MsLoaded"
      "rm_observed m \<noteq> Some MsNotDownloaded"
    using assms(3) by (auto simp: stuck_def)
  then have "restorable m now \<and> \<not> observed_resident m now"
    by (simp add: restorable_def observed_resident_def)
  with m have missing: "\<not> (\<forall>m \<in> set (desired_in all). restorable m now \<longrightarrow> observed_resident m now)"
    by (auto simp: desired_in_def)
  have "map_of (rc_intents st) n = None \<or> map_of (rc_intents st) n = Some i"
    using assms(1) by (auto simp: wasted_inv_def)
  then show ?thesis unfolding noted_def note_intent_def Let_def if_not_P [OF missing]
    using assms(2) by (auto simp: intent_in_def backoff_of_def update_conv')
qed

definition wasted_up_to :: "string \<Rightarrow> (string \<times> int) set \<Rightarrow> reconciler \<Rightarrow> nat \<Rightarrow> reconciler \<Rightarrow> bool" where
  "wasted_up_to n i st c st' \<longleftrightarrow> wasted_inv n i st' \<and> wasted_on n st + c \<le> wasted_on n st'
     \<and> wasted_on n st' \<le> GIVE_UP_AFTER_WASTED_PASSES"

abbreviation node_counted :: "string \<Rightarrow> (string \<times> int) set \<Rightarrow> reconciler \<Rightarrow> (pass_outcome \<times> reconciler) reconciling \<Rightarrow> rhistory \<Rightarrow> bool" where
  "node_counted n i st p h \<equiv> stuck_meets n i p
     (\<lambda>x. wasted_up_to n i st (count_wasted n [fst x]) (snd x)) (\<lambda>e. wasted_up_to n i st 0 (snd e)) h"

lemma node_counted_pass:
  assumes "wasted_inv n i st" "wasted_on n st \<le> GIVE_UP_AFTER_WASTED_PASSES"
    and "held_off n' now st = None"
  shows "node_counted n i st (with_node st n' (restore_node st n' queue)) h"
proof -
  have room: "n' = n \<Longrightarrow> wasted_on n st < GIVE_UP_AFTER_WASTED_PASSES"
    using assms(1,3)
    by (auto simp: held_off_def wasted_inv_def wasted_on_def backoff_of_def no_backoff_def GIVE_UP_AFTER_WASTED_PASSES_def
        split: option.splits if_splits)
  have "stuck_meets n i (with_node st n' (restore_node st n' queue)) (counted n i n' st) (left_at n i n' st) h"
    using assms(1) unfolding restore_node_def by (intro with_node_counted restore_rounds_counted)
  then show ?thesis
    by (rule traced.meets_conseq)
      (use room assms(2) in \<open>auto simp: counted_def left_at_def wasted_up_to_def wasted_outcome_def split: if_splits\<close>)
qed

lemma recorded_backoff [simp]:
  "backoff_of n (recorded_at st n' now all) = backoff_of n (noted st n' now all)"
  "rc_intents (recorded_at st n' now all) = rc_intents (noted st n' now all)"
  "rc_backoff (recorded_at st n' now all) = rc_backoff (noted st n' now all)"
  by (simp_all add: recorded_at_def undesired_forgotten_def backoff_of_def forget_models_def)

lemma wasted_up_to_from:
  "wasted_on n st1 = wasted_on n st \<Longrightarrow> wasted_up_to n i st1 c st' \<Longrightarrow> wasted_up_to n i st c st'"
  by (simp add: wasted_up_to_def)

lemma judge_node_counted:
  assumes "wasted_inv n i st" "wasted_on n st \<le> GIVE_UP_AFTER_WASTED_PASSES"
    and "gn_id node = n \<Longrightarrow> intent_in all = i \<and> stuck all"
  shows "node_counted n i st (judge_node st node now all) h"
proof -
  define n' where "n' = gn_id node"
  define st1 where "st1 = noted st n' now all"
  define st3 where "st3 = recorded_at st n' now all"
  have st1: "backoff_of n st1 = backoff_of n st \<and> map_of (rc_intents st1) n \<in> {None, Some i}"
  proof (cases "n' = n")
    case True
    then show ?thesis using note_intent_same [OF assms(1), of all now] assms(3) by (simp add: st1_def n'_def)
  next
    case False
    then show ?thesis using note_intent_other [of n' n] assms(1) by (simp add: st1_def noted_def wasted_inv_def)
  qed
  have st3: "backoff_of n st3 = backoff_of n st1" "rc_intents st3 = rc_intents st1" "rc_backoff st3 = rc_backoff st1"
    by (simp_all add: st3_def st1_def)
  have inv: "wasted_inv n i st1" "wasted_inv n i st3" and w: "wasted_on n st1 = wasted_on n st" "wasted_on n st3 = wasted_on n st"
    using assms(1) st1 st3 by (simp_all add: wasted_inv_def wasted_on_def)
  have kept: "wasted_up_to n i st 0 st1" "wasted_up_to n i st 0 st3"
    using inv w assms(2) by (simp_all add: wasted_up_to_def)
  have node: "node_counted n i st (with_node st3 n' (restore_node st3 n' queue)) t"
    if "held_off n' now st1 = None" for queue t
  proof -
    have "held_off n' now st3 = None" using that st3(3) by (simp add: held_off_def)
    then have "node_counted n i st3 (with_node st3 n' (restore_node st3 n' queue)) t"
      using assms(2) w(2) inv(2) by (intro node_counted_pass) simp_all
    then show ?thesis
      by (rule traced.meets_conseq) (simp_all add: wasted_up_to_from [OF w(2)])
  qed
  have quiet: "count_wasted n [pass_ended n'' res no_progress why] = 0" for n'' res why
    by (simp add: wasted_outcome_def pass_ended_def no_progress_def)
  show ?thesis
    unfolding judge_node_split Let_def n'_def [symmetric] st1_def [symmetric] st3_def [symmetric]
    using kept node quiet by (auto simp: ask_bool_def split: option.splits ranswer.splits)
qed

lemma reconcile_node_counted:
  assumes "wasted_inv n i st" "wasted_on n st \<le> GIVE_UP_AFTER_WASTED_PASSES"
  shows "node_counted n i st (reconcile_node st node) h"
proof -
  have "wasted_up_to n i st 0 st" using assms by (simp add: wasted_up_to_def)
  moreover have "\<not> wasted_outcome n (pass_ended n' RSuspended pr why)" for n' pr why
    by (simp add: wasted_outcome_def)
  ultimately show ?thesis using judge_node_counted [OF assms]
    by (auto simp: reconcile_node_def ask_bool_def ask_now_def ask_models_def split: ranswer.splits)
qed

lemma failed_pass_counted:
  assumes "wasted_up_to n i st 0 st'"
  shows "node_counted n i st (fail_pass st' n' why no_progress) h"
proof -
  have "stuck_meets n i (fail_pass st' n' why no_progress)
      (\<lambda>x. wasted_up_to n i st (count_wasted n [fst x]) (snd x)) (\<lambda>e. wasted_up_to n i st 0 (snd e)) h"
    using assms
    by (auto simp: fail_pass_def ask_now_def ask_models_def Let_def wasted_up_to_def wasted_inv_def wasted_on_def
        wasted_outcome_def backed_off_def no_progress_def split: ranswer.splits)
  then show ?thesis .
qed

abbreviation passes_counted :: "string \<Rightarrow> (string \<times> int) set \<Rightarrow> reconciler \<Rightarrow> (pass_outcome list \<times> reconciler) reconciling \<Rightarrow> rhistory \<Rightarrow> bool" where
  "passes_counted n i st p h \<equiv> stuck_meets n i p
     (\<lambda>x. wasted_up_to n i st (count_wasted n (fst x)) (snd x)) (\<lambda>e. wasted_up_to n i st 0 (snd e)) h"

lemma wasted_up_to_trans:
  "wasted_up_to n i st c st1 \<Longrightarrow> wasted_up_to n i st1 d st2 \<Longrightarrow> wasted_up_to n i st (c + d) st2"
  by (simp add: wasted_up_to_def)

lemma passes_counted_after:
  assumes "wasted_up_to n i st c st'" "passes_counted n i st' p h"
  shows "stuck_meets n i p (\<lambda>x. wasted_up_to n i st (c + count_wasted n (fst x)) (snd x)) (\<lambda>e. wasted_up_to n i st 0 (snd e)) h"
  using assms(2)
proof (rule traced.meets_conseq)
  show "wasted_up_to n i st (c + count_wasted n (fst x)) (snd x)"
    if "wasted_up_to n i st' (count_wasted n (fst x)) (snd x)" for x :: "pass_outcome list \<times> reconciler"
    using wasted_up_to_trans [OF assms(1) that] .
  show "wasted_up_to n i st 0 (snd e)" if "wasted_up_to n i st' 0 (snd e)" for e :: "string \<times> reconciler"
    using wasted_up_to_trans [OF assms(1) that] by (simp add: wasted_up_to_def)
qed

lemma reconcile_all_counted:
  assumes "wasted_inv n i st" "wasted_on n st \<le> GIVE_UP_AFTER_WASTED_PASSES"
  shows "passes_counted n i st (reconcile_all st ns) h"
  using assms
proof (induction ns arbitrary: st h)
  case Nil
  then show ?case by (simp add: wasted_up_to_def)
next
  case (Cons node ns st h)
  have rest: "stuck_meets n i (reconcile_all st' ns)
       (\<lambda>x. wasted_up_to n i st (c + count_wasted n (fst x)) (snd x)) (\<lambda>e. wasted_up_to n i st 0 (snd e)) t"
    if "wasted_up_to n i st c st'" for c st' t
  proof -
    have "passes_counted n i st' (reconcile_all st' ns) t"
      using that by (intro Cons.IH) (simp_all add: wasted_up_to_def)
    then show ?thesis by (rule passes_counted_after [OF that])
  qed
  let ?then = "\<lambda>x. stuck_meets n i (reconcile_all (snd x) ns)
       (\<lambda>y. wasted_up_to n i st (count_wasted n [fst x] + count_wasted n (fst y)) (snd y)) (\<lambda>e. wasted_up_to n i st 0 (snd e))"
  have failed: "traced.meets (stuck_answers n i) (\<lambda>_ _. True) (fail_pass st' (gn_id node) why no_progress)
      ?then (\<lambda>e _. wasted_up_to n i st 0 (snd e)) t" if "wasted_up_to n i st 0 st'" for st' why t
    by (rule traced.meets_conseq [OF failed_pass_counted [OF that]]) (rule rest, assumption+)
  have "traced.meets (stuck_answers n i) (\<lambda>_ _. True) (reconcile_node st node) ?then
      (\<lambda>e. traced.meets (stuck_answers n i) (\<lambda>_ _. True) (fail_pass (snd e) (gn_id node) (''error:'' @ fst e) no_progress)
         ?then (\<lambda>e _. wasted_up_to n i st 0 (snd e))) h"
    by (rule traced.meets_conseq [OF reconcile_node_counted [OF Cons.prems]], rule rest, assumption, rule failed, assumption)
  then show ?case using rest [of 0 st h] Cons.prems
    by (simp add: case_prod_unfold wasted_up_to_def)
qed

lemma passes_are_counted:
  assumes "wasted_inv n i st" "wasted_on n st \<le> GIVE_UP_AFTER_WASTED_PASSES"
  shows "passes_counted n i st (passes k enabled st) h"
  using assms
proof (induction k arbitrary: st h)
  case 0
  then show ?case by (simp add: wasted_up_to_def)
next
  case (Suc k st h)
  have rest: "stuck_meets n i (passes k enabled st')
       (\<lambda>x. wasted_up_to n i st (c + count_wasted n (fst x)) (snd x)) (\<lambda>e. wasted_up_to n i st 0 (snd e)) t"
    if "wasted_up_to n i st c st'" for c st' t
  proof -
    have "passes_counted n i st' (passes k enabled st') t"
      using that by (intro Suc.IH) (simp_all add: wasted_up_to_def)
    then show ?thesis by (rule passes_counted_after [OF that])
  qed
  have "passes_counted n i st (run_once enabled st) h"
    using Suc.prems reconcile_all_counted [OF Suc.prems]
    by (auto simp: run_once_def ask_nodes_def wasted_up_to_def split: ranswer.splits)
  then have "traced.meets (stuck_answers n i) (\<lambda>_ _. True) (run_once enabled st)
      (\<lambda>x. stuck_meets n i (passes k enabled (snd x))
         (\<lambda>y. wasted_up_to n i st (count_wasted n (fst x) + count_wasted n (fst y)) (snd y)) (\<lambda>e. wasted_up_to n i st 0 (snd e)))
      (\<lambda>e. stuck_meets n i (passes k enabled (snd e))
         (\<lambda>y. wasted_up_to n i st (count_wasted n (fst y)) (snd y)) (\<lambda>e. wasted_up_to n i st 0 (snd e))) h"
  proof (rule traced.meets_conseq)
    show "stuck_meets n i (passes k enabled (snd e)) (\<lambda>y. wasted_up_to n i st (count_wasted n (fst y)) (snd y))
        (\<lambda>e. wasted_up_to n i st 0 (snd e)) t" if "wasted_up_to n i st 0 (snd e)" for e :: "string \<times> reconciler" and t
      using rest [OF that] by simp
  qed (rule rest)
  then show ?case by (simp add: case_prod_unfold)
qed

end
