(* ===== verification/Reconciler_Accounts.thy ===== *)
theory Reconciler_Accounts
  imports Reconciler_Progress
begin

text \<open>
  The books of the reconciler's passes: every load that returned is listed in the outcome of the pass that
  made it, as long as no read, observation or lock raises; and a node given up on is not entered again.
\<close>

section \<open>Loads and outcomes\<close>

text \<open>The loads that returned while the node was held, in a history that starts with the node held or not.\<close>

primrec made_from :: "string \<Rightarrow> bool \<Rightarrow> rhistory \<Rightarrow> nat" where
  "made_from n b [] = 0"
| "made_from n b (x # h) =
     (case x of (Restore i, SayRaise e) \<Rightarrow> 0 | (Restore i, _) \<Rightarrow> if b then 1 else 0 | _ \<Rightarrow> 0)
     + made_from n (held_after n b [x]) h"

abbreviation loads_made :: "string \<Rightarrow> rhistory \<Rightarrow> nat" where
  "loads_made n \<equiv> made_from n False"

lemma made_append [simp]: "made_from n b (h @ h') = made_from n b h + made_from n (held_after n b h) h'"
  by (induction h arbitrary: b) simp_all

definition loads_told :: "string \<Rightarrow> pass_outcome list \<Rightarrow> nat" where
  "loads_told n ocs = sum_list (map (\<lambda>oc. length (oc_restored oc)) (filter (\<lambda>oc. oc_node oc = n) ocs))"

lemma loads_told_simps [simp]:
  "loads_told n [] = 0" "loads_told n (oc # ocs) = (if oc_node oc = n then length (oc_restored oc) else 0) + loads_told n ocs"
  "loads_told n (ocs @ ocs') = loads_told n ocs + loads_told n ocs'"
  by (simp_all add: loads_told_def)

text \<open>Every call is answered with what it asks for; only a load and a release may raise.\<close>

definition answered :: "rrequest \<Rightarrow> ranswer \<Rightarrow> bool" where
  "answered q r = (case (q, r) of
     (AskSuspended, SayBool b) \<Rightarrow> True | (AskBlocked n, SayBool b) \<Rightarrow> True | (EnterNode n, SayBool b) \<Rightarrow> True
   | (AskNodes, SayNodes ns) \<Rightarrow> True | (AskModels n, SayModels ms) \<Rightarrow> True | (AskNow, SayTime t) \<Rightarrow> True
   | (LeaveNode n, SayDone) \<Rightarrow> True | (Observe n, SayDone) \<Rightarrow> True | (Restore i, _) \<Rightarrow> True | (Release i, _) \<Rightarrow> True
   | _ \<Rightarrow> False)"

lemma answered_simps [simp]:
  "answered AskSuspended r = (\<exists>b. r = SayBool b)" "answered (AskBlocked n) r = (\<exists>b. r = SayBool b)"
  "answered (EnterNode n) r = (\<exists>b. r = SayBool b)" "answered AskNodes r = (\<exists>ns. r = SayNodes ns)"
  "answered (AskModels n) r = (\<exists>ms. r = SayModels ms)" "answered AskNow r = (\<exists>t. r = SayTime t)"
  "answered (LeaveNode n) r = (r = SayDone)" "answered (Observe n) r = (r = SayDone)"
  "answered (Restore i) r" "answered (Release i) r"
  by (cases r; simp add: answered_def)+

abbreviation booked :: "'a reconciling \<Rightarrow> ('a \<Rightarrow> rhistory \<Rightarrow> bool) \<Rightarrow> rhistory \<Rightarrow> bool" where
  "booked p Q h \<equiv> traced.meets answered (\<lambda>_ _. True) p Q (\<lambda>_ _. False) h"

text \<open>
  In a pass over \<open>n'\<close>, the loads made under the hold of \<open>n\<close> grow with the list of the pass, or not at all
  when the pass is over another node.
\<close>

definition listed :: "string \<Rightarrow> string \<Rightarrow> string list \<Rightarrow> rhistory \<Rightarrow> string list \<Rightarrow> rhistory \<Rightarrow> bool" where
  "listed n n' was h now t \<longleftrightarrow> (held n t \<longleftrightarrow> n' = n)
     \<and> loads_made n t + (if n' = n then length was else 0) = loads_made n h + (if n' = n then length now else 0)"

lemma listed_same [simp]: "listed n n' pr h pr h \<longleftrightarrow> (held n h \<longleftrightarrow> n' = n)"
  by (simp add: listed_def)

lemma listed_trans: "listed n n' a h b t \<Longrightarrow> listed n n' b t c u \<Longrightarrow> listed n n' a h c u"
  by (auto simp: listed_def)

text \<open>Reads, observations, releases and loads that raise leave the books as they are; a load that returned adds to the list.\<close>

definition quiet_call :: "rrequest \<times> ranswer \<Rightarrow> bool" where
  "quiet_call x = (case x of (EnterNode n, r) \<Rightarrow> False | (LeaveNode n, r) \<Rightarrow> False | (Restore i, r) \<Rightarrow> (\<exists>e. r = SayRaise e) | _ \<Rightarrow> True)"

lemma quiet_call_simps [simp]:
  "quiet_call (AskSuspended, r)" "quiet_call (AskNodes, r)" "quiet_call (AskModels n, r)" "quiet_call (AskBlocked n, r)"
  "quiet_call (AskNow, r)" "quiet_call (Observe n, r)" "quiet_call (Release i, r)" "quiet_call (Restore i, SayRaise e)"
  "\<not> quiet_call (EnterNode n, r)" "\<not> quiet_call (LeaveNode n, r)" "\<not> quiet_call (Restore i, SayDone)"
  by (simp_all add: quiet_call_def)

lemma quiet_calls: "list_all quiet_call xs \<Longrightarrow> held_after n b xs = b \<and> made_from n b xs = 0"
  by (induction xs arbitrary: b) (auto simp: quiet_call_def split: rrequest.splits ranswer.splits)

lemma listed_quiet [simp]: "list_all quiet_call xs \<Longrightarrow> listed n n' was h now (t @ xs) \<longleftrightarrow> listed n n' was h now t"
  using quiet_calls [of xs n] by (simp add: listed_def)

lemma listed_load:
  assumes "listed n n' was h now t" "list_all quiet_call xs" "\<nexists>e. r = SayRaise e"
  shows "listed n n' was h (now @ [a]) (t @ xs @ [(Restore i, r)])"
  using assms quiet_calls [of xs n] by (auto simp: listed_def split: ranswer.split)

text \<open>The outcome of a pass lists what the pass has listed.\<close>

definition told :: "string \<Rightarrow> string \<Rightarrow> string list \<Rightarrow> rhistory \<Rightarrow> pass_outcome \<Rightarrow> rhistory \<Rightarrow> bool" where
  "told n n' was h oc t \<longleftrightarrow> oc_node oc = n' \<and> listed n n' was h (oc_restored oc) t"

lemma told_ended [simp]: "told n n' was h (pass_ended n' res pr why) t = listed n n' was h (pg_restored pr) t"
  by (simp add: told_def pass_ended_def)

definition turn_told :: "string \<Rightarrow> string \<Rightarrow> string list \<Rightarrow> rhistory \<Rightarrow> turn_end \<Rightarrow> rhistory \<Rightarrow> bool" where
  "turn_told n n' was h x t = (case x of (None, pr, st) \<Rightarrow> listed n n' was h (pg_restored pr) t | (Some oc, pr, st) \<Rightarrow> told n n' was h oc t)"

lemma turn_told_simps [simp]:
  "turn_told n n' was h (None, pr, st) t = listed n n' was h (pg_restored pr) t"
  "turn_told n n' was h (Some oc, pr, st) t = told n n' was h oc t"
  by (simp_all add: turn_told_def)

lemma fail_pass_told:
  assumes "listed n n' was h (pg_restored pr) t"
  shows "booked (fail_pass st n' why pr) (\<lambda>x. told n n' was h (fst x)) t"
  using assms
  by (auto simp: fail_pass_def ask_now_def ask_models_def Let_def told_def)

lemma after_load_told:
  assumes "listed n n' was h (pg_restored pr) t"
  shows "booked (after_load st n' m pr) (turn_told n n' was h) t"
proof -
  have failed: "booked (fail_pass st n' why pr) (\<lambda>(oc, st). turn_told n n' was h (Some oc, pr, st)) u"
    if "listed n n' was h (pg_restored pr) u" for why u
    by (rule traced.meets_conseq [OF fail_pass_told [OF that]]) auto
  show ?thesis using assms
    by (auto simp: after_load_def ask_models_def do_call_def try_call_def Let_def
        intro!: failed split: option.splits ranswer.splits)
qed

lemma restore_one_told:
  assumes "listed n n' was h (pg_restored pr) t"
  shows "booked (restore_one st n' i pr) (turn_told n n' was h) t"
proof -
  have failed: "booked (fail_pass st' n' why pr) (\<lambda>(oc, st). turn_told n n' was h (Some oc, pr, st)) u"
    if "listed n n' was h (pg_restored pr) u" for st' why u
    by (rule traced.meets_conseq [OF fail_pass_told [OF that]]) auto
  have loaded: "booked (after_load st n' m (pr\<lparr>pg_restored := pg_restored pr @ [a]\<rparr>)) (turn_told n n' was h) u"
    if "listed n n' was h (pg_restored pr @ [a]) u" for m a u
    using after_load_told [of n n' was h "pr\<lparr>pg_restored := pg_restored pr @ [a]\<rparr>" u] that by simp
  show ?thesis using assms
    by (auto simp: restore_one_def ask_bool_def ask_now_def ask_models_def try_call_def
        intro!: failed loaded listed_load [of _ _ _ _ _ _ "[_, _, _, _]", simplified] split: option.splits ranswer.splits)
qed

lemma restore_each_told:
  "listed n n' was h (pg_restored pr) t \<Longrightarrow> booked (restore_each st n' ts pr) (turn_told n n' was h) t"
proof (induction ts arbitrary: st pr t)
  case (Cons x ts st pr t)
  from restore_one_told [OF Cons.prems, of st "rm_id x"] show ?case
    unfolding restore_each.simps traced_seq
    by (rule traced.meets_conseq) (auto intro!: Cons.IH split: option.splits)
qed simp

lemma restore_rounds_told:
  "listed n n' was h (pg_restored pr) t \<Longrightarrow> booked (restore_rounds k st n' queue pr) (\<lambda>x. told n n' was h (fst x)) t"
proof (induction k arbitrary: st queue pr t)
  case 0
  then show ?case by (simp add: fail_pass_told)
next
  case (Suc k st queue pr t)
  from restore_each_told [OF Suc.prems, of st queue] show ?case
    unfolding restore_rounds.simps traced_seq
    by (rule traced.meets_conseq)
      (auto simp: ask_now_def ask_models_def Let_def intro!: Suc.IH split: option.splits ranswer.splits)
qed

text \<open>Between the passes no node is held, and the outcomes tell the loads made so far.\<close>

definition told_all :: "string \<Rightarrow> rhistory \<Rightarrow> pass_outcome list \<Rightarrow> rhistory \<Rightarrow> bool" where
  "told_all n h ocs t \<longleftrightarrow> \<not> held n t \<and> loads_made n t = loads_made n h + loads_told n ocs"

lemma told_all_trans: "told_all n h a t \<Longrightarrow> told_all n t b u \<Longrightarrow> told_all n h (a @ b) u"
  by (simp add: told_all_def)

lemma told_all_quiet [simp]: "list_all quiet_call xs \<Longrightarrow> told_all n h ocs (t @ xs) \<longleftrightarrow> told_all n h ocs t"
  using quiet_calls [of xs n] by (simp add: told_all_def)

lemma told_all_start [simp]: "told_all n h [] h \<longleftrightarrow> \<not> held n h"
  by (simp add: told_all_def)

lemma nothing_told [simp]: "told_all n h [pass_ended n' res no_progress why] t \<longleftrightarrow> told_all n h [] t"
  by (simp add: told_all_def pass_ended_def no_progress_def)

lemma with_node_told:
  assumes "told_all n h [] t"
  shows "booked (with_node st n' (restore_node st n' queue)) (\<lambda>x. told_all n h [fst x]) t"
proof -
  have entered: "listed n n' [] (t @ [(EnterNode n', SayBool True)]) [] (t @ [(EnterNode n', SayBool True)])"
    using assms by (auto simp: told_all_def)
  have left: "told_all n h [oc] (u @ [(LeaveNode n', SayDone)])"
    if "told n n' [] (t @ [(EnterNode n', SayBool True)]) oc u" for oc u
    using that assms by (auto simp: told_all_def told_def listed_def)
  have refused: "told_all n h [] (t @ [(EnterNode n', SayBool False)])"
    using assms by (simp add: told_all_def)
  have "booked (restore_node st n' queue) (\<lambda>x. told n n' [] (t @ [(EnterNode n', SayBool True)]) (fst x)) (t @ [(EnterNode n', SayBool True)])"
    unfolding restore_node_def by (rule restore_rounds_told) (use entered in \<open>simp add: no_progress_def\<close>)
  then show ?thesis using refused left
    by (auto simp: with_node_def ask_bool_def do_call_def of_sum_def Let_def case_prod_unfold elim!: traced.meets_conseq)
qed

lemma reconcile_node_told:
  "told_all n h [] t \<Longrightarrow> booked (reconcile_node st node) (\<lambda>x. told_all n h [fst x]) t"
  by (auto simp: reconcile_node_def judge_node_def ask_bool_def ask_now_def ask_models_def Let_def case_prod_unfold
      intro!: with_node_told split: option.splits)

lemma reconcile_all_told:
  "\<not> held n h \<Longrightarrow> booked (reconcile_all st ns) (\<lambda>x. told_all n h (fst x)) h"
proof (induction ns arbitrary: st h)
  case (Cons node ns st h)
  have rest: "booked (reconcile_all st' ns) (\<lambda>x. told_all n h (oc # fst x)) t" if "told_all n h [oc] t" for st' oc t
  proof -
    have "\<not> held n t" using that by (simp add: told_all_def)
    from Cons.IH [OF this] show ?thesis
      by (rule traced.meets_conseq) (use told_all_trans [OF that] in auto)
  qed
  have "booked (reconcile_node st node) (\<lambda>x. told_all n h [fst x]) h"
    by (rule reconcile_node_told) (simp add: Cons.prems)
  then have "traced.meets answered (\<lambda>_ _. True) (reconcile_node st node)
      (\<lambda>x. booked (reconcile_all (snd x) ns) (\<lambda>y. told_all n h (fst x # fst y)))
      (\<lambda>e. traced.meets answered (\<lambda>_ _. True) (fail_pass (snd e) (gn_id node) (''error:'' @ fst e) no_progress)
         (\<lambda>x. booked (reconcile_all (snd x) ns) (\<lambda>y. told_all n h (fst x # fst y))) (\<lambda>_ _. False)) h"
    by (rule traced.meets_conseq) (auto intro: rest)
  then show ?case using Cons.IH [OF Cons.prems, of st] by (simp add: case_prod_unfold)
qed simp

lemma passes_told:
  "\<not> held n h \<Longrightarrow> booked (passes k enabled st) (\<lambda>x. told_all n h (fst x)) h"
proof (induction k arbitrary: st h)
  case (Suc k st h)
  have rest: "booked (passes k enabled st') (\<lambda>x. told_all n h (ocs @ fst x)) t" if "told_all n h ocs t" for st' ocs t
  proof -
    have "\<not> held n t" using that by (simp add: told_all_def)
    from Suc.IH [OF this] show ?thesis
      by (rule traced.meets_conseq) (use told_all_trans [OF that] in auto)
  qed
  have "booked (reconcile_all st ns) (\<lambda>x. told_all n h (fst x)) (h @ [(AskNodes, SayNodes ns)])" for ns
    by (rule traced.meets_conseq [OF reconcile_all_told]) (use Suc.prems in \<open>auto simp: told_all_def\<close>)
  then have "booked (run_once enabled st) (\<lambda>x. told_all n h (fst x)) h"
    using Suc.prems by (auto simp: run_once_def ask_nodes_def)
  then have "traced.meets answered (\<lambda>_ _. True) (run_once enabled st)
      (\<lambda>x. booked (passes k enabled (snd x)) (\<lambda>y. told_all n h (fst x @ fst y)))
      (\<lambda>e. booked (passes k enabled (snd e)) (\<lambda>y. told_all n h (fst y))) h"
    by (rule traced.meets_conseq) (auto intro: rest)
  then show ?case by (simp add: case_prod_unfold)
qed simp

section \<open>A node given up on\<close>

abbreviation stays_out :: "string \<Rightarrow> 'a reconciling \<Rightarrow> bool" where
  "stays_out n p \<equiv> asks (\<lambda>q. q \<noteq> EnterNode n) p"

lemma asks_mistyped [simp]: "asks f (mistyped r st)"
  by (simp add: mistyped_def)

lemma asks_one_call [simp]:
  "asks f (ask_bool st q) = f q" "asks f (ask_now st) = f AskNow" "asks f (ask_models st n) = f (AskModels n)"
  "asks f (do_call st q) = f q" "asks f (try_call q) = f q"
  by (auto simp: ask_bool_def ask_now_def ask_models_def do_call_def try_call_def split: ranswer.splits)

lemma asks_stop_pass: "asks f p \<Longrightarrow> asks f (stop_pass pr p)"
  unfolding stop_pass_def by (rule asks_seq) (simp_all add: case_prod_unfold)

lemma fail_pass_out: "stays_out n (fail_pass st n' why pr)"
  unfolding fail_pass_def Let_def by (intro asks_seq) simp_all

lemma after_load_out: "stays_out n (after_load st n' m pr)"
  unfolding after_load_def Let_def
  by (rule asks_seq) (auto intro!: asks_seq asks_stop_pass fail_pass_out split: option.split)

lemma restore_one_out: "stays_out n (restore_one st n' i pr)"
  unfolding restore_one_def
  by (intro asks_seq) (auto intro!: asks_seq asks_stop_pass fail_pass_out after_load_out split: option.split)

lemma restore_each_out: "stays_out n (restore_each st n' ts pr)"
  by (induction ts arbitrary: st pr) (auto intro!: asks_seq restore_one_out split: option.splits)

lemma restore_rounds_out: "stays_out n (restore_rounds k st n' queue pr)"
  by (induction k arbitrary: st queue pr)
    (auto simp: Let_def intro!: asks_seq restore_each_out fail_pass_out split: option.splits)

lemma with_node_out:
  assumes "n' \<noteq> n" "stays_out n p"
  shows "stays_out n (with_node st n' p)"
proof -
  have out: "stays_out n (handle (seq p (\<lambda>x. Ret (Inr x))) (\<lambda>e. Ret (Inl e)))"
    using assms(2) by (intro asks_handle asks_seq) simp_all
  have left: "stays_out n (seq (do_call st' (LeaveNode n')) (\<lambda>_. of_sum id r))" for st' r
    by (rule asks_seq) (simp_all add: of_sum_def split: sum.split)
  have "stays_out n (ask_bool st (EnterNode n'))"
    using assms(1) by simp
  then show ?thesis unfolding with_node_def
    by (rule asks_seq) (auto simp: Let_def intro!: asks_seq [OF out] left)
qed

definition given_up :: "string \<Rightarrow> (string \<times> int) set \<Rightarrow> reconciler \<Rightarrow> bool" where
  "given_up n i st \<longleftrightarrow> wasted_inv n i st \<and> wasted_on n st = GIVE_UP_AFTER_WASTED_PASSES"

lemma given_up_stays: "given_up n i st \<Longrightarrow> wasted_up_to n i st c st' \<Longrightarrow> given_up n i st'"
  by (auto simp: given_up_def wasted_up_to_def)

lemma given_up_held_off:
  assumes "given_up n i st" "intent_in all = i" "stuck all"
  shows "held_off n now (noted st n now all) = Some RGaveUp"
proof -
  have "bk_gave_up (backoff_of n (noted st n now all))"
    using note_intent_same [of n i st all now] assms by (simp add: given_up_def wasted_inv_def)
  then show ?thesis
    by (auto simp: held_off_def backoff_of_def no_backoff_def split: option.splits)
qed

lemma judge_node_out:
  assumes "given_up n i st" "gn_id node = n \<Longrightarrow> intent_in all = i \<and> stuck all"
  shows "stays_out n (judge_node st node now all)"
proof (cases "gn_id node = n")
  case True
  then show ?thesis using given_up_held_off [OF assms(1)] assms(2) by (simp add: judge_node_split)
next
  case False
  then have "stays_out n (with_node st' (gn_id node) (restore_node st' (gn_id node) queue))" for st' queue
    unfolding restore_node_def by (intro with_node_out restore_rounds_out) simp_all
  then show ?thesis
    unfolding judge_node_split Let_def by (auto intro!: asks_seq split: option.split)
qed

text \<open>While the intent stays and a wanted model is missing, a node given up on stays given up on, and is not entered.\<close>

abbreviation left_alone :: "string \<Rightarrow> (string \<times> int) set \<Rightarrow> ('a \<Rightarrow> reconciler) \<Rightarrow> 'a reconciling \<Rightarrow> rhistory \<Rightarrow> bool" where
  "left_alone n i get p h \<equiv> traced.meets (stuck_answers n i) (\<lambda>q _. q \<noteq> EnterNode n) p
     (\<lambda>x _. given_up n i (get x)) (\<lambda>e _. given_up n i (snd e)) h"

lemma meets_out: "stays_out n p \<Longrightarrow> traced.meets ok (\<lambda>q _. q \<noteq> EnterNode n) p (\<lambda>_ _. True) (\<lambda>_ _. True) h"
  by (rule asks_meets)

lemma left_alone_when:
  assumes "node_counted n i st p h" "given_up n i st"
    and "traced.meets (stuck_answers n i) (\<lambda>q _. q \<noteq> EnterNode n) p (\<lambda>_ _. True) (\<lambda>_ _. True) h"
  shows "left_alone n i snd p h"
  by (rule traced.meets_conseq [OF traced_conj [OF assms(3,1)]]) (use given_up_stays [OF assms(2)] in auto)

lemma reconcile_node_left_alone:
  assumes "given_up n i st"
  shows "left_alone n i snd (reconcile_node st node) h"
proof (rule left_alone_when [OF reconcile_node_counted assms])
  show "traced.meets (stuck_answers n i) (\<lambda>q _. q \<noteq> EnterNode n) (reconcile_node st node) (\<lambda>_ _. True) (\<lambda>_ _. True) h"
    using assms
    by (auto simp: reconcile_node_def ask_bool_def ask_now_def ask_models_def intro!: meets_out judge_node_out split: ranswer.splits)
qed (use assms in \<open>auto simp: given_up_def\<close>)

lemma fail_pass_left_alone:
  assumes "given_up n i st"
  shows "left_alone n i snd (fail_pass st n' why no_progress) h"
  by (rule left_alone_when [OF failed_pass_counted assms meets_out [OF fail_pass_out]])
    (use assms in \<open>simp add: given_up_def wasted_up_to_def\<close>)

lemma reconcile_all_left_alone: "given_up n i st \<Longrightarrow> left_alone n i snd (reconcile_all st ns) h"
proof (induction ns arbitrary: st h)
  case (Cons node ns st h)
  have failed: "traced.meets (stuck_answers n i) (\<lambda>q _. q \<noteq> EnterNode n) (fail_pass st' (gn_id node) why no_progress)
      (\<lambda>x. left_alone n i snd (reconcile_all (snd x) ns)) (\<lambda>e _. given_up n i (snd e)) t" if "given_up n i st'" for st' why t
    by (rule traced.meets_conseq [OF fail_pass_left_alone [OF that]]) (rule Cons.IH, assumption+)
  have "traced.meets (stuck_answers n i) (\<lambda>q _. q \<noteq> EnterNode n) (reconcile_node st node)
      (\<lambda>x. left_alone n i snd (reconcile_all (snd x) ns))
      (\<lambda>e. traced.meets (stuck_answers n i) (\<lambda>q _. q \<noteq> EnterNode n) (fail_pass (snd e) (gn_id node) (''error:'' @ fst e) no_progress)
         (\<lambda>x. left_alone n i snd (reconcile_all (snd x) ns)) (\<lambda>e _. given_up n i (snd e))) h"
    by (rule traced.meets_conseq [OF reconcile_node_left_alone [OF Cons.prems]], rule Cons.IH, assumption, rule failed, assumption)
  then show ?case using Cons.IH [OF Cons.prems, of h] by (simp add: case_prod_unfold)
qed simp

lemma passes_left_alone: "given_up n i st \<Longrightarrow> left_alone n i snd (passes k enabled st) h"
proof (induction k arbitrary: st h)
  case (Suc k st h)
  have "left_alone n i snd (run_once enabled st) h"
    using Suc.prems by (auto simp: run_once_def ask_nodes_def intro!: reconcile_all_left_alone split: ranswer.splits)
  then have "traced.meets (stuck_answers n i) (\<lambda>q _. q \<noteq> EnterNode n) (run_once enabled st)
      (\<lambda>x. left_alone n i snd (passes k enabled (snd x))) (\<lambda>e. left_alone n i snd (passes k enabled (snd e))) h"
    by (rule traced.meets_conseq) (rule Suc.IH, assumption)+
  then show ?case by (simp add: case_prod_unfold)
qed simp

end
