(* ===== verification/Reconciler_Properties.thy ===== *)
theory Reconciler_Properties
  imports Reconciler_Accounts
begin

text \<open>
  The properties of the residency reconciler and of the rules it shares with routing, with a run that
  loads, fails, backs off and gives up as the concrete instance of each.
\<close>

section \<open>A run that gives up\<close>

definition demo_model :: "string \<Rightarrow> rat \<Rightarrow> model_state option \<Rightarrow> int \<Rightarrow> registry_model" where
  "demo_model i gb seen t =
     \<lparr>rm_id = i, rm_alias = i, rm_ref = i, rm_runtime = OllamaKind, rm_node = ''n'', rm_state = MsDownloaded, rm_memory_gb = gb,
      rm_context = 4096, rm_observed = seen, rm_observed_gb = None, rm_observed_at = Some t, rm_validated = True,
      rm_digest = None, rm_desired = True, rm_version = 1\<rparr>"

definition demo_node :: gpu_node where
  "demo_node = \<lparr>gn_id = ''n'', gn_status = NodeOnline, gn_total_gb = 64, gn_runtimes = [OllamaKind]\<rparr>"

text \<open>Two models that evict each other: once the first is loaded, nobody knows of the second.\<close>

definition both_absent :: "int \<Rightarrow> registry_model list" where
  "both_absent t = [demo_model ''a'' 20 (Some MsDownloaded) t, demo_model ''b'' 40 (Some MsDownloaded) t]"

definition one_unknown :: "int \<Rightarrow> registry_model list" where
  "one_unknown t = [demo_model ''a'' 20 None t, demo_model ''b'' 40 (Some MsLoaded) t]"

definition demo_look :: "int \<Rightarrow> ranswer list" where
  "demo_look s = [SayNodes [demo_node], SayBool False, SayTime (seconds s), SayModels (both_absent (seconds s))]"

definition demo_loading :: "int \<Rightarrow> ranswer list" where
  "demo_loading s = demo_look s @
     [SayBool False, SayBool True,
      SayBool False, SayBool False, SayTime (seconds s), SayModels (both_absent (seconds s)), SayDone, SayModels (one_unknown (seconds s)), SayDone,
      SayBool False, SayBool False, SayTime (seconds s), SayModels (one_unknown (seconds s)),
      SayTime (seconds s), SayModels (one_unknown (seconds s)), SayDone]"

definition demo_cycle :: "int \<Rightarrow> ranswer list" where
  "demo_cycle s = demo_look s @ demo_loading (s + 60)"

definition demo_run :: "(rrequest \<times> ranswer) list \<times> (rrequest, string \<times> reconciler, pass_outcome list \<times> reconciler) ending" where
  "demo_run = run (passes 2 True reconciler_init) (demo_cycle 0)"

lemma demo_run_pair: "run (passes 2 True reconciler_init) (demo_cycle 0) = (fst demo_run, snd demo_run)"
  by (simp add: demo_run_def)

lemma demo_calls:
  "map fst (fst demo_run) = [AskNodes, AskSuspended, AskNow, AskModels ''n'',
     AskNodes, AskSuspended, AskNow, AskModels ''n'', AskBlocked ''n'', EnterNode ''n'',
     AskSuspended, AskBlocked ''n'', AskNow, AskModels ''n'', Restore ''b'', AskModels ''n'', Observe ''n'',
     AskSuspended, AskBlocked ''n'', AskNow, AskModels ''n'', AskNow, AskModels ''n'', LeaveNode ''n'']"
  by code_simp

lemma demo_call_at: "j < 24 \<Longrightarrow> j < length (fst demo_run) \<and> fst (fst demo_run ! j) = map fst (fst demo_run) ! j"
  using arg_cong [OF demo_calls, of length] by simp

definition demo_wasted :: reconciler where
  "demo_wasted = reconciler_init\<lparr>rc_backoff := [(''n'', \<lparr>bk_failures = 3, bk_until = Some 0, bk_wasted = 3, bk_gave_up = False\<rparr>)]\<rparr>"

text \<open>After three wasted passes the next one is the last.\<close>

lemma demo_gives_up:
  "map oc_result (case snd (run (passes 3 True demo_wasted) (demo_cycle 0 @ demo_look 3000)) of
     Returned (ocs, _) \<Rightarrow> ocs | _ \<Rightarrow> []) = [RIdle, RFailed, RGaveUp]"
  by code_simp

section \<open>What a load rests on\<close>

text \<open>
  C38: Whatever the database, the runtime and other processes answer, the reconciler asks for a load only
  while it holds the node, directly after it was told that nothing suspends it, that no uncertain
  operation blocks the node, the time, and the node's models, among which the model is wanted, freshly
  observed absent and in no lifecycle operation; and it asks for a release only of a model it has just
  loaded, directly after reading that it is no longer wanted.
\<close>

theorem loads_on_fresh_ground:
  assumes "run (passes k enabled st) rs = (h, out)" "j < length h"
  shows "case fst (h ! j) of Restore i \<Rightarrow> load_ground i (take j h) | Release i \<Rightarrow> release_ground i (take j h) | _ \<Rightarrow> True"
proof -
  have "grounded (fst (h ! j)) (take j h)"
    by (rule run_duty [OF assms passes_grounded]) simp
  then show ?thesis by (simp add: grounded_def split: rrequest.splits)
qed

lemma loads_on_fresh_ground_witness: "load_ground ''b'' (take 14 (fst demo_run))"
proof -
  have "fst (fst demo_run ! 14) = Restore ''b''" "14 < length (fst demo_run)"
    using demo_call_at [of 14] by (simp_all add: demo_calls)
  then show ?thesis using loads_on_fresh_ground [OF demo_run_pair, of 14] by simp
qed

text \<open>
  A node is entered for restoring only on two positive absences: directly before, its models were
  read, none of its Ollama models was in a lifecycle operation and no uncertain operation blocked it, and
  one wanted model freshly observed absent has by then been read absent with two observation times, at
  most the freshness window apart. The reconciler starts out knowing nothing; no other answer counts.
\<close>

theorem enters_after_two_absences:
  assumes "run (passes k enabled reconciler_init) rs = (h, out)" "j < length h" "fst (h ! j) = EnterNode n"
  shows "entry_ground n (take j h)"
proof -
  have "evident snd (passes k enabled reconciler_init) []"
    by (rule passes_evident) (simp add: reconciler_init_def)
  from run_duty [OF assms(1,2) this] have "enters_on_ground (fst (h ! j)) (take j h)" by simp
  then show ?thesis using assms(3) by simp
qed

lemma enters_after_two_absences_witness: "entry_ground ''n'' (take 9 (fst demo_run))"
proof -
  have "fst (fst demo_run ! 9) = EnterNode ''n''" "9 < length (fst demo_run)"
    using demo_call_at [of 9] by (simp_all add: demo_calls)
  then show ?thesis using enters_after_two_absences [OF demo_run_pair, of 9] by simp
qed

text \<open>
  In k wakings of its loop, on at most M nodes with at most N models each, the reconciler asks for at
  most k * M * N * (1 + MAX_REPAIR_ROUNDS) loads, however often a load evicts a sibling.
\<close>

theorem loads_bounded:
  assumes "run (passes k enabled st) rs = (h, out)" "\<forall>(q, r) \<in> set h. answers_at_most N M q r"
  shows "loads h \<le> k * (M * ((1 + MAX_REPAIR_ROUNDS) * N))"
proof -
  let ?B = "k * (M * ((1 + MAX_REPAIR_ROUNDS) * N))"
  have "loads_up_to N M ?B ?B (passes k enabled st) []" by (rule passes_loads) simp_all
  from traced_run [OF this, of rs] assms have "ends_as out (\<lambda>_. loads h \<le> ?B) (\<lambda>_. loads h \<le> ?B) (\<lambda>q. loads_within ?B q h)"
    by simp
  moreover have "loads h \<le> ?B" if "loads_within ?B q h" for q
    using that by (simp add: loads_within_def)
  ultimately show ?thesis by (cases out) auto
qed

lemma loads_bounded_witness: "loads (fst demo_run) = 1 \<and> 1 \<le> 2 * (1 * ((1 + MAX_REPAIR_ROUNDS) * 2))"
proof -
  have "\<forall>(q, r) \<in> set (fst demo_run). answers_at_most 2 1 q r" "loads (fst demo_run) = 1" by code_simp+
  then show ?thesis using loads_bounded [OF demo_run_pair, of 2 1] by simp
qed

section \<open>Giving up\<close>

text \<open>Four such cycles, far enough apart for the backoff, and a look at the node a day later.\<close>

definition demo_spent :: "(rrequest \<times> ranswer) list \<times> (rrequest, string \<times> reconciler, pass_outcome list \<times> reconciler) ending" where
  "demo_spent = run (passes 8 True reconciler_init) (demo_cycle 0 @ demo_cycle 1000 @ demo_cycle 2000 @ demo_cycle 3000)"

lemma demo_spent_out:
  "case snd demo_spent of
     Returned (ocs, st) \<Rightarrow> count_wasted ''n'' ocs = 4 \<and> loads_told ''n'' ocs = 4
       \<and> list_all (\<lambda>(q, r). stuck_answers ''n'' {(''a'', 1), (''b'', 1)} q r) (fst (run (passes 1 True st) (demo_look 90000)))
       \<and> map fst (fst (run (passes 1 True st) (demo_look 90000))) = [AskNodes, AskSuspended, AskNow, AskModels ''n'']
   | _ \<Rightarrow> False"
  by code_simp

lemma demo_spent_answers:
  "list_all (\<lambda>(q, r). stuck_answers ''n'' {(''a'', 1), (''b'', 1)} q r) (fst demo_spent)"
  "list_all (\<lambda>(q, r). answered q r) (fst demo_spent)"
  by code_simp+

text \<open>
  C39: While the intent of a node stays as it is and every listing shows one of its wanted models neither
  loaded nor without weights: at most GIVE_UP_AFTER_WASTED_PASSES passes of the node fail with loads in
  their outcome, in any number of wakings and whatever else is answered. Once that many have,
  the reconciler does not enter the node again, in any number of further wakings. And when no read,
  observation or lock raises (a load or a release may), the outcomes list every load that was made under the
  node's lock, so that no failed pass that loaded weights escapes the count.
\<close>

theorem gives_up_on_the_same_intent:
  assumes "run (passes k enabled reconciler_init) rs = (h, Returned (ocs, st))"
    and "\<forall>(q, r) \<in> set h. stuck_answers n intent q r"
    and "run (passes m enabled st) rs' = (h', out)"
    and "\<forall>(q, r) \<in> set h'. stuck_answers n intent q r"
  shows "count_wasted n ocs \<le> GIVE_UP_AFTER_WASTED_PASSES
    \<and> (count_wasted n ocs = GIVE_UP_AFTER_WASTED_PASSES \<longrightarrow> EnterNode n \<notin> fst ` set h')
    \<and> ((\<forall>(q, r) \<in> set h. answered q r) \<longrightarrow> loads_made n h = loads_told n ocs)"
proof -
  have "passes_counted n intent reconciler_init (passes k enabled reconciler_init) []"
    by (rule passes_are_counted)
      (simp_all add: wasted_inv_def wasted_on_def backoff_of_def reconciler_init_def no_backoff_def GIVE_UP_AFTER_WASTED_PASSES_def)
  from run_returned [OF assms(1) this assms(2)]
  have upto: "wasted_up_to n intent reconciler_init (count_wasted n ocs) st" by simp
  have out: "EnterNode n \<notin> fst ` set h'" if "count_wasted n ocs = GIVE_UP_AFTER_WASTED_PASSES"
  proof -
    have "given_up n intent st" using upto that by (auto simp: wasted_up_to_def given_up_def)
    from run_duty [OF assms(3) _ passes_left_alone [OF this] assms(4)] show ?thesis
      by (force simp: in_set_conv_nth)
  qed
  have "loads_made n h = loads_told n ocs" if "\<forall>(q, r) \<in> set h. answered q r"
    using run_returned [OF assms(1) passes_told that, of n] by (simp add: told_all_def)
  then show ?thesis using upto out by (simp add: wasted_up_to_def)
qed

lemma gives_up_on_the_same_intent_witness:
  "case snd demo_spent of
     Returned (ocs, st) \<Rightarrow> count_wasted ''n'' ocs = 4 \<and> loads_made ''n'' (fst demo_spent) = 4
       \<and> EnterNode ''n'' \<notin> fst ` set (fst (run (passes 1 True st) (demo_look 90000)))
   | _ \<Rightarrow> False"
proof -
  obtain ocs st where out: "snd demo_spent = Returned (ocs, st)" "count_wasted ''n'' ocs = 4" "loads_told ''n'' ocs = 4"
    using demo_spent_out by (auto split: ending.splits prod.splits)
  have spent: "run (passes 8 True reconciler_init) (demo_cycle 0 @ demo_cycle 1000 @ demo_cycle 2000 @ demo_cycle 3000)
      = (fst demo_spent, Returned (ocs, st))"
    by (simp add: demo_spent_def [symmetric] out(1) [symmetric])
  have later: "\<forall>(q, r) \<in> set (fst (run (passes 1 True st) (demo_look 90000))). stuck_answers ''n'' {(''a'', 1), (''b'', 1)} q r"
    using demo_spent_out out(1) by (simp add: list_all_iff)
  from gives_up_on_the_same_intent [OF spent _ surjective_pairing later] show ?thesis
    using demo_spent_answers by (simp add: out list_all_iff GIVE_UP_AFTER_WASTED_PASSES_def)
qed

text \<open>A pass that loads weights and then fails because the node cannot be observed is not counted.\<close>

definition unseen_answers :: "ranswer list" where
  "unseen_answers = demo_look 0 @ demo_look 60 @
     [SayBool False, SayBool True, SayBool False, SayBool False, SayTime (seconds 60), SayModels (both_absent (seconds 60)), SayDone,
      SayModels (one_unknown (seconds 60)), SayRaise ''TimeoutError'', SayDone, SayTime (seconds 60), SayModels (one_unknown (seconds 60))]"

lemma raised_pass_not_counted:
  "case run (passes 2 True reconciler_init) unseen_answers of
     (h, Returned (ocs, st)) \<Rightarrow> loads h = 1 \<and> map oc_result ocs = [RIdle, RFailed] \<and> map oc_restored ocs = [[], []]
       \<and> wasted_on ''n'' st = 0
   | _ \<Rightarrow> False"
  by code_simp

text \<open>A failing database ends the whole waking, not one node's pass.\<close>

definition down_answers :: "ranswer list" where
  "down_answers = [SayNodes [demo_node, demo_node\<lparr>gn_id := ''m''\<rparr>], SayBool False, SayRaise ''DBError'', SayRaise ''DBError'']"

lemma failing_clock_ends_the_waking:
  "case run (run_once True reconciler_init) down_answers of
     (h, Raised (x, st)) \<Rightarrow> x = ''DBError'' \<and> map fst h = [AskNodes, AskSuspended, AskNow, AskNow] | _ \<Rightarrow> False"
  by code_simp

section \<open>Routing and restoring agree\<close>

text \<open>
  C40: Routing and the reconciler read the same evidence: a request reaches an Ollama model exactly when
  its node is online, the model counts as observed resident for the reconciler, and the candidate's own
  requirements hold; and a wanted model that routing accepts is no residency mismatch.
\<close>

theorem routing_agrees_with_residency:
  assumes "rm_runtime m = OllamaKind"
  shows "(rejection rq m n free now = None \<longleftrightarrow>
       gn_status n = NodeOnline \<and> (rq_node_status rq = [] \<or> NodeOnline \<in> set (rq_node_status rq))
       \<and> observed_resident m now \<and> (rq_model_state rq = [] \<or> MsLoaded \<in> set (rq_model_state rq))
       \<and> (case rq_min_free_gb rq of None \<Rightarrow> True | Some need \<Rightarrow> \<exists>f. free = Some f \<and> need \<le> f))
     \<and> (rejection rq m n free now = None \<longrightarrow> \<not> residency_mismatch m now \<and> \<not> observed_absent m now)"
  using assms
  by (auto simp: rejection_def observed_resident_def observed_absent_def residency_mismatch_def fresh_at_def effective_state_def
      not_less split: option.splits if_splits)

lemma routing_agrees_with_residency_witness:
  "rejection \<lparr>rq_node_status = [], rq_model_state = [], rq_min_free_gb = None\<rparr> (demo_model ''b'' 40 (Some MsLoaded) 0) demo_node None 5 = None"
  using routing_agrees_with_residency [of "demo_model ''b'' 40 (Some MsLoaded) 0"
      "\<lparr>rq_node_status = [], rq_model_state = [], rq_min_free_gb = None\<rparr>" demo_node None 5]
  by (simp add: demo_model_def demo_node_def observed_resident_def fresh_at_def seconds_def RESIDENCY_MAX_AGE_SECONDS_def)

lemma first_some_hd:
  "first_some f xs = (case filter (\<lambda>x. f x \<noteq> None) xs of [] \<Rightarrow> None | x # _ \<Rightarrow> f x)"
  by (induction xs) (auto split: option.splits)

lemma insert_by_filter:
  assumes "\<And>a b. P a \<Longrightarrow> P b \<Longrightarrow> le a b"
  shows "filter P (insert_by le x ys) = filter P (x # ys)"
  using assms by (induction ys) auto

lemma sort_by_stable:
  assumes "\<And>a b. P a \<Longrightarrow> P b \<Longrightarrow> le a b"
  shows "filter P (sort_by le xs) = filter P xs"
  using insert_by_filter [of P le] assms by (induction xs) simp_all

text \<open>The reference: of the acceptable candidates with the highest priority, the one listed first.\<close>

definition best_candidates :: "(candidate \<Rightarrow> registry_model option) \<Rightarrow> candidate list \<Rightarrow> candidate list" where
  "best_candidates acc cs = (let ok = filter (\<lambda>c. acc c \<noteq> None) cs in
     filter (\<lambda>c. cd_priority c = Max (cd_priority ` set ok)) ok)"

text \<open>
  Routing selects the model of the first listed among the acceptable candidates of the highest
  priority, and refuses exactly when no candidate is acceptable.
\<close>

theorem route_select_is_the_best:
  "route_select p models nds free now =
     (case best_candidates (acceptable models nds free now) (po_candidates p) of
        [] \<Rightarrow> None | c # _ \<Rightarrow> acceptable models nds free now c)"
proof -
  let ?acc = "acceptable models nds free now" and ?le = "\<lambda>a b. cd_priority a \<ge> cd_priority b"
  define ok where "ok = filter (\<lambda>c. ?acc c \<noteq> None) (sort_by ?le (po_candidates p))"
  define oks where "oks = filter (\<lambda>c. ?acc c \<noteq> None) (po_candidates p)"
  have same: "set ok = set oks" by (simp add: ok_def oks_def)
  show ?thesis
  proof (cases ok)
    case Nil
    then have "oks = []" using same by simp
    then show ?thesis using Nil 
      unfolding route_select_def first_some_hd best_candidates_def Let_def ok_def [symmetric] oks_def [symmetric] by simp
  next
    case (Cons c rest)
    have "sorted_wrt ?le (sort_by ?le (po_candidates p))" by (rule sorted_sort_by) auto
    then have "sorted_wrt ?le ok" unfolding ok_def by (rule sorted_wrt_filter)
    with Cons have top: "Max (cd_priority ` set ok) = cd_priority c"
      by (intro Max_eqI) auto
    let ?P = "\<lambda>x. cd_priority x = cd_priority c"
    have "c # filter ?P rest = filter ?P ok" using Cons by simp
    also have "\<dots> = filter (\<lambda>c. ?acc c \<noteq> None) (filter ?P (sort_by ?le (po_candidates p)))"
      by (simp add: ok_def conj_commute)
    also have "filter ?P (sort_by ?le (po_candidates p)) = filter ?P (po_candidates p)"
      by (rule sort_by_stable) simp
    finally have "c # filter ?P rest = filter ?P oks" by (simp add: oks_def conj_commute)
    then have "best_candidates ?acc (po_candidates p) = c # filter ?P rest"
      using top same unfolding best_candidates_def Let_def oks_def [symmetric] by simp
    then show ?thesis using Cons unfolding route_select_def first_some_hd ok_def [symmetric] by simp
  qed
qed

text \<open>The delay after a failed pass is the documented one: 30 seconds, doubled each time, up to 15 minutes.\<close>

lemma backoff_is_capped_doubling: "backoff_seconds (Suc f) = min (30 * 2 ^ f) (15 * 60)"
proof (cases "f \<le> 16")
  case False
  then have "(2::int) ^ 16 \<le> 2 ^ f" by (intro power_increasing) simp_all
  with False show ?thesis by (simp add: backoff_seconds_def)
qed (simp add: backoff_seconds_def)

end
