(* ===== verification/Guard.thy ===== *)
theory Guard
  imports Wire Py_Values Complex_Main
begin

text \<open>
  The agent's own check of a request, \<open>src/backend/app/node_agent/guard.py\<close>, with the catalogue of
  validated counting profiles of \<open>src/backend/app/domain/services/validated_profiles.py\<close> and the estimate
  of \<open>application/use_cases/route_chat_request/estimates.py\<close>. The catalogue is a parameter wherever the
  code takes one; the estimate divides exactly, where the code divides floats.
\<close>

section \<open>The estimate of a prompt\<close>

definition is_ascii :: "char \<Rightarrow> bool" where
  "is_ascii c \<longleftrightarrow> (of_char c :: nat) < 128"

text \<open>Three ASCII characters, or eleven tenths of a wide one, to a token.\<close>

definition estimated_tokens :: "string \<Rightarrow> int" where
  "estimated_tokens text =
     (let ascii = length (filter is_ascii text); wide = length text - ascii in
      \<lceil>rat_of_nat ascii / 3 + rat_of_nat wide / (11 / 10)\<rceil>)"

definition estimated_tool_tokens :: "tool_definition list \<Rightarrow> int" where
  "estimated_tool_tokens tools = sum_list (map (\<lambda>t.
     estimated_tokens (td_name t) + estimated_tokens (td_description t) + estimated_tokens (dumps (JObj (td_parameters t)))) tools)"

definition estimated_prompt_tokens :: "chat_message list \<Rightarrow> tool_definition list \<Rightarrow> int \<times> int" where
  "estimated_prompt_tokens messages tools =
     (let total = sum_list (map (\<lambda>m. estimated_tokens (msg_content m)) messages)
            + sum_list (map (\<lambda>m. sum_list (map (\<lambda>c.
                estimated_tokens (tc_name c) + estimated_tokens (tc_arguments c)) (msg_tool_calls m))) messages);
          tool_tokens = estimated_tool_tokens tools in
      (total + tool_tokens, tool_tokens))"

section \<open>Validated profiles\<close>

record profile_key =
  pk_node :: string
  pk_runtime :: string
  pk_version :: string
  pk_manifest :: string
  pk_encoder :: string
  pk_renderer :: string
  pk_tools :: bool
  pk_thinking :: string

record validated_profile =
  vp_ref :: string
  vp_node :: string
  vp_runtime :: string
  vp_version :: string
  vp_manifest :: string
  vp_encoders :: "string list"
  vp_renderer :: string
  vp_tools :: bool
  vp_thinking :: "string list"

definition covers :: "validated_profile \<Rightarrow> profile_key \<Rightarrow> bool" where
  "covers p k \<longleftrightarrow> pk_node k = vp_node p \<and> pk_runtime k = vp_runtime p \<and> pk_version k = vp_version p
     \<and> pk_manifest k = vp_manifest p \<and> pk_encoder k \<in> set (vp_encoders p) \<and> pk_renderer k = vp_renderer p
     \<and> pk_tools k = vp_tools p \<and> pk_thinking k \<in> set (vp_thinking p)"

text \<open>The catalogue; where and on which cases a record was measured does not take part in matching.\<close>

definition VALIDATED :: "validated_profile list" where
  "VALIDATED =
     [\<lparr>vp_ref = ''qwen2.5:7b'', vp_node = ''local'', vp_runtime = ''ollama'', vp_version = ''0.40.8'',
       vp_manifest = ''845dbda0ea48ed749caafd9e6037047aa19acfcfd82e704d7ca97d631a0b697e'',
       vp_encoders = [''native:7b26ae0075c9cf07'', ''python:0ca0ada64166ed40''],
       vp_renderer = ''jinja:2c9abc88aee670e3'', vp_tools = False, vp_thinking = [''false'', ''omitted'']\<rparr>]"

definition is_validated :: "profile_key \<Rightarrow> validated_profile list \<Rightarrow> validated_profile option" where
  "is_validated k catalogue = List.find (\<lambda>p. covers p k) catalogue"

definition wire_thinking :: "bool \<Rightarrow> string" where
  "wire_thinking thinking = (if thinking then ''omitted'' else ''false'')"

text \<open>The largest prompt a target may be sent; \<open>//\<close> rounds down, as \<open>div\<close> does.\<close>

definition servable :: "int \<Rightarrow> int \<Rightarrow> bool \<Rightarrow> int" where
  "servable window out widened = (let full = window - 1 - out in if widened then full else min (window div 2) full)"

text \<open>\<open>VERSION_FRESHNESS\<close> is five minutes; times are microseconds.\<close>

definition VERSION_FRESHNESS :: int where
  "VERSION_FRESHNESS = 5 * 60 * 1000000"

definition fresh_version :: "string option \<Rightarrow> int option \<Rightarrow> int \<Rightarrow> string option" where
  "fresh_version version observed_at now = (case (version, observed_at) of
     (Some v, Some t) \<Rightarrow> if now - t > VERSION_FRESHNESS then None else Some v | _ \<Rightarrow> None)"

section \<open>The guard\<close>

record registration =
  rg_context :: int
  rg_manifest :: "string option"
  rg_capabilities :: "string list"

record measurement =
  ms_identity :: "string option"
  ms_counted :: "int option"
  ms_declared :: "int option"
  ms_encoder :: "string option"
  ms_renderer :: "string option"

datatype refusal_reason =
    ModelNotOnNode | ContextLengthMismatch | RevisionMismatch | CapacityUnresolved | ContextExceeded
  | SummaryCounterUnavailable | SummaryInputExceeded | EmbeddingRevisionMismatch

fun refusal_value :: "refusal_reason \<Rightarrow> string" where
  "refusal_value ModelNotOnNode = ''model_not_on_node''"
| "refusal_value ContextLengthMismatch = ''context_length_mismatch''"
| "refusal_value RevisionMismatch = ''revision_mismatch''"
| "refusal_value CapacityUnresolved = ''capacity_unresolved''"
| "refusal_value ContextExceeded = ''context_exceeded''"
| "refusal_value SummaryCounterUnavailable = ''summary_counter_unavailable''"
| "refusal_value SummaryInputExceeded = ''summary_input_exceeded''"
| "refusal_value EmbeddingRevisionMismatch = ''embedding_revision_mismatch''"

record guard_pass =
  gp_provenance :: jobj
  gp_identity :: "string option"

definition check_pin :: "registration \<Rightarrow> string option \<Rightarrow> refusal_reason option" where
  "check_pin rg identity =
     (if rg_manifest rg \<noteq> None \<and> identity \<noteq> rg_manifest rg then Some RevisionMismatch else None)"

definition guard_profile ::
    "generation_request \<Rightarrow> measurement \<Rightarrow> string \<Rightarrow> string option \<Rightarrow> validated_profile list \<Rightarrow> validated_profile option" where
  "guard_profile r ms node version profiles =
     (case (version, ms_identity ms, ms_encoder ms, ms_renderer ms) of
        (Some v, Some i, Some en, Some re) \<Rightarrow>
          is_validated \<lparr>pk_node = node, pk_runtime = ''ollama'', pk_version = v, pk_manifest = i, pk_encoder = en,
            pk_renderer = re, pk_tools = (gr_tools r \<noteq> []), pk_thinking = wire_thinking (gr_thinking r)\<rparr> profiles
      | _ \<Rightarrow> None)"

text \<open>The count the prompt is judged by, its upper bound, and whether it is exact.\<close>

definition prompt_bound :: "generation_request \<Rightarrow> measurement \<Rightarrow> int \<times> int \<times> bool" where
  "prompt_bound r ms = (case ms_counted ms of
     Some c \<Rightarrow> (c, c, True)
   | None \<Rightarrow> (let c = fst (estimated_prompt_tokens (gr_messages r) (gr_tools r)) in (c, c * 3, False)))"

definition check_generation ::
    "generation_request \<Rightarrow> registration option \<Rightarrow> measurement \<Rightarrow> string \<Rightarrow> string option \<Rightarrow> validated_profile list
     \<Rightarrow> refusal_reason + guard_pass" where
  "check_generation r registered ms node version profiles =
     (case registered of
        None \<Rightarrow> Inl ModelNotOnNode
      | Some rg \<Rightarrow>
          if rg_context rg > 0 \<and> gr_context_length r \<noteq> rg_context rg then Inl ContextLengthMismatch
          else (case check_pin rg (ms_identity ms) of
            Some why \<Rightarrow> Inl why
          | None \<Rightarrow> (case ms_declared ms of
              None \<Rightarrow> Inl CapacityUnresolved
            | Some declared \<Rightarrow>
                if declared \<le> 0 then Inl CapacityUnresolved
                else
                  let window = min (gr_context_length r) declared;
                      (counted, upper, exact) = prompt_bound r ms;
                      profile = guard_profile r ms node version profiles;
                      limit = servable window (gr_max_tokens r) (profile \<noteq> None \<and> exact)
                  in if limit \<le> 0 \<or> upper > limit then Inl ContextExceeded
                     else Inr \<lparr>gp_provenance =
                       [(''manifest'', jopt_str (ms_identity ms)), (''counted'', JInt counted), (''upper_bound'', JInt upper),
                        (''basis'', JStr (if exact then ''exact_counter'' else ''estimate'')), (''window'', JInt window),
                        (''servable'', JInt limit), (''max_tokens'', JInt (gr_max_tokens r)),
                        (''validated_profile'', jopt_str (map_option vp_ref profile)), (''runtime_version'', jopt_str version)],
                       gp_identity = ms_identity ms\<rparr>)))"

end
