(* ===== verification/Agent_Api.thy ===== *)
theory Agent_Api
  imports Election Guard Relay Relay_Summary Supervisor_Protocol Async_Program
begin

text \<open>
  The agent's HTTP surface, \<open>src/backend/app/node_agent/api.py\<close>: each route as a tree of what it awaits of
  the store, the dispatcher, the runtime and the supervisor, which answer anything of the right type or
  raise. Reading a gate's field is a call as well, since the gate may change between two awaits. A route
  returns its reply, without the prose of a refusal; an exception nothing catches becomes the framework's error page.
\<close>

section \<open>Who may call what\<close>

datatype token_class = DataToken | ControlToken | EitherToken | NoToken

datatype route =
    RHealthz | RStatus | RInference | RSummary | REmbeddings | RLifecycle | RResidency | RCapacity | RAttempt | RCancel
  | RDrain | RResume | RStartResolution | RCompleteResolution | RResets | RInterrupt | RReset | RRestore
  | RRuntimeControl | RReceipt

fun needs :: "route \<Rightarrow> token_class" where
  "needs RHealthz = NoToken"
| "needs RStatus = EitherToken"
| "needs RResidency = EitherToken"
| "needs RInference = DataToken"
| "needs RSummary = DataToken"
| "needs REmbeddings = DataToken"
| "needs RLifecycle = DataToken"
| "needs RCapacity = DataToken"
| "needs RAttempt = DataToken"
| "needs RCancel = DataToken"
| "needs RDrain = ControlToken"
| "needs RResume = ControlToken"
| "needs RStartResolution = ControlToken"
| "needs RCompleteResolution = ControlToken"
| "needs RResets = ControlToken"
| "needs RInterrupt = ControlToken"
| "needs RReset = ControlToken"
| "needs RRestore = ControlToken"
| "needs RRuntimeControl = ControlToken"
| "needs RReceipt = ControlToken"

text \<open>\<open>partition(" ")\<close>, and \<open>lower()\<close> on ASCII letters.\<close>

definition before_space :: "string \<Rightarrow> string" where
  "before_space h = takeWhile (\<lambda>c. c \<noteq> CHR '' '') h"

definition after_space :: "string \<Rightarrow> string" where
  "after_space h = tl (dropWhile (\<lambda>c. c \<noteq> CHR '' '') h)"

definition lower_char :: "char \<Rightarrow> char" where
  "lower_char c = (let n = (of_char c :: nat) in if 65 \<le> n \<and> n \<le> 90 then char_of (n + 32) else c)"

definition bearer :: "string \<Rightarrow> string option" where
  "bearer header = (if map lower_char (before_space header) = ''bearer'' then Some (after_space header) else None)"

text \<open>\<open>_authorised\<close>, \<open>_controller\<close> and \<open>_observer\<close>: None, or the status of the refusal.\<close>

definition refused_token :: "string \<Rightarrow> string option \<Rightarrow> route \<Rightarrow> string \<Rightarrow> int option" where
  "refused_token token ctl r header =
     (case needs r of
        NoToken \<Rightarrow> None
      | DataToken \<Rightarrow> if bearer header = Some token then None else Some 401
      | ControlToken \<Rightarrow> (case ctl of
          None \<Rightarrow> Some 503 | Some c \<Rightarrow> if bearer header = Some c then None else Some 401)
      | EitherToken \<Rightarrow>
          (let presented = (case bearer header of None \<Rightarrow> [] | Some p \<Rightarrow> p);
               tokens = token # (case ctl of None \<Rightarrow> [] | Some c \<Rightarrow> if c = [] then [] else [c]) in
           if presented \<in> set tokens then None else Some 401))"

section \<open>Replies\<close>

datatype reply = Reply int json "int option" | Streamed

definition http_error :: "int \<Rightarrow> string \<Rightarrow> reply" where
  "http_error status detail = Reply status (JObj [(''detail'', JStr detail)]) None"

definition json_reply :: "json \<Rightarrow> reply" where
  "json_reply content = Reply 200 content None"

definition refused_reply :: "string \<Rightarrow> int option \<Rightarrow> operation option \<Rightarrow> reply" where
  "refused_reply why retry op =
     Reply 503 (JObj ([(''refused'', JStr why)] @ (case op of None \<Rightarrow> [] | Some r \<Rightarrow> [(''state'', JStr (state_name (op_state r)))]))) retry"

definition guard_reply :: "refusal_reason \<Rightarrow> reply" where
  "guard_reply why = Reply 422 (JObj [(''refused'', JStr (refusal_value why))]) None"

definition conflict_reply :: "string \<Rightarrow> reply" where
  "conflict_reply oid = Reply 409 (JObj [(''op_id'', JStr oid), (''refused'', JStr ''op_id_conflict'')]) None"

text \<open>
  \<open>_body\<close>: the declared length, then the parts as they arrive, then the text. \<open>isdigit\<close> also takes the
  superscript digits, which \<open>int\<close> refuses, as it does more than 4300 digits: that exception is nobody's
  and becomes a 500.
\<close>

definition py_isdigit :: "string \<Rightarrow> bool" where
  "py_isdigit d \<longleftrightarrow> d \<noteq> [] \<and> list_all (\<lambda>c. is_digit c \<or> (of_char c :: nat) \<in> {178, 179, 185}) d"

definition MAX_BODY_BYTES :: nat where
  "MAX_BODY_BYTES = 64 * 1024 * 1024"

fun body_size :: "nat \<Rightarrow> nat \<Rightarrow> nat list \<Rightarrow> bool" where
  "body_size limit got [] = True"
| "body_size limit got (n # ns) = (if got + n > limit then False else body_size limit (got + n) ns)"

definition read_body :: "nat \<Rightarrow> string option \<Rightarrow> nat list \<Rightarrow> json option \<Rightarrow> reply + json" where
  "read_body limit declared parts parsed =
     (case (case declared of
              None \<Rightarrow> None
            | Some d \<Rightarrow>
                if \<not> py_isdigit d then Some (http_error 400 ''bad Content-Length'')
                else if length d > 4300 then Some (http_error 500 ''ValueError'')
                else (case digits_value 0 d of
                   Some n \<Rightarrow> if n > limit then Some (http_error 413 ''request body too large'') else None
                 | None \<Rightarrow> Some (http_error 500 ''ValueError''))) of
        Some r \<Rightarrow> Inl r
      | None \<Rightarrow>
          if \<not> body_size limit 0 parts then Inl (http_error 413 ''request body too large'')
          else (case parsed of None \<Rightarrow> Inl (http_error 400 ''body is not JSON'') | Some j \<Rightarrow> Inr j))"

definition text_member :: "json \<Rightarrow> string \<Rightarrow> nat \<Rightarrow> reply + string" where
  "text_member body k limit = (case jget body k of
     JStr v \<Rightarrow> if py_strip v = [] \<or> length v > limit then Inl (http_error 400 k) else Inr (py_strip v)
   | _ \<Rightarrow> Inl (http_error 400 k))"

definition epoch_member :: "json \<Rightarrow> reply + int" where
  "epoch_member body = (case jget body ''epoch'' of
     JInt e \<Rightarrow> Inr e | _ \<Rightarrow> Inl (http_error 400 ''epoch must be an integer''))"

section \<open>What a route awaits\<close>

datatype send_what =
    SendChat jobj bool "string option"
  | SendSummary jobj "string option" string
  | SendEmbed jobj bool "string option"
  | SendLoad string json "int option"
  | SendUnload string
  | SendRepin lifecycle_request
  | SendPull string
  | SendProbe string bool json "int option"

datatype after_what = NoAfter | AfterPull lifecycle_request | AfterCapacity string

record submission =
  sb_op :: string
  sb_kind :: string
  sb_what :: send_what
  sb_request :: "string option"
  sb_hash :: "string option"
  sb_store :: bool
  sb_provenance :: jobj

record exclusive_call =
  ex_op :: string
  ex_kind :: string
  ex_what :: send_what
  ex_provenance :: jobj
  ex_after :: after_what
  ex_epoch :: "int option"

datatype api_request =
    QObserve string | QResult string | QRegistration string | QMeasure string "generation_request option" | QVersion
  | QSummaryAdmission | QSubmit submission | QExclusive exclusive_call | QEvent | QSettled | QDeliveryLost | QSend json | QAbandon
  | QCancel string string string | QLoseRole string | QDrain | QReopen | QThaw | QFreeze "int option" | QInterrupt
  | QGate | QAdmitted | QQuiescent | QFrozen | QFrozenEpoch | QUnknown | QHold | QAudit string "string option" json
  | QOutstanding | QWithdraw string | QSupervisor string string | QReceiptOf string
  | QMaintenanceReset int string string | QResolutionStart string string string | QResolutionComplete string
  | QSupervisedReset string string string | QResidency | QIdentity | QAvailable
  | QSleep | QHeld | QElected | QRecheck | QTerminate
  | QServed string | QRepin string string string | QCapacity string bool "string option"

datatype api_answer =
    AOperation "operation option" | AJson "json option" | ARegistration "registration option" | AMeasure measurement
  | AText "string option" | AAnswer answer | AEvent "json option" | ADone | ABool bool | ANat nat | AEpoch "int option"
  | AGate gate_state | AHold bool "int option" | ANames "string list" "string list" | AGone | ARaise string jobj

type_synonym 'a serving = "(api_request, api_answer, string \<times> jobj, 'a) prog"

definition unexpected :: "api_answer \<Rightarrow> 'a serving" where
  "unexpected r = Throw (case r of ARaise x d \<Rightarrow> (x, d) | _ \<Rightarrow> (''TypeError'', []))"

definition get_operation :: "string \<Rightarrow> operation option serving" where
  "get_operation oid = Call (QObserve oid) (\<lambda>r. case r of AOperation x \<Rightarrow> Ret x | _ \<Rightarrow> unexpected r)"

definition get_json :: "api_request \<Rightarrow> json option serving" where
  "get_json q = Call q (\<lambda>r. case r of AJson x \<Rightarrow> Ret x | _ \<Rightarrow> unexpected r)"

definition get_registration :: "string \<Rightarrow> registration option serving" where
  "get_registration ref = Call (QRegistration ref) (\<lambda>r. case r of ARegistration x \<Rightarrow> Ret x | _ \<Rightarrow> unexpected r)"

text \<open>Without a counter nothing is measured.\<close>

definition measure_model :: "bool \<Rightarrow> string \<Rightarrow> generation_request option \<Rightarrow> measurement serving" where
  "measure_model counter ref g =
     (if \<not> counter then Ret \<lparr>ms_identity = None, ms_counted = None, ms_declared = None, ms_encoder = None, ms_renderer = None\<rparr>
      else Call (QMeasure ref g) (\<lambda>r. case r of AMeasure m \<Rightarrow> Ret m | _ \<Rightarrow> unexpected r))"

definition get_text :: "api_request \<Rightarrow> string option serving" where
  "get_text q = Call q (\<lambda>r. case r of AText x \<Rightarrow> Ret x | _ \<Rightarrow> unexpected r)"

text \<open>A submission: the attempt itself, or what the dispatcher answers instead.\<close>

definition admitted :: "api_request \<Rightarrow> (operation \<Rightarrow> 'a serving) \<Rightarrow> (string \<Rightarrow> int option \<Rightarrow> operation option \<Rightarrow> 'a serving)
    \<Rightarrow> 'a serving \<Rightarrow> 'a serving" where
  "admitted q on_existing on_refused on_attempt = Call q (\<lambda>r. case r of
     AAnswer Attempted \<Rightarrow> on_attempt
   | AAnswer (Existing op) \<Rightarrow> on_existing op
   | AAnswer (Refused why retry op) \<Rightarrow> on_refused why retry op
   | _ \<Rightarrow> unexpected r)"

definition get_flag :: "api_request \<Rightarrow> bool serving" where
  "get_flag q = Call q (\<lambda>r. case r of ABool b \<Rightarrow> Ret b | _ \<Rightarrow> unexpected r)"

definition get_nat :: "api_request \<Rightarrow> nat serving" where
  "get_nat q = Call q (\<lambda>r. case r of ANat n \<Rightarrow> Ret n | _ \<Rightarrow> unexpected r)"

definition get_epoch :: "api_request \<Rightarrow> int option serving" where
  "get_epoch q = Call q (\<lambda>r. case r of AEpoch e \<Rightarrow> Ret e | _ \<Rightarrow> unexpected r)"

definition get_gate :: "api_request \<Rightarrow> gate_state serving" where
  "get_gate q = Call q (\<lambda>r. case r of AGate g \<Rightarrow> Ret g | _ \<Rightarrow> unexpected r)"

definition get_hold :: "(bool \<times> int option) serving" where
  "get_hold = Call QHold (\<lambda>r. case r of AHold c e \<Rightarrow> Ret (c, e) | _ \<Rightarrow> unexpected r)"

definition get_names :: "(string list \<times> string list) serving" where
  "get_names = Call QOutstanding (\<lambda>r. case r of ANames a b \<Rightarrow> Ret (a, b) | _ \<Rightarrow> unexpected r)"

definition act :: "api_request \<Rightarrow> unit serving" where
  "act q = Call q (\<lambda>r. case r of ARaise x d \<Rightarrow> Throw (x, d) | _ \<Rightarrow> Ret ())"

definition with_body :: "reply + 'a \<Rightarrow> ('a \<Rightarrow> reply serving) \<Rightarrow> reply serving" where
  "with_body x f = (case x of Inl r \<Rightarrow> Ret r | Inr a \<Rightarrow> f a)"

text \<open>\<open>except X as exc\<close>: the exceptions it does not name go on.\<close>

definition catching :: "'a serving \<Rightarrow> (string \<Rightarrow> jobj \<Rightarrow> 'a serving option) \<Rightarrow> 'a serving" where
  "catching p h = handle p (\<lambda>(x, d). case h x d of None \<Rightarrow> Throw (x, d) | Some q \<Rightarrow> q)"

section \<open>Attempts described\<close>

definition describe :: "operation \<Rightarrow> jobj serving" where
  "describe r =
     (let base = [(''op_id'', JStr (op_id r)), (''kind'', JStr (kind r)), (''state'', JStr (state_name (op_state r))),
                  (''reason'', jopt_str (reason r)), (''terminal'', case terminal r of None \<Rightarrow> JNull | Some t \<Rightarrow> t),
                  (''replay_unavailable'', JBool (replay_unavailable r))] in
      if op_state r = Completed \<and> store_output r
      then seq (get_json (QResult (op_id r))) (\<lambda>x. Ret (base @ [(''result'', case x of None \<Rightarrow> JNull | Some j \<Rightarrow> j)]))
      else Ret base)"

definition existing :: "operation \<Rightarrow> string \<Rightarrow> string option \<Rightarrow> reply serving" where
  "existing r k hash =
     (if kind r \<noteq> k \<or> (payload_hash r \<noteq> None \<and> payload_hash r \<noteq> hash) then Ret (conflict_reply (op_id r))
      else seq (describe r) (\<lambda>d. Ret (json_reply (JObj d))))"

definition existing_lifecycle :: "operation \<Rightarrow> string \<Rightarrow> reply serving" where
  "existing_lifecycle r k =
     (if kind r \<noteq> k then Ret (conflict_reply (op_id r))
      else seq (describe r) (\<lambda>d.
        Ret (Reply (case op_state r of Completed \<Rightarrow> 200 | Failed \<Rightarrow> 502 | _ \<Rightarrow> 202) (JObj d) None)))"

end
