(* ===== verification/Agent_Routes.thy ===== *)
theory Agent_Routes
  imports Agent_Api
begin

text \<open>
  The routes of \<open>src/backend/app/node_agent/api.py\<close>, each up to the reply it returns or streams, and what
  runs beside a lifecycle operation: the pin after a pull, the recorded capacity and the operator's re-pin.
  The loops over an attempt's events are bounded by a number of events, beyond which the tree raises
  \<open>EventsBeyond\<close>; a route that returns never reached it.
\<close>

record agent_config =
  ac_node :: string
  ac_counter :: bool
  ac_keep_alive :: json

record incoming =
  in_length :: "string option"
  in_parts :: "nat list"
  in_json :: "json option"

definition body_of :: "nat \<Rightarrow> incoming \<Rightarrow> reply + json" where
  "body_of limit i = read_body limit (in_length i) (in_parts i) (in_json i)"

text \<open>A body that does not decode, and a payload the runtime has no words for.\<close>

definition decoded :: "wire_error + 'a \<Rightarrow> reply + 'a" where
  "decoded x = (case x of Inl _ \<Rightarrow> Inl (http_error 400 ''WireError'') | Inr a \<Rightarrow> Inr a)"

definition supported :: "capability_error + 'a \<Rightarrow> 'a serving" where
  "supported x = of_sum (\<lambda>_. (''RuntimeCapabilityError'', [])) x"

text \<open>\<open>async for event in attempt.events()\<close>.\<close>

primrec each_event :: "nat \<Rightarrow> (json \<Rightarrow> 'a \<Rightarrow> 'a serving) \<Rightarrow> 'a \<Rightarrow> 'a serving" where
  "each_event 0 f x = Throw (''EventsBeyond'', [])"
| "each_event (Suc n) f x = seq (get_json QEvent) (\<lambda>e. case e of
     None \<Rightarrow> Ret x
   | Some event \<Rightarrow> seq (f event x) (each_event n f))"

section \<open>Inference\<close>

text \<open>The guard, asked again with the runtime's version only where the legacy rule refuses.\<close>

definition judge :: "agent_config \<Rightarrow> generation_request \<Rightarrow> registration option \<Rightarrow> measurement
    \<Rightarrow> (refusal_reason + guard_pass) serving" where
  "judge c g rg ms =
     (let v = check_generation g rg ms (ac_node c) None VALIDATED in
      if v = Inl ContextExceeded
      then seq (get_text QVersion) (\<lambda>ver. Ret (check_generation g rg ms (ac_node c) ver VALIDATED))
      else Ret v)"

definition terminal_event :: "string \<Rightarrow> operation option \<Rightarrow> bool \<Rightarrow> json" where
  "terminal_event oid found lost = JObj
     [(''type'', JStr ''terminal''), (''op_id'', JStr oid),
      (''state'', JStr (case found of None \<Rightarrow> ''absent'' | Some r \<Rightarrow> state_name (op_state r))),
      (''reason'', case found of None \<Rightarrow> JNull | Some r \<Rightarrow> jopt_str (reason r)),
      (''terminal'', case found of None \<Rightarrow> JNull | Some r \<Rightarrow> (case terminal r of None \<Rightarrow> JNull | Some t \<Rightarrow> t)),
      (''replay_unavailable'', JBool (case found of None \<Rightarrow> False | Some r \<Rightarrow> replay_unavailable r)),
      (''delivery_complete'', JBool (\<not> lost))]"

definition accepted_event :: "string \<Rightarrow> json" where
  "accepted_event oid = JObj [(''type'', JStr ''accepted''), (''op_id'', JStr oid)]"

text \<open>\<open>_stream\<close>: a send raises once the caller has gone away, and the attempt is abandoned however it ends.\<close>

definition stream_reply :: "nat \<Rightarrow> string \<Rightarrow> reply serving" where
  "stream_reply fuel oid = finally_do
     (seq (act (QSend (accepted_event oid))) (\<lambda>_.
      seq (each_event fuel (\<lambda>event _. act (QSend event)) ()) (\<lambda>_.
      seq (act QSettled) (\<lambda>_.
      seq (get_operation oid) (\<lambda>found.
      seq (get_flag QDeliveryLost) (\<lambda>lost.
      seq (act (QSend (terminal_event oid found lost))) (\<lambda>_. Ret Streamed))))))) QAbandon"

definition inference_payload :: "(string \<Rightarrow> json option) \<Rightarrow> agent_config \<Rightarrow> generation_request \<Rightarrow> capability_error + jobj" where
  "inference_payload loads c g =
     chat_payload loads (gr_ref g) (gr_messages g) (Some (gr_max_tokens g)) (gr_thinking g) (gr_tools g)
       (gr_tool_choice g) (gr_sampling g) (Some (gr_context_length g)) (ac_keep_alive c)"

definition inference_sent :: "envelope \<Rightarrow> jobj \<Rightarrow> guard_pass \<Rightarrow> submission" where
  "inference_sent env payload pass = \<lparr>sb_op = env_op_id env, sb_kind = ''inference'',
     sb_what = SendChat payload (env_store_output env) (gp_identity pass), sb_request = env_request_id env,
     sb_hash = env_payload_hash env, sb_store = env_store_output env, sb_provenance = gp_provenance pass\<rparr>"

definition inference_new :: "(string \<Rightarrow> json option) \<Rightarrow> agent_config \<Rightarrow> nat \<Rightarrow> generation_request \<Rightarrow> envelope \<Rightarrow> reply serving" where
  "inference_new loads c fuel g env =
     seq (get_registration (gr_ref g)) (\<lambda>rg.
     seq (measure_model (ac_counter c) (gr_ref g) (Some g)) (\<lambda>ms.
     seq (judge c g rg ms) (\<lambda>v.
     case v of Inl why \<Rightarrow> Ret (guard_reply why)
     | Inr pass \<Rightarrow>
       seq (supported (inference_payload loads c g)) (\<lambda>payload.
       admitted (QSubmit (inference_sent env payload pass))
         (\<lambda>r. existing r ''inference'' (env_payload_hash env))
         (\<lambda>why retry op. Ret (refused_reply why retry op))
         (stream_reply fuel (env_op_id env))))))"

definition inference :: "(string \<Rightarrow> json option) \<Rightarrow> agent_config \<Rightarrow> nat \<Rightarrow> incoming \<Rightarrow> reply serving" where
  "inference loads c fuel i =
     with_body (body_of MAX_BODY_BYTES i) (\<lambda>body.
     with_body (decoded (decode_generation body)) (\<lambda>(g, env).
     seq (get_operation (env_op_id env)) (\<lambda>found.
     case found of Some r \<Rightarrow> existing r ''inference'' (env_payload_hash env)
     | None \<Rightarrow> inference_new loads c fuel g env)))"

section \<open>Summaries\<close>

definition SUMMARY_INPUT_MAX_BYTES :: nat where
  "SUMMARY_INPUT_MAX_BYTES = 4 * 1024 * 1024"

definition SUMMARISE_SYSTEM :: string where
  "SUMMARISE_SYSTEM =
     ''Summarise the following conversation history. Preserve every factual claim, number, decision, ''
     @ ''file path, code snippet, and action item exactly as stated. Do not add anything that was not in ''
     @ ''the original. Do not editorialize. Write the summary as a flat list of statements, each on its ''
     @ ''own line, in the order they appeared. Keep the summary under 500 tokens.''"

definition plain_message :: "message_role \<Rightarrow> string \<Rightarrow> chat_message" where
  "plain_message who text = \<lparr>msg_role = who, msg_content = text, msg_tool_calls = [], msg_tool_call_id = None, msg_name = None\<rparr>"

fun blank_line_join :: "string list \<Rightarrow> string" where
  "blank_line_join [] = []"
| "blank_line_join [x] = x"
| "blank_line_join (x # xs) = x @ [CHR 0x0A, CHR 0x0A] @ blank_line_join xs"

definition build_summary_prompt :: "chat_message list \<Rightarrow> chat_message list option" where
  "build_summary_prompt ms =
     (if sum_list (map (\<lambda>m. utf8_length (msg_content m)) ms) > SUMMARY_INPUT_MAX_BYTES then None
      else Some [plain_message SYSTEM SUMMARISE_SYSTEM,
        plain_message USER (blank_line_join
          (map (\<lambda>m. ''['' @ role_value (msg_role m) @ ''] '' @ msg_content m) (filter (\<lambda>m. msg_content m \<noteq> []) ms)))])"

definition summary_request :: "generation_request \<Rightarrow> chat_message list \<Rightarrow> generation_request" where
  "summary_request g prompt = g\<lparr>gr_messages := prompt, gr_max_tokens := SUMMARY_OUTPUT_TOKENS, gr_thinking := False,
     gr_tools := [], gr_tool_choice := None, gr_sampling := None\<rparr>"

text \<open>
  The bounded first part: what is sent, or the refusal. A timeout is a \<open>TimeoutError\<close> of the call that was
  waiting, and is refused as an over-long input is.
\<close>

definition summary_verdict :: "agent_config \<Rightarrow> generation_request \<Rightarrow> (refusal_reason + generation_request \<times> guard_pass) serving" where
  "summary_verdict c prefix = catching
     (case build_summary_prompt (gr_messages prefix) of
        None \<Rightarrow> Throw (''SummaryTooLongError'', [])
      | Some prompt \<Rightarrow>
          let g = summary_request prefix prompt in
          seq (get_registration (gr_ref g)) (\<lambda>rg.
          seq (measure_model (ac_counter c) (gr_ref g) (Some g)) (\<lambda>ms.
          if ms_counted ms = None \<or> ms_declared ms = None then Ret (Inl SummaryCounterUnavailable)
          else seq (get_text QVersion) (\<lambda>ver.
            Ret (case check_generation g rg ms (ac_node c) ver VALIDATED of Inl why \<Rightarrow> Inl why | Inr pass \<Rightarrow> Inr (g, pass))))))
     (\<lambda>x _. if x = ''SummaryTooLongError'' \<or> x = ''TimeoutError'' then Some (Ret (Inl SummaryInputExceeded)) else None)"

text \<open>\<open>event["text"]\<close> of the event that carries the summary.\<close>

definition take_summary :: "json \<Rightarrow> json \<Rightarrow> json serving" where
  "take_summary event text =
     (if jget event ''type'' \<noteq> JStr ''summary'' then Ret text
      else case event of JObj d \<Rightarrow> (case map_of d ''text'' of Some v \<Rightarrow> Ret v | None \<Rightarrow> Throw (''KeyError'', []))
        | _ \<Rightarrow> Throw (''TypeError'', []))"

definition summary_text_wait :: "nat \<Rightarrow> json option serving" where
  "summary_text_wait fuel = catching
     (seq (each_event fuel take_summary JNull) (\<lambda>text. seq (act QSettled) (\<lambda>_. Ret (Some text))))
     (\<lambda>x _. if x = ''TimeoutError'' then Some (Ret None) else None)"

definition failed_status :: "operation \<Rightarrow> int" where
  "failed_status r = (if op_state r = Failed then 502 else 503)"

definition summary_done :: "string \<Rightarrow> json \<Rightarrow> reply serving" where
  "summary_done oid text = seq (get_operation oid) (\<lambda>found.
     case found of None \<Rightarrow> Ret (http_error 500 ''summary attempt vanished'')
     | Some r \<Rightarrow> seq (describe r) (\<lambda>d.
         if op_state r = Completed \<and> text \<noteq> JNull then Ret (json_reply (JObj (d @ [(''summary'', text)])))
         else Ret (Reply (failed_status r) (JObj d) (Some 60))))"

definition summary_payload :: "(string \<Rightarrow> json option) \<Rightarrow> agent_config \<Rightarrow> generation_request \<Rightarrow> capability_error + jobj" where
  "summary_payload loads c g = chat_payload loads (gr_ref g) (gr_messages g) (Some SUMMARY_OUTPUT_TOKENS) False [] None None
     (Some (gr_context_length g)) (ac_keep_alive c)"

definition summary_submit :: "(string \<Rightarrow> json option) \<Rightarrow> agent_config \<Rightarrow> nat \<Rightarrow> envelope \<Rightarrow> generation_request \<Rightarrow> guard_pass
    \<Rightarrow> reply serving" where
  "summary_submit loads c fuel env g pass =
     seq (supported (summary_payload loads c g)) (\<lambda>payload.
     admitted (QSubmit \<lparr>sb_op = env_op_id env, sb_kind = ''summary'',
         sb_what = SendSummary payload (gp_identity pass) (gr_ref g), sb_request = env_request_id env,
         sb_hash = env_payload_hash env, sb_store = env_store_output env, sb_provenance = gp_provenance pass\<rparr>)
       (\<lambda>r. existing r ''summary'' (env_payload_hash env))
       (\<lambda>why retry op. Ret (refused_reply why retry op))
       (seq (summary_text_wait fuel) (\<lambda>text.
          case text of
            None \<Rightarrow> Ret (Reply 503 (JObj [(''op_id'', JStr (env_op_id env)), (''refused'', JStr ''summary_wait_deadline'')]) (Some 2))
          | Some t \<Rightarrow> summary_done (env_op_id env) t)))"

definition summary_new :: "(string \<Rightarrow> json option) \<Rightarrow> agent_config \<Rightarrow> nat \<Rightarrow> generation_request \<Rightarrow> envelope \<Rightarrow> reply serving" where
  "summary_new loads c fuel prefix env =
     admitted QSummaryAdmission (\<lambda>_. unexpected ADone) (\<lambda>why retry op. Ret (refused_reply why retry op))
       (if \<not> ac_counter c then Ret (guard_reply SummaryCounterUnavailable)
        else seq (summary_verdict c prefix) (\<lambda>v.
          case v of Inl why \<Rightarrow> Ret (guard_reply why) | Inr (g, pass) \<Rightarrow> summary_submit loads c fuel env g pass))"

definition summary :: "(string \<Rightarrow> json option) \<Rightarrow> agent_config \<Rightarrow> nat \<Rightarrow> incoming \<Rightarrow> reply serving" where
  "summary loads c fuel i =
     with_body (body_of SUMMARY_INPUT_MAX_BYTES i) (\<lambda>body.
     with_body (decoded (decode_generation body)) (\<lambda>(prefix, env).
     seq (get_operation (env_op_id env)) (\<lambda>found.
     case found of Some r \<Rightarrow> existing r ''summary'' (env_payload_hash env)
     | None \<Rightarrow> summary_new loads c fuel prefix env)))"

section \<open>Embeddings\<close>

definition take_embeddings :: "json \<Rightarrow> json \<Rightarrow> json serving" where
  "take_embeddings event vectors = Ret (if jget event ''type'' = JStr ''embeddings'' then jget event ''data'' else vectors)"

definition embeddings_done :: "nat \<Rightarrow> string \<Rightarrow> reply serving" where
  "embeddings_done fuel oid =
     seq (each_event fuel take_embeddings JNull) (\<lambda>vectors.
     seq (act QSettled) (\<lambda>_.
     seq (get_operation oid) (\<lambda>found.
     case found of None \<Rightarrow> Ret (http_error 500 ''attempt vanished'')
     | Some r \<Rightarrow> seq (describe r) (\<lambda>d.
         if op_state r = Completed then Ret (json_reply (JObj (d @ [(''embeddings'', vectors)])))
         else Ret (Reply (failed_status r) (JObj d) None)))))"

definition embeddings_sent :: "agent_config \<Rightarrow> embedding_request \<Rightarrow> envelope \<Rightarrow> measurement \<Rightarrow> submission" where
  "embeddings_sent c batch env ms = \<lparr>sb_op = env_op_id env, sb_kind = ''embedding_batch'',
     sb_what = SendEmbed (embed_payload (er_ref batch) (er_texts batch) (ac_keep_alive c)) (env_store_output env) (ms_identity ms),
     sb_request = env_request_id env, sb_hash = env_payload_hash env, sb_store = env_store_output env,
     sb_provenance = [(''manifest'', jopt_str (ms_identity ms)), (''texts'', JInt (int (length (er_texts batch))))]\<rparr>"

text \<open>Why the weights that would answer are refused, if they are.\<close>

definition embeddings_refused :: "embedding_request \<Rightarrow> registration \<Rightarrow> measurement \<Rightarrow> refusal_reason option" where
  "embeddings_refused batch rg ms =
     (if er_expected_manifest batch \<noteq> None \<and> ms_identity ms \<noteq> er_expected_manifest batch
      then Some EmbeddingRevisionMismatch else check_pin rg (ms_identity ms))"

definition embeddings_new :: "agent_config \<Rightarrow> nat \<Rightarrow> embedding_request \<Rightarrow> envelope \<Rightarrow> reply serving" where
  "embeddings_new c fuel batch env =
     seq (get_registration (er_ref batch)) (\<lambda>rg.
     case rg of None \<Rightarrow> Ret (guard_reply ModelNotOnNode)
     | Some rg \<Rightarrow>
       seq (measure_model (ac_counter c) (er_ref batch) None) (\<lambda>ms.
       case embeddings_refused batch rg ms of Some why \<Rightarrow> Ret (guard_reply why)
       | None \<Rightarrow>
         admitted (QSubmit (embeddings_sent c batch env ms))
           (\<lambda>r. existing r ''embedding_batch'' (env_payload_hash env))
           (\<lambda>why retry op. Ret (refused_reply why retry op))
           (embeddings_done fuel (env_op_id env))))"

definition embeddings :: "agent_config \<Rightarrow> nat \<Rightarrow> incoming \<Rightarrow> reply serving" where
  "embeddings c fuel i =
     with_body (body_of MAX_BODY_BYTES i) (\<lambda>body.
     with_body (decoded (decode_embedding body)) (\<lambda>(batch, env).
     seq (get_operation (env_op_id env)) (\<lambda>found.
     case found of Some r \<Rightarrow> existing r ''embedding_batch'' (env_payload_hash env)
     | None \<Rightarrow> embeddings_new c fuel batch env)))"

section \<open>Beside a lifecycle operation\<close>

text \<open>\<open>_record_capacity\<close>; the row pinned to other weights is left alone by the UPDATE itself.\<close>

definition record_capacity :: "agent_config \<Rightarrow> string \<Rightarrow> outcome \<Rightarrow> unit serving" where
  "record_capacity c ref out = (case out of
     RtCompleted _ _ _ \<Rightarrow>
       seq (measure_model (ac_counter c) ref None) (\<lambda>ms. act (QCapacity ref (ms_declared ms \<noteq> None) (ms_identity ms)))
   | _ \<Rightarrow> Ret ())"

text \<open>The UPDATE, on the models of one node and runtime: ref, pin and whether a capacity is validated.\<close>

definition capacity_rows :: "string \<Rightarrow> bool \<Rightarrow> string option \<Rightarrow> (string \<times> string option \<times> bool) list
    \<Rightarrow> (string \<times> string option \<times> bool) list" where
  "capacity_rows ref ok weights rows = map (\<lambda>(m, pin, v).
     if m = ref \<and> (pin = None \<or> (weights \<noteq> None \<and> pin = weights)) then (m, pin, ok) else (m, pin, v)) rows"

definition repin_after :: "agent_config \<Rightarrow> lifecycle_request \<Rightarrow> outcome \<Rightarrow> unit serving" where
  "repin_after c wanted out = (case out of
     RtCompleted _ _ _ \<Rightarrow>
       seq (get_text (QServed (lr_ref wanted))) (\<lambda>digest.
       case digest of None \<Rightarrow> Ret ()
       | Some d \<Rightarrow>
         seq (get_nat (QRepin (lr_op_id wanted) (lr_ref wanted) d)) (\<lambda>moved.
         seq (act (QAudit ''repin'' (Some (lr_op_id wanted))
           (JObj [(''ref'', JStr (lr_ref wanted)), (''digest'', JStr d), (''models'', JInt (int moved))]))) (\<lambda>_.
         record_capacity c (lr_ref wanted) out)))
   | _ \<Rightarrow> Ret ())"

text \<open>\<open>except Exception\<close>: everything but a cancellation.\<close>

definition on_exception :: "'a serving \<Rightarrow> (string \<Rightarrow> 'a serving) \<Rightarrow> 'a serving" where
  "on_exception p h = catching p (\<lambda>x _. if x = ''CancelledError'' then None else Some (h x))"

text \<open>\<open>_operator_repin\<close>: the listing and the store must both report exactly what the operator approved.\<close>

definition pin_approved :: "lifecycle_request \<Rightarrow> string \<Rightarrow> jobj \<Rightarrow> outcome serving" where
  "pin_approved wanted approved evidence =
     seq (on_exception (seq (get_nat (QRepin (lr_op_id wanted) (lr_ref wanted) approved)) (\<lambda>n. Ret (Some n)))
            (\<lambda>_. Ret None)) (\<lambda>moved.
     case moved of None \<Rightarrow> Ret (RuntimeRefused evidence ''pin_not_written'')
     | Some n \<Rightarrow>
       seq (on_exception (act (QAudit ''repin'' (Some (lr_op_id wanted))
              (JObj [(''ref'', JStr (lr_ref wanted)), (''digest'', JStr approved), (''models'', JInt (int n)),
                     (''by'', JStr ''operator'')]))) (\<lambda>_. Ret ())) (\<lambda>_.
       Ret (RtCompleted (dmerge evidence [(''models'', JInt (int n))]) None False)))"

definition repin_judged :: "lifecycle_request \<Rightarrow> string option \<Rightarrow> measurement \<Rightarrow> outcome serving" where
  "repin_judged wanted served ms =
     (let approved = lr_manifest_digest wanted;
          evidence = dmerge [(''approved'', jopt_str approved)] [(''served'', jopt_str served), (''measured'', jopt_str (ms_identity ms))] in
      if served = None then Ret (RuntimeRefused evidence ''not_listed'')
      else case approved of None \<Rightarrow> Ret (RuntimeRefused evidence ''digest_mismatch'')
      | Some a \<Rightarrow>
          if served \<noteq> approved \<or> ms_identity ms \<noteq> approved then Ret (RuntimeRefused evidence ''digest_mismatch'')
          else pin_approved wanted a evidence)"

definition operator_repin :: "agent_config \<Rightarrow> lifecycle_request \<Rightarrow> outcome serving" where
  "operator_repin c wanted =
     seq (on_exception (seq (get_text (QServed (lr_ref wanted))) (\<lambda>d. Ret (Inr d))) (\<lambda>x. Ret (Inl x))) (\<lambda>served.
     case served of
       Inl x \<Rightarrow> Ret (RuntimeRefused [(''approved'', jopt_str (lr_manifest_digest wanted))] (''revision_unconfirmed:'' @ x))
     | Inr d \<Rightarrow> seq (measure_model (ac_counter c) (lr_ref wanted) None) (repin_judged wanted d))"

section \<open>Lifecycle\<close>

text \<open>\<open>x or y\<close> on optional integers.\<close>

definition int_or :: "int option \<Rightarrow> int option \<Rightarrow> int option" where
  "int_or x y = (case x of Some n \<Rightarrow> if n \<noteq> 0 then x else y | None \<Rightarrow> y)"

definition least_of :: "int option \<Rightarrow> int option \<Rightarrow> int option" where
  "least_of bound x = (case (bound, x) of (Some b, Some n) \<Rightarrow> Some (min n b) | _ \<Rightarrow> x)"

text \<open>What a load is sized by, or why it is refused.\<close>

definition load_context :: "agent_config \<Rightarrow> lifecycle_request \<Rightarrow> registration \<Rightarrow> (refusal_reason + int option) serving" where
  "load_context c wanted rg =
     (if lr_context_length wanted \<noteq> None \<and> rg_context rg > 0 \<and> lr_context_length wanted \<noteq> Some (rg_context rg)
      then Ret (Inl ContextLengthMismatch)
      else seq (measure_model (ac_counter c) (lr_ref wanted) None) (\<lambda>ms.
        case check_pin rg (ms_identity ms) of Some why \<Rightarrow> Ret (Inl why)
        | None \<Rightarrow> Ret (Inr (least_of (ms_declared ms) (int_or (Some (rg_context rg)) (lr_context_length wanted))))))"

definition lifecycle_done :: "string \<Rightarrow> string \<Rightarrow> reply serving" where
  "lifecycle_done oid action = seq (get_operation oid) (\<lambda>found.
     case found of None \<Rightarrow> Ret (http_error 500 ''operation vanished'') | Some r \<Rightarrow> existing_lifecycle r action)"

definition lifecycle_what :: "agent_config \<Rightarrow> string \<Rightarrow> lifecycle_request \<Rightarrow> int option \<Rightarrow> send_what" where
  "lifecycle_what c action wanted context =
     (if action = ''load'' then SendLoad (lr_ref wanted) (ac_keep_alive c) context
      else if action = ''unload'' then SendUnload (lr_ref wanted)
      else if action = ''repin'' then SendRepin wanted
      else SendPull (lr_ref wanted))"

definition lifecycle_after :: "string \<Rightarrow> lifecycle_request \<Rightarrow> after_what" where
  "lifecycle_after action wanted =
     (if action = ''pull'' then AfterPull wanted
      else if action = ''load'' \<or> action = ''repin'' then AfterCapacity (lr_ref wanted) else NoAfter)"

definition lifecycle_submit :: "agent_config \<Rightarrow> nat \<Rightarrow> string \<Rightarrow> lifecycle_request \<Rightarrow> int option \<Rightarrow> reply serving" where
  "lifecycle_submit c fuel action wanted context =
     admitted (QExclusive \<lparr>ex_op = lr_op_id wanted, ex_kind = action, ex_what = lifecycle_what c action wanted context,
         ex_provenance = [(''ref'', JStr (lr_ref wanted)), (''context_length'', jopt_int context)],
         ex_after = lifecycle_after action wanted, ex_epoch = None\<rparr>)
       (\<lambda>r. existing_lifecycle r action)
       (\<lambda>why retry op. Ret (refused_reply why retry op))
       (if action = ''pull'' then stream_reply fuel (lr_op_id wanted)
        else seq (each_event fuel (\<lambda>_ _. Ret ()) ()) (\<lambda>_.
             seq (act QSettled) (\<lambda>_. lifecycle_done (lr_op_id wanted) action)))"

definition lifecycle_new :: "agent_config \<Rightarrow> nat \<Rightarrow> string \<Rightarrow> lifecycle_request \<Rightarrow> reply serving" where
  "lifecycle_new c fuel action wanted =
     seq (get_registration (lr_ref wanted)) (\<lambda>rg.
     case rg of None \<Rightarrow> Ret (guard_reply ModelNotOnNode)
     | Some rg \<Rightarrow>
       if action = ''repin'' \<and> lr_manifest_digest wanted = None
       then Ret (http_error 400 ''a repin names the approved manifest_digest'')
       else
       seq (if action = ''load'' then load_context c wanted rg else Ret (Inr None)) (\<lambda>context.
       case context of Inl why \<Rightarrow> Ret (guard_reply why)
       | Inr context \<Rightarrow> lifecycle_submit c fuel action wanted context))"

definition lifecycle :: "agent_config \<Rightarrow> nat \<Rightarrow> string \<Rightarrow> incoming \<Rightarrow> reply serving" where
  "lifecycle c fuel action i =
     (if action \<notin> set LIFECYCLE_KINDS then Ret (http_error 404 ''no lifecycle action'')
      else
      with_body (body_of MAX_BODY_BYTES i) (\<lambda>body.
      with_body (decoded (decode_lifecycle body)) (\<lambda>wanted.
      seq (get_operation (lr_op_id wanted)) (\<lambda>found.
      case found of Some r \<Rightarrow> existing_lifecycle r action
      | None \<Rightarrow> lifecycle_new c fuel action wanted))))"

section \<open>Reading\<close>

definition healthz :: "reply serving" where
  "healthz = seq (get_gate QGate) (\<lambda>g. Ret (json_reply (JObj [(''status'', JStr ''ok''), (''gate'', JStr (gate_value g))])))"

text \<open>The first fields do not change while the process lives, except whether its host lock is still held.\<close>

definition status :: "string \<Rightarrow> int \<Rightarrow> string \<Rightarrow> string \<Rightarrow> reply serving" where
  "status node generation boot domain =
     seq (get_flag QHeld) (\<lambda>held.
     seq (get_gate QGate) (\<lambda>g.
     seq (get_nat QAdmitted) (\<lambda>n.
     seq (get_flag QQuiescent) (\<lambda>q.
     seq (get_epoch QFrozenEpoch) (\<lambda>epoch.
     seq (get_flag QAvailable) (\<lambda>available.
     seq (get_flag QUnknown) (\<lambda>unknown.
     seq (get_text QVersion) (\<lambda>version.
       Ret (json_reply (JObj
         [(''node_id'', JStr node), (''generation'', JInt generation), (''boot_id'', JStr boot), (''domain_id'', JStr domain),
          (''host_lock_held'', JBool held), (''gate'', JStr (gate_value g)), (''admitted'', JInt (int n)),
          (''quiescent'', JBool q), (''maintenance_epoch'', jopt_int epoch), (''supervisor_available'', JBool available),
          (''unknown'', JBool unknown), (''runtime_version'', jopt_str version),
          (''runtime_reachable'', JBool (version \<noteq> None))]))))))))))"

definition residency_route :: "reply serving" where
  "residency_route = seq (get_json QResidency) (\<lambda>r. Ret (case r of
     None \<Rightarrow> Reply 503 (JObj [(''refused'', JStr ''runtime_unobserved'')]) None | Some j \<Rightarrow> json_reply j))"

definition model_capacity :: "agent_config \<Rightarrow> string \<Rightarrow> reply serving" where
  "model_capacity c ref =
     (if ref = [] \<or> length ref > 255 then Ret (http_error 422 ''ref'')
      else seq (measure_model (ac_counter c) ref None) (\<lambda>ms.
        Ret (json_reply (JObj [(''manifest_digest'', jopt_str (ms_identity ms)),
          (''declared_context_length'', jopt_int (ms_declared ms)), (''embedding_manifest_pin'', JBool True)]))))"

definition attempt_route :: "string \<Rightarrow> reply serving" where
  "attempt_route oid = seq (get_operation oid) (\<lambda>found.
     case found of
       None \<Rightarrow> Ret (Reply 404 (JObj [(''op_id'', JStr oid), (''state'', JStr ''absent'')]) None)
     | Some r \<Rightarrow> seq (describe r) (\<lambda>d. Ret (json_reply (JObj d))))"

definition runtime_receipt :: "string \<Rightarrow> reply serving" where
  "runtime_receipt rid = seq (get_json (QReceiptOf rid)) (\<lambda>r. Ret (case r of
     None \<Rightarrow> Reply 404 (JObj [(''request_id'', JStr rid)]) None | Some j \<Rightarrow> json_reply j))"

section \<open>Cancelling, draining and resuming\<close>

definition CANCELLABLE_KINDS :: "string list" where
  "CANCELLABLE_KINDS = [''inference'', ''embedding_batch'', ''summary'']"

definition cancel_answer :: "string \<Rightarrow> string \<Rightarrow> operation option option serving" where
  "cancel_answer oid k = catching
     (Call (QCancel oid ''cancel_requested'' k) (\<lambda>r. case r of AOperation x \<Rightarrow> Ret (Some x) | _ \<Rightarrow> unexpected r))
     (\<lambda>x _. if x = ''NotOwner'' then Some (seq (act (QLoseRole ''not_owner_at_cancel'')) (\<lambda>_. Ret None)) else None)"

definition cancel_route :: "string \<Rightarrow> string \<Rightarrow> reply serving" where
  "cancel_route oid k =
     (if k \<notin> set CANCELLABLE_KINDS then Ret (http_error 400 ''kind'')
      else seq (cancel_answer oid k) (\<lambda>out. case out of
          None \<Rightarrow> Ret (Reply 503 (JObj [(''refused'', JStr ''node_lost'')]) None)
        | Some None \<Rightarrow> Ret (http_error 500 ''cancellation left no row'')
        | Some (Some r) \<Rightarrow> seq (describe r) (\<lambda>d. Ret (json_reply (JObj d)))))"

definition drain :: "reply serving" where
  "drain = seq (act QDrain) (\<lambda>_. seq (get_gate QGate) (\<lambda>g. seq (get_nat QAdmitted) (\<lambda>n.
     Ret (json_reply (JObj [(''gate'', JStr (gate_value g)), (''admitted'', JInt (int n))])))))"

text \<open>
  \<open>runtime_quiet_for_serving\<close> of \<open>service.py\<close>: what the supervisor has not taken is withdrawn, and what it
  has taken keeps the node from serving.
\<close>

primrec withdraw_all :: "string list \<Rightarrow> unit serving" where
  "withdraw_all [] = Ret ()"
| "withdraw_all (rid # rids) = seq (get_flag (QWithdraw rid)) (\<lambda>gone.
     seq (if gone then act (QAudit ''runtime_control_withdrawn'' None (JObj [(''request_id'', JStr rid)])) else Ret ()) (\<lambda>_.
     withdraw_all rids))"

definition runtime_quiet_for_serving :: "bool serving" where
  "runtime_quiet_for_serving =
     seq get_names (\<lambda>(waiting, _).
     seq (withdraw_all waiting) (\<lambda>_.
     seq get_names (\<lambda>(_, running). Ret (running = []))))"

definition resume :: "reply serving" where
  "resume = seq runtime_quiet_for_serving (\<lambda>quiet.
     if \<not> quiet then Ret (Reply 409 (JObj [(''refused'', JStr ''runtime_request_running'')]) None)
     else seq (get_gate QReopen) (\<lambda>g. Ret (json_reply (JObj [(''gate'', JStr (gate_value g))]))))"

end
