(* ===== verification/Agent_Maintenance.thy ===== *)
theory Agent_Maintenance
  imports Agent_Routes
begin

text \<open>
  The routes of \<open>src/backend/app/node_agent/api.py\<close> under \<open>/v1/maintenance\<close>, and what the agent does by
  itself: following the platform's hold, its watchdog and the opening of its gate
  (\<open>src/backend/app/node_agent/service.py\<close>).
\<close>

definition refusal :: "int \<Rightarrow> string \<Rightarrow> jobj \<Rightarrow> reply" where
  "refusal st why extra = Reply st (JObj ((''refused'', JStr why) # extra)) None"

section \<open>Resolving blocks\<close>

text \<open>\<open>str(body.get(key, ""))\<close>.\<close>

definition stated :: "jobj \<Rightarrow> string \<Rightarrow> string" where
  "stated d k = (case map_of d k of None \<Rightarrow> [] | Some v \<Rightarrow> py_str v)"

definition answered :: "api_request \<Rightarrow> json serving" where
  "answered q = seq (get_json q) (\<lambda>j. Ret (case j of None \<Rightarrow> JNull | Some v \<Rightarrow> v))"

definition refusing :: "reply serving \<Rightarrow> reply serving" where
  "refusing p = catching p (\<lambda>x d. if x = ''ResolutionRefused''
     then Some (Ret (Reply 409 (JObj [(''refused'', dget d ''detail'')]) None)) else None)"

definition start_resolution :: "incoming \<Rightarrow> reply serving" where
  "start_resolution i = with_body (body_of MAX_BODY_BYTES i) (\<lambda>body.
     case body of
       JObj d \<Rightarrow> refusing (seq (answered (QResolutionStart (stated d ''op_id'') (stated d ''evidence'') (stated d ''operator'')))
         (\<lambda>j. Ret (json_reply j)))
     | _ \<Rightarrow> Ret (http_error 400 ''body must be an object''))"

definition complete_resolution :: "string \<Rightarrow> reply serving" where
  "complete_resolution rid = refusing (seq (answered (QResolutionComplete rid)) (\<lambda>j. Ret (json_reply j)))"

definition supervised_reset :: "incoming \<Rightarrow> reply serving" where
  "supervised_reset i = with_body (body_of MAX_BODY_BYTES i) (\<lambda>body.
     with_body (text_member body ''op_id'' 128) (\<lambda>oid.
     with_body (text_member body ''operator'' 128) (\<lambda>who.
     with_body (text_member body ''evidence'' 500) (\<lambda>evidence.
     refusing (seq (answered (QSupervisedReset oid evidence who)) (\<lambda>j. Ret (json_reply j)))))))"

section \<open>Behind a closed hold\<close>

text \<open>The hold the database says is closed, at the epoch named.\<close>

definition held_at :: "int \<Rightarrow> reply serving \<Rightarrow> reply serving" where
  "held_at ep p = seq get_hold (\<lambda>(closed, current).
     if \<not> closed \<or> current \<noteq> Some ep
     then Ret (refusal 409 ''hold_not_closed_at_epoch'' [(''closed'', JBool closed), (''epoch'', jopt_int current)])
     else p)"

text \<open>\<open>report | {"gate": ...}\<close>.\<close>

definition with_gate :: "json \<Rightarrow> reply serving" where
  "with_gate report = (case report of
     JObj d \<Rightarrow> seq (get_gate QGate) (\<lambda>g. Ret (json_reply (JObj (dmerge d [(''gate'', JStr (gate_value g))]))))
   | _ \<Rightarrow> Throw (''TypeError'', []))"

definition interrupt :: "incoming \<Rightarrow> reply serving" where
  "interrupt i = with_body (body_of MAX_BODY_BYTES i) (\<lambda>body.
     with_body (epoch_member body) (\<lambda>epoch.
     held_at epoch
       (seq (act (QFreeze (Some epoch))) (\<lambda>_.
        seq (answered QInterrupt) (\<lambda>report.
        seq (act (QAudit ''maintenance_interrupt'' None report)) (\<lambda>_. with_gate report))))))"

definition reset_report :: "int \<Rightarrow> string \<Rightarrow> string \<Rightarrow> (reply + json) serving" where
  "reset_report ep rid who = catching (seq (answered (QMaintenanceReset ep rid who)) (\<lambda>j. Ret (Inr j)))
     (\<lambda>x d.
       if x = ''SupervisorRefused''
       then Some (Ret (Inl (refusal 503 ''supervisor_unanswered'' [(''detail'', dget d ''detail''), (''request_id'', dget d ''request_id'')])))
       else if x = ''ResetFailed''
       then Some (Ret (Inl (refusal 502 ''restart_failed'' [(''supervisor_receipt'', dget d ''receipt'')])))
       else if x = ''ResolutionRefused''
       then Some (Ret (Inl (refusal 409 ''hold_not_closed_at_epoch'' [(''detail'', dget d ''detail'')])))
       else None)"

definition maintenance_reset_route :: "incoming \<Rightarrow> reply serving" where
  "maintenance_reset_route i = with_body (body_of MAX_BODY_BYTES i) (\<lambda>body.
     with_body (epoch_member body) (\<lambda>epoch.
     with_body (text_member body ''reset_id'' 32) (\<lambda>rid.
     if \<not> is_id rid then Ret (http_error 400 ''reset_id must be 32 lowercase hex'')
     else with_body (text_member body ''operator'' 128) (\<lambda>who.
     held_at epoch
       (seq (act (QFreeze (Some epoch))) (\<lambda>_.
        seq (get_flag QQuiescent) (\<lambda>q.
        if \<not> q then Ret (refusal 409 ''node_not_quiescent'' [])
        else seq (reset_report epoch rid who) (\<lambda>report. with_body report with_gate))))))))"

section \<open>Putting a saved model back\<close>

text \<open>\<open>/api/ps\<close> names a model with its tag; a registration may not.\<close>

definition LATEST :: string where
  "LATEST = '':latest''"

definition spellings :: "string \<Rightarrow> string list" where
  "spellings name = name #
     (case stem LATEST name of
        Some short \<Rightarrow> [short]
      | None \<Rightarrow> if CHR '':'' \<in> set name then [] else [name @ LATEST])"

primrec first_registered :: "string list \<Rightarrow> (string \<times> registration) option serving" where
  "first_registered [] = Ret None"
| "first_registered (n # ns) = seq (get_registration n) (\<lambda>rg.
     case rg of Some r \<Rightarrow> Ret (Some (n, r)) | None \<Rightarrow> first_registered ns)"

definition context_member :: "json \<Rightarrow> reply + int option" where
  "context_member body = (case jget body ''context_length'' of
     JNull \<Rightarrow> Inr None | JInt n \<Rightarrow> Inr (Some n) | _ \<Rightarrow> Inl (http_error 400 ''context_length must be an integer''))"

definition digest_member :: "json \<Rightarrow> string option" where
  "digest_member body = (case jget body ''digest'' of JStr d \<Rightarrow> Some d | _ \<Rightarrow> None)"

text \<open>The weights, the pin and the context a restore insists on, and the context it loads with.\<close>

definition restore_context :: "registration \<Rightarrow> measurement \<Rightarrow> string option \<Rightarrow> int option \<Rightarrow> refusal_reason + int option" where
  "restore_context rg ms digest wanted =
     (if digest \<noteq> None \<and> ms_identity ms \<noteq> digest then Inl RevisionMismatch
      else case check_pin rg (ms_identity ms) of Some why \<Rightarrow> Inl why
      | None \<Rightarrow>
          let context = least_of (ms_declared ms) (int_or (Some (rg_context rg)) None) in
          if wanted \<noteq> None \<and> context \<noteq> None \<and> context \<noteq> wanted then Inl ContextLengthMismatch
          else Inr (int_or wanted context))"

definition restore_what :: "agent_config \<Rightarrow> string \<Rightarrow> string \<Rightarrow> registration \<Rightarrow> int option \<Rightarrow> send_what" where
  "restore_what c action ref rg context =
     (if action = ''load'' then SendLoad ref (ac_keep_alive c) context
      else SendProbe ref (''embedding'' \<in> set (rg_capabilities rg)) (ac_keep_alive c) context)"

definition restore_run :: "agent_config \<Rightarrow> string \<Rightarrow> string \<Rightarrow> int \<Rightarrow> string \<Rightarrow> registration \<Rightarrow> int option \<Rightarrow> reply serving" where
  "restore_run c oid action ep ref rg context =
     admitted (QExclusive \<lparr>ex_op = oid, ex_kind = action, ex_what = restore_what c action ref rg context,
         ex_provenance = [(''ref'', JStr ref), (''context_length'', jopt_int context),
           (''maintenance_epoch'', JInt ep), (''restore'', JBool True)],
         ex_after = (if action = ''load'' then AfterCapacity ref else NoAfter), ex_epoch = Some ep\<rparr>)
       (\<lambda>r. existing_lifecycle r action)
       (\<lambda>why retry op. Ret (Reply 409 (JObj [(''refused'', JStr why)]) None))
       (seq (act QSettled) (\<lambda>_. lifecycle_done oid action))"

definition restore_held :: "agent_config \<Rightarrow> string \<Rightarrow> string \<Rightarrow> int \<Rightarrow> string \<Rightarrow> string option \<Rightarrow> int option \<Rightarrow> reply serving" where
  "restore_held c oid action ep name digest wanted =
     seq (get_operation oid) (\<lambda>found.
     case found of Some r \<Rightarrow> existing_lifecycle r action
     | None \<Rightarrow>
       seq (first_registered (spellings name)) (\<lambda>registered.
       case registered of None \<Rightarrow> Ret (guard_reply ModelNotOnNode)
       | Some (ref, rg) \<Rightarrow>
         seq (measure_model (ac_counter c) ref None) (\<lambda>ms.
         case restore_context rg ms digest wanted of
           Inl why \<Rightarrow> Ret (guard_reply why)
         | Inr context \<Rightarrow> restore_run c oid action ep ref rg context)))"

definition maintenance_restore :: "agent_config \<Rightarrow> incoming \<Rightarrow> reply serving" where
  "maintenance_restore c i = with_body (body_of MAX_BODY_BYTES i) (\<lambda>body.
     with_body (epoch_member body) (\<lambda>epoch.
     with_body (text_member body ''op_id'' 128) (\<lambda>oid.
     with_body (text_member body ''action'' 16) (\<lambda>action.
     if action \<notin> set RESTORE_KINDS then Ret (http_error 400 ''action'')
     else with_body (text_member body ''name'' 255) (\<lambda>name.
     with_body (context_member body) (\<lambda>wanted.
     held_at epoch (restore_held c oid action epoch name (digest_member body) wanted)))))))"

section \<open>The host runtime\<close>

definition receipt_reply :: "json \<Rightarrow> reply" where
  "receipt_reply receipt = Reply (if jget receipt ''result'' = JStr ''ok'' then 200 else 502) receipt None"

text \<open>A request nobody answered is recorded as such before the refusal is returned.\<close>

definition unanswered :: "string \<Rightarrow> string \<Rightarrow> jobj \<Rightarrow> reply serving" where
  "unanswered action who d =
     seq (act (QAudit ''runtime_control_unanswered'' None (JObj
       [(''action'', JStr action), (''operator'', JStr who), (''error'', dget d ''detail''), (''request_id'', dget d ''request_id'')]))) (\<lambda>_.
     Ret (refusal 503 ''supervisor_unanswered'' [(''detail'', dget d ''detail''), (''request_id'', dget d ''request_id'')]))"

definition control_run :: "string \<Rightarrow> string \<Rightarrow> string \<Rightarrow> reply serving" where
  "control_run action who why =
     seq (act (QAudit ''runtime_control_requested'' None (JObj
       [(''action'', JStr action), (''operator'', JStr who), (''reason'', JStr why)]))) (\<lambda>_.
     seq (catching (seq (answered (QSupervisor action (who @ '': '' @ why))) (\<lambda>j. Ret (Inr j)))
            (\<lambda>x d. if x = ''SupervisorRefused'' then Some (seq (unanswered action who d) (\<lambda>r. Ret (Inl r))) else None)) (\<lambda>out.
     with_body out (\<lambda>receipt.
       seq (act (QAudit ''runtime_control_receipt'' None receipt)) (\<lambda>_. Ret (receipt_reply receipt)))))"

definition control_refused :: "gate_state \<Rightarrow> bool \<Rightarrow> reply" where
  "control_refused g q = refusal 409 ''node_not_quiescent'' [(''gate'', JStr (gate_value g)), (''quiescent'', JBool q)]"

definition runtime_control :: "string \<Rightarrow> incoming \<Rightarrow> reply serving" where
  "runtime_control action i =
     (if action \<notin> set ACTIONS then Ret (http_error 404 ''action'')
      else with_body (body_of MAX_BODY_BYTES i) (\<lambda>body.
      with_body (text_member body ''operator'' 128) (\<lambda>who.
      with_body (text_member body ''reason'' 200) (\<lambda>why.
      seq (get_gate QGate) (\<lambda>g.
      seq (get_flag QQuiescent) (\<lambda>q.
      if g = SERVING \<or> g = LOST \<or> \<not> q then Ret (control_refused g q)
      else control_run action who why))))))"

section \<open>The agent by itself\<close>

definition follow_hold :: "unit serving" where
  "follow_hold =
     seq (on_exception (seq get_hold (\<lambda>h. Ret (Some h))) (\<lambda>_. Ret None)) (\<lambda>h.
     case h of None \<Rightarrow> Ret ()
     | Some (shut, ep) \<Rightarrow>
       seq (get_flag QFrozen) (\<lambda>frozen.
       seq (get_epoch QFrozenEpoch) (\<lambda>at_epoch.
       if shut \<and> (\<not> frozen \<or> at_epoch \<noteq> ep) then act (QFreeze ep)
       else if \<not> shut \<and> frozen
       then seq runtime_quiet_for_serving (\<lambda>quiet. if quiet then seq (get_gate QThaw) (\<lambda>_. Ret ()) else Ret ())
       else Ret ())))"

text \<open>\<open>_lost\<close>: whatever fails on the way, the process is told to end.\<close>

definition lost_role :: "int \<Rightarrow> string \<Rightarrow> string \<Rightarrow> unit serving" where
  "lost_role generation boot why = finally_do
     (on_exception
       (seq (act (QLoseRole why)) (\<lambda>_. seq (get_nat QAdmitted) (\<lambda>n.
        act (QAudit ''role_lost'' None (JObj [(''reason'', JStr why), (''generation'', JInt generation),
          (''boot_id'', JStr boot), (''admitted'', JInt (int n))])))))
       (\<lambda>_. Ret ()))
     QTerminate"

text \<open>One turn of the watchdog: whether the role is lost, and why.\<close>

definition watch_turn :: "string option serving" where
  "watch_turn =
     seq (act QSleep) (\<lambda>_.
     seq (get_flag QHeld) (\<lambda>held.
     if \<not> held then Ret (Some ''host lock file unlinked or replaced'')
     else seq (get_flag QElected) (\<lambda>elected.
     if \<not> elected then Ret (Some ''election session lost'')
     else seq (on_exception (act QRecheck) (\<lambda>_. Ret ())) (\<lambda>_.
     seq follow_hold (\<lambda>_. Ret None)))))"

text \<open>The watchdog for a number of turns; the answer is whether it has stopped watching.\<close>

primrec watch_turns :: "nat \<Rightarrow> int \<Rightarrow> string \<Rightarrow> bool serving" where
  "watch_turns 0 generation boot = Ret False"
| "watch_turns (Suc n) generation boot = seq watch_turn (\<lambda>lost.
     case lost of Some why \<Rightarrow> seq (lost_role generation boot why) (\<lambda>_. Ret True)
     | None \<Rightarrow> watch_turns n generation boot)"

definition watch :: "nat \<Rightarrow> int \<Rightarrow> string \<Rightarrow> bool serving" where
  "watch n generation boot = on_exception (watch_turns n generation boot)
     (\<lambda>_. seq (lost_role generation boot ''watchdog failed'') (\<lambda>_. Ret True))"

text \<open>The end of \<open>start\<close>: the hold before the gate opens.\<close>

definition open_gate :: "gate_state serving" where
  "open_gate = seq follow_hold (\<lambda>_. get_gate QReopen)"

end
