(* ===== verification/Agent_Rights.thy ===== *)
theory Agent_Rights
  imports Agent_Maintenance Program_Runs
begin

text \<open>
  The routes behind their tokens: \<open>create_app\<close> and the dependencies of each route of
  \<open>src/backend/app/node_agent/api.py\<close>, and what a caller can make the agent do with either token.
\<close>

section \<open>The application\<close>

text \<open>The path's and the query's parts are \<open>a\<close> and \<open>b\<close>; what identifies the process is fixed while it runs.\<close>

record agent_self =
  self_generation :: int
  self_boot :: string
  self_domain :: string
  self_token :: string
  self_control :: "string option"

definition route_reply :: "(string \<Rightarrow> json option) \<Rightarrow> agent_config \<Rightarrow> agent_self \<Rightarrow> nat \<Rightarrow> route \<Rightarrow> incoming \<Rightarrow> string \<Rightarrow> string
    \<Rightarrow> reply serving" where
  "route_reply loads c self fuel r i a b = (case r of
     RHealthz \<Rightarrow> healthz
   | RStatus \<Rightarrow> status (ac_node c) (self_generation self) (self_boot self) (self_domain self)
   | RInference \<Rightarrow> inference loads c fuel i
   | RSummary \<Rightarrow> summary loads c fuel i
   | REmbeddings \<Rightarrow> embeddings c fuel i
   | RLifecycle \<Rightarrow> lifecycle c fuel a i
   | RResidency \<Rightarrow> residency_route
   | RCapacity \<Rightarrow> model_capacity c b
   | RAttempt \<Rightarrow> attempt_route a
   | RCancel \<Rightarrow> cancel_route a b
   | RDrain \<Rightarrow> drain
   | RResume \<Rightarrow> resume
   | RStartResolution \<Rightarrow> start_resolution i
   | RCompleteResolution \<Rightarrow> complete_resolution a
   | RResets \<Rightarrow> supervised_reset i
   | RInterrupt \<Rightarrow> interrupt i
   | RReset \<Rightarrow> maintenance_reset_route i
   | RRestore \<Rightarrow> maintenance_restore c i
   | RRuntimeControl \<Rightarrow> runtime_control a i
   | RReceipt \<Rightarrow> runtime_receipt a)"

definition serve :: "(string \<Rightarrow> json option) \<Rightarrow> agent_config \<Rightarrow> agent_self \<Rightarrow> nat \<Rightarrow> string \<Rightarrow> route \<Rightarrow> incoming \<Rightarrow> string \<Rightarrow> string
    \<Rightarrow> reply serving" where
  "serve loads c self fuel header r i a b =
     (case refused_token (self_token self) (self_control self) r header of
        Some st \<Rightarrow> Ret (http_error st ''token'')
      | None \<Rightarrow> route_reply loads c self fuel r i a b)"

section \<open>What each piece asks\<close>

named_theorems asked "what one call of a route asks"

lemma asks_unexpected [asked]: "asks f (unexpected r)"
  by (simp add: unexpected_def)

lemma asks_calls [asked]:
  "asks f (get_operation oid) = f (QObserve oid)"
  "asks f (get_json q) = f q"
  "asks f (get_registration ref) = f (QRegistration ref)"
  "asks f (get_text q) = f q"
  "asks f (get_flag q) = f q"
  "asks f (get_nat q) = f q"
  "asks f (get_epoch q) = f q"
  "asks f (get_gate q) = f q"
  "asks f get_hold = f QHold"
  "asks f get_names = f QOutstanding"
  "asks f (act q) = f q"
  by (simp_all add: get_operation_def get_json_def get_registration_def get_text_def get_flag_def get_nat_def
      get_epoch_def get_gate_def get_hold_def get_names_def act_def asks_unexpected split: api_answer.split)

lemma asks_measure [asked]: "asks f (measure_model counter ref g) = (counter \<longrightarrow> f (QMeasure ref g))"
  by (simp add: measure_model_def asks_unexpected split: api_answer.split)

lemma asks_with_body: "(\<And>x. b = Inr x \<Longrightarrow> asks f (g x)) \<Longrightarrow> asks f (with_body b g)"
  by (simp add: with_body_def split: sum.split)

lemma asks_admitted:
  "f q \<Longrightarrow> (\<And>op. asks f (e op)) \<Longrightarrow> (\<And>why t op. asks f (d why t op)) \<Longrightarrow> asks f p \<Longrightarrow> asks f (admitted q e d p)"
  by (simp add: admitted_def asks_unexpected split: api_answer.split answer.split)

lemma asks_catching:
  "asks f p \<Longrightarrow> (\<And>x d q. h x d = Some q \<Longrightarrow> asks f q) \<Longrightarrow> asks f (catching p h)"
  unfolding catching_def by (rule asks_handle) (auto split: option.split)

lemma asks_on_exception: "asks f p \<Longrightarrow> (\<And>x. asks f (h x)) \<Longrightarrow> asks f (on_exception p h)"
  unfolding on_exception_def by (rule asks_catching) (auto split: if_splits)

lemma asks_supported [asked]: "asks f (supported x)"
  by (simp add: supported_def of_sum_def split: sum.split)

lemma asks_each_event:
  assumes "f QEvent" "\<And>e x. asks f (g e x)"
  shows "asks f (each_event n g x)"
proof (induction n arbitrary: x)
  case (Suc n)
  have "asks f (case e of None \<Rightarrow> Ret x | Some event \<Rightarrow> seq (g event x) (each_event n g))" for e
    by (cases e) (simp, simp, rule asks_seq, rule assms(2), rule Suc.IH)
  with assms(1) show ?case unfolding each_event.simps by (intro asks_seq) (simp add: asked)
qed simp

lemma asks_describe: "(op_state r = Completed \<Longrightarrow> store_output r \<Longrightarrow> f (QResult (op_id r))) \<Longrightarrow> asks f (describe r)"
  unfolding describe_def Let_def by (auto simp: asked intro!: asks_seq)

lemma asks_existing:
  "(kind r = k \<Longrightarrow> payload_hash r = None \<or> payload_hash r = hash \<Longrightarrow> f (QResult (op_id r))) \<Longrightarrow> asks f (existing r k hash)"
  unfolding existing_def by (auto intro!: asks_seq asks_describe)

lemma asks_existing_lifecycle: "(kind r = k \<Longrightarrow> f (QResult (op_id r))) \<Longrightarrow> asks f (existing_lifecycle r k)"
  unfolding existing_lifecycle_def by (auto intro!: asks_seq asks_describe)

lemmas asks_intros = asks_seq asks_with_body asks_admitted asks_catching asks_on_exception asks_finally asks_each_event
  asks_describe asks_existing asks_existing_lifecycle

section \<open>What only the control token reaches\<close>

text \<open>
  What changes whether the node serves, what it did with a block, or whether the runtime runs; an exclusive
  operation counts when it passes a frozen gate.
\<close>

definition control_call :: "api_request \<Rightarrow> bool" where
  "control_call q = (case q of
     QDrain \<Rightarrow> True | QReopen \<Rightarrow> True | QThaw \<Rightarrow> True | QFreeze _ \<Rightarrow> True | QInterrupt \<Rightarrow> True | QSupervisor _ _ \<Rightarrow> True
   | QWithdraw _ \<Rightarrow> True | QMaintenanceReset _ _ _ \<Rightarrow> True | QResolutionStart _ _ _ \<Rightarrow> True | QResolutionComplete _ \<Rightarrow> True
   | QSupervisedReset _ _ _ \<Rightarrow> True | QReceiptOf _ \<Rightarrow> True | QExclusive e \<Rightarrow> ex_epoch e \<noteq> None | _ \<Rightarrow> False)"

lemma control_call_simps [simp]:
  "\<not> control_call (QObserve oid)" "\<not> control_call (QResult oid)" "\<not> control_call (QRegistration ref)"
  "\<not> control_call (QMeasure ref g)" "\<not> control_call QVersion" "\<not> control_call QSummaryAdmission"
  "\<not> control_call (QSubmit sb)" "control_call (QExclusive e) = (ex_epoch e \<noteq> None)" "\<not> control_call QEvent"
  "\<not> control_call QSettled" "\<not> control_call QDeliveryLost" "\<not> control_call (QSend j)" "\<not> control_call QAbandon"
  "\<not> control_call (QCancel oid why k)" "\<not> control_call (QLoseRole why)" "\<not> control_call QGate"
  "\<not> control_call QAdmitted" "\<not> control_call QQuiescent" "\<not> control_call QFrozenEpoch" "\<not> control_call QUnknown"
  "\<not> control_call QHeld" "\<not> control_call QAvailable" "\<not> control_call QResidency"
  by (simp_all add: control_call_def)

abbreviation harmless :: "'a serving \<Rightarrow> bool" where
  "harmless \<equiv> asks (\<lambda>q. \<not> control_call q)"

lemma harmless_stream: "harmless (stream_reply fuel oid)"
  unfolding stream_reply_def by (intro asks_intros) (simp_all add: asked)

lemma harmless_judge: "harmless (judge c g rg ms)"
  unfolding judge_def Let_def by (auto simp: asked intro!: asks_seq)

lemma harmless_inference: "harmless (inference loads c fuel i)"
  unfolding inference_def inference_new_def
  by (auto intro!: asks_intros harmless_stream harmless_judge simp: asked split: option.split sum.split prod.split)

lemma harmless_verdict: "harmless (summary_verdict c g)"
  unfolding summary_verdict_def Let_def
  by (auto intro!: asks_intros simp: asked split: option.split if_splits)

lemma harmless_take_summary: "harmless (take_summary e x)"
  by (auto simp: take_summary_def split: json.split option.split)

lemma harmless_summary_wait: "harmless (summary_text_wait fuel)"
  unfolding summary_text_wait_def by (auto intro!: asks_intros harmless_take_summary simp: asked split: if_splits)

lemma harmless_summary: "harmless (summary loads c fuel i)"
  unfolding summary_def summary_new_def summary_submit_def summary_done_def Let_def
  by (auto intro!: asks_intros harmless_verdict harmless_summary_wait simp: asked split: option.split sum.split prod.split)

lemma harmless_embeddings: "harmless (embeddings c fuel i)"
  unfolding embeddings_def embeddings_new_def embeddings_done_def take_embeddings_def
  by (auto intro!: asks_intros simp: asked split: option.split sum.split prod.split)

lemma harmless_load_context: "harmless (load_context c wanted rg)"
  unfolding load_context_def by (auto intro!: asks_seq simp: asked split: option.split)

lemma harmless_lifecycle_done: "harmless (lifecycle_done oid action)"
  unfolding lifecycle_done_def by (auto intro!: asks_seq asks_existing_lifecycle simp: asked split: option.split)

lemma harmless_lifecycle_run:
  "harmless (if pull then stream_reply fuel oid
     else seq (each_event fuel (\<lambda>_ _. Ret ()) ()) (\<lambda>_. seq (act QSettled) (\<lambda>_. lifecycle_done oid action)))"
  by (auto intro!: asks_seq asks_each_event harmless_stream harmless_lifecycle_done simp: asked)

lemma harmless_lifecycle_submit: "harmless (lifecycle_submit c fuel action wanted context)"
  unfolding lifecycle_submit_def
  by (intro asks_admitted asks_existing_lifecycle harmless_lifecycle_run) simp_all

lemma harmless_lifecycle_new: "harmless (lifecycle_new c fuel action wanted)"
proof -
  have "harmless (if action = ''load'' then load_context c wanted rg else Ret (Inr None))" for rg
    by (simp add: harmless_load_context)
  then have "harmless (seq (if action = ''load'' then load_context c wanted rg else Ret (Inr None)) (\<lambda>context.
       case context of Inl why \<Rightarrow> Ret (guard_reply why) | Inr context \<Rightarrow> lifecycle_submit c fuel action wanted context))" for rg
    by (rule asks_seq) (simp add: harmless_lifecycle_submit split: sum.split)
  then show ?thesis
    unfolding lifecycle_new_def by (intro asks_seq) (simp_all add: asked split: option.split)
qed

lemma harmless_lifecycle: "harmless (lifecycle c fuel action i)"
  unfolding lifecycle_def
  by (auto intro!: asks_seq asks_with_body asks_existing_lifecycle harmless_lifecycle_new simp: asked split: option.split)

lemma harmless_cancel: "harmless (cancel_route oid k)"
proof -
  have "harmless (Call (QCancel oid w k) (\<lambda>r. case r of AOperation x \<Rightarrow> Ret (Some x) | _ \<Rightarrow> unexpected r))" for w
    by (simp add: asked split: api_answer.split)
  then have "harmless (cancel_answer oid k)"
    unfolding cancel_answer_def by (rule asks_catching) (auto simp: asked intro!: asks_seq split: if_splits)
  moreover have "harmless (seq (describe r) (\<lambda>d. Ret (f d)))" for r and f :: "jobj \<Rightarrow> reply"
    by (intro asks_seq asks_describe) simp_all
  ultimately show ?thesis
    unfolding cancel_route_def by (auto intro!: asks_seq split: option.split)
qed

lemma harmless_reads:
  "harmless healthz" "harmless (status node g boot dn)" "harmless residency_route" "harmless (model_capacity c ref)"
  "harmless (attempt_route oid)"
  unfolding healthz_def status_def residency_route_def model_capacity_def attempt_route_def
  by (auto intro!: asks_intros simp: asked split: option.split)

lemma harmless_route: "needs r \<noteq> ControlToken \<Longrightarrow> harmless (route_reply loads c self fuel r i a b)"
  unfolding route_reply_def
  by (cases r) (simp_all add: harmless_inference harmless_summary harmless_embeddings harmless_lifecycle harmless_cancel harmless_reads)

lemma refused_without_control:
  assumes "self_control self = None \<or> (\<exists>p. self_control self = Some p \<and> bearer header \<noteq> Some p)" "needs r = ControlToken"
  shows "refused_token (self_token self) (self_control self) r header \<noteq> None"
  using assms by (auto simp: refused_token_def)

text \<open>
  C11: A caller that does not present the control token, whatever route it calls and with whatever arguments,
  makes the agent perform no call that drains, reopens, freezes or thaws the gate, interrupts senders,
  resolves or resets a block, withdraws or makes a request to the supervisor, or runs past a frozen gate.
\<close>

theorem only_the_control_token_controls:
  assumes "self_control self = None \<or> (\<exists>p. self_control self = Some p \<and> bearer header \<noteq> Some p)"
    and "run (serve loads c self fuel header r i a b) rs = (h, out)"
  shows "\<forall>(q, x) \<in> set h. \<not> control_call q"
proof -
  have "harmless (serve loads c self fuel header r i a b)"
    using refused_without_control [OF assms(1), of r] harmless_route [of r loads c self fuel i a b]
    unfolding serve_def by (cases "needs r = ControlToken") (auto split: option.split)
  from asks_run [OF this assms(2)] show ?thesis .
qed

theorem only_the_control_token_controls_witness:
  "list_all (\<lambda>c. \<not> control_call (fst c)) (fst (run (serve (\<lambda>_. None) \<lparr>ac_node = ''n'', ac_counter = True, ac_keep_alive = JNull\<rparr>
      \<lparr>self_generation = 1, self_boot = ''b'', self_domain = ''d'', self_token = ''data'', self_control = Some ''ctl''\<rparr>
      3 ''Bearer data'' RAttempt \<lparr>in_length = None, in_parts = [], in_json = None\<rparr> ''op'' []) [AOperation None]))"
proof -
  let ?self = "\<lparr>self_generation = 1, self_boot = ''b'', self_domain = ''d'', self_token = ''data'', self_control = Some ''ctl''\<rparr>"
  have "bearer ''Bearer data'' \<noteq> Some ''ctl''" by code_simp
  then have "self_control ?self = None \<or> (\<exists>p. self_control ?self = Some p \<and> bearer ''Bearer data'' \<noteq> Some p)" by simp
  from only_the_control_token_controls [OF this surjective_pairing] show ?thesis unfolding list_all_iff by fastforce
qed

end
