(* ===== verification/Api_Safety.thy ===== *)
theory Api_Safety
  imports Agent_Rights
begin

text \<open>
  What precedes a call of the agent's routes: the obligations of the submissions, of the stored results that
  are read and of the calls behind a maintenance hold, over the history of the calls a route has made.
\<close>

section \<open>Rules of the pieces\<close>

text \<open>\<open>before D Q p h\<close>: after the history \<open>h\<close>, each call of \<open>p\<close> meets \<open>D\<close>, and \<open>p\<close> returns only what \<open>Q\<close> allows.\<close>

abbreviation before :: "(api_request \<Rightarrow> (api_request \<times> api_answer) list \<Rightarrow> bool)
    \<Rightarrow> ('a \<Rightarrow> (api_request \<times> api_answer) list \<Rightarrow> bool) \<Rightarrow> 'a serving \<Rightarrow> (api_request \<times> api_answer) list \<Rightarrow> bool" where
  "before D Q p h \<equiv> traced.meets (\<lambda>_ _. True) D p Q (\<lambda>_ _. True) h"

named_theorems steps "obligations of one call of a route"

lemma before_unexpected [steps]: "before D Q (unexpected r) h"
  by (simp add: unexpected_def)

lemma before_calls [steps]:
  "before D Q (get_operation oid) h \<longleftrightarrow> D (QObserve oid) h \<and> (\<forall>x. Q x (h @ [(QObserve oid, AOperation x)]))"
  "before D Qj (get_json q) h \<longleftrightarrow> D q h \<and> (\<forall>x. Qj x (h @ [(q, AJson x)]))"
  "before D Qr (get_registration ref) h \<longleftrightarrow> D (QRegistration ref) h \<and> (\<forall>x. Qr x (h @ [(QRegistration ref, ARegistration x)]))"
  "before D Qt (get_text q) h \<longleftrightarrow> D q h \<and> (\<forall>x. Qt x (h @ [(q, AText x)]))"
  "before D Qb (get_flag q) h \<longleftrightarrow> D q h \<and> (\<forall>x. Qb x (h @ [(q, ABool x)]))"
  "before D Qn (get_nat q) h \<longleftrightarrow> D q h \<and> (\<forall>x. Qn x (h @ [(q, ANat x)]))"
  "before D Qe (get_epoch q) h \<longleftrightarrow> D q h \<and> (\<forall>x. Qe x (h @ [(q, AEpoch x)]))"
  "before D Qg (get_gate q) h \<longleftrightarrow> D q h \<and> (\<forall>x. Qg x (h @ [(q, AGate x)]))"
  "before D Qh get_hold h \<longleftrightarrow> D QHold h \<and> (\<forall>c e. Qh (c, e) (h @ [(QHold, AHold c e)]))"
  "before D Qm get_names h \<longleftrightarrow> D QOutstanding h \<and> (\<forall>a b. Qm (a, b) (h @ [(QOutstanding, ANames a b)]))"
  by (simp_all add: get_operation_def get_json_def get_registration_def get_text_def get_flag_def get_nat_def
      get_epoch_def get_gate_def get_hold_def get_names_def before_unexpected split: api_answer.split)

lemma before_act: "D q h \<Longrightarrow> (\<And>r. Q () (h @ [(q, r)])) \<Longrightarrow> before D Q (act q) h"
  by (simp add: act_def split: api_answer.split)

lemma before_with_body:
  "(\<And>r. b = Inl r \<Longrightarrow> Q r h) \<Longrightarrow> (\<And>a. b = Inr a \<Longrightarrow> before D Q (f a) h) \<Longrightarrow> before D Q (with_body b f) h"
  by (simp add: with_body_def split: sum.split)

lemma before_measure:
  assumes "counter \<Longrightarrow> D (QMeasure ref g) h"
    and "\<And>ms. counter \<Longrightarrow> Q ms (h @ [(QMeasure ref g, AMeasure ms)])"
    and "\<And>ms. \<not> counter \<Longrightarrow> ms_identity ms = None \<Longrightarrow> ms_declared ms = None \<Longrightarrow> Q ms h"
  shows "before D Q (measure_model counter ref g) h"
  using assms by (simp add: measure_model_def before_unexpected split: api_answer.split)

lemma before_admitted:
  assumes "D q h" "\<And>op. before D Q (e op) (h @ [(q, AAnswer (Existing op))])"
    and "\<And>why t op. before D Q (d why t op) (h @ [(q, AAnswer (Refused why t op))])"
    and "before D Q p (h @ [(q, AAnswer Attempted)])"
  shows "before D Q (admitted q e d p) h"
  using assms by (simp add: admitted_def before_unexpected split: api_answer.split answer.split)

lemma before_supported:
  "(\<And>a. x = Inr a \<Longrightarrow> Q a h) \<Longrightarrow> before D Q (supported x) h"
  by (simp add: supported_def of_sum_def split: sum.split)

text \<open>What asks nothing that has an obligation.\<close>

abbreviation anything :: "'a \<Rightarrow> (api_request \<times> api_answer) list \<Rightarrow> bool" where
  "anything \<equiv> \<lambda>_ _. True"

lemma before_asks: "asks f p \<Longrightarrow> (\<And>q h. f q \<Longrightarrow> D q h) \<Longrightarrow> before D anything p h"
  by (rule asks_meets)

section \<open>What is submitted\<close>

definition is_submit :: "api_request \<Rightarrow> bool" where
  "is_submit q \<longleftrightarrow> (case q of QSubmit _ \<Rightarrow> True | _ \<Rightarrow> False)"

lemma asks_stream_reply:
  "(\<And>j. f (QSend j)) \<Longrightarrow> f QEvent \<Longrightarrow> f QSettled \<Longrightarrow> f (QObserve oid) \<Longrightarrow> f QDeliveryLost \<Longrightarrow> f QAbandon
   \<Longrightarrow> asks f (stream_reply fuel oid)"
  unfolding stream_reply_def by (intro asks_intros) (simp_all add: asked)

text \<open>An inference that the agent hands to its dispatcher.\<close>

definition inference_submission ::
    "(string \<Rightarrow> json option) \<Rightarrow> agent_config \<Rightarrow> generation_request \<Rightarrow> envelope \<Rightarrow> submission
     \<Rightarrow> (api_request \<times> api_answer) list \<Rightarrow> bool" where
  "inference_submission loads c g env sb h \<longleftrightarrow>
     (QObserve (env_op_id env), AOperation None) \<in> set h
   \<and> (\<exists>rg ms ver pass payload.
        (QRegistration (gr_ref g), ARegistration (Some rg)) \<in> set h
      \<and> (QMeasure (gr_ref g) (Some g), AMeasure ms) \<in> set h
      \<and> (ver = None \<or> (QVersion, AText ver) \<in> set h)
      \<and> check_generation g (Some rg) ms (ac_node c) ver VALIDATED = Inr pass
      \<and> chat_payload loads (gr_ref g) (gr_messages g) (Some (gr_max_tokens g)) (gr_thinking g) (gr_tools g)
           (gr_tool_choice g) (gr_sampling g) (Some (gr_context_length g)) (ac_keep_alive c) = Inr payload
      \<and> sb_what sb = SendChat payload (env_store_output env) (ms_identity ms)
      \<and> sb_provenance sb = gp_provenance pass)
   \<and> sb_op sb = env_op_id env \<and> sb_kind sb = ''inference'' \<and> sb_request sb = env_request_id env
   \<and> sb_hash sb = env_payload_hash env \<and> sb_store sb = env_store_output env"

definition submits :: "(submission \<Rightarrow> (api_request \<times> api_answer) list \<Rightarrow> bool) \<Rightarrow> api_request \<Rightarrow> (api_request \<times> api_answer) list \<Rightarrow> bool" where
  "submits S q h = (case q of QSubmit sb \<Rightarrow> S sb h | _ \<Rightarrow> True)"

lemma submits_other [simp]: "\<not> is_submit q \<Longrightarrow> submits S q h"
  by (cases q) (simp_all add: submits_def is_submit_def)

lemma submits_submit [simp]: "submits S (QSubmit sb) h = S sb h"
  by (simp add: submits_def)

lemma is_submit_simps [simp]:
  "\<not> is_submit (QObserve oid)" "\<not> is_submit (QResult oid)" "\<not> is_submit (QRegistration ref)"
  "\<not> is_submit (QMeasure ref g)" "\<not> is_submit QVersion" "\<not> is_submit QSummaryAdmission" "\<not> is_submit QEvent"
  "\<not> is_submit QSettled" "\<not> is_submit QDeliveryLost" "\<not> is_submit (QSend j)" "\<not> is_submit QAbandon"
  by (simp_all add: is_submit_def)

lemma before_quiet: "asks (\<lambda>q. \<not> is_submit q) p \<Longrightarrow> before (submits S) anything p h"
  by (erule before_asks) simp

lemma quiet_stream: "before (submits S) anything (stream_reply fuel oid) h"
  by (intro before_quiet asks_stream_reply) simp_all

lemma quiet_existing: "before (submits S) anything (existing r k hash) h"
  by (intro before_quiet asks_existing) simp_all

lemma before_judge:
  "before (submits S) (\<lambda>v h'. set h \<subseteq> set h' \<and> (\<forall>pass. v = Inr pass \<longrightarrow>
      (\<exists>ver. (ver = None \<or> (QVersion, AText ver) \<in> set h') \<and> check_generation g rg ms (ac_node c) ver VALIDATED = Inr pass)))
    (judge c g rg ms) h"
  unfolding judge_def Let_def by (auto simp: steps)

text \<open>The guard passes nothing that is not registered or not measured.\<close>

lemma check_generation_pass:
  assumes "check_generation g rg ms node ver profiles = Inr pass"
  shows "\<exists>r. rg = Some r \<and> ms_declared ms \<noteq> None"
  using assms by (auto simp: check_generation_def split: option.splits if_splits)

lemma check_generation_identity:
  assumes "check_generation g rg ms node ver profiles = Inr pass"
  shows "gp_identity pass = ms_identity ms"
  using assms by (auto simp: check_generation_def Let_def split: option.splits if_split_asm prod.splits)

lemma inference_new_submits:
  assumes "(QObserve (env_op_id env), AOperation None) \<in> set h"
  shows "before (submits (inference_submission loads c g env)) anything (inference_new loads c fuel g env) h"
proof -
  let ?D = "submits (inference_submission loads c g env)"
  have last: "before ?D anything
      (case v of Inl why \<Rightarrow> Ret (guard_reply why)
       | Inr pass \<Rightarrow> seq (supported (inference_payload loads c g)) (\<lambda>payload.
         admitted (QSubmit (inference_sent env payload pass)) (\<lambda>r. existing r ''inference'' (env_payload_hash env))
           (\<lambda>why retry op. Ret (refused_reply why retry op)) (stream_reply fuel (env_op_id env)))) h'"
    if sub: "set h \<subseteq> set h'" and reg: "(QRegistration (gr_ref g), ARegistration rg) \<in> set h'"
      and meas: "ac_counter c \<Longrightarrow> (QMeasure (gr_ref g) (Some g), AMeasure ms) \<in> set h'"
      and blind: "\<not> ac_counter c \<Longrightarrow> ms_declared ms = None"
      and pass: "\<forall>pass. v = Inr pass \<longrightarrow> (\<exists>ver. (ver = None \<or> (QVersion, AText ver) \<in> set h')
         \<and> check_generation g rg ms (ac_node c) ver VALIDATED = Inr pass)" for rg ms v h'
  proof (cases v)
    case (Inr p)
    with pass obtain ver where ver: "ver = None \<or> (QVersion, AText ver) \<in> set h'"
      "check_generation g rg ms (ac_node c) ver VALIDATED = Inr p" by metis
    from check_generation_pass [OF ver(2)] obtain r where r: "rg = Some r" "ms_declared ms \<noteq> None" by metis
    then have counted: "(QMeasure (gr_ref g) (Some g), AMeasure ms) \<in> set h'" using meas blind by metis
    have "inference_submission loads c g env (inference_sent env payload p) h'"
      if pl: "inference_payload loads c g = Inr payload" for payload
      unfolding inference_submission_def
    proof (intro conjI exI)
      show "(QObserve (env_op_id env), AOperation None) \<in> set h'" using assms sub by (rule set_rev_mp)
      show "(QRegistration (gr_ref g), ARegistration (Some r)) \<in> set h'" using reg r(1) by simp
      show "check_generation g (Some r) ms (ac_node c) ver VALIDATED = Inr p" using ver(2) r(1) by simp
      show "sb_what (inference_sent env payload p) = SendChat payload (env_store_output env) (ms_identity ms)"
        using check_generation_identity [OF ver(2)] by (simp add: inference_sent_def)
    qed (rule counted ver(1) pl [unfolded inference_payload_def] | simp add: inference_sent_def)+
    then show ?thesis
      unfolding Inr sum.case traced_seq
      by (intro before_supported before_admitted) (simp_all add: quiet_existing quiet_stream)
  qed simp
  show ?thesis
    unfolding inference_new_def traced_seq before_calls
  proof (intro conjI allI before_measure)
    fix rg ms
    let ?h = "h @ [(QRegistration (gr_ref g), ARegistration rg)]"
    let ?h' = "?h @ [(QMeasure (gr_ref g) (Some g), AMeasure ms)]"
    { assume c: "ac_counter c"
      show "before ?D (\<lambda>v. before ?D anything (case v of Inl why \<Rightarrow> Ret (guard_reply why)
         | Inr pass \<Rightarrow> seq (supported (inference_payload loads c g)) (\<lambda>payload.
           admitted (QSubmit (inference_sent env payload pass)) (\<lambda>r. existing r ''inference'' (env_payload_hash env))
             (\<lambda>why retry op. Ret (refused_reply why retry op)) (stream_reply fuel (env_op_id env))))) (judge c g rg ms) ?h'"
        by (rule traced.meets_conseq [OF before_judge]) (rule last [where rg = rg and ms = ms], use c in auto) }
    { assume c: "\<not> ac_counter c" and ms: "ms_declared ms = None"
      show "before ?D (\<lambda>v. before ?D anything (case v of Inl why \<Rightarrow> Ret (guard_reply why)
         | Inr pass \<Rightarrow> seq (supported (inference_payload loads c g)) (\<lambda>payload.
           admitted (QSubmit (inference_sent env payload pass)) (\<lambda>r. existing r ''inference'' (env_payload_hash env))
             (\<lambda>why retry op. Ret (refused_reply why retry op)) (stream_reply fuel (env_op_id env))))) (judge c g rg ms) ?h"
        by (rule traced.meets_conseq [OF before_judge]) (rule last [where rg = rg and ms = ms], use c ms in auto) }
  qed simp_all
qed

lemma inference_submits:
  "before (submits (\<lambda>sb h. \<exists>body g env. body_of MAX_BODY_BYTES i = Inr body \<and> decode_generation body = Inr (g, env)
       \<and> inference_submission loads c g env sb h)) anything (inference loads c fuel i) []"
proof -
  have "before (submits (\<lambda>sb h. \<exists>body g env. body_of MAX_BODY_BYTES i = Inr body \<and> decode_generation body = Inr (g, env)
       \<and> inference_submission loads c g env sb h)) anything (inference_new loads c fuel g env) h"
    if "body_of MAX_BODY_BYTES i = Inr body" "decode_generation body = Inr (g, env)"
      "(QObserve (env_op_id env), AOperation None) \<in> set h" for body g env h
    by (rule traced_duty [OF inference_new_submits [OF that(3)]])
      (use that in \<open>auto simp: submits_def split: api_request.splits\<close>)
  then show ?thesis
    unfolding inference_def decoded_def
    by (auto simp: steps quiet_existing split: sum.splits option.splits intro!: before_with_body)
qed

text \<open>
  C12: The agent hands an inference to its dispatcher only after it has seen that the operation does not exist
  yet, that the model is registered on its node and what the model store holds; the guard passed exactly these
  figures (with no runtime version, or one it has just read), and what is submitted is the payload of the
  decoded request under the request's own identity, with the weights the guard saw as the expected ones.
\<close>

theorem inference_submitted_is_checked:
  assumes "run (inference loads c fuel i) rs = (h, out)" "k < length h" "fst (h ! k) = QSubmit sb"
  shows "\<exists>body g env. body_of MAX_BODY_BYTES i = Inr body \<and> decode_generation body = Inr (g, env)
     \<and> inference_submission loads c g env sb (take k h)"
  using run_duty [OF assms(1,2) inference_submits] assms(3) by simp

section \<open>What the guard leaves free\<close>

text \<open>
  C13: A request the guard passes leaves room for its whole reserved output in the smaller of the requested and
  the declared context, with one token to spare, and fills at most half of that window unless the prompt was
  counted exactly under a validated profile; it is for the registered context, where one is registered, and
  the store holds the pinned weights, where weights are pinned.
\<close>

theorem guard_leaves_room:
  assumes "check_generation g (Some rg) ms node ver profiles = Inr pass"
  shows "case ms_declared ms of None \<Rightarrow> False
    | Some declared \<Rightarrow>
        (let window = min (gr_context_length g) declared; upper = fst (snd (prompt_bound g ms)) in
         0 < declared \<and> upper + gr_max_tokens g < window
       \<and> (upper \<le> window div 2 \<or> ms_counted ms \<noteq> None \<and> guard_profile g ms node ver profiles \<noteq> None)
       \<and> (rg_context rg > 0 \<longrightarrow> gr_context_length g = rg_context rg)
       \<and> (rg_manifest rg \<noteq> None \<longrightarrow> ms_identity ms = rg_manifest rg) \<and> gp_identity pass = ms_identity ms)"
proof -
  obtain counted upper exact where b: "prompt_bound g ms = (counted, upper, exact)" by (cases "prompt_bound g ms") auto
  then have exact: "exact \<longleftrightarrow> ms_counted ms \<noteq> None" by (auto simp: prompt_bound_def Let_def split: option.splits)
  from check_generation_pass [OF assms] obtain declared where d: "ms_declared ms = Some declared" by blast
  let ?w = "min (gr_context_length g) declared" and ?p = "guard_profile g ms node ver profiles"
  let ?limit = "servable ?w (gr_max_tokens g) (?p \<noteq> None \<and> exact)"
  have c: "\<not> (rg_context rg > 0 \<and> gr_context_length g \<noteq> rg_context rg)"
    using assms by (cases "rg_context rg > 0 \<and> gr_context_length g \<noteq> rg_context rg") (simp_all add: check_generation_def)
  have pin: "check_pin rg (ms_identity ms) = None"
    using assms c by (cases "check_pin rg (ms_identity ms)") (simp_all add: check_generation_def)
  have r: "declared > 0" "\<not> (?limit \<le> 0 \<or> upper > ?limit)"
    using assms c pin by (simp_all add: check_generation_def d b Let_def split: if_split_asm)
  have "gp_identity pass = ms_identity ms"
    using assms c pin r by (auto simp: check_generation_def d b Let_def)
  moreover have "rg_manifest rg \<noteq> None \<longrightarrow> ms_identity ms = rg_manifest rg"
    using pin by (auto simp: check_pin_def split: if_split_asm)
  moreover have "upper + gr_max_tokens g < ?w \<and> (upper \<le> ?w div 2 \<or> ?p \<noteq> None \<and> exact)"
    using r(2) by (auto simp: servable_def Let_def split: if_split_asm)
  ultimately show ?thesis using c r(1) exact by (auto simp: d b Let_def)
qed

definition sample_registration :: registration where
  "sample_registration = \<lparr>rg_context = 4096, rg_manifest = Some ''w'', rg_capabilities = []\<rparr>"

definition sample_measurement :: measurement where
  "sample_measurement = \<lparr>ms_identity = Some ''w'', ms_counted = Some 10, ms_declared = Some 8192, ms_encoder = None, ms_renderer = None\<rparr>"

definition sample_pass :: guard_pass where
  "sample_pass = \<lparr>gp_provenance = [(''manifest'', JStr ''w''), (''counted'', JInt 10), (''upper_bound'', JInt 10),
     (''basis'', JStr ''exact_counter''), (''window'', JInt 4096), (''servable'', JInt 2048), (''max_tokens'', JInt 16),
     (''validated_profile'', JNull), (''runtime_version'', JNull)], gp_identity = Some ''w''\<rparr>"

lemma sample_passes:
  "check_generation sample_generation (Some sample_registration) sample_measurement ''n'' None VALIDATED = Inr sample_pass"
  by (simp add: check_generation_def check_pin_def prompt_bound_def servable_def guard_profile_def sample_generation_def
      sample_registration_def sample_measurement_def sample_pass_def jopt_str_def)

theorem guard_leaves_room_witness:
  "fst (snd (prompt_bound sample_generation sample_measurement)) + gr_max_tokens sample_generation < min 4096 8192"
  using guard_leaves_room [OF sample_passes]
  by (simp add: sample_measurement_def sample_generation_def Let_def)

definition sample_config :: agent_config where
  "sample_config = \<lparr>ac_node = ''n'', ac_counter = True, ac_keep_alive = JInt (- 1)\<rparr>"

definition sample_incoming :: incoming where
  "sample_incoming = \<lparr>in_length = None, in_parts = [], in_json = Some (encode_generation sample_generation sample_envelope)\<rparr>"

lemma sample_config_simps [simp]: "ac_node sample_config = ''n''" "ac_counter sample_config"
  by (simp_all add: sample_config_def)

lemma sample_body: "body_of MAX_BODY_BYTES sample_incoming = Inr (encode_generation sample_generation sample_envelope)"
  by (simp add: body_of_def read_body_def sample_incoming_def)

theorem inference_submitted_is_checked_witness:
  "\<exists>sb h. inference_submission (\<lambda>_. Some (JObj [])) sample_config sample_generation sample_envelope sb h"
proof -
  let ?loads = "\<lambda>_. Some (JObj [])" and ?t = "inference (\<lambda>_. Some (JObj [])) sample_config 3 sample_incoming"
  let ?rs = "[AOperation None, ARegistration (Some sample_registration), AMeasure sample_measurement,
    AAnswer (Refused ''queue_full'' (Some 1) None)]"
  have "\<exists>p. inference_payload ?loads sample_config sample_generation = Inr p"
    by (simp add: inference_payload_def sample_generation_def sample_config_def chat_payload_def message_payload_def
        call_payload_def arguments_for_upstream_def should_send_tools_def)
  then obtain p where p: "inference_payload ?loads sample_config sample_generation = Inr p" ..
  have "fst (run ?t ?rs) ! 3 = (QSubmit (inference_sent sample_envelope p sample_pass), AAnswer (Refused ''queue_full'' (Some 1) None))
      \<and> length (fst (run ?t ?rs)) = 4"
    by (simp add: inference_def inference_new_def with_body_def sample_body decoded_def sample_decodes get_operation_def
        get_registration_def measure_model_def judge_def admitted_def supported_def of_sum_def p sample_passes)
  then have "fst (fst (run ?t ?rs) ! 3) = QSubmit (inference_sent sample_envelope p sample_pass)" "3 < length (fst (run ?t ?rs))"
    by simp_all
  from inference_submitted_is_checked [OF surjective_pairing this(2,1)] show ?thesis
    by (auto simp: sample_body sample_decodes)
qed

section \<open>Whose result a caller is shown\<close>

text \<open>
  A stored result is read only of a completed operation that was given under the request's own operation id, and
  which answers for its kind and hash or was submitted by this very request.
\<close>

definition answers_for :: "string \<Rightarrow> string option \<Rightarrow> operation \<Rightarrow> bool" where
  "answers_for k hash r \<longleftrightarrow> kind r = k \<and> (payload_hash r = None \<or> payload_hash r = hash)"

definition submits_as :: "string \<Rightarrow> string \<Rightarrow> string option \<Rightarrow> submission \<Rightarrow> bool" where
  "submits_as w k hash sb \<longleftrightarrow> sb_op sb = w \<and> sb_kind sb = k \<and> sb_hash sb = hash"

definition submitted_here :: "string \<Rightarrow> string \<Rightarrow> string option \<Rightarrow> (api_request \<times> api_answer) list \<Rightarrow> bool" where
  "submitted_here w k hash h \<longleftrightarrow> (\<exists>sb. submits_as w k hash sb \<and> (QSubmit sb, AAnswer Attempted) \<in> set h)"

text \<open>An answer about the operation \<open>w\<close>: what was observed under that id, or what its submission met.\<close>

definition given_for :: "string \<Rightarrow> string \<Rightarrow> string option \<Rightarrow> operation \<Rightarrow> (api_request \<times> api_answer) list \<Rightarrow> bool" where
  "given_for w k hash r h \<longleftrightarrow> (QObserve w, AOperation (Some r)) \<in> set h
     \<or> (\<exists>sb. submits_as w k hash sb \<and> (QSubmit sb, AAnswer (Existing r)) \<in> set h)"

definition own_result :: "string \<Rightarrow> string \<Rightarrow> string option \<Rightarrow> string \<Rightarrow> (api_request \<times> api_answer) list \<Rightarrow> bool" where
  "own_result w k hash oid h \<longleftrightarrow>
     (\<exists>r. given_for w k hash r h \<and> op_id r = oid \<and> op_state r = Completed \<and> store_output r
        \<and> (answers_for k hash r \<or> submitted_here w k hash h))"

definition reads_own :: "string \<Rightarrow> string \<Rightarrow> string option \<Rightarrow> api_request \<Rightarrow> (api_request \<times> api_answer) list \<Rightarrow> bool" where
  "reads_own w k hash q h = (case q of QResult oid \<Rightarrow> own_result w k hash oid h | _ \<Rightarrow> True)"

definition is_result :: "api_request \<Rightarrow> bool" where
  "is_result q \<longleftrightarrow> (case q of QResult _ \<Rightarrow> True | _ \<Rightarrow> False)"

lemma reads_own_result [simp]: "reads_own w k hash (QResult oid) h = own_result w k hash oid h"
  by (simp add: reads_own_def)

lemma reads_own_other [simp]: "\<not> is_result q \<Longrightarrow> reads_own w k hash q h"
  by (cases q) (simp_all add: reads_own_def is_result_def)

lemma is_result_simps [simp]:
  "\<not> is_result (QObserve oid)" "\<not> is_result (QSubmit sb)" "\<not> is_result (QRegistration ref)"
  "\<not> is_result (QMeasure ref g)" "\<not> is_result QVersion" "\<not> is_result QSummaryAdmission" "\<not> is_result QEvent"
  "\<not> is_result QSettled" "\<not> is_result QDeliveryLost" "\<not> is_result (QSend j)" "\<not> is_result QAbandon"
  by (simp_all add: is_result_def)

abbreviation unread :: "'a serving \<Rightarrow> bool" where
  "unread \<equiv> asks (\<lambda>q. \<not> is_result q)"

lemma before_unread: "unread p \<Longrightarrow> before (reads_own w k hash) anything p h"
  by (erule before_asks) simp

text \<open>What reads nothing, then what may read.\<close>

lemma before_unread_then:
  assumes "unread p" "\<And>x h'. set h \<subseteq> set h' \<Longrightarrow> before (reads_own w k hash) anything (f x) h'"
  shows "before (reads_own w k hash) anything (seq p f) h"
proof -
  have "before (reads_own w k hash) (\<lambda>_ h'. set h \<subseteq> set h') p h" by (rule asks_grows [OF assms(1)]) simp
  then show ?thesis unfolding traced_seq by (rule traced.meets_conseq) (use assms(2) in auto)
qed

lemma before_describe:
  "(op_state r = Completed \<Longrightarrow> store_output r \<Longrightarrow> own_result w k hash (op_id r) h) \<Longrightarrow> (\<And>d h'. before (reads_own w k hash) anything (g d) h')
   \<Longrightarrow> before (reads_own w k hash) anything (seq (describe r) g) h"
  by (simp add: describe_def Let_def steps)

lemma before_existing:
  assumes "given_for w k hash r h"
  shows "before (reads_own w k hash) anything (existing r k hash) h"
proof (cases "answers_for k hash r")
  case True
  with assms have "own_result w k hash (op_id r) h" if "op_state r = Completed" "store_output r"
    using that unfolding own_result_def by blast
  then show ?thesis by (auto simp del: traced_seq simp: existing_def intro!: before_describe)
next
  case False
  then show ?thesis by (auto simp: existing_def answers_for_def)
qed

lemma given_simps [simp]:
  "(QObserve w, AOperation (Some r)) \<in> set h \<Longrightarrow> given_for w k hash r h"
  "submits_as w k hash sb \<Longrightarrow> (QSubmit sb, AAnswer (Existing r)) \<in> set h \<Longrightarrow> given_for w k hash r h"
  unfolding given_for_def by blast+

lemma submitted_simp [simp]:
  "submits_as w k hash sb \<Longrightarrow> (QSubmit sb, AAnswer Attempted) \<in> set h \<Longrightarrow> submitted_here w k hash h"
  unfolding submitted_here_def by blast

text \<open>After its own submission a request describes the operation it names.\<close>

lemma submitted_here_mono: "submitted_here w k hash h \<Longrightarrow> set h \<subseteq> set h' \<Longrightarrow> submitted_here w k hash h'"
  unfolding submitted_here_def by blast

lemma own_observed_done:
  assumes "submitted_here w k hash h" "\<And>d r h'. before (reads_own w k hash) anything (g r d) h'"
  shows "before (reads_own w k hash) anything
    (seq (get_operation w) (\<lambda>found. case found of None \<Rightarrow> Ret x | Some r \<Rightarrow> seq (describe r) (g r))) h"
proof -
  let ?h = "\<lambda>r. h @ [(QObserve w, AOperation (Some r))]"
  have "submitted_here w k hash (?h r)" for r by (rule submitted_here_mono [OF assms(1)]) auto
  then have "own_result w k hash (op_id r) (?h r)" if "op_state r = Completed" "store_output r" for r
    using that unfolding own_result_def by (auto intro!: exI [of _ r])
  then have "before (reads_own w k hash) anything (seq (describe r) (g r)) (?h r)" for r
    by (rule before_describe) (use assms in auto)
  then show ?thesis by (simp add: steps split: option.split)
qed

lemma own_summary_done: "submitted_here w k hash h \<Longrightarrow> before (reads_own w k hash) anything (summary_done w text) h"
  unfolding summary_done_def by (rule own_observed_done) simp_all

lemma own_embeddings_done: "submitted_here w k hash h \<Longrightarrow> before (reads_own w k hash) anything (embeddings_done fuel w) h"
  unfolding embeddings_done_def
  by (intro before_unread_then own_observed_done asks_each_event)
    (auto simp: asked take_embeddings_def intro: submitted_here_mono)

lemma unread_stream: "unread (stream_reply fuel oid)"
  by (rule asks_stream_reply) simp_all

lemma own_submission:
  assumes "submits_as w k hash sb"
    and "submitted_here w k hash (h @ [(QSubmit sb, AAnswer Attempted)]) \<Longrightarrow>
      before (reads_own w k hash) anything p (h @ [(QSubmit sb, AAnswer Attempted)])"
  shows "before (reads_own w k hash) anything (admitted (QSubmit sb) (\<lambda>r. existing r k hash)
     (\<lambda>why retry op. Ret (refused_reply why retry op)) p) h"
proof (rule before_admitted)
  show "before (reads_own w k hash) anything (existing op k hash) (h @ [(QSubmit sb, AAnswer (Existing op))])" for op
    by (rule before_existing) (simp add: given_simps(2) [OF assms(1)])
  show "before (reads_own w k hash) anything p (h @ [(QSubmit sb, AAnswer Attempted)])"
    by (rule assms(2)) (simp add: submitted_simp [OF assms(1)])
qed simp_all

lemma own_inference: "before (reads_own (env_op_id env) ''inference'' (env_payload_hash env)) anything (inference_new loads c fuel g env) h"
proof -
  have "before (reads_own (env_op_id env) ''inference'' (env_payload_hash env)) anything
      (admitted (QSubmit (inference_sent env payload pass)) (\<lambda>r. existing r ''inference'' (env_payload_hash env))
         (\<lambda>why retry op. Ret (refused_reply why retry op)) (stream_reply fuel (env_op_id env))) h'" for payload pass h'
    by (rule own_submission) (simp_all add: inference_sent_def submits_as_def before_unread unread_stream)
  then show ?thesis
    unfolding inference_new_def
    by (auto simp: asked judge_def Let_def simp del: traced_seq split: sum.split intro!: before_unread_then asks_seq)
qed

lemma unread_verdict: "unread (summary_verdict c g)"
  unfolding summary_verdict_def Let_def
  by (auto intro!: asks_intros simp: asked split: option.split if_splits)

lemma unread_summary_wait: "unread (summary_text_wait fuel)"
proof -
  have "unread (take_summary e x)" for e x by (auto simp: take_summary_def split: json.split option.split)
  then show ?thesis
    unfolding summary_text_wait_def by (auto intro!: asks_intros simp: asked split: if_splits)
qed

lemma own_summary_wait:
  assumes "submitted_here w k hash h"
  shows "before (reads_own w k hash) anything (seq (summary_text_wait fuel) (\<lambda>t.
     case t of None \<Rightarrow> Ret x | Some t \<Rightarrow> summary_done w t)) h"
proof (rule before_unread_then [OF unread_summary_wait])
  fix t h' assume "set h \<subseteq> set (h' :: (api_request \<times> api_answer) list)"
  with assms have "submitted_here w k hash h'" by (rule submitted_here_mono)
  then show "before (reads_own w k hash) anything (case t of None \<Rightarrow> Ret x | Some t \<Rightarrow> summary_done w t) h'"
    by (simp add: own_summary_done split: option.split)
qed

lemma own_summary_submit:
  "before (reads_own (env_op_id env) ''summary'' (env_payload_hash env)) anything (summary_submit loads c fuel env g pass) h"
  unfolding summary_submit_def
  by (rule before_unread_then, simp add: asked, rule own_submission)
    (simp_all add: submits_as_def own_summary_wait del: traced_seq)

lemma own_summary: "before (reads_own (env_op_id env) ''summary'' (env_payload_hash env)) anything (summary_new loads c fuel prefix env) h"
  unfolding summary_new_def
  by (rule before_admitted)
    (auto simp: steps unread_verdict own_summary_submit simp del: traced_seq split: sum.split intro!: before_unread_then)

lemma own_embeddings:
  "before (reads_own (env_op_id env) ''embedding_batch'' (env_payload_hash env)) anything (embeddings_new c fuel batch env) h"
proof -
  have "before (reads_own (env_op_id env) ''embedding_batch'' (env_payload_hash env)) anything
      (admitted (QSubmit (embeddings_sent c batch env ms)) (\<lambda>r. existing r ''embedding_batch'' (env_payload_hash env))
        (\<lambda>why retry op. Ret (refused_reply why retry op)) (embeddings_done fuel (env_op_id env))) h'" for ms h'
    by (rule own_submission) (simp_all add: embeddings_sent_def submits_as_def own_embeddings_done)
  then show ?thesis
    unfolding embeddings_new_def
    by (auto simp: asked simp del: traced_seq split: option.split intro!: before_unread_then)
qed

text \<open>The three routes that answer with results, by the kind of their operations.\<close>

definition result_route :: "(string \<Rightarrow> json option) \<Rightarrow> agent_config \<Rightarrow> nat \<Rightarrow> incoming \<Rightarrow> string \<Rightarrow> envelope \<Rightarrow> reply serving \<Rightarrow> bool" where
  "result_route loads c fuel i k env p \<longleftrightarrow>
     (\<exists>body g. body_of MAX_BODY_BYTES i = Inr body \<and> decode_generation body = Inr (g, env)
        \<and> k = ''inference'' \<and> p = inference loads c fuel i)
   \<or> (\<exists>body g. body_of SUMMARY_INPUT_MAX_BYTES i = Inr body \<and> decode_generation body = Inr (g, env)
        \<and> k = ''summary'' \<and> p = summary loads c fuel i)
   \<or> (\<exists>body b. body_of MAX_BODY_BYTES i = Inr body \<and> decode_embedding body = Inr (b, env)
        \<and> k = ''embedding_batch'' \<and> p = embeddings c fuel i)"

lemma own_found:
  assumes "\<And>h. before (reads_own w k hash) anything p h"
  shows "before (reads_own w k hash) anything (seq (get_operation w) (\<lambda>found. case found of Some r \<Rightarrow> existing r k hash | None \<Rightarrow> p)) h"
  using assms by (auto simp: steps split: option.split intro!: before_existing)

lemma own_result_route:
  assumes "result_route loads c fuel i k env p"
  shows "before (reads_own (env_op_id env) k (env_payload_hash env)) anything p []"
  using assms unfolding result_route_def
  by (elim disjE exE conjE)
    (simp_all only: inference_def summary_def embeddings_def with_body_def decoded_def sum.case prod.case,
     auto simp del: traced_seq intro!: own_found own_inference own_summary own_embeddings)

text \<open>A store and a dispatcher that answer with the operation they were asked for.\<close>

fun names_asked :: "api_request \<times> api_answer \<Rightarrow> bool" where
  "names_asked (QObserve oid, AOperation (Some r)) \<longleftrightarrow> op_id r = oid"
| "names_asked (QSubmit sb, AAnswer (Existing r)) \<longleftrightarrow> op_id r = sb_op sb"
| "names_asked _ \<longleftrightarrow> True"

lemma given_named: "given_for w k hash r h \<Longrightarrow> list_all names_asked h \<Longrightarrow> op_id r = w"
  unfolding given_for_def submits_as_def list_all_iff by force

text \<open>
  C14: The routes that answer with results (inference, summaries, embeddings) read the stored result of an
  operation only when it is completed with its output stored and was given to them under the request's own
  operation id, by the store that was asked for that id or by the submission of that id, the route's kind and
  the request's payload hash. It is of the route's kind and of the request's payload hash (a row that was
  recorded without a hash is taken for the request's, as the code has it), or this request has just submitted
  the operation itself. With a store and a dispatcher that answer with the operation they were asked for, the
  result read is that of the operation the request names.
\<close>

theorem results_shown_to_their_request:
  assumes "result_route loads c fuel i k env p" "run p rs = (h, out)" "n < length h" "fst (h ! n) = QResult oid"
  shows "(\<exists>r. ((QObserve (env_op_id env), AOperation (Some r)) \<in> set (take n h)
      \<or> (\<exists>sb. sb_op sb = env_op_id env \<and> sb_kind sb = k \<and> sb_hash sb = env_payload_hash env
            \<and> (QSubmit sb, AAnswer (Existing r)) \<in> set (take n h)))
    \<and> op_id r = oid \<and> op_state r = Completed \<and> store_output r
    \<and> (kind r = k \<and> (payload_hash r = None \<or> payload_hash r = env_payload_hash env)
      \<or> (\<exists>sb. sb_op sb = env_op_id env \<and> sb_kind sb = k \<and> sb_hash sb = env_payload_hash env
            \<and> (QSubmit sb, AAnswer Attempted) \<in> set (take n h))))
    \<and> (list_all names_asked (take n h) \<longrightarrow> oid = env_op_id env)"
proof -
  have "own_result (env_op_id env) k (env_payload_hash env) oid (take n h)"
    using run_duty [OF assms(2,3) own_result_route [OF assms(1)]] assms(4) by simp
  then obtain r where r: "given_for (env_op_id env) k (env_payload_hash env) r (take n h)" "op_id r = oid"
    "op_state r = Completed" "store_output r"
    "answers_for k (env_payload_hash env) r \<or> submitted_here (env_op_id env) k (env_payload_hash env) (take n h)"
    unfolding own_result_def by blast
  from given_named [OF r(1)] r(2) have "list_all names_asked (take n h) \<longrightarrow> oid = env_op_id env" by blast
  with r show ?thesis
    unfolding given_for_def submits_as_def submitted_here_def answers_for_def by blast
qed

definition sample_stored :: operation where
  "sample_stored = \<lparr>node_id = ''n'', op_id = ''op-1'', kind = ''inference'', op_state = Completed, origin_generation = 1,
     origin_boot_id = ''b'', owner_generation = 1, request_id = None, payload_hash = None, store_output = True, reason = None,
     terminal = None, replay_unavailable = False, provenance = [], observed = None, submitted_at = 0, running_at = Some 0,
     resolved_at = Some 1, resolved_by = None\<rparr>"

lemma sample_envelope_simps: "env_op_id sample_envelope = ''op-1''" "env_payload_hash sample_envelope = None"
  by (simp_all add: sample_envelope_def)

lemma sample_stored_simps:
  "kind sample_stored = ''inference''" "op_id sample_stored = ''op-1''" "op_state sample_stored = Completed"
  "store_output sample_stored" "payload_hash sample_stored = None"
  by (simp_all add: sample_stored_def)

theorem results_shown_to_their_request_witness:
  "kind sample_stored = ''inference'' \<and> fst (run (inference (\<lambda>_. None) sample_config 3 sample_incoming)
     [AOperation (Some sample_stored), AJson (Some (JObj []))]) ! 1 = (QResult ''op-1'', AJson (Some (JObj [])))
   \<and> ''op-1'' = env_op_id sample_envelope"
proof -
  let ?p = "inference (\<lambda>_. None) sample_config 3 sample_incoming" and ?rs = "[AOperation (Some sample_stored), AJson (Some (JObj []))]"
  have route: "result_route (\<lambda>_. None) sample_config 3 sample_incoming ''inference'' sample_envelope ?p"
    unfolding result_route_def using sample_body sample_decodes by blast
  have run: "fst (run ?p ?rs) = [(QObserve ''op-1'', AOperation (Some sample_stored)), (QResult ''op-1'', AJson (Some (JObj [])))]"
    by (simp add: inference_def with_body_def sample_body decoded_def sample_decodes get_operation_def existing_def
        describe_def get_json_def sample_envelope_simps sample_stored_simps)
  have "1 < length (fst (run ?p ?rs))" "fst (fst (run ?p ?rs) ! 1) = QResult ''op-1''" by (simp_all add: run)
  note shown = results_shown_to_their_request [OF route surjective_pairing this, unfolded run]
  have "list_all names_asked (take 1 [(QObserve ''op-1'', AOperation (Some sample_stored)), (QResult ''op-1'', AJson (Some (JObj [])))])"
    by (simp add: sample_stored_simps)
  with shown have "''op-1'' = env_op_id sample_envelope" by blast
  moreover from shown have "kind sample_stored = ''inference''" by (simp add: sample_stored_simps)
  ultimately show ?thesis by (simp only: run) simp
qed

end
