(* ===== verification/Api_Protocol.thy ===== *)
theory Api_Protocol
  imports Api_Safety
begin

text \<open>
  The order of the agent's calls: what a stream says and when, what stands behind a maintenance hold, when the
  runtime is restarted and the gate reopened, and when an operator's pin is written.
\<close>

section \<open>Streams\<close>

definition forwarded :: "(json \<times> api_answer) list \<Rightarrow> (api_request \<times> api_answer) list" where
  "forwarded evs = concat (map (\<lambda>(e, r). [(QEvent, AJson (Some e)), (QSend e, r)]) evs)"

lemma forwarded_simps [simp]:
  "forwarded [] = []" "forwarded ((e, r) # evs) = (QEvent, AJson (Some e)) # (QSend e, r) # forwarded evs"
  by (simp_all add: forwarded_def)

abbreviation free :: "('a \<Rightarrow> (api_request \<times> api_answer) list \<Rightarrow> bool) \<Rightarrow> 'a serving \<Rightarrow> (api_request \<times> api_answer) list \<Rightarrow> bool" where
  "free Q p h \<equiv> before (\<lambda>_ _. True) Q p h"

lemma free_forwarding:
  "free (\<lambda>_ h'. \<exists>evs. h' = h @ forwarded evs @ [(QEvent, AJson None)]) (each_event fuel (\<lambda>event _. act (QSend event)) ()) h"
proof (induction fuel arbitrary: h)
  case (Suc n)
  have "free (\<lambda>_ h'. \<exists>evs. h' = h @ forwarded evs @ [(QEvent, AJson None)])
      (each_event n (\<lambda>event _. act (QSend event)) ()) (h @ [(QEvent, AJson (Some e)), (QSend e, r)])" for e r
  proof (rule traced.meets_conseq [OF Suc.IH])
    fix x t assume "\<exists>evs. t = (h @ [(QEvent, AJson (Some e)), (QSend e, r)]) @ forwarded evs @ [(QEvent, AJson None)]"
    then obtain evs where "t = h @ forwarded ((e, r) # evs) @ [(QEvent, AJson None)]" by auto
    then show "\<exists>evs. t = h @ forwarded evs @ [(QEvent, AJson None)]" by blast
  qed
  then have "free (\<lambda>_ h'. \<exists>evs. h' = h @ forwarded evs @ [(QEvent, AJson None)])
      (seq (act (QSend e)) (each_event n (\<lambda>event _. act (QSend event)))) (h @ [(QEvent, AJson (Some e))])" for e
    unfolding traced_seq by (intro before_act) simp_all
  moreover have "\<exists>evs. h @ [(QEvent, AJson None)] = h @ forwarded evs @ [(QEvent, AJson None)]"
    by (rule exI [of _ "[]"]) simp
  ultimately show ?case by (simp add: steps split: option.split)
qed simp

text \<open>What a stream that ran to its end has done.\<close>

definition told :: "string \<Rightarrow> (api_request \<times> api_answer) list \<Rightarrow> bool" where
  "told oid h \<longleftrightarrow> (\<exists>r0 evs r1 found lost r2.
     h = [(QSend (accepted_event oid), r0)] @ forwarded evs @ [(QEvent, AJson None), (QSettled, r1),
       (QObserve oid, AOperation found), (QDeliveryLost, ABool lost), (QSend (terminal_event oid found lost), r2)])"

lemma stream_told:
  "traced.meets (\<lambda>_ _. True) (\<lambda>_ _. True) (stream_reply fuel oid)
     (\<lambda>_ h. \<exists>h0 r. told oid h0 \<and> h = h0 @ [(QAbandon, r)]) (\<lambda>_ h. \<exists>h0 r. h = h0 @ [(QAbandon, r)]) []"
proof -
  have rest: "free (\<lambda>_. told oid) (seq (act QSettled) (\<lambda>_. seq (get_operation oid) (\<lambda>found. seq (get_flag QDeliveryLost) (\<lambda>lost.
      seq (act (QSend (terminal_event oid found lost))) (\<lambda>_. Ret Streamed)))))
      ([(QSend (accepted_event oid), r0)] @ forwarded evs @ [(QEvent, AJson None)])" for r0 evs
    unfolding traced_seq
    by (intro before_act) (auto simp: steps told_def intro!: before_act)
  have "free (\<lambda>_. told oid) (seq (act (QSend (accepted_event oid))) (\<lambda>_.
      seq (each_event fuel (\<lambda>event _. act (QSend event)) ()) (\<lambda>_. seq (act QSettled) (\<lambda>_. seq (get_operation oid) (\<lambda>found.
      seq (get_flag QDeliveryLost) (\<lambda>lost. seq (act (QSend (terminal_event oid found lost))) (\<lambda>_. Ret Streamed))))))) []"
    unfolding traced_seq [of _ _ "act (QSend (accepted_event oid))"] traced_seq [of _ _ "each_event _ _ _"]
  proof (intro before_act traced.meets_conseq [OF free_forwarding] TrueI)
    fix r x t assume "\<exists>evs. t = ([] @ [(QSend (accepted_event oid), r)]) @ forwarded evs @ [(QEvent, AJson None)]"
    then show "free (\<lambda>_. told oid) (seq (act QSettled) (\<lambda>_. seq (get_operation oid) (\<lambda>found. seq (get_flag QDeliveryLost) (\<lambda>lost.
      seq (act (QSend (terminal_event oid found lost))) (\<lambda>_. Ret Streamed))))) t"
      using rest by auto
  qed
  then show ?thesis unfolding stream_reply_def meets_finally
    by (rule traced.meets_conseq) auto
qed

text \<open>
  A streamed reply that runs to its end sends \<open>accepted\<close>, then every event of the attempt in the order it
  was read, and last a terminal event made from the record read after the attempt had settled; and however the
  stream ends, the last thing done is to abandon delivery, so that a caller who left holds nothing.
\<close>

theorem stream_ends_with_the_record:
  assumes "run (stream_reply fuel oid) rs = (h, out)"
  shows "case out of
      Returned x \<Rightarrow> \<exists>r0 evs r1 found lost r2 r3.
        h = [(QSend (accepted_event oid), r0)] @ forwarded evs @ [(QEvent, AJson None), (QSettled, r1),
          (QObserve oid, AOperation found), (QDeliveryLost, ABool lost), (QSend (terminal_event oid found lost), r2), (QAbandon, r3)]
    | Raised e \<Rightarrow> \<exists>h0 r. h = h0 @ [(QAbandon, r)]
    | Waiting q \<Rightarrow> True"
proof -
  note m = traced_run [OF stream_told, of fuel oid rs, unfolded assms, simplified]
  show ?thesis
  proof (cases out)
    case (Returned x)
    with m obtain h0 r where "told oid h0" "h = h0 @ [(QAbandon, r)]" by auto
    then show ?thesis unfolding Returned told_def by fastforce
  qed (use m in auto)
qed

theorem stream_ends_with_the_record_witness:
  "snd (run (stream_reply 2 ''op'') [ADone, AJson (Some JNull), ARaise ''CancelledError'' [], ADone]) = Raised (''CancelledError'', [])
   \<and> (\<exists>h0 r. fst (run (stream_reply 2 ''op'') [ADone, AJson (Some JNull), ARaise ''CancelledError'' [], ADone]) = h0 @ [(QAbandon, r)])"
proof -
  let ?out = "run (stream_reply 2 ''op'') [ADone, AJson (Some JNull), ARaise ''CancelledError'' [], ADone]"
  have out: "snd ?out = Raised (''CancelledError'', [])"
    by (simp add: stream_reply_def finally_do_def act_def get_json_def numeral_2_eq_2)
  have "run (stream_reply 2 ''op'') [ADone, AJson (Some JNull), ARaise ''CancelledError'' [], ADone] = (fst ?out, snd ?out)" by simp
  from stream_ends_with_the_record [OF this] out show ?thesis by simp
qed

section \<open>Behind a closed hold\<close>

text \<open>What the routes of a maintenance hold may do only while the database says it is closed at the epoch named.\<close>

definition held_call :: "int \<Rightarrow> api_request \<Rightarrow> (api_request \<times> api_answer) list \<Rightarrow> bool" where
  "held_call ep q h = (case q of
     QFreeze e \<Rightarrow> e = Some ep \<and> (QHold, AHold True (Some ep)) \<in> set h
   | QInterrupt \<Rightarrow> (QHold, AHold True (Some ep)) \<in> set h \<and> (\<exists>r. (QFreeze (Some ep), r) \<in> set h)
   | QMaintenanceReset e _ _ \<Rightarrow> e = ep \<and> (QHold, AHold True (Some ep)) \<in> set h \<and> (\<exists>r. (QFreeze (Some ep), r) \<in> set h)
       \<and> (QQuiescent, ABool True) \<in> set h
   | QExclusive x \<Rightarrow> ex_epoch x = Some ep \<and> (QHold, AHold True (Some ep)) \<in> set h
       \<and> (QObserve (ex_op x), AOperation None) \<in> set h \<and> ex_kind x \<in> set RESTORE_KINDS
       \<and> (\<exists>ref rg. (QRegistration ref, ARegistration (Some rg)) \<in> set h)
   | QSupervisor _ _ \<Rightarrow> False | QReopen \<Rightarrow> False | QThaw \<Rightarrow> False | QSubmit _ \<Rightarrow> False
   | _ \<Rightarrow> True)"

lemma held_call_simps [simp]:
  "held_call ep (QFreeze e) h \<longleftrightarrow> e = Some ep \<and> (QHold, AHold True (Some ep)) \<in> set h"
  "held_call ep QInterrupt h \<longleftrightarrow> (QHold, AHold True (Some ep)) \<in> set h \<and> (\<exists>r. (QFreeze (Some ep), r) \<in> set h)"
  "held_call ep (QMaintenanceReset m rid who) h \<longleftrightarrow> m = ep \<and> (QHold, AHold True (Some ep)) \<in> set h
     \<and> (\<exists>r. (QFreeze (Some ep), r) \<in> set h) \<and> (QQuiescent, ABool True) \<in> set h"
  "held_call ep (QExclusive x) h \<longleftrightarrow> ex_epoch x = Some ep \<and> (QHold, AHold True (Some ep)) \<in> set h
     \<and> (QObserve (ex_op x), AOperation None) \<in> set h \<and> ex_kind x \<in> set RESTORE_KINDS
     \<and> (\<exists>ref rg. (QRegistration ref, ARegistration (Some rg)) \<in> set h)"
  "held_call ep QHold h" "held_call ep QGate h" "held_call ep QQuiescent h" "held_call ep (QAudit ev ao j) h"
  "held_call ep (QObserve oid) h" "held_call ep (QRegistration ref) h" "held_call ep (QMeasure ref g) h"
  "held_call ep (QResult oid) h" "held_call ep QSettled h"
  by (simp_all add: held_call_def)

lemma before_catching:
  assumes "traced.meets (\<lambda>_ _. True) D p Q (\<lambda>_ _. True) h" "\<And>x d q h'. caught x d = Some q \<Longrightarrow> before D Q q h'"
  shows "before D Q (catching p caught) h"
  unfolding catching_def traced_handle
proof (rule traced.meets_conseq)
  show "traced.meets (\<lambda>_ _. True) D p Q (\<lambda>_ _. True) h" by (rule assms(1))
  show "before D Q ((\<lambda>(x, d). case caught x d of None \<Rightarrow> Throw (x, d) | Some q \<Rightarrow> q) e) t" for e t
    using assms(2) by (cases e) (auto split: option.split)
qed

lemma before_held_at:
  assumes "(\<And>h'. h' = h @ [(QHold, AHold True (Some ep))] \<Longrightarrow> before (held_call ep) anything p h')"
  shows "before (held_call ep) anything (held_at ep p) h"
  using assms by (auto simp: held_at_def steps)

lemma before_with_gate: "before (held_call ep) anything (with_gate j) h"
  by (simp add: with_gate_def steps split: json.split)

lemma before_answered: "before D Q (answered q) h \<longleftrightarrow> D q h \<and> (\<forall>x. Q (case x of None \<Rightarrow> JNull | Some v \<Rightarrow> v) (h @ [(q, AJson x)]))"
  by (simp add: answered_def steps)

lemma held_reset_report:
  assumes "(QHold, AHold True (Some ep)) \<in> set h" "\<exists>r. (QFreeze (Some ep), r) \<in> set h" "(QQuiescent, ABool True) \<in> set h"
  shows "before (held_call ep) anything (reset_report ep rid who) h"
  unfolding reset_report_def
  by (rule before_catching) (use assms in \<open>auto simp: before_answered split: if_splits\<close>)

lemma before_existing_lifecycle: "before (held_call ep) anything (existing_lifecycle r action) h"
  by (rule before_asks [where f = "\<lambda>q. \<exists>oid. q = QResult oid"], rule asks_existing_lifecycle) auto

lemma held_lifecycle_done: "before (held_call ep) anything (lifecycle_done oid action) h"
  by (auto simp: lifecycle_done_def steps before_existing_lifecycle split: option.split)

lemma held_restore_run:
  assumes "(QHold, AHold True (Some ep)) \<in> set h" "(QObserve oid, AOperation None) \<in> set h"
    "action \<in> set RESTORE_KINDS" "(QRegistration ref, ARegistration (Some rg)) \<in> set h"
  shows "before (held_call ep) anything (restore_run c oid action ep ref rg context) h"
  unfolding restore_run_def
proof (rule before_admitted)
  show "before (held_call ep) anything (seq (act QSettled) (\<lambda>_. lifecycle_done oid action)) h'" for h'
    unfolding traced_seq by (intro before_act) (simp_all add: held_lifecycle_done)
qed (use assms in \<open>auto simp: before_existing_lifecycle\<close>)

lemma held_first_registered:
  "before (held_call ep) (\<lambda>x h'. set h \<subseteq> set h' \<and> (\<forall>ref rg. x = Some (ref, rg) \<longrightarrow> (QRegistration ref, ARegistration (Some rg)) \<in> set h'))
     (first_registered ns) h"
proof (induction ns arbitrary: h)
  case (Cons n ns)
  have "before (held_call ep) (\<lambda>x h'. set h \<subseteq> set h' \<and> (\<forall>ref rg. x = Some (ref, rg) \<longrightarrow> (QRegistration ref, ARegistration (Some rg)) \<in> set h'))
      (first_registered ns) (h @ [(QRegistration n, ARegistration None)])"
    by (rule traced.meets_conseq [OF Cons.IH]) auto
  then show ?case by (auto simp: steps split: option.split)
qed simp

lemma held_restore:
  assumes "(QHold, AHold True (Some ep)) \<in> set h" "action \<in> set RESTORE_KINDS"
  shows "before (held_call ep) anything (restore_held c oid action ep name digest wanted) h"
proof -
  have last: "before (held_call ep) anything
      (case restore_context rg ms digest wanted of Inl why \<Rightarrow> Ret (guard_reply why) | Inr context \<Rightarrow> restore_run c oid action ep ref rg context) h'"
    if "set h \<subseteq> set h'" "(QObserve oid, AOperation None) \<in> set h'" "(QRegistration ref, ARegistration (Some rg)) \<in> set h'" for rg ms ref h'
    using assms that by (auto split: sum.split intro!: held_restore_run)
  have "before (held_call ep) anything
       (case registered of None \<Rightarrow> Ret (guard_reply ModelNotOnNode)
       | Some (ref, rg) \<Rightarrow> seq (measure_model (ac_counter c) ref None) (\<lambda>ms.
         case restore_context rg ms digest wanted of
           Inl why \<Rightarrow> Ret (guard_reply why) | Inr context \<Rightarrow> restore_run c oid action ep ref rg context)) h'"
    if "set h \<subseteq> set h'" "(QObserve oid, AOperation None) \<in> set h'"
      "\<forall>ref rg. registered = Some (ref, rg) \<longrightarrow> (QRegistration ref, ARegistration (Some rg)) \<in> set h'" for registered h'
    using that by (auto split: option.split intro!: before_measure last)
  then have "before (held_call ep) anything (seq (first_registered (spellings name)) (\<lambda>registered.
       case registered of None \<Rightarrow> Ret (guard_reply ModelNotOnNode)
       | Some (ref, rg) \<Rightarrow> seq (measure_model (ac_counter c) ref None) (\<lambda>ms.
         case restore_context rg ms digest wanted of
           Inl why \<Rightarrow> Ret (guard_reply why) | Inr context \<Rightarrow> restore_run c oid action ep ref rg context)))
      (h @ [(QObserve oid, AOperation None)])"
    unfolding traced_seq by (intro traced.meets_conseq [OF held_first_registered]) auto
  then show ?thesis
    unfolding restore_held_def by (auto simp: steps before_existing_lifecycle split: option.split)
qed

definition hold_route :: "agent_config \<Rightarrow> incoming \<Rightarrow> int \<Rightarrow> reply serving \<Rightarrow> bool" where
  "hold_route c i ep p \<longleftrightarrow>
     (\<exists>body. body_of MAX_BODY_BYTES i = Inr body \<and> epoch_member body = Inr ep
        \<and> (p = interrupt i \<or> p = maintenance_reset_route i \<or> p = maintenance_restore c i))"

lemma held_interrupt:
  "before (held_call ep) anything (held_at ep (seq (act (QFreeze (Some ep))) (\<lambda>_. seq (answered QInterrupt) (\<lambda>report.
     seq (act (QAudit ''maintenance_interrupt'' None report)) (\<lambda>_. with_gate report))))) h"
  unfolding traced_seq
  by (rule before_held_at) (auto simp: before_answered before_with_gate intro!: before_act)

lemma held_reset:
  "before (held_call ep) anything (held_at ep (seq (act (QFreeze (Some ep))) (\<lambda>_. seq (get_flag QQuiescent) (\<lambda>q.
     if \<not> q then Ret (refusal 409 ''node_not_quiescent'' [])
     else seq (reset_report ep rid who) (\<lambda>report. with_body report with_gate))))) h"
proof (rule before_held_at)
  fix h' assume h': "h' = h @ [(QHold, AHold True (Some ep))]"
  have "before (held_call ep) anything (seq (reset_report ep rid who) (\<lambda>report. with_body report with_gate))
      ((h' @ [(QFreeze (Some ep), r)]) @ [(QQuiescent, ABool True)])" for r
    unfolding traced_seq
    by (rule traced.meets_conseq [OF held_reset_report]) (auto simp: h' intro!: before_with_body before_with_gate)
  then show "before (held_call ep) anything (seq (act (QFreeze (Some ep))) (\<lambda>_. seq (get_flag QQuiescent) (\<lambda>q.
     if \<not> q then Ret (refusal 409 ''node_not_quiescent'' [])
     else seq (reset_report ep rid who) (\<lambda>report. with_body report with_gate)))) h'"
    unfolding traced_seq [of _ _ "act _"] traced_seq [of _ _ "get_flag _"] before_calls
    by (intro before_act) (simp_all add: h' del: traced_seq)
qed

lemma held_hold_route:
  assumes "hold_route c i ep p"
  shows "before (held_call ep) anything p []"
proof -
  from assms obtain body where b: "body_of MAX_BODY_BYTES i = Inr body" "epoch_member body = Inr ep"
    and p: "p = interrupt i \<or> p = maintenance_reset_route i \<or> p = maintenance_restore c i"
    by (auto simp: hold_route_def)
  have body: "with_body (Inr x) f = f x" for x :: 'a and f by (simp add: with_body_def)
  from p show ?thesis
  proof (elim disjE)
    assume "p = interrupt i"
    then show ?thesis by (simp only: interrupt_def b body held_interrupt)
  next
    assume "p = maintenance_reset_route i"
    then show ?thesis
      by (auto simp only: maintenance_reset_route_def b body intro!: before_with_body)
        (simp_all add: held_reset before_with_body)
  next
    assume "p = maintenance_restore c i"
    then show ?thesis
      by (auto simp only: maintenance_restore_def b body intro!: before_with_body)
        (auto intro!: before_with_body before_held_at held_restore)
  qed
qed

text \<open>
  C15: A maintenance route freezes the gate, interrupts senders, resets the runtime or runs past the frozen gate
  only at the epoch its body names, after it has read from the database that the hold is closed at that very
  epoch; it interrupts and resets only once it has frozen the gate, resets only with no sender left, restores
  only an operation that did not exist, of a model registered on the node; and it never reopens the gate.
\<close>

theorem maintenance_acts_behind_the_hold:
  assumes "hold_route c i ep p" "run p rs = (h, out)" "n < length h"
  shows "held_call ep (fst (h ! n)) (take n h)"
  by (rule run_duty [OF assms(2,3) held_hold_route [OF assms(1)]]) simp

definition sample_epoch :: incoming where
  "sample_epoch = \<lparr>in_length = None, in_parts = [], in_json = Some (JObj [(''epoch'', JInt 7)])\<rparr>"

theorem maintenance_acts_behind_the_hold_witness:
  "fst (fst (run (interrupt sample_epoch) [AHold True (Some 7), ADone]) ! 1) = QFreeze (Some 7)
   \<and> held_call 7 (QFreeze (Some 7)) [(QHold, AHold True (Some 7))]"
proof -
  let ?h = "fst (run (interrupt sample_epoch) [AHold True (Some 7), ADone])"
  have b: "body_of MAX_BODY_BYTES sample_epoch = Inr (JObj [(''epoch'', JInt 7)])" "epoch_member (JObj [(''epoch'', JInt 7)]) = Inr 7"
    by (simp_all add: body_of_def read_body_def sample_epoch_def epoch_member_def jget_def dget_def)
  then have route: "hold_route sample_config sample_epoch 7 (interrupt sample_epoch)" unfolding hold_route_def by blast
  have h: "?h = [(QHold, AHold True (Some 7)), (QFreeze (Some 7), ADone)]"
    by (simp add: interrupt_def b with_body_def held_at_def get_hold_def act_def answered_def get_json_def)
  have "1 < length ?h" by (simp add: h)
  from maintenance_acts_behind_the_hold [OF route surjective_pairing this] show ?thesis by (simp add: h)
qed

section \<open>The host runtime and the gate\<close>

text \<open>A request to the supervisor, and the last state of the gate that was read for it.\<close>

definition control_asked :: "string \<Rightarrow> string \<Rightarrow> (api_request \<times> api_answer) list \<Rightarrow> bool" where
  "control_asked action why h \<longleftrightarrow> action \<in> set ACTIONS
     \<and> (\<exists>g who what r. h = [(QGate, AGate g), (QQuiescent, ABool True),
          (QAudit ''runtime_control_requested'' None (JObj [(''action'', JStr action), (''operator'', JStr who), (''reason'', JStr what)]), r)]
        \<and> g \<noteq> SERVING \<and> g \<noteq> LOST \<and> why = who @ '': '' @ what)"

definition asks_control :: "api_request \<Rightarrow> (api_request \<times> api_answer) list \<Rightarrow> bool" where
  "asks_control q h = (case q of QSupervisor action why \<Rightarrow> control_asked action why h | _ \<Rightarrow> True)"

lemma asks_control_simps [simp]:
  "asks_control (QSupervisor action why) h = control_asked action why h"
  "asks_control QGate h" "asks_control QQuiescent h" "asks_control (QAudit ev ao j) h"
  by (simp_all add: asks_control_def)

lemma control_run_asks:
  assumes "action \<in> set ACTIONS" "h = [(QGate, AGate g), (QQuiescent, ABool True)]" "g \<noteq> SERVING" "g \<noteq> LOST"
  shows "before asks_control anything (control_run action who what) h"
proof -
  let ?audit = "QAudit ''runtime_control_requested'' None (JObj [(''action'', JStr action), (''operator'', JStr who), (''reason'', JStr what)])"
  have un: "before asks_control anything (seq (unanswered action who d) (\<lambda>r. Ret (Inl r)) :: (reply + json) serving) h'" for d h'
    unfolding unanswered_def traced_seq by (intro before_act) simp_all
  have last: "before asks_control anything (with_body out (\<lambda>receipt.
       seq (act (QAudit ''runtime_control_receipt'' None receipt)) (\<lambda>_. Ret (receipt_reply receipt)))) h'" for out h'
    by (rule before_with_body) (simp_all only: traced_seq, auto intro!: before_act)
  have "before asks_control anything (seq (catching (seq (answered (QSupervisor action (who @ '': '' @ what))) (\<lambda>j. Ret (Inr j)))
            (\<lambda>x d. if x = ''SupervisorRefused'' then Some (seq (unanswered action who d) (\<lambda>r. Ret (Inl r))) else None)) (\<lambda>out.
     with_body out (\<lambda>receipt. seq (act (QAudit ''runtime_control_receipt'' None receipt)) (\<lambda>_. Ret (receipt_reply receipt)))))
     (h @ [(?audit, r)])" for r
    unfolding traced_seq [of _ _ "catching _ _"]
  proof (rule before_catching)
    show "before asks_control (\<lambda>out. before asks_control anything (with_body out (\<lambda>receipt.
        seq (act (QAudit ''runtime_control_receipt'' None receipt)) (\<lambda>_. Ret (receipt_reply receipt)))))
        (seq (answered (QSupervisor action (who @ '': '' @ what))) (\<lambda>j. Ret (Inr j))) (h @ [(?audit, r)])"
      using assms last by (auto simp: before_answered control_asked_def)
  next
    fix x d h' and q :: "(reply + json) serving" assume "(if x = ''SupervisorRefused'' then Some (seq (unanswered action who d) (\<lambda>r. Ret (Inl r))) else None) = Some q"
    then show "before asks_control (\<lambda>out. before asks_control anything (with_body out (\<lambda>receipt.
        seq (act (QAudit ''runtime_control_receipt'' None receipt)) (\<lambda>_. Ret (receipt_reply receipt))))) q h'"
      by (auto split: if_splits intro!: traced.meets_conseq [OF un] last simp del: traced_seq)
  qed
  then show ?thesis
    unfolding control_run_def traced_seq [of _ _ "act _"] by (intro before_act) simp_all
qed

lemma runtime_control_asks: "before asks_control anything (runtime_control action i) []"
proof -
  have "before asks_control anything (seq (get_gate QGate) (\<lambda>g. seq (get_flag QQuiescent) (\<lambda>q.
      if g = SERVING \<or> g = LOST \<or> \<not> q then Ret (control_refused g q) else control_run action who why))) []"
    if "action \<in> set ACTIONS" for who why
    unfolding traced_seq before_calls using that by (auto intro!: control_run_asks)
  then show ?thesis
    unfolding runtime_control_def by (auto intro!: before_with_body simp del: traced_seq)
qed

text \<open>
  A route asks the supervisor to stop, start or restart the runtime only when the gate it read was neither
  serving nor lost and no sender was left, and after it has recorded the request, with the operator and the
  reason, in the node's audit.
\<close>

theorem restart_only_when_not_serving:
  assumes "run (runtime_control action i) rs = (h, out)" "n < length h" "fst (h ! n) = QSupervisor a why"
  shows "control_asked a why (take n h)"
  using run_duty [OF assms(1,2) runtime_control_asks] assms(3) by simp

definition sample_control :: incoming where
  "sample_control = \<lparr>in_length = None, in_parts = [],
     in_json = Some (JObj [(''operator'', JStr ''ann''), (''reason'', JStr ''stuck'')])\<rparr>"

lemma sample_control_run:
  "runtime_control ''restart'' sample_control = seq (get_gate QGate) (\<lambda>g. seq (get_flag QQuiescent) (\<lambda>q.
      if g = SERVING \<or> g = LOST \<or> \<not> q then Ret (control_refused g q) else control_run ''restart'' ''ann'' ''stuck''))"
proof -
  have "text_member (JObj [(''operator'', JStr ''ann''), (''reason'', JStr ''stuck'')]) ''operator'' 128 = Inr ''ann''"
    "text_member (JObj [(''operator'', JStr ''ann''), (''reason'', JStr ''stuck'')]) ''reason'' 200 = Inr ''stuck''"
    "''restart'' \<in> set ACTIONS"
    by code_simp+
  moreover have "body_of MAX_BODY_BYTES sample_control = Inr (JObj [(''operator'', JStr ''ann''), (''reason'', JStr ''stuck'')])"
    by (simp add: body_of_def read_body_def sample_control_def)
  ultimately show ?thesis by (simp add: runtime_control_def with_body_def)
qed

lemma sample_control_history:
  "fst (run (runtime_control ''restart'' sample_control) [AGate DRAINING, ABool True, ADone, AJson (Some JNull)])
   = [(QGate, AGate DRAINING), (QQuiescent, ABool True),
      (QAudit ''runtime_control_requested'' None (JObj [(''action'', JStr ''restart''), (''operator'', JStr ''ann''), (''reason'', JStr ''stuck'')]), ADone),
      (QSupervisor ''restart'' ''ann: stuck'', AJson (Some JNull))]"
  by (simp add: sample_control_run get_gate_def get_flag_def control_run_def act_def catching_def answered_def get_json_def with_body_def)

theorem restart_only_when_not_serving_witness:
  "control_asked ''restart'' ''ann: stuck'' [(QGate, AGate DRAINING), (QQuiescent, ABool True),
     (QAudit ''runtime_control_requested'' None (JObj [(''action'', JStr ''restart''), (''operator'', JStr ''ann''), (''reason'', JStr ''stuck'')]), ADone)]"
proof -
  have "3 < length (fst (run (runtime_control ''restart'' sample_control) [AGate DRAINING, ABool True, ADone, AJson (Some JNull)]))"
    by (simp add: sample_control_history)
  from restart_only_when_not_serving [OF surjective_pairing this, of "''restart''" "''ann: stuck''"] show ?thesis
    by (simp add: sample_control_history numeral_3_eq_3)
qed

text \<open>
  The gate is not read again between the record and the request: while the record is being written nothing is
  outstanding at the supervisor, so that an operator who resumes meanwhile has the gate reopened, and the
  runtime is restarted under a serving node.
\<close>

theorem a_resume_may_slip_before_a_restart:
  "\<exists>record. snd (run (runtime_control ''restart'' sample_control) [AGate DRAINING, ABool True]) = Waiting (QAudit ''runtime_control_requested'' None record)
   \<and> snd (run (runtime_control ''restart'' sample_control) [AGate DRAINING, ABool True, ADone]) = Waiting (QSupervisor ''restart'' ''ann: stuck'')
   \<and> snd (run resume [ANames [] [], ANames [] [], AGate SERVING]) = Returned (json_reply (JObj [(''gate'', JStr ''serving'')]))"
  by (simp add: sample_control_run get_gate_def get_flag_def control_run_def act_def catching_def answered_def get_json_def
      resume_def runtime_quiet_for_serving_def get_names_def)

section \<open>A quiet runtime\<close>

definition opens_gate :: "api_request \<Rightarrow> bool" where
  "opens_gate q \<longleftrightarrow> q = QReopen \<or> q = QThaw"

definition quiet_before :: "api_request \<Rightarrow> (api_request \<times> api_answer) list \<Rightarrow> bool" where
  "quiet_before q h \<longleftrightarrow> (opens_gate q \<longrightarrow> (\<exists>h0 waiting. h = h0 @ [(QOutstanding, ANames waiting [])]))"

lemma quiet_before_simps [simp]:
  "quiet_before QOutstanding h" "quiet_before (QWithdraw rid) h" "quiet_before (QAudit ev ao j) h" "quiet_before QHold h"
  "quiet_before QFrozen h" "quiet_before QFrozenEpoch h" "quiet_before (QFreeze ep) h"
  "quiet_before QReopen h = (\<exists>h0 waiting. h = h0 @ [(QOutstanding, ANames waiting [])])"
  "quiet_before QThaw h = (\<exists>h0 waiting. h = h0 @ [(QOutstanding, ANames waiting [])])"
  by (simp_all add: quiet_before_def opens_gate_def)

lemma before_withdraw_all: "before quiet_before anything (withdraw_all rids) h"
proof (induction rids arbitrary: h)
  case (Cons rid rids)
  have "before quiet_before (\<lambda>_. before quiet_before anything (withdraw_all rids))
      (if gone then act (QAudit ''runtime_control_withdrawn'' None (JObj [(''request_id'', JStr rid)])) else Ret ()) h'" for gone h'
    by (simp add: Cons.IH before_act)
  then show ?case by (simp add: before_calls)
qed simp

lemma before_quiet_for_serving:
  "before quiet_before (\<lambda>quiet h'. quiet \<longrightarrow> (\<exists>h0 waiting. h' = h0 @ [(QOutstanding, ANames waiting [])])) runtime_quiet_for_serving h"
proof -
  let ?Q = "\<lambda>quiet h'. quiet \<longrightarrow> (\<exists>h0 waiting. h' = h0 @ [(QOutstanding, ANames waiting [])])"
  show ?thesis unfolding runtime_quiet_for_serving_def traced_seq before_calls prod.case
  proof (intro conjI allI)
    show "quiet_before QOutstanding h" by simp
  next
    fix ws running
    show "before quiet_before (\<lambda>_ h. quiet_before QOutstanding h \<and> (\<forall>a b. before quiet_before ?Q (Ret (b = []))
        (h @ [(QOutstanding, ANames a b)]))) (withdraw_all ws) (h @ [(QOutstanding, ANames ws running)])"
      by (rule traced.meets_conseq [OF before_withdraw_all]) auto
  qed
qed

lemma quiet_resume: "before quiet_before anything resume h"
  unfolding resume_def traced_seq
  by (rule traced.meets_conseq [OF before_quiet_for_serving]) (auto simp: steps)

lemma before_on_exception:
  "before D Q p h \<Longrightarrow> (\<And>x h'. before D Q (k x) h') \<Longrightarrow> before D Q (on_exception p k) h"
  unfolding on_exception_def by (rule before_catching) (auto split: if_splits)

lemma quiet_follow_hold: "before quiet_before anything follow_hold h"
proof -
  have thaw: "before quiet_before anything (seq runtime_quiet_for_serving (\<lambda>quiet. if quiet then seq (get_gate QThaw) (\<lambda>_. Ret ()) else Ret ())) h'" for h'
    unfolding traced_seq by (rule traced.meets_conseq [OF before_quiet_for_serving]) (auto simp: steps)
  have "before quiet_before anything (case hold of None \<Rightarrow> Ret ()
     | Some (shut, ep) \<Rightarrow> seq (get_flag QFrozen) (\<lambda>frozen. seq (get_epoch QFrozenEpoch) (\<lambda>at_epoch.
       if shut \<and> (\<not> frozen \<or> at_epoch \<noteq> ep) then act (QFreeze ep)
       else if \<not> shut \<and> frozen
       then seq runtime_quiet_for_serving (\<lambda>quiet. if quiet then seq (get_gate QThaw) (\<lambda>_. Ret ()) else Ret ())
       else Ret ()))) h'" for hold h'
    using thaw [unfolded traced_seq] by (auto simp: before_calls split: option.split intro!: before_act)
  then have "before quiet_before (\<lambda>hold. before quiet_before anything (case hold of None \<Rightarrow> Ret ()
     | Some (shut, ep) \<Rightarrow> seq (get_flag QFrozen) (\<lambda>frozen. seq (get_epoch QFrozenEpoch) (\<lambda>at_epoch.
       if shut \<and> (\<not> frozen \<or> at_epoch \<noteq> ep) then act (QFreeze ep)
       else if \<not> shut \<and> frozen
       then seq runtime_quiet_for_serving (\<lambda>quiet. if quiet then seq (get_gate QThaw) (\<lambda>_. Ret ()) else Ret ())
       else Ret ()))))
     (on_exception (seq get_hold (\<lambda>h. Ret (Some h))) (\<lambda>_. Ret None)) h"
    by (intro before_on_exception) (simp_all only: traced_seq traced_Ret before_calls, simp_all)
  then show ?thesis unfolding follow_hold_def traced_seq [of _ _ "on_exception _ _"] by simp
qed

text \<open>
  C16: Whether an operator resumes or the agent follows the lifted hold, the gate is reopened only right after the
  supervisor was found to have no request taken and unfinished.
\<close>

theorem serves_only_a_quiet_runtime:
  assumes "run resume rs = (h, out) \<or> run follow_hold rs = (h, out')" "n < length h" "opens_gate (fst (h ! n))"
  shows "\<exists>h0 waiting. take n h = h0 @ [(QOutstanding, ANames waiting [])]"
  using assms run_duty [OF _ assms(2) quiet_resume, of rs out] run_duty [OF _ assms(2) quiet_follow_hold, of rs out']
  by (auto simp: quiet_before_def)

theorem serves_only_a_quiet_runtime_witness:
  "\<exists>h0 waiting. take 2 (fst (run resume [ANames [] [], ANames [] [], AGate SERVING])) = h0 @ [(QOutstanding, ANames waiting [])]"
proof -
  let ?h = "fst (run resume [ANames [] [], ANames [] [], AGate SERVING])"
  have h: "?h = [(QOutstanding, ANames [] []), (QOutstanding, ANames [] []), (QReopen, AGate SERVING)]"
    by (simp add: resume_def runtime_quiet_for_serving_def get_names_def get_gate_def)
  have "2 < length ?h" "opens_gate (fst (?h ! 2))" by (simp_all add: h opens_gate_def)
  then show ?thesis by (intro serves_only_a_quiet_runtime [OF disjI1 [OF surjective_pairing]]) simp_all
qed

text \<open>An agent that starts does not ask: it reopens its gate whatever the supervisor has taken.\<close>

theorem a_start_serves_without_asking:
  "run open_gate [AHold False None, ABool False, AEpoch None, AGate SERVING]
   = ([(QHold, AHold False None), (QFrozen, ABool False), (QFrozenEpoch, AEpoch None), (QReopen, AGate SERVING)], Returned SERVING)"
  by (simp add: open_gate_def follow_hold_def on_exception_def catching_def get_hold_def get_flag_def get_epoch_def get_gate_def)

section \<open>The watchdog\<close>

text \<open>
  A turn that found its role: a sleep, the host lock held, the session elected, and what follows until the next
  sleep. The history of a watchdog between two turns is a sequence of such turns.
\<close>

definition checked_turn :: "(api_request \<times> api_answer) list \<Rightarrow> bool" where
  "checked_turn t \<longleftrightarrow> (\<exists>r rest. t = (QSleep, r) # (QHeld, ABool True) # (QElected, ABool True) # rest
     \<and> QSleep \<notin> set (map fst rest))"

definition turned :: "nat \<Rightarrow> (api_request \<times> api_answer) list \<Rightarrow> bool" where
  "turned m h \<longleftrightarrow> (\<exists>turns. list_all checked_turn turns \<and> length turns = m \<and> h = concat turns)"

lemma turned_Nil [simp]: "turned 0 []"
  by (simp add: turned_def)

lemma turned_step:
  assumes "turned m h" "QSleep \<notin> set (map fst rest)"
  shows "turned (Suc m) (h @ (QSleep, r) # (QHeld, ABool True) # (QElected, ABool True) # rest)"
proof -
  from assms(1) obtain ts where "list_all checked_turn ts" "length ts = m" "h = concat ts"
    unfolding turned_def by blast
  moreover have "checked_turn ((QSleep, r) # (QHeld, ABool True) # (QElected, ABool True) # rest)"
    using assms(2) unfolding checked_turn_def by blast
  ultimately show ?thesis
    unfolding turned_def
    by (intro exI [of _ "ts @ [(QSleep, r) # (QHeld, ABool True) # (QElected, ABool True) # rest]"]) simp
qed

text \<open>A turn begins only after whole turns that found the role.\<close>

definition sleeps_whole :: "api_request \<Rightarrow> (api_request \<times> api_answer) list \<Rightarrow> bool" where
  "sleeps_whole q h \<longleftrightarrow> q = QSleep \<longrightarrow> (\<exists>m. turned m h)"

lemma sleeps_whole_simps [simp]: "q \<noteq> QSleep \<Longrightarrow> sleeps_whole q h" "turned m h \<Longrightarrow> sleeps_whole q h"
  by (auto simp: sleeps_whole_def)

text \<open>The role is given up before the process is told to end, and that is the last act.\<close>

definition terminated :: "(api_request \<times> api_answer) list \<Rightarrow> bool" where
  "terminated h \<longleftrightarrow> (\<exists>h0 why r' h1 r. h = h0 @ (QLoseRole why, r') # h1 @ [(QTerminate, r)])"

lemma meets_on_exception:
  assumes "traced.meets ok D p Q (\<lambda>e h. if fst e = ''CancelledError'' then E e h else traced.meets ok D (k (fst e)) Q E h) h"
  shows "traced.meets ok D (on_exception p k) Q E h"
  using assms unfolding on_exception_def catching_def traced_handle
  by (rule traced.meets_conseq) (auto split: if_splits)

text \<open>Whatever fails on the way, the process is told to end.\<close>

lemma lost_role_terminates:
  "traced.meets (\<lambda>_ _. True) sleeps_whole (lost_role g b why) (\<lambda>_. terminated)
     (\<lambda>e h. terminated h \<and> fst e = ''CancelledError'') h"
proof -
  let ?given = "\<lambda>h'. \<exists>r' h1. h' = h @ (QLoseRole why, r') # h1"
  let ?audit = "\<lambda>n. act (QAudit ''role_lost'' None (JObj [(''reason'', JStr why), (''generation'', JInt g),
          (''boot_id'', JStr b), (''admitted'', JInt (int n))]))"
  have given: "?given (h' @ [x])" if "?given h'" for h' x using that by auto
  have "traced.meets (\<lambda>_ _. True) sleeps_whole (seq (act (QLoseRole why)) (\<lambda>_. seq (get_nat QAdmitted) ?audit))
      (\<lambda>_. ?given) (\<lambda>_. ?given) h"
    by (simp add: act_def get_nat_def unexpected_def split: api_answer.split)
  then have "traced.meets (\<lambda>_ _. True) sleeps_whole
      (on_exception (seq (act (QLoseRole why)) (\<lambda>_. seq (get_nat QAdmitted) ?audit)) (\<lambda>_. Ret ()))
      (\<lambda>_. ?given) (\<lambda>e h'. ?given h' \<and> fst e = ''CancelledError'') h"
    by (intro meets_on_exception) (rule traced.meets_conseq, auto)
  then show ?thesis
    unfolding lost_role_def meets_finally by (rule traced.meets_conseq) (auto simp: terminated_def)
qed

lemma asks_withdraw_all: "(\<And>rid. f (QWithdraw rid)) \<Longrightarrow> (\<And>e a j. f (QAudit e a j)) \<Longrightarrow> asks f (withdraw_all rids)"
  by (induction rids) (auto simp: asked intro!: asks_seq)

lemma asks_quiet_for_serving:
  "f QOutstanding \<Longrightarrow> (\<And>rid. f (QWithdraw rid)) \<Longrightarrow> (\<And>e a j. f (QAudit e a j)) \<Longrightarrow> asks f runtime_quiet_for_serving"
  unfolding runtime_quiet_for_serving_def by (auto simp: asked intro!: asks_seq asks_withdraw_all split: prod.split)

lemma asks_follow_hold: "asks (\<lambda>q. q \<noteq> QSleep) follow_hold"
  unfolding follow_hold_def
  by (auto simp: asked intro!: asks_seq asks_on_exception asks_quiet_for_serving split: option.split prod.split)

lemma awake:
  assumes "asks (\<lambda>q. q \<noteq> QSleep) p"
  shows "before sleeps_whole (\<lambda>_ h'. \<exists>rest. h' = h @ rest \<and> QSleep \<notin> set (map fst rest)) p h"
  using asks_meets [OF assms, of sleeps_whole]
proof (rule traced_both [rotated])
  show "free (\<lambda>_ h'. \<exists>rest. h' = h @ rest \<and> QSleep \<notin> set (map fst rest)) p h"
    by (rule asks_keeps [OF assms]) auto
qed simp

lemma watch_turn_checks:
  assumes "turned m h"
  shows "before sleeps_whole (\<lambda>lost h'. lost = None \<longrightarrow> turned (Suc m) h') watch_turn h"
proof -
  let ?tail = "seq (on_exception (act QRecheck) (\<lambda>_. Ret ())) (\<lambda>_. seq follow_hold (\<lambda>_. Ret (None :: string option)))"
  let ?h = "\<lambda>r. h @ [(QSleep, r), (QHeld, ABool True), (QElected, ABool True)]"
  have tail: "before sleeps_whole (\<lambda>lost h'. lost = None \<longrightarrow> turned (Suc m) h') ?tail (?h r)" for r
  proof (rule traced.meets_conseq [OF awake])
    show "asks (\<lambda>q. q \<noteq> QSleep) ?tail" by (auto simp: asked asks_follow_hold intro!: asks_seq asks_on_exception)
  qed (auto intro: turned_step [OF assms])
  have elected: "before sleeps_whole (\<lambda>lost h'. lost = None \<longrightarrow> turned (Suc m) h') (seq (get_flag QElected) (\<lambda>elected.
      if \<not> elected then Ret (Some ''election session lost'') else ?tail)) (h @ [(QSleep, r), (QHeld, ABool True)])" for r
    unfolding traced_seq [of _ _ "get_flag _"] before_calls using tail by simp
  show ?thesis
    unfolding watch_turn_def traced_seq [of _ _ "act _"] traced_seq [of _ _ "get_flag QHeld"] before_calls
    by (intro before_act) (simp_all add: elected sleeps_whole_simps(2) [OF assms] del: traced_seq)
qed

lemma watch_turns_end:
  assumes "turned m h"
  shows "before sleeps_whole (\<lambda>stopped h'. if stopped then terminated h' else turned (m + n) h') (watch_turns n g b) h"
  using assms
proof (induction n arbitrary: m h)
  case (Suc n)
  have "before sleeps_whole (\<lambda>stopped h'. if stopped then terminated h' else turned (m + Suc n) h') (case lost of
      Some why \<Rightarrow> seq (lost_role g b why) (\<lambda>_. Ret True) | None \<Rightarrow> watch_turns n g b) h'"
    if "lost = None \<longrightarrow> turned (Suc m) h'" for lost h'
  proof (cases lost)
    case (Some why)
    then show ?thesis by simp (rule traced.meets_conseq [OF lost_role_terminates], auto)
  next
    case None
    with that have "turned (Suc m) h'" by simp
    from Suc.IH [OF this] None show ?thesis by (simp only: option.case add_Suc add_Suc_right)
  qed
  then show ?case
    unfolding watch_turns.simps traced_seq by (rule traced.meets_conseq [OF watch_turn_checks [OF Suc.prems]])
qed simp

lemma watch_ends:
  "traced.meets (\<lambda>_ _. True) sleeps_whole (watch n g b) (\<lambda>stopped h. if stopped then terminated h else turned n h)
     (\<lambda>e _. fst e = ''CancelledError'') []"
  unfolding watch_def
proof (rule meets_on_exception, rule traced.meets_conseq [OF watch_turns_end [OF turned_Nil]])
  have "traced.meets (\<lambda>_ _. True) sleeps_whole (seq (lost_role g b ''watchdog failed'') (\<lambda>_. Ret True))
      (\<lambda>stopped h. if stopped then terminated h else turned n h) (\<lambda>e _. fst e = ''CancelledError'') t" for t
    unfolding traced_seq by (rule traced.meets_conseq [OF lost_role_terminates]) auto
  then show "if fst e = ''CancelledError'' then fst e = ''CancelledError''
      else traced.meets (\<lambda>_ _. True) sleeps_whole (seq (lost_role g b ''watchdog failed'') (\<lambda>_. Ret True))
      (\<lambda>stopped h. if stopped then terminated h else turned n h) (\<lambda>e _. fst e = ''CancelledError'') t" for e :: "string \<times> jobj" and t
    by simp
qed (auto split: if_splits)

text \<open>
  C17: A watchdog that stops watching has given up the role and then told the process to end, as its last act,
  whatever failed on the way, a broken database included. Before each turn it begins, and at the end of a watch
  that has not stopped, its whole history is a sequence of turns each of which began by asking whether the host
  lock is held and whether the session is elected and was told yes to both. The one exit that ends no process is
  its own cancellation, which is how the agent stops it.
\<close>

theorem watchdog_ends_the_process:
  assumes "run (watch n generation boot) rs = (h, out)"
  shows "(case out of
      Returned stopped \<Rightarrow>
        if stopped then \<exists>h0 why r' h1 r. h = h0 @ (QLoseRole why, r') # h1 @ [(QTerminate, r)]
        else \<exists>turns. list_all checked_turn turns \<and> length turns = n \<and> h = concat turns
    | Raised e \<Rightarrow> fst e = ''CancelledError''
    | Waiting q \<Rightarrow> True)
   \<and> (\<forall>k < length h. fst (h ! k) = QSleep \<longrightarrow> (\<exists>turns. list_all checked_turn turns \<and> take k h = concat turns))"
proof -
  have ok: "\<forall>(q, r) \<in> set h. True" by simp
  from traced_run [OF watch_ends, of n generation boot rs, unfolded assms fst_conv snd_conv append_Nil, OF ok]
  have "ends_as out (\<lambda>stopped. if stopped then terminated h else turned n h) (\<lambda>e. fst e = ''CancelledError'')
      (\<lambda>q. sleeps_whole q h)" and "\<forall>k < length h. sleeps_whole (fst (h ! k)) (take k h)" by blast+
  then show ?thesis
    unfolding ends_as_def terminated_def turned_def sleeps_whole_def by (auto split: ending.splits)
qed

theorem watchdog_ends_the_process_witness:
  "\<exists>h0 why r' h1 r. fst (run (watch 1 1 ''b'') [ADone, ABool True, ARaise ''OSError'' [], ARaise ''OSError'' [], ADone])
     = h0 @ (QLoseRole why, r') # h1 @ [(QTerminate, r)]"
proof -
  let ?out = "run (watch 1 1 ''b'') [ADone, ABool True, ARaise ''OSError'' [], ARaise ''OSError'' [], ADone]"
  have out: "snd ?out = Returned True"
    by (simp add: watch_def on_exception_def catching_def watch_turn_def act_def get_flag_def lost_role_def finally_do_def unexpected_def)
  have "?out = (fst ?out, Returned True)" by (simp only: out [symmetric] prod.collapse)
  from watchdog_ends_the_process [OF this] show ?thesis by simp
qed

section \<open>The operator's pin\<close>

definition pin_confirmed :: "lifecycle_request \<Rightarrow> string \<Rightarrow> (api_request \<times> api_answer) list \<Rightarrow> bool" where
  "pin_confirmed wanted digest h \<longleftrightarrow> lr_manifest_digest wanted = Some digest
     \<and> (QServed (lr_ref wanted), AText (Some digest)) \<in> set h
     \<and> (\<exists>ms. (QMeasure (lr_ref wanted) None, AMeasure ms) \<in> set h \<and> ms_identity ms = Some digest)"

definition pins_confirmed :: "lifecycle_request \<Rightarrow> api_request \<Rightarrow> (api_request \<times> api_answer) list \<Rightarrow> bool" where
  "pins_confirmed wanted q h = (case q of
     QRepin oid ref digest \<Rightarrow> oid = lr_op_id wanted \<and> ref = lr_ref wanted \<and> pin_confirmed wanted digest h | _ \<Rightarrow> True)"

lemma pins_confirmed_simps [simp]:
  "pins_confirmed wanted (QRepin oid ref digest) h \<longleftrightarrow> oid = lr_op_id wanted \<and> ref = lr_ref wanted \<and> pin_confirmed wanted digest h"
  "pins_confirmed wanted (QServed ref) h" "pins_confirmed wanted (QMeasure ref g) h" "pins_confirmed wanted (QAudit ev ao j) h"
  by (simp_all add: pins_confirmed_def)

lemma pin_approved_confirmed:
  assumes "pin_confirmed wanted digest h"
  shows "before (pins_confirmed wanted) anything (pin_approved wanted digest evidence) h"
proof -
  have last: "before (pins_confirmed wanted) anything (case moved of None \<Rightarrow> Ret (RuntimeRefused evidence ''pin_not_written'')
     | Some n \<Rightarrow> seq (on_exception (act (QAudit ''repin'' (Some (lr_op_id wanted))
              (JObj [(''ref'', JStr (lr_ref wanted)), (''digest'', JStr digest), (''models'', JInt (int n)),
                     (''by'', JStr ''operator'')]))) (\<lambda>_. Ret ())) (\<lambda>_.
       Ret (RtCompleted (dmerge evidence [(''models'', JInt (int n))]) None False))) h'" for moved h'
    by (auto split: option.split intro!: before_on_exception before_act)
  show ?thesis
    unfolding pin_approved_def traced_seq [of _ _ "on_exception (seq _ _) _"]
    by (rule before_on_exception) (use last assms in \<open>simp_all only: traced_seq traced_Ret before_calls pins_confirmed_simps\<close>, use last in simp_all)
qed

lemma repin_judged_confirmed:
  assumes "(QServed (lr_ref wanted), AText served) \<in> set h"
    "ms_identity ms \<noteq> None \<longrightarrow> (QMeasure (lr_ref wanted) None, AMeasure ms) \<in> set h"
  shows "before (pins_confirmed wanted) anything (repin_judged wanted served ms) h"
  using assms unfolding repin_judged_def Let_def
  by (auto split: option.split intro!: pin_approved_confirmed simp: pin_confirmed_def)

lemma operator_repin_confirmed: "before (pins_confirmed wanted) anything (operator_repin c wanted) []"
proof -
  have judged: "before (pins_confirmed wanted) anything (case served of
       Inl x \<Rightarrow> Ret (RuntimeRefused [(''approved'', jopt_str (lr_manifest_digest wanted))] (''revision_unconfirmed:'' @ x))
     | Inr d \<Rightarrow> seq (measure_model (ac_counter c) (lr_ref wanted) None) (repin_judged wanted d)) h"
    if "\<forall>d. served = Inr d \<longrightarrow> (QServed (lr_ref wanted), AText d) \<in> set h" for served h
    using that by (cases served) (auto intro!: before_measure repin_judged_confirmed)
  show ?thesis
    unfolding operator_repin_def traced_seq [of _ _ "on_exception (seq _ _) _"]
  proof (rule before_on_exception)
    show "before (pins_confirmed wanted) (\<lambda>served. before (pins_confirmed wanted) anything (case served of
         Inl x \<Rightarrow> Ret (RuntimeRefused [(''approved'', jopt_str (lr_manifest_digest wanted))] (''revision_unconfirmed:'' @ x))
       | Inr d \<Rightarrow> seq (measure_model (ac_counter c) (lr_ref wanted) None) (repin_judged wanted d)))
       (seq (get_text (QServed (lr_ref wanted))) (\<lambda>d. Ret (Inr d))) []"
      unfolding traced_seq [of _ _ "get_text _"] before_calls traced_Ret by (intro conjI allI judged) simp_all
  qed simp
qed

text \<open>
  An operator's re-pin writes the weights' digest only when it is the one the operator named, and both the
  runtime's listing and the model store have just reported exactly that digest for the model.
\<close>

theorem only_served_weights_are_pinned:
  assumes "run (operator_repin c wanted) rs = (h, out)" "n < length h" "fst (h ! n) = QRepin oid ref digest"
  shows "oid = lr_op_id wanted \<and> ref = lr_ref wanted \<and> pin_confirmed wanted digest (take n h)"
  using run_duty [OF assms(1,2) operator_repin_confirmed] assms(3) by simp

definition sample_wanted :: lifecycle_request where
  "sample_wanted = \<lparr>lr_op_id = ''o'', lr_ref = ''m'', lr_context_length = None, lr_manifest_digest = Some ''w''\<rparr>"

theorem only_served_weights_are_pinned_witness:
  "pin_confirmed sample_wanted ''w'' [(QServed ''m'', AText (Some ''w'')), (QMeasure ''m'' None, AMeasure sample_measurement)]"
proof -
  let ?h = "fst (run (operator_repin sample_config sample_wanted) [AText (Some ''w''), AMeasure sample_measurement, ANat 0])"
  have h: "?h = [(QServed ''m'', AText (Some ''w'')), (QMeasure ''m'' None, AMeasure sample_measurement), (QRepin ''o'' ''m'' ''w'', ANat 0)]"
    by (simp add: operator_repin_def repin_judged_def on_exception_def catching_def get_text_def measure_model_def Let_def
        sample_measurement_def sample_wanted_def pin_approved_def get_nat_def act_def)
  have "2 < length ?h" "fst (?h ! 2) = QRepin ''o'' ''m'' ''w''" by (simp_all add: h)
  moreover have "take 2 ?h = [(QServed ''m'', AText (Some ''w'')), (QMeasure ''m'' None, AMeasure sample_measurement)]" by (simp add: h)
  ultimately show ?thesis using only_served_weights_are_pinned [OF surjective_pairing, of 2 sample_config sample_wanted] by metis
qed

end
