(* ===== verification/Chat_Decoder.thy ===== *)
theory Chat_Decoder
  imports Relay_Summary Chat
begin

text \<open>
  The decoder of the runtime's chat lines that the gateway shares between its two adapters,
  \<open>src/backend/app/adapters/runtime/ollama_adapter/decoding.py\<close>. A minted call id is a parameter, a function
  of how many were minted before; a raise is the name of the exception, after which the decoder is not used again.
\<close>

section \<open>Tool calls\<close>

text \<open>A name is whatever the runtime put there, if it is truthy.\<close>

record decoded_call =
  dc_id :: string
  dc_name :: json
  dc_arguments :: string

definition commas :: "string list \<Rightarrow> string" where
  "commas xs = (case xs of [] \<Rightarrow> [] | y # ys \<Rightarrow> y @ concat (map (\<lambda>x. CHR '','' # x) ys))"

text \<open>\<open>json.dumps(x, separators=(",", ":"))\<close>.\<close>

fun compact :: "json \<Rightarrow> string"
  and compact_all :: "json list \<Rightarrow> string list"
  and compact_items :: "(string \<times> json) list \<Rightarrow> string list" where
  "compact JNull = ''null''"
| "compact (JBool b) = (if b then ''true'' else ''false'')"
| "compact (JInt n) = show_int n"
| "compact (JFloat m e) = float_repr m e"
| "compact (JStr s) = dumps_str s"
| "compact (JList xs) = CHR ''['' # commas (compact_all xs) @ '']''"
| "compact (JObj d) = CHR ''{'' # commas (compact_items d) @ ''}''"
| "compact_all [] = []"
| "compact_all (x # xs) = compact x # compact_all xs"
| "compact_items [] = []"
| "compact_items ((k, v) # d) = (dumps_str k @ '':'' @ compact v) # compact_items d"


text \<open>A value a set can hold.\<close>

definition hashable :: "json \<Rightarrow> bool" where
  "hashable j = (case j of JList _ \<Rightarrow> False | JObj _ \<Rightarrow> False | _ \<Rightarrow> True)"

definition call_arguments :: "json \<Rightarrow> string" where
  "call_arguments j = (case j of JStr s \<Rightarrow> s | _ \<Rightarrow> compact (por j (JObj [])))"

text \<open>\<open>_parse_tool_calls\<close>: an entry without a name is dropped, and mints no id.\<close>

fun parse_calls :: "(nat \<Rightarrow> string) \<Rightarrow> nat \<Rightarrow> json list \<Rightarrow> string + decoded_call list" where
  "parse_calls mint n [] = Inr []"
| "parse_calls mint n (entry # es) =
     ebind (get_of (por entry (JObj [])) ''function'') (\<lambda>f.
     ebind (get_of (por f (JObj [])) ''name'') (\<lambda>name.
     if \<not> truthy name then parse_calls mint n es
     else ebind (get_of (por f (JObj [])) ''arguments'') (\<lambda>arguments.
          ebind (parse_calls mint (Suc n) es) (\<lambda>cs.
            Inr (\<lparr>dc_id = mint n, dc_name = name, dc_arguments = call_arguments arguments\<rparr> # cs)))))"

definition parse_tool_calls :: "(nat \<Rightarrow> string) \<Rightarrow> nat \<Rightarrow> json \<Rightarrow> string + decoded_call list" where
  "parse_tool_calls mint n raw = (case raw of JList es \<Rightarrow> parse_calls mint n es | _ \<Rightarrow> Inr [])"

section \<open>Finish reasons\<close>

definition FINISH_REASONS :: "(string \<times> string) list" where
  "FINISH_REASONS = [(''stop'', ''stop''), (''length'', ''length''), (''load'', ''stop''), (''unload'', ''stop''),
     (''tool_calls'', ''tool_calls'')]"

definition mapped_reason :: "json \<Rightarrow> string + string" where
  "mapped_reason done_reason = (case por done_reason (JStr ''stop'') of
     JStr s \<Rightarrow> Inr (case map_of FINISH_REASONS s of Some m \<Rightarrow> m | None \<Rightarrow> ''stop'')
   | j \<Rightarrow> if hashable j then Inr ''stop'' else Inl ''TypeError'')"

definition finish_reason :: "json \<Rightarrow> bool \<Rightarrow> string + string" where
  "finish_reason done_reason called = ebind (mapped_reason done_reason) (\<lambda>m. Inr
     (if called then (if m = ''length'' then ''length'' else ''tool_calls'')
      else if m = ''tool_calls'' then ''stop'' else m))"

section \<open>The decoder\<close>

record chunk =
  ck_delta :: json
  ck_reasoning :: json
  ck_calls :: "decoded_call list"
  ck_finish :: "string option"
  ck_tokens :: int
  ck_prompt :: int

record decoder =
  de_counted :: int
  de_done :: bool
  de_called :: bool
  de_forwarded :: "(json \<times> string) list"
  de_minted :: nat

definition new_decoder :: decoder where
  "new_decoder = \<lparr>de_counted = 0, de_done = False, de_called = False, de_forwarded = [], de_minted = 0\<rparr>"

definition call_key :: "decoded_call \<Rightarrow> json \<times> string" where
  "call_key c = (dc_name c, dc_arguments c)"

definition decode_done :: "json \<Rightarrow> json \<Rightarrow> json \<Rightarrow> decoded_call list \<Rightarrow> decoder \<Rightarrow> string + chunk \<times> decoder" where
  "decode_done event delta reasoning calls d =
     (let fresh = filter (\<lambda>c. call_key c \<notin> set (de_forwarded d)) calls;
          called = (de_called d \<or> fresh \<noteq> []) in
      ebind (py_int (por (jget event ''eval_count'') (JInt 0))) (\<lambda>eval_count.
      ebind (finish_reason (jget event ''done_reason'') called) (\<lambda>reason.
      ebind (py_int (por (jget event ''prompt_eval_count'') (JInt 0))) (\<lambda>prompt.
        Inr (\<lparr>ck_delta = delta, ck_reasoning = reasoning, ck_calls = fresh, ck_finish = Some reason,
               ck_tokens = max 0 (eval_count - de_counted d), ck_prompt = prompt\<rparr>,
             d\<lparr>de_done := True, de_called := called, de_minted := de_minted d + length calls\<rparr>)))))"

definition decode_interim :: "json \<Rightarrow> json \<Rightarrow> decoded_call list \<Rightarrow> decoder \<Rightarrow> chunk option \<times> decoder" where
  "decode_interim delta reasoning calls d =
     (if truthy delta \<or> truthy reasoning \<or> calls \<noteq> []
      then (Some \<lparr>ck_delta = delta, ck_reasoning = reasoning, ck_calls = calls, ck_finish = None, ck_tokens = 1, ck_prompt = 0\<rparr>,
            d\<lparr>de_counted := de_counted d + 1, de_called := de_called d \<or> calls \<noteq> [],
              de_forwarded := de_forwarded d @ map call_key calls, de_minted := de_minted d + length calls\<rparr>)
      else (None, d))"

definition decode :: "(nat \<Rightarrow> string) \<Rightarrow> json \<Rightarrow> decoder \<Rightarrow> string + chunk option \<times> decoder" where
  "decode mint event d =
     ebind (get_of event ''message'') (\<lambda>m0.
     ebind (get_of (por m0 (JObj [])) ''content'') (\<lambda>content.
     ebind (get_of (por m0 (JObj [])) ''thinking'') (\<lambda>thinking.
     ebind (get_of (por m0 (JObj [])) ''tool_calls'') (\<lambda>raw.
     ebind (parse_tool_calls mint (de_minted d) raw) (\<lambda>calls.
     if \<not> list_all (\<lambda>c. hashable (dc_name c)) calls then Inl ''TypeError''
     else let delta = por content (JStr []); reasoning = por thinking (JStr []) in
       if truthy (jget event ''done'')
       then ebind (decode_done event delta reasoning calls d) (\<lambda>(c, d'). Inr (Some c, d'))
       else Inr (decode_interim delta reasoning calls d))))))"

section \<open>Whole streams\<close>

fun decode_all :: "(nat \<Rightarrow> string) \<Rightarrow> json list \<Rightarrow> decoder \<Rightarrow> string + chunk list \<times> decoder" where
  "decode_all mint [] d = Inr ([], d)"
| "decode_all mint (e # es) d = ebind (decode mint e d) (\<lambda>(c, d').
     ebind (decode_all mint es d') (\<lambda>(cs, d''). Inr ((case c of None \<Rightarrow> [] | Some c \<Rightarrow> [c]) @ cs, d'')))"

lemma decode_all_append:
  "decode_all mint (es @ fs) d = ebind (decode_all mint es d) (\<lambda>(cs, d').
     ebind (decode_all mint fs d') (\<lambda>(cs', d''). Inr (cs @ cs', d'')))"
  by (induction es arbitrary: d) (auto simp: ebind_def split: sum.split)

definition interim :: "json \<Rightarrow> bool" where
  "interim e \<longleftrightarrow> \<not> truthy (jget e ''done'')"

lemma decode_interim_event:
  assumes "decode mint e d = Inr (c, d')" "interim e"
  shows "\<exists>delta reasoning calls. decode_interim delta reasoning calls d = (c, d')"
  using assms unfolding interim_def decode_def Let_def by (auto elim!: ebind_InrE split: if_splits) blast

lemma decode_final_event:
  assumes "decode mint e d = Inr (c, d')" "\<not> interim e"
  shows "\<exists>delta reasoning calls k. decode_done e delta reasoning calls d = Inr (k, d') \<and> c = Some k"
  using assms by (fastforce simp: decode_def interim_def Let_def elim!: ebind_InrE split: if_splits)

definition calls_in :: "chunk list \<Rightarrow> decoded_call list" where
  "calls_in cs = concat (map ck_calls cs)"

text \<open>What the decoder remembers of the chunks before the last.\<close>

lemma decode_all_interim:
  assumes "decode_all mint es d = Inr (cs, d')" "list_all interim es"
  shows "de_counted d' = de_counted d + int (length cs) \<and> list_all (\<lambda>c. ck_tokens c = 1 \<and> ck_finish c = None) cs
    \<and> de_forwarded d' = de_forwarded d @ map call_key (calls_in cs) \<and> (de_called d' \<longleftrightarrow> de_called d \<or> calls_in cs \<noteq> [])"
  using assms
proof (induction es arbitrary: d cs)
  case (Cons e es)
  from Cons.prems(1) obtain c d1 cs1 where e: "decode mint e d = Inr (c, d1)" "decode_all mint es d1 = Inr (cs1, d')"
    "cs = (case c of None \<Rightarrow> [] | Some c \<Rightarrow> [c]) @ cs1"
    by (auto elim!: ebind_InrE)
  from decode_interim_event [OF e(1)] Cons.prems(2) obtain x y z where "decode_interim x y z d = (c, d1)" by auto
  with Cons.IH [OF e(2)] Cons.prems(2) e(3) show ?case
    by (auto simp: decode_interim_def calls_in_def split: if_splits)
qed (simp add: calls_in_def)

lemma finish_reason_calls:
  assumes "finish_reason done_reason called = Inr f"
  shows "if called then f = ''tool_calls'' \<or> f = ''length'' else f \<noteq> ''tool_calls''"
  using assms by (auto simp: finish_reason_def elim!: ebind_InrE split: if_splits)

text \<open>
  C33: A stream decoded to its final event bills exactly the larger of the runtime's own count and the number of
  chunks before the last; it ends with \<open>tool_calls\<close> only when some call was handed on, with \<open>tool_calls\<close>
  or \<open>length\<close> whenever one was, and the final event hands on no call that an earlier one already had.
\<close>

theorem decoded_stream_bills_and_calls_once:
  assumes "decode_all mint (es @ [e]) new_decoder = Inr (cs, d)" "list_all interim es" "\<not> interim e"
    and "py_int (por (jget e ''eval_count'') (JInt 0)) = Inr n"
  shows "\<exists>before final. cs = before @ [final] \<and> sum_list (map ck_tokens cs) = max n (int (length before))
    \<and> list_all (\<lambda>c. ck_finish c = None) before
    \<and> (if calls_in cs = [] then ck_finish final \<noteq> Some ''tool_calls''
       else ck_finish final = Some ''tool_calls'' \<or> ck_finish final = Some ''length'')
    \<and> set (map call_key (ck_calls final)) \<inter> set (map call_key (calls_in before)) = {}"
proof -
  from assms(1) obtain before d1 c where b: "decode_all mint es new_decoder = Inr (before, d1)" "decode mint e d1 = Inr (c, d)"
    "cs = before @ (case c of None \<Rightarrow> [] | Some c \<Rightarrow> [c])"
    by (auto simp: decode_all_append elim!: ebind_InrE)
  from decode_final_event [OF b(2) assms(3)] obtain x y z final where f: "decode_done e x y z d1 = Inr (final, d)" "c = Some final"
    by blast
  note before = decode_all_interim [OF b(1) assms(2)]
  from f(1) assms(4) have final: "ck_tokens final = max 0 (n - de_counted d1)"
    "ck_calls final = filter (\<lambda>c. call_key c \<notin> set (de_forwarded d1)) z"
    "\<exists>r. ck_finish final = Some r \<and> finish_reason (jget e ''done_reason'') (de_called d1 \<or> ck_calls final \<noteq> []) = Inr r"
    by (auto simp: decode_done_def Let_def elim!: ebind_InrE)
  have "map ck_tokens before = replicate (length before) 1"
    using before by (simp add: list_all_iff map_replicate_const [symmetric])
  then have "sum_list (map ck_tokens before) = int (length before)" by (simp add: sum_list_replicate)
  then have billed: "sum_list (map ck_tokens cs) = max n (int (length before))"
    using b(3) f(2) final(1) before by (simp add: new_decoder_def)
  have calls: "calls_in cs = calls_in before @ ck_calls final" using b(3) f(2) by (simp add: calls_in_def)
  have seen: "de_called d1 \<longleftrightarrow> calls_in before \<noteq> []" "de_forwarded d1 = map call_key (calls_in before)"
    using before by (simp_all add: new_decoder_def)
  have fresh: "set (map call_key (ck_calls final)) \<inter> set (map call_key (calls_in before)) = {}"
    unfolding final(2) seen(2) [symmetric] by auto
  have "if calls_in cs = [] then ck_finish final \<noteq> Some ''tool_calls''
       else ck_finish final = Some ''tool_calls'' \<or> ck_finish final = Some ''length''"
    using final(3) finish_reason_calls [of "jget e ''done_reason''" "de_called d1 \<or> ck_calls final \<noteq> []"]
    by (auto simp: calls seen(1) split: if_splits)
  with billed fresh before b(3) f(2) show ?thesis
    by (intro exI [of _ before] exI [of _ final]) (auto simp: list_all_iff)
qed

definition sample_line :: json where
  "sample_line = JObj [(''message'', JObj [(''content'', JStr ''hi'')]), (''done'', JBool False)]"

definition sample_last :: json where
  "sample_last = JObj [(''message'', JObj []), (''done'', JBool True), (''eval_count'', JInt 5)]"

definition sample_chunks :: "chunk list" where
  "sample_chunks =
     [\<lparr>ck_delta = JStr ''hi'', ck_reasoning = JStr [], ck_calls = [], ck_finish = None, ck_tokens = 1, ck_prompt = 0\<rparr>,
      \<lparr>ck_delta = JStr [], ck_reasoning = JStr [], ck_calls = [], ck_finish = Some ''stop'', ck_tokens = 4, ck_prompt = 0\<rparr>]"

theorem decoded_stream_bills_and_calls_once_witness:
  "\<exists>before final. sample_chunks = before @ [final] \<and> sum_list (map ck_tokens sample_chunks) = max 5 (int (length before))"
proof -
  have "decode_all (\<lambda>_. ''c'') ([sample_line] @ [sample_last]) new_decoder
      = Inr (sample_chunks, \<lparr>de_counted = 1, de_done = True, de_called = False, de_forwarded = [], de_minted = 0\<rparr>)"
    "list_all interim [sample_line]" "\<not> interim sample_last" "py_int (por (jget sample_last ''eval_count'') (JInt 0)) = Inr 5"
    by code_simp+
  from decoded_stream_bills_and_calls_once [OF this] show ?thesis by metis
qed

end
