(* ===== verification/Model_Ref.thy ===== *)
theory Model_Ref
  imports Main
begin

text \<open>
  Model references, \<open>src/backend/app/adapters/runtime/validation.py\<close>. The regular expression is read as the
  split it makes: no segment holds a slash or a colon, so the parts are what the slashes and the colon
  separate, and the optional registry, which the expression tries first, takes the first of two parts
  whenever that part can be one.
\<close>

section \<open>The grammar\<close>

definition alnum :: "char \<Rightarrow> bool" where
  "alnum c \<longleftrightarrow> (let n = (of_char c :: nat) in (97 \<le> n \<and> n \<le> 122) \<or> (48 \<le> n \<and> n \<le> 57))"

definition inner :: "char \<Rightarrow> bool" where
  "inner c \<longleftrightarrow> alnum c \<or> c = CHR ''.'' \<or> c = CHR ''_'' \<or> c = CHR ''-''"

text \<open>\<open>_SEGMENT\<close>.\<close>

definition segment :: "string \<Rightarrow> bool" where
  "segment s \<longleftrightarrow> s \<noteq> [] \<and> alnum (hd s) \<and> alnum (last s) \<and> list_all inner s"

text \<open>A dot between two characters that may end and begin a segment.\<close>

fun dotted :: "string \<Rightarrow> bool" where
  "dotted (a # b # c # s) = ((alnum a \<and> b = CHR ''.'' \<and> alnum c) \<or> dotted (b # c # s))"
| "dotted _ = False"

definition registry_like :: "string \<Rightarrow> bool" where
  "registry_like s \<longleftrightarrow> segment s \<and> dotted s"

definition tag_char :: "char \<Rightarrow> bool" where
  "tag_char c \<longleftrightarrow> inner c \<or> (let n = (of_char c :: nat) in 65 \<le> n \<and> n \<le> 90)"

definition tag_like :: "string \<Rightarrow> bool" where
  "tag_like s \<longleftrightarrow> s \<noteq> [] \<and> length s \<le> 64 \<and> list_all tag_char s"

fun split_at :: "char \<Rightarrow> string \<Rightarrow> string list" where
  "split_at x [] = [[]]"
| "split_at x (c # s) = (if c = x then [] # split_at x s
     else case split_at x s of [] \<Rightarrow> [[c]] | w # ws \<Rightarrow> (c # w) # ws)"

record model_reference =
  mr_registry :: "string option"
  mr_namespace :: "string option"
  mr_name :: string
  mr_tag :: "string option"

text \<open>The named groups of a path.\<close>

definition path_groups :: "string list \<Rightarrow> (string option \<times> string option \<times> string) option" where
  "path_groups ps = (case ps of
     [n] \<Rightarrow> if segment n then Some (None, None, n) else None
   | [a, n] \<Rightarrow> if \<not> segment n then None
       else if registry_like a then Some (Some a, None, n)
       else if segment a then Some (None, Some a, n) else None
   | [r, a, n] \<Rightarrow> if registry_like r \<and> segment a \<and> segment n then Some (Some r, Some a, n) else None
   | _ \<Rightarrow> None)"

definition match_ref :: "string \<Rightarrow> model_reference option" where
  "match_ref raw =
     (case split_at (CHR '':'') raw of
        [path] \<Rightarrow> map_option (\<lambda>(r, a, n). \<lparr>mr_registry = r, mr_namespace = a, mr_name = n, mr_tag = None\<rparr>)
          (path_groups (split_at (CHR ''/'') path))
      | [path, t] \<Rightarrow> if tag_like t
          then map_option (\<lambda>(r, a, n). \<lparr>mr_registry = r, mr_namespace = a, mr_name = n, mr_tag = Some t\<rparr>)
            (path_groups (split_at (CHR ''/'') path))
          else None
      | _ \<Rightarrow> None)"

definition ALLOWED_REGISTRIES :: "string list" where
  "ALLOWED_REGISTRIES = [''registry.ollama.ai'', ''huggingface.co'', ''hf.co'']"

definition MAX_REF_LENGTH :: nat where
  "MAX_REF_LENGTH = 255"

text \<open>\<open>parse_model_ref\<close>; None is \<open>InvalidModelReferenceError\<close>.\<close>

definition parse_model_ref :: "string \<Rightarrow> model_reference option" where
  "parse_model_ref raw =
     (if raw = [] \<or> length raw > MAX_REF_LENGTH then None
      else case match_ref raw of
        None \<Rightarrow> None
      | Some m \<Rightarrow> (case mr_registry m of
          Some r \<Rightarrow> if r \<in> set ALLOWED_REGISTRIES then Some m else None
        | None \<Rightarrow> Some m))"

definition valid_ref :: "string \<Rightarrow> bool" where
  "valid_ref raw \<longleftrightarrow> parse_model_ref raw \<noteq> None"

text \<open>\<open>__str__\<close>.\<close>

definition ref_text :: "model_reference \<Rightarrow> string" where
  "ref_text m = (case mr_registry m of None \<Rightarrow> [] | Some r \<Rightarrow> r @ ''/'')
     @ (case mr_namespace m of None \<Rightarrow> [] | Some a \<Rightarrow> a @ ''/'') @ mr_name m
     @ (case mr_tag m of None \<Rightarrow> [] | Some t \<Rightarrow> CHR '':'' # t)"

section \<open>What is accepted\<close>

lemma split_at_not_Nil [simp]: "split_at x s \<noteq> []"
  by (induction s) (auto split: list.splits)

lemma split_at_joined: "split_at x s = w # ws \<Longrightarrow> s = w @ concat (map (Cons x) ws)"
proof (induction s arbitrary: w ws)
  case (Cons c s)
  obtain v vs where v: "split_at x s = v # vs" by (cases "split_at x s") simp_all
  note s = Cons.IH [OF v]
  show ?case
  proof (cases "c = x")
    case True
    with Cons.prems v have "w = []" "ws = v # vs" by simp_all
    then show ?thesis using s True by simp
  next
    case False
    with Cons.prems v have "w = c # v" "ws = vs" by simp_all
    then show ?thesis using s by simp
  qed
qed simp

lemma path_groups_text:
  assumes "path_groups (split_at (CHR ''/'') p) = Some (r, a, n)"
  shows "p = (case r of None \<Rightarrow> [] | Some r \<Rightarrow> r @ ''/'') @ (case a of None \<Rightarrow> [] | Some a \<Rightarrow> a @ ''/'') @ n
    \<and> (\<forall>x. r = Some x \<longrightarrow> segment x) \<and> (\<forall>x. a = Some x \<longrightarrow> segment x) \<and> segment n"
proof -
  obtain w ws where w: "split_at (CHR ''/'') p = w # ws" by (cases "split_at (CHR ''/'') p") simp_all
  from split_at_joined [OF w] assms [unfolded w] show ?thesis
    by (auto simp: path_groups_def registry_like_def split: list.splits if_splits)
qed

lemma match_ref_text:
  assumes "match_ref raw = Some m"
  shows "ref_text m = raw \<and> (\<forall>x. mr_registry m = Some x \<longrightarrow> segment x)
    \<and> (\<forall>x. mr_namespace m = Some x \<longrightarrow> segment x) \<and> segment (mr_name m) \<and> (\<forall>t. mr_tag m = Some t \<longrightarrow> tag_like t)"
proof -
  obtain p ts where w: "split_at (CHR '':'') raw = p # ts" by (cases "split_at (CHR '':'') raw") simp_all
  from assms [unfolded match_ref_def w] obtain r a n where g: "path_groups (split_at (CHR ''/'') p) = Some (r, a, n)"
    and m: "m = \<lparr>mr_registry = r, mr_namespace = a, mr_name = n, mr_tag = None\<rparr> \<and> ts = []
      \<or> (\<exists>t. m = \<lparr>mr_registry = r, mr_namespace = a, mr_name = n, mr_tag = Some t\<rparr> \<and> ts = [t] \<and> tag_like t)"
    by (auto split: list.splits if_splits)
  from m path_groups_text [OF g] split_at_joined [OF w] show ?thesis
    by (auto simp: ref_text_def split: option.splits)
qed

text \<open>What a reference may consist of.\<close>

definition ref_char :: "char \<Rightarrow> bool" where
  "ref_char c \<longleftrightarrow> tag_char c \<or> c = CHR ''/'' \<or> c = CHR '':''"

lemma segment_chars: "segment s \<Longrightarrow> list_all tag_char s"
  by (auto simp: segment_def tag_char_def list_all_iff)

lemma segment_starts: "segment s \<Longrightarrow> s \<noteq> [] \<and> alnum (hd s)"
  by (simp add: segment_def)

lemma ref_text_chars:
  assumes "match_ref raw = Some m"
  shows "list_all ref_char raw \<and> raw \<noteq> [] \<and> alnum (hd raw)"
proof -
  note m = match_ref_text [OF assms]
  then have raw: "raw = ref_text m" by simp
  have "list_all ref_char (ref_text m)"
    using m segment_chars [of "mr_name m"] segment_chars [of "the (mr_registry m)"] segment_chars [of "the (mr_namespace m)"]
    by (auto simp: ref_text_def ref_char_def tag_like_def list_all_iff split: option.splits)
  moreover have "ref_text m \<noteq> [] \<and> alnum (hd (ref_text m))"
    using m segment_starts [of "mr_name m"] segment_starts [of "the (mr_registry m)"] segment_starts [of "the (mr_namespace m)"]
    by (auto simp: ref_text_def split: option.splits)
  ultimately show ?thesis by (simp add: raw)
qed

text \<open>
  C34: A model reference that is accepted is rebuilt character for character from its parsed parts; it has at
  most 255 characters, all of them letters, digits, dots, underscores, hyphens, slashes or colons, starts with
  a letter or digit, and names no registry but the three allowed ones.
\<close>

theorem accepted_reference:
  assumes "parse_model_ref raw = Some m"
  shows "ref_text m = raw \<and> length raw \<le> 255 \<and> list_all ref_char raw \<and> alnum (hd raw)
    \<and> (\<forall>r. mr_registry m = Some r \<longrightarrow> r \<in> set ALLOWED_REGISTRIES)"
proof -
  from assms have "match_ref raw = Some m" "length raw \<le> 255"
    "\<forall>r. mr_registry m = Some r \<longrightarrow> r \<in> set ALLOWED_REGISTRIES"
    by (auto simp: parse_model_ref_def MAX_REF_LENGTH_def split: if_splits option.splits)
  then show ?thesis using match_ref_text [of raw m] ref_text_chars [of raw m] by simp
qed

theorem accepted_reference_witness:
  "ref_text \<lparr>mr_registry = Some ''hf.co'', mr_namespace = Some ''org'', mr_name = ''m'', mr_tag = Some ''Q4''\<rparr> = ''hf.co/org/m:Q4''"
proof -
  have "parse_model_ref ''hf.co/org/m:Q4''
      = Some \<lparr>mr_registry = Some ''hf.co'', mr_namespace = Some ''org'', mr_name = ''m'', mr_tag = Some ''Q4''\<rparr>"
    by code_simp
  from accepted_reference [OF this] show ?thesis by simp
qed

end
