(* ===== verification/Agent_Client.thy ===== *)
theory Agent_Client
  imports Agent_Routes Chat_Decoder Model_Ref
begin

text \<open>
  The gateway's side of the agent, \<open>src/backend/app/adapters/runtime/node_agent_adapter.py\<close>: each method as a
  tree of its exchanges with the agent and of the chunks it yields. A transport answers with a reply, with a
  connection that was never made, or with any other failure, after which something may have reached the agent.
  A stream's lines are bounded by a number, beyond which the tree raises \<open>LinesBeyond\<close>.
\<close>

section \<open>Exchanges\<close>

text \<open>\<open>hp_doc\<close> is what \<open>response.json()\<close> gives, None where it raises \<open>ValueError\<close>.\<close>

record http_reply =
  hp_status :: int
  hp_doc :: "json option"
  hp_text :: string
  hp_retry :: "string option"
  hp_json :: bool

datatype net_request =
    NOpen string json | NPost string json | NGet string | NRead | NLine | NClose
  | NYield chunk | NProgress string json json

datatype net_answer =
    NReplied http_reply | NConnectFailed | NFailed | NTimedOut | NLineIs line | NNoMore | NTaken | NGone

text \<open>The errors of \<open>app/domain/exceptions\<close> the adapter raises, and what escapes it otherwise.\<close>

datatype client_error =
    NoAvailable | Interrupted | Stopped | Overloaded nat | Capability | NotFound
  | PinRefused json "string option" "string option" | BadReference | Escaped string

type_synonym 'a calling = "(net_request, net_answer, client_error, 'a) prog"

definition escaping :: "string + 'a \<Rightarrow> 'a calling" where
  "escaping x = of_sum Escaped x"

definition lacking :: "net_answer \<Rightarrow> 'a calling" where
  "lacking r = Throw (case r of
     NFailed \<Rightarrow> Escaped ''HTTPError'' | NConnectFailed \<Rightarrow> Escaped ''HTTPError'' | NTimedOut \<Rightarrow> Escaped ''TimeoutError''
   | NGone \<Rightarrow> Escaped ''GeneratorExit'' | _ \<Rightarrow> Escaped ''TypeError'')"

definition tell :: "net_request \<Rightarrow> unit calling" where
  "tell q = Call q (\<lambda>r. case r of NTaken \<Rightarrow> Ret () | _ \<Rightarrow> lacking r)"

text \<open>\<open>response.json()\<close>.\<close>

definition doc_of :: "http_reply \<Rightarrow> json calling" where
  "doc_of h = (case hp_doc h of Some j \<Rightarrow> Ret j | None \<Rightarrow> Throw (Escaped ''ValueError''))"

section \<open>Refusals\<close>

definition begins :: "string \<Rightarrow> string \<Rightarrow> bool" where
  "begins p s \<longleftrightarrow> take (length p) s = p"

definition retry_seconds :: "string option \<Rightarrow> string + nat" where
  "retry_seconds header = (case header of
     None \<Rightarrow> Inr 60
   | Some r \<Rightarrow> if py_isdigit r then (case digits_value 0 r of Some n \<Rightarrow> Inr n | None \<Rightarrow> Inl ''ValueError'') else Inr 60)"

definition refusal_text :: "http_reply \<Rightarrow> string + string" where
  "refusal_text h =
     (let content = (case hp_doc h of Some j \<Rightarrow> j | None \<Rightarrow> JObj []) in
      ebind (get_of content ''refused'') (\<lambda>refused.
      Inr (py_str (por (por refused (jget content ''detail'')) (JStr (take 200 (hp_text h)))))))"

definition raise_for_refusal :: "http_reply \<Rightarrow> 'a calling" where
  "raise_for_refusal h =
     (case refusal_text h of
        Inl x \<Rightarrow> Throw (Escaped x)
      | Inr why \<Rightarrow>
          if hp_status h = 503 \<and> (begins ''maintenance'' why \<or> begins ''node_maintenance'' why) then Throw Stopped
          else if hp_status h = 503
          then Throw (case retry_seconds (hp_retry h) of Inr n \<Rightarrow> Overloaded n | Inl x \<Rightarrow> Escaped x)
          else Throw NoAvailable)"

definition MAINTENANCE_REASONS :: "string list" where
  "MAINTENANCE_REASONS = [''maintenance_interrupted'', ''maintenance_before_send'']"

definition raise_if_maintenance :: "json \<Rightarrow> unit calling" where
  "raise_if_maintenance described = seq (escaping (get_of described ''reason'')) (\<lambda>why.
     if \<not> hashable why then Throw (Escaped ''TypeError'')
     else if why \<in> JStr ` set MAINTENANCE_REASONS then Throw Stopped else Ret ())"

section \<open>Attempts\<close>

record attempt_view =
  av_op :: string
  av_state :: string
  av_reason :: "string option"
  av_result :: "jobj option"

definition view_of :: "json \<Rightarrow> string + attempt_view" where
  "view_of described =
     ebind (get_of described ''op_id'') (\<lambda>oid. Inr
       \<lparr>av_op = py_str oid, av_state = py_str (jget described ''state''),
        av_reason = (case jget described ''reason'' of JStr s \<Rightarrow> Some s | _ \<Rightarrow> None),
        av_result = (case jget described ''result'' of JObj d \<Rightarrow> Some d | _ \<Rightarrow> None)\<rparr>)"

definition describe_attempt :: "string \<Rightarrow> attempt_view option calling" where
  "describe_attempt oid = Call (NGet (''/v1/attempts/'' @ oid)) (\<lambda>r. case r of
     NReplied h \<Rightarrow>
       if hp_status h = 404 then Ret None
       else if hp_status h \<noteq> 200 then raise_for_refusal h
       else seq (doc_of h) (\<lambda>j. seq (escaping (view_of j)) (\<lambda>v. Ret (Some v)))
   | NConnectFailed \<Rightarrow> Throw NoAvailable | NFailed \<Rightarrow> Throw NoAvailable
   | _ \<Rightarrow> lacking r)"

definition cancel_attempt :: "string \<Rightarrow> string \<Rightarrow> attempt_view calling" where
  "cancel_attempt oid k = Call (NPost (''/v1/attempts/'' @ oid @ ''/cancel?kind='' @ k) JNull) (\<lambda>r. case r of
     NReplied h \<Rightarrow>
       if hp_status h \<noteq> 200 then raise_for_refusal h
       else seq (doc_of h) (\<lambda>j. escaping (view_of j))
   | NConnectFailed \<Rightarrow> Throw NoAvailable | NFailed \<Rightarrow> Throw NoAvailable
   | _ \<Rightarrow> lacking r)"

text \<open>One chunk with the whole of a stored result.\<close>

definition replay_event :: "jobj \<Rightarrow> json" where
  "replay_event result = JObj
     [(''message'', JObj [(''role'', JStr ''assistant''), (''content'', por (dget result ''content'') (JStr [])),
        (''thinking'', por (dget result ''thinking'') (JStr [])), (''tool_calls'', por (dget result ''tool_calls'') (JList []))]),
      (''done'', JBool True), (''done_reason'', dget result ''done_reason''), (''eval_count'', dget result ''eval_count''),
      (''prompt_eval_count'', dget result ''prompt_eval_count'')]"

definition replay :: "(nat \<Rightarrow> string) \<Rightarrow> attempt_view \<Rightarrow> string + chunk list" where
  "replay mint v = ebind (decode mint (replay_event (case av_result v of Some d \<Rightarrow> d | None \<Rightarrow> [])) new_decoder)
     (\<lambda>(c, _). Inr (case c of Some c \<Rightarrow> [c] | None \<Rightarrow> []))"

definition replay_existing :: "(nat \<Rightarrow> string) \<Rightarrow> json \<Rightarrow> chunk list calling" where
  "replay_existing mint described = seq (escaping (view_of described)) (\<lambda>v.
     if av_state v = ''completed'' then (if av_result v = None then Throw Interrupted else escaping (replay mint v))
     else if av_state v = ''failed'' then Throw NoAvailable
     else Throw Interrupted)"

section \<open>Generation\<close>

text \<open>A connection that could not be made is tried once more, with the same body.\<close>

primrec open_stream :: "nat \<Rightarrow> string \<Rightarrow> json \<Rightarrow> http_reply calling" where
  "open_stream 0 path body = Throw NoAvailable"
| "open_stream (Suc k) path body = Call (NOpen path body) (\<lambda>r. case r of
     NConnectFailed \<Rightarrow> if k = 0 then Throw NoAvailable else open_stream k path body
   | NFailed \<Rightarrow> Throw Interrupted
   | NReplied h \<Rightarrow>
       if hp_status h = 200 then Ret h
       else seq (tell NRead) (\<lambda>_. seq (tell NClose) (\<lambda>_. raise_for_refusal h))
   | _ \<Rightarrow> lacking r)"

primrec yield_all :: "chunk list \<Rightarrow> unit calling" where
  "yield_all [] = Ret ()"
| "yield_all (c # cs) = seq (tell (NYield c)) (\<lambda>_. yield_all cs)"

record streaming =
  st_decoder :: decoder
  st_terminal :: "json option"
  st_emitted :: bool

text \<open>One decoded line of the stream.\<close>

definition stream_event :: "(nat \<Rightarrow> string) \<Rightarrow> json \<Rightarrow> streaming \<Rightarrow> streaming calling" where
  "stream_event mint event s =
     seq (escaping (get_of event ''type'')) (\<lambda>k.
     if k = JStr ''line'' then
       (let data = por (jget event ''data'') (JObj []) in
        seq (escaping (get_of data ''error'')) (\<lambda>err.
        if truthy err then Ret s
        else seq (escaping (decode mint data (st_decoder s))) (\<lambda>(c, d).
          case c of None \<Rightarrow> Ret (s\<lparr>st_decoder := d\<rparr>)
          | Some c \<Rightarrow> seq (tell (NYield c)) (\<lambda>_. Ret (s\<lparr>st_decoder := d, st_emitted := True\<rparr>)))))
     else if k = JStr ''terminal'' then Ret (s\<lparr>st_terminal := Some event\<rparr>)
     else Ret s)"

primrec stream_lines :: "nat \<Rightarrow> (json \<Rightarrow> 's \<Rightarrow> 's calling) \<Rightarrow> 's \<Rightarrow> 's calling" where
  "stream_lines 0 f s = Throw (Escaped ''LinesBeyond'')"
| "stream_lines (Suc n) f s = Call NLine (\<lambda>r. case r of
     NNoMore \<Rightarrow> Ret s
   | NFailed \<Rightarrow> Throw Interrupted
   | NLineIs Blank \<Rightarrow> stream_lines n f s
   | NLineIs Undecodable \<Rightarrow> Throw Interrupted
   | NLineIs (Decoded j) \<Rightarrow> seq (f j s) (stream_lines n f)
   | _ \<Rightarrow> lacking r)"

definition settle :: "streaming \<Rightarrow> unit calling" where
  "settle s = (case st_terminal s of
     None \<Rightarrow> Throw Interrupted
   | Some t \<Rightarrow>
       if jget t ''state'' = JStr ''completed'' \<and> de_done (st_decoder s) then Ret ()
       else seq (raise_if_maintenance t) (\<lambda>_.
         if jget t ''state'' = JStr ''failed'' then Throw NoAvailable else Throw Interrupted))"

definition new_streaming :: streaming where
  "new_streaming = \<lparr>st_decoder = new_decoder, st_terminal = None, st_emitted = False\<rparr>"

definition read_generation :: "(nat \<Rightarrow> string) \<Rightarrow> nat \<Rightarrow> http_reply \<Rightarrow> unit calling" where
  "read_generation mint fuel h =
     (if hp_json h
      then seq (tell NRead) (\<lambda>_. seq (doc_of h) (\<lambda>j. seq (replay_existing mint j) yield_all))
      else seq (stream_lines fuel (stream_event mint) new_streaming) settle)"

definition generate :: "(nat \<Rightarrow> string) \<Rightarrow> nat \<Rightarrow> envelope \<Rightarrow> string \<Rightarrow> chat_message list \<Rightarrow> int option \<Rightarrow> bool
    \<Rightarrow> tool_definition list \<Rightarrow> tool_choice option \<Rightarrow> sampling_options option \<Rightarrow> int option \<Rightarrow> unit calling" where
  "generate mint fuel env ref messages max_tokens thinking tools choice sampling context =
     (if \<not> valid_ref ref then Throw BadReference
      else case (int_or context None, int_or max_tokens None) of
        (Some cl, Some mt) \<Rightarrow>
          seq (open_stream 2 ''/v1/inference'' (encode_generation
            \<lparr>gr_ref = ref, gr_messages = messages, gr_max_tokens = mt, gr_thinking = thinking, gr_tools = tools,
             gr_tool_choice = choice, gr_sampling = sampling, gr_context_length = cl\<rparr> env)) (\<lambda>h.
          finally_do (read_generation mint fuel h) NClose)
      | _ \<Rightarrow> Throw Capability)"

section \<open>Summaries\<close>

text \<open>What a 200 says of a summary: the text at the top, or the one stored before.\<close>

definition summary_of :: "json \<Rightarrow> string + json" where
  "summary_of described = ebind (get_of described ''summary'') (\<lambda>text.
     if truthy text then Inr text
     else get_of (por (jget described ''result'') (JObj [])) ''summary'')"

definition summary_reply :: "http_reply \<Rightarrow> string calling" where
  "summary_reply h =
     (if hp_status h \<noteq> 200 then raise_for_refusal h
      else seq (doc_of h) (\<lambda>described.
      seq (escaping (summary_of described)) (\<lambda>text.
      case (jget described ''state'' = JStr ''completed'', text) of
        (True, JStr t) \<Rightarrow> if t \<noteq> [] then Ret t else seq (raise_if_maintenance described) (\<lambda>_. Throw Interrupted)
      | _ \<Rightarrow> seq (raise_if_maintenance described) (\<lambda>_. Throw Interrupted))))"

primrec post_summary :: "nat \<Rightarrow> json \<Rightarrow> string calling" where
  "post_summary 0 body = Throw NoAvailable"
| "post_summary (Suc k) body = Call (NPost ''/v1/summary'' body) (\<lambda>r. case r of
     NConnectFailed \<Rightarrow> if k = 0 then Throw NoAvailable else post_summary k body
   | NFailed \<Rightarrow> Throw Interrupted
   | NReplied h \<Rightarrow> summary_reply h
   | _ \<Rightarrow> lacking r)"

text \<open>The whole wait is bounded; \<open>oid\<close> is the fresh identity of this summary.\<close>

definition summarise :: "string \<Rightarrow> string \<Rightarrow> chat_message list \<Rightarrow> int \<Rightarrow> string calling" where
  "summarise oid ref messages context = handle
     (if \<not> valid_ref ref then Throw BadReference
      else post_summary 2 (encode_generation
        \<lparr>gr_ref = ref, gr_messages = messages, gr_max_tokens = SUMMARY_OUTPUT_TOKENS, gr_thinking = False, gr_tools = [],
         gr_tool_choice = None, gr_sampling = None, gr_context_length = context\<rparr>
        \<lparr>env_op_id = oid, env_request_id = None, env_payload_hash = None, env_store_output = False\<rparr>))
     (\<lambda>e. if e = Escaped ''TimeoutError'' then Throw NoAvailable else Throw e)"

section \<open>Declared capacities\<close>

text \<open>
  The cache of \<open>/v1/model-capacity\<close>, by reference and registered manifest, with the time each entry ends
  (microseconds). The epoch moves when a lifecycle action may have changed what the answers say.
\<close>

record capacities =
  cp_entries :: "((string \<times> string option) \<times> int \<times> jobj) list"
  cp_epoch :: nat

definition cached_capacity :: "string \<times> string option \<Rightarrow> int \<Rightarrow> capacities \<Rightarrow> jobj option" where
  "cached_capacity key now c = (case map_of (cp_entries c) key of
     Some (until, doc) \<Rightarrow> if until > now then Some doc else None | None \<Rightarrow> None)"

definition invalidate_capacities :: "capacities \<Rightarrow> capacities" where
  "invalidate_capacities c = c\<lparr>cp_entries := [], cp_epoch := Suc (cp_epoch c)\<rparr>"

text \<open>The end of \<open>_fetch_capacity\<close>: an answer asked for before an invalidation is not kept.\<close>

definition store_capacity :: "nat \<Rightarrow> string \<times> string option \<Rightarrow> jobj \<Rightarrow> int \<Rightarrow> capacities \<Rightarrow> capacities" where
  "store_capacity asked key doc now c =
     (if asked \<noteq> cp_epoch c then c
      else let kept = filter (\<lambda>(k, until, _). \<not> (fst k = fst key \<or> until \<le> now)) (cp_entries c);
               room = (if length kept \<ge> 256 then tl kept else kept)
           in c\<lparr>cp_entries := room @ [(key, now + 60 * 1000000, doc)]\<rparr>)"

definition declared_context_of :: "string option \<Rightarrow> jobj \<Rightarrow> int option" where
  "declared_context_of manifest doc =
     (if manifest \<noteq> None \<and> dget doc ''manifest_digest'' \<noteq> jopt_str manifest then None
      else case dget doc ''declared_context_length'' of JInt n \<Rightarrow> if n > 0 then Some n else None | _ \<Rightarrow> None)"

section \<open>Embeddings\<close>

text \<open>The pin is only worth sending to an agent that enforces it, as the cache or the agent says.\<close>

definition pin_stated :: "json \<Rightarrow> unit calling" where
  "pin_stated doc = seq (escaping (get_of doc ''embedding_manifest_pin'')) (\<lambda>p.
     if p = JBool True then Ret () else Throw NoAvailable)"

definition pin_enforced :: "string \<Rightarrow> string option \<Rightarrow> jobj option \<Rightarrow> unit calling" where
  "pin_enforced ref expected cached =
     (if expected = None then Ret ()
      else case cached of
        Some doc \<Rightarrow> pin_stated (JObj doc)
      | None \<Rightarrow> Call (NGet (''/v1/model-capacity?ref='' @ ref)) (\<lambda>r. case r of
          NReplied h \<Rightarrow>
            if hp_status h < 200 \<or> hp_status h \<ge> 300 then Throw NoAvailable
            else seq (doc_of h) pin_stated
        | NConnectFailed \<Rightarrow> Throw NoAvailable | NFailed \<Rightarrow> Throw NoAvailable
        | _ \<Rightarrow> lacking r))"

primrec post_embeddings :: "nat \<Rightarrow> json \<Rightarrow> http_reply calling" where
  "post_embeddings 0 body = Throw NoAvailable"
| "post_embeddings (Suc k) body = Call (NPost ''/v1/embeddings'' body) (\<lambda>r. case r of
     NConnectFailed \<Rightarrow> if k = 0 then Throw NoAvailable else post_embeddings k body
   | NFailed \<Rightarrow> Throw Interrupted
   | NReplied h \<Rightarrow> Ret h
   | _ \<Rightarrow> lacking r)"

text \<open>The vectors at the top, or those of the stored result; their numbers are read as they are.\<close>

definition vectors_of :: "json \<Rightarrow> json" where
  "vectors_of described = (case jget described ''embeddings'' of
     JNull \<Rightarrow> (case jget described ''result'' of JObj d \<Rightarrow> dget d ''embeddings'' | _ \<Rightarrow> JNull)
   | v \<Rightarrow> v)"

definition embedding_reply :: "http_reply \<Rightarrow> json list calling" where
  "embedding_reply h =
     (if hp_status h \<noteq> 200 then raise_for_refusal h
      else seq (doc_of h) (\<lambda>described.
      seq (escaping (get_of described ''state'')) (\<lambda>st.
      case (st = JStr ''completed'', vectors_of described) of
        (True, JList vs) \<Rightarrow> Ret vs
      | _ \<Rightarrow> seq (raise_if_maintenance described) (\<lambda>_. Throw NoAvailable))))"

definition embed :: "envelope \<Rightarrow> string \<Rightarrow> string list \<Rightarrow> string option \<Rightarrow> jobj option \<Rightarrow> json list calling" where
  "embed env ref texts expected cached =
     (if \<not> valid_ref ref then Throw BadReference
      else seq (pin_enforced ref expected cached) (\<lambda>_.
        seq (post_embeddings 2 (encode_embedding \<lparr>er_ref = ref, er_texts = texts, er_expected_manifest = expected\<rparr> env))
          embedding_reply))"

section \<open>Lifecycle\<close>

definition lifecycle_outcome :: "json option \<Rightarrow> unit calling" where
  "lifecycle_outcome described = (case described of
     None \<Rightarrow> Throw Interrupted
   | Some j \<Rightarrow> seq (escaping (get_of j ''state'')) (\<lambda>st.
       if st = JStr ''completed'' then Ret ()
       else seq (raise_if_maintenance j) (\<lambda>_.
         if st = JStr ''failed'' \<and> jget j ''reason'' = JStr ''not_found'' then Throw NotFound
         else if st = JStr ''failed'' then Throw NoAvailable
         else Throw Interrupted)))"

primrec send_lifecycle :: "nat \<Rightarrow> string \<Rightarrow> json \<Rightarrow> http_reply calling" where
  "send_lifecycle 0 action body = Throw NoAvailable"
| "send_lifecycle (Suc k) action body = Call (NOpen (''/v1/lifecycle/'' @ action) body) (\<lambda>r. case r of
     NConnectFailed \<Rightarrow> if k = 0 then Throw NoAvailable else send_lifecycle k action body
   | NFailed \<Rightarrow> Throw Interrupted
   | NReplied h \<Rightarrow>
       if hp_status h = 200 \<or> hp_status h = 202 \<or> hp_status h = 502 then Ret h
       else seq (tell NRead) (\<lambda>_. seq (tell NClose) (\<lambda>_.
         if hp_status h = 422 then Throw Capability else raise_for_refusal h))
   | _ \<Rightarrow> lacking r)"

definition lifecycle_body :: "string \<Rightarrow> string \<Rightarrow> int option \<Rightarrow> string option \<Rightarrow> json" where
  "lifecycle_body oid ref context digest = encode_lifecycle
     \<lparr>lr_op_id = oid, lr_ref = ref, lr_context_length = context, lr_manifest_digest = digest\<rparr>"

text \<open>\<open>load\<close> and \<open>unload\<close>, with the fresh identity of the operation.\<close>

definition client_lifecycle :: "string \<Rightarrow> string \<Rightarrow> string \<Rightarrow> int option \<Rightarrow> unit calling" where
  "client_lifecycle oid action ref context =
     (if \<not> valid_ref ref then Throw BadReference
      else seq (send_lifecycle 2 action (lifecycle_body oid ref context None)) (\<lambda>h.
        seq (tell NRead) (\<lambda>_. seq (doc_of h) (\<lambda>j. lifecycle_outcome (Some j)))))"

definition text_or_none :: "json \<Rightarrow> string option" where
  "text_or_none j = (case j of JStr s \<Rightarrow> Some s | _ \<Rightarrow> None)"

definition repin_outcome :: "json \<Rightarrow> unit calling" where
  "repin_outcome described =
     (if jget described ''state'' \<noteq> JStr ''failed'' then lifecycle_outcome (Some described)
      else let t = por (jget described ''terminal'') (JObj []) in
        seq (escaping (get_of t ''served'')) (\<lambda>served.
        Throw (PinRefused (jget described ''reason'') (text_or_none served) (text_or_none (jget t ''measured'')))))"

definition client_repin :: "string \<Rightarrow> string \<Rightarrow> string \<Rightarrow> unit calling" where
  "client_repin oid ref digest =
     (if \<not> valid_ref ref then Throw BadReference
      else seq (send_lifecycle 2 ''repin'' (lifecycle_body oid ref None (Some digest))) (\<lambda>h.
        seq (tell NRead) (\<lambda>_. seq (doc_of h) repin_outcome)))"

definition pull_event :: "json \<Rightarrow> json option \<Rightarrow> json option calling" where
  "pull_event event tm = seq (escaping (get_of event ''type'')) (\<lambda>k.
     if k = JStr ''progress''
     then seq (tell (NProgress (py_str (por (jget event ''status'') (JStr []))) (jget event ''completed'') (jget event ''total'')))
       (\<lambda>_. Ret tm)
     else if k = JStr ''terminal'' then Ret (Some event)
     else Ret tm)"

definition client_pull :: "nat \<Rightarrow> string \<Rightarrow> string \<Rightarrow> unit calling" where
  "client_pull fuel oid ref =
     (if \<not> valid_ref ref then Throw BadReference
      else seq (send_lifecycle 2 ''pull'' (lifecycle_body oid ref None None)) (\<lambda>h.
        finally_do
          (if hp_json h then seq (tell NRead) (\<lambda>_. seq (doc_of h) (\<lambda>j. lifecycle_outcome (Some j)))
           else seq (stream_lines fuel pull_event None) lifecycle_outcome)
          NClose))"

section \<open>Health\<close>

definition runtime_version_of :: "string option calling" where
  "runtime_version_of = Call (NGet ''/v1/status'') (\<lambda>r. case r of
     NReplied h \<Rightarrow>
       if hp_status h \<noteq> 200 then Ret None
       else seq (doc_of h) (\<lambda>j. seq (escaping (get_of j ''runtime_version'')) (\<lambda>v.
         Ret (case v of JStr s \<Rightarrow> if s \<noteq> [] then Some s else None | _ \<Rightarrow> None)))
   | NConnectFailed \<Rightarrow> Ret None | NFailed \<Rightarrow> Ret None
   | _ \<Rightarrow> lacking r)"

definition client_health :: "bool calling" where
  "client_health = Call (NGet ''/v1/status'') (\<lambda>r. case r of
     NReplied h \<Rightarrow>
       if hp_status h \<noteq> 200 then Ret False
       else seq (doc_of h) (\<lambda>j. seq (escaping (get_of j ''gate'')) (\<lambda>g. Ret (g = JStr ''serving'')))
   | NConnectFailed \<Rightarrow> Ret False | NFailed \<Rightarrow> Ret False
   | _ \<Rightarrow> lacking r)"

end
