(* ===== verification/Client_Safety.thy ===== *)
theory Client_Safety
  imports Agent_Client Program_Runs
begin

text \<open>
  What the gateway's side of the agent guarantees: how often a request is sent, what the chunks it yields are,
  and what its errors say of the attempt.
\<close>

section \<open>Rules of the pieces\<close>

abbreviation exchanged :: "(net_request \<Rightarrow> (net_request \<times> net_answer) list \<Rightarrow> bool)
    \<Rightarrow> ('a \<Rightarrow> (net_request \<times> net_answer) list \<Rightarrow> bool) \<Rightarrow> (client_error \<Rightarrow> (net_request \<times> net_answer) list \<Rightarrow> bool)
    \<Rightarrow> 'a calling \<Rightarrow> (net_request \<times> net_answer) list \<Rightarrow> bool" where
  "exchanged D Q E p h \<equiv> traced.meets (\<lambda>_ _. True) D p Q E h"

lemma asks_client [simp]:
  "asks f (lacking r)" "asks f (escaping x)" "asks f (doc_of h)" "asks f (raise_for_refusal h)"
  "asks f (tell q) = f q" "asks f (raise_if_maintenance j)"
proof -
  show esc: "asks f (escaping x)" for x :: "string + 'x" by (simp add: escaping_def of_sum_def split: sum.split)
  show "asks f (lacking r)" by (simp add: lacking_def)
  then show "asks f (tell q) = f q" by (simp add: tell_def lacking_def split: net_answer.split)
  show "asks f (doc_of h)" by (simp add: doc_of_def split: option.split)
  show "asks f (raise_for_refusal h)" by (simp add: raise_for_refusal_def split: sum.split)
  show "asks f (raise_if_maintenance j)" unfolding raise_if_maintenance_def by (intro asks_seq esc) simp
qed

section \<open>Sending\<close>

definition is_send :: "net_request \<Rightarrow> bool" where
  "is_send q \<longleftrightarrow> (case q of NOpen _ _ \<Rightarrow> True | NPost _ _ \<Rightarrow> True | _ \<Rightarrow> False)"

lemma is_send_simps [simp]:
  "is_send (NOpen p b)" "is_send (NPost p b)" "\<not> is_send (NGet p)" "\<not> is_send NRead" "\<not> is_send NLine"
  "\<not> is_send NClose" "\<not> is_send (NYield c)" "\<not> is_send (NProgress s x y)"
  by (simp_all add: is_send_def)

text \<open>A request goes out again only if it is the same and no connection could be made for the only one before.\<close>

definition resend_ok :: "net_request \<Rightarrow> (net_request \<times> net_answer) list \<Rightarrow> bool" where
  "resend_ok q h \<longleftrightarrow> (is_send q \<longrightarrow>
     filter (is_send \<circ> fst) h = [] \<or> filter (is_send \<circ> fst) h = [(q, NConnectFailed)])"

lemma resend_ok_other [simp]: "\<not> is_send q \<Longrightarrow> resend_ok q h"
  by (simp add: resend_ok_def)

abbreviation whatever :: "'a \<Rightarrow> (net_request \<times> net_answer) list \<Rightarrow> bool" where
  "whatever \<equiv> \<lambda>_ _. True"

lemma unsent: "asks (\<lambda>q. \<not> is_send q) p \<Longrightarrow> exchanged resend_ok whatever whatever p h"
  by (erule asks_meets) simp

lemma unsent_seq:
  assumes "exchanged resend_ok whatever whatever p h" "\<And>x. asks (\<lambda>q. \<not> is_send q) (f x)"
  shows "exchanged resend_ok whatever whatever (seq p f) h"
  unfolding traced_seq by (rule traced.meets_conseq [OF assms(1)]) (simp_all add: unsent assms(2))

definition no_sends :: "(net_request \<times> net_answer) list \<Rightarrow> bool" where
  "no_sends h \<longleftrightarrow> filter (is_send \<circ> fst) h = []"

lemma sends_once_more:
  assumes "no_sends h" "is_send q"
    and "\<And>r h'. asks (\<lambda>q. \<not> is_send q) (k r) \<or> (r = NConnectFailed \<and> k r = Call q k' \<and> (\<forall>r. asks (\<lambda>q. \<not> is_send q) (k' r)))"
  shows "exchanged resend_ok whatever whatever (Call q k) h"
proof -
  have "exchanged resend_ok whatever whatever (k r) (h @ [(q, r)])" for r
    using assms(3) [of r]
  proof
    assume "r = NConnectFailed \<and> k r = Call q k' \<and> (\<forall>r. asks (\<lambda>q. \<not> is_send q) (k' r))"
    then have k: "r = NConnectFailed" "k r = Call q k'" "\<And>r. asks (\<lambda>q. \<not> is_send q) (k' r)" by blast+
    show ?thesis using assms(1,2) k(3) unfolding k(2) traced_Call
      by (auto simp: resend_ok_def no_sends_def k(1) intro: unsent)
  qed (rule unsent)
  then show ?thesis using assms(1,2) by (simp add: resend_ok_def no_sends_def)
qed

definition resends_safely :: "'a calling \<Rightarrow> bool" where
  "resends_safely p \<longleftrightarrow> (\<forall>rs h out n. run p rs = (h, out) \<longrightarrow> n < length h \<longrightarrow> resend_ok (fst (h ! n)) (take n h))"

lemma resends_safelyI: "exchanged resend_ok whatever whatever p [] \<Longrightarrow> resends_safely p"
  unfolding resends_safely_def by (intro allI impI, rule run_duty) (assumption, assumption, assumption, blast)

lemma open_stream_sends: "no_sends h \<Longrightarrow> exchanged resend_ok whatever whatever (open_stream 2 path body) h"
  unfolding numeral_2_eq_2 open_stream.simps
  by (rule sends_once_more [where k' = "\<lambda>r. case r of
      NConnectFailed \<Rightarrow> Throw NoAvailable | NFailed \<Rightarrow> Throw Interrupted
    | NReplied h \<Rightarrow> if hp_status h = 200 then Ret h else seq (tell NRead) (\<lambda>_. seq (tell NClose) (\<lambda>_. raise_for_refusal h))
    | _ \<Rightarrow> lacking r"])
    (auto intro!: asks_seq split: net_answer.split)

lemma post_summary_sends: "exchanged resend_ok whatever whatever (post_summary 2 body) []"
proof -
  have reply: "asks (\<lambda>q. \<not> is_send q) (summary_reply h)" for h
    unfolding summary_reply_def by (auto intro!: asks_seq split: json.split prod.split bool.split)
  show ?thesis
    unfolding numeral_2_eq_2 post_summary.simps
    by (rule sends_once_more [where k' = "\<lambda>r. case r of
        NConnectFailed \<Rightarrow> Throw NoAvailable | NFailed \<Rightarrow> Throw Interrupted | NReplied h \<Rightarrow> summary_reply h | _ \<Rightarrow> lacking r"])
      (auto simp: no_sends_def reply split: net_answer.split)
qed

lemma post_embeddings_sends: "no_sends h \<Longrightarrow> exchanged resend_ok whatever whatever (post_embeddings 2 body) h"
  unfolding numeral_2_eq_2 post_embeddings.simps
  by (rule sends_once_more [where k' = "\<lambda>r. case r of
        NConnectFailed \<Rightarrow> Throw NoAvailable | NFailed \<Rightarrow> Throw Interrupted | NReplied h \<Rightarrow> Ret h | _ \<Rightarrow> lacking r"])
    (auto split: net_answer.split)

lemma send_lifecycle_sends: "exchanged resend_ok whatever whatever (send_lifecycle 2 action body) []"
  unfolding numeral_2_eq_2 send_lifecycle.simps
  by (rule sends_once_more [where k' = "\<lambda>r. case r of
      NConnectFailed \<Rightarrow> Throw NoAvailable | NFailed \<Rightarrow> Throw Interrupted
    | NReplied h \<Rightarrow> if hp_status h = 200 \<or> hp_status h = 202 \<or> hp_status h = 502 then Ret h
        else seq (tell NRead) (\<lambda>_. seq (tell NClose) (\<lambda>_. if hp_status h = 422 then Throw Capability else raise_for_refusal h))
    | _ \<Rightarrow> lacking r"])
    (auto simp: no_sends_def intro!: asks_seq split: net_answer.split)

subsection \<open>What follows a reply\<close>

lemma unsent_decoding: "asks f (escaping x)"
  by simp

lemma asks_yield_all: "(\<And>c. f (NYield c)) \<Longrightarrow> asks f (yield_all cs)"
  by (induction cs) (auto intro!: asks_seq)

lemma asks_stream_lines: "f NLine \<Longrightarrow> (\<And>j s. asks f (g j s)) \<Longrightarrow> asks f (stream_lines n g s)"
  by (induction n arbitrary: s) (auto intro!: asks_seq split: net_answer.split line.split)

lemma asks_stream_event:
  assumes "\<And>c. f (NYield c)"
  shows "asks f (stream_event mint j s)"
proof -
  have chunk: "asks f (case x of (c, d) \<Rightarrow> (case c of None \<Rightarrow> Ret (s\<lparr>st_decoder := d\<rparr>)
      | Some c \<Rightarrow> seq (tell (NYield c)) (\<lambda>_. Ret (s\<lparr>st_decoder := d, st_emitted := True\<rparr>))))" for x
    using assms by (cases x; cases "fst x") (auto intro!: asks_seq)
  have "asks f (if truthy err then Ret s else seq (escaping (decode mint data (st_decoder s))) (\<lambda>(c, d).
      case c of None \<Rightarrow> Ret (s\<lparr>st_decoder := d\<rparr>)
      | Some c \<Rightarrow> seq (tell (NYield c)) (\<lambda>_. Ret (s\<lparr>st_decoder := d, st_emitted := True\<rparr>))))" for err data
    by (cases "truthy err") (simp, simp only: if_False, intro asks_seq chunk, simp)
  then have "asks f (seq (escaping (get_of data ''error'')) (\<lambda>err. if truthy err then Ret s
      else seq (escaping (decode mint data (st_decoder s))) (\<lambda>(c, d). case c of None \<Rightarrow> Ret (s\<lparr>st_decoder := d\<rparr>)
      | Some c \<Rightarrow> seq (tell (NYield c)) (\<lambda>_. Ret (s\<lparr>st_decoder := d, st_emitted := True\<rparr>)))))" for data
    by (intro asks_seq) simp_all
  then show ?thesis unfolding stream_event_def Let_def by (intro asks_seq) simp_all
qed

lemma asks_settle: "asks f (settle s)"
  unfolding settle_def by (auto intro!: asks_seq split: option.split)

lemma asks_replay_existing: "asks f (replay_existing mint j)"
  unfolding replay_existing_def by (auto intro!: asks_seq)

lemma asks_read_generation:
  "(\<And>c. f (NYield c)) \<Longrightarrow> f NLine \<Longrightarrow> f NRead \<Longrightarrow> asks f (read_generation mint fuel h)"
  unfolding read_generation_def
  by (auto intro!: asks_seq asks_yield_all asks_stream_lines asks_stream_event asks_settle asks_replay_existing)

lemma asks_lifecycle_outcome [simp]: "asks f (lifecycle_outcome j)"
  unfolding lifecycle_outcome_def by (auto intro!: asks_seq split: option.split)

section \<open>How often a request is sent\<close>

lemma generate_sends: "exchanged resend_ok whatever whatever
    (generate mint fuel env ref messages max_tokens thinking tools choice sampling context) []"
proof -
  have "exchanged resend_ok whatever whatever (seq (open_stream 2 path body) (\<lambda>h. finally_do (read_generation mint fuel h) NClose)) []"
    for path body
    by (intro unsent_seq open_stream_sends asks_finally asks_read_generation) (simp_all add: no_sends_def)
  then show ?thesis
    unfolding generate_def by (simp del: traced_seq split: option.split)
qed

lemma summarise_sends: "exchanged resend_ok whatever whatever (summarise oid ref messages context) []"
  unfolding summarise_def traced_handle
  by (rule traced.meets_conseq [where Q = whatever and E = whatever]) (simp_all add: post_summary_sends)

lemma embed_sends: "exchanged resend_ok whatever whatever (embed env ref texts expected cached) []"
proof -
  have pin: "exchanged resend_ok (\<lambda>_. no_sends) whatever (pin_enforced ref expected cached) []"
  proof -
    have "asks (\<lambda>q. \<not> is_send q) (pin_stated j)" for j unfolding pin_stated_def by (auto intro!: asks_seq)
    then have "asks (\<lambda>q. \<not> is_send q) (pin_enforced ref expected cached)"
      unfolding pin_enforced_def by (auto intro!: asks_seq split: option.split net_answer.split)
    then have "exchanged (\<lambda>_ _. True) (\<lambda>_. no_sends) whatever (pin_enforced ref expected cached) []"
      by (rule asks_keeps) (simp_all add: no_sends_def)
    moreover have "exchanged resend_ok whatever whatever (pin_enforced ref expected cached) []"
      by (rule unsent) fact
    ultimately show ?thesis by (rule traced_both)
  qed
  have reply: "asks (\<lambda>q. \<not> is_send q) (embedding_reply h)" for h
    unfolding embedding_reply_def by (auto intro!: asks_seq split: json.split prod.split bool.split)
  have "exchanged resend_ok whatever whatever (seq (post_embeddings 2 body) embedding_reply) h" if "no_sends h" for body h
    by (intro unsent_seq post_embeddings_sends that reply)
  then have "exchanged resend_ok whatever whatever (seq (pin_enforced ref expected cached) (\<lambda>_. seq (post_embeddings 2 body) embedding_reply)) []"
    for body
    unfolding traced_seq [of _ _ "pin_enforced _ _ _"] by (rule traced.meets_conseq [OF pin]) simp_all
  then show ?thesis unfolding embed_def by simp
qed

lemma lifecycle_sends:
  "exchanged resend_ok whatever whatever (client_lifecycle oid action ref context) []"
  "exchanged resend_ok whatever whatever (client_repin oid ref digest) []"
  "exchanged resend_ok whatever whatever (client_pull fuel oid ref) []"
proof -
  have after: "exchanged resend_ok whatever whatever (seq (send_lifecycle 2 a body) f) []"
    if "\<And>h. asks (\<lambda>q. \<not> is_send q) (f h)" for a body and f :: "http_reply \<Rightarrow> unit calling"
    by (intro unsent_seq send_lifecycle_sends that)
  have repin: "asks (\<lambda>q. \<not> is_send q) (repin_outcome j)" for j
    unfolding repin_outcome_def Let_def by (auto intro!: asks_seq)
  have pull: "asks (\<lambda>q. \<not> is_send q) (pull_event j tm)" for j tm
    unfolding pull_event_def by (auto intro!: asks_seq)
  show "exchanged resend_ok whatever whatever (client_lifecycle oid action ref context) []"
    unfolding client_lifecycle_def by (cases "valid_ref ref") (auto simp del: traced_seq intro!: after asks_seq)
  show "exchanged resend_ok whatever whatever (client_repin oid ref digest) []"
    unfolding client_repin_def by (cases "valid_ref ref") (auto simp del: traced_seq intro!: after asks_seq repin)
  show "exchanged resend_ok whatever whatever (client_pull fuel oid ref) []"
    unfolding client_pull_def
    by (cases "valid_ref ref") (auto simp del: traced_seq intro!: after asks_finally asks_seq asks_stream_lines pull)
qed

text \<open>
  C30: Whatever the gateway asks an agent to do (a generation, a summary, an embedding, a load, an unload, a pull
  or a re-pin), it sends the request at most twice, the second time the very same request with the same
  operation identity, and only when no connection could be made for the first.
\<close>

theorem requests_are_resent_safely:
  "resends_safely (generate mint fuel env ref messages max_tokens thinking tools choice sampling context)
   \<and> resends_safely (summarise oid ref messages window)
   \<and> resends_safely (embed env ref texts expected cached)
   \<and> resends_safely (client_lifecycle oid action ref context)
   \<and> resends_safely (client_repin oid ref digest)
   \<and> resends_safely (client_pull fuel oid ref)"
  by (intro conjI resends_safelyI generate_sends summarise_sends embed_sends lifecycle_sends)

section \<open>What a generation yields\<close>

definition yielded :: "(net_request \<times> net_answer) list \<Rightarrow> chunk list" where
  "yielded h = concat (map (\<lambda>(q, r). case (q, r) of (NYield c, NTaken) \<Rightarrow> [c] | _ \<Rightarrow> []) h)"

definition line_events :: "(net_request \<times> net_answer) list \<Rightarrow> json list" where
  "line_events h = concat (map (\<lambda>(q, r). case (q, r) of (NLine, NLineIs (Decoded j)) \<Rightarrow> [j] | _ \<Rightarrow> []) h)"

lemma yielded_simps [simp]:
  "yielded [] = []" "yielded (h @ h') = yielded h @ yielded h'"
  "yielded ((q, r) # h) = (case (q, r) of (NYield c, NTaken) \<Rightarrow> [c] | _ \<Rightarrow> []) @ yielded h"
  by (simp_all add: yielded_def)

lemma line_events_simps [simp]:
  "line_events [] = []" "line_events (h @ h') = line_events h @ line_events h'"
  "line_events ((q, r) # h) = (case (q, r) of (NLine, NLineIs (Decoded j)) \<Rightarrow> [j] | _ \<Rightarrow> []) @ line_events h"
  by (simp_all add: line_events_def)

text \<open>The runtime's lines among the events, without those that report an error, and the last terminal event.\<close>

definition runtime_line :: "json \<Rightarrow> json list" where
  "runtime_line j = (let data = por (jget j ''data'') (JObj []) in
     if jget j ''type'' = JStr ''line'' \<and> \<not> truthy (jget data ''error'') then [data] else [])"

definition is_terminal :: "json \<Rightarrow> bool" where
  "is_terminal j \<longleftrightarrow> jget j ''type'' = JStr ''terminal''"

definition last_terminal :: "json list \<Rightarrow> json option" where
  "last_terminal js = (let ts = filter is_terminal js in if ts = [] then None else Some (last ts))"

definition stream_inv :: "(nat \<Rightarrow> string) \<Rightarrow> streaming \<Rightarrow> (net_request \<times> net_answer) list \<Rightarrow> bool" where
  "stream_inv mint s h \<longleftrightarrow>
     decode_all mint (concat (map runtime_line (line_events h))) new_decoder = Inr (yielded h, st_decoder s)
   \<and> st_terminal s = last_terminal (line_events h)"

lemma last_terminal_snoc: "last_terminal (js @ [j]) = (if is_terminal j then Some j else last_terminal js)"
  by (simp add: last_terminal_def)

lemma get_of_InrD: "get_of j k = Inr v \<Longrightarrow> jget j k = v \<and> (\<forall>k'. get_of j k' = Inr (jget j k'))"
  by (cases j) (simp_all add: get_of_def jget_def)

lemma exchanged_escaping:
  "exchanged D Q E (escaping x) h \<longleftrightarrow> (case x of Inl e \<Rightarrow> E (Escaped e) h | Inr a \<Rightarrow> Q a h)"
  by (simp add: escaping_def of_sum_def split: sum.split)

lemma exchanged_tell:
  "D q h \<Longrightarrow> Q () (h @ [(q, NTaken)]) \<Longrightarrow> (\<And>r x. E (Escaped x) (h @ [(q, r)])) \<Longrightarrow> exchanged D Q E (tell q) h"
  by (simp add: tell_def lacking_def split: net_answer.split)

text \<open>Errors: nothing is claimed of the ones that escape.\<close>

definition failed_told :: "(net_request \<times> net_answer) list \<Rightarrow> bool" where
  "failed_told h \<longleftrightarrow>
     (\<exists>q hp j v. (q, NReplied hp) \<in> set h \<and> hp_doc hp = Some j \<and> view_of j = Inr v \<and> av_state v = ''failed'')
   \<or> (\<exists>j \<in> set (line_events h). is_terminal j \<and> jget j ''state'' = JStr ''failed'')"

text \<open>A terminal event whose reason is one of maintenance.\<close>

definition maintenance_told :: "(net_request \<times> net_answer) list \<Rightarrow> bool" where
  "maintenance_told h \<longleftrightarrow>
     (\<exists>j \<in> set (line_events h). is_terminal j \<and> jget j ''reason'' \<in> JStr ` set MAINTENANCE_REASONS)"

definition failed_if :: "client_error \<Rightarrow> (net_request \<times> net_answer) list \<Rightarrow> bool" where
  "failed_if e h \<longleftrightarrow> (e = NoAvailable \<longrightarrow> failed_told h) \<and> (e = Stopped \<longrightarrow> maintenance_told h) \<and> (\<forall>n. e \<noteq> Overloaded n)"

lemma failed_if_simps [simp]:
  "failed_if (Escaped x) h" "failed_if Interrupted h" "failed_if Stopped h = maintenance_told h"
  "failed_if NoAvailable h = failed_told h"
  by (simp_all add: failed_if_def)

abbreviation open_exchange :: "net_request \<Rightarrow> (net_request \<times> net_answer) list \<Rightarrow> bool" where
  "open_exchange \<equiv> \<lambda>_ _. True"

lemma stream_event_inv:
  assumes "stream_inv mint s h"
  shows "exchanged open_exchange (stream_inv mint) failed_if (stream_event mint j s) (h @ [(NLine, NLineIs (Decoded j))])"
proof (cases "get_of j ''type''")
  case (Inr k)
  note get = get_of_InrD [OF Inr]
  let ?data = "por (jget j ''data'') (JObj [])"
  have snoc: "decode_all mint (concat (map runtime_line (line_events h)) @ [x]) new_decoder
      = ebind (decode mint x (st_decoder s)) (\<lambda>(c, d). Inr (yielded h @ (case c of None \<Rightarrow> [] | Some c \<Rightarrow> [c]), d))" for x
    using assms by (simp add: stream_inv_def decode_all_append ebind_def split: sum.split)
  consider (line) "k = JStr ''line''" | (terminal) "k = JStr ''terminal''" | (other) "k \<noteq> JStr ''line''" "k \<noteq> JStr ''terminal''" by blast
  then show ?thesis
  proof cases
    case line
    show ?thesis
    proof (cases "get_of ?data ''error''")
      case (Inr err)
      note data = get_of_InrD [OF Inr]
      show ?thesis
      proof (cases "truthy err")
        case True
        then show ?thesis using line get data Inr \<open>get_of j ''type'' = Inr k\<close> assms
          by (auto simp: stream_event_def exchanged_escaping stream_inv_def runtime_line_def last_terminal_snoc is_terminal_def Let_def)
      next
        case False
        have "exchanged open_exchange (stream_inv mint) failed_if
            (case x of (c, d) \<Rightarrow> (case c of None \<Rightarrow> Ret (s\<lparr>st_decoder := d\<rparr>)
              | Some c \<Rightarrow> seq (tell (NYield c)) (\<lambda>_. Ret (s\<lparr>st_decoder := d, st_emitted := True\<rparr>))))
            (h @ [(NLine, NLineIs (Decoded j))])" if "decode mint ?data (st_decoder s) = Inr x" for x
          using line get data False assms that snoc [of ?data]
          by (cases x; cases "fst x")
            (auto simp: stream_inv_def runtime_line_def last_terminal_snoc is_terminal_def Let_def ebind_def intro!: exchanged_tell)
        then show ?thesis using line False Inr \<open>get_of j ''type'' = Inr k\<close>
          by (auto simp: stream_event_def exchanged_escaping Let_def split: sum.split)
      qed
    qed (use line \<open>get_of j ''type'' = Inr k\<close> in \<open>simp add: stream_event_def exchanged_escaping Let_def\<close>)
  qed (use get \<open>get_of j ''type'' = Inr k\<close> assms in
      \<open>auto simp: stream_event_def exchanged_escaping stream_inv_def runtime_line_def last_terminal_snoc is_terminal_def Let_def\<close>)
qed (simp add: stream_event_def exchanged_escaping)

lemma stream_inv_quiet:
  "stream_inv mint s h \<Longrightarrow> r = NNoMore \<or> r = NLineIs Blank \<Longrightarrow> stream_inv mint s (h @ [(NLine, r)])"
  by (auto simp: stream_inv_def)

lemma stream_lines_inv:
  assumes "stream_inv mint s h"
  shows "exchanged open_exchange (stream_inv mint) failed_if (stream_lines n (stream_event mint) s) h"
  using assms
proof (induction n arbitrary: s h)
  case (Suc n)
  have "exchanged open_exchange (stream_inv mint) failed_if (seq (stream_event mint j s) (stream_lines n (stream_event mint)))
      (h @ [(NLine, NLineIs (Decoded j))])" for j
    unfolding traced_seq by (rule traced.meets_conseq [OF stream_event_inv [OF Suc.prems]]) (auto intro: Suc.IH)
  then show ?case
    by (auto simp: lacking_def stream_inv_quiet Suc.prems Suc.IH simp del: traced_seq split: net_answer.split line.split)
qed simp

definition whole_stream :: "(nat \<Rightarrow> string) \<Rightarrow> (net_request \<times> net_answer) list \<Rightarrow> bool" where
  "whole_stream mint h \<longleftrightarrow>
     (\<exists>d tm. decode_all mint (concat (map runtime_line (line_events h))) new_decoder = Inr (yielded h, d) \<and> de_done d
        \<and> last_terminal (line_events h) = Some tm \<and> jget tm ''state'' = JStr ''completed'')"

definition whole_replay :: "(nat \<Rightarrow> string) \<Rightarrow> (net_request \<times> net_answer) list \<Rightarrow> bool" where
  "whole_replay mint h \<longleftrightarrow>
     (\<exists>q hp j v. (q, NReplied hp) \<in> set h \<and> hp_doc hp = Some j \<and> view_of j = Inr v \<and> av_state v = ''completed''
        \<and> av_result v \<noteq> None \<and> replay mint v = Inr (yielded h))"

lemma last_terminal_in: "last_terminal js = Some t \<Longrightarrow> t \<in> set js \<and> is_terminal t"
proof -
  assume "last_terminal js = Some t"
  then have "filter is_terminal js \<noteq> []" "t = last (filter is_terminal js)" by (auto simp: last_terminal_def Let_def split: if_splits)
  then have "t \<in> set (filter is_terminal js)" using last_in_set by metis
  then show ?thesis by simp
qed

lemma settle_whole:
  assumes "stream_inv mint s h"
  shows "exchanged open_exchange (\<lambda>_. whole_stream mint) failed_if (settle s) h"
proof (cases "st_terminal s")
  case (Some t)
  with assms have t: "last_terminal (line_events h) = Some t" by (simp add: stream_inv_def)
  have "maintenance_told h" if "get_of t ''reason'' = Inr (JStr x)" "x \<in> set MAINTENANCE_REASONS" for x
    using last_terminal_in [OF t] get_of_InrD [OF that(1)] that(2) unfolding maintenance_told_def by auto
  then have "exchanged open_exchange (\<lambda>_ h'. h' = h) failed_if (raise_if_maintenance t) h"
    by (auto simp: raise_if_maintenance_def exchanged_escaping split: sum.split)
  then have "exchanged open_exchange (\<lambda>_. whole_stream mint) failed_if (seq (raise_if_maintenance t) (\<lambda>_.
         if jget t ''state'' = JStr ''failed'' then Throw NoAvailable else Throw Interrupted)) h"
    unfolding traced_seq
    by (rule traced.meets_conseq) (use last_terminal_in [OF t] in \<open>auto simp: failed_told_def\<close>)
  with Some t assms show ?thesis
    by (auto simp: settle_def stream_inv_def whole_stream_def simp del: traced_seq)
qed (simp add: settle_def)

lemma yield_all_yields:
  "exchanged open_exchange (\<lambda>_ h'. yielded h' = yielded h @ cs \<and> set h \<subseteq> set h') failed_if (yield_all cs) h"
proof (induction cs arbitrary: h)
  case (Cons c cs)
  have "exchanged open_exchange (\<lambda>_ h'. yielded h' = yielded h @ c # cs \<and> set h \<subseteq> set h') failed_if (yield_all cs) (h @ [(NYield c, NTaken)])"
    by (rule traced.meets_conseq [OF Cons.IH]) auto
  then show ?case by (auto intro!: exchanged_tell)
qed simp

lemma read_generation_whole:
  assumes "(q, NReplied hp) \<in> set h" "yielded h = []" "line_events h = []"
  shows "exchanged open_exchange (\<lambda>_ h'. whole_stream mint h' \<or> whole_replay mint h') failed_if (read_generation mint fuel hp) h"
proof (cases "hp_json hp")
  case False
  have "stream_inv mint new_streaming h" using assms by (simp add: stream_inv_def new_streaming_def last_terminal_def)
  then have "exchanged open_exchange (\<lambda>s. exchanged open_exchange (\<lambda>_ h'. whole_stream mint h' \<or> whole_replay mint h') failed_if (settle s))
      failed_if (stream_lines fuel (stream_event mint) new_streaming) h"
    by (rule traced.meets_conseq [OF stream_lines_inv]) (auto intro: traced.meets_conseq [OF settle_whole])
  with False show ?thesis by (simp add: read_generation_def)
next
  case True
  have yields: "exchanged open_exchange (\<lambda>_ h'. whole_stream mint h' \<or> whole_replay mint h') failed_if (yield_all cs) (h @ [(NRead, NTaken)])"
    if "hp_doc hp = Some j" "view_of j = Inr v" "av_state v = ''completed''" "av_result v \<noteq> None" "replay mint v = Inr cs" for j v cs
  proof (rule traced.meets_conseq [OF yield_all_yields])
    fix x t assume "yielded t = yielded (h @ [(NRead, NTaken)]) @ cs \<and> set (h @ [(NRead, NTaken)]) \<subseteq> set t"
    then have "replay mint v = Inr (yielded t)" "(q, NReplied hp) \<in> set t" using that(5) assms by auto
    with that(1-4) have "whole_replay mint t" unfolding whole_replay_def by blast
    then show "whole_stream mint t \<or> whole_replay mint t" ..
  qed
  have "exchanged open_exchange (\<lambda>cs. exchanged open_exchange (\<lambda>_ h'. whole_stream mint h' \<or> whole_replay mint h') failed_if (yield_all cs))
      failed_if (replay_existing mint j) (h @ [(NRead, NTaken)])" if "hp_doc hp = Some j" for j
    using that yields [OF that] assms(1)
    by (fastforce simp: replay_existing_def exchanged_escaping failed_told_def split: sum.split)
  then show ?thesis using True
    by (auto simp: read_generation_def doc_of_def split: option.split intro!: exchanged_tell)
qed

section \<open>What an error of a generation says\<close>

definition unreached :: "(net_request \<times> net_answer) list \<Rightarrow> bool" where
  "unreached h \<longleftrightarrow> h \<noteq> [] \<and> list_all (\<lambda>(q, r). r = NConnectFailed) h"

text \<open>What the agent replied: a refusal that is no 503, a 503 in words of maintenance, or any other 503.\<close>

definition refused_told :: "(net_request \<times> net_answer) list \<Rightarrow> bool" where
  "refused_told h \<longleftrightarrow> (\<exists>q hp. (q, NReplied hp) \<in> set h \<and> hp_status hp \<noteq> 200 \<and> hp_status hp \<noteq> 503)"

definition maintenance_words :: "string \<Rightarrow> bool" where
  "maintenance_words why \<longleftrightarrow> begins ''maintenance'' why \<or> begins ''node_maintenance'' why"

definition stopped_told :: "(net_request \<times> net_answer) list \<Rightarrow> bool" where
  "stopped_told h \<longleftrightarrow> (\<exists>q hp why. (q, NReplied hp) \<in> set h \<and> hp_status hp = 503 \<and> refusal_text hp = Inr why
     \<and> maintenance_words why)"

definition overload_told :: "nat \<Rightarrow> (net_request \<times> net_answer) list \<Rightarrow> bool" where
  "overload_told n h \<longleftrightarrow> (\<exists>q hp why. (q, NReplied hp) \<in> set h \<and> hp_status hp = 503 \<and> refusal_text hp = Inr why
     \<and> \<not> maintenance_words why \<and> retry_seconds (hp_retry hp) = Inr n)"

definition told_why :: "client_error \<Rightarrow> (net_request \<times> net_answer) list \<Rightarrow> bool" where
  "told_why e h \<longleftrightarrow>
     (e = NoAvailable \<longrightarrow> unreached h \<or> refused_told h \<or> failed_told h)
   \<and> (e = Stopped \<longrightarrow> stopped_told h \<or> maintenance_told h)
   \<and> (\<forall>n. e = Overloaded n \<longrightarrow> overload_told n h)"

lemma told_why_escaped [simp]: "told_why (Escaped x) h" "told_why Interrupted h" "told_why BadReference h" "told_why Capability h"
  by (simp_all add: told_why_def)

lemma exchanged_refusal:
  assumes "(q, NReplied hp) \<in> set h" "hp_status hp \<noteq> 200"
  shows "exchanged open_exchange Q told_why (raise_for_refusal hp) h"
proof (cases "refusal_text hp")
  case (Inr why)
  have "told_why Stopped h" if "hp_status hp = 503" "maintenance_words why"
    using assms(1) Inr that unfolding told_why_def stopped_told_def by blast
  moreover have "told_why (Overloaded n) h"
    if "hp_status hp = 503" "\<not> maintenance_words why" "retry_seconds (hp_retry hp) = Inr n" for n
    using assms(1) Inr that unfolding told_why_def overload_told_def by blast
  moreover have "told_why NoAvailable h" if "hp_status hp \<noteq> 503"
    using assms that unfolding told_why_def refused_told_def by blast
  ultimately show ?thesis
    by (simp add: raise_for_refusal_def Inr maintenance_words_def split: sum.split)
qed (simp add: raise_for_refusal_def)

lemma open_stream_told:
  "exchanged open_exchange (\<lambda>hp h. (\<exists>q. (q, NReplied hp) \<in> set h) \<and> yielded h = [] \<and> line_events h = []) told_why
     (open_stream 2 ''/v1/inference'' body) []"
proof -
  let ?Q = "\<lambda>hp h. (\<exists>q. (q, NReplied hp) \<in> set h) \<and> yielded h = [] \<and> line_events h = []"
  have refused: "exchanged open_exchange ?Q told_why
      (seq (tell NRead) (\<lambda>_. seq (tell NClose) (\<lambda>_. raise_for_refusal hp))) h"
    if "(q, NReplied hp) \<in> set h" "hp_status hp \<noteq> 200" for q hp h
  proof -
    have "exchanged open_exchange ?Q told_why (seq (tell NClose) (\<lambda>_. raise_for_refusal hp)) (h @ [(NRead, NTaken)])"
      unfolding traced_seq by (rule exchanged_tell) (use that in \<open>auto intro!: exchanged_refusal\<close>)
    then show ?thesis unfolding traced_seq [of _ _ "tell NRead"] by (intro exchanged_tell) (use that in \<open>auto simp del: traced_seq\<close>)
  qed
  have gone: "told_why NoAvailable [(q, NConnectFailed), (q', NConnectFailed)]" for q q'
    by (simp add: told_why_def unreached_def)
  show ?thesis
    unfolding numeral_2_eq_2 open_stream.simps
    by (auto simp: gone lacking_def split: net_answer.split simp del: traced_seq intro!: refused)
qed

lemma whole_closed:
  "whole_stream mint h \<or> whole_replay mint h \<Longrightarrow> whole_stream mint (h @ [(NClose, r)]) \<or> whole_replay mint (h @ [(NClose, r)])"
proof (elim disjE)
  assume "whole_replay mint h"
  then have "whole_replay mint (h @ [(NClose, r)])" unfolding whole_replay_def by auto blast
  then show ?thesis ..
qed (simp add: whole_stream_def)

lemma failed_closed: "failed_told h \<Longrightarrow> failed_told (h @ [(NClose, r)])"
  unfolding failed_told_def by (auto; blast)

lemma maintenance_closed: "maintenance_told h \<Longrightarrow> maintenance_told (h @ [(NClose, r)])"
  unfolding maintenance_told_def by auto

lemma told_why_closed: "failed_if e h \<Longrightarrow> told_why e (h @ [(NClose, r)])"
  using failed_closed [of h r] maintenance_closed [of h r] by (auto simp: told_why_def failed_if_def)

lemma generate_told:
  "exchanged open_exchange (\<lambda>_ h. whole_stream mint h \<or> whole_replay mint h) told_why
     (generate mint fuel env ref messages max_tokens thinking tools choice sampling context) []"
proof -
  have "exchanged open_exchange (\<lambda>_ h. whole_stream mint h \<or> whole_replay mint h) told_why
      (seq (open_stream 2 ''/v1/inference'' body) (\<lambda>hp. finally_do (read_generation mint fuel hp) NClose)) []" for body
    unfolding traced_seq
  proof (rule traced.meets_conseq [OF open_stream_told])
    fix hp h assume hp: "(\<exists>q. (q, NReplied hp) \<in> set h) \<and> yielded h = [] \<and> line_events h = []"
    then obtain q where q: "(q, NReplied hp) \<in> set h" by blast
    have "exchanged open_exchange (\<lambda>x h'. (whole_stream mint h' \<or> whole_replay mint h') \<and> set h \<subseteq> set h')
        (\<lambda>e h'. failed_if e h' \<and> set h \<subseteq> set h') (read_generation mint fuel hp) h"
      by (rule traced_conj [OF read_generation_whole [OF q] traced_grows]) (use hp in simp_all)
    then show "exchanged open_exchange (\<lambda>_ h. whole_stream mint h \<or> whole_replay mint h) told_why
        (finally_do (read_generation mint fuel hp) NClose) h"
      unfolding meets_finally
      by (rule traced.meets_conseq) (use q whole_closed in \<open>blast intro: told_why_closed\<close>)+
  qed
  then show ?thesis unfolding generate_def by (simp del: traced_seq split: option.split)
qed

text \<open>
  C31: A generation that returns has handed on either exactly the chunks of the runtime's lines, decoded from the
  first to the final one, in a stream whose terminal event says \<open>completed\<close>, or exactly the replay of a
  completed attempt's stored result: never a stream that was cut off.
\<close>

theorem generation_returns_only_the_whole:
  assumes "run (generate mint fuel env ref messages max_tokens thinking tools choice sampling context) rs = (h, Returned ())"
  shows "whole_stream mint h \<or> whole_replay mint h"
  using traced_run [OF generate_told, of mint fuel env ref messages max_tokens thinking tools choice sampling "context" rs] assms
  by simp

definition sample_call :: "net_answer list \<Rightarrow> (net_request \<times> net_answer) list \<times> (net_request, client_error, unit) ending" where
  "sample_call = run (generate (\<lambda>_. ''c'') 4 \<lparr>env_op_id = ''o'', env_request_id = None, env_payload_hash = None, env_store_output = False\<rparr>
     ''m'' [] (Some 16) True [] None None (Some 4096))"

definition sample_opened :: net_answer where
  "sample_opened = NReplied \<lparr>hp_status = 200, hp_doc = None, hp_text = [], hp_retry = None, hp_json = False\<rparr>"

definition sample_answers :: "net_answer list" where
  "sample_answers = [sample_opened, NLineIs (Decoded (JObj [(''type'', JStr ''line''), (''data'', sample_last)])), NTaken,
     NLineIs (Decoded (JObj [(''type'', JStr ''terminal''), (''state'', JStr ''completed'')])), NNoMore, NTaken]"

theorem generation_returns_only_the_whole_witness:
  "whole_stream (\<lambda>_. ''c'') (fst (sample_call sample_answers)) \<or> whole_replay (\<lambda>_. ''c'') (fst (sample_call sample_answers))"
proof -
  have "snd (sample_call sample_answers) = Returned ()" by code_simp
  then have "sample_call sample_answers = (fst (sample_call sample_answers), Returned ())" by (metis prod.collapse)
  from generation_returns_only_the_whole [OF this [unfolded sample_call_def]] show ?thesis by (simp add: sample_call_def)
qed

text \<open>
  C32: A generation ends in \<open>NoAvailableModelError\<close> itself only when every attempt to connect failed, when the
  agent replied with a refusal that is no 503, or when the agent's description or terminal event says the attempt
  failed. It reports maintenance only on a 503 whose refusal says so or on a terminal event with a maintenance
  reason, and an overloaded node only on another 503, with the delay that reply asks for. A read that fails or
  times out is none of these.
\<close>

theorem generation_error_says_why:
  assumes "run (generate mint fuel env ref messages max_tokens thinking tools choice sampling context) rs = (h, Raised e)"
  shows "(e = NoAvailable \<longrightarrow> unreached h \<or> refused_told h \<or> failed_told h)
    \<and> (e = Stopped \<longrightarrow> stopped_told h \<or> maintenance_told h)
    \<and> (\<forall>n. e = Overloaded n \<longrightarrow> overload_told n h)"
  using traced_run [OF generate_told, of mint fuel env ref messages max_tokens thinking tools choice sampling "context" rs] assms
  by (simp add: told_why_def)

definition sample_busy :: net_answer where
  "sample_busy = NReplied \<lparr>hp_status = 503, hp_doc = Some (JObj [(''refused'', JStr ''queue_full'')]), hp_text = [],
     hp_retry = Some ''7'', hp_json = True\<rparr>"

theorem generation_error_says_why_witness:
  "overload_told 7 (fst (sample_call [NConnectFailed, sample_busy, NTaken, NTaken]))
   \<and> (unreached (fst (sample_call [NConnectFailed, NConnectFailed])) \<or> refused_told (fst (sample_call [NConnectFailed, NConnectFailed]))
      \<or> failed_told (fst (sample_call [NConnectFailed, NConnectFailed])))"
proof -
  let ?c = "sample_call [NConnectFailed, NConnectFailed]" and ?b = "sample_call [NConnectFailed, sample_busy, NTaken, NTaken]"
  have "snd ?c = Raised NoAvailable" "snd ?b = Raised (Overloaded 7)" by code_simp+
  then have "?c = (fst ?c, Raised NoAvailable)" "?b = (fst ?b, Raised (Overloaded 7))" by (metis prod.collapse)+
  from this [unfolded sample_call_def, THEN generation_error_says_why] show ?thesis by (simp add: sample_call_def)
qed

section \<open>A batch that maintenance stopped\<close>

text \<open>
  The agent answers a batch whose outcome is unknown with 503 and the attempt's description. The client looks for
  a maintenance reason only in a 200, so it reports the very attempt it would report as stopped by maintenance,
  met under its identity a second time, as an overloaded node that may be asked again in a minute.
\<close>

definition sample_interrupted :: operation where
  "sample_interrupted = \<lparr>node_id = ''n'', op_id = ''o'', kind = ''embedding_batch'', op_state = OutcomeUnknown, origin_generation = 1,
     origin_boot_id = ''b'', owner_generation = 1, request_id = None, payload_hash = None, store_output = False,
     reason = Some ''maintenance_interrupted'', terminal = None, replay_unavailable = False, provenance = [], observed = None,
     submitted_at = 0, running_at = Some 0, resolved_at = None, resolved_by = None\<rparr>"

definition sample_description :: json where
  "sample_description = JObj [(''op_id'', JStr ''o''), (''kind'', JStr ''embedding_batch''), (''state'', JStr ''outcome_unknown''),
     (''reason'', JStr ''maintenance_interrupted''), (''terminal'', JNull), (''replay_unavailable'', JBool False)]"

theorem a_stopped_batch_is_called_an_overload:
  "snd (run (embeddings_done 2 ''o'') [AJson None, ADone, AOperation (Some sample_interrupted)]) = Returned (Reply 503 sample_description None)
   \<and> snd (run (embedding_reply \<lparr>hp_status = 503, hp_doc = Some sample_description, hp_text = CHR ''{'' # body, hp_retry = None, hp_json = True\<rparr>) [])
       = Raised (Overloaded 60)
   \<and> snd (run (existing sample_interrupted ''embedding_batch'' None) []) = Returned (json_reply sample_description)
   \<and> snd (run (embedding_reply \<lparr>hp_status = 200, hp_doc = Some sample_description, hp_text = CHR ''{'' # body, hp_retry = None, hp_json = True\<rparr>) [])
       = Raised Stopped"
proof (intro conjI)
  show "snd (run (embeddings_done 2 ''o'') [AJson None, ADone, AOperation (Some sample_interrupted)]) = Returned (Reply 503 sample_description None)"
    "snd (run (existing sample_interrupted ''embedding_batch'' None) []) = Returned (json_reply sample_description)"
    by code_simp+
  show "snd (run (embedding_reply \<lparr>hp_status = 503, hp_doc = Some sample_description, hp_text = CHR ''{'' # body, hp_retry = None, hp_json = True\<rparr>) [])
      = Raised (Overloaded 60)"
    by (simp add: embedding_reply_def raise_for_refusal_def refusal_text_def sample_description_def get_of_def jget_def dget_def
        por_def py_str_def begins_def retry_seconds_def)
  show "snd (run (embedding_reply \<lparr>hp_status = 200, hp_doc = Some sample_description, hp_text = CHR ''{'' # body, hp_retry = None, hp_json = True\<rparr>) [])
      = Raised Stopped"
    by (simp add: embedding_reply_def doc_of_def escaping_def of_sum_def vectors_of_def raise_if_maintenance_def hashable_def
        MAINTENANCE_REASONS_def sample_description_def get_of_def jget_def dget_def)
qed

end
