(* ===== verification/Spec2Isabelle.thy ===== *)
theory Spec2Isabelle
  imports Dispatch_Properties Wire Relay_Properties Supervisor_Protocol Maintenance_Reset
    Coordinator_Properties Reconciler_Properties Api_Protocol Client_Safety
begin

text \<open>
  A model of the core of RCSL-AI-Nexus, a platform that serves language models from a few machines with
  unified memory. A gateway routes requests to nodes; on each node one agent owns the runtime (Ollama) and
  is the only process that sends to it; administrators close the platform for maintenance, reset the
  runtimes and restore what was loaded; a reconciler keeps wanted models resident. The hard part, and what
  is modelled here, is that nothing is sent twice, hidden, reopened or loaded on a guess when processes die,
  databases fail and answers are lost. Paths below are relative to \<open>src/backend/app/\<close> unless they start
  with \<open>scripts/\<close>.

  \<^bold>\<open>The agent's durable operations.\<close> \<^theory_text>\<open>Maintenance_Hold\<close> is the platform-wide hold
  (\<open>domain/entities/maintenance.py\<close> and its repository), \<^theory_text>\<open>Operation_Store\<close> the agent's operation table
  (\<open>node_agent/store.py\<close>), \<^theory_text>\<open>Election\<close> the ownership of a node (\<open>node_agent/election.py\<close>,
  \<open>release_kernel.py\<close>). One method is one function of the database record; its row locks are the atomicity of
  that function. \<^theory_text>\<open>Agent_Protocol\<close> interleaves any number of agents, superseded ones included, with
  administrators; \<^theory_text>\<open>Agent_Spec\<close> is what that promises without tables, \<^theory_text>\<open>Agent_Invariants\<close> and
  \<^theory_text>\<open>Agent_Runs\<close> carry the proofs, \<^theory_text>\<open>Agent_Properties\<close> holds the results: an operation is promoted once, a
  superseded owner is fenced, an unknown outcome blocks its node, terminal rows are final, and every step
  refines a step of the abstract protocol.

  \<^bold>\<open>The dispatcher.\<close> \<^theory_text>\<open>Delivery\<close> (the bounded event queue of an attempt) and \<^theory_text>\<open>Dispatch\<close> (the gate, the
  slots, the exclusive hold) are \<open>node_agent/dispatch.py\<close>, cut at its awaits; a block between two awaits is
  one function of the gate. \<^theory_text>\<open>Dispatch_Protocol\<close> is one agent process with any number of calls and tasks,
  and everybody else on the database. \<^theory_text>\<open>Dispatch_Invariants\<close>, \<^theory_text>\<open>Dispatch_Tasks\<close>, \<^theory_text>\<open>Dispatch_Exclusive\<close>,
  \<^theory_text>\<open>Dispatch_History\<close> and \<^theory_text>\<open>Dispatch_Safety\<close> prove the invariant of that process piece by piece;
  \<^theory_text>\<open>Dispatch_Properties\<close> concludes: sent at most once and never reported unsent, a frozen gate sends only
  its restore, a lifecycle operation is alone, a serving gate hides nothing.

  \<^bold>\<open>The agent's HTTP surface.\<close> \<^theory_text>\<open>Guard\<close> is \<open>node_agent/guard.py\<close> with the catalogue of
  \<open>domain/services/validated_profiles.py\<close>. \<^theory_text>\<open>Agent_Api\<close>, \<^theory_text>\<open>Agent_Routes\<close> and \<^theory_text>\<open>Agent_Maintenance\<close> are the routes
  of \<open>node_agent/api.py\<close> and the watchdog of \<open>node_agent/service.py\<close>, as trees of what they await of the store, the
  dispatcher, the runtime and the supervisor; \<^theory_text>\<open>Agent_Rights\<close> puts the tokens before them. What they ask for is the
  interface of the theories above: a submission is \<open>submit\<close> of \<^theory_text>\<open>Dispatch\<close>, a send is a relay of \<^theory_text>\<open>Relay\<close>, a row is an
  operation of \<^theory_text>\<open>Operation_Store\<close>. \<^theory_text>\<open>Api_Safety\<close> and \<^theory_text>\<open>Api_Protocol\<close> show, for any answers: only the control token
  controls, an inference is submitted only as the guard saw it, results go to the request they belong to, maintenance acts
  only behind the hold it names, the gate is reopened only over a quiet runtime, the watchdog ends the process. Two
  theorems show where the code does less than it says: \<open>a_resume_may_slip_before_a_restart\<close> and
  \<open>a_start_serves_without_asking\<close>.

  \<^bold>\<open>The gateway's side of the agent.\<close> \<^theory_text>\<open>Agent_Client\<close> is \<open>adapters/runtime/node_agent_adapter.py\<close>, as trees of its
  exchanges and of the chunks it yields, with \<^theory_text>\<open>Chat_Decoder\<close> (\<open>ollama_adapter/decoding.py\<close>) and \<^theory_text>\<open>Model_Ref\<close>
  (\<open>adapters/runtime/validation.py\<close>). \<^theory_text>\<open>Client_Safety\<close>: a request is resent only if no connection was made, a
  generation that returns is whole, an error says what the agent said; \<open>a_stopped_batch_is_called_an_overload\<close> is a
  case where it does not.

  \<^bold>\<open>The wire and the relays.\<close> \<^theory_text>\<open>Chat\<close> (\<open>domain/entities/chat.py\<close>), \<^theory_text>\<open>Wire\<close> (\<open>node_agent/wire.py\<close>) and
  \<^theory_text>\<open>Runtime_Encoding\<close> (\<open>adapters/runtime/ollama_adapter/encoding.py\<close>) are the formats, with \<^theory_text>\<open>Py_Values\<close> for
  Python's text of a value; a message crosses the wire unchanged exactly when it is well formed.
  \<^theory_text>\<open>Relay\<close>, \<^theory_text>\<open>Relay_Chat\<close> and \<^theory_text>\<open>Relay_Summary\<close> are \<open>node_agent/relay.py\<close> and \<open>summary.py\<close> over any answers of
  the transport; \<^theory_text>\<open>Relay_Properties\<close> shows that an outcome is the evidence the stream carried, that
  ``not sent'' means no byte left, and that replays and summaries keep their caps.

  \<^bold>\<open>The runtime and its supervisor.\<close> \<^theory_text>\<open>Host_Supervisor\<close> is \<open>scripts/host/runtime_supervisor.py\<close>: a request
  executed against scripted answers of the host, with a fuel for its polling loops.
  \<^theory_text>\<open>Supervisor_Protocol\<close> is the file protocol with \<open>node_agent/supervisor.py\<close> in every interleaving of file
  operations, the supervisor dying at any point. \<^theory_text>\<open>Resolution\<close> and \<^theory_text>\<open>Maintenance_Reset\<close> are
  \<open>node_agent/resolution.py\<close>: the maintenance reset is a tree run against the database and the gate with others
  acting between its calls; it changes an operation only by resolving one that is unknown, on evidence gathered in
  order (baseline, restart, another instance named by the same witness, the hold read again), and its report lists
  what it resolved. \<^theory_text>\<open>Host_Supervisor\<close> shows in turn that a stop signals only processes it had recorded before it
  began; \<^theory_text>\<open>Supervisor_Protocol\<close> that a request is executed at most once and one that was withdrawn not at all
  as long as nobody files it again.

  \<^bold>\<open>Maintenance.\<close> \<^theory_text>\<open>Maintenance_Operations\<close> (the two tables of
  \<open>adapters/persistence/repositories/maintenance_operations.py\<close>) and \<^theory_text>\<open>Manage_Maintenance\<close>
  (\<open>application/use_cases/manage_maintenance.py\<close>) are used by \<^theory_text>\<open>Coordinator\<close>
  (\<open>application/use_cases/maintenance_coordinator.py\<close>), whose passes and node tasks are trees of the calls
  they await (\<^theory_text>\<open>Async_Program\<close>, with the locale \<open>program_rules\<close> of rely and guarantee rules).
  \<^theory_text>\<open>Coordinator_Protocol\<close> interleaves any number of coordinators, orphaned tasks, administrators, failing
  transactions and node answers. \<^theory_text>\<open>Coordinator_Invariants\<close> and \<^theory_text>\<open>Coordinator_Calls\<close> show what each call keeps,
  \<^theory_text>\<open>Coordinator_Tasks\<close> and \<^theory_text>\<open>Coordinator_Passes\<close> that the trees meet their obligations,
  \<^theory_text>\<open>Coordinator_Safety\<close> puts both together, \<^theory_text>\<open>Coordinator_Runs\<close> evaluates whole runs, and
  \<^theory_text>\<open>Coordinator_Properties\<close> concludes: an entry that succeeded cleared every node, the platform reopens only
  by an administrator or whole, stale coordinators are fenced, a snapshot is written once, loads are bounded.

  \<^bold>\<open>Residency.\<close> \<^theory_text>\<open>Residency\<close> holds the rules of \<open>domain/services/residency_reconciliation.py\<close>,
  \<open>routing_service.py\<close> and \<open>memory_budget_service.py\<close>; \<^theory_text>\<open>Reconciler\<close> is
  \<open>application/use_cases/reconcile_residency.py\<close> with its loop, again as trees. \<^theory_text>\<open>Program_Runs\<close> runs a tree
  against a list of answers and interprets \<open>program_rules\<close> with the history of calls as the state, so that an
  obligation can speak of all calls before it. \<^theory_text>\<open>Reconciler_Safety\<close> (the ground and the number of loads),
  \<^theory_text>\<open>Reconciler_Progress\<close> (evidence and wasted passes), \<^theory_text>\<open>Reconciler_Accounts\<close> (the loads an outcome lists, a node
  given up on) and \<^theory_text>\<open>Reconciler_Properties\<close> hold the results: a load is asked only on ground just read while the
  node is held (a release also when the load before it raised), a node is entered on two absences, a node
  is given up and then left alone, and routing reads the same evidence. A pass that an exception ends after a load
  is not counted towards giving up: \<open>raised_pass_not_counted\<close>.
\<close>

text \<open>
  \<^bold>\<open>Conventions.\<close> A record or class is a record, an enumeration a datatype, a raise a value of a sum or a
  branch of a tree. Tables are lists of rows (\<^theory_text>\<open>Prelude\<close>), updated by \<open>upd_where\<close> as the statement's WHERE
  says. Strings are lists of code points below 256. Times are integers (milliseconds in the supervisor,
  microseconds of a \<open>datetime\<close> in the residency rules); figures in GB are exact rationals. Interfaces are
  locales, each interpreted on the model's own definitions: the program rules on the coordinator's world and
  on histories, the lifecycle of an operation on the store, and the ones of the dispatcher and of the relays
  in their theories.

  \<^bold>\<open>Bounds.\<close> The polling loops of the supervisor take a fuel; \<open>execute_ends\<close> shows that the configured
  timeouts divided by the poll interval are enough when the clock advances. The snapshot is tried
  \<open>SNAPSHOT_TRIES\<close> times; a restore and a pass of the reconciler have \<open>1 + MAX_REPAIR_ROUNDS\<close> rounds; a stream
  of a relay is the finite list of what arrived. The loops of a route over an attempt's events and of the client over a
  stream's lines take a number of turns and raise \<open>EventsBeyond\<close> or \<open>LinesBeyond\<close> after it: the theorems about them
  hold for every number, and what returned never reached it. The watchdog runs for any number of turns. Recursion on trees and lists is structural.

  \<^bold>\<open>What is assumed of the surroundings.\<close> A statement or transaction takes effect at once or not at all, and
  one that fails may or may not have been committed where the code cannot know. An advisory lock has one
  holder. The runtime, the transport, the host and the node agents (for the coordinator) answer anything of
  the right shape. Resolutions run one at a time, as their lock has it. SKIP LOCKED only chooses between
  claimable rows and is left out; the \<open>verification\<close> column is kept as the fields the coordinator reads.

  Where the dispatcher loses its role or ends an exclusive operation, waiting for the gate's barrier is taken as
  one block with what precedes it, which is coarser than the code: another task may run while the barrier is awaited.

  The guard's estimate divides exactly where the code divides floats.

  \<^bold>\<open>Not modelled.\<close> Logging, metrics and message texts beyond what a decision reads. The agent's lock file, settings,
  assembly and command line: input and output around what is modelled. The direct Ollama adapter and the MLX
  adapters; the conversion of an embedding to floats in the client. The chat orchestration with its compaction and
  settlement, and the registry's load, unload and download use cases: core logic that is not modelled. Identity, sessions, API keys,
  knowledge, retention and usage records: they rest on hashing, caches and stores that are not part of the
  source, and no modelled decision reads them. Token counting: its merge step is a native library. HTTP
  schemas, error pages, configuration and dependency injection; the evaluation scripts, the migrations and
  the front end.
\<close>

end
